(* ===== verification/Prelude.thy ===== *)
theory Prelude
  imports Main "HOL-Library.Word" "HOL-Library.Multiset"
begin

text \<open>
  What every theory of the development shares: Go errors and outcomes, times and durations,
  and generic facts on lists and finite association maps.

  A Go \<open>error\<close> is a \<open>go_err\<close>: \<open>GoErr\<close> carries the literal text of \<open>errors.New\<close> or of the
  format string of \<open>fmt.Errorf\<close>, \<open>GoWrap\<close> the text and the wrapped cause, \<open>BufferFull\<close> is the
  sentinel \<open>uspclient.ErrorBufferFull\<close> that the adapters compare with. A call that may panic has
  an \<open>outcome\<close>.
\<close>

datatype go_err =
    GoErr string
  | GoWrap string go_err
  | BufferFull

datatype 'a outcome =
    Returns 'a
  | Fails go_err
  | Panics string

type_synonym time = int
type_synonym duration = int

abbreviation (input) nanosecond :: duration where "nanosecond \<equiv> 1"
abbreviation (input) millisecond :: duration where "millisecond \<equiv> 1000000"
abbreviation (input) second :: duration where "second \<equiv> 1000000000"
abbreviation (input) minute :: duration where "minute \<equiv> 60 * second"
abbreviation (input) hour :: duration where "hour \<equiv> 60 * minute"

text \<open>Collections of facts the component proofs pass to the simplifier.\<close>

named_theorems go_string_simps \<open>equations of the string functions of the Go standard library\<close>
named_theorems json_simps \<open>equations of the accessors of dynamic values\<close>
named_theorems run_simps \<open>equations of the effectful operations\<close>
named_theorems wp_simps \<open>weakest preconditions of the effectful operations\<close>

section \<open>Outcomes\<close>

fun bind_outcome :: "'a outcome \<Rightarrow> ('a \<Rightarrow> 'b outcome) \<Rightarrow> 'b outcome" where
  "bind_outcome (Returns x) f = f x"
| "bind_outcome (Fails e) f = Fails e"
| "bind_outcome (Panics s) f = Panics s"

lemma bind_outcome_Returns:
  "bind_outcome m f = Returns y \<longleftrightarrow> (\<exists>x. m = Returns x \<and> f x = Returns y)"
  by (cases m) auto

text \<open>Truncated division, the meaning of \<open>/\<close> on Go integers.\<close>

definition go_div :: "int \<Rightarrow> int \<Rightarrow> int" where
  "go_div a b = sgn a * sgn b * (\<bar>a\<bar> div \<bar>b\<bar>)"

lemma go_div_pos: "0 \<le> a \<Longrightarrow> 0 < b \<Longrightarrow> go_div a b = a div b"
  by (cases "a = 0") (auto simp: go_div_def sgn_if)

section \<open>Association lists as Go maps\<close>

text \<open>
  A Go map is an association list with distinct keys; the order of the list is the order in
  which one \<open>range\<close> over the map visits the entries. Storing a key keeps its position.
\<close>

fun put :: "'k \<Rightarrow> 'v \<Rightarrow> ('k \<times> 'v) list \<Rightarrow> ('k \<times> 'v) list" where
  "put k v [] = [(k, v)]"
| "put k v ((k', v') # xs) = (if k = k' then (k, v) # xs else (k', v') # put k v xs)"

lemma map_of_put [simp]: "map_of (put k v xs) = (map_of xs)(k \<mapsto> v)"
  by (induction k v xs rule: put.induct) auto

lemma map_of_put_same: "map_of (put k v xs) k = Some v"
  by simp

lemma dom_put [simp]: "fst ` set (put k v xs) = insert k (fst ` set xs)"
  by (induction k v xs rule: put.induct) auto

lemma distinct_put [simp]: "distinct (map fst xs) \<Longrightarrow> distinct (map fst (put k v xs))"
  by (induction k v xs rule: put.induct) auto

lemma set_put: "set (put k v xs) \<subseteq> insert (k, v) (set xs)"
  by (induction k v xs rule: put.induct) auto

lemma put_not_Nil [simp]: "put k v xs \<noteq> []"
  by (cases xs) (auto split: if_splits)

section \<open>Lists\<close>

lemma concat_map_Nil_conv: "concat (map f xs) = [] \<longleftrightarrow> (\<forall>x \<in> set xs. f x = [])"
  by (induction xs) auto

lemma mset_concat_map:
  "mset (concat (map f xs)) = (\<Sum>x\<in>#mset xs. mset (f x))"
  by (induction xs) auto

lemma mset_concat_map_perm:
  assumes "mset xs = mset ys"
  shows "mset (concat (map f xs)) = mset (concat (map f ys))"
  unfolding mset_concat_map assms ..

lemma map_of_Some_in_snd: "map_of d k = Some v \<Longrightarrow> v \<in> snd ` set d"
  by (force dest: map_of_SomeD)

end
