(* ===== verification/Json_Value.thy ===== *)
theory Json_Value
  imports Go_Strings
begin

text \<open>
  The dynamic values of \<open>utils/json.go\<close>: a Go \<open>interface{}\<close> as the accessors of \<open>Dict\<close> take it
  apart (\<open>effectiveDict\<close>, \<open>effectiveList\<close>, \<open>StandardInt\<close>, the \<open>Get\<close> methods). The constructors are
  the dynamic types the type switches of the code distinguish. The entries of a map are listed in
  the order in which a \<open>range\<close> over it visits them, and the keys are distinct
  (\<open>wf_gval\<close>). Typed nil maps and slices are not values of the model.
\<close>

section \<open>Values\<close>

text \<open>A \<open>float64\<close>: \<open>Dyadic m e\<close> is \<open>m * 2^e\<close>.\<close>

datatype gfloat = Dyadic int int | PosInf | NegInf | NotANumber

datatype gval =
    GNil
  | GBool bool
  | GString string
  | GInt "64 word" | GInt64 "64 word" | GInt32 "32 word" | GInt16 "16 word" | GInt8 "8 word"
  | GUint "64 word" | GUint64 "64 word" | GUint32 "32 word" | GUint16 "16 word" | GUint8 "8 word"
  | GFloat64 gfloat | GFloat32 gfloat
  | GNumber string
  | GDict "(string \<times> gval) list"
  | GMap "(string \<times> gval) list"
  | GIMap "(gval \<times> gval) list"
  | GSlice "gval list"
  | GList "gval list"
  | GDictSlice "(string \<times> gval) list list"
  | GStrSlice "string list"

type_synonym dict = "(string \<times> gval) list"

fun wf_gval :: "gval \<Rightarrow> bool" where
  "wf_gval (GDict d) \<longleftrightarrow> distinct (map fst d) \<and> (\<forall>kv \<in> set d. wf_gval (snd kv))"
| "wf_gval (GMap d) \<longleftrightarrow> distinct (map fst d) \<and> (\<forall>kv \<in> set d. wf_gval (snd kv))"
| "wf_gval (GIMap d) \<longleftrightarrow> distinct (map fst d) \<and> (\<forall>kv \<in> set d. wf_gval (snd kv))"
| "wf_gval (GSlice l) \<longleftrightarrow> (\<forall>v \<in> set l. wf_gval v)"
| "wf_gval (GList l) \<longleftrightarrow> (\<forall>v \<in> set l. wf_gval v)"
| "wf_gval (GDictSlice l) \<longleftrightarrow>
     (\<forall>d \<in> set l. distinct (map fst d) \<and> (\<forall>kv \<in> set d. wf_gval (snd kv)))"
| "wf_gval _ \<longleftrightarrow> True"

section \<open>Effective maps and lists\<close>

text \<open>The string-keyed copy of a \<open>map[interface{}]interface{}\<close>; \<open>None\<close> is the nil result.\<close>

fun string_keys :: "(gval \<times> gval) list \<Rightarrow> dict option" where
  "string_keys [] = Some []"
| "string_keys ((k, v) # m) =
     (case k of
        GString s \<Rightarrow> map_option (\<lambda>r. (s, v) # r) (string_keys m)
      | _ \<Rightarrow> None)"

definition effectiveDict :: "gval \<Rightarrow> dict option" where
  "effectiveDict d =
     (case d of GDict r \<Rightarrow> Some r | GMap r \<Rightarrow> Some r | GIMap t \<Rightarrow> string_keys t | _ \<Rightarrow> None)"

definition effectiveList :: "gval \<Rightarrow> gval list option" where
  "effectiveList d =
     (case d of
        GSlice t \<Rightarrow> Some t
      | GList t \<Rightarrow> Some t
      | GDictSlice t \<Rightarrow> (if t = [] then None else Some (map GDict t))
      | GStrSlice t \<Rightarrow> (if t = [] then None else Some (map GString t))
      | _ \<Rightarrow> None)"

text \<open>The values directly below a value, as both accessors reach them.\<close>

definition children :: "gval \<Rightarrow> gval list" where
  "children v =
     (case effectiveDict v of
        Some d \<Rightarrow> map snd d
      | None \<Rightarrow> (case effectiveList v of Some l \<Rightarrow> l | None \<Rightarrow> []))"

lemma string_keys_Some:
  "string_keys m = Some d \<Longrightarrow> map snd d = map snd m \<and> map (GString \<circ> fst) d = map fst m"
  by (induction m arbitrary: d rule: string_keys.induct) (auto split: gval.splits)

lemma effectiveDict_simps [json_simps]:
  "effectiveDict (GDict d) = Some d"
  "effectiveDict (GMap d) = Some d"
  "effectiveDict (GIMap t) = string_keys t"
  "effectiveDict (GSlice l) = None"
  "effectiveDict (GList l) = None"
  "effectiveDict (GString s) = None"
  "effectiveDict (GDictSlice ds) = None"
  "effectiveDict (GStrSlice ss) = None"
  by (simp_all add: effectiveDict_def)

lemma effectiveList_simps [json_simps]:
  "effectiveList (GSlice l) = Some l"
  "effectiveList (GList l) = Some l"
  "effectiveList (GDict d) = None"
  "effectiveList (GMap d) = None"
  "effectiveList (GString s) = None"
  by (simp_all add: effectiveList_def)

lemma effectiveDict_not_list: "effectiveDict v = Some d \<Longrightarrow> effectiveList v = None"
  by (auto simp: effectiveDict_def effectiveList_def split: gval.splits)

text \<open>A measure that decreases from a value to its children.\<close>

fun gsize :: "gval \<Rightarrow> nat" where
  "gsize (GDict d) = Suc (\<Sum>kv\<leftarrow>d. gsize (snd kv))"
| "gsize (GMap d) = Suc (\<Sum>kv\<leftarrow>d. gsize (snd kv))"
| "gsize (GIMap d) = Suc (\<Sum>kv\<leftarrow>d. gsize (snd kv))"
| "gsize (GSlice l) = Suc (\<Sum>v\<leftarrow>l. gsize v)"
| "gsize (GList l) = Suc (\<Sum>v\<leftarrow>l. gsize v)"
| "gsize (GDictSlice l) = Suc (\<Sum>d\<leftarrow>l. Suc (\<Sum>kv\<leftarrow>d. gsize (snd kv)))"
| "gsize (GStrSlice l) = 1"
| "gsize _ = 0"

lemma effectiveDict_gsize:
  assumes "effectiveDict v = Some d"
  shows "gsize v = Suc (\<Sum>w\<leftarrow>map snd d. gsize w)"
proof -
  have "map snd d = map snd t" if "string_keys t = Some d" for t
    using string_keys_Some [OF that] by simp
  then have "(\<Sum>w\<leftarrow>map snd d. gsize w) = (\<Sum>w\<leftarrow>map snd t. gsize w)"
    if "string_keys t = Some d" for t
    using that by (simp only:)
  with assms show ?thesis
    by (auto simp: effectiveDict_def comp_def split: gval.splits)
qed

lemma effectiveList_gsize:
  "effectiveList v = Some l \<Longrightarrow> gsize v = Suc (\<Sum>w\<leftarrow>l. gsize w)"
  by (auto simp: effectiveList_def comp_def split: gval.splits if_splits)

lemma children_gsize:
  assumes "w \<in> set (children v)"
  shows "gsize w < gsize v"
proof -
  have "gsize w \<le> (\<Sum>x\<leftarrow>children v. gsize x)"
    using assms by (auto intro: member_le_sum_list)
  moreover have "gsize v = Suc (\<Sum>x\<leftarrow>children v. gsize x)"
    using assms by (auto simp: children_def effectiveDict_gsize effectiveList_gsize
        split: option.splits)
  ultimately show ?thesis by simp
qed

lemma effectiveDict_child:
  "effectiveDict v = Some d \<Longrightarrow> w \<in> snd ` set d \<Longrightarrow> w \<in> set (children v)"
  by (simp add: children_def)

lemma effectiveList_child:
  "effectiveDict v = None \<Longrightarrow> effectiveList v = Some l \<Longrightarrow> w \<in> set l \<Longrightarrow> w \<in> set (children v)"
  by (simp add: children_def)

end
