(* ===== verification/Json_Access.thy ===== *)
theory Json_Access
  imports Json_Value
begin

text \<open>
  The typed accessors of \<open>Dict\<close> in \<open>utils/json.go\<close>. An accessor returns its Go pair: the value
  (the zero value when it fails) and the success flag. \<open>msgpack\<close> is not part of the repository:
  \<open>marshal\<close> and \<open>unmarshal\<close> are arguments of the functions that call it.
\<close>

section \<open>Integers\<close>

text \<open>
  \<open>uint64(t)\<close> of a float drops the fraction. When the truncated value does not fit, or the float is
  not a number, Go leaves the result to the implementation: it is the argument \<open>oor\<close>.
\<close>

fun float_trunc :: "int \<Rightarrow> int \<Rightarrow> int" where
  "float_trunc m e =
     (if 0 \<le> e then m * 2 ^ nat e else go_div m (2 ^ nat (- e)))"

definition u64_of_float :: "(gfloat \<Rightarrow> 64 word) \<Rightarrow> gfloat \<Rightarrow> 64 word" where
  "u64_of_float oor f =
     (case f of
        Dyadic m e \<Rightarrow>
          (let t = float_trunc m e in if 0 \<le> t \<and> t < 2 ^ 64 then word_of_int t else oor f)
      | _ \<Rightarrow> oor f)"

definition StandardInt :: "(gfloat \<Rightarrow> 64 word) \<Rightarrow> gval \<Rightarrow> 64 word \<times> bool" where
  "StandardInt oor v =
     (case v of
        GInt t \<Rightarrow> (t, True)
      | GUint t \<Rightarrow> (t, True)
      | GUint32 t \<Rightarrow> (ucast t, True)
      | GFloat64 t \<Rightarrow> (u64_of_float oor t, True)
      | GFloat32 t \<Rightarrow> (u64_of_float oor t, True)
      | GUint64 t \<Rightarrow> (t, True)
      | GInt64 t \<Rightarrow> (t, True)
      | GInt32 t \<Rightarrow> (scast t, True)
      | GInt8 t \<Rightarrow> (scast t, True)
      | GUint8 t \<Rightarrow> (ucast t, True)
      | GInt16 t \<Rightarrow> (scast t, True)
      | GUint16 t \<Rightarrow> (ucast t, True)
      | _ \<Rightarrow> (0, False))"

section \<open>Accessors\<close>

definition GetString :: "dict \<Rightarrow> string \<Rightarrow> string \<times> bool" where
  "GetString d k =
     (case map_of d k of
        None \<Rightarrow> ('''', False)
      | Some e \<Rightarrow> (case e of GString s \<Rightarrow> (s, True) | _ \<Rightarrow> ('''', False)))"

definition hex_val :: "char \<Rightarrow> nat option" where
  "hex_val c =
     (let n = of_char c :: nat in
      if 48 \<le> n \<and> n \<le> 57 then Some (n - 48)
      else if 97 \<le> n \<and> n \<le> 102 then Some (n - 87)
      else if 65 \<le> n \<and> n \<le> 70 then Some (n - 55)
      else None)"

fun hex_decode :: "string \<Rightarrow> 8 word list option" where
  "hex_decode [] = Some []"
| "hex_decode [c] = None"
| "hex_decode (a # b # s) =
     (case (hex_val a, hex_val b, hex_decode s) of
        (Some h, Some l, Some r) \<Rightarrow> Some (of_nat (16 * h + l) # r)
      | _ \<Rightarrow> None)"

definition GetBuffer :: "dict \<Rightarrow> string \<Rightarrow> 8 word list \<times> bool" where
  "GetBuffer d k =
     (let (e, ok) = GetString d k in
      if \<not> ok then ([], False)
      else case hex_decode e of None \<Rightarrow> ([], False) | Some s \<Rightarrow> (s, True))"

definition GetBool :: "dict \<Rightarrow> string \<Rightarrow> bool \<times> bool" where
  "GetBool d k =
     (case map_of d k of
        None \<Rightarrow> (False, False)
      | Some e \<Rightarrow> (case e of GBool s \<Rightarrow> (s, True) | _ \<Rightarrow> (False, False)))"

definition GetInt :: "(gfloat \<Rightarrow> 64 word) \<Rightarrow> dict \<Rightarrow> string \<Rightarrow> 64 word \<times> bool" where
  "GetInt oor d k =
     (case map_of d k of None \<Rightarrow> (0, False) | Some e \<Rightarrow> StandardInt oor e)"

definition GetDict :: "dict \<Rightarrow> string \<Rightarrow> dict option \<times> bool" where
  "GetDict d k =
     (case map_of d k of
        None \<Rightarrow> (None, False)
      | Some e \<Rightarrow> (case effectiveDict e of None \<Rightarrow> (None, False) | Some s \<Rightarrow> (Some s, True)))"

definition GetList :: "dict \<Rightarrow> string \<Rightarrow> gval list option \<times> bool" where
  "GetList d k =
     (case map_of d k of
        None \<Rightarrow> (None, False)
      | Some e \<Rightarrow> (case effectiveList e of None \<Rightarrow> (None, False) | Some s \<Rightarrow> (Some s, True)))"

text \<open>The conversion loop: append until the first element of a wrong type.\<close>

fun collect :: "('v \<Rightarrow> 'a option) \<Rightarrow> 'v list \<Rightarrow> 'a list \<times> bool" where
  "collect conv [] = ([], True)"
| "collect conv (v # l) =
     (case conv v of
        None \<Rightarrow> ([], False)
      | Some t \<Rightarrow> (let (s, ok) = collect conv l in (t # s, ok)))"

definition as_string :: "gval \<Rightarrow> string option" where
  "as_string v = (case v of GString s \<Rightarrow> Some s | _ \<Rightarrow> None)"

definition GetListOfDict :: "dict \<Rightarrow> string \<Rightarrow> dict list \<times> bool" where
  "GetListOfDict d k =
     (case map_of d k of
        None \<Rightarrow> ([], False)
      | Some e \<Rightarrow>
          (case effectiveList e of
             None \<Rightarrow> (case e of GDictSlice lD \<Rightarrow> (lD, True) | _ \<Rightarrow> ([], False))
           | Some l \<Rightarrow> collect effectiveDict l))"

definition GetListOfString :: "dict \<Rightarrow> string \<Rightarrow> string list \<times> bool" where
  "GetListOfString d k =
     (case map_of d k of
        None \<Rightarrow> ([], False)
      | Some e \<Rightarrow>
          (case effectiveList e of
             None \<Rightarrow> (case e of GStrSlice lS \<Rightarrow> (lS, True) | _ \<Rightarrow> ([], False))
           | Some l \<Rightarrow> collect as_string l))"


definition UnMarshalToStruct ::
    "(dict \<Rightarrow> go_err + 'b) \<Rightarrow> ('b \<Rightarrow> go_err + 'o) \<Rightarrow> dict \<Rightarrow> go_err + 'o" where
  "UnMarshalToStruct marshal unmarshal d =
     (case marshal d of Inl err \<Rightarrow> Inl err | Inr tmp \<Rightarrow> unmarshal tmp)"

definition ImportFromStruct ::
    "('i \<Rightarrow> go_err + 'b) \<Rightarrow> ('b \<Rightarrow> dict \<Rightarrow> go_err + dict) \<Rightarrow> dict \<Rightarrow> 'i \<Rightarrow> dict option \<times> go_err option"
where
  "ImportFromStruct marshal unmarshal d input =
     (case marshal input of
        Inl err \<Rightarrow> (None, Some err)
      | Inr tmp \<Rightarrow>
          (case unmarshal tmp d of Inl err \<Rightarrow> (None, Some err) | Inr d' \<Rightarrow> (Some d', None)))"

definition DuplicateMap ::
    "(dict \<Rightarrow> go_err + 'b) \<Rightarrow> ('b \<Rightarrow> dict \<Rightarrow> go_err + dict) \<Rightarrow> dict \<Rightarrow> dict option" where
  "DuplicateMap marshal unmarshal m =
     (case marshal m of
        Inl err \<Rightarrow> None
      | Inr bytes \<Rightarrow> (case unmarshal bytes [] of Inl err \<Rightarrow> None | Inr c \<Rightarrow> Some c))"

definition Keys :: "dict \<Rightarrow> string list" where
  "Keys d = map fst d"

definition Values :: "dict \<Rightarrow> gval list" where
  "Values d = map snd d"

section \<open>Facts on the accessors\<close>

lemma float_trunc_bounds:
  "0 \<le> m \<Longrightarrow> e < 0 \<Longrightarrow> float_trunc m e = m div 2 ^ nat (- e)"
  by (simp add: go_div_pos)

lemma StandardInt_not_number:
  "snd (StandardInt oor v) \<Longrightarrow> effectiveDict v = None \<and> effectiveList v = None"
  by (cases v) (auto simp: StandardInt_def effectiveDict_def effectiveList_def)

lemma collect_ok: "snd (collect conv l) \<longleftrightarrow> (\<forall>v \<in> set l. conv v \<noteq> None)"
  by (induction l) (auto split: option.splits prod.splits)

lemma collect_values: "fst (collect conv l) = map (the \<circ> conv) (takeWhile (\<lambda>v. conv v \<noteq> None) l)"
  by (induction l) (auto split: option.splits prod.splits)

lemma collect_all:
  "(\<forall>v \<in> set l. conv v \<noteq> None) \<Longrightarrow> collect conv l = (map (the \<circ> conv) l, True)"
  by (induction l) (auto split: option.splits)

lemma collect_map_Some [simp]: "(\<And>x. conv (f x) = Some x) \<Longrightarrow> collect conv (map f xs) = (xs, True)"
  by (induction xs) auto

lemma as_string_GString [simp]: "as_string (GString s) = Some s"
  by (simp add: as_string_def)

lemma hex_decode_length: "hex_decode s = Some bs \<Longrightarrow> length s = 2 * length bs"
  by (induction s arbitrary: bs rule: hex_decode.induct) (auto split: option.splits)

lemma GetListOfDict_slice:
  "map_of d k = Some (GDictSlice lD) \<Longrightarrow> GetListOfDict d k = (lD, True)"
  by (cases "lD = []")
    (auto simp: GetListOfDict_def effectiveList_def json_simps intro: collect_map_Some)

lemma GetListOfString_slice:
  "map_of d k = Some (GStrSlice lS) \<Longrightarrow> GetListOfString d k = (lS, True)"
  by (cases "lS = []") (auto simp: GetListOfString_def effectiveList_def)

end
