(* ===== verification/Json_Path.thy ===== *)
theory Json_Path
  imports Json_Access
begin

text \<open>
  Path queries of \<open>utils/json.go\<close>: \<open>tokenizePath\<close>, \<open>findElem\<close>, \<open>checkForElem\<close> and the extractors
  built on them. With auto-expansion \<open>findElem\<close> parses strings it meets as JSON; the parser
  \<open>encoding/json.Unmarshal\<close> is an argument of type \<open>json_unmarshal\<close>: any function from text to
  values in which decoding the strings of a decoded value, again and again, comes to an end (a
  JSON string literal is shorter than the text around it).
\<close>

section \<open>Subvalues and the JSON parser\<close>

definition child_rel :: "(gval \<times> gval) set" where
  "child_rel = {(w, v). w \<in> set (children v)}"

lemma wf_child_rel: "wf child_rel"
  by (rule wf_subset [OF wf_measure [of gsize]]) (auto simp: child_rel_def children_gsize)

definition strings_of :: "gval \<Rightarrow> string set" where
  "strings_of v = {t. (GString t, v) \<in> child_rel\<^sup>*}"

typedef json_unmarshal =
  "{f :: string \<Rightarrow> gval option. wf {(t, s). \<exists>v. f s = Some v \<and> t \<in> strings_of v}}"
  morphisms decode_json Json_unmarshal
  by (rule exI [of _ "\<lambda>_. None"]) simp

setup_lifting type_definition_json_unmarshal

lift_definition no_json :: json_unmarshal is "\<lambda>_. None"
  by simp

text \<open>One step of \<open>findElem\<close>: to a child, or from a string to the value it decodes to.\<close>

definition step_rel :: "json_unmarshal \<Rightarrow> (gval \<times> gval) set" where
  "step_rel p = child_rel \<union> {(v, GString s) | v s. decode_json p s = Some v}"

lemma children_GString [simp]: "children (GString s) = []"
  by (simp add: children_def json_simps)

lemma strings_of_child: "(u, w) \<in> child_rel \<Longrightarrow> strings_of u \<subseteq> strings_of w"
  unfolding strings_of_def by (intro subsetI CollectI, drule CollectD, erule rtrancl.rtrancl_into_rtrancl)

lemma strings_of_self: "s \<in> strings_of (GString s)"
  by (simp add: strings_of_def)

lemma step_rel_nonstring:
  "(u, w) \<in> step_rel p \<Longrightarrow> \<forall>s. w \<noteq> GString s \<Longrightarrow> (u, w) \<in> child_rel"
  by (auto simp: step_rel_def)

lemma step_rel_string: "(u, GString s) \<in> step_rel p \<Longrightarrow> decode_json p s = Some u"
  by (auto simp: step_rel_def child_rel_def)

lemma acc_step_of_strings:
  "(\<And>t. t \<in> strings_of w \<Longrightarrow> GString t \<in> Wellfounded.acc (step_rel p)) \<Longrightarrow>
   w \<in> Wellfounded.acc (step_rel p)"
proof (induction w rule: wf_induct_rule [OF wf_child_rel])
  case (1 w)
  have kids: "u \<in> Wellfounded.acc (step_rel p)" if u: "(u, w) \<in> child_rel" for u
  proof (rule "1.IH" [OF u])
    fix t assume "t \<in> strings_of u"
    with strings_of_child [OF u] show "GString t \<in> Wellfounded.acc (step_rel p)"
      by (auto intro: "1.prems")
  qed
  show ?case
  proof (cases "\<exists>s. w = GString s")
    case True
    then obtain s where "w = GString s" ..
    then show ?thesis using "1.prems" [of s] strings_of_self [of s] by simp
  next
    case False
    then have "(u, w) \<in> step_rel p \<Longrightarrow> (u, w) \<in> child_rel" for u
      by (intro step_rel_nonstring) simp_all
    then show ?thesis by (blast intro: accI [of w] kids)
  qed
qed

lemma wf_decode: "wf {(t, s). \<exists>v. decode_json p s = Some v \<and> t \<in> strings_of v}"
  using decode_json [of p] by simp

lemma acc_step_string: "GString s \<in> Wellfounded.acc (step_rel p)"
proof (induction s rule: wf_induct_rule [OF wf_decode [of p]])
  case (1 s)
  show ?case
  proof (rule accI)
    fix v assume "(v, GString s) \<in> step_rel p"
    then have v: "decode_json p s = Some v" by (rule step_rel_string)
    show "v \<in> Wellfounded.acc (step_rel p)"
    proof (rule acc_step_of_strings)
      fix t assume "t \<in> strings_of v"
      with v show "GString t \<in> Wellfounded.acc (step_rel p)" by (intro "1.IH") simp
    qed
  qed
qed

lemma wf_step_rel: "wf (step_rel p)"
  by (rule acc_wfI, rule allI, rule acc_step_of_strings, rule acc_step_string)

section \<open>Queries\<close>

text \<open>\<open>tokenizePath\<close>: the non-empty pieces between slashes.\<close>

definition tokenizePath :: "string \<Rightarrow> string list" where
  "tokenizePath path = filter (\<lambda>token. token \<noteq> []) (split_char (CHR ''/'') path)"

definition is_index :: "string \<Rightarrow> bool" where
  "is_index tok \<longleftrightarrow> has_prefix tok ''['' \<and> has_suffix tok '']''"

definition list_index :: "string \<Rightarrow> int option" where
  "list_index tok = atoi (butlast (tl tok))"

text \<open>The parse of a string at the head of \<open>findElem\<close>; \<open>None\<close> is the early return on an error.\<close>

definition expand :: "json_unmarshal \<Rightarrow> gval \<Rightarrow> string list \<Rightarrow> bool \<Rightarrow> gval option" where
  "expand p v tokens isAutoExpand =
     (if tokens \<noteq> [] \<and> isAutoExpand
      then (case v of GString s \<Rightarrow> decode_json p s | _ \<Rightarrow> Some v)
      else Some v)"

lemma expand_step: "expand p v tokens ae = Some u \<Longrightarrow> (u, v) \<in> (step_rel p)\<^sup>*"
  by (auto simp: expand_def step_rel_def split: if_splits gval.splits)

lemma expand_off [simp]: "expand p v tokens False = Some v" "expand p v [] ae = Some v"
  by (simp_all add: expand_def)

function findElem :: "json_unmarshal \<Rightarrow> gval \<Rightarrow> string list \<Rightarrow> bool \<Rightarrow> bool \<Rightarrow> gval list" where
  "findElem p v tokens isWildcardDepth isAutoExpand =
     (case expand p v tokens isAutoExpand of
        None \<Rightarrow> []
      | Some u \<Rightarrow>
          (case tokens of
             [] \<Rightarrow>
               (if isWildcardDepth then
                  (case effectiveDict u of
                     Some dict \<Rightarrow>
                       concat (map (\<lambda>w. findElem p w [] isWildcardDepth isAutoExpand) (map snd dict))
                         @ [u]
                   | None \<Rightarrow>
                       (case effectiveList u of
                          Some list \<Rightarrow>
                            concat (map (\<lambda>w. findElem p w [] isWildcardDepth isAutoExpand) list) @ [u]
                        | None \<Rightarrow> [u]))
                else [u])
           | curToken # rest \<Rightarrow>
               (case effectiveDict u of
                  Some dict \<Rightarrow>
                    (if curToken = ''*'' then findElem p u rest True isAutoExpand
                     else if curToken = ''?'' then
                       concat (map (\<lambda>w. findElem p w rest False isAutoExpand) (map snd dict))
                     else (case map_of dict curToken of
                             Some w \<Rightarrow> findElem p w rest False isAutoExpand
                           | None \<Rightarrow> []))
                    @ (if isWildcardDepth then
                         concat (map (\<lambda>w. findElem p w tokens True isAutoExpand) (map snd dict))
                       else [])
                | None \<Rightarrow>
                    (case effectiveList u of
                       Some list \<Rightarrow>
                         (if is_index curToken then
                            (case list_index curToken of
                               Some i \<Rightarrow>
                                 if i < int (length list) \<and> 0 \<le> i
                                 then findElem p (list ! nat i) rest isWildcardDepth isAutoExpand
                                 else []
                             | None \<Rightarrow> [])
                          else
                            concat (map (\<lambda>w. findElem p w
                                          (if curToken = ''*'' \<or> curToken = ''?'' then rest else tokens)
                                          isWildcardDepth isAutoExpand) list))
                     | None \<Rightarrow> []))))"
  by pat_completeness auto

lemma step_below:
  assumes "expand p v tokens ae = Some u" "w \<in> set (children u)"
  shows "(w, v) \<in> (step_rel p)\<^sup>+"
  using expand_step [OF assms(1)] assms(2)
  by (auto simp: step_rel_def child_rel_def intro: rtrancl_into_trancl2)

lemma step_same:
  assumes "expand p v tokens ae = Some u"
  shows "u = v \<or> (u, v) \<in> (step_rel p)\<^sup>+"
  using expand_step [OF assms] by (auto simp: rtrancl_eq_or_trancl)

definition find_order ::
    "((json_unmarshal \<times> gval \<times> string list \<times> bool \<times> bool) \<times>
      (json_unmarshal \<times> gval \<times> string list \<times> bool \<times> bool)) set" where
  "find_order = {((p', u, ts, wc', ae'), (p, v, tokens, wc, ae)).
      p' = p \<and> ((u, v) \<in> (step_rel p)\<^sup>+ \<or> u = v \<and> length ts < length tokens)}"

lemma wf_find_order: "wf find_order"
proof -
  let ?S = "same_fst (\<lambda>_. True) (\<lambda>p. (step_rel p)\<^sup>+ <*lex*> measure (length :: string list \<Rightarrow> nat))"
  let ?g = "\<lambda>(p, v, ts, wc :: bool, ae :: bool). (p, v, ts)"
  have "wf (inv_image ?S ?g)"
    by (intro wf_inv_image wf_same_fst wf_lex_prod wf_trancl wf_step_rel wf_measure)
  moreover have "x \<in> inv_image ?S ?g" if "x \<in> find_order" for x
    using that by (cases x) (auto simp: find_order_def same_fst_def)
  ultimately show ?thesis by (blast intro: wf_subset)
qed

lemma find_order_child:
  assumes "expand p v tokens ae = Some u" "w \<in> set (children u)"
  shows "((p, w, ts, wc', ae'), (p, v, tokens, wc, ae)) \<in> find_order"
  using step_below [OF assms] by (simp add: find_order_def)

lemma find_order_shorter:
  assumes "expand p v tokens ae = Some u" "length ts < length tokens"
  shows "((p, u, ts, wc', ae'), (p, v, tokens, wc, ae)) \<in> find_order"
  using step_same [OF assms(1)] assms(2) by (auto simp: find_order_def)

lemma in_dict_child: "effectiveDict u = Some dict \<Longrightarrow> w \<in> set (map snd dict) \<Longrightarrow> w \<in> set (children u)"
  by (simp add: children_def)

lemma entry_child: "effectiveDict u = Some dict \<Longrightarrow> (k, w) \<in> set dict \<Longrightarrow> w \<in> set (children u)"
  by (force simp: children_def)

lemma looked_up_child:
  "effectiveDict u = Some dict \<Longrightarrow> map_of dict k = Some w \<Longrightarrow> w \<in> set (children u)"
  by (auto simp: children_def dest: map_of_Some_in_snd)

lemma in_list_child:
  "effectiveDict u = None \<Longrightarrow> effectiveList u = Some list \<Longrightarrow> w \<in> set list \<Longrightarrow> w \<in> set (children u)"
  by (simp add: children_def)

lemma indexed_child:
  "effectiveDict u = None \<Longrightarrow> effectiveList u = Some list \<Longrightarrow>
   i < int (length list) \<and> 0 \<le> i \<Longrightarrow> list ! nat i \<in> set (children u)"
  by (simp add: children_def nat_less_iff)

lemmas child_rules = in_dict_child entry_child looked_up_child in_list_child indexed_child

termination findElem
  by (relation find_order, rule wf_find_order)
    ((erule find_order_child, erule (1) in_dict_child)
     | (erule find_order_child, erule (2) in_list_child)
     | (erule find_order_child, erule (1) looked_up_child)
     | (erule find_order_child, erule (2) indexed_child)
     | (erule find_order_shorter, simp))+

end
