(* ===== verification/Json_Query.thy ===== *)
theory Json_Query
  imports Json_Path
begin

text \<open>
  The presence test \<open>checkForElem\<close> and the extractors and \<open>Find\<close> methods of \<open>utils/json.go\<close>, with
  what path queries return: the plain lookup path, the wildcard as a traversal, and the relation
  between presence and search.
\<close>

section \<open>Presence\<close>

function checkForElem :: "gval \<Rightarrow> string list \<Rightarrow> bool \<Rightarrow> bool" where
  "checkForElem u tokens isWildcardDepth =
     (case tokens of
        [] \<Rightarrow> True
      | curToken # rest \<Rightarrow>
          (case effectiveDict u of
             Some dict \<Rightarrow>
               (if curToken = ''*'' then checkForElem u rest True
                else if curToken = ''?'' then
                  list_ex (\<lambda>w. checkForElem w rest False) (map snd dict)
                else (case map_of dict curToken of
                        Some w \<Rightarrow> checkForElem w rest False
                      | None \<Rightarrow> False))
               \<or> (isWildcardDepth \<and> list_ex (\<lambda>w. checkForElem w tokens True) (map snd dict))
           | None \<Rightarrow>
               (case effectiveList u of
                  Some list \<Rightarrow>
                    (if is_index curToken then
                       (case list_index curToken of
                          Some i \<Rightarrow>
                            (if i < int (length list) \<and> 0 \<le> i
                             then checkForElem (list ! nat i) rest isWildcardDepth
                             else False)
                        | None \<Rightarrow> False)
                     else list_ex (\<lambda>w. checkForElem w tokens isWildcardDepth) list)
                | None \<Rightarrow> False)))"
  by pat_completeness auto

termination checkForElem
  by (relation "measures [\<lambda>(u, ts, wc). gsize u, \<lambda>(u, ts, wc). length ts]")
    (auto intro!: children_gsize intro: child_rules)

section \<open>Extractors\<close>

text \<open>An extractor keeps the found values of its type.\<close>

definition find_values ::
    "(gval \<Rightarrow> 'a option) \<Rightarrow> json_unmarshal \<Rightarrow> bool \<Rightarrow> string \<Rightarrow> dict \<Rightarrow> 'a list" where
  "find_values conv p isAutoExpand path evt =
     List.map_filter conv (findElem p (GDict evt) (tokenizePath path) False isAutoExpand)"

definition MakeExpandableExtractorForString :: "json_unmarshal \<Rightarrow> string \<Rightarrow> bool \<Rightarrow> dict \<Rightarrow> string list" where
  "MakeExpandableExtractorForString p path ae = find_values as_string p ae path"

definition as_int :: "(gfloat \<Rightarrow> 64 word) \<Rightarrow> gval \<Rightarrow> 64 word option" where
  "as_int oor v = (let (i, ok) = StandardInt oor v in if ok then Some i else None)"

definition MakeExpandableExtractorForInt ::
    "(gfloat \<Rightarrow> 64 word) \<Rightarrow> json_unmarshal \<Rightarrow> string \<Rightarrow> bool \<Rightarrow> dict \<Rightarrow> 64 word list" where
  "MakeExpandableExtractorForInt oor p path ae = find_values (as_int oor) p ae path"

definition as_bool :: "gval \<Rightarrow> bool option" where
  "as_bool v = (case v of GBool b \<Rightarrow> Some b | _ \<Rightarrow> None)"

definition MakeExpandableExtractorForBool :: "json_unmarshal \<Rightarrow> string \<Rightarrow> bool \<Rightarrow> dict \<Rightarrow> bool list" where
  "MakeExpandableExtractorForBool p path ae = find_values as_bool p ae path"

definition MakeExpandableExtractorForOpaque :: "json_unmarshal \<Rightarrow> string \<Rightarrow> bool \<Rightarrow> dict \<Rightarrow> gval list" where
  "MakeExpandableExtractorForOpaque p path ae = find_values Some p ae path"

definition as_dict :: "gval \<Rightarrow> dict option" where
  "as_dict v = (case v of GDict d \<Rightarrow> Some d | GMap d \<Rightarrow> Some d | _ \<Rightarrow> None)"

definition MakeExpandableExtractorForDict :: "json_unmarshal \<Rightarrow> string \<Rightarrow> bool \<Rightarrow> dict \<Rightarrow> dict list" where
  "MakeExpandableExtractorForDict p path ae = find_values as_dict p ae path"

definition as_list :: "gval \<Rightarrow> gval list option" where
  "as_list v = (case v of GList l \<Rightarrow> Some l | GSlice l \<Rightarrow> Some l | _ \<Rightarrow> None)"

definition MakeExpandableExtractorForList :: "json_unmarshal \<Rightarrow> string \<Rightarrow> bool \<Rightarrow> dict \<Rightarrow> gval list list" where
  "MakeExpandableExtractorForList p path ae = find_values as_list p ae path"

definition MakeExtractorForPresence :: "string \<Rightarrow> dict \<Rightarrow> bool" where
  "MakeExtractorForPresence path evt = checkForElem (GDict evt) (tokenizePath path) False"

text \<open>The \<open>FindOne\<close> methods: the first value, or the zero value of the type.\<close>

definition first_or :: "'a \<Rightarrow> 'a list \<Rightarrow> 'a" where
  "first_or z vs = (case vs of [] \<Rightarrow> z | v # _ \<Rightarrow> v)"

definition FindString :: "json_unmarshal \<Rightarrow> dict \<Rightarrow> string \<Rightarrow> string list" where
  "FindString p d path = MakeExpandableExtractorForString p path False d"

definition ExpandableFindString :: "json_unmarshal \<Rightarrow> dict \<Rightarrow> string \<Rightarrow> string list" where
  "ExpandableFindString p d path = MakeExpandableExtractorForString p path True d"

definition FindInt :: "(gfloat \<Rightarrow> 64 word) \<Rightarrow> json_unmarshal \<Rightarrow> dict \<Rightarrow> string \<Rightarrow> 64 word list" where
  "FindInt oor p d path = MakeExpandableExtractorForInt oor p path False d"

definition FindOneString :: "json_unmarshal \<Rightarrow> dict \<Rightarrow> string \<Rightarrow> string" where
  "FindOneString p d path = first_or '''' (FindString p d path)"

definition ExpandableFindOneString :: "json_unmarshal \<Rightarrow> dict \<Rightarrow> string \<Rightarrow> string" where
  "ExpandableFindOneString p d path = first_or '''' (ExpandableFindString p d path)"

definition FindOneInt :: "(gfloat \<Rightarrow> 64 word) \<Rightarrow> json_unmarshal \<Rightarrow> dict \<Rightarrow> string \<Rightarrow> 64 word" where
  "FindOneInt oor p d path = first_or 0 (FindInt oor p d path)"

definition FindOneBool :: "json_unmarshal \<Rightarrow> dict \<Rightarrow> string \<Rightarrow> bool" where
  "FindOneBool p d path = first_or False (MakeExpandableExtractorForBool p path False d)"

definition FindOneOpaque :: "json_unmarshal \<Rightarrow> dict \<Rightarrow> string \<Rightarrow> gval" where
  "FindOneOpaque p d path = first_or GNil (MakeExpandableExtractorForOpaque p path False d)"

definition FindOneDict :: "json_unmarshal \<Rightarrow> dict \<Rightarrow> string \<Rightarrow> dict option" where
  "FindOneDict p d path = first_or None (map Some (MakeExpandableExtractorForDict p path False d))"

definition FindOneList :: "json_unmarshal \<Rightarrow> dict \<Rightarrow> string \<Rightarrow> gval list option" where
  "FindOneList p d path = first_or None (map Some (MakeExpandableExtractorForList p path False d))"

section \<open>What queries return\<close>

declare findElem.simps [simp del] checkForElem.simps [simp del]

abbreviation find_plain :: "json_unmarshal \<Rightarrow> gval \<Rightarrow> string list \<Rightarrow> bool \<Rightarrow> gval list" where
  "find_plain p v toks wc \<equiv> findElem p v toks wc False"

text \<open>The equations of a search without expansion, one per shape of the value.\<close>

lemma find_plain_Nil: "find_plain p v [] False = [v]"
  by (simp add: findElem.simps [of p v "[]"])

lemma find_plain_dict:
  "effectiveDict v = Some d \<Longrightarrow>
   find_plain p v (k # ks) wc =
     (if k = ''*'' then find_plain p v ks True
      else if k = ''?'' then concat (map (\<lambda>w. find_plain p w ks False) (map snd d))
      else (case map_of d k of Some w \<Rightarrow> find_plain p w ks False | None \<Rightarrow> []))
     @ (if wc then concat (map (\<lambda>w. find_plain p w (k # ks) True) (map snd d)) else [])"
  by (subst findElem.simps) simp

lemma find_plain_list:
  "effectiveDict v = None \<Longrightarrow> effectiveList v = Some l \<Longrightarrow>
   find_plain p v (k # ks) wc =
     (if is_index k then
        (case list_index k of
           Some i \<Rightarrow> if i < int (length l) \<and> 0 \<le> i then find_plain p (l ! nat i) ks wc else []
         | None \<Rightarrow> [])
      else concat (map (\<lambda>w. find_plain p w (if k = ''*'' \<or> k = ''?'' then ks else k # ks) wc) l))"
  by (subst findElem.simps) simp

lemma find_plain_scalar:
  "effectiveDict v = None \<Longrightarrow> effectiveList v = None \<Longrightarrow> find_plain p v (k # ks) wc = []"
  by (subst findElem.simps) simp

text \<open>All values inside a value, in post-order.\<close>

function subvalues :: "gval \<Rightarrow> gval list" where
  "subvalues v = concat (map subvalues (children v)) @ [v]"
  by pat_completeness auto

termination subvalues
  by (relation "measure gsize") (auto intro: children_gsize)

declare subvalues.simps [simp del]

lemma find_deep: "findElem p v [] True ae = subvalues v"
proof (induction v rule: subvalues.induct)
  case (1 v)
  have kids: "concat (map (\<lambda>w. findElem p w [] True ae) l) = concat (map subvalues l)"
    if "set l \<subseteq> set (children v)" for l
    using 1 that by (intro arg_cong [where f = concat] map_cong) auto
  show ?case
    by (subst findElem.simps, subst subvalues.simps)
      (auto simp: children_def kids simp del: map_map split: option.split)
qed

lemma set_subvalues: "set (subvalues v) = {w. (w, v) \<in> child_rel\<^sup>*}"
proof (induction v rule: subvalues.induct)
  case (1 v)
  have "(w, v) \<in> child_rel\<^sup>* \<longleftrightarrow> w = v \<or> (\<exists>u \<in> set (children v). (w, u) \<in> child_rel\<^sup>*)" for w
    by (auto simp: child_rel_def intro: rtrancl_into_rtrancl elim: rtranclE)
  with 1 show ?case
    by (subst subvalues.simps) auto
qed

text \<open>Induction along a query: to a child with any path, or to a shorter path of the same value.\<close>

lemma query_induct [case_names query]:
  assumes "\<And>v toks. (\<And>w ts. w \<in> set (children v) \<Longrightarrow> P w ts) \<Longrightarrow>
                    (\<And>k ks. toks = k # ks \<Longrightarrow> P v ks) \<Longrightarrow> P v toks"
  shows "P v toks"
proof (induction "(v, toks)" arbitrary: v toks
    rule: wf_induct_rule [OF wf_measures [of "[\<lambda>(v, ts). gsize v, \<lambda>(v, ts). length ts]"]])
  case (1 v toks)
  show ?case
    by (rule assms; rule 1) (auto intro: children_gsize)
qed

text \<open>Without expansion a query returns values inside the value it is asked of.\<close>

lemma find_plain_subvalues: "set (find_plain p v toks wc) \<subseteq> set (subvalues v)"
proof (induction v toks arbitrary: wc rule: query_induct)
  case (query v toks)
  have kid: "set (find_plain p w ts c) \<subseteq> set (subvalues v)" if "w \<in> set (children v)" for w ts c
    using query(1) [OF that] that by (subst subvalues.simps) auto
  have self: "v \<in> set (subvalues v)" by (simp add: set_subvalues)
  show ?case
  proof (cases toks)
    case Nil
    then show ?thesis using self by (cases wc) (simp_all add: find_deep find_plain_Nil)
  next
    case (Cons k ks)
    note same = query(2) [OF Cons]
    consider d where "effectiveDict v = Some d"
      | l where "effectiveDict v = None" "effectiveList v = Some l"
      | "effectiveDict v = None" "effectiveList v = None" by fastforce
    then show ?thesis
    proof cases
      case 1
      then show ?thesis
        using same by (auto simp: Cons find_plain_dict split: if_splits option.splits
            dest!: subsetD [OF kid, rotated] intro: child_rules)
    next
      case 2
      then show ?thesis
        by (auto simp: Cons find_plain_list split: if_splits option.splits
            dest!: subsetD [OF kid, rotated] intro: child_rules)
    qed (simp add: Cons find_plain_scalar)
  qed
qed

section \<open>Plain paths\<close>

text \<open>The value under nested keys, maps only: what a path of plain keys denotes.\<close>

fun dict_lookup :: "gval \<Rightarrow> string list \<Rightarrow> gval option" where
  "dict_lookup v [] = Some v"
| "dict_lookup v (k # ks) =
     (case effectiveDict v of
        None \<Rightarrow> None
      | Some d \<Rightarrow> (case map_of d k of None \<Rightarrow> None | Some w \<Rightarrow> dict_lookup w ks))"

definition plain_key :: "string \<Rightarrow> bool" where
  "plain_key k \<longleftrightarrow> k \<noteq> '''' \<and> CHR ''/'' \<notin> set k \<and> k \<noteq> ''*'' \<and> k \<noteq> ''?''"

lemma find_dict_lookup:
  "list_all plain_key ks \<Longrightarrow> dict_lookup v ks = Some w \<Longrightarrow> find_plain p v ks False = [w]"
  by (induction v ks rule: dict_lookup.induct)
    (auto simp: find_plain_Nil find_plain_dict plain_key_def split: option.splits)

lemma split_char_join:
  "ks \<noteq> [] \<Longrightarrow> \<forall>k \<in> set ks. c \<notin> set k \<Longrightarrow> split_char c (join_with [c] ks) = ks"
  by (induction "[c]" ks rule: join_with.induct)
    (auto simp: split_char_no_occ split_char_append_sep)

lemma tokenizePath_join:
  assumes "list_all plain_key ks"
  shows "tokenizePath (join_with ''/'' ks) = ks"
proof (cases "ks = []")
  case False
  have k: "\<forall>k \<in> set ks. CHR ''/'' \<notin> set k \<and> k \<noteq> ''''"
    using assms by (auto simp: plain_key_def list_all_iff)
  with False have "split_char (CHR ''/'') (join_with ''/'' ks) = ks"
    by (intro split_char_join) auto
  with k show ?thesis by (simp add: tokenizePath_def filter_id_conv)
qed (simp add: tokenizePath_def)

text \<open>C37: a value stored under nested keys is found, once, by the path that joins the keys with
  slashes: \<open>FindOpaque\<close> on the path gives exactly that value.\<close>

lemma find_by_path:
  assumes "list_all plain_key ks" "dict_lookup (GDict d) ks = Some w"
  shows "MakeExpandableExtractorForOpaque p (join_with ''/'' ks) False d = [w]"
  using assms
  by (simp add: MakeExpandableExtractorForOpaque_def find_values_def tokenizePath_join
      find_dict_lookup List.map_filter_def)

lemma find_by_path_witness:
  "MakeExpandableExtractorForOpaque no_json ''a/b'' False
     [(''a'', GMap [(''c'', GNil), (''b'', GBool True)])] = [GBool True]"
  using find_by_path [of "[''a'', ''b'']" "[(''a'', GMap [(''c'', GNil), (''b'', GBool True)])]"
      "GBool True" no_json]
  by (simp add: plain_key_def json_simps)

text \<open>For a plain key, \<open>FindOneString\<close> is a lookup at the top level that takes strings only.\<close>

lemma FindOneString_top:
  assumes "plain_key k"
  shows "FindOneString p d k = (case map_of d k of Some (GString s) \<Rightarrow> s | _ \<Rightarrow> '''')"
proof -
  have toks: "tokenizePath k = [k]" using tokenizePath_join [of "[k]"] assms by simp
  have "find_plain p (GDict d) [k] False = (case map_of d k of None \<Rightarrow> [] | Some w \<Rightarrow> [w])"
    using assms by (simp add: find_plain_dict [of _ d] effectiveDict_def find_plain_Nil plain_key_def split: option.split)
  then show ?thesis
    by (simp add: FindOneString_def FindString_def MakeExpandableExtractorForString_def find_values_def toks
        first_or_def as_string_def List.map_filter_def split: option.split gval.split)
qed

text \<open>The path \<open>*\<close> enumerates every value inside a map, each occurrence once and inner values
  before outer ones, the map itself last; the set of results is everything reachable by children.\<close>

theorem find_wildcard_all:
  "findElem p (GDict d) [''*''] False ae = subvalues (GDict d) \<and>
   set (findElem p (GDict d) [''*''] False ae) = {w. (w, GDict d) \<in> child_rel\<^sup>*}"
proof -
  have "findElem p (GDict d) [''*''] False ae = subvalues (GDict d)"
    by (subst findElem.simps) (simp add: expand_def json_simps find_deep)
  then show ?thesis by (simp add: set_subvalues)
qed

lemma find_deep_key_step:
  assumes "plain_key k" "\<not> is_index k"
  shows "set (find_plain p v [k] True) =
    {w. \<exists>u \<in> set (subvalues v). \<exists>d'. effectiveDict u = Some d' \<and> map_of d' k = Some w}"
proof (induction v rule: subvalues.induct)
  case (1 v)
  have k: "k \<noteq> ''*''" "k \<noteq> ''?''" using assms(1) by (auto simp: plain_key_def)
  consider d where "effectiveDict v = Some d"
    | l where "effectiveDict v = None" "effectiveList v = Some l"
    | "effectiveDict v = None" "effectiveList v = None" by fastforce
  then show ?case
  proof cases
    case (1 d)
    then have "children v = map snd d" by (simp add: children_def)
    with 1 "1.IH" show ?thesis
      by (subst subvalues.simps)
        (auto simp: find_plain_dict find_plain_Nil k split: option.splits)
  next
    case (2 l)
    then have "children v = l" by (simp add: children_def)
    with 2 "1.IH" show ?thesis
      by (subst subvalues.simps) (auto simp: find_plain_list k assms(2))
  qed (subst subvalues.simps, simp add: find_plain_scalar children_def)
qed

text \<open>\<open>*/k\<close> is a deep search: it finds the values stored under \<open>k\<close> in any map inside the
  document, through lists too, and nothing else.\<close>

theorem find_deep_key:
  assumes "plain_key k" "\<not> is_index k"
  shows "set (findElem p (GDict d) [''*'', k] False False) =
    {w. \<exists>u d'. (u, GDict d) \<in> child_rel\<^sup>* \<and> effectiveDict u = Some d' \<and> map_of d' k = Some w}"
proof -
  have "find_plain p (GDict d) [''*'', k] False = find_plain p (GDict d) [k] True"
    by (simp add: find_plain_dict json_simps)
  then show ?thesis
    by (simp only: find_deep_key_step [OF assms] set_subvalues) blast
qed

lemma find_deep_key_witness:
  "set (findElem no_json (GDict [(''a'', GList [GDict [(''k'', GNil)]])]) [''*'', ''k''] False False) =
    {w. \<exists>u d'. (u, GDict [(''a'', GList [GDict [(''k'', GNil)]])]) \<in> child_rel\<^sup>* \<and>
          effectiveDict u = Some d' \<and> map_of d' ''k'' = Some w}"
  by (rule find_deep_key) (simp_all add: plain_key_def is_index_def has_prefix_def)

section \<open>Presence and search\<close>

text \<open>Documents without lists, and paths without wildcards.\<close>

definition list_free :: "gval \<Rightarrow> bool" where
  "list_free v \<longleftrightarrow> list_all (\<lambda>w. effectiveList w = None) (subvalues v)"

definition no_wildcard :: "string list \<Rightarrow> bool" where
  "no_wildcard toks \<longleftrightarrow> ''*'' \<notin> set toks \<and> ''?'' \<notin> set toks"

lemma list_free_child: "list_free v \<Longrightarrow> w \<in> set (children v) \<Longrightarrow> list_free w"
  unfolding list_free_def by (subst (asm) subvalues.simps) (auto simp: list_all_iff)

lemma list_free_self: "list_free v \<Longrightarrow> effectiveList v = None"
  unfolding list_free_def by (subst (asm) subvalues.simps) (auto simp: list_all_iff)

lemma no_wildcard_Cons [simp]:
  "no_wildcard (k # ks) \<longleftrightarrow> k \<noteq> ''*'' \<and> k \<noteq> ''?'' \<and> no_wildcard ks"
  by (auto simp: no_wildcard_def)

lemma find_deep_not_Nil: "findElem p v [] wc ae \<noteq> []"
proof (cases wc)
  case True
  then show ?thesis by (simp add: find_deep) (subst subvalues.simps, simp)
qed (simp add: findElem.simps [of p v "[]"])

lemma check_Nil [simp]: "checkForElem v [] wc"
  by (simp add: checkForElem.simps)

lemma check_dict:
  "effectiveDict v = Some d \<Longrightarrow>
   checkForElem v (k # ks) wc \<longleftrightarrow>
     (if k = ''*'' then checkForElem v ks True
      else if k = ''?'' then \<exists>w \<in> snd ` set d. checkForElem w ks False
      else \<exists>w. map_of d k = Some w \<and> checkForElem w ks False)
     \<or> wc \<and> (\<exists>w \<in> snd ` set d. checkForElem w (k # ks) True)"
  by (subst checkForElem.simps) (auto simp: list_ex_iff split: option.split)

lemma check_list:
  "effectiveDict v = None \<Longrightarrow> effectiveList v = Some l \<Longrightarrow>
   checkForElem v (k # ks) wc \<longleftrightarrow>
     (if is_index k then
        \<exists>i. list_index k = Some i \<and> i < int (length l) \<and> 0 \<le> i \<and> checkForElem (l ! nat i) ks wc
      else \<exists>w \<in> set l. checkForElem w (k # ks) wc)"
  by (subst checkForElem.simps) (auto simp: list_ex_iff split: option.split)

lemma check_scalar:
  "effectiveDict v = None \<Longrightarrow> effectiveList v = None \<Longrightarrow> \<not> checkForElem v (k # ks) wc"
  by (subst checkForElem.simps) simp

lemma presence_iff_search:
  "no_wildcard toks \<or> list_free v \<Longrightarrow> checkForElem v toks wc \<longleftrightarrow> find_plain p v toks wc \<noteq> []"
proof (induction v toks arbitrary: wc rule: query_induct)
  case (query v toks)
  show ?case
  proof (cases toks)
    case (Cons k ks)
    have kid: "checkForElem w ts c \<longleftrightarrow> find_plain p w ts c \<noteq> []"
      if "w \<in> set (children v)" "ts = ks \<or> ts = k # ks" for w ts c
      using query(1) [OF that(1)] query(3) that Cons list_free_child by fastforce
    have same: "checkForElem v ks c \<longleftrightarrow> find_plain p v ks c \<noteq> []" for c
      using query(2) [OF Cons] query(3) Cons by auto
    consider d where "effectiveDict v = Some d"
      | l where "effectiveDict v = None" "effectiveList v = Some l"
      | "effectiveDict v = None" "effectiveList v = None" by fastforce
    then show ?thesis
    proof cases
      case (1 d)
      have look: "checkForElem w ks c \<longleftrightarrow> find_plain p w ks c \<noteq> []" if "map_of d k = Some w" for w c
        using kid looked_up_child [OF 1 that] by blast
      have entries: "(\<exists>x \<in> set d. checkForElem (snd x) ts c) \<longleftrightarrow>
          (\<exists>x \<in> set d. find_plain p (snd x) ts c \<noteq> [])"
        if "ts = ks \<or> ts = k # ks" for ts c
        using kid [OF in_dict_child [OF 1] that] by fastforce
      show ?thesis
        unfolding Cons find_plain_dict [OF 1] check_dict [OF 1]
        using entries [of ks] entries [of "k # ks"]
        by (cases "map_of d k"; cases wc; cases "k = ''*''"; cases "k = ''?''")
          (simp_all add: same look concat_map_Nil_conv)
    next
      case (2 l)
      then have kids: "\<And>w. w \<in> set l \<Longrightarrow> w \<in> set (children v)"
        and "\<not> list_free v" by (auto simp: children_def dest: list_free_self)
      with query(3) have "k \<noteq> ''*''" "k \<noteq> ''?''" by (simp_all add: Cons)
      with 2 kid kids show ?thesis
        by (auto simp: Cons find_plain_list check_list concat_map_Nil_conv nat_less_iff
            split: option.split)
    qed (simp add: Cons find_plain_scalar check_scalar)
  qed (simp add: find_deep_not_Nil)
qed

text \<open>The presence extractor says yes exactly when the value extractor finds something, for
  every document when the path has no wildcard, and for every path when the document has no list.\<close>

theorem presence_agrees:
  assumes "no_wildcard (tokenizePath path) \<or> list_free (GDict d)"
  shows "MakeExtractorForPresence path d \<longleftrightarrow>
    MakeExpandableExtractorForOpaque p path False d \<noteq> []"
  using presence_iff_search [OF assms]
  by (simp add: MakeExtractorForPresence_def MakeExpandableExtractorForOpaque_def find_values_def
      List.map_filter_def)

lemma presence_agrees_witness:
  "MakeExtractorForPresence ''a/[1]'' [(''a'', GList [GNil, GNil])] \<longleftrightarrow>
    MakeExpandableExtractorForOpaque no_json ''a/[1]'' False [(''a'', GList [GNil, GNil])] \<noteq> []"
  by (rule presence_agrees) (simp add: tokenizePath_def no_wildcard_def)

text \<open>Outside that domain they differ: on a list a wildcard is consumed by the search and not by
  the presence test, so for \<open>a/?/b\<close> and a list of maps the value is found but reported absent.\<close>

theorem presence_list_wildcard_differs:
  "MakeExpandableExtractorForOpaque p ''a/?/b'' False [(''a'', GList [GDict [(''b'', GBool True)]])]
     = [GBool True] \<and>
   \<not> MakeExtractorForPresence ''a/?/b'' [(''a'', GList [GDict [(''b'', GBool True)]])]"
proof -
  let ?b = "GDict [(''b'', GBool True)]"
  have toks: "tokenizePath ''a/?/b'' = [''a'', ''?'', ''b'']" by (simp add: tokenizePath_def)
  have "\<not> is_index ''?''" by (simp add: is_index_def has_prefix_def)
  then show ?thesis
    by (simp add: MakeExpandableExtractorForOpaque_def MakeExtractorForPresence_def find_values_def
        List.map_filter_def toks find_plain_dict find_plain_list find_plain_Nil check_dict
        check_list check_scalar effectiveDict_def effectiveList_def)
qed

end
