(* ===== verification/Json_Clean.thy ===== *)
theory Json_Clean
  imports Json_Query
begin

text \<open>
  Decoding with exact integers, \<open>UnmarshalCleanJSON\<close> of \<open>utils/json.go\<close>. The decoder of
  \<open>encoding/json\<close> (with \<open>UseNumber\<close>: numbers arrive as the text \<open>GNumber\<close>) is the argument
  \<open>decode\<close>, and \<open>strconv.ParseFloat\<close> the argument \<open>parse_float\<close>. The cleaning passes write into
  the decoded maps and lists in place; on an error the whole document is dropped, so the model
  returns the cleaned copies.
\<close>

definition unmarshalCleanJSONElement :: "(string \<Rightarrow> gfloat option) \<Rightarrow> gval \<Rightarrow> go_err + gval" where
  "unmarshalCleanJSONElement parse_float out =
     (case out of
        GNumber original \<Rightarrow>
          (if \<not> contains original ''.'' then
             (if \<not> has_prefix original ''-'' then
                (case parse_uint 64 original of
                   None \<Rightarrow> Inl (GoErr ''ParseUint'')
                 | Some i \<Rightarrow> Inr (GUint64 (of_nat i)))
              else
                (case parse_int 64 original of
                   None \<Rightarrow> Inl (GoErr ''ParseInt'')
                 | Some i \<Rightarrow> Inr (GInt64 (of_int i))))
           else
             (case parse_float original of
                None \<Rightarrow> Inl (GoErr ''ParseFloat'')
              | Some i \<Rightarrow> Inr (GFloat64 i)))
      | _ \<Rightarrow> Inr out)"

fun unmarshalCleanJSONMap :: "(string \<Rightarrow> gfloat option) \<Rightarrow> dict \<Rightarrow> go_err + dict"
  and unmarshalCleanJSONList :: "(string \<Rightarrow> gfloat option) \<Rightarrow> gval list \<Rightarrow> go_err + gval list"
  and unmarshalCleanJSONValue :: "(string \<Rightarrow> gfloat option) \<Rightarrow> gval \<Rightarrow> go_err + gval"
where
  "unmarshalCleanJSONMap pf [] = Inr []"
| "unmarshalCleanJSONMap pf ((k, v) # out) =
     (case unmarshalCleanJSONValue pf v of
        Inl err \<Rightarrow> Inl err
      | Inr v' \<Rightarrow>
          (case unmarshalCleanJSONMap pf out of
             Inl err \<Rightarrow> Inl err
           | Inr out' \<Rightarrow> Inr ((k, v') # out')))"
| "unmarshalCleanJSONList pf [] = Inr []"
| "unmarshalCleanJSONList pf (v # out) =
     (case unmarshalCleanJSONValue pf v of
        Inl err \<Rightarrow> Inl err
      | Inr v' \<Rightarrow>
          (case unmarshalCleanJSONList pf out of
             Inl err \<Rightarrow> Inl err
           | Inr out' \<Rightarrow> Inr (v' # out')))"
| "unmarshalCleanJSONValue pf v =
     (case v of
        GMap val \<Rightarrow> map_sum id GMap (unmarshalCleanJSONMap pf val)
      | GSlice val \<Rightarrow> map_sum id GSlice (unmarshalCleanJSONList pf val)
      | val \<Rightarrow> unmarshalCleanJSONElement pf val)"

definition UnmarshalCleanJSON ::
    "(string \<Rightarrow> go_err + dict) \<Rightarrow> (string \<Rightarrow> gfloat option) \<Rightarrow> string \<Rightarrow> go_err + dict" where
  "UnmarshalCleanJSON decode pf data =
     (case decode data of
        Inl err \<Rightarrow> Inl err
      | Inr out \<Rightarrow> unmarshalCleanJSONMap pf out)"

text \<open>\<open>(*Dict).UnmarshalJSON\<close>: the receiver is replaced on success and kept on an error.\<close>

definition UnmarshalJSON ::
    "(string \<Rightarrow> go_err + dict) \<Rightarrow> (string \<Rightarrow> gfloat option) \<Rightarrow> dict \<Rightarrow> string \<Rightarrow> dict \<times> go_err option"
where
  "UnmarshalJSON decode pf d data =
     (case UnmarshalCleanJSON decode pf data of
        Inl err \<Rightarrow> (d, Some err)
      | Inr c \<Rightarrow> (c, None))"

section \<open>Numbers\<close>

lemma dec_no_char: "\<not> is_digit c \<Longrightarrow> c \<notin> set (dec n)"
  using dec_digits by blast

lemma contains_char: "contains s [c] \<longleftrightarrow> c \<in> set s"
  by (induction s) (auto simp: has_prefix_def)

lemma dec_no_prefix: "\<not> is_digit c \<Longrightarrow> \<not> has_prefix (dec n) [c]"
  by (cases "dec n") (use dec_no_char [of c n] in \<open>auto simp: has_prefix_def\<close>)

lemma not_digit_chars [simp]: "\<not> is_digit (CHR ''.'')" "\<not> is_digit (CHR ''-'')" "\<not> is_digit (CHR ''+'')"
  by (simp_all add: is_digit_def)

lemma parse_int_neg_dec: "n \<le> 2 ^ 63 \<Longrightarrow> parse_int 64 (CHR ''-'' # dec n) = Some (- int n)"
  by (simp add: parse_int_def parse_uint_dec)

lemma clean_dec: "n < 2 ^ 64 \<Longrightarrow> unmarshalCleanJSONElement pf (GNumber (dec n)) = Inr (GUint64 (of_nat n))"
  by (simp add: unmarshalCleanJSONElement_def contains_char dec_no_char dec_no_prefix parse_uint_dec)

lemma clean_neg_dec:
  "n \<le> 2 ^ 63 \<Longrightarrow>
   unmarshalCleanJSONElement pf (GNumber (CHR ''-'' # dec n)) = Inr (GInt64 (- of_nat n))"
  by (simp add: unmarshalCleanJSONElement_def contains_char dec_no_char has_prefix_def
      parse_int_neg_dec)

lemma clean_dec_overflow:
  "2 ^ 64 \<le> n \<Longrightarrow> unmarshalCleanJSONElement pf (GNumber (dec n)) = Inl (GoErr ''ParseUint'')"
  by (simp add: unmarshalCleanJSONElement_def contains_char dec_no_char dec_no_prefix
      parse_uint_def digits_val_dec)

lemma clean_exponent:
  assumes "c \<in> set s" "\<not> is_digit c" "CHR ''.'' \<notin> set s" "\<not> has_prefix s ''-''"
  shows "unmarshalCleanJSONElement pf (GNumber s) = Inl (GoErr ''ParseUint'')"
proof -
  have "digits_val 0 s = None"
    using digits_val_all_digits [of 0 s] assms(1,2) by (cases "digits_val 0 s") auto
  then show ?thesis
    using assms(3,4) by (simp add: unmarshalCleanJSONElement_def contains_char parse_uint_def)
qed

lemma dec_append_no_prefix: "\<not> is_digit c \<Longrightarrow> \<not> has_prefix (dec n @ s) [c]"
  by (cases "dec n") (use dec_no_char [of c n] in \<open>auto simp: has_prefix_def\<close>)

section \<open>Documents\<close>

declare unmarshalCleanJSONValue.simps [simp del]

lemma cleanValue_cases:
  "unmarshalCleanJSONValue pf (GMap m) = map_sum id GMap (unmarshalCleanJSONMap pf m)"
  "unmarshalCleanJSONValue pf (GSlice l) = map_sum id GSlice (unmarshalCleanJSONList pf l)"
  "(\<And>m. v \<noteq> GMap m) \<Longrightarrow> (\<And>l. v \<noteq> GSlice l) \<Longrightarrow>
    unmarshalCleanJSONValue pf v = unmarshalCleanJSONElement pf v"
  by (simp_all add: unmarshalCleanJSONValue.simps split: gval.split)

text \<open>What \<open>encoding/json\<close> produces with \<open>UseNumber\<close>.\<close>

fun decoded :: "gval \<Rightarrow> bool" where
  "decoded (GMap m) \<longleftrightarrow> (\<forall>kv \<in> set m. decoded (snd kv))"
| "decoded (GSlice l) \<longleftrightarrow> (\<forall>v \<in> set l. decoded v)"
| "decoded v \<longleftrightarrow> (case v of GNil \<Rightarrow> True | GBool _ \<Rightarrow> True | GString _ \<Rightarrow> True | GNumber _ \<Rightarrow> True | _ \<Rightarrow> False)"

text \<open>What cleaning leaves: no number text anywhere, integers and floats with their types.\<close>

fun cleaned :: "gval \<Rightarrow> bool" where
  "cleaned (GMap m) \<longleftrightarrow> (\<forall>kv \<in> set m. cleaned (snd kv))"
| "cleaned (GSlice l) \<longleftrightarrow> (\<forall>v \<in> set l. cleaned v)"
| "cleaned v \<longleftrightarrow> (case v of GNil \<Rightarrow> True | GBool _ \<Rightarrow> True | GString _ \<Rightarrow> True
     | GUint64 _ \<Rightarrow> True | GInt64 _ \<Rightarrow> True | GFloat64 _ \<Rightarrow> True | _ \<Rightarrow> False)"

lemma clean_element_cleaned:
  "unmarshalCleanJSONElement pf v = Inr v' \<Longrightarrow> decoded v \<Longrightarrow>
   (\<And>m. v \<noteq> GMap m) \<Longrightarrow> (\<And>l. v \<noteq> GSlice l) \<Longrightarrow> cleaned v'"
  by (cases v) (auto simp: unmarshalCleanJSONElement_def split: if_splits option.splits)

lemma clean_cleaned:
  "unmarshalCleanJSONMap pf m = Inr m' \<Longrightarrow> decoded (GMap m) \<Longrightarrow> cleaned (GMap m') \<and> map fst m' = map fst m"
  "unmarshalCleanJSONList pf l = Inr l' \<Longrightarrow> decoded (GSlice l) \<Longrightarrow> cleaned (GSlice l') \<and> length l' = length l"
  "unmarshalCleanJSONValue pf v = Inr v' \<Longrightarrow> decoded v \<Longrightarrow> cleaned v'"
proof (induction pf m and pf l and pf v arbitrary: m' and l' and v'
    rule: unmarshalCleanJSONMap_unmarshalCleanJSONList_unmarshalCleanJSONValue.induct)
  case (5 pf v)
  consider m where "v = GMap m" | l where "v = GSlice l"
    | "\<And>m. v \<noteq> GMap m" "\<And>l. v \<noteq> GSlice l" by blast
  then show ?case
  proof cases
    case (1 m)
    with 5 show ?thesis
      by (cases "unmarshalCleanJSONMap pf m") (auto simp: cleanValue_cases)
  next
    case (2 l)
    with 5 show ?thesis
      by (cases "unmarshalCleanJSONList pf l") (auto simp: cleanValue_cases)
  next
    case 3
    with 5 show ?thesis by (auto simp: cleanValue_cases intro: clean_element_cleaned)
  qed
qed (fastforce split: sum.splits)+

lemma cleanMap_lookup:
  "unmarshalCleanJSONMap pf m = Inr m' \<Longrightarrow>
   map_of m k = Some v \<Longrightarrow> \<exists>v'. map_of m' k = Some v' \<and> unmarshalCleanJSONValue pf v = Inr v'"
  by (induction m arbitrary: m') (auto split: sum.splits if_splits)

lemma cleanMap_defined:
  "(\<forall>kv \<in> set m. \<exists>v'. unmarshalCleanJSONValue pf (snd kv) = Inr v') \<Longrightarrow>
   \<exists>m'. unmarshalCleanJSONMap pf m = Inr m'"
  by (induction m) (auto split: sum.splits)

section \<open>Properties\<close>

text \<open>C38: when the decoder gives numbers as their texts, as \<open>UseNumber\<close> makes it, a document that is decoded and cleaned
  holds no number text at any depth, only integers and floats, and has the keys of the decoded document in their places.\<close>

theorem clean_document:
  assumes "decode data = Inr m" "decoded (GMap m)"
    and "UnmarshalCleanJSON decode pf data = Inr out"
  shows "cleaned (GMap out) \<and> map fst out = map fst m"
  using clean_cleaned(1) [of pf m out] assms by (simp add: UnmarshalCleanJSON_def)

lemma clean_document_witness:
  "cleaned (GMap [(''a'', GSlice [GInt64 (- 5), GNil])]) \<and>
   map fst [(''a'', GSlice [GInt64 (- 5), GNil])] = [''a'']"
proof -
  have "parse_int 64 ''-5'' = Some (- 5)"
    by (simp add: parse_int_def parse_uint_def is_digit_def digit_val_def)
  then show ?thesis
    using clean_document [of "\<lambda>s. Inr [(''a'', GSlice [GNumber ''-5'', GNil])]" "''x''"
        "[(''a'', GSlice [GNumber ''-5'', GNil])]" "\<lambda>s. None"]
    by (simp add: UnmarshalCleanJSON_def cleanValue_cases unmarshalCleanJSONElement_def
        has_prefix_def)
qed

text \<open>C39: an integer survives the round trip from its JSON text to \<open>GetInt\<close>: when the document
  holds the decimal text of \<open>n\<close> under a key and \<open>n\<close> fits 64 bits, reading the key of the decoded
  document gives \<open>n\<close>, whatever the rest of the document is.\<close>

theorem clean_GetInt_roundtrip:
  assumes "decode data = Inr m" "map_of m k = Some (GNumber (dec n))" "n < 2 ^ 64"
    and "UnmarshalCleanJSON decode pf data = Inr out"
  shows "GetInt oor out k = (of_nat n, True)"
proof -
  obtain v' where "map_of out k = Some v'" "unmarshalCleanJSONValue pf (GNumber (dec n)) = Inr v'"
    using cleanMap_lookup [of pf m out k] assms by (auto simp: UnmarshalCleanJSON_def)
  then show ?thesis
    using assms(3) by (auto simp: cleanValue_cases clean_dec GetInt_def StandardInt_def)
qed

lemma clean_GetInt_roundtrip_witness:
  "GetInt (\<lambda>_. 0) [(''n'', GUint64 (of_nat (2 ^ 64 - 1)))] ''n'' = (of_nat (2 ^ 64 - 1), True)"
  by (rule clean_GetInt_roundtrip [where decode = "\<lambda>s. Inr [(''n'', GNumber (dec (2 ^ 64 - 1)))]"
        and m = "[(''n'', GNumber (dec (2 ^ 64 - 1)))]" and data = "''x''" and pf = "\<lambda>s. None"])
    (simp_all add: UnmarshalCleanJSON_def cleanValue_cases clean_dec del: One_nat_def)

text \<open>One JSON number written with an exponent and no dot, such as \<open>1e5\<close>, makes the whole
  document fail to decode, although it is a valid JSON number.\<close>

theorem clean_exponent_rejected:
  assumes "decode data = Inr m" "map_of m k = Some (GNumber (dec a @ ''e'' @ dec b))"
  shows "\<exists>err. UnmarshalCleanJSON decode pf data = Inl err"
proof (rule ccontr)
  assume "\<not> ?thesis"
  then obtain out where "unmarshalCleanJSONMap pf m = Inr out"
    using assms(1) by (cases "unmarshalCleanJSONMap pf m") (auto simp: UnmarshalCleanJSON_def)
  then obtain v' where v: "unmarshalCleanJSONValue pf (GNumber (dec a @ ''e'' @ dec b)) = Inr v'"
    using cleanMap_lookup assms(2) by blast
  have "CHR ''e'' \<in> set (dec a @ ''e'' @ dec b)" "\<not> is_digit (CHR ''e'')"
    "CHR ''.'' \<notin> set (dec a @ ''e'' @ dec b)" "\<not> has_prefix (dec a @ ''e'' @ dec b) ''-''"
    by (simp_all add: is_digit_def dec_no_char dec_append_no_prefix)
  from clean_exponent [OF this] show False
    using v by (simp add: cleanValue_cases)
qed

lemma clean_exponent_rejected_witness:
  "\<exists>err. UnmarshalCleanJSON (\<lambda>s. Inr [(''n'', GNumber ''1e5'')]) (\<lambda>s. None) ''{}'' = Inl err"
proof -
  have "dec 1 @ ''e'' @ dec 5 = ''1e5''" by code_simp
  then show ?thesis
    using clean_exponent_rejected [of "\<lambda>s. Inr [(''n'', GNumber ''1e5'')]" "''{}''" _ "''n''" 1 5]
    by simp
qed

end
