(* ===== verification/Cli_Config.thy ===== *)
theory Cli_Config
  imports Json_Value
begin

text \<open>
  The command line parser of \<open>utils/env_parse.go\<close>. Arguments \<open>a.b[2].c=v\<close> are written into a tree of
  maps and slices (\<open>ParseCLI\<close>), with the value converted to the type the configuration structure
  declares for the path (\<open>buildFieldTypesMap\<close>, \<open>convertValue\<close>); the tree goes through
  \<open>encoding/json\<close> into the structure, which is the argument \<open>store\<close>. \<open>strconv.ParseFloat\<close> is
  the argument \<open>parse_float\<close>. The Go code walks the tree with a variable that points into it; the
  model rebuilds the path on the way back, which is the same since every node has one parent.
\<close>

section \<open>Types of the configuration structure\<close>

text \<open>\<open>reflect.Type\<close>: a structure lists its fields with name and \<open>json\<close> tag.\<close>

datatype rtype =
    RBool | RInt | RUint | RFloat | ROther
  | RStruct "(string \<times> string \<times> rtype) list"
  | RSlice rtype

fun field_path :: "string \<Rightarrow> string \<Rightarrow> string \<Rightarrow> string" where
  "field_path pre name tag =
     (let jsonTag = hd (split_char (CHR '','') (if tag = '''' then name else tag))
      in if pre \<noteq> '''' then pre @ ''.'' @ jsonTag else jsonTag)"

lemma size_field: "(n, tag, ft) \<in> set fields \<Longrightarrow> size ft < size (RStruct fields)"
  by (induction fields) auto

function buildFieldTypesMap :: "rtype \<Rightarrow> string \<Rightarrow> (string \<times> rtype) list \<Rightarrow> (string \<times> rtype) list" where
  "buildFieldTypesMap t pre fieldTypes =
     (case t of
        RStruct fields \<Rightarrow>
          fold (\<lambda>(name, tag, ft) acc.
                  (let currentPath = field_path pre name tag;
                       acc' = (case ft of
                                 RStruct _ \<Rightarrow> buildFieldTypesMap ft currentPath acc
                               | RSlice et \<Rightarrow>
                                   (case et of RStruct _ \<Rightarrow> buildFieldTypesMap et currentPath acc
                                    | _ \<Rightarrow> acc)
                               | _ \<Rightarrow> acc)
                   in put currentPath ft acc'))
               fields fieldTypes
      | _ \<Rightarrow> fieldTypes)"
  by pat_completeness auto

termination buildFieldTypesMap
  by (relation "measure (\<lambda>(t, _, _). size t)") (auto dest!: size_field)

declare buildFieldTypesMap.simps [simp del]

section \<open>Values\<close>

definition convertValue :: "(string \<Rightarrow> gfloat option) \<Rightarrow> string \<Rightarrow> rtype option \<Rightarrow> gval" where
  "convertValue parse_float val fieldType =
     (case fieldType of
        None \<Rightarrow>
          (case parse_bool val of
             Some b \<Rightarrow>
               if val \<noteq> ''0'' \<and> val \<noteq> ''1'' then GBool b
               else (case parse_int 64 val of Some num \<Rightarrow> GInt64 (of_int num) | None \<Rightarrow> GString val)
           | None \<Rightarrow>
               (case parse_int 64 val of Some num \<Rightarrow> GInt64 (of_int num) | None \<Rightarrow> GString val))
      | Some RBool \<Rightarrow> (case parse_bool val of Some b \<Rightarrow> GBool b | None \<Rightarrow> GString val)
      | Some RInt \<Rightarrow> (case parse_int 64 val of Some num \<Rightarrow> GInt64 (of_int num) | None \<Rightarrow> GString val)
      | Some RUint \<Rightarrow> (case parse_uint 64 val of Some num \<Rightarrow> GUint64 (of_nat num) | None \<Rightarrow> GString val)
      | Some RFloat \<Rightarrow> (case parse_float val of Some num \<Rightarrow> GFloat64 num | None \<Rightarrow> GString val)
      | Some _ \<Rightarrow> GString val)"

section \<open>Paths\<close>

text \<open>
  \<open>arrayIndexRE\<close>, the expression \<open>(.+)\[(\d+)\]$\<close>: the text ends in a bracketed number; since the dot
  does not match a newline the key is what follows the last newline before the bracket.
\<close>

definition arrayIndexRE :: "string \<Rightarrow> (string \<times> string) option" where
  "arrayIndexRE v =
     (case rev v of
        [] \<Rightarrow> None
      | c # r \<Rightarrow>
          if c \<noteq> CHR '']'' then None
          else (case split_first (CHR ''['') r of
                  None \<Rightarrow> None
                | Some (digits, pre) \<Rightarrow>
                    (let key = rev (takeWhile (\<lambda>x. of_char x \<noteq> (10::nat)) pre)
                     in if digits \<noteq> [] \<and> list_all is_digit digits \<and> key \<noteq> []
                        then Some (key, rev digits) else None)))"

definition namespace_collision :: go_err where
  "namespace_collision = GoErr ''namespace collision: %v''"

text \<open>The walk of one argument from the map \<open>tmp\<close> along the rest of the path.\<close>

fun set_path :: "gval \<Rightarrow> dict \<Rightarrow> string list \<Rightarrow> dict outcome" where
  "set_path convertedVal tmp [] = Returns tmp"
| "set_path convertedVal tmp (v # rest) =
     (case arrayIndexRE v of
        Some (actualKey, digits) \<Rightarrow>
          (case atoi digits of
             None \<Rightarrow> set_path convertedVal tmp rest
           | Some i \<Rightarrow>
               (let index = nat i;
                    existing = (case map_of tmp actualKey of
                                  None \<Rightarrow> GSlice (replicate (index + 1) GNil)
                                | Some e \<Rightarrow> e)
                in case existing of
                     GSlice existingArray \<Rightarrow>
                       (let arr = (if length existingArray \<le> index then existingArray @ [GNil]
                                   else existingArray)
                        in if length arr \<le> index then Panics ''index out of range''
                           else if rest = [] then
                             Returns (put actualKey (GSlice (arr[index := convertedVal])) tmp)
                           else
                             (case arr ! index of
                                GNil \<Rightarrow>
                                  bind_outcome (set_path convertedVal [] rest)
                                    (\<lambda>d. Returns (put actualKey (GSlice (arr[index := GMap d])) tmp))
                              | GMap existingDict \<Rightarrow>
                                  bind_outcome (set_path convertedVal existingDict rest)
                                    (\<lambda>d. Returns (put actualKey (GSlice (arr[index := GMap d])) tmp))
                              | _ \<Rightarrow> Fails namespace_collision))
                   | _ \<Rightarrow> Panics ''interface conversion''))
      | None \<Rightarrow>
          (if rest = [] then Returns (put v convertedVal tmp)
           else (case map_of tmp v of
                   None \<Rightarrow>
                     bind_outcome (set_path convertedVal [] rest) (\<lambda>d. Returns (put v (GMap d) tmp))
                 | Some (GMap existingDict) \<Rightarrow>
                     bind_outcome (set_path convertedVal existingDict rest)
                       (\<lambda>d. Returns (put v (GMap d) tmp))
                 | Some _ \<Rightarrow> Fails namespace_collision)))"

definition path_elems :: "string \<Rightarrow> string \<Rightarrow> string list" where
  "path_elems pre varPath =
     (if pre \<noteq> '''' then pre # split_char (CHR ''.'') varPath else split_char (CHR ''.'') varPath)"

fun parse_args ::
    "(string \<Rightarrow> gfloat option) \<Rightarrow> (string \<Rightarrow> rtype option) \<Rightarrow> string \<Rightarrow> string list \<Rightarrow> dict \<Rightarrow> dict outcome"
where
  "parse_args pf fieldTypes pre [] data = Returns data"
| "parse_args pf fieldTypes pre (k # args) data =
     (case split_first (CHR ''='') k of
        None \<Rightarrow> parse_args pf fieldTypes pre args data
      | Some (varPath, val) \<Rightarrow>
          (let pathElems = path_elems pre varPath;
               fieldType = fieldTypes (join_with ''.'' pathElems)
           in bind_outcome (set_path (convertValue pf val fieldType) data pathElems)
                (parse_args pf fieldTypes pre args)))"

definition ParseCLI ::
    "(string \<Rightarrow> gfloat option) \<Rightarrow> (dict \<Rightarrow> 'out outcome) \<Rightarrow> rtype \<Rightarrow> string \<Rightarrow> string list \<Rightarrow> 'out outcome"
where
  "ParseCLI pf store outType pre args =
     (let fieldTypes = map_of (buildFieldTypesMap outType '''' [])
      in bind_outcome (parse_args pf fieldTypes pre args []) store)"

section \<open>Reading the tree\<close>

text \<open>The value at a path: the specification of what \<open>ParseCLI\<close> stores.\<close>

text \<open>A path element is a key, with an index when it names an array entry.\<close>

definition slot :: "string \<Rightarrow> string \<times> nat option" where
  "slot v =
     (case arrayIndexRE v of
        None \<Rightarrow> (v, None)
      | Some (k, digits) \<Rightarrow> (case atoi digits of None \<Rightarrow> (v, None) | Some i \<Rightarrow> (k, Some (nat i))))"

definition good_elem :: "string \<Rightarrow> bool" where
  "good_elem v \<longleftrightarrow> (\<forall>k digits. arrayIndexRE v = Some (k, digits) \<longrightarrow> atoi digits \<noteq> None)"

definition get_slot :: "dict \<Rightarrow> string \<times> nat option \<Rightarrow> gval option" where
  "get_slot d s =
     (case s of
        (k, None) \<Rightarrow> map_of d k
      | (k, Some i) \<Rightarrow>
          (case map_of d k of
             Some (GSlice arr) \<Rightarrow> if i < length arr then Some (arr ! i) else None
           | _ \<Rightarrow> None))"

fun get_path :: "dict \<Rightarrow> (string \<times> nat option) list \<Rightarrow> gval option" where
  "get_path d [] = None"
| "get_path d [s] = get_slot d s"
| "get_path d (s # t # rest) =
     (case get_slot d s of Some (GMap d') \<Rightarrow> get_path d' (t # rest) | _ \<Rightarrow> None)"

text \<open>Two paths part at entries that can both exist: different keys, or two indices of one array.\<close>

fun independent :: "(string \<times> nat option) list \<Rightarrow> (string \<times> nat option) list \<Rightarrow> bool" where
  "independent ((k, a) # p) ((k', b) # q) \<longleftrightarrow>
     (if k \<noteq> k' then True
      else if a = b then independent p q
      else a \<noteq> None \<and> b \<noteq> None)"
| "independent _ _ \<longleftrightarrow> False"

text \<open>One step of the walk: the map with a new value at a slot.\<close>

definition slot_update :: "dict \<Rightarrow> string \<times> nat option \<Rightarrow> gval \<Rightarrow> dict outcome" where
  "slot_update d s x =
     (case s of
        (k, None) \<Rightarrow> Returns (put k x d)
      | (k, Some i) \<Rightarrow>
          (case (case map_of d k of None \<Rightarrow> GSlice (replicate (i + 1) GNil) | Some e \<Rightarrow> e) of
             GSlice arr0 \<Rightarrow>
               (let arr = (if length arr0 \<le> i then arr0 @ [GNil] else arr0)
                in if length arr \<le> i then Panics ''index out of range''
                   else Returns (put k (GSlice (arr[i := x])) d))
           | _ \<Rightarrow> Panics ''interface conversion''))"

lemma slot_update_get:
  "slot_update d s x = Returns d' \<Longrightarrow> get_slot d' s = Some x"
  by (cases s; cases "snd s")
    (auto simp: slot_update_def get_slot_def Let_def simp del: replicate.simps
      split: option.splits gval.splits if_splits)

lemma slot_update_frame:
  assumes "slot_update d s x = Returns d'" "independent (s # p) (t # q)" "s \<noteq> t"
    and "get_slot d t = Some y"
  shows "get_slot d' t = Some y"
  using assms
  by (cases s; cases t; cases "snd s"; cases "snd t")
    (auto simp: slot_update_def get_slot_def Let_def nth_append nth_list_update
      split: option.splits gval.splits if_splits)

text \<open>The walk as a walk over slots.\<close>

fun set_slots :: "gval \<Rightarrow> dict \<Rightarrow> (string \<times> nat option) list \<Rightarrow> dict outcome" where
  "set_slots x d [] = Returns d"
| "set_slots x d [s] = slot_update d s x"
| "set_slots x d (s # t # rest) =
     (case slot_update d s GNil of
        Panics m \<Rightarrow> Panics m
      | Fails e \<Rightarrow> Fails e
      | Returns _ \<Rightarrow>
          (case get_slot d s of
             Some (GMap e) \<Rightarrow>
               bind_outcome (set_slots x e (t # rest)) (\<lambda>e'. slot_update d s (GMap e'))
           | Some GNil \<Rightarrow>
               (if snd s = None then Fails namespace_collision
                else bind_outcome (set_slots x [] (t # rest)) (\<lambda>e'. slot_update d s (GMap e')))
           | None \<Rightarrow> bind_outcome (set_slots x [] (t # rest)) (\<lambda>e'. slot_update d s (GMap e'))
           | _ \<Rightarrow> Fails namespace_collision))"

lemma set_path_slots:
  "list_all good_elem p \<Longrightarrow> set_path x d p = set_slots x d (map slot p)"
proof (induction p arbitrary: d)
  case (Cons v rest)
  have IH: "set_path x e rest = set_slots x e (map slot rest)" for e
    using Cons by simp
  show ?case
  proof (cases "arrayIndexRE v")
    case None
    then have sl: "slot v = (v, None)" by (simp add: slot_def)
    show ?thesis
    proof (cases rest)
      case (Cons t r)
      show ?thesis
        using IH unfolding Cons
        by (subst set_path.simps) (simp add: None sl slot_update_def get_slot_def
            del: set_path.simps split: option.split gval.split)
    qed (simp add: None sl slot_update_def)
  next
    case (Some kd)
    obtain k ds where kd: "kd = (k, ds)" by fastforce
    with Some Cons.prems obtain i where i: "atoi ds = Some i" by (auto simp: good_elem_def)
    have sl: "slot v = (k, Some (nat i))" using Some kd i by (simp add: slot_def)
    note unfold = sl slot_update_def get_slot_def Let_def nth_append Some kd i
    show ?thesis
    proof (cases rest)
      case (Cons t r)
      show ?thesis
        using IH unfolding Cons
        by (subst set_path.simps) (simp add: unfold del: replicate.simps set_path.simps
            split: option.split gval.split)
    qed (simp add: unfold del: replicate.simps split: option.split gval.split)
  qed
qed simp

lemma bind_Returns_D:
  "bind_outcome m f = Returns y \<Longrightarrow> \<exists>x. m = Returns x \<and> f x = Returns y"
  by (simp add: bind_outcome_Returns)

lemma set_slots_step:
  assumes "set_slots x d (s # t # rest) = Returns d'"
  obtains e e' where "set_slots x e (t # rest) = Returns e'" "slot_update d s (GMap e') = Returns d'"
    "\<And>d1. get_slot d s = Some (GMap d1) \<Longrightarrow> d1 = e"
  using assms
  by (auto split: outcome.splits option.splits gval.splits if_splits dest!: bind_Returns_D)

lemma set_slots_get:
  "set_slots x d p = Returns d' \<Longrightarrow> p \<noteq> [] \<Longrightarrow> get_path d' p = Some x"
proof (induction p arbitrary: d d')
  case (Cons s p)
  show ?case
  proof (cases p)
    case Nil
    with Cons show ?thesis by (simp add: slot_update_get)
  next
    case (Cons t r)
    from Cons.prems(1) [unfolded Cons] obtain e e'
      where "set_slots x e (t # r) = Returns e'" "slot_update d s (GMap e') = Returns d'"
      by (rule set_slots_step)
    then show ?thesis
      using Cons.IH [of e e'] slot_update_get [of d s] by (simp add: Cons)
  qed
qed simp

lemma get_path_head:
  "get_path d (u # q) = Some y \<Longrightarrow> get_slot d' u = get_slot d u \<Longrightarrow> get_path d' (u # q) = Some y"
  by (cases q) simp_all

lemma get_path_defined: "get_path d (u # q) = Some y \<Longrightarrow> \<exists>z. get_slot d u = Some z"
  by (cases q) (auto split: option.splits)

lemma set_slots_update:
  "set_slots x d (s # p) = Returns d' \<Longrightarrow> \<exists>z. slot_update d s z = Returns d'"
proof (cases p)
  case (Cons t r)
  assume "set_slots x d (s # p) = Returns d'"
  from this [unfolded Cons] show ?thesis by (rule set_slots_step) blast
qed auto

lemma set_slots_frame:
  "set_slots x d p = Returns d' \<Longrightarrow> independent p q \<Longrightarrow> get_path d q = Some y \<Longrightarrow>
   get_path d' q = Some y"
proof (induction p arbitrary: d d' q)
  case (Cons s p)
  from Cons.prems(2) obtain u q' where q: "q = u # q'" by (cases q) auto
  show ?case
  proof (cases "s = u")
    case False
    obtain z where z: "slot_update d s z = Returns d'"
      using set_slots_update [OF Cons.prems(1)] by blast
    obtain g where g: "get_slot d u = Some g"
      using get_path_defined Cons.prems(3) unfolding q by blast
    have "get_slot d' u = get_slot d u"
      using slot_update_frame [OF z Cons.prems(2) [unfolded q] False g] g by simp
    with get_path_head Cons.prems(3) show ?thesis unfolding q by blast
  next
    case True
    with Cons.prems(2) have ind: "independent p q'" by (cases u) (simp add: q)
    then obtain t r v w where p: "p = t # r" and q': "q' = v # w"
      by (cases p; cases q') auto
    from Cons.prems(3) True obtain d1 where d1: "get_slot d s = Some (GMap d1)" "get_path d1 q' = Some y"
      by (auto simp: q q' split: option.splits gval.splits)
    from Cons.prems(1) [unfolded p] obtain e e'
      where e: "set_slots x e (t # r) = Returns e'" "slot_update d s (GMap e') = Returns d'"
        "\<And>d1. get_slot d s = Some (GMap d1) \<Longrightarrow> d1 = e"
      by (rule set_slots_step) blast
    then have "get_path e' q' = Some y"
      using Cons.IH [of e e' q'] ind d1 unfolding p by simp
    then show ?thesis
      using slot_update_get [OF e(2)] True by (simp add: q q')
  qed
qed simp

section \<open>Properties\<close>

text \<open>The slots of an argument, and the value it carries.\<close>

definition arg_path :: "string \<Rightarrow> string \<Rightarrow> (string \<times> nat option) list" where
  "arg_path pre varPath = map slot (path_elems pre varPath)"

lemma path_elems_not_Nil [simp]: "path_elems pre varPath \<noteq> []"
  by (simp add: path_elems_def)

text \<open>The first argument for a path decides its value when the later ones are independent of it.\<close>

lemma parse_args_keep:
  "parse_args pf ft pre args d = Returns d' \<Longrightarrow> get_path d p = Some y \<Longrightarrow>
   (\<forall>k \<in> set args. \<forall>path val. split_first (CHR ''='') k = Some (path, val) \<longrightarrow>
      list_all good_elem (path_elems pre path) \<and> independent (arg_path pre path) p) \<Longrightarrow>
   get_path d' p = Some y"
proof (induction args arbitrary: d)
  case (Cons k args)
  show ?case
  proof (cases "split_first (CHR ''='') k")
    case None
    with Cons show ?thesis by simp
  next
    case (Some pv)
    obtain path val where pv: "pv = (path, val)" by fastforce
    let ?x = "convertValue pf val (ft (join_with ''.'' (path_elems pre path)))"
    have g: "list_all good_elem (path_elems pre path)" "independent (arg_path pre path) p"
      using Cons.prems(3) Some pv by auto
    obtain d1 where d1: "set_path ?x d (path_elems pre path) = Returns d1"
      "parse_args pf ft pre args d1 = Returns d'"
      using Cons.prems(1) Some pv by (auto simp: Let_def dest!: bind_Returns_D)
    have "get_path d1 p = Some y"
      using d1(1) g Cons.prems(2) by (auto simp: set_path_slots arg_path_def intro: set_slots_frame)
    then show ?thesis using Cons d1(2) by simp
  qed
qed simp

lemma parse_args_append:
  "parse_args pf ft pre (xs @ ys) d = bind_outcome (parse_args pf ft pre xs d) (parse_args pf ft pre ys)"
proof (induction xs arbitrary: d)
  case (Cons k xs)
  show ?case
  proof (cases "split_first (CHR ''='') k")
    case (Some pv)
    obtain path val where pv: "pv = (path, val)" by fastforce
    show ?thesis
      by (cases "set_path (convertValue pf val (ft (join_with ''.'' (path_elems pre path)))) d
                   (path_elems pre path)")
        (simp_all add: Some pv Cons Let_def)
  qed (simp add: Cons)
qed simp

text \<open>C40: every argument is stored: when the parse succeeds, the value of an argument, converted to the
  type the structure declares for its path, is at its path in the tree handed to the decoder,
  provided the later arguments write to entries independent of it.\<close>

theorem ParseCLI_stores:
  assumes "ParseCLI pf Returns outType pre (xs @ k # ys) = Returns d"
    and "split_first (CHR ''='') k = Some (path, val)" "list_all good_elem (path_elems pre path)"
    and "\<forall>k' \<in> set ys. \<forall>path' val'. split_first (CHR ''='') k' = Some (path', val') \<longrightarrow>
           list_all good_elem (path_elems pre path') \<and> independent (arg_path pre path') (arg_path pre path)"
  shows "get_path d (arg_path pre path) =
    Some (convertValue pf val
      (map_of (buildFieldTypesMap outType '''' []) (join_with ''.'' (path_elems pre path))))"
proof -
  let ?ft = "map_of (buildFieldTypesMap outType '''' [])"
  let ?x = "convertValue pf val (?ft (join_with ''.'' (path_elems pre path)))"
  obtain d1 d2 where d: "set_path ?x d1 (path_elems pre path) = Returns d2"
    "parse_args pf ?ft pre ys d2 = Returns d"
    using assms(1,2)
    by (auto simp: ParseCLI_def Let_def parse_args_append dest!: bind_Returns_D)
  then have "get_path d2 (arg_path pre path) = Some ?x"
    using assms(3) by (auto simp: set_path_slots arg_path_def intro: set_slots_get)
  then show ?thesis
    using parse_args_keep [OF d(2)] assms(4) by blast
qed

lemma set_path_no_panic:
  "list_all (\<lambda>v. arrayIndexRE v = None) p \<Longrightarrow> set_path x d p \<noteq> Panics m"
proof (induction p arbitrary: d)
  case (Cons v p)
  then have IH: "set_path x e p \<noteq> Panics m" for e by simp
  then have "bind_outcome (set_path x e p) (\<lambda>d'. Returns (put v (GMap d') d)) \<noteq> Panics m" for e
    by (cases "set_path x e p") auto
  with Cons.prems show ?case
    by (auto split: option.split gval.split)
qed simp

text \<open>Arguments without array elements never make the parser panic.\<close>

theorem ParseCLI_no_panic:
  assumes "\<forall>k \<in> set args. \<forall>path val. split_first (CHR ''='') k = Some (path, val) \<longrightarrow>
      list_all (\<lambda>v. arrayIndexRE v = None) (path_elems pre path)"
  shows "ParseCLI pf Returns outType pre args \<noteq> Panics m"
proof -
  have "parse_args pf ft pre args d \<noteq> Panics m" for ft d
    using assms
  proof (induction args arbitrary: d)
    case (Cons k args)
    show ?case
    proof (cases "split_first (CHR ''='') k")
      case (Some pv)
      obtain path val where pv: "pv = (path, val)" by fastforce
      let ?r = "set_path (convertValue pf val (ft (join_with ''.'' (path_elems pre path)))) d
                  (path_elems pre path)"
      have "?r \<noteq> Panics m" using Cons.prems Some pv by (intro set_path_no_panic) auto
      with Cons Some pv show ?thesis by (cases ?r) (simp_all add: Let_def)
    qed (use Cons in simp)
  qed simp
  then have "bind_outcome (parse_args pf ft pre args []) Returns \<noteq> Panics m" for ft
    by (cases "parse_args pf ft pre args []") auto
  then show ?thesis by (simp add: ParseCLI_def)
qed

text \<open>Array entries must come without gaps: an array argument whose index is two or more past the
  one given before makes the parser panic with an index out of range, whatever the structure is.\<close>

theorem ParseCLI_array_gap_panics:
  assumes "k \<noteq> []" "\<forall>c \<in> set k. of_char c \<noteq> (10 :: nat)"
    and "CHR ''['' \<notin> set k" "CHR ''='' \<notin> set k" "CHR ''.'' \<notin> set k" "i + 1 < j" "j < 2 ^ 63"
  shows "ParseCLI pf store outType ''''
     [k @ ''['' @ dec i @ '']='' @ v, k @ ''['' @ dec j @ '']='' @ w] =
     Panics ''index out of range''"
proof -
  have elem: "arrayIndexRE (k @ ''['' @ dec n @ '']'') = Some (k, dec n)" for n
  proof -
    have tw: "takeWhile (\<lambda>c. of_char c \<noteq> (10::nat)) (rev k) = rev k"
      using assms(2) by (subst takeWhile_eq_all_conv) auto
    have "split_first (CHR ''['') (rev (dec n) @ CHR ''['' # rev k) = Some (rev (dec n), rev k)"
      using dec_digits [of "CHR ''[''" n] by (auto simp: split_first_Some is_digit_def)
    then show ?thesis
      using assms(1) by (simp add: arrayIndexRE_def list_all_iff dec_digits tw)
  qed
  have arg: "split_first (CHR ''='') (k @ ''['' @ dec n @ '']='' @ u) = Some (k @ ''['' @ dec n @ '']'', u)"
    for n u
    using dec_digits [of "CHR ''=''" n] assms(4) by (auto simp: split_first_Some is_digit_def)
  have path: "path_elems '''' (k @ ''['' @ dec n @ '']'') = [k @ ''['' @ dec n @ '']'']" for n
    using dec_digits [of "CHR ''.''" n] assms(5)
    by (auto simp: path_elems_def is_digit_def intro!: split_char_no_occ)
  have at: "atoi (dec n) = Some (int n)" if "n < 2 ^ 63" for n
  proof (cases "dec n")
    case (Cons c cs)
    then have "is_digit c" using dec_digits [of c n] by simp
    then have "c \<noteq> CHR ''+''" "c \<noteq> CHR ''-''" by (auto simp: is_digit_def)
    then show ?thesis
      using parse_uint_dec [of n 64] that by (simp add: atoi_def parse_int_def Cons Let_def)
  qed simp
  show ?thesis
    using assms(6,7) unfolding ParseCLI_def Let_def parse_args.simps arg option.case prod.case path
    by (simp add: elem [simplified] at del: replicate.simps)
qed

lemma ParseCLI_array_gap_panics_witness:
  "ParseCLI (\<lambda>_. None) Returns (RStruct []) '''' [''a[0]=x'', ''a[2]=y''] = Panics ''index out of range''"
proof -
  have "dec 0 = ''0''" "dec 2 = ''2''" by code_simp+
  then show ?thesis
    using ParseCLI_array_gap_panics [of "''a''" 0 2 "\<lambda>_. None" Returns "RStruct []" "''x''" "''y''"]
    by simp
qed

lemma ParseCLI_no_panic_witness:
  "\<forall>m. ParseCLI (\<lambda>_. None) Returns (RStruct []) ''p'' [''a.b=1'', ''a=2'', ''flag''] \<noteq> Panics m"
  by (rule allI, rule ParseCLI_no_panic) (simp add: path_elems_def arrayIndexRE_def)

lemma ParseCLI_stores_witness:
  "get_path [(''p'', GMap [(''a'', GSlice [GMap [(''b'', GInt64 7)]]), (''c'', GString ''x'')])]
     [(''p'', None), (''a'', Some 0), (''b'', None)] = Some (GInt64 7)"
proof -
  have m: "arrayIndexRE ''a[0]'' = Some (''a'', ''0'')" "arrayIndexRE ''p'' = None"
    "arrayIndexRE ''b'' = None" "arrayIndexRE ''c'' = None"
    by (simp_all add: arrayIndexRE_def is_digit_def)
  have z: "atoi ''0'' = Some 0" "parse_int 64 ''7'' = Some 7" "parse_int 64 ''x'' = None"
    "parse_bool ''7'' = None" "parse_bool ''x'' = None"
    by (simp_all add: atoi_def parse_int_def parse_uint_def is_digit_def digit_val_def parse_bool_def)
  have path: "arg_path ''p'' ''a[0].b'' = [(''p'', None), (''a'', Some 0), (''b'', None)]"
    "arg_path ''p'' ''c'' = [(''p'', None), (''c'', None)]"
    by (simp_all add: arg_path_def path_elems_def slot_def m z)
  have ft: "buildFieldTypesMap (RStruct []) '''' [] = []" by (simp add: buildFieldTypesMap.simps)
  show ?thesis
    using ParseCLI_stores [of "\<lambda>_. None" "RStruct []" "''p''" "[]" "''a[0].b=7''" "[''c=x'']" _
        "''a[0].b''" "''7''"]
    by (simp add: path ParseCLI_def path_elems_def m z convertValue_def good_elem_def ft Let_def)
qed

end
