(* ===== verification/Tokenizer.thy ===== *)
theory Tokenizer
  imports Go_Strings
begin

text \<open>
  \<open>utils/stream_tokenizer.go\<close>: the splitter of a byte stream into messages that the stdin, syslog
  and file adapters read with. \<open>Add\<close> takes the next chunk of the stream and returns the messages
  that end in it. The reference is \<open>split_char\<close> on the whole stream.
\<close>

record tokenizer =
  MaxSize :: int
  ExpectedSize :: int
  Token :: char
  currentData :: string

definition ErrorTooLarge :: go_err where
  "ErrorTooLarge = GoErr ''too large''"

definition too_large :: "tokenizer \<Rightarrow> string \<Rightarrow> bool" where
  "too_large t cur \<longleftrightarrow> MaxSize t \<noteq> 0 \<and> int (length cur) > MaxSize t"

definition slice :: "'a list \<Rightarrow> nat \<Rightarrow> nat \<Rightarrow> 'a list" where
  "slice xs i j = drop i (take j xs)"

text \<open>The loop over \<open>data\<close>: \<open>i\<close> is the position of the head of the last argument.\<close>

fun add_loop ::
    "tokenizer \<Rightarrow> string \<Rightarrow> nat \<Rightarrow> nat \<Rightarrow> string list \<Rightarrow> string \<Rightarrow> tokenizer \<times> string list outcome"
where
  "add_loop t data dataStart i toReport [] = (t, Returns toReport)"
| "add_loop t data dataStart i toReport (b # bs) =
     (if b = Token t then
        (let grow = int i - 1 > int dataStart;
             cur = (if grow then currentData t @ slice data dataStart i else currentData t)
         in if grow \<and> too_large t cur
            then (t\<lparr>currentData := []\<rparr>, Fails ErrorTooLarge)
            else if ExpectedSize t < 0
            then (t\<lparr>currentData := cur\<rparr>, Panics ''makeslice: cap out of range'')
            else add_loop (t\<lparr>currentData := []\<rparr>) data (i + 1) (i + 1) (toReport @ [cur]) bs)
      else if int (length data) - 1 = int i then
        (let cur = currentData t @ slice data dataStart (i + 1)
         in if too_large t cur
            then (t\<lparr>currentData := []\<rparr>, Fails ErrorTooLarge)
            else add_loop (t\<lparr>currentData := cur\<rparr>) data dataStart (i + 1) toReport bs)
      else add_loop t data dataStart (i + 1) toReport bs)"

definition Add :: "tokenizer \<Rightarrow> string \<Rightarrow> tokenizer \<times> string list outcome" where
  "Add t data = add_loop t data 0 0 [] data"

text \<open>A stream arrives in chunks; the reader stops at the first error.\<close>

fun add_all :: "tokenizer \<Rightarrow> string list \<Rightarrow> tokenizer \<times> string list outcome" where
  "add_all t [] = (t, Returns [])"
| "add_all t (c # cs) =
     (case Add t c of
        (t', Returns ms) \<Rightarrow>
          (case add_all t' cs of
             (t'', Returns ms') \<Rightarrow> (t'', Returns (ms @ ms'))
           | (t'', r) \<Rightarrow> (t'', r))
      | (t', r) \<Rightarrow> (t', r))"

section \<open>Without a size limit\<close>

text \<open>What becomes of the segment before a token: a segment of one byte is lost.\<close>

definition drop_single :: "string \<Rightarrow> string" where
  "drop_single s = (if length s = 1 then [] else s)"

fun add_result :: "string \<Rightarrow> string list \<Rightarrow> string \<times> string list" where
  "add_result cur [] = (cur, [])"
| "add_result cur [s] = (cur @ s, [])"
| "add_result cur (s # t # segs) =
     (last (t # segs), (cur @ drop_single s) # map drop_single (butlast (t # segs)))"

lemma add_result_shift:
  "segs \<noteq> [] \<Longrightarrow>
   add_result cur (s # segs) =
     (fst (add_result [] segs), (cur @ drop_single s) # snd (add_result [] segs))"
  by (cases "([] :: string, segs)" rule: add_result.cases) auto

lemma slice_middle: "slice (pre @ seg @ bs) (length pre) (length pre + length seg) = seg"
  by (simp add: slice_def)

lemma add_loop_exact:
  assumes "MaxSize t = 0" "0 \<le> ExpectedSize t"
  shows "Token t \<notin> set seg \<Longrightarrow> bs \<noteq> [] \<Longrightarrow>
    add_loop (t\<lparr>currentData := cur\<rparr>) (pre @ seg @ bs) (length pre) (length pre + length seg) rep bs =
      (t\<lparr>currentData := fst (add_result cur (split_char (Token t) (seg @ bs)))\<rparr>,
       Returns (rep @ snd (add_result cur (split_char (Token t) (seg @ bs)))))"
proof (induction bs arbitrary: seg pre cur rep)
  case (Cons b bs)
  have grow: "int (length pre + length seg) - 1 > int (length pre) \<longleftrightarrow> 1 < length seg" by linarith
  have seg: "(if 1 < length seg then cur @ seg else cur) = cur @ drop_single seg"
    by (auto simp: drop_single_def) (cases seg; auto)
  show ?case
  proof (cases "b = Token t")
    case True
    have "split_char (Token t) (seg @ b # bs) = seg # split_char (Token t) bs"
      using Cons.prems(1) True by (simp add: split_char_append_sep)
    moreover have "add_loop (t\<lparr>currentData := []\<rparr>) (pre @ seg @ b # bs)
        (Suc (length pre + length seg)) (Suc (length pre + length seg)) (rep @ [cur @ drop_single seg]) bs =
      (t\<lparr>currentData := fst (add_result [] (split_char (Token t) bs))\<rparr>,
       Returns (rep @ [cur @ drop_single seg] @ snd (add_result [] (split_char (Token t) bs))))"
      using Cons.IH [of "[]" "[]" "pre @ seg @ [b]" "rep @ [cur @ drop_single seg]"]
      by (cases bs) simp_all
    ultimately show ?thesis
      using True assms seg
      by (cases "1 < length seg")
        (simp_all add: too_large_def grow slice_middle add_result_shift Let_def)
  next
    case False
    show ?thesis
    proof (cases bs)
      case Nil
      then show ?thesis
        using False assms Cons.prems(1) slice_middle [of pre "seg @ [b]" "[]"]
        by (simp add: too_large_def Let_def split_char_no_occ)
    next
      case bs: (Cons c cs)
      then have "bs \<noteq> []" "int (length (pre @ seg @ b # bs)) - 1 \<noteq> int (length pre + length seg)"
        by simp_all
      then show ?thesis
        using False Cons.prems(1) Cons.IH [of "seg @ [b]" cur pre rep] by simp
    qed
  qed
qed simp

text \<open>What \<open>Add\<close> does to a chunk, when there is no size limit: the chunk is split at the tokens, all
  segments but the last are reported, the first one after the carried data, and the last is
  carried over; but a segment of exactly one byte before a token is replaced by nothing.\<close>

theorem Add_exact:
  assumes "MaxSize t = 0" "0 \<le> ExpectedSize t"
  shows "Add t data =
    (t\<lparr>currentData := fst (add_result (currentData t) (split_char (Token t) data))\<rparr>,
     Returns (snd (add_result (currentData t) (split_char (Token t) data))))"
proof (cases "data = []")
  case False
  then show ?thesis
    using add_loop_exact [OF assms, of "[]" data "currentData t" "[]" "[]"] by (simp add: Add_def)
qed (simp add: Add_def)

section \<open>Chunks of a stream\<close>

lemma split_char_append:
  "split_char c (x @ y) =
     butlast (split_char c x) @ (last (split_char c x) @ hd (split_char c y)) # tl (split_char c y)"
proof (induction x)
  case (Cons a x)
  then show ?case
    by (cases "split_char c x") (auto split: list.split)
qed simp

definition no_single_byte :: "char \<Rightarrow> string \<Rightarrow> bool" where
  "no_single_byte tok c \<longleftrightarrow> list_all (\<lambda>s. length s \<noteq> 1) (butlast (split_char tok c))"

lemma map_drop_single: "list_all (\<lambda>s. length s \<noteq> 1) ss \<Longrightarrow> map drop_single ss = ss"
  by (induction ss) (auto simp: drop_single_def)

lemma add_result_split:
  assumes "tok \<notin> set cur" "no_single_byte tok c"
  shows "add_result cur (split_char tok c) =
    (last (split_char tok (cur @ c)), butlast (split_char tok (cur @ c)))"
proof -
  have app: "split_char tok (cur @ c) = (cur @ hd (split_char tok c)) # tl (split_char tok c)"
    using assms(1) by (simp add: split_char_append split_char_no_occ)
  show ?thesis
  proof (cases "tl (split_char tok c)")
    case Nil
    then show ?thesis
      using app by (cases "split_char tok c") simp_all
  next
    case (Cons s2 r)
    then obtain s1 where s: "split_char tok c = s1 # s2 # r"
      by (cases "split_char tok c") auto
    with assms(2) have "drop_single s1 = s1" "map drop_single (butlast (s2 # r)) = butlast (s2 # r)"
      by (auto simp: no_single_byte_def drop_single_def intro: map_drop_single)
    then show ?thesis using app s by simp
  qed
qed

lemma add_all_split:
  assumes "MaxSize t = 0" "0 \<le> ExpectedSize t"
  shows "Token t \<notin> set cur \<Longrightarrow> list_all (no_single_byte (Token t)) cs \<Longrightarrow>
    add_all (t\<lparr>currentData := cur\<rparr>) cs =
      (t\<lparr>currentData := last (split_char (Token t) (cur @ concat cs))\<rparr>,
       Returns (butlast (split_char (Token t) (cur @ concat cs))))"
proof (induction cs arbitrary: cur)
  case Nil
  then show ?case by (simp add: split_char_no_occ)
next
  case (Cons c cs)
  let ?x = "cur @ c"
  let ?rest = "last (split_char (Token t) ?x)"
  have add: "Add (t\<lparr>currentData := cur\<rparr>) c =
      (t\<lparr>currentData := ?rest\<rparr>, Returns (butlast (split_char (Token t) ?x)))"
    using Add_exact [of "t\<lparr>currentData := cur\<rparr>" c] assms Cons.prems
    by (simp add: add_result_split)
  have "Token t \<notin> set ?rest" 
    by (rule split_char_no_sep [OF last_in_set]) simp
  then have IH: "add_all (t\<lparr>currentData := ?rest\<rparr>) cs =
      (t\<lparr>currentData := last (split_char (Token t) (?rest @ concat cs))\<rparr>,
       Returns (butlast (split_char (Token t) (?rest @ concat cs))))"
    using Cons.IH Cons.prems(2) by simp
  have "split_char (Token t) (?rest @ concat cs) =
      (?rest @ hd (split_char (Token t) (concat cs))) # tl (split_char (Token t) (concat cs))"
    using \<open>Token t \<notin> set ?rest\<close> by (simp add: split_char_append split_char_no_occ)
  moreover have "split_char (Token t) (?x @ concat cs) =
      butlast (split_char (Token t) ?x) @
      (?rest @ hd (split_char (Token t) (concat cs))) # tl (split_char (Token t) (concat cs))"
    by (rule split_char_append)
  ultimately have "split_char (Token t) (?x @ concat cs) =
      butlast (split_char (Token t) ?x) @ split_char (Token t) (?rest @ concat cs)" by simp
  then show ?case
    using add IH by (simp add: butlast_append)
qed

text \<open>C34: without a size limit, which is how the repository uses it, the tokenizer does not depend on how the
  stream is cut: over any sequence of chunks in which
  no token follows a one-byte segment, the messages reported and the data carried over are those
  of splitting the whole stream at once.\<close>

theorem add_all_refines_split:
  assumes "MaxSize t = 0" "0 \<le> ExpectedSize t" "currentData t = []"
    and "list_all (no_single_byte (Token t)) cs"
  shows "add_all t cs =
    (t\<lparr>currentData := last (split_char (Token t) (concat cs))\<rparr>,
     Returns (butlast (split_char (Token t) (concat cs))))"
proof -
  have "t\<lparr>currentData := []\<rparr> = t" using assms(3) by simp
  then show ?thesis
    using add_all_split [OF assms(1,2), of "[]" cs] assms(4) by simp
qed

lemma add_all_refines_split_witness:
  "snd (add_all \<lparr>MaxSize = 0, ExpectedSize = 16, Token = CHR ''-'', currentData = []\<rparr> [''ab-c'', ''de--'', ''ef'']) =
     Returns [''ab'', ''cde'', '''']"
  by (subst add_all_refines_split) (simp_all add: no_single_byte_def)

section \<open>With a size limit\<close>

definition bounded :: "tokenizer \<Rightarrow> bool" where
  "bounded t \<longleftrightarrow> 0 < MaxSize t \<and> int (length (currentData t)) \<le> MaxSize t"

definition fits :: "tokenizer \<Rightarrow> string list \<Rightarrow> bool" where
  "fits t ms \<longleftrightarrow> list_all (\<lambda>m. int (length m) \<le> MaxSize t) ms"

lemma bounded_update:
  "bounded t \<Longrightarrow> \<not> too_large t cur \<Longrightarrow> bounded (t\<lparr>currentData := cur\<rparr>)"
  "bounded t \<Longrightarrow> bounded (t\<lparr>currentData := []\<rparr>)"
  by (auto simp: bounded_def too_large_def)

lemma fits_snoc:
  "bounded t \<Longrightarrow> fits t ms \<Longrightarrow> \<not> (grow \<and> too_large t cur) \<Longrightarrow> \<not> grow \<longrightarrow> cur = currentData t \<Longrightarrow>
   fits t (ms @ [cur])"
  by (auto simp: bounded_def too_large_def fits_def)

lemma fits_currentData [simp]: "fits (t\<lparr>currentData := c\<rparr>) ms \<longleftrightarrow> fits t ms"
  by (simp add: fits_def)

lemma too_large_currentData [simp]: "too_large (t\<lparr>currentData := c\<rparr>) d \<longleftrightarrow> too_large t d"
  by (simp add: too_large_def)

definition add_ok :: "tokenizer \<Rightarrow> tokenizer \<times> string list outcome \<Rightarrow> bool" where
  "add_ok t res \<longleftrightarrow> MaxSize (fst res) = MaxSize t \<and>
     (case snd res of
        Returns ms \<Rightarrow> bounded (fst res) \<and> fits t ms
      | Fails e \<Rightarrow> e = ErrorTooLarge \<and> currentData (fst res) = []
      | Panics m \<Rightarrow> ExpectedSize t < 0)"

lemma add_ok_currentData [simp]: "add_ok (t\<lparr>currentData := c\<rparr>) res \<longleftrightarrow> add_ok t res"
  by (simp add: add_ok_def split: outcome.split)

lemma add_loop_ok:
  "bounded t \<Longrightarrow> fits t rep \<Longrightarrow> add_ok t (add_loop t data ds i rep bs)"
proof (induction bs arbitrary: t ds i rep)
  case Nil
  then show ?case by (simp add: add_ok_def)
next
  case (Cons b bs)
  define grow where "grow \<longleftrightarrow> int i - 1 > int ds"
  define cur where "cur = (if grow then currentData t @ slice data ds i else currentData t)"
  define end_cur where "end_cur = currentData t @ slice data ds (i + 1)"
  have step: "add_loop t data ds i rep (b # bs) =
     (if b = Token t then
        (if grow \<and> too_large t cur then (t\<lparr>currentData := []\<rparr>, Fails ErrorTooLarge)
         else if ExpectedSize t < 0
         then (t\<lparr>currentData := cur\<rparr>, Panics ''makeslice: cap out of range'')
         else add_loop (t\<lparr>currentData := []\<rparr>) data (i + 1) (i + 1) (rep @ [cur]) bs)
      else if int (length data) - 1 = int i then
        (if too_large t end_cur then (t\<lparr>currentData := []\<rparr>, Fails ErrorTooLarge)
         else add_loop (t\<lparr>currentData := end_cur\<rparr>) data ds (i + 1) rep bs)
      else add_loop t data ds (i + 1) rep bs)"
    by (simp add: grow_def cur_def end_cur_def Let_def)
  have 1: "add_ok t (add_loop (t\<lparr>currentData := []\<rparr>) data (i + 1) (i + 1) (rep @ [cur]) bs)"
    if "\<not> (grow \<and> too_large t cur)"
    using Cons.IH [of "t\<lparr>currentData := []\<rparr>" "rep @ [cur]" "i + 1" "i + 1"] Cons.prems that
      fits_snoc [of t rep grow cur] by (simp add: bounded_update cur_def)
  have 2: "add_ok t (add_loop (t\<lparr>currentData := end_cur\<rparr>) data ds (i + 1) rep bs)"
    if "\<not> too_large t end_cur"
    using Cons.IH [of "t\<lparr>currentData := end_cur\<rparr>" rep ds "i + 1"] Cons.prems that
    by (simp add: bounded_update)
  have 3: "add_ok t (add_loop t data ds (i + 1) rep bs)"
    using Cons by blast
  have 4: "add_ok t (t\<lparr>currentData := []\<rparr>, Fails ErrorTooLarge)"
    "ExpectedSize t < 0 \<Longrightarrow> add_ok t (t\<lparr>currentData := cur\<rparr>, Panics m)" for m
    by (simp_all add: add_ok_def)
  show ?case
    unfolding step using 1 2 3 4 by (simp split: if_split)
qed

text \<open>With a size limit no reported message and no carried data is longer than the limit, the limit
  stays as configured, and the only error is \<open>ErrorTooLarge\<close>, which carries nothing over.\<close>

theorem Add_bounded:
  assumes "0 < MaxSize t" "int (length (currentData t)) \<le> MaxSize t" "0 \<le> ExpectedSize t"
  shows "case Add t data of
      (t', Returns ms) \<Rightarrow> MaxSize t' = MaxSize t \<and> int (length (currentData t')) \<le> MaxSize t \<and>
        list_all (\<lambda>m. int (length m) \<le> MaxSize t) ms
    | (t', Fails e) \<Rightarrow> MaxSize t' = MaxSize t \<and> e = ErrorTooLarge \<and> currentData t' = []
    | (t', Panics m) \<Rightarrow> False"
  using add_loop_ok [of t "[]" data 0 0 data] assms
  by (auto simp: Add_def add_ok_def bounded_def fits_def split: prod.split outcome.split)

lemma Add_bounded_witness:
  "let t = \<lparr>MaxSize = 3, ExpectedSize = 0, Token = CHR ''-'', currentData = ''a''\<rparr> in
   case Add t ''bc-defg'' of
      (t', Returns ms) \<Rightarrow> MaxSize t' = MaxSize t \<and> int (length (currentData t')) \<le> MaxSize t \<and>
        list_all (\<lambda>m. int (length m) \<le> MaxSize t) ms
    | (t', Fails e) \<Rightarrow> MaxSize t' = MaxSize t \<and> e = ErrorTooLarge \<and> currentData t' = []
    | (t', Panics m) \<Rightarrow> False"
  unfolding Let_def by (rule Add_bounded) simp_all

text \<open>A message of a single byte is lost: for every byte that is not the token, a chunk holding the
  byte and the token reports one empty message.\<close>

theorem Add_loses_single_byte:
  assumes "MaxSize t = 0" "0 \<le> ExpectedSize t" "currentData t = []" "b \<noteq> Token t"
  shows "snd (Add t [b, Token t]) = Returns [[]]"
  using assms by (simp add: Add_exact drop_single_def)

lemma Add_loses_single_byte_witness:
  "snd (Add \<lparr>MaxSize = 0, ExpectedSize = 1024, Token = CHR 0x0A, currentData = []\<rparr>
     [CHR ''x'', CHR 0x0A]) = Returns [[]]"
  using Add_loses_single_byte
    [of "\<lparr>MaxSize = 0, ExpectedSize = 1024, Token = CHR 0x0A, currentData = []\<rparr>" "CHR ''x''"]
  by simp

end
