(* ===== verification/Dedup.thy ===== *)
theory Dedup
  imports Prelude
begin

text \<open>
  \<open>utils/deduping.go\<close>: the \<open>Deduper\<close> interface and its implementation \<open>localDeduper\<close>, a ring of
  buckets of keys. A goroutine moves to the next bucket and empties it once per window; every
  operation runs under the mutex, so the model is a sequence of \<open>CheckAndAdd\<close> and rotation steps.
  A bucket is \<open>None\<close> when its Go map is nil.
\<close>

section \<open>The interface\<close>

datatype dedup_op = Check string | Tick

text \<open>
  What a client relies on. \<open>age s k\<close> is the number of rotations since the key was added, if it is
  remembered; \<open>life\<close> is how many rotations a key survives.
\<close>

locale deduper =
  fixes inv :: "'s \<Rightarrow> bool"
    and check :: "'s \<Rightarrow> string \<Rightarrow> ('s \<times> bool) outcome"
    and tick :: "'s \<Rightarrow> 's"
    and age :: "'s \<Rightarrow> string \<Rightarrow> nat option"
    and life :: "'s \<Rightarrow> nat"
  assumes check_law: "inv s \<Longrightarrow>
      \<exists>s'. check s k = Returns (s', age s k \<noteq> None) \<and> inv s' \<and> life s' = life s \<and>
           age s' = (age s)(k := Some (case age s k of None \<Rightarrow> 0 | Some a \<Rightarrow> a))"
    and tick_law: "inv s \<Longrightarrow> inv (tick s) \<and> life (tick s) = life s \<and>
      age (tick s) k = (case age s k of None \<Rightarrow> None
                        | Some a \<Rightarrow> if Suc a < life s then Some (Suc a) else None)"
    and life_pos: "inv s \<Longrightarrow> 0 < life s"
begin

fun exec :: "dedup_op list \<Rightarrow> 's \<Rightarrow> 's outcome" where
  "exec [] s = Returns s"
| "exec (Check k # ops) s = bind_outcome (check s k) (\<lambda>(s', b). exec ops s')"
| "exec (Tick # ops) s = exec ops (tick s)"

definition ticks :: "dedup_op list \<Rightarrow> nat" where
  "ticks ops = length (filter (\<lambda>op. op = Tick) ops)"

lemma ticks_simps [simp]:
  "ticks [] = 0" "ticks (Check k # ops) = ticks ops" "ticks (Tick # ops) = Suc (ticks ops)"
  by (simp_all add: ticks_def)

lemma exec_total: "inv s \<Longrightarrow> \<exists>s'. exec ops s = Returns s' \<and> inv s' \<and> life s' = life s"
proof (induction ops s rule: exec.induct)
  case (2 k ops s)
  then obtain s' where "check s k = Returns (s', age s k \<noteq> None)" "inv s'" "life s' = life s"
    using check_law by blast
  with 2 show ?case by fastforce
next
  case (3 ops s)
  then show ?case using tick_law by fastforce
qed simp

lemma exec_age:
  "inv s \<Longrightarrow> age s k = Some a \<Longrightarrow> a + ticks ops < life s \<Longrightarrow> exec ops s = Returns s' \<Longrightarrow>
   age s' k = Some (a + ticks ops)"
proof (induction ops arbitrary: s a)
  case (Cons op ops)
  show ?case
  proof (cases op)
    case (Check k')
    obtain s1 where s1: "check s k' = Returns (s1, age s k' \<noteq> None)" "inv s1" "life s1 = life s"
      "age s1 = (age s)(k' := Some (case age s k' of None \<Rightarrow> 0 | Some a \<Rightarrow> a))"
      using check_law Cons.prems(1) by blast
    moreover from this have "age s1 k = Some a" using Cons.prems(2) by auto
    ultimately show ?thesis using Cons Check by simp
  next
    case Tick
    with Cons.prems have "age (tick s) k = Some (Suc a)" "inv (tick s)" "life (tick s) = life s"
      using tick_law [of s k] by simp_all
    then show ?thesis using Cons.IH [of "tick s" "Suc a"] Cons.prems Tick by simp
  qed
qed simp

lemma exec_age_other:
  "inv s \<Longrightarrow> Check k \<notin> set ops \<Longrightarrow> age s k = None \<Longrightarrow> exec ops s = Returns s' \<Longrightarrow> age s' k = None"
proof (induction ops arbitrary: s)
  case (Cons op ops)
  show ?case
  proof (cases op)
    case (Check k')
    obtain s1 where "check s k' = Returns (s1, age s k' \<noteq> None)" "inv s1"
      "age s1 = (age s)(k' := Some (case age s k' of None \<Rightarrow> 0 | Some a \<Rightarrow> a))"
      using check_law Cons.prems(1) by blast
    with Cons Check show ?thesis by auto
  next
    case Tick
    then show ?thesis
      using Cons.IH [of "tick s"] Cons.prems tick_law [of s k] by simp
  qed
qed simp

lemma exec_expired:
  "inv s \<Longrightarrow> Check k \<notin> set ops \<Longrightarrow> age s k = Some a \<Longrightarrow> life s \<le> a + ticks ops \<Longrightarrow> a < life s \<Longrightarrow>
   exec ops s = Returns s' \<Longrightarrow> age s' k = None"
proof (induction ops arbitrary: s a)
  case (Cons op ops)
  show ?case
  proof (cases op)
    case (Check k')
    obtain s1 where "check s k' = Returns (s1, age s k' \<noteq> None)" "inv s1" "life s1 = life s"
      "age s1 = (age s)(k' := Some (case age s k' of None \<Rightarrow> 0 | Some a \<Rightarrow> a))"
      using check_law Cons.prems(1) by blast
    with Cons Check show ?thesis by auto
  next
    case Tick
    note t = tick_law [OF Cons.prems(1), of k]
    show ?thesis
    proof (cases "Suc a < life s")
      case True
      then show ?thesis using Cons.IH [of "tick s" "Suc a"] Cons.prems t Tick by simp
    next
      case False
      then have "age (tick s) k = None" using t Cons.prems(3) by simp
      then show ?thesis using exec_age_other [of "tick s" k ops] t Cons.prems Tick by simp
    qed
  qed
qed simp

lemma exec_checked:
  "inv s \<Longrightarrow> age s k = None \<Longrightarrow> Check k \<in> set ops \<Longrightarrow> ticks ops < life s \<Longrightarrow> exec ops s = Returns s' \<Longrightarrow> age s' k \<noteq> None"
proof (induction ops arbitrary: s)
  case (Cons op ops)
  show ?case
  proof (cases op)
    case (Check k')
    obtain s1 where s1: "check s k' = Returns (s1, age s k' \<noteq> None)" "inv s1" "life s1 = life s"
      "age s1 = (age s)(k' := Some (case age s k' of None \<Rightarrow> 0 | Some a \<Rightarrow> a))"
      using check_law Cons.prems(1) by blast
    have run: "exec ops s1 = Returns s'" using Cons.prems(5) Check s1(1) by simp
    show ?thesis
    proof (cases "k' = k")
      case True
      then show ?thesis using exec_age [OF s1(2) _ _ run, of k 0] s1(3,4) Cons.prems(2,4) Check by simp
    next
      case False
      then show ?thesis using Cons.IH [OF s1(2) _ _ _ run] s1(3,4) Cons.prems(2-4) Check by simp
    qed
  next
    case Tick
    then show ?thesis using Cons.IH [of "tick s"] Cons.prems tick_law [of s k] by simp
  qed
qed simp

text \<open>A key that was new is known again exactly until it has lived \<open>life\<close> rotations.\<close>

lemma new_key_lives:
  assumes "inv s" "check s k = Returns (s1, False)" "Check k \<notin> set ops"
  shows "\<exists>s2 s3. exec ops s1 = Returns s2 \<and> check s2 k = Returns (s3, ticks ops < life s)"
proof -
  have s1: "inv s1" "life s1 = life s" "age s1 k = Some 0"
    using check_law [OF assms(1), of k] assms(2) by auto
  obtain s2 where s2: "exec ops s1 = Returns s2" "inv s2" using exec_total [OF s1(1)] by blast
  have "age s2 k \<noteq> None \<longleftrightarrow> ticks ops < life s"
    using exec_age [OF s1(1,3) _ s2(1)] exec_expired [OF s1(1) assms(3) s1(3) _ _ s2(1)]
      s1(2) life_pos [OF assms(1)] by (cases "ticks ops < life s") auto
  then show ?thesis using check_law [OF s2(2), of k] s2(1) by auto
qed

end

section \<open>The local deduper\<close>

record localDeduper =
  window :: duration
  ttl :: duration
  nBuckets :: nat
  nCurrent :: nat
  stopEvt :: bool
  windows :: "string list option list"

definition NewLocalDeduper :: "duration \<Rightarrow> duration \<Rightarrow> localDeduper outcome" where
  "NewLocalDeduper w t =
     (if w > t then Fails (GoErr ''window is larger than ttl'')
      else if w = 0 then Panics ''integer divide by zero''
      else (let n = go_div t w;
                n' = (if n < 1 then 1 else nat n)
            in Returns \<lparr>window = w, ttl = t, nBuckets = n', nCurrent = 0, stopEvt = False,
                        windows = (replicate n' None)[0 := Some []]\<rparr>))"

definition bucket :: "localDeduper \<Rightarrow> nat \<Rightarrow> string list" where
  "bucket d i = (case windows d ! i of None \<Rightarrow> [] | Some w \<Rightarrow> w)"

definition CheckAndAdd :: "localDeduper \<Rightarrow> string \<Rightarrow> (localDeduper \<times> bool) outcome" where
  "CheckAndAdd d key =
     (if list_ex (\<lambda>i. key \<in> set (bucket d i)) [0 ..< nBuckets d] then Returns (d, True)
      else (case windows d ! nCurrent d of
              None \<Rightarrow> Panics ''assignment to entry in nil map''
            | Some w \<Rightarrow> Returns (d\<lparr>windows := (windows d)[nCurrent d := Some (key # w)]\<rparr>, False)))"

text \<open>One turn of the rotation goroutine, when the wait for the stop event has timed out.\<close>

definition rotate_window :: "localDeduper \<Rightarrow> localDeduper" where
  "rotate_window d =
     (let c = nCurrent d + 1;
          c' = (if nBuckets d \<le> c then 0 else c)
      in d\<lparr>nCurrent := c', windows := (windows d)[c' := Some []]\<rparr>)"

definition tick_window :: "localDeduper \<Rightarrow> localDeduper" where
  "tick_window d = (if stopEvt d then d else rotate_window d)"

definition Close_deduper :: "localDeduper \<Rightarrow> localDeduper" where
  "Close_deduper d = d\<lparr>stopEvt := True\<rparr>"

section \<open>The ring as a queue of buckets\<close>

text \<open>The buckets from the current one back to the oldest: the abstract state.\<close>

definition view :: "localDeduper \<Rightarrow> string list list" where
  "view d = rev (map (bucket d) [0 ..< Suc (nCurrent d)]) @
            rev (map (bucket d) [Suc (nCurrent d) ..< nBuckets d])"

definition deduper_inv :: "localDeduper \<Rightarrow> bool" where
  "deduper_inv d \<longleftrightarrow> length (windows d) = nBuckets d \<and> nCurrent d < nBuckets d \<and>
     windows d ! nCurrent d \<noteq> None \<and> \<not> stopEvt d"

definition first_index :: "string \<Rightarrow> string list list \<Rightarrow> nat option" where
  "first_index k bs =
     (let i = length (takeWhile (\<lambda>b. k \<notin> set b) bs) in if i < length bs then Some i else None)"

definition key_age :: "localDeduper \<Rightarrow> string \<Rightarrow> nat option" where
  "key_age d k = first_index k (view d)"

lemma first_index_Nil [simp]: "first_index k [] = None"
  by (simp add: first_index_def)

lemma first_index_Cons:
  "first_index k (b # bs) = (if k \<in> set b then Some 0 else map_option Suc (first_index k bs))"
  by (simp add: first_index_def)

lemma first_index_None: "first_index k bs = None \<longleftrightarrow> (\<forall>b \<in> set bs. k \<notin> set b)"
  by (induction bs) (auto simp: first_index_Cons)

lemma first_index_bound: "first_index k bs = Some a \<Longrightarrow> a < length bs"
  by (auto simp: first_index_def Let_def split: if_splits)

lemma first_index_butlast:
  "first_index k (butlast bs) =
     (case first_index k bs of None \<Rightarrow> None | Some a \<Rightarrow> if Suc a < length bs then Some a else None)"
  by (induction bs) (auto simp: first_index_Cons split: option.splits)

lemma view_new:
  "deduper_inv d \<Longrightarrow> length (view d) = nBuckets d"
  by (simp add: view_def deduper_inv_def)

lemma set_view:
  assumes "deduper_inv d"
  shows "set (view d) = bucket d ` {0 ..< nBuckets d}"
proof -
  have "{0 ..< nBuckets d} = {0 ..< Suc (nCurrent d)} \<union> {Suc (nCurrent d) ..< nBuckets d}"
    using assms by (auto simp: deduper_inv_def)
  then show ?thesis by (simp only: view_def set_append set_rev set_map set_upt image_Un)
qed

lemma view_add:
  assumes "deduper_inv d" "windows d ! nCurrent d = Some w"
  shows "view (d\<lparr>windows := (windows d)[nCurrent d := Some (k # w)]\<rparr>) =
    (k # hd (view d)) # tl (view d)"
proof -
  let ?d = "d\<lparr>windows := (windows d)[nCurrent d := Some (k # w)]\<rparr>"
  have "bucket ?d i = (if i = nCurrent d then k # bucket d i else bucket d i)"
    if "i < nBuckets d" for i
    using assms that by (auto simp: bucket_def deduper_inv_def)
  then have "map (bucket ?d) [0 ..< nCurrent d] = map (bucket d) [0 ..< nCurrent d]"
    "map (bucket ?d) [Suc (nCurrent d) ..< nBuckets d] = map (bucket d) [Suc (nCurrent d) ..< nBuckets d]"
    "bucket ?d (nCurrent d) = k # bucket d (nCurrent d)"
    using assms by (auto simp: deduper_inv_def)
  then show ?thesis by (simp add: view_def)
qed

lemma view_rotate:
  assumes "deduper_inv d"
  shows "view (rotate_window d) = [] # butlast (view d)"
proof -
  let ?d = "rotate_window d"
  let ?c = "nCurrent d" and ?c' = "nCurrent (rotate_window d)"
  have n: "nBuckets ?d = nBuckets d" by (simp add: rotate_window_def Let_def)
  have c': "?c' = (if nBuckets d \<le> Suc ?c then 0 else Suc ?c)" "?c' < nBuckets d"
    using assms by (auto simp: rotate_window_def Let_def deduper_inv_def)
  have b: "bucket ?d i = (if i = ?c' then [] else bucket d i)" if "i < nBuckets d" for i
    using assms that by (auto simp: bucket_def rotate_window_def Let_def deduper_inv_def)
  show ?thesis
  proof (cases "nBuckets d \<le> Suc ?c")
    case True
    then have N: "nBuckets d = Suc ?c" using assms by (simp add: deduper_inv_def)
    have "map (bucket ?d) [Suc 0 ..< Suc ?c] = map (bucket d) [Suc 0 ..< Suc ?c]"
      using b c' True unfolding N by (intro map_cong) auto
    then show ?thesis
      using b [of 0] c' True
      by (simp add: view_def n N upt_conv_Cons [of 0] butlast_rev del: upt_Suc)
  next
    case False
    have 1: "map (bucket ?d) [0 ..< Suc ?c] = map (bucket d) [0 ..< Suc ?c]"
      using b c' False by (intro map_cong) auto
    have 2: "map (bucket ?d) [Suc (Suc ?c) ..< nBuckets d] = map (bucket d) [Suc (Suc ?c) ..< nBuckets d]"
      using b c' False by (intro map_cong) auto
    have 3: "[Suc ?c ..< nBuckets d] = Suc ?c # [Suc (Suc ?c) ..< nBuckets d]"
      using False by (simp add: upt_conv_Cons)
    have 4: "bucket ?d (Suc ?c) = []" using b [of "Suc ?c"] c' False by simp
    have "view d = rev (map (bucket d) [0 ..< Suc ?c]) @
        rev (map (bucket d) [Suc (Suc ?c) ..< nBuckets d]) @ [bucket d (Suc ?c)]"
      by (simp add: view_def 3 del: upt_Suc)
    then show ?thesis
      using c' False 1 2 4 by (simp add: view_def n butlast_append)
  qed
qed

lemma view_not_Nil: "view d \<noteq> []"
  by (simp add: view_def)

lemma known_iff:
  "deduper_inv d \<Longrightarrow>
   list_ex (\<lambda>i. k \<in> set (bucket d i)) [0 ..< nBuckets d] \<longleftrightarrow> key_age d k \<noteq> None"
  by (auto simp: key_age_def first_index_None set_view list_ex_iff simp del: not_None_eq)

lemma key_age_add:
  assumes "deduper_inv d" "windows d ! nCurrent d = Some w" "key_age d k = None"
  shows "key_age (d\<lparr>windows := (windows d)[nCurrent d := Some (k # w)]\<rparr>) = (key_age d)(k := Some 0)"
proof
  fix k'
  obtain b bs where v: "view d = b # bs" using view_not_Nil by (cases "view d") auto
  show "key_age (d\<lparr>windows := (windows d)[nCurrent d := Some (k # w)]\<rparr>) k' =
    ((key_age d)(k := Some 0)) k'"
    unfolding key_age_def view_add [OF assms(1,2)] by (simp add: v first_index_Cons)
qed

lemma key_age_rotate:
  assumes "deduper_inv d"
  shows "key_age (rotate_window d) k =
    (case key_age d k of None \<Rightarrow> None | Some a \<Rightarrow> if Suc a < nBuckets d then Some (Suc a) else None)"
  unfolding key_age_def view_rotate [OF assms]
  by (simp add: first_index_Cons first_index_butlast view_new [OF assms] split: option.split)

lemma rotate_window_inv: "deduper_inv d \<Longrightarrow> deduper_inv (rotate_window d) \<and> nBuckets (rotate_window d) = nBuckets d"
  by (auto simp: deduper_inv_def rotate_window_def Let_def)

interpretation buckets: deduper deduper_inv CheckAndAdd tick_window key_age nBuckets
proof
  fix d k assume inv: "deduper_inv d"
  show "\<exists>d'. CheckAndAdd d k = Returns (d', key_age d k \<noteq> None) \<and> deduper_inv d' \<and>
      nBuckets d' = nBuckets d \<and>
      key_age d' = (key_age d)(k := Some (case key_age d k of None \<Rightarrow> 0 | Some a \<Rightarrow> a))"
  proof (cases "key_age d k")
    case None
    moreover obtain w where "windows d ! nCurrent d = Some w"
      using inv by (auto simp: deduper_inv_def)
    ultimately show ?thesis
      using inv key_age_add [OF inv] known_iff [OF inv, of k]
      by (auto simp: CheckAndAdd_def deduper_inv_def)
  next
    case (Some a)
    then show ?thesis
      using inv known_iff [OF inv, of k] by (auto simp: CheckAndAdd_def fun_upd_idem)
  qed
  show "deduper_inv (tick_window d) \<and> nBuckets (tick_window d) = nBuckets d \<and>
      key_age (tick_window d) k =
        (case key_age d k of None \<Rightarrow> None
         | Some a \<Rightarrow> if Suc a < nBuckets d then Some (Suc a) else None)"
    using inv rotate_window_inv [OF inv] key_age_rotate [OF inv]
    by (simp add: tick_window_def deduper_inv_def)
next
  fix d assume "deduper_inv d"
  then show "0 < nBuckets d" by (simp add: deduper_inv_def)
qed

section \<open>Properties\<close>

lemma NewLocalDeduper_inv:
  "NewLocalDeduper w t = Returns d \<Longrightarrow> deduper_inv d"
  by (auto simp: NewLocalDeduper_def deduper_inv_def Let_def split: if_splits)

lemma NewLocalDeduper_buckets:
  "NewLocalDeduper w t = Returns d \<Longrightarrow> 0 < w \<Longrightarrow> nBuckets d = nat (t div w)"
proof -
  assume *: "NewLocalDeduper w t = Returns d" "0 < w"
  then have "w \<le> t" by (simp add: NewLocalDeduper_def split: if_splits)
  with * have "0 \<le> t" "1 \<le> t div w" by (simp_all add: pos_imp_zdiv_pos_iff int_one_le_iff_zero_less)
  with * show ?thesis
    by (auto simp: NewLocalDeduper_def Let_def go_div_pos split: if_splits)
qed

text \<open>C8: a key is a duplicate for exactly its time to live: after any use of a new deduper with a
  positive window, a key that was new is reported as a duplicate by the next check of it, however
  many other keys are checked in between, if and only if fewer than \<open>ttl / window\<close> windows have
  passed.\<close>

theorem deduper_window:
  assumes "NewLocalDeduper w t = Returns d0" "0 < w" "buckets.exec before d0 = Returns d"
    and "CheckAndAdd d k = Returns (d1, False)" "Check k \<notin> set ops"
  shows "\<exists>d2 d3. buckets.exec ops d1 = Returns d2 \<and>
    CheckAndAdd d2 k = Returns (d3, int (buckets.ticks ops) < t div w)"
proof -
  have d: "deduper_inv d" "nBuckets d = nat (t div w)"
    using buckets.exec_total [OF NewLocalDeduper_inv [OF assms(1)], of before] assms(3)
      NewLocalDeduper_buckets [OF assms(1,2)] by auto
  obtain d2 d3 where "buckets.exec ops d1 = Returns d2"
    "CheckAndAdd d2 k = Returns (d3, buckets.ticks ops < nBuckets d)"
    using buckets.new_key_lives [OF d(1) assms(4,5)] by blast
  moreover have "buckets.ticks ops < nBuckets d \<longleftrightarrow> int (buckets.ticks ops) < t div w"
    by (simp add: d(2) zless_nat_eq_int_zless)
  ultimately show ?thesis by simp
qed

text \<open>No sequence of checks and rotations on a new deduper panics, in particular the current bucket
  is always allocated when a key is written into it.\<close>

theorem deduper_no_panic:
  assumes "NewLocalDeduper w t = Returns d0"
  shows "\<exists>d. buckets.exec ops d0 = Returns d \<and> nCurrent d < nBuckets d \<and> windows d ! nCurrent d \<noteq> None"
  using buckets.exec_total [OF NewLocalDeduper_inv [OF assms], of ops] by (auto simp: deduper_inv_def)

text \<open>The states of the witnesses: a deduper of three windows of two seconds.\<close>

definition three_windows :: localDeduper where
  "three_windows = \<lparr>window = 2 * second, ttl = 6 * second, nBuckets = 3, nCurrent = 0,
     stopEvt = False, windows = [Some [], None, None]\<rparr>"

lemma NewLocalDeduper_three: "NewLocalDeduper (2 * second) (6 * second) = Returns three_windows"
  by (simp add: NewLocalDeduper_def go_div_def three_windows_def numeral_3_eq_3)

lemma deduper_window_witness:
  "\<exists>d2 d3. buckets.exec [Check ''b'', Tick, Tick, Tick]
        (three_windows\<lparr>windows := [Some [''a''], None, None]\<rparr>) = Returns d2 \<and>
     CheckAndAdd d2 ''a'' = Returns (d3, False)"
  using deduper_window [OF NewLocalDeduper_three, of "[]" three_windows "''a''"
      "three_windows\<lparr>windows := [Some [''a''], None, None]\<rparr>" "[Check ''b'', Tick, Tick, Tick]"]
  by (simp add: CheckAndAdd_def bucket_def three_windows_def upt_rec)

lemma deduper_no_panic_witness:
  "\<exists>d. buckets.exec [Check ''a'', Tick, Check ''a''] three_windows = Returns d \<and>
     nCurrent d < nBuckets d \<and> windows d ! nCurrent d \<noteq> None"
  by (rule deduper_no_panic [OF NewLocalDeduper_three])

end
