(* ===== verification/Event_Sync.thy ===== *)
theory Event_Sync
  imports Prelude
begin

text \<open>
  \<open>utils/event.go\<close>: the \<open>Event\<close> every adapter stops on. The mutex makes each critical section one
  step; a waiter is the channel \<open>WaitFor\<close> makes, named by a number. A channel of a waiter has room
  for one value: \<open>delivered\<close> counts the values sent to it. \<open>WaitFor\<close> has returned true once its
  channel has a value and false once its timer has fired first.
\<close>

record event =
  flag :: bool
  waiters :: "nat list"
  delivered :: "nat \<Rightarrow> nat"
  next_chan :: nat

definition NewEvent :: event where
  "NewEvent = \<lparr>flag = False, waiters = [], delivered = (\<lambda>_. 0), next_chan = 0\<rparr>"

section \<open>Operations\<close>

fun send_all :: "nat list \<Rightarrow> (nat \<Rightarrow> nat) \<Rightarrow> nat \<Rightarrow> nat" where
  "send_all [] del = del"
| "send_all (w # ws) del = send_all ws (del(w := del w + 1))"

definition Set_event :: "event \<Rightarrow> event" where
  "Set_event e =
     (if waiters e \<noteq> []
      then e\<lparr>flag := True, delivered := send_all (waiters e) (delivered e), waiters := []\<rparr>
      else e\<lparr>flag := True\<rparr>)"

definition Clear_event :: "event \<Rightarrow> event" where
  "Clear_event e = (if \<not> flag e then e else e\<lparr>flag := False\<rparr>)"

definition IsSet :: "event \<Rightarrow> bool" where
  "IsSet e = flag e"

text \<open>
  \<open>Wait\<close> looks at the flag under the mutex: it returns, or releases the mutex until the next \<open>Set\<close> wakes it, and looks again.
\<close>

definition Wait_event :: "event \<Rightarrow> event option" where
  "Wait_event e = (if \<not> flag e then None else Some e)"

lemma Wait_event_Set: "Wait_event (Set_event e) = Some (Set_event e)"
  by (simp add: Wait_event_def Set_event_def)

text \<open>The entry of \<open>WaitFor\<close>: \<open>None\<close> is the immediate return of true, otherwise the new waiter.\<close>

definition WaitFor_enter :: "event \<Rightarrow> event \<times> nat option" where
  "WaitFor_enter e =
     (if flag e then (e, None)
      else (e\<lparr>waiters := waiters e @ [next_chan e], next_chan := next_chan e + 1\<rparr>,
            Some (next_chan e)))"

text \<open>\<open>removeWaiter\<close> moves the last waiter into the hole.\<close>

definition removeWaiter :: "nat list \<Rightarrow> nat \<Rightarrow> nat list" where
  "removeWaiter s i = butlast (s[length s - 1 := s ! i, i := s ! (length s - 1)])"

fun find_waiter :: "nat \<Rightarrow> nat list \<Rightarrow> nat option" where
  "find_waiter w [] = None"
| "find_waiter w (t # ts) = (if t = w then Some 0 else map_option Suc (find_waiter w ts))"

text \<open>The critical section of the timer goroutine.\<close>

definition WaitFor_timeout :: "event \<Rightarrow> nat \<Rightarrow> event" where
  "WaitFor_timeout e w =
     (case find_waiter w (waiters e) of
        None \<Rightarrow> e
      | Some i \<Rightarrow> e\<lparr>waiters := removeWaiter (waiters e) i\<rparr>)"

text \<open>The steps of all goroutines that share the event.\<close>

inductive ev_step :: "event \<Rightarrow> event \<Rightarrow> bool" where
  ev_set: "ev_step e (Set_event e)"
| ev_clear: "ev_step e (Clear_event e)"
| ev_enter: "WaitFor_enter e = (e', w) \<Longrightarrow> ev_step e e'"
| ev_timeout: "w < next_chan e \<Longrightarrow> ev_step e (WaitFor_timeout e w)"

section \<open>Removal and delivery\<close>

lemma find_waiter_Some: "find_waiter w ws = Some i \<Longrightarrow> i < length ws \<and> ws ! i = w"
  by (induction ws arbitrary: i) (auto split: if_splits)

lemma find_waiter_None: "find_waiter w ws = None \<longleftrightarrow> w \<notin> set ws"
  by (induction ws) auto

lemma mset_removeWaiter:
  assumes "i < length s"
  shows "mset s = add_mset (s ! i) (mset (removeWaiter s i))"
proof -
  let ?j = "length s - 1"
  let ?t = "s[?j := s ! i, i := s ! ?j]"
  have j: "?j < length s" using assms by simp
  have len: "length ?t = length s" by simp
  have "?t ! ?j = s ! i" using assms by (cases "i = ?j") auto
  moreover have "?t \<noteq> []" using assms by auto
  ultimately have "last ?t = s ! i" by (simp add: last_conv_nth)
  moreover have "mset ?t = mset s"
    using mset_swap [OF assms j] by (simp add: list_update_swap mset_swap assms)
  ultimately show ?thesis
    using append_butlast_last_id [OF \<open>?t \<noteq> []\<close>] unfolding removeWaiter_def
    by (metis mset.simps(2) mset_append add_mset_add_single mset.simps(1))
qed

lemma send_all_count:
  "distinct ws \<Longrightarrow> send_all ws del w = (if w \<in> set ws then del w + 1 else del w)"
  by (induction ws arbitrary: del) auto

lemma removeWaiter_distinct:
  "i < length s \<Longrightarrow> distinct s \<Longrightarrow> distinct (removeWaiter s i) \<and> set (removeWaiter s i) = set s - {s ! i}"
proof -
  assume i: "i < length s" and d: "distinct s"
  have "mset (removeWaiter s i) = mset s - {#s ! i#}" using mset_removeWaiter [OF i] by simp
  then have "mset (removeWaiter s i) = mset_set (set s - {s ! i})"
    using d i by (simp add: mset_set_set [symmetric] mset_set_Diff)
  then show ?thesis
    by (metis finite_Diff finite_set finite_set_mset_mset_set mset_set_set set_mset_mset
        distinct_count_atmost_1 mset_eq_setD count_mset_set')
qed

section \<open>The invariant\<close>

definition ev_inv :: "event \<Rightarrow> bool" where
  "ev_inv e \<longleftrightarrow> distinct (waiters e) \<and>
     (\<forall>w. delivered e w \<le> 1) \<and>
     (\<forall>w \<in> set (waiters e). w < next_chan e \<and> delivered e w = 0) \<and>
     (\<forall>w. next_chan e \<le> w \<longrightarrow> delivered e w = 0) \<and>
     (flag e \<longrightarrow> waiters e = [])"

lemma ev_inv_new: "ev_inv NewEvent"
  by (simp add: ev_inv_def NewEvent_def)

lemma ev_inv_set: "ev_inv e \<Longrightarrow> ev_inv (Set_event e)"
  by (auto simp: ev_inv_def Set_event_def send_all_count)

lemma ev_inv_clear: "ev_inv e \<Longrightarrow> ev_inv (Clear_event e)"
  by (auto simp: ev_inv_def Clear_event_def)

lemma ev_inv_enter: "ev_inv e \<Longrightarrow> WaitFor_enter e = (e', w) \<Longrightarrow> ev_inv e'"
  by (fastforce simp: ev_inv_def WaitFor_enter_def less_Suc_eq split: if_splits)

lemma ev_inv_timeout:
  assumes "ev_inv e"
  shows "ev_inv (WaitFor_timeout e w)"
proof (cases "find_waiter w (waiters e)")
  case None
  then show ?thesis using assms by (simp add: WaitFor_timeout_def)
next
  case (Some i)
  then have "i < length (waiters e)" by (simp add: find_waiter_Some)
  moreover have "distinct (waiters e)" using assms by (simp add: ev_inv_def)
  ultimately have "distinct (removeWaiter (waiters e) i)"
    "set (removeWaiter (waiters e) i) \<subseteq> set (waiters e)"
    using removeWaiter_distinct by blast+
  moreover have "\<not> flag e" using assms Some by (auto simp: ev_inv_def)
  ultimately show ?thesis
    using assms Some by (auto simp: ev_inv_def WaitFor_timeout_def)
qed

lemma ev_inv_reachable: "ev_step\<^sup>*\<^sup>* NewEvent e \<Longrightarrow> ev_inv e"
  by (induction rule: rtranclp_induct)
    (auto simp: ev_inv_new elim!: ev_step.cases
      intro: ev_inv_set ev_inv_clear ev_inv_enter ev_inv_timeout)

text \<open>C28: however \<open>Set\<close>, \<open>Clear\<close>, \<open>WaitFor\<close> and its timers interleave, no waiter channel ever gets a
  second value (so the send inside \<open>Set\<close> never blocks with the mutex held), nobody is registered
  while the event is set, and a \<open>Set\<close> gives its one value to every registered waiter.\<close>

theorem event_wakes_once:
  assumes "ev_step\<^sup>*\<^sup>* NewEvent e"
  shows "delivered e w \<le> 1 \<and> (IsSet e \<longrightarrow> waiters e = []) \<and>
    (w \<in> set (waiters e) \<longrightarrow> delivered e w = 0 \<and> delivered (Set_event e) w = 1) \<and>
    waiters (Set_event e) = []"
  using ev_inv_reachable [OF assms]
  by (auto simp: ev_inv_def IsSet_def Set_event_def send_all_count)

text \<open>The timer of one \<open>WaitFor\<close> removes that waiter and no other, whatever its place in the list.\<close>

theorem timeout_removes_one:
  assumes "ev_step\<^sup>*\<^sup>* NewEvent e"
  shows "set (waiters (WaitFor_timeout e w)) = set (waiters e) - {w} \<and>
    distinct (waiters (WaitFor_timeout e w))"
proof (cases "find_waiter w (waiters e)")
  case None
  then have "w \<notin> set (waiters e)" "WaitFor_timeout e w = e"
    by (simp_all add: find_waiter_None [symmetric] WaitFor_timeout_def)
  then show ?thesis
    using ev_inv_reachable [OF assms] by (simp add: ev_inv_def)
next
  case (Some i)
  then show ?thesis
    using ev_inv_reachable [OF assms] removeWaiter_distinct [of i "waiters e"]
    by (auto simp: WaitFor_timeout_def ev_inv_def dest: find_waiter_Some)
qed

definition two_waiters :: event where
  "two_waiters = \<lparr>flag = False, waiters = [0, 1], delivered = (\<lambda>_. 0), next_chan = 2\<rparr>"

lemma two_waiters_reachable: "ev_step\<^sup>*\<^sup>* NewEvent two_waiters"
proof -
  let ?e = "\<lparr>flag = False, waiters = [0], delivered = (\<lambda>_. 0), next_chan = 1\<rparr>"
  have "ev_step NewEvent ?e" "ev_step ?e two_waiters"
    by (rule ev_enter, simp add: WaitFor_enter_def NewEvent_def)
      (rule ev_enter, simp add: WaitFor_enter_def two_waiters_def)
  then show ?thesis by (meson rtranclp.rtrancl_into_rtrancl rtranclp.rtrancl_refl)
qed

lemma event_wakes_once_witness:
  "delivered two_waiters 1 \<le> 1 \<and> delivered (Set_event two_waiters) 1 = 1 \<and>
   waiters (Set_event two_waiters) = []"
  using event_wakes_once [OF two_waiters_reachable, of 1] by (simp add: two_waiters_def)

lemma timeout_removes_one_witness:
  "set (waiters (WaitFor_timeout two_waiters 0)) = {1}"
  using timeout_removes_one [OF two_waiters_reachable, of 0] by (auto simp: two_waiters_def)

end
