(* ===== verification/Parquet_Bundle.thy ===== *)
theory Parquet_Bundle
  imports Json_Value
begin

text \<open>
  \<open>utils/parquet.go\<close> and \<open>utils/parquet_supported.go\<close>: what the object-store adapters do with the bytes
  of a downloaded object before they ship it. The gzip reader and the Arrow Parquet reader are not
  part of the repository. The first is an argument \<open>gz\<close>: an error of the header, or the bytes of the
  stream with the error it ends in. The second is an argument \<open>pq\<close> with the three calls that open the
  file; reading gives batches of rows with the error that ends the reading. \<open>encode\<close> is
  \<open>json.Encoder.Encode\<close>: the text of one object, newline included.
\<close>

section \<open>Gzip\<close>

type_synonym gz_reader = "string \<Rightarrow> go_err + (string \<times> go_err option)"

definition MaxDecompressedParquetSize :: nat where
  "MaxDecompressedParquetSize = 2 ^ 30"

text \<open>\<open>io.ReadAll(io.LimitReader(r, n))\<close>: the error of the stream is met only if it ends within the limit.\<close>

definition read_limited :: "nat \<Rightarrow> string \<times> go_err option \<Rightarrow> go_err + string" where
  "read_limited n r =
     (case r of
        (bytes, err) \<Rightarrow>
          if n \<le> length bytes then Inr (take n bytes)
          else (case err of None \<Rightarrow> Inr bytes | Some e \<Rightarrow> Inl e))"

definition gunzip :: "gz_reader \<Rightarrow> string \<Rightarrow> nat \<Rightarrow> go_err + string" where
  "gunzip gz data limit =
     (case gz data of
        Inl err \<Rightarrow> Inl err
      | Inr r \<Rightarrow>
          (case read_limited (limit + 1) r of
             Inl err \<Rightarrow> Inl err
           | Inr out \<Rightarrow>
               if length out > limit then Inl (GoErr ''decompressed size exceeds %d bytes'')
               else Inr out))"

section \<open>Parquet\<close>

record 'f parquet_lib =
  NewParquetReader :: "string \<Rightarrow> go_err + 'f"
  NewFileReader :: "'f \<Rightarrow> go_err + 'f"
  GetRecordReader :: "'f \<Rightarrow> go_err + ((string list \<times> gval list list) list \<times> go_err option)"

definition row_object :: "string list \<Rightarrow> gval list \<Rightarrow> dict" where
  "row_object names vals = fold (\<lambda>(k, v) obj. put k v obj) (zip names vals) []"

fun encode_rows :: "(dict \<Rightarrow> go_err + string) \<Rightarrow> dict list \<Rightarrow> string \<Rightarrow> go_err + string" where
  "encode_rows encode [] out = Inr out"
| "encode_rows encode (obj # objs) out =
     (case encode obj of
        Inl err \<Rightarrow> Inl (GoWrap ''parquet.encode row: %w'' err)
      | Inr line \<Rightarrow> encode_rows encode objs (out @ line))"

definition batch_rows :: "(string list \<times> gval list list) list \<Rightarrow> dict list" where
  "batch_rows batches = concat (map (\<lambda>(names, rows). map (row_object names) rows) batches)"

definition EOF :: go_err where
  "EOF = GoErr ''EOF''"

definition ParquetToJSONLines ::
    "'f parquet_lib \<Rightarrow> (dict \<Rightarrow> go_err + string) \<Rightarrow> string \<Rightarrow> go_err + string" where
  "ParquetToJSONLines pq encode data =
     (case NewParquetReader pq data of
        Inl err \<Rightarrow> Inl (GoWrap ''parquet.NewReader: %w'' err)
      | Inr pr \<Rightarrow>
          (case NewFileReader pq pr of
             Inl err \<Rightarrow> Inl (GoWrap ''parquet.NewArrowReader: %w'' err)
           | Inr ar \<Rightarrow>
               (case GetRecordReader pq ar of
                  Inl err \<Rightarrow> Inl (GoWrap ''parquet.GetRecordReader: %w'' err)
                | Inr (batches, rr_err) \<Rightarrow>
                    (case encode_rows encode (batch_rows batches) [] of
                       Inl err \<Rightarrow> Inl err
                     | Inr out \<Rightarrow>
                         (case rr_err of
                            Some err \<Rightarrow>
                              if err \<noteq> EOF then Inl (GoWrap ''parquet.read: %w'' err) else Inr out
                          | None \<Rightarrow> Inr out)))))"

section \<open>Classification\<close>

definition ParquetMagic :: string where
  "ParquetMagic = ''PAR1''"

definition IsParquetFile :: "string \<Rightarrow> string \<Rightarrow> bool" where
  "IsParquetFile name data =
     (if has_suffix (to_lower name) ''.parquet'' then True
      else if length data < 8 then False
      else if take 4 data \<noteq> ParquetMagic then False
      else if drop (length data - 4) data \<noteq> ParquetMagic then False
      else True)"

definition PrepareBundleData ::
    "gz_reader \<Rightarrow> (string \<Rightarrow> go_err + string) \<Rightarrow> string \<Rightarrow> string \<Rightarrow> go_err + (string \<times> bool)" where
  "PrepareBundleData gz to_json name rawData =
     (case cut_suffix (to_lower name) ''.gz'' of
        Some base \<Rightarrow>
          (if has_suffix base ''.parquet'' then
             (case gunzip gz rawData MaxDecompressedParquetSize of
                Inl gzErr \<Rightarrow> Inl (GoWrap ''gunzip %s: %w'' gzErr)
              | Inr decompressed \<Rightarrow>
                  (case to_json decompressed of
                     Inl pqErr \<Rightarrow> Inl (GoWrap ''parquet decode %s: %w'' pqErr)
                   | Inr converted \<Rightarrow> Inr (converted, False)))
           else Inr (rawData, True))
      | None \<Rightarrow>
          (if IsParquetFile name rawData then
             (case to_json rawData of
                Inl pqErr \<Rightarrow> Inl (GoWrap ''parquet decode %s: %w'' pqErr)
              | Inr converted \<Rightarrow> Inr (converted, False))
           else Inr (rawData, False)))"

section \<open>Properties\<close>

lemma encode_rows_all:
  "encode_rows encode objs out = Inr s \<Longrightarrow>
   \<exists>lines. map encode objs = map Inr lines \<and> s = out @ concat lines"
proof (induction objs arbitrary: out)
  case (Cons obj objs)
  then obtain line where "encode obj = Inr line" "encode_rows encode objs (out @ line) = Inr s"
    by (auto split: sum.splits)
  moreover obtain lines where "map encode objs = map Inr lines" "s = (out @ line) @ concat lines"
    using Cons.IH calculation(2) by blast
  ultimately have "map encode (obj # objs) = map Inr (line # lines) \<and> s = out @ concat (line # lines)"
    by simp
  then show ?case by blast
qed simp

text \<open>Decoding a Parquet file gives one line per row, in the order of the batches and of the rows
  within them, and nothing else; a row that cannot be encoded or a read error gives an error, never
  a truncated result.\<close>

theorem parquet_one_line_per_row:
  assumes "ParquetToJSONLines pq encode data = Inr out"
  shows "\<exists>pr ar batches lines. NewParquetReader pq data = Inr pr \<and> NewFileReader pq pr = Inr ar \<and>
    (\<exists>e. GetRecordReader pq ar = Inr (batches, e) \<and> (e = None \<or> e = Some EOF)) \<and>
    map encode (batch_rows batches) = map Inr lines \<and> out = concat lines"
proof -
  obtain pr ar batches e where "NewParquetReader pq data = Inr pr" "NewFileReader pq pr = Inr ar"
    "GetRecordReader pq ar = Inr (batches, e)" "e = None \<or> e = Some EOF"
    "encode_rows encode (batch_rows batches) [] = Inr out"
    using assms by (auto simp: ParquetToJSONLines_def split: sum.splits option.splits if_splits)
  then show ?thesis using encode_rows_all by fastforce
qed

definition two_row_file :: "unit parquet_lib" where
  "two_row_file = \<lparr>NewParquetReader = \<lambda>_. Inr (), NewFileReader = Inr,
      GetRecordReader = \<lambda>_. Inr ([([''a''], [[GNil], [GNil]])], None)\<rparr>"

definition encode_null :: "dict \<Rightarrow> go_err + string" where
  "encode_null obj = Inr ''{a:null};''"

lemma parquet_one_line_per_row_witness:
  "\<exists>pr ar batches lines. NewParquetReader two_row_file ''x'' = Inr pr \<and>
    NewFileReader two_row_file pr = Inr ar \<and>
    (\<exists>e. GetRecordReader two_row_file ar = Inr (batches, e) \<and> (e = None \<or> e = Some EOF)) \<and>
    map encode_null (batch_rows batches) = map Inr lines \<and>
    ''{a:null};{a:null};'' = concat lines"
  by (rule parquet_one_line_per_row)
    (simp add: ParquetToJSONLines_def batch_rows_def two_row_file_def encode_null_def)

text \<open>The gunzip cap holds: what it returns is the whole decompressed stream and at most the limit
  long, and a stream that is longer is an error.\<close>

theorem gunzip_capped:
  assumes "gz data = Inr (bytes, err)"
  shows "gunzip gz data limit =
    (if limit < length bytes then Inl (GoErr ''decompressed size exceeds %d bytes'')
     else case err of None \<Rightarrow> Inr bytes | Some e \<Rightarrow> Inl e)"
  using assms by (simp add: gunzip_def read_limited_def split: option.split)

lemma gunzip_capped_witness:
  "gunzip (\<lambda>_. Inr (''abc'', None)) ''z'' 2 = Inl (GoErr ''decompressed size exceeds %d bytes'')"
  using gunzip_capped [of "\<lambda>_. Inr (''abc'', None)" "''z''" "''abc''" None 2] by simp

text \<open>An object is handed on for decompression exactly when its name ends in \<open>.gz\<close> and not in
  \<open>.parquet.gz\<close>, and then its bytes are untouched; with any other name a result is either the
  untouched bytes of an object that is not Parquet, or the decoded rows.\<close>

theorem PrepareBundleData_cases:
  assumes "PrepareBundleData gz to_json name raw = Inr (data, isCompressed)"
  shows "(isCompressed \<longleftrightarrow> has_suffix (to_lower name) ''.gz'' \<and> \<not> has_suffix (to_lower name) ''.parquet.gz'') \<and>
    (isCompressed \<longrightarrow> data = raw) \<and>
    (\<not> isCompressed \<longrightarrow>
       data = raw \<and> \<not> IsParquetFile name raw \<or>
       to_json raw = Inr data \<and> IsParquetFile name raw \<or>
       (\<exists>plain. gunzip gz raw MaxDecompressedParquetSize = Inr plain \<and> to_json plain = Inr data \<and>
          has_suffix (to_lower name) ''.parquet.gz''))"
proof (cases "cut_suffix (to_lower name) ''.gz''")
  case None
  then have "\<not> has_suffix (to_lower name) ''.gz''" by (simp add: cut_suffix_None)
  with None assms show ?thesis
    by (auto simp: PrepareBundleData_def split: if_splits sum.splits)
next
  case (Some base)
  then have name: "to_lower name = base @ ''.gz''" by (simp add: cut_suffix_Some)
  then have gz: "has_suffix (to_lower name) ''.gz''"
    using has_suffix_append by metis
  have pq: "has_suffix (to_lower name) ''.parquet.gz'' \<longleftrightarrow> has_suffix base ''.parquet''"
    unfolding has_suffix_iff name by (auto simp: append_eq_append_conv2)
  show ?thesis
    using Some assms gz by (auto simp: PrepareBundleData_def pq split: if_splits sum.splits)
qed

lemma lower_gz: "to_lower ''a.log.GZ'' = ''a.log.gz''"
  by code_simp

lemma PrepareBundleData_cases_witness:
  "has_suffix (to_lower ''a.log.GZ'') ''.gz'' \<and> \<not> has_suffix (to_lower ''a.log.GZ'') ''.parquet.gz''"
proof -
  have "PrepareBundleData (\<lambda>_. Inl EOF) Inr ''a.log.GZ'' ''PAR1'' = Inr (''PAR1'', True)"
    by (simp add: PrepareBundleData_def lower_gz cut_suffix_def has_suffix_def)
  from PrepareBundleData_cases [OF this] show ?thesis by simp
qed

end
