(* ===== verification/Pipeline.thy ===== *)
theory Pipeline
  imports Prelude
begin

text \<open>
  \<open>utils/pipeliner.go\<close>: \<open>Pipeliner\<close> runs a mapper on the elements of a generator in \<open>nParallel\<close>
  goroutines and gives them back in the order they were generated. The model is a step relation over the goroutines
  of the code: \<open>consume\<close>, the \<open>process\<close> workers, the goroutine that closes \<open>chReady\<close>, \<open>placer\<close>, the one that
  sets the events at the end, and the consumer that calls the returned function until it gets a
  nil element. One step is one access to shared state: a channel, the semaphore, an event, or a
  section under \<open>mArr\<close>; the consumer's section is two steps, since \<open>consume\<close> may set \<open>evDone\<close> in
  between. A nil element is \<open>None\<close>. The generator's n-th call returns \<open>gen n\<close>, from 1.
  The semaphore, from golang.org/x/sync, is a counter of held permits.
\<close>

section \<open>State\<close>

record ('e, 'x) prec =
  r_e :: "'e option"
  r_i :: nat
  r_err :: "'x option"

datatype ('e, 'x) consume_pc =
    CLoop | CAcquire | CCheck | CSend "('e, 'x) prec" | CSetDone | CExit

datatype ('e, 'x) worker_pc = WIdle | WHold "('e, 'x) prec" | WExit

datatype ('e, 'x) placer_pc = PIdle | PHold "('e, 'x) prec" | PExit

datatype ('e, 'x) consumer_pc = KReady | KBody "('e, 'x) prec" | KStop

record ('e, 'x) pipe =
  c_pc :: "('e, 'x) consume_pc"
  index :: nat
  smHeld :: nat
  chGen :: "('e, 'x) prec list"
  workers :: "('e, 'x) worker_pc list"
  chReady :: "('e, 'x) prec list"
  readyClosed :: bool
  placer_pc :: "('e, 'x) placer_pc"
  arr :: "('e, 'x) prec list"
  evReady :: bool
  evDone :: bool
  finished :: bool
  k_pc :: "('e, 'x) consumer_pc"
  outs :: "('e option \<times> 'x option) list"
  panicked :: bool

definition empty_rec :: "nat \<Rightarrow> ('e, 'x) prec" where
  "empty_rec i = \<lparr>r_e = None, r_i = i, r_err = None\<rparr>"

text \<open>\<open>Pipeliner\<close>: an error for a non-positive size, else the state in which its goroutines start.\<close>

definition Pipeliner :: "int \<Rightarrow> go_err + ('e, 'x) pipe" where
  "Pipeliner nParallel =
     (if nParallel \<le> 0 then Inl (GoErr ''negative parallel size invalid'')
      else Inr \<lparr>c_pc = CLoop, index = 0, smHeld = 0, chGen = [],
                workers = replicate (nat nParallel) WIdle, chReady = [], readyClosed = False,
                placer_pc = PIdle, arr = map (\<lambda>i. empty_rec (i + 1)) [0 ..< nat nParallel],
                evReady = False, evDone = False, finished = False, k_pc = KReady, outs = [],
                panicked = False\<rparr>)"

section \<open>Goroutines\<close>

text \<open>Each step gives the next state, or \<open>None\<close> when the goroutine is blocked or has ended. The size
  \<open>n\<close> of the pipeline bounds the semaphore and the channels.\<close>

definition consume_step ::
    "nat \<Rightarrow> (nat \<Rightarrow> 'e option \<times> 'x option) \<Rightarrow> ('e, 'x) pipe \<Rightarrow> ('e, 'x) pipe option" where
  "consume_step n gen s =
     (case c_pc s of
        CLoop \<Rightarrow> Some (s\<lparr>c_pc := (if evDone s then CExit else CAcquire)\<rparr>)
      | CAcquire \<Rightarrow>
          if smHeld s < n then Some (s\<lparr>smHeld := smHeld s + 1, c_pc := CCheck\<rparr>) else None
      | CCheck \<Rightarrow>
          if evDone s then Some (s\<lparr>c_pc := CExit\<rparr>)
          else (let i = index s + 1; (e, err) = gen i
                in Some (s\<lparr>index := i,
                           c_pc := CSend (case err of
                                            Some x \<Rightarrow> \<lparr>r_e = None, r_i = i, r_err = Some x\<rparr>
                                          | None \<Rightarrow> \<lparr>r_e = e, r_i = i, r_err = None\<rparr>)\<rparr>))
      | CSend r \<Rightarrow>
          if length (chGen s) < n
          then Some (s\<lparr>chGen := chGen s @ [r],
                       c_pc := (if r_err r \<noteq> None then CSetDone
                                else if r_e r = None then CExit else CLoop)\<rparr>)
          else None
      | CSetDone \<Rightarrow> Some (s\<lparr>evDone := True, c_pc := CExit\<rparr>)
      | CExit \<Rightarrow> None)"

text \<open>The channel \<open>chGen\<close> is closed when \<open>consume\<close> has returned.\<close>

definition process_step ::
    "nat \<Rightarrow> ('e \<Rightarrow> 'e option) \<Rightarrow> nat \<Rightarrow> ('e, 'x) pipe \<Rightarrow> ('e, 'x) pipe option" where
  "process_step n proc j s =
     (if j < length (workers s) then
        (case workers s ! j of
           WIdle \<Rightarrow>
             (case chGen s of
                r # rest \<Rightarrow>
                  Some (s\<lparr>chGen := rest,
                          workers := (workers s)[j := WHold (r\<lparr>r_e := Option.bind (r_e r) proc\<rparr>)]\<rparr>)
              | [] \<Rightarrow> if c_pc s = CExit then Some (s\<lparr>workers := (workers s)[j := WExit]\<rparr>) else None)
         | WHold r \<Rightarrow>
             if length (chReady s) < n
             then Some (s\<lparr>chReady := chReady s @ [r], workers := (workers s)[j := WIdle]\<rparr>)
             else None
         | WExit \<Rightarrow> None)
      else None)"

definition closer_step :: "('e, 'x) pipe \<Rightarrow> ('e, 'x) pipe option" where
  "closer_step s =
     (if list_all (\<lambda>w. w = WExit) (workers s) \<and> \<not> readyClosed s
      then Some (s\<lparr>readyClosed := True\<rparr>) else None)"

text \<open>Where \<open>placer\<close> puts a record: the new array and whether it sets \<open>evReady\<close>; \<open>None\<close> is the panic.\<close>

fun find_place :: "('e, 'x) prec list \<Rightarrow> nat \<Rightarrow> nat option" where
  "find_place (a # b # rest) i = (if r_i b = i + 1 then Some 0 else map_option Suc (find_place (b # rest) i))"
| "find_place _ i = None"

definition place :: "('e, 'x) prec list \<Rightarrow> ('e, 'x) prec \<Rightarrow> (('e, 'x) prec list \<times> bool) option" where
  "place a r =
     (let n = length a;
          last_spot = (\<lambda>ready. if r_e (a ! (n - 1)) \<noteq> None then None else Some (a[n - 1 := r], ready))
      in if 1 < n then
           (case find_place a (r_i r) of
              Some i \<Rightarrow> if r_e (a ! i) \<noteq> None then None else Some (a[i := r], i = 0)
            | None \<Rightarrow> last_spot False)
         else last_spot True)"

definition placer_step :: "('e, 'x) pipe \<Rightarrow> ('e, 'x) pipe option" where
  "placer_step s =
     (case placer_pc s of
        PIdle \<Rightarrow>
          (case chReady s of
             r # rest \<Rightarrow> Some (s\<lparr>chReady := rest, placer_pc := PHold r\<rparr>)
           | [] \<Rightarrow> if readyClosed s then Some (s\<lparr>placer_pc := PExit\<rparr>) else None)
      | PHold r \<Rightarrow>
          (case k_pc s of
             KBody _ \<Rightarrow> None
           | _ \<Rightarrow>
               (case place (arr s) r of
                  None \<Rightarrow> Some (s\<lparr>panicked := True\<rparr>)
                | Some (a, ready) \<Rightarrow>
                    Some (s\<lparr>arr := a, evReady := (evReady s \<or> ready), placer_pc := PIdle\<rparr>)))
      | PExit \<Rightarrow> None)"

definition finisher_step :: "('e, 'x) pipe \<Rightarrow> ('e, 'x) pipe option" where
  "finisher_step s =
     (if c_pc s = CExit \<and> list_all (\<lambda>w. w = WExit) (workers s) \<and> placer_pc s = PExit \<and>
         \<not> finished s \<and> (\<forall>r. k_pc s \<noteq> KBody r)
      then Some (s\<lparr>evReady := True, evDone := True, finished := True\<rparr>) else None)"

definition shift_arr :: "('e, 'x) prec list \<Rightarrow> ('e, 'x) prec list" where
  "shift_arr a =
     (if 1 < length a then tl a @ [empty_rec (r_i (last a) + 1)] else [empty_rec 0])"

definition consumer_step :: "('e, 'x) pipe \<Rightarrow> ('e, 'x) pipe option" where
  "consumer_step s =
     (case k_pc s of
        KReady \<Rightarrow>
          if \<not> evReady s then None
          else if smHeld s = 0 then Some (s\<lparr>panicked := True\<rparr>)
          else Some (s\<lparr>smHeld := smHeld s - 1, arr := shift_arr (arr s), k_pc := KBody (hd (arr s))\<rparr>)
      | KBody r \<Rightarrow>
          Some (s\<lparr>evReady := (evReady s \<and>
                     \<not> (\<not> evDone s \<and> r_e (hd (arr s)) = None \<and> r_err (hd (arr s)) = None)),
                  outs := outs s @ [(r_e r, r_err r)],
                  k_pc := (if r_e r = None then KStop else KReady)\<rparr>)
      | KStop \<Rightarrow> None)"

inductive pipe_step ::
    "nat \<Rightarrow> (nat \<Rightarrow> 'e option \<times> 'x option) \<Rightarrow> ('e \<Rightarrow> 'e option) \<Rightarrow>
     ('e, 'x) pipe \<Rightarrow> ('e, 'x) pipe \<Rightarrow> bool"
  for n gen proc where
  s_consume: "\<not> panicked s \<Longrightarrow> consume_step n gen s = Some s' \<Longrightarrow> pipe_step n gen proc s s'"
| s_process: "\<not> panicked s \<Longrightarrow> process_step n proc j s = Some s' \<Longrightarrow> pipe_step n gen proc s s'"
| s_closer: "\<not> panicked s \<Longrightarrow> closer_step s = Some s' \<Longrightarrow> pipe_step n gen proc s s'"
| s_placer: "\<not> panicked s \<Longrightarrow> placer_step s = Some s' \<Longrightarrow> pipe_step n gen proc s s'"
| s_finisher: "\<not> panicked s \<Longrightarrow> finisher_step s = Some s' \<Longrightarrow> pipe_step n gen proc s s'"
| s_consumer: "\<not> panicked s \<Longrightarrow> consumer_step s = Some s' \<Longrightarrow> pipe_step n gen proc s s'"

section \<open>Schedules\<close>

text \<open>A schedule names the goroutine of each step; it gives executable runs.\<close>

datatype sched = Consume | Process nat | Closer | Placer | Finisher | Consumer

definition sched_step ::
    "nat \<Rightarrow> (nat \<Rightarrow> 'e option \<times> 'x option) \<Rightarrow> ('e \<Rightarrow> 'e option) \<Rightarrow> sched \<Rightarrow>
     ('e, 'x) pipe \<Rightarrow> ('e, 'x) pipe option" where
  "sched_step n gen proc c s =
     (if panicked s then None
      else case c of
             Consume \<Rightarrow> consume_step n gen s
           | Process j \<Rightarrow> process_step n proc j s
           | Closer \<Rightarrow> closer_step s
           | Placer \<Rightarrow> placer_step s
           | Finisher \<Rightarrow> finisher_step s
           | Consumer \<Rightarrow> consumer_step s)"

fun follow ::
    "nat \<Rightarrow> (nat \<Rightarrow> 'e option \<times> 'x option) \<Rightarrow> ('e \<Rightarrow> 'e option) \<Rightarrow> sched list \<Rightarrow>
     ('e, 'x) pipe \<Rightarrow> ('e, 'x) pipe option" where
  "follow n gen proc [] s = Some s"
| "follow n gen proc (c # cs) s = Option.bind (sched_step n gen proc c s) (follow n gen proc cs)"

lemma pipe_step_iff: "pipe_step n gen proc s s' \<longleftrightarrow> (\<exists>c. sched_step n gen proc c s = Some s')"
  by (auto simp: sched_step_def pipe_step.simps split: sched.split if_splits)
    (metis sched.simps(31,32,33,34,35,36) sched.exhaust)+

lemma follow_steps: "follow n gen proc cs s = Some s' \<Longrightarrow> (pipe_step n gen proc)\<^sup>*\<^sup>* s s'"
proof (induction cs arbitrary: s)
  case (Cons c cs)
  then obtain s1 where s1: "sched_step n gen proc c s = Some s1" "follow n gen proc cs s1 = Some s'"
    by (auto simp: bind_eq_Some_conv)
  then have "pipe_step n gen proc s s1" using pipe_step_iff by blast
  moreover have "(pipe_step n gen proc)\<^sup>*\<^sup>* s1 s'" using Cons.IH s1(2) by blast
  ultimately show ?case by (rule converse_rtranclp_into_rtranclp)
qed simp

lemma follow_relpowp:
  "follow n gen proc cs s = Some s' \<Longrightarrow> ((pipe_step n gen proc) ^^ length cs) s s'"
proof (induction cs arbitrary: s)
  case (Cons c cs)
  then obtain s1 where s1: "sched_step n gen proc c s = Some s1" "follow n gen proc cs s1 = Some s'"
    by (auto simp: bind_eq_Some_conv)
  then have "pipe_step n gen proc s s1" using pipe_step_iff by blast
  then show ?case using relpowp_Suc_I2 [OF _ Cons.IH [OF s1(2)]] by simp
qed simp

section \<open>An error of the generator can be lost\<close>

text \<open>When the generator returns an error while an earlier element is still to be taken, the
  consumer can be given that element and then a nil element without an error: the stream looks
  complete and the error is gone. Here with two workers, one element and then an error.\<close>

theorem pipeliner_loses_error:
  fixes a :: 'e and x :: 'x
  assumes "gen 1 = (Some a, None)" "gen 2 = (None, Some x)" "proc a = Some b"
    and "Pipeliner 2 = Inr s0"
  shows "\<exists>s. (pipe_step 2 gen proc)\<^sup>*\<^sup>* s0 s \<and> k_pc s = KStop \<and>
    outs s = [(Some b, None), (None, None)]"
proof -
  let ?run = "replicate 4 Consume @ [Process 0, Process 0, Placer, Placer] @
    replicate 5 Consume @ replicate 4 Consumer"
  have gens: "gen (Suc (Suc 0)) = (None, Some x)" "gen (Suc 0) = (Some a, None)"
    using assms(1,2) by (simp_all add: numeral_2_eq_2)
  have s0: "s0 = \<lparr>c_pc = CLoop, index = 0, smHeld = 0, chGen = [], workers = [WIdle, WIdle],
      chReady = [], readyClosed = False, placer_pc = PIdle, arr = [empty_rec 1, empty_rec 2],
      evReady = False, evDone = False, finished = False, k_pc = KReady, outs = [], panicked = False\<rparr>"
    using assms(4) by (simp add: Pipeliner_def numeral_2_eq_2)
  have "\<exists>s. follow 2 gen proc ?run s0 = Some s \<and> k_pc s = KStop \<and> outs s = [(Some b, None), (None, None)]"
    using assms(3) gens
    by (simp add: s0 sched_step_def consume_step_def process_step_def placer_step_def
        consumer_step_def place_def shift_arr_def empty_rec_def numeral_eq_Suc)
  then show ?thesis using follow_steps by blast
qed

definition one_then_error :: "nat \<Rightarrow> string option \<times> go_err option" where
  "one_then_error k = (if k = 1 then (Some ''a'', None) else (None, Some (GoErr ''boom'')))"

lemma pipeliner_loses_error_witness:
  "\<exists>s0 s. Pipeliner 2 = Inr s0 \<and> (pipe_step 2 one_then_error Some)\<^sup>*\<^sup>* s0 s \<and> k_pc s = KStop \<and>
    outs s = [(Some ''a'', None), (None, None)]"
proof -
  obtain s0 :: "(string, go_err) pipe" where "Pipeliner 2 = Inr s0"
    by (simp add: Pipeliner_def)
  with pipeliner_loses_error [of one_then_error "''a''" "GoErr ''boom''" Some "''a''" s0]
  show ?thesis by (auto simp: one_then_error_def)
qed

end
