(* ===== verification/Pipeline_Order.thy ===== *)
theory Pipeline_Order
  imports Pipeline
begin

text \<open>
  The contract of \<open>Pipeliner\<close> for a generator that ends without an error and a mapper that never
  returns nil: no panic, delivery in the order of generation, and no deadlock. The invariant follows every
  record from the generator to its place in the array.
\<close>

section \<open>The source and its records\<close>

text \<open>A generator that gives the elements of a list and then nil.\<close>

definition source :: "'e list \<Rightarrow> nat \<Rightarrow> 'e option \<times> 'x option" where
  "source xs k = (if 0 < k \<and> k \<le> length xs then Some (xs ! (k - 1)) else None, None)"

text \<open>The record of call \<open>i\<close> once it is processed.\<close>

definition final :: "('e \<Rightarrow> 'e) \<Rightarrow> 'e list \<Rightarrow> nat \<Rightarrow> ('e, 'x) prec" where
  "final f xs i = \<lparr>r_e = map_option f (fst (source xs i :: 'e option \<times> 'x option)), r_i = i, r_err = None\<rparr>"

definition processed :: "('e \<Rightarrow> 'e) \<Rightarrow> ('e, 'x) prec \<Rightarrow> ('e, 'x) prec" where
  "processed f r = r\<lparr>r_e := map_option f (r_e r)\<rparr>"

fun held :: "('e, 'x) worker_pc \<Rightarrow> ('e, 'x) prec list" where
  "held (WHold r) = [r]"
| "held _ = []"

fun placer_held :: "('e, 'x) placer_pc \<Rightarrow> ('e, 'x) prec list" where
  "placer_held (PHold r) = [r]"
| "placer_held _ = []"

fun sending :: "('e, 'x) consume_pc \<Rightarrow> ('e, 'x) prec list" where
  "sending (CSend r) = [r]"
| "sending _ = []"

text \<open>The records between the generator and the array, as they will be placed.\<close>

definition flight :: "('e \<Rightarrow> 'e) \<Rightarrow> ('e, 'x) pipe \<Rightarrow> ('e, 'x) prec multiset" where
  "flight f s = mset (map (processed f) (sending (c_pc s) @ chGen s)) +
     mset (concat (map held (workers s))) + mset (chReady s) + mset (placer_held (placer_pc s))"

text \<open>How many records the consumer has taken out of the array.\<close>

definition taken :: "('e, 'x) pipe \<Rightarrow> nat" where
  "taken s = length (outs s) + (case k_pc s of KBody _ \<Rightarrow> 1 | _ \<Rightarrow> 0)"

lemma mset_held_update:
  assumes "j < length ws"
  shows "mset (concat (map held ws)) + mset (held w) =
    mset (concat (map held (ws[j := w]))) + mset (held (ws ! j))"
  using assms
proof (induction ws arbitrary: j)
  case (Cons v ws)
  show ?case
  proof (cases j)
    case (Suc k)
    then show ?thesis using Cons.IH [of k] Cons.prems by simp
  qed (simp add: add_ac)
qed simp

section \<open>Placing\<close>

lemma find_place_numbered:
  "\<forall>k < length a. r_i (a ! k) = c + k \<Longrightarrow>
   find_place a (c + k) = (if Suc k < length a then Some k else None)"
proof (induction a "c + k" arbitrary: c k rule: find_place.induct)
  case (1 x y rest)
  have nums: "\<forall>k < length (y # rest). r_i ((y # rest) ! k) = Suc c + k"
    using "1.prems" by (metis Suc_less_eq add_Suc_shift length_Cons nth_Cons_Suc)
  have "r_i y = Suc c" using nums by force
  then show ?case
    using "1.hyps" [of "Suc c" "k - 1"] nums by (cases k) auto
qed auto

lemma place_numbered:
  assumes "1 < length a \<longrightarrow> (\<forall>k < length a. r_i (a ! k) = c + k)" "k < length a"
    and "r_i r = c + k" "r_e (a ! k) = None"
  shows "place a r = Some (a[k := r], k = 0)"
proof (cases "1 < length a")
  case True
  then have "find_place a (r_i r) = (if Suc k < length a then Some k else None)"
    using assms(1,3) find_place_numbered by metis
  moreover have "k = length a - 1" if "\<not> Suc k < length a" using that assms(2) by simp
  ultimately show ?thesis
    using True assms(4) by (cases "Suc k < length a") (simp_all add: place_def Let_def)
next
  case False
  with assms(2) have "length a = 1" "k = 0" by linarith+
  with assms(4) show ?thesis by (simp add: place_def)
qed

section \<open>The invariant\<close>

definition pending :: "('e \<Rightarrow> 'e) \<Rightarrow> ('e, 'x) pipe \<Rightarrow> nat set" where
  "pending f s = r_i ` set_mset (flight f s)"

text \<open>Position \<open>k\<close> of the array holds its record.\<close>

definition placed :: "('e \<Rightarrow> 'e) \<Rightarrow> ('e, 'x) pipe \<Rightarrow> nat \<Rightarrow> bool" where
  "placed f s k \<longleftrightarrow> taken s + k + 1 \<le> index s \<and> taken s + k + 1 \<notin> pending f s"

definition flight_ok :: "('e \<Rightarrow> 'e) \<Rightarrow> 'e list \<Rightarrow> ('e, 'x) pipe \<Rightarrow> bool" where
  "flight_ok f xs s \<longleftrightarrow> flight f s = image_mset (final f xs) (mset_set (pending f s)) \<and>
     pending f s \<subseteq> {taken s <.. index s}"

definition arr_ok :: "nat \<Rightarrow> ('e \<Rightarrow> 'e) \<Rightarrow> 'e list \<Rightarrow> ('e, 'x) pipe \<Rightarrow> bool" where
  "arr_ok n f xs s \<longleftrightarrow> length (arr s) = n \<and>
     (\<forall>k < n. r_e (arr s ! k) =
          (if placed f s k then r_e (final f xs (taken s + k + 1) :: ('e, 'x) prec) else None) \<and>
        r_err (arr s ! k) = None \<and> (1 < n \<longrightarrow> r_i (arr s ! k) = taken s + 1 + k))"

definition consume_ok :: "nat \<Rightarrow> 'e list \<Rightarrow> ('e, 'x) pipe \<Rightarrow> bool" where
  "consume_ok n xs s \<longleftrightarrow>
     smHeld s + taken s = index s + (if c_pc s = CCheck then 1 else 0) \<and> smHeld s \<le> n \<and>
     taken s \<le> index s \<and>
     (case c_pc s of
        CSend r \<Rightarrow> index s \<le> Suc (length xs) \<and> 0 < index s \<and>
          r = \<lparr>r_e = fst (source xs (index s) :: 'e option \<times> 'x option), r_i = index s, r_err = None\<rparr>
      | CSetDone \<Rightarrow> False
      | CExit \<Rightarrow> index s = Suc (length xs)
      | _ \<Rightarrow> index s \<le> length xs)"

definition end_ok :: "nat \<Rightarrow> ('e \<Rightarrow> 'e) \<Rightarrow> ('e, 'x) pipe \<Rightarrow> bool" where
  "end_ok n f s \<longleftrightarrow> length (workers s) = n \<and> \<not> panicked s \<and>
     evDone s = finished s \<and>
     (finished s \<longrightarrow> c_pc s = CExit \<and> flight f s = {#} \<and> evReady s \<and> placer_pc s = PExit) \<and>
     (WExit \<in> set (workers s) \<longrightarrow> c_pc s = CExit \<and> chGen s = []) \<and>
     (readyClosed s \<longrightarrow> list_all (\<lambda>w. w = WExit) (workers s)) \<and>
     (placer_pc s = PExit \<longrightarrow> readyClosed s \<and> chReady s = [])"

definition outs_ok :: "('e \<Rightarrow> 'e) \<Rightarrow> 'e list \<Rightarrow> ('e, 'x) pipe \<Rightarrow> bool" where
  "outs_ok f xs s \<longleftrightarrow>
     outs s = map (\<lambda>i. (r_e (final f xs i :: ('e, 'x) prec), None)) [1 ..< Suc (length (outs s))]"

definition consumer_ok :: "('e \<Rightarrow> 'e) \<Rightarrow> 'e list \<Rightarrow> ('e, 'x) pipe \<Rightarrow> bool" where
  "consumer_ok f xs s \<longleftrightarrow> outs_ok f xs s \<and>
     (case k_pc s of
        KReady \<Rightarrow> taken s \<le> length xs \<and> (evReady s \<longrightarrow> finished s \<or> placed f s 0) \<and>
          (placed f s 0 \<and> taken s < length xs \<longrightarrow> evReady s)
      | KBody r \<Rightarrow> r_e r = r_e (final f xs (taken s) :: ('e, 'x) prec) \<and> r_err r = None \<and>
          taken s \<le> Suc (length xs) \<and> evReady s
      | KStop \<Rightarrow> taken s = Suc (length xs))"

definition pipe_inv :: "nat \<Rightarrow> ('e \<Rightarrow> 'e) \<Rightarrow> 'e list \<Rightarrow> ('e, 'x) pipe \<Rightarrow> bool" where
  "pipe_inv n f xs s \<longleftrightarrow> flight_ok f xs s \<and> arr_ok n f xs s \<and> consume_ok n xs s \<and> end_ok n f s \<and>
     consumer_ok f xs s"

text \<open>Steps that only move records leave the observations of the invariant alone.\<close>

definition same_view :: "('e \<Rightarrow> 'e) \<Rightarrow> ('e, 'x) pipe \<Rightarrow> ('e, 'x) pipe \<Rightarrow> bool" where
  "same_view f s t \<longleftrightarrow> flight f s = flight f t \<and> index s = index t \<and> outs s = outs t \<and>
     k_pc s = k_pc t \<and> arr s = arr t \<and> evReady s = evReady t \<and> finished s = finished t"

lemma same_view_inv:
  assumes "same_view f s t"
  shows "flight_ok f xs s = flight_ok f xs t" "arr_ok n f xs s = arr_ok n f xs t"
    "consumer_ok f xs s = consumer_ok f xs t"
  using assms
  by (simp_all add: same_view_def flight_ok_def pending_def taken_def arr_ok_def placed_def
      consumer_ok_def outs_ok_def cong: consumer_pc.case_cong)

lemma consume_ok_view:
  "c_pc s' = c_pc s \<Longrightarrow> index s' = index s \<Longrightarrow> smHeld s' = smHeld s \<Longrightarrow> taken s' = taken s \<Longrightarrow>
   consume_ok n xs s' = consume_ok n xs s"
  by (cases "c_pc s") (simp_all add: consume_ok_def)

lemma initial_inv:
  assumes "Pipeliner m = Inr s0" "0 < m"
  shows "pipe_inv (nat m) f xs s0"
proof -
  have "flight f s0 = {#}"
    using assms by (auto simp: Pipeliner_def flight_def)
  moreover have "taken s0 = 0" using assms by (auto simp: Pipeliner_def taken_def)
  ultimately show ?thesis
    using assms
    by (auto simp: Pipeliner_def pipe_inv_def flight_ok_def pending_def arr_ok_def placed_def
        consume_ok_def end_ok_def consumer_ok_def outs_ok_def empty_rec_def)
qed

section \<open>Preservation\<close>

lemma evDone_iff: "end_ok n f s \<Longrightarrow> c_pc s \<noteq> CExit \<Longrightarrow> \<not> evDone s \<and> \<not> finished s"
  by (auto simp: end_ok_def)

lemma source_end: "fst (source xs i) = None \<longleftrightarrow> i = 0 \<or> length xs < i"
  by (auto simp: source_def)

lemma inv_by_view:
  assumes "pipe_inv n f xs s" "same_view f s' s" "consume_ok n xs s'" "end_ok n f s'"
  shows "pipe_inv n f xs s'"
  using assms same_view_inv [OF assms(2)] by (simp add: pipe_inv_def)

text \<open>The call of the generator adds the next record to the flight.\<close>

text \<open>The call of the generator adds the next record to the flight.\<close>

lemma inv_generate:
  assumes inv: "pipe_inv n f xs s" and pc: "c_pc s = CCheck"
    and s': "s' = s\<lparr>index := Suc (index s),
      c_pc := CSend \<lparr>r_e = fst (source xs (Suc (index s)) :: 'e option \<times> 'x option),
                     r_i = Suc (index s), r_err = None\<rparr>\<rparr>"
  shows "pipe_inv n f xs (s' :: ('e, 'x) pipe)"
proof -
  let ?i = "Suc (index s)"
  have fl: "flight f s' = add_mset (final f xs ?i) (flight f s)"
    by (simp add: flight_def s' pc processed_def final_def)
  then have pend: "pending f s' = insert ?i (pending f s)"
    by (simp add: pending_def final_def)
  have tk: "taken s' = taken s" by (simp add: taken_def s')
  have sub: "pending f s \<subseteq> {taken s <.. index s}" "finite (pending f s)"
    using inv by (auto simp: pipe_inv_def flight_ok_def pending_def)
  then have new: "?i \<notin> pending f s" by auto
  have le: "taken s \<le> index s" using inv by (simp add: pipe_inv_def consume_ok_def)
  have "flight_ok f xs s'"
    using inv new sub le unfolding pipe_inv_def flight_ok_def fl pend tk
    by (auto simp: s' mset_set.insert)
  moreover have pl: "placed f s' k = placed f s k" for k
  proof -
    have ix: "index s' = Suc (index s)" by (simp add: s')
    show ?thesis unfolding placed_def tk pend ix using new by auto
  qed
  then have "arr_ok n f xs s'" "consumer_ok f xs s'"
    using inv tk by (simp_all add: pipe_inv_def arr_ok_def consumer_ok_def outs_ok_def s'
        cong: consumer_pc.case_cong)
  moreover have "consume_ok n xs s'"
    using inv pc unfolding pipe_inv_def consume_ok_def tk by (simp add: s')
  moreover have "WExit \<notin> set (workers s)" "\<not> evDone s" "\<not> finished s"
    using inv pc by (auto simp: pipe_inv_def end_ok_def)
  then have "end_ok n f s'"
    using inv by (simp add: pipe_inv_def end_ok_def s')
  ultimately show ?thesis by (simp add: pipe_inv_def)
qed

lemma inv_send:
  assumes inv: "pipe_inv n f xs s" and pc: "c_pc s = CSend r"
    and s': "s' = s\<lparr>chGen := chGen s @ [r],
      c_pc := (if r_err r \<noteq> None then CSetDone else if r_e r = None then CExit else CLoop)\<rparr>"
  shows "pipe_inv n f xs (s' :: ('e, 'x) pipe)"
proof (rule inv_by_view [OF inv])
  have r: "r_err r = None" "r_e r = None \<longleftrightarrow> index s = Suc (length xs)"
    and ix: "index s \<le> Suc (length xs)"
    using inv pc by (auto simp: pipe_inv_def consume_ok_def source_end)
  show "same_view f s' s"
    by (simp add: same_view_def s' flight_def pc r add_ac)
  have "taken s' = taken s" by (simp add: s' taken_def)
  then show "consume_ok n xs s'"
    using inv pc r ix by (simp add: pipe_inv_def consume_ok_def s')
  have "WExit \<notin> set (workers s)" "\<not> evDone s" "\<not> finished s"
    using inv pc by (auto simp: pipe_inv_def end_ok_def)
  then show "end_ok n f s'"
    using inv by (simp add: pipe_inv_def end_ok_def s')
qed

lemma inv_pc_only:
  assumes inv: "pipe_inv n f xs s" and s': "s' = s\<lparr>smHeld := m, c_pc := pc\<rparr>"
    and "sending (c_pc s) = []" "sending pc = []" "c_pc s \<noteq> CExit" "consume_ok n xs s'"
  shows "pipe_inv n f xs (s' :: ('e, 'x) pipe)"
proof (rule inv_by_view [OF inv _ assms(6)])
  have fl: "flight f s' = flight f s" using assms(3,4) by (simp add: flight_def s')
  then show "same_view f s' s" by (simp add: same_view_def s')
  have "WExit \<notin> set (workers s)" "\<not> evDone s" "\<not> finished s"
    using inv assms(5) by (auto simp: pipe_inv_def end_ok_def)
  then show "end_ok n f s'"
    using inv fl by (simp add: pipe_inv_def end_ok_def s')
qed

lemma inv_consume:
  assumes inv: "pipe_inv n f xs s" and step: "consume_step n (source xs) s = Some s'"
  shows "pipe_inv n f xs s'"
proof (cases "c_pc s")
  case CLoop
  then have "s' = s\<lparr>smHeld := smHeld s, c_pc := CAcquire\<rparr>"
    using step inv evDone_iff [of n f s] by (simp add: consume_step_def pipe_inv_def)
  note s' = this
  have "taken s' = taken s" by (simp add: s' taken_def)
  then have "consume_ok n xs s'" using inv CLoop by (simp add: s' pipe_inv_def consume_ok_def)
  then show ?thesis using CLoop by (intro inv_pc_only [OF inv s']) simp_all
next
  case CAcquire
  then have "s' = s\<lparr>smHeld := smHeld s + 1, c_pc := CCheck\<rparr>" "smHeld s < n"
    using step by (simp_all add: consume_step_def split: if_splits)
  note s' = this
  have "taken s' = taken s" by (simp add: s'(1) taken_def)
  then have "consume_ok n xs s'" using inv CAcquire s'(2) by (simp add: s'(1) pipe_inv_def consume_ok_def)
  then show ?thesis using CAcquire by (intro inv_pc_only [OF inv s'(1)]) simp_all
next
  case CCheck
  then have "\<not> evDone s" using inv evDone_iff [of n f s] by (simp add: pipe_inv_def)
  with CCheck step show ?thesis
    by (intro inv_generate [OF inv CCheck])
      (simp add: consume_step_def Let_def source_def split: if_splits)
next
  case (CSend r)
  with step show ?thesis
    by (intro inv_send [OF inv CSend]) (auto simp: consume_step_def split: if_splits)
next
  case CSetDone
  then show ?thesis using inv by (simp add: pipe_inv_def consume_ok_def)
next
  case CExit
  then show ?thesis using step by (simp add: consume_step_def)
qed

text \<open>Workers move records from one channel to the other.\<close>

lemma bind_mapper: "Option.bind e (\<lambda>x. Some (f x)) = map_option f e"
  by (cases e) simp_all

lemma inv_worker:
  assumes inv: "pipe_inv n f xs s" and j: "j < length (workers s)"
    and s': "s' = s\<lparr>chGen := g, chReady := r, workers := (workers s)[j := w]\<rparr>"
    and fl: "mset (map (processed f) g) + mset (held w) + mset r =
      mset (map (processed f) (chGen s)) + mset (held (workers s ! j)) + mset (chReady s)"
    and ok: "workers s ! j \<noteq> WExit" "w = WExit \<longrightarrow> c_pc s = CExit \<and> g = []"
      "chGen s = [] \<longrightarrow> g = []"
  shows "pipe_inv n f xs (s' :: ('e, 'x) pipe)"
proof (rule inv_by_view [OF inv])
  let ?P = "mset (map (processed f) (sending (c_pc s))) + mset (placer_held (placer_pc s))"
  let ?hj = "mset (held (workers s ! j))"
  have "flight f s' + ?hj = ?P + mset (map (processed f) g) + mset r +
      (mset (concat (map held ((workers s)[j := w]))) + ?hj)"
    by (simp add: flight_def s' ac_simps)
  also have "\<dots> = ?P + mset (concat (map held (workers s))) +
      (mset (map (processed f) g) + mset (held w) + mset r)"
    unfolding mset_held_update [OF j, of w, symmetric] by (simp add: ac_simps)
  also have "\<dots> = flight f s + ?hj"
    unfolding fl by (simp add: flight_def ac_simps)
  finally have fl': "flight f s' = flight f s" by simp
  then show "same_view f s' s" by (simp add: same_view_def s')
  have "consume_ok n xs s' = consume_ok n xs s"
    by (rule consume_ok_view) (simp_all add: s' taken_def)
  then show "consume_ok n xs s'" using inv by (simp add: pipe_inv_def)
  have "\<not> list_all (\<lambda>w. w = WExit) (workers s)" using j ok(1) by (auto simp: list_all_length)
  then have open': "\<not> readyClosed s" "placer_pc s \<noteq> PExit" "\<not> finished s"
    using inv by (auto simp: pipe_inv_def end_ok_def)
  moreover have "WExit \<in> set ((workers s)[j := w]) \<Longrightarrow> w = WExit \<or> WExit \<in> set (workers s)"
    by (metis insertE set_update_subset_insert subsetD)
  ultimately show "end_ok n f s'"
    using inv ok by (auto simp: pipe_inv_def end_ok_def s')
qed

lemma inv_process:
  assumes inv: "pipe_inv n f xs s" and step: "process_step n (\<lambda>x. Some (f x)) j s = Some s'"
  shows "pipe_inv n f xs s'"
proof -
  have j: "j < length (workers s)" using step by (simp add: process_step_def split: if_splits)
  show ?thesis
  proof (cases "workers s ! j")
    case WIdle
    show ?thesis
    proof (cases "chGen s")
      case Nil
      with step WIdle j show ?thesis
        by (intro inv_worker [OF inv j, where g = "[]" and r = "chReady s" and w = WExit])
          (auto simp: process_step_def split: if_splits)
    next
      case (Cons r rest)
      with step WIdle j show ?thesis
        by (intro inv_worker [OF inv j, where g = rest and r = "chReady s" and w = "WHold (processed f r)"])
          (auto simp: process_step_def processed_def bind_mapper)
    qed
  next
    case (WHold r)
    with step j show ?thesis
      by (intro inv_worker [OF inv j, where g = "chGen s" and r = "chReady s @ [r]" and w = WIdle])
        (auto simp: process_step_def split: if_splits)
  next
    case WExit
    with step j show ?thesis by (simp add: process_step_def)
  qed
qed

lemma inv_closer:
  assumes inv: "pipe_inv n f xs s" and step: "closer_step s = Some s'"
  shows "pipe_inv n f xs s'"
proof -
  have s': "s' = s\<lparr>readyClosed := True\<rparr>" "list_all (\<lambda>w. w = WExit) (workers s)"
    using step by (auto simp: closer_step_def split: if_splits)
  have "flight f s' = flight f s" "taken s' = taken s" by (simp_all add: s'(1) flight_def taken_def)
  then show ?thesis
    using inv s'(2) by (intro inv_by_view [OF inv])
      (simp_all add: same_view_def s'(1) pipe_inv_def consume_ok_def end_ok_def cong: consume_pc.case_cong)
qed

lemma flight_exited:
  assumes "c_pc s = CExit" "list_all (\<lambda>w. w = WExit) (workers s)" "chGen s = []"
    "chReady s = []" "placer_pc s = PExit"
  shows "flight f s = {#}"
proof -
  have "map held (workers s) = map (\<lambda>_. []) (workers s)"
    using assms(2) by (intro map_cong) (auto simp: list_all_iff)
  then show ?thesis using assms by (simp add: flight_def)
qed

lemma inv_finisher:
  assumes inv: "pipe_inv n f xs s" and n: "0 < n" and step: "finisher_step s = Some s'"
  shows "pipe_inv n f xs s'"
proof -
  have s': "s' = s\<lparr>evReady := True, evDone := True, finished := True\<rparr>"
    and pc: "c_pc s = CExit" "list_all (\<lambda>w. w = WExit) (workers s)" "placer_pc s = PExit"
      "\<forall>r. k_pc s \<noteq> KBody r"
    using step by (auto simp: finisher_step_def split: if_splits)
  have "WExit \<in> set (workers s)"
    using pc(2) n inv by (cases "workers s") (auto simp: pipe_inv_def end_ok_def)
  then have "flight f s = {#}"
    using inv pc by (intro flight_exited) (auto simp: pipe_inv_def end_ok_def)
  moreover have v: "flight f s' = flight f s" "taken s' = taken s"
    "\<And>k. placed f s' k = placed f s k"
    by (simp_all add: s' flight_def taken_def placed_def pending_def)
  ultimately show ?thesis
    using inv pc
    by (auto simp: pipe_inv_def flight_ok_def pending_def arr_ok_def consume_ok_def end_ok_def
        consumer_ok_def outs_ok_def v s' split: consumer_pc.splits)
qed

text \<open>Placing a record takes it out of the flight and fills its position.\<close>

lemma inv_place:
  assumes inv: "pipe_inv n f xs s" and pc: "placer_pc s = PHold r" and k: "\<forall>r. k_pc s \<noteq> KBody r"
  shows "\<exists>p < n. place (arr s) r = Some ((arr s)[p := r], p = 0) \<and>
    pipe_inv n f xs (s\<lparr>arr := (arr s)[p := r], evReady := (evReady s \<or> p = 0), placer_pc := PIdle\<rparr>)"
proof -
  define i where "i = r_i r"
  have fl: "flight f s = image_mset (final f xs) (mset_set (pending f s))"
    "pending f s \<subseteq> {taken s <.. index s}" "finite (pending f s)"
    using inv by (auto simp: pipe_inv_def flight_ok_def pending_def)
  have "r \<in># flight f s" by (simp add: flight_def pc)
  then obtain i' where "i' \<in> pending f s" "r = final f xs i'" using fl(1,3) by auto
  then have i: "i \<in> pending f s" "r = final f xs i" by (auto simp: i_def final_def)
  define p where "p = i - taken s - 1"
  have i_p: "i = taken s + 1 + p" "taken s < i" "i \<le> index s" using i(1) fl(2) by (auto simp: p_def)
  have p_n: "p < n"
    using i_p inv by (auto simp: pipe_inv_def consume_ok_def split: if_splits)
  have arr: "length (arr s) = n" "1 < n \<longrightarrow> (\<forall>k < n. r_i (arr s ! k) = taken s + 1 + k)"
    "r_e (arr s ! p) = None"
    using inv p_n i(1) i_p by (auto simp: pipe_inv_def arr_ok_def placed_def)
  have place: "place (arr s) r = Some ((arr s)[p := r], p = 0)"
    using arr p_n i_p i_def by (intro place_numbered) auto
  define t where "t = s\<lparr>arr := (arr s)[p := r], evReady := (evReady s \<or> p = 0), placer_pc := PIdle\<rparr>"
  have t: "arr t = (arr s)[p := r]" "evReady t = (evReady s \<or> p = 0)" "placer_pc t = PIdle"
    "index t = index s" "outs t = outs s" "k_pc t = k_pc s" "finished t = finished s"
    and tk: "taken t = taken s"
    by (simp_all add: t_def taken_def)
  have "flight f s = add_mset r (flight f t)" by (simp add: flight_def pc t_def)
  then have fl': "flight f t = image_mset (final f xs) (mset_set (pending f s - {i}))"
    using fl(1,3) i by (simp add: mset_set.remove)
  then have pend: "pending f t = pending f s - {i}"
    using fl(3) by (auto simp: pending_def final_def image_image)
  have pl: "placed f t k \<longleftrightarrow> placed f s k \<or> k = p" for k
    using i_p i(1) by (auto simp: placed_def tk pend t)
  have "flight_ok f xs t" using fl fl' by (auto simp: flight_ok_def pend tk t)
  moreover have "arr_ok n f xs t"
  proof -
    have r: "r_e r = r_e (final f xs (taken s + p + 1) :: ('a, 'b) prec)" "r_err r = None"
      "r_i r = taken s + 1 + p"
      using i(2) i_p(1) by (simp_all add: final_def)
    have "r_e ((arr s)[p := r] ! k) = (if placed f t k then r_e (final f xs (taken s + k + 1) :: ('a, 'b) prec) else None) \<and>
        r_err ((arr s)[p := r] ! k) = None \<and> (1 < n \<longrightarrow> r_i ((arr s)[p := r] ! k) = taken s + 1 + k)"
      if "k < n" for k
      unfolding pl using inv that arr(1) r
      by (cases "k = p") (simp_all add: pipe_inv_def arr_ok_def)
    then show ?thesis by (simp add: arr_ok_def tk t arr(1))
  qed
  moreover have "consume_ok n xs t = consume_ok n xs s" by (rule consume_ok_view) (simp_all add: tk, simp_all add: t_def)
  then have "consume_ok n xs t" using inv by (simp add: pipe_inv_def)
  moreover have "end_ok n f t"
    using inv pc by (auto simp: pipe_inv_def end_ok_def t_def)
  moreover have "consumer_ok f xs t"
    using inv k by (auto simp: pipe_inv_def consumer_ok_def outs_ok_def tk pl t split: consumer_pc.splits)
  ultimately have "pipe_inv n f xs t" by (simp add: pipe_inv_def)
  with place p_n show ?thesis unfolding t_def by blast
qed

lemma inv_placer:
  assumes inv: "pipe_inv n f xs s" and step: "placer_step s = Some s'"
  shows "pipe_inv n f xs s'"
proof (cases "placer_pc s")
  case PIdle
  then consider r rest where "chReady s = r # rest" "s' = s\<lparr>chReady := rest, placer_pc := PHold r\<rparr>"
    | "chReady s = []" "readyClosed s" "s' = s\<lparr>placer_pc := PExit\<rparr>"
    using step by (auto simp: placer_step_def split: list.splits if_splits)
  then show ?thesis
  proof cases
    case 1
    then have "flight f s' = flight f s" "consume_ok n xs s' = consume_ok n xs s"
      by (simp add: flight_def PIdle) (rule consume_ok_view; simp add: 1 taken_def)
    then show ?thesis
      using inv PIdle 1 by (intro inv_by_view [OF inv])
        (auto simp: same_view_def pipe_inv_def end_ok_def)
  next
    case 2
    then have "flight f s' = flight f s" "consume_ok n xs s' = consume_ok n xs s"
      by (simp add: flight_def PIdle) (rule consume_ok_view; simp add: 2 taken_def)
    then show ?thesis
      using inv PIdle 2 by (intro inv_by_view [OF inv])
        (auto simp: same_view_def pipe_inv_def end_ok_def)
  qed
next
  case (PHold r)
  then have k: "\<forall>r. k_pc s \<noteq> KBody r"
    using step by (auto simp: placer_step_def)
  show ?thesis
    using inv_place [OF inv PHold k] step PHold k
    by (auto simp: placer_step_def split: consumer_pc.splits)
next
  case PExit
  then show ?thesis using step by (simp add: placer_step_def)
qed

text \<open>Taking the first record of the array.\<close>

lemma ready_placed:
  assumes inv: "pipe_inv n f xs s" and k: "k_pc s = KReady" and ready: "evReady s"
  shows "placed f s 0"
proof (cases "finished s")
  case True
  then have "pending f s = {}" "index s = Suc (length xs)"
    using inv by (auto simp: pipe_inv_def end_ok_def consume_ok_def pending_def)
  then show ?thesis using inv k by (auto simp: pipe_inv_def consumer_ok_def placed_def)
next
  case False
  then show ?thesis using inv k ready by (simp add: pipe_inv_def consumer_ok_def)
qed

lemma shift_arr_ok:
  assumes "arr_ok n f xs s" "0 < n" "arr t = shift_arr (arr s)" "taken t = Suc (taken s)"
    and "\<And>k. placed f t k = placed f s (Suc k)" "\<not> placed f s n"
  shows "arr_ok n f xs t"
proof (cases "1 < n")
  case True
  have len: "length (arr s) = n" using assms(1) by (simp add: arr_ok_def)
  then have ne: "arr s \<noteq> []" using assms(2) by auto
  have shift: "shift_arr (arr s) = tl (arr s) @ [empty_rec (r_i (last (arr s)) + 1)]"
    using True len by (simp add: shift_arr_def)
  have last: "last (arr s) = arr s ! (n - 1)" using len ne by (simp add: last_conv_nth)
  have "r_e (arr t ! k) = (if placed f t k then r_e (final f xs (taken t + k + 1) :: ('a, 'b) prec) else None) \<and>
      r_err (arr t ! k) = None \<and> (1 < n \<longrightarrow> r_i (arr t ! k) = taken t + 1 + k)" if k: "k < n" for k
  proof (cases "Suc k < n")
    case True
    then have "arr t ! k = arr s ! Suc k"
      using len ne by (simp add: assms(3) shift nth_append nth_tl)
    then show ?thesis
      using assms(1,4,5) True by (simp add: arr_ok_def)
  next
    case False
    with k have kn: "Suc k = n" by simp
    then have "arr t ! k = empty_rec (r_i (arr s ! k) + 1)"
      using len by (simp add: assms(3) shift nth_append last flip: kn)
    moreover have "\<not> placed f t k" using assms(5,6) kn by simp
    moreover have "r_i (arr s ! k) = taken s + 1 + k" using assms(1) True k by (simp add: arr_ok_def)
    ultimately show ?thesis by (simp add: empty_rec_def assms(4))
  qed
  then show ?thesis using len True by (simp add: arr_ok_def assms(3) shift)
next
  case False
  with assms(2) have "n = 1" by simp
  with assms show ?thesis by (simp add: arr_ok_def shift_arr_def empty_rec_def)
qed

lemma inv_take:
  assumes inv: "pipe_inv n f xs s" and n: "0 < n" and k: "k_pc s = KReady" and ready: "evReady s"
    and s': "s' = s\<lparr>smHeld := smHeld s - 1, arr := shift_arr (arr s), k_pc := KBody (hd (arr s))\<rparr>"
  shows "0 < smHeld s" "pipe_inv n f xs (s' :: ('e, 'x) pipe)"
proof -
  note pl = ready_placed [OF inv k ready]
  then have lt: "Suc (taken s) \<le> index s" "Suc (taken s) \<notin> pending f s" by (simp_all add: placed_def)
  have sm: "smHeld s + taken s = index s + (if c_pc s = CCheck then 1 else 0)" "smHeld s \<le> n"
    using inv by (simp_all add: pipe_inv_def consume_ok_def)
  then show pos: "0 < smHeld s" using lt(1) by linarith
  have f: "index s' = index s" "arr s' = shift_arr (arr s)" "outs s' = outs s" "c_pc s' = c_pc s"
    "evReady s' = evReady s" "k_pc s' = KBody (hd (arr s))" "smHeld s' = smHeld s - 1"
    by (simp_all add: s')
  have tk: "taken s' = Suc (taken s)" by (simp add: s' taken_def k)
  have fl: "flight f s' = flight f s" "pending f s' = pending f s"
    by (simp_all add: s' flight_def pending_def)
  have "pending f s \<subseteq> {Suc (taken s) <.. index s}"
  proof
    fix x assume "x \<in> pending f s"
    then show "x \<in> {Suc (taken s) <.. index s}"
      using inv lt(2) by (cases "x = Suc (taken s)") (auto simp: pipe_inv_def flight_ok_def)
  qed
  then have "flight_ok f xs s'"
    using inv by (simp add: pipe_inv_def flight_ok_def fl tk f)
  moreover have "\<not> placed f s n"
    using sm by (simp add: placed_def split: if_splits)
  moreover have "placed f s' p = placed f s (Suc p)" for p
    by (simp add: placed_def fl tk f)
  moreover have "arr_ok n f xs s" using inv by (simp add: pipe_inv_def)
  ultimately have "flight_ok f xs s'" "arr_ok n f xs s'"
    using shift_arr_ok [OF _ n f(2) tk] by blast+
  moreover have "consume_ok n xs s'"
    using inv lt(1) pos by (cases "c_pc s") (auto simp: pipe_inv_def consume_ok_def tk f)
  moreover have "end_ok n f s'"
    using inv fl(1) by (simp add: pipe_inv_def end_ok_def s')
  moreover have "hd (arr s) = arr s ! 0"
    using inv n by (cases "arr s") (auto simp: pipe_inv_def arr_ok_def)
  then have "consumer_ok f xs s'"
    using inv k pl n ready by (auto simp: pipe_inv_def consumer_ok_def outs_ok_def arr_ok_def f tk)
  ultimately show "pipe_inv n f xs s'" by (simp add: pipe_inv_def)
qed

lemma outs_ok_snoc:
  "outs_ok f xs s \<Longrightarrow> outs t = outs s @ [(r_e (final f xs (Suc (length (outs s))) :: ('e, 'x) prec), None)] \<Longrightarrow>
   outs_ok f xs (t :: ('e, 'x) pipe)"
  by (simp add: outs_ok_def)

lemma inv_return:
  assumes inv: "pipe_inv n f xs s" and n: "0 < n" and k: "k_pc s = KBody r"
    and s': "s' = s\<lparr>evReady := (evReady s \<and>
        \<not> (\<not> evDone s \<and> r_e (hd (arr s)) = None \<and> r_err (hd (arr s)) = None)),
      outs := outs s @ [(r_e r, r_err r)], k_pc := (if r_e r = None then KStop else KReady)\<rparr>"
  shows "pipe_inv n f xs (s' :: ('e, 'x) pipe)"
proof -
  have c: "r_e r = r_e (final f xs (taken s) :: ('e, 'x) prec)" "r_err r = None"
    "taken s \<le> Suc (length xs)" "evReady s" "outs_ok f xs s"
    using inv k by (simp_all add: pipe_inv_def consumer_ok_def)
  have tk0: "taken s = Suc (length (outs s))" by (simp add: taken_def k)
  have nil: "r_e r = None \<longleftrightarrow> taken s = Suc (length xs)"
    using c(1,3) tk0 by (auto simp: final_def source_def)
  have f: "index s' = index s" "arr s' = arr s" "c_pc s' = c_pc s" "smHeld s' = smHeld s"
    "finished s' = finished s" "outs s' = outs s @ [(r_e r, r_err r)]"
    "k_pc s' = (if r_e r = None then KStop else KReady)"
    "evReady s' = (evReady s \<and> \<not> (\<not> evDone s \<and> r_e (hd (arr s)) = None \<and> r_err (hd (arr s)) = None))"
    by (simp_all add: s')
  have tk: "taken s' = taken s" by (simp add: s' taken_def k)
  have fl: "flight f s' = flight f s" "pending f s' = pending f s" by (simp_all add: s' flight_def pending_def)
  have pl: "placed f s' p = placed f s p" for p by (simp add: placed_def fl tk f)
  have "flight_ok f xs s'" "arr_ok n f xs s'"
    using inv by (simp_all add: pipe_inv_def flight_ok_def arr_ok_def fl pl tk f)
  moreover have "consume_ok n xs s' = consume_ok n xs s"
    by (rule consume_ok_view) (simp_all add: tk f)
  moreover have ev: "evDone s = finished s" using inv by (simp add: pipe_inv_def end_ok_def)
  moreover have "end_ok n f s'"
    using inv c(4) ev fl(1) by (auto simp: pipe_inv_def end_ok_def s')
  moreover have "consumer_ok f xs s'"
  proof -
    have "outs_ok f xs s'" using c f tk0 by (intro outs_ok_snoc [OF c(5)]) simp
    moreover have "hd (arr s) = arr s ! 0"
      using inv n by (cases "arr s") (auto simp: pipe_inv_def arr_ok_def)
    moreover have "r_e (arr s ! 0) = (if placed f s 0 then r_e (final f xs (taken s + 1) :: ('e, 'x) prec) else None)"
      "r_err (arr s ! 0) = None"
      using inv n by (simp_all add: pipe_inv_def arr_ok_def)
    moreover have "r_e (final f xs (taken s + 1) :: ('e, 'x) prec) \<noteq> None" if "taken s < length xs"
      using that by (simp add: final_def source_def)
    ultimately show ?thesis
      using nil c(3,4) ev by (auto simp: consumer_ok_def f tk pl)
  qed
  ultimately show ?thesis using inv by (simp add: pipe_inv_def)
qed

lemma inv_consumer:
  assumes inv: "pipe_inv n f xs s" and n: "0 < n" and step: "consumer_step s = Some s'"
  shows "pipe_inv n f xs s'"
proof (cases "k_pc s")
  case KReady
  then have ready: "evReady s" using step by (simp add: consumer_step_def split: if_splits)
  show ?thesis
    using step KReady ready inv_take [OF inv n KReady ready] by (simp add: consumer_step_def)
next
  case (KBody r)
  with step show ?thesis by (intro inv_return [OF inv n KBody]) (simp add: consumer_step_def)
next
  case KStop
  with step show ?thesis by (simp add: consumer_step_def)
qed

theorem inv_step:
  assumes "pipe_inv n f xs s" "0 < n" "pipe_step n (source xs) (\<lambda>x. Some (f x)) s s'"
  shows "pipe_inv n f xs s'"
  using assms(3,1,2)
  by (cases rule: pipe_step.cases)
    (auto intro: inv_consume inv_process inv_closer inv_placer inv_finisher inv_consumer)

lemma inv_reachable:
  assumes "Pipeliner m = Inr s0" "0 < m" "(pipe_step (nat m) (source xs) (\<lambda>x. Some (f x)))\<^sup>*\<^sup>* s0 s"
  shows "pipe_inv (nat m) f xs s"
  using assms(3)
proof (induction rule: rtranclp_induct)
  case base
  show ?case by (rule initial_inv [OF assms(1,2)])
next
  case (step y z)
  then show ?case using inv_step [of "nat m" f xs y z] assms(2) by simp
qed

section \<open>Progress\<close>

lemma no_flight:
  assumes "sending (c_pc s) = []" "chGen s = []" "chReady s = []" "placer_held (placer_pc s) = []"
    "\<forall>w \<in> set (workers s). held w = []"
  shows "flight f s = {#}"
proof -
  have "concat (map held (workers s)) = []" using assms(5) by simp
  then show ?thesis using assms(1-4) by (simp add: flight_def)
qed

lemma progress:
  assumes inv: "pipe_inv n f xs s" and n: "0 < n" and k: "k_pc s \<noteq> KStop"
  shows "\<exists>s'. pipe_step n (source xs) (\<lambda>x. Some (f x)) s s'"
proof (rule ccontr)
  assume stuck: "\<not> ?thesis"
  have np: "\<not> panicked s" and lw: "length (workers s) = n" using inv by (simp_all add: pipe_inv_def end_ok_def)
  have none: "sched_step n (source xs) (\<lambda>x. Some (f x)) c s = None" for c
    using stuck pipe_step_iff by (cases "sched_step n (source xs) (\<lambda>x. Some (f x)) c s") blast+
  have kr: "k_pc s = KReady" and ev: "\<not> evReady s"
    using none [of Consumer] k np
    by (auto simp: sched_step_def consumer_step_def split: consumer_pc.splits if_splits)
  then have nf: "\<not> finished s" using inv by (auto simp: pipe_inv_def end_ok_def)
  have pl: "placer_pc s = PExit \<or> placer_pc s = PIdle \<and> chReady s = [] \<and> \<not> readyClosed s"
    using none [of Placer] np kr
    by (auto simp: sched_step_def placer_step_def split: placer_pc.splits list.splits if_splits option.splits)
  then have cr: "chReady s = []" using inv by (auto simp: pipe_inv_def end_ok_def)
  have wk: "w = WExit \<or> w = WIdle \<and> chGen s = [] \<and> c_pc s \<noteq> CExit" if "w \<in> set (workers s)" for w
  proof -
    from that obtain j where "j < length (workers s)" "workers s ! j = w" by (auto simp: in_set_conv_nth)
    then show ?thesis
      using none [of "Process j"] np cr n
      by (auto simp: sched_step_def process_step_def split: worker_pc.splits list.splits if_splits)
  qed
  show False
  proof (cases "list_all (\<lambda>w. w = WExit) (workers s)")
    case True
    moreover have "WExit \<in> set (workers s)" using True lw n by (cases "workers s") auto
    then have "c_pc s = CExit" using inv by (simp add: pipe_inv_def end_ok_def)
    ultimately show False
      using none [of Closer] none [of Finisher] pl np nf kr
      by (auto simp: sched_step_def closer_step_def finisher_step_def split: if_splits)
  next
    case False
    then obtain w where "w \<in> set (workers s)" "w \<noteq> WExit" by (auto simp: list_all_iff)
    then have g: "chGen s = []" "c_pc s \<noteq> CExit" "placer_pc s \<noteq> PExit"
      using wk False inv by (auto simp: pipe_inv_def end_ok_def)
    have acq: "c_pc s = CAcquire" "n \<le> smHeld s"
      using none [of Consume] np g n inv
      by (auto simp: sched_step_def consume_step_def pipe_inv_def consume_ok_def Let_def
          split: consume_pc.splits if_splits prod.splits)
    have "\<forall>w \<in> set (workers s). held w = []" using wk by fastforce
    then have "flight f s = {#}"
      using acq g(1) cr pl g(3) by (intro no_flight) auto
    moreover have "smHeld s + taken s = index s" "index s \<le> length xs"
      using inv acq(1) by (simp_all add: pipe_inv_def consume_ok_def)
    ultimately have "placed f s 0" "taken s < length xs"
      using acq(2) n by (auto simp: placed_def pending_def)
    then show False using inv kr ev by (simp add: pipe_inv_def consumer_ok_def)
  qed
qed

section \<open>Termination\<close>

fun consume_weight :: "('e, 'x) consume_pc \<Rightarrow> nat" where
  "consume_weight CLoop = 3"
| "consume_weight CAcquire = 2"
| "consume_weight CCheck = 1"
| "consume_weight (CSend r) = 11"
| "consume_weight CSetDone = 1"
| "consume_weight CExit = 0"

fun worker_weight :: "('e, 'x) worker_pc \<Rightarrow> nat" where
  "worker_weight WIdle = 1"
| "worker_weight (WHold r) = 6"
| "worker_weight WExit = 0"

fun placer_weight :: "('e, 'x) placer_pc \<Rightarrow> nat" where
  "placer_weight PIdle = 1"
| "placer_weight (PHold r) = 4"
| "placer_weight PExit = 0"

definition pipe_measure :: "'e list \<Rightarrow> ('e, 'x) pipe \<Rightarrow> nat" where
  "pipe_measure xs s =
     20 * (Suc (length xs) - index s) + consume_weight (c_pc s) + 6 * length (chGen s) +
     sum_list (map worker_weight (workers s)) + 4 * length (chReady s) +
     placer_weight (placer_pc s) + (if readyClosed s then 0 else 1) + (if finished s then 0 else 1) +
     3 * (Suc (length xs) - length (outs s)) + (if k_pc s = KReady then 1 else 0)"

lemma sum_worker_update:
  assumes "j < length ws"
  shows "sum_list (map worker_weight (ws[j := w])) + worker_weight (ws ! j) =
    sum_list (map worker_weight ws) + worker_weight w"
  using assms
proof (induction ws arbitrary: j)
  case (Cons v ws)
  then show ?case by (cases j) auto
qed simp

lemma measure_consume:
  assumes inv: "pipe_inv n f xs s" and step: "consume_step n (source xs) s = Some s'"
  shows "pipe_measure xs s' < pipe_measure xs s"
proof (cases "c_pc s")
  case CLoop
  with step show ?thesis by (auto simp: consume_step_def pipe_measure_def)
next
  case CAcquire
  with step show ?thesis by (auto simp: consume_step_def pipe_measure_def split: if_splits)
next
  case CCheck
  then have "index s \<le> length xs" "\<not> evDone s"
    using inv evDone_iff [of n f s] by (simp_all add: pipe_inv_def consume_ok_def)
  with step CCheck show ?thesis by (auto simp: consume_step_def pipe_measure_def Let_def source_def)
next
  case (CSend r)
  with step show ?thesis by (auto simp: consume_step_def pipe_measure_def split: if_splits)
next
  case CSetDone
  with step show ?thesis by (auto simp: consume_step_def pipe_measure_def)
next
  case CExit
  with step show ?thesis by (simp add: consume_step_def)
qed

lemma measure_process:
  assumes step: "process_step n g j s = Some s'"
  shows "pipe_measure xs s' < pipe_measure xs s"
proof -
  have j: "j < length (workers s)" using step by (simp add: process_step_def split: if_splits)
  note upd = sum_worker_update [OF j]
  show ?thesis
  proof (cases "workers s ! j")
    case WIdle
    show ?thesis
    proof (cases "chGen s")
      case Nil
      then show ?thesis
        using step j WIdle upd [of WExit] by (auto simp: process_step_def pipe_measure_def split: if_splits)
    next
      case (Cons r rest)
      then show ?thesis
        using step j WIdle upd [of "WHold (r\<lparr>r_e := Option.bind (r_e r) g\<rparr>)"]
        by (auto simp: process_step_def pipe_measure_def)
    qed
  next
    case (WHold r)
    then show ?thesis
      using step j upd [of WIdle] by (auto simp: process_step_def pipe_measure_def split: if_splits)
  next
    case WExit
    then show ?thesis using step j by (simp add: process_step_def)
  qed
qed

lemma measure_placer:
  assumes inv: "pipe_inv n f xs s" and step: "placer_step s = Some s'"
  shows "pipe_measure xs s' < pipe_measure xs s"
proof (cases "placer_pc s")
  case PIdle
  with step show ?thesis
    by (auto simp: placer_step_def pipe_measure_def split: list.splits if_splits)
next
  case (PHold r)
  then have k: "\<forall>r. k_pc s \<noteq> KBody r" using step by (auto simp: placer_step_def)
  then obtain p where "place (arr s) r = Some ((arr s)[p := r], p = 0)"
    using inv_place [OF inv PHold] by blast
  with step PHold k show ?thesis
    by (auto simp: placer_step_def pipe_measure_def split: consumer_pc.splits)
next
  case PExit
  with step show ?thesis by (simp add: placer_step_def)
qed

lemma measure_consumer:
  assumes inv: "pipe_inv n f xs s" and n: "0 < n" and step: "consumer_step s = Some s'"
  shows "pipe_measure xs s' < pipe_measure xs s"
proof (cases "k_pc s")
  case KReady
  then have "evReady s" using step by (simp add: consumer_step_def split: if_splits)
  with inv_take(1) [OF inv n KReady] step KReady show ?thesis
    by (auto simp: consumer_step_def pipe_measure_def)
next
  case (KBody r)
  then have "length (outs s) < Suc (length xs)"
    using inv by (simp add: pipe_inv_def consumer_ok_def taken_def)
  with step KBody show ?thesis by (auto simp: consumer_step_def pipe_measure_def)
next
  case KStop
  with step show ?thesis by (simp add: consumer_step_def)
qed

lemma measure_step:
  assumes "pipe_inv n f xs s" "0 < n" "pipe_step n (source xs) (\<lambda>x. Some (f x)) s s'"
  shows "pipe_measure xs s' < pipe_measure xs s"
  using assms(3)
proof (cases rule: pipe_step.cases)
  case s_consume
  then show ?thesis using measure_consume assms(1) by blast
next
  case s_process
  then show ?thesis using measure_process by blast
next
  case s_closer
  then show ?thesis by (auto simp: closer_step_def pipe_measure_def split: if_splits)
next
  case s_placer
  then show ?thesis using measure_placer assms(1) by blast
next
  case s_finisher
  then show ?thesis by (auto simp: finisher_step_def pipe_measure_def split: if_splits)
next
  case s_consumer
  then show ?thesis using measure_consumer assms(1,2) by blast
qed

section \<open>Properties\<close>

text \<open>What a consumer of the pipeline has to get in the end.\<close>

definition all_outs :: "('e \<Rightarrow> 'e) \<Rightarrow> 'e list \<Rightarrow> ('e option \<times> 'x option) list" where
  "all_outs f xs = map (\<lambda>x. (Some (f x), None)) xs @ [(None, None)]"

lemma final_all_outs:
  "map (\<lambda>i. (r_e (final f xs i :: ('e, 'x) prec), None)) [1 ..< Suc (Suc (length xs))] =
     (all_outs f xs :: ('e option \<times> 'x option) list)"
proof -
  have idx: "[1 ..< Suc (Suc (length xs))] = map Suc [0 ..< length xs] @ [Suc (length xs)]"
    by (simp add: map_Suc_upt)
  have "map (\<lambda>i. (r_e (final f xs i :: ('e, 'x) prec), None :: 'x option)) (map Suc [0 ..< length xs]) =
      map (\<lambda>x. (Some (f x), None)) xs"
    by (rule nth_equalityI) (simp_all add: final_def source_def)
  then show ?thesis unfolding idx by (simp add: all_outs_def final_def source_def)
qed

lemma outs_prefix:
  assumes "outs_ok f xs s" "length (outs s) \<le> Suc (length xs)"
  shows "outs s = take (length (outs s)) (all_outs f xs)"
proof -
  have "outs s = map (\<lambda>i. (r_e (final f xs i :: ('a, 'b) prec), None)) (take (length (outs s)) [1 ..< Suc (Suc (length xs))])"
    using assms by (subst (1) assms(1) [unfolded outs_ok_def]) (simp add: take_upt del: upt_Suc)
  then show ?thesis by (simp only: final_all_outs [symmetric] take_map)
qed

lemma Pipeliner_size: "Pipeliner m = Inr s0 \<Longrightarrow> 0 < m"
  by (simp add: Pipeliner_def split: if_splits)

lemma inv_outs:
  assumes "pipe_inv n f xs s"
  shows "outs s = take (length (outs s)) (all_outs f xs)" "k_pc s = KStop \<longrightarrow> outs s = all_outs f xs"
proof -
  have ok: "outs_ok f xs s" and len: "length (outs s) \<le> Suc (length xs)"
    using assms by (auto simp: pipe_inv_def consumer_ok_def taken_def split: consumer_pc.splits)
  show "outs s = take (length (outs s)) (all_outs f xs)" by (rule outs_prefix [OF ok len])
  show "k_pc s = KStop \<longrightarrow> outs s = all_outs f xs"
    using assms outs_prefix [OF ok len] by (auto simp: pipe_inv_def consumer_ok_def taken_def all_outs_def)
qed

text \<open>C1: in every interleaving of the goroutines, for a generator that gives the elements of a list
  and then nil and a mapper that never returns nil, nothing panics, what the consumer has received
  is at every moment a prefix of the mapped elements in the order they were generated with the nil
  element at the end, without errors, and a consumer that has stopped has received all of it.\<close>

theorem pipeliner_in_order:
  assumes "Pipeliner m = Inr s0"
    and "(pipe_step (nat m) (source xs) (\<lambda>x. Some (f x)))\<^sup>*\<^sup>* s0 s"
  shows "\<not> panicked s \<and> outs s = take (length (outs s)) (all_outs f xs) \<and>
    (k_pc s = KStop \<longrightarrow> outs s = all_outs f xs)"
proof -
  have "pipe_inv (nat m) f xs s"
    using inv_reachable [OF assms(1) Pipeliner_size [OF assms(1)] assms(2)] .
  moreover from this have "\<not> panicked s" by (simp add: pipe_inv_def end_ok_def)
  ultimately show ?thesis using inv_outs by blast
qed

lemma run_bound:
  assumes "Pipeliner m = Inr s0"
    and "((pipe_step (nat m) (source xs) (\<lambda>x. Some (f x))) ^^ k) s0 s"
  shows "k + pipe_measure xs s \<le> pipe_measure xs s0"
  using assms(2)
proof (induction k arbitrary: s)
  case (Suc k)
  then obtain s1 where s1: "((pipe_step (nat m) (source xs) (\<lambda>x. Some (f x))) ^^ k) s0 s1"
    "pipe_step (nat m) (source xs) (\<lambda>x. Some (f x)) s1 s" by auto
  have "pipe_inv (nat m) f xs s1"
    using inv_reachable [OF assms(1) Pipeliner_size [OF assms(1)] relpowp_imp_rtranclp [OF s1(1)]] .
  then have "pipe_measure xs s < pipe_measure xs s1"
    using measure_step s1(2) Pipeliner_size [OF assms(1)] by fastforce
  then show ?case using Suc.IH [OF s1(1)] by simp
qed simp

lemma initial_measure:
  "Pipeliner m = Inr s0 \<Longrightarrow> pipe_measure xs s0 = 23 * length xs + nat m + 30"
  by (auto simp: Pipeliner_def pipe_measure_def sum_list_replicate map_replicate split: if_splits)

text \<open>C2: for a generator that gives the elements of a list without an error and then nil, and a mapper that never returns
  nil, the pipeline completes under every schedule: a run has at most
  \<open>23 * length xs + nParallel + 30\<close> steps, and a run that cannot go on has delivered every mapped
  element in order and then the nil element; there is no deadlock. With an error of the generator this does not hold:
  \<open>pipeliner_loses_error\<close>.\<close>

theorem pipeliner_completes:
  assumes "Pipeliner m = Inr s0"
    and "((pipe_step (nat m) (source xs) (\<lambda>x. Some (f x))) ^^ k) s0 s"
  shows "k \<le> 23 * length xs + nat m + 30 \<and>
    ((\<nexists>s'. pipe_step (nat m) (source xs) (\<lambda>x. Some (f x)) s s') \<longrightarrow>
      k_pc s = KStop \<and> outs s = all_outs f xs)"
proof -
  have inv: "pipe_inv (nat m) f xs s"
    using inv_reachable [OF assms(1) Pipeliner_size [OF assms(1)] relpowp_imp_rtranclp [OF assms(2)]] .
  have "k_pc s = KStop" if "\<nexists>s'. pipe_step (nat m) (source xs) (\<lambda>x. Some (f x)) s s'"
    using progress [OF inv] that Pipeliner_size [OF assms(1)] by fastforce
  then show ?thesis
    using inv_outs(2) [OF inv] run_bound [OF assms] initial_measure [OF assms(1), of xs] by auto
qed

definition start2 :: "(nat, unit) pipe" where
  "start2 = \<lparr>c_pc = CLoop, index = 0, smHeld = 0, chGen = [], workers = [WIdle, WIdle],
      chReady = [], readyClosed = False, placer_pc = PIdle, arr = [empty_rec 1, empty_rec 2],
      evReady = False, evDone = False, finished = False, k_pc = KReady, outs = [], panicked = False\<rparr>"

lemma Pipeliner_2: "Pipeliner 2 = Inr start2"
  by (simp add: Pipeliner_def start2_def numeral_2_eq_2)

lemma pipeliner_in_order_witness:
  "\<exists>s. (pipe_step 2 (source [7]) (\<lambda>x. Some (Suc x)))\<^sup>*\<^sup>* start2 s \<and> outs s = [(Some 8, None)]"
proof -
  let ?run = "replicate 4 Consume @ [Process 1, Process 1, Placer, Placer, Consumer, Consumer]"
  obtain s where s: "follow 2 (source [7]) (\<lambda>x. Some (Suc x)) ?run start2 = Some s" "length (outs s) = 1"
    by (simp add: start2_def sched_step_def consume_step_def process_step_def placer_step_def
        consumer_step_def place_def shift_arr_def empty_rec_def source_def numeral_eq_Suc)
  from follow_steps [OF s(1)] have r: "(pipe_step 2 (source [7]) (\<lambda>x. Some (Suc x)))\<^sup>*\<^sup>* start2 s" .
  then show ?thesis
    using pipeliner_in_order [OF Pipeliner_2, of "[7]" Suc s] s(2) by (auto simp: all_outs_def)
qed

lemma pipeliner_completes_witness:
  "\<exists>s. ((pipe_step 2 (source [7]) (\<lambda>x. Some (Suc x))) ^^ 25) start2 s \<and>
    k_pc s = KStop \<and> outs s = [(Some 8, None), (None, None)]"
proof -
  let ?run = "replicate 8 Consume @ [Process 0, Process 0, Process 1, Process 1] @
    replicate 4 Placer @ [Process 0, Process 1, Closer, Placer, Finisher] @ replicate 4 Consumer"
  let ?G = "source [7]" and ?P = "\<lambda>x. Some (Suc x)"
  note unfold = start2_def sched_step_def consume_step_def process_step_def placer_step_def
    closer_step_def finisher_step_def consumer_step_def place_def shift_arr_def empty_rec_def source_def
  have "\<exists>s. follow 2 ?G ?P ?run start2 = Some s \<and> (\<forall>c. sched_step 2 ?G ?P c s = None)"
    by (simp add: unfold numeral_eq_Suc split: sched.split) (simp add: nth_Cons' less_Suc_eq)
  then obtain s where s: "follow 2 ?G ?P ?run start2 = Some s" "\<And>c. sched_step 2 ?G ?P c s = None"
    by blast
  have "((pipe_step 2 ?G ?P) ^^ 25) start2 s" using follow_relpowp [OF s(1)] by simp
  moreover have "\<nexists>s'. pipe_step 2 ?G ?P s s'" using s(2) by (simp add: pipe_step_iff)
  ultimately show ?thesis
    using pipeliner_completes [OF Pipeliner_2, where xs = "[7]" and f = Suc and k = 25 and s = s] by (auto simp: all_outs_def)
qed

end
