(* ===== verification/Pipeline_Close.thy ===== *)
theory Pipeline_Close
  imports Pipeline_Order
begin

text \<open>
  The close function that \<open>Pipeliner\<close> returns: it sets \<open>evDone\<close>, releases one permit of the semaphore in a goroutine of its
  own, and waits for the goroutines of the pipeline. Whatever the pipeline was doing, the wait comes to an end and nothing
  panics. The proof follows a pipeline that was not closed: \<open>consume\<close> of the closed one has left, that of the other one
  is taken to stand still.
\<close>

section \<open>Closing\<close>

definition close_begin :: "('e, 'x) pipe \<Rightarrow> ('e, 'x) pipe" where
  "close_begin s = s\<lparr>evDone := True\<rparr>"

text \<open>
  A release of a permit that nobody holds panics; the panic is recovered, and with no permit held the next acquisition
  does not wait.
\<close>

definition release_step :: "('e, 'x) pipe \<Rightarrow> ('e, 'x) pipe" where
  "release_step s = (if smHeld s = 0 then s else s\<lparr>smHeld := smHeld s - 1\<rparr>)"

text \<open>The goroutines that the wait group counts: \<open>consume\<close>, the workers and \<open>placer\<close>.\<close>

definition wg_finished :: "('e, 'x) pipe \<Rightarrow> bool" where
  "wg_finished s \<longleftrightarrow> c_pc s = CExit \<and> list_all (\<lambda>w. w = WExit) (workers s) \<and> placer_pc s = PExit"

text \<open>
  The steps while the closer waits: those of the goroutines, and once the release. The consumer is the one that closes, so
  it takes no more elements. The flag says that the permit was released.
\<close>

inductive close_step ::
    "nat \<Rightarrow> (nat \<Rightarrow> 'e option \<times> 'x option) \<Rightarrow> ('e \<Rightarrow> 'e option) \<Rightarrow> ('e, 'x) pipe \<times> bool \<Rightarrow> ('e, 'x) pipe \<times> bool \<Rightarrow> bool"
  for n gen proc where
  cl_goroutine: "c \<noteq> Consumer \<Longrightarrow> sched_step n gen proc c s = Some s' \<Longrightarrow> close_step n gen proc (s, b) (s', b)"
| cl_release: "\<not> panicked s \<Longrightarrow> close_step n gen proc (s, False) (release_step s, True)"

section \<open>The pipeline that is not closed\<close>

definition resting :: "('e, 'x) consume_pc \<Rightarrow> bool" where
  "resting c \<longleftrightarrow> c = CLoop \<or> c = CAcquire \<or> c = CCheck"

definition shadows :: "('e, 'x) pipe \<Rightarrow> ('e, 'x) pipe \<Rightarrow> bool" where
  "shadows s t \<longleftrightarrow> chGen s = chGen t \<and> chReady s = chReady t \<and> arr s = arr t \<and> outs s = outs t \<and> k_pc s = k_pc t \<and>
     (c_pc s = c_pc t \<or> (resting (c_pc s) \<or> c_pc s = CExit) \<and> resting (c_pc t)) \<and>
     list_all2 (\<lambda>v w. v = w \<or> v = WExit \<and> w = WIdle) (workers s) (workers t) \<and>
     (placer_pc s = placer_pc t \<or> placer_pc s = PExit \<and> placer_pc t = PIdle) \<and> \<not> panicked s"

text \<open>What progress needs.\<close>

definition close_ok :: "nat \<Rightarrow> ('e, 'x) pipe \<times> bool \<Rightarrow> bool" where
  "close_ok n cs \<longleftrightarrow> (case cs of (s, released) \<Rightarrow>
     evDone s \<and> length (workers s) = n \<and> smHeld s \<le> n \<and> c_pc s \<noteq> CSetDone \<and> (\<forall>r. c_pc s = CSend r \<longrightarrow> r_err r = None) \<and> (\<forall>r. k_pc s \<noteq> KBody r) \<and>
     (WExit \<in> set (workers s) \<longrightarrow> c_pc s = CExit) \<and>
     (readyClosed s \<longrightarrow> list_all (\<lambda>w. w = WExit) (workers s)) \<and>
     (placer_pc s = PExit \<longrightarrow> readyClosed s) \<and>
     (released \<and> c_pc s = CAcquire \<longrightarrow> smHeld s < n))"

definition close_inv :: "nat \<Rightarrow> ('e \<Rightarrow> 'e) \<Rightarrow> 'e list \<Rightarrow> ('e, 'x) pipe \<times> bool \<Rightarrow> bool" where
  "close_inv n f xs cs \<longleftrightarrow> close_ok n cs \<and> (\<exists>t. pipe_inv n f xs t \<and> shadows (fst cs) t)"

lemma shadows_stay:
  assumes "shadows s t" "chGen s' = chGen s" "chReady s' = chReady s" "arr s' = arr s" "outs s' = outs s" "k_pc s' = k_pc s"
    "workers s' = workers s" "placer_pc s' = placer_pc s" "\<not> panicked s'"
    "c_pc s' = c_pc s \<or> resting (c_pc s) \<and> (resting (c_pc s') \<or> c_pc s' = CExit)"
  shows "shadows s' t"
  using assms by (auto simp: shadows_def)

lemma close_inv_begin:
  assumes "pipe_inv n f xs s" "\<forall>r. k_pc s \<noteq> KBody r"
  shows "close_inv n f xs (close_begin s, False)"
proof -
  have "shadows (close_begin s) s"
    using assms(1) by (auto simp: shadows_def close_begin_def pipe_inv_def end_ok_def list_all2_refl)
  moreover have "close_ok n (close_begin s, False)"
    using assms by (auto simp: close_ok_def close_begin_def pipe_inv_def end_ok_def consume_ok_def)
  ultimately show ?thesis using assms(1) by (auto simp: close_inv_def)
qed

section \<open>Preservation\<close>

text \<open>The steps of \<open>consume\<close>, a worker and \<open>placer\<close>, one by one.\<close>

lemma consume_cases:
  assumes "consume_step n gen s = Some s'" "evDone s"
  obtains "c_pc s = CLoop \<or> c_pc s = CCheck" "s' = s\<lparr>c_pc := CExit\<rparr>"
  | "c_pc s = CAcquire" "smHeld s < n" "s' = s\<lparr>smHeld := smHeld s + 1, c_pc := CCheck\<rparr>"
  | r where "c_pc s = CSend r" "length (chGen s) < n"
      "s' = s\<lparr>chGen := chGen s @ [r], c_pc := (if r_err r \<noteq> None then CSetDone else if r_e r = None then CExit else CLoop)\<rparr>"
  | "c_pc s = CSetDone"
  using assms by (auto simp: consume_step_def split: consume_pc.splits if_splits)

lemma process_cases:
  assumes "process_step n proc j s = Some s'"
  obtains r rest where "j < length (workers s)" "workers s ! j = WIdle" "chGen s = r # rest"
      "s' = s\<lparr>chGen := rest, workers := (workers s)[j := WHold (r\<lparr>r_e := Option.bind (r_e r) proc\<rparr>)]\<rparr>"
  | "j < length (workers s)" "workers s ! j = WIdle" "chGen s = []" "c_pc s = CExit" "s' = s\<lparr>workers := (workers s)[j := WExit]\<rparr>"
  | r where "j < length (workers s)" "workers s ! j = WHold r" "length (chReady s) < n"
      "s' = s\<lparr>chReady := chReady s @ [r], workers := (workers s)[j := WIdle]\<rparr>"
  using assms by (auto simp: process_step_def split: worker_pc.splits list.splits if_splits)

lemma placer_cases:
  assumes "placer_step s = Some s'"
  obtains r rest where "placer_pc s = PIdle" "chReady s = r # rest" "s' = s\<lparr>chReady := rest, placer_pc := PHold r\<rparr>"
  | "placer_pc s = PIdle" "chReady s = []" "readyClosed s" "s' = s\<lparr>placer_pc := PExit\<rparr>"
  | r where "placer_pc s = PHold r" "\<forall>r. k_pc s \<noteq> KBody r" "place (arr s) r = None" "s' = s\<lparr>panicked := True\<rparr>"
  | r a ready where "placer_pc s = PHold r" "\<forall>r. k_pc s \<noteq> KBody r" "place (arr s) r = Some (a, ready)"
      "s' = s\<lparr>arr := a, evReady := (evReady s \<or> ready), placer_pc := PIdle\<rparr>"
  using assms by (auto simp: placer_step_def split: placer_pc.splits list.splits if_splits consumer_pc.splits option.splits)

abbreviation exited_or_same :: "('e, 'x) worker_pc list \<Rightarrow> ('e, 'x) worker_pc list \<Rightarrow> bool" where
  "exited_or_same \<equiv> list_all2 (\<lambda>v w. v = w \<or> v = WExit \<and> w = WIdle)"

lemma close_consume:
  assumes inv: "close_inv n f xs (s, b)" and n: "0 < n" and step: "consume_step n (source xs) s = Some s'"
  shows "close_inv n f xs (s', b)"
proof -
  obtain t where t: "pipe_inv n f xs t" "shadows s t" using inv by (auto simp: close_inv_def)
  have ok: "close_ok n (s, b)" and dn: "evDone s" using inv by (auto simp: close_inv_def close_ok_def)
  from step dn show ?thesis
  proof (cases rule: consume_cases)
    case 1
    have "shadows s' t" by (rule shadows_stay [OF t(2)]) (use 1 t(2) in \<open>auto simp: resting_def shadows_def\<close>)
    moreover have "close_ok n (s', b)" using ok 1 by (simp add: close_ok_def)
    ultimately show ?thesis using t(1) by (auto simp: close_inv_def)
  next
    case 2
    have "shadows s' t" by (rule shadows_stay [OF t(2)]) (use 2 t(2) in \<open>auto simp: resting_def shadows_def\<close>)
    moreover have "close_ok n (s', b)" using ok 2 by (simp add: close_ok_def)
    ultimately show ?thesis using t(1) by (auto simp: close_inv_def)
  next
    case (3 r)
    then have rt: "c_pc t = CSend r" "chGen t = chGen s" using t(2) by (auto simp: shadows_def resting_def)
    define t' where "t' = t\<lparr>chGen := chGen t @ [r], c_pc := (if r_err r \<noteq> None then CSetDone else if r_e r = None then CExit else CLoop)\<rparr>"
    have "consume_step n (source xs) t = Some t'"
      using 3 rt by (simp add: consume_step_def t'_def)
    moreover have "\<not> panicked t" using t(1) by (simp add: pipe_inv_def end_ok_def)
    ultimately have "pipe_inv n f xs t'" using inv_step [OF t(1) n] by (blast intro: s_consume)
    moreover have "shadows s' t'" using t(2) 3 rt by (simp add: shadows_def t'_def)
    moreover have "close_ok n (s', b)" using ok 3 by (simp add: close_ok_def)
    ultimately show ?thesis by (auto simp: close_inv_def)
  next
    case 4
    then show ?thesis using ok by (simp add: close_ok_def)
  qed
qed

lemma no_exit_update: "WExit \<notin> set ws \<Longrightarrow> v \<noteq> WExit \<Longrightarrow> WExit \<notin> set (ws[j := v])"
  by (auto dest: set_update_subset_insert [THEN subsetD])

lemma close_process:
  assumes inv: "close_inv n f xs (s, b)" and n: "0 < n" and step: "process_step n (\<lambda>x. Some (f x)) j s = Some s'"
  shows "close_inv n f xs (s', b)"
proof -
  let ?p = "\<lambda>x. Some (f x)"
  obtain t where t: "pipe_inv n f xs t" "shadows s t" using inv by (auto simp: close_inv_def)
  have ok: "close_ok n (s, b)" using inv by (simp add: close_inv_def)
  have np: "\<not> panicked t" using t(1) by (simp add: pipe_inv_def end_ok_def)
  have ws: "exited_or_same (workers s) (workers t)" using t(2) by (simp add: shadows_def)
  have moved: "pipe_inv n f xs t'" if "process_step n ?p j t = Some t'" for t'
    using inv_step [OF t(1) n] np that by (blast intro: s_process)
  have open_chan: "\<not> readyClosed s" if "j < length (workers s)" "workers s ! j \<noteq> WExit"
    using ok that by (auto simp: close_ok_def list_all_length)
  have exits: "WExit \<in> set (workers s) \<longrightarrow> c_pc s = CExit" using ok by (simp add: close_ok_def)
  have same: "workers t ! j = workers s ! j" "j < length (workers t)" if "j < length (workers s)" "workers s ! j \<noteq> WExit"
    using ws that by (auto simp: list_all2_conv_all_nth)
  have upd: "exited_or_same ((workers s)[j := v]) ((workers t)[j := v])" for v
    using ws by (simp add: list_all2_update_cong)
  from step show ?thesis
  proof (cases rule: process_cases)
    case (1 r rest)
    define t' where "t' = t\<lparr>chGen := rest, workers := (workers t)[j := WHold (r\<lparr>r_e := Option.bind (r_e r) ?p\<rparr>)]\<rparr>"
    have ct: "chGen t = r # rest" using 1 t(2) by (simp add: shadows_def)
    have "process_step n ?p j t = Some t'" using 1 same by (simp add: process_step_def t'_def ct)
    moreover have "shadows s' t'" using t(2) 1 upd by (simp add: shadows_def t'_def)
    moreover have "close_ok n (s', b)" using ok 1 open_chan exits no_exit_update [of "workers s"] by (simp add: close_ok_def) blast
    ultimately show ?thesis using moved by (auto simp: close_inv_def)
  next
    case 2
    have "exited_or_same ((workers s)[j := WExit]) (workers t)"
      using ws same 2 by (auto simp: list_all2_conv_all_nth nth_list_update)
    then have "shadows s' t" using t(2) 2 by (simp add: shadows_def)
    moreover have "close_ok n (s', b)" using ok 2 open_chan by (simp add: close_ok_def)
    ultimately show ?thesis using t(1) by (auto simp: close_inv_def)
  next
    case (3 r)
    define t' where "t' = t\<lparr>chReady := chReady t @ [r], workers := (workers t)[j := WIdle]\<rparr>"
    have "process_step n ?p j t = Some t'"
      using 3 same t(2) by (simp add: process_step_def t'_def shadows_def)
    moreover have "shadows s' t'" using t(2) 3 upd by (simp add: shadows_def t'_def)
    moreover have "close_ok n (s', b)" using ok 3 open_chan exits no_exit_update [of "workers s"] by (simp add: close_ok_def) blast
    ultimately show ?thesis using moved by (auto simp: close_inv_def)
  qed
qed

lemma close_placer:
  assumes inv: "close_inv n f xs (s, b)" and n: "0 < n" and step: "placer_step s = Some s'"
  shows "close_inv n f xs (s', b)"
proof -
  obtain t where t: "pipe_inv n f xs t" "shadows s t" using inv by (auto simp: close_inv_def)
  have ok: "close_ok n (s, b)" using inv by (simp add: close_inv_def)
  have np: "\<not> panicked t" using t(1) by (simp add: pipe_inv_def end_ok_def)
  have moved: "pipe_inv n f xs t'" if "placer_step t = Some t'" for t'
    using inv_step [OF t(1) n] np that by (blast intro: s_placer)
  have same: "placer_pc t = placer_pc s" if "placer_pc s \<noteq> PExit" using t(2) that by (auto simp: shadows_def)
  from step show ?thesis
  proof (cases rule: placer_cases)
    case (1 r rest)
    define t' where "t' = t\<lparr>chReady := rest, placer_pc := PHold r\<rparr>"
    have ct: "chReady t = r # rest" using 1 t(2) by (simp add: shadows_def)
    have "placer_step t = Some t'" using 1 same by (simp add: placer_step_def t'_def ct)
    moreover have "shadows s' t'" using t(2) 1 by (simp add: shadows_def t'_def)
    moreover have "close_ok n (s', b)" using ok 1 by (simp add: close_ok_def)
    ultimately show ?thesis using moved by (auto simp: close_inv_def)
  next
    case 2
    have "shadows s' t" using t(2) 2 same by (simp add: shadows_def)
    moreover have "close_ok n (s', b)" using ok 2 by (simp add: close_ok_def)
    ultimately show ?thesis using t(1) by (auto simp: close_inv_def)
  next
    case (3 r)
    then have "placer_step t = Some (t\<lparr>panicked := True\<rparr>)"
      using same t(2) by (simp add: placer_step_def shadows_def split: consumer_pc.split)
    from moved [OF this] show ?thesis by (simp add: pipe_inv_def end_ok_def)
  next
    case (4 r a ready)
    define t' where "t' = t\<lparr>arr := a, evReady := (evReady t \<or> ready), placer_pc := PIdle\<rparr>"
    have "placer_step t = Some t'"
      using 4 same t(2) by (simp add: placer_step_def t'_def shadows_def split: consumer_pc.split)
    moreover have "shadows s' t'" using t(2) 4 by (simp add: shadows_def t'_def)
    moreover have "close_ok n (s', b)" using ok 4 by (simp add: close_ok_def)
    ultimately show ?thesis using moved by (auto simp: close_inv_def)
  qed
qed

lemma close_others:
  assumes inv: "close_inv n f xs (s, b)" and step: "closer_step s = Some s' \<or> finisher_step s = Some s'"
  shows "close_inv n f xs (s', b)"
proof -
  obtain t where t: "pipe_inv n f xs t" "shadows s t" using inv by (auto simp: close_inv_def)
  then have "shadows s' t"
    using step by (intro shadows_stay [OF t(2)]) (auto simp: closer_step_def finisher_step_def shadows_def split: if_splits)
  moreover have "close_ok n (s', b)"
    using inv step by (auto simp: close_inv_def close_ok_def closer_step_def finisher_step_def split: if_splits)
  ultimately show ?thesis using t(1) by (auto simp: close_inv_def)
qed

lemma close_release:
  assumes inv: "close_inv n f xs (s, False)" and n: "0 < n"
  shows "close_inv n f xs (release_step s, True)"
proof -
  obtain t where t: "pipe_inv n f xs t" "shadows s t" using inv by (auto simp: close_inv_def)
  then have "shadows (release_step s) t"
    by (intro shadows_stay [OF t(2)]) (auto simp: release_step_def shadows_def)
  moreover have "close_ok n (release_step s, True)"
    using inv n by (auto simp: close_inv_def close_ok_def release_step_def)
  ultimately show ?thesis using t(1) by (auto simp: close_inv_def)
qed

lemma close_inv_step:
  assumes "close_step n (source xs) (\<lambda>x. Some (f x)) cs cs'" "close_inv n f xs cs" "0 < n"
  shows "close_inv n f xs cs'"
  using assms(1)
proof (cases rule: close_step.cases)
  case (cl_goroutine c s s' b)
  then show ?thesis
    using assms(2,3)
    by (cases c) (auto simp: sched_step_def split: if_splits intro: close_consume close_process close_placer close_others)
next
  case (cl_release s)
  then show ?thesis using assms(2,3) close_release by simp
qed

lemma close_inv_steps:
  assumes "(close_step n (source xs) (\<lambda>x. Some (f x)) ^^ k) cs cs'" "close_inv n f xs cs" "0 < n"
  shows "close_inv n f xs cs'"
  using assms(1)
proof (induction k arbitrary: cs')
  case (Suc k)
  then show ?case using close_inv_step assms(3) by (metis relpowp_Suc_E)
qed (use assms(2) in simp)

section \<open>Progress\<close>

lemma close_progress:
  assumes inv: "close_inv n f xs (s, b)" and n: "0 < n" and stuck: "\<nexists>cs'. close_step n (source xs) (\<lambda>x. Some (f x)) (s, b) cs'"
  shows "wg_finished s"
proof -
  let ?p = "\<lambda>x. Some (f x)"
  have ok: "close_ok n (s, b)" and np: "\<not> panicked s" using inv by (auto simp: close_inv_def shadows_def)
  have b: "b" using stuck np cl_release by (metis (full_types))
  have none: "sched_step n (source xs) ?p c s = None" if "c \<noteq> Consumer" for c
    using stuck that cl_goroutine by (metis not_None_eq)
  have no_body: "\<forall>r. k_pc s \<noteq> KBody r" using ok by (simp add: close_ok_def)
  have pl: "placer_pc s = PExit \<or> placer_pc s = PIdle \<and> chReady s = [] \<and> \<not> readyClosed s"
    using none [of Placer] np no_body
    by (auto simp: sched_step_def placer_step_def split: placer_pc.splits list.splits if_splits option.splits consumer_pc.splits)
  have wk: "w = WExit \<or> w = WIdle \<and> chGen s = [] \<and> c_pc s \<noteq> CExit \<or> (\<exists>r. w = WHold r \<and> chReady s \<noteq> [])" if "w \<in> set (workers s)" for w
  proof -
    from that obtain j where "j < length (workers s)" "workers s ! j = w" by (auto simp: in_set_conv_nth)
    then show ?thesis
      using none [of "Process j"] np n
      by (auto simp: sched_step_def process_step_def split: worker_pc.splits list.splits if_splits)
  qed
  have all_exit: "list_all (\<lambda>w. w = WExit) (workers s)" if "placer_pc s = PExit"
    using ok that by (simp add: close_ok_def)
  have lw: "workers s \<noteq> []" using ok n by (auto simp: close_ok_def)
  have exits: "c_pc s = CExit" if "list_all (\<lambda>w. w = WExit) (workers s)"
  proof -
    have "WExit \<in> set (workers s)" using that lw by (cases "workers s") auto
    then show ?thesis using ok by (simp add: close_ok_def)
  qed
  show ?thesis
  proof (cases "placer_pc s = PExit")
    case True
    then show ?thesis using all_exit exits by (simp add: wg_finished_def)
  next
    case False
    then have idle: "chReady s = []" "\<not> readyClosed s" using pl by auto
    have "\<not> list_all (\<lambda>w. w = WExit) (workers s)"
      using none [of Closer] np idle by (auto simp: sched_step_def closer_step_def split: if_splits)
    then have g: "chGen s = []" "c_pc s \<noteq> CExit" using wk idle(1) by (auto simp: list_all_iff)
    have "consume_step n (source xs) s = None" using none [of Consume] np by (simp add: sched_step_def)
    moreover have "c_pc s \<noteq> CSetDone" "c_pc s = CAcquire \<longrightarrow> smHeld s < n" using ok b by (auto simp: close_ok_def)
    ultimately have False using g n by (cases "c_pc s") (simp_all add: consume_step_def Let_def split: if_splits prod.splits)
    then show ?thesis ..
  qed
qed

section \<open>Termination\<close>

fun close_consume_weight :: "('e, 'x) consume_pc \<Rightarrow> nat" where
  "close_consume_weight CLoop = 1"
| "close_consume_weight CAcquire = 3"
| "close_consume_weight CCheck = 2"
| "close_consume_weight (CSend r) = 6"
| "close_consume_weight CSetDone = 1"
| "close_consume_weight CExit = 0"

fun close_worker_weight :: "('e, 'x) worker_pc \<Rightarrow> nat" where
  "close_worker_weight WIdle = 1"
| "close_worker_weight (WHold r) = 4"
| "close_worker_weight WExit = 0"

fun close_placer_weight :: "('e, 'x) placer_pc \<Rightarrow> nat" where
  "close_placer_weight PIdle = 1"
| "close_placer_weight (PHold r) = 2"
| "close_placer_weight PExit = 0"

definition close_measure :: "('e, 'x) pipe \<times> bool \<Rightarrow> nat" where
  "close_measure cs = (case cs of (s, released) \<Rightarrow>
     close_consume_weight (c_pc s) + 4 * length (chGen s) + sum_list (map close_worker_weight (workers s)) +
     2 * length (chReady s) + close_placer_weight (placer_pc s) +
     (if readyClosed s then 0 else 1) + (if finished s then 0 else 1) + (if released then 0 else 1))"

lemma close_workers_update:
  "j < length ws \<Longrightarrow> sum_list (map close_worker_weight (ws[j := w])) + close_worker_weight (ws ! j) =
    sum_list (map close_worker_weight ws) + close_worker_weight w"
proof (induction ws arbitrary: j)
  case (Cons v ws)
  then show ?case by (cases j) auto
qed simp

lemma close_measure_step:
  assumes "close_step n (source xs) (\<lambda>x. Some (f x)) cs cs'" "close_inv n f xs cs" "close_inv n f xs cs'"
  shows "close_measure cs' < close_measure cs"
  using assms(1)
proof (cases rule: close_step.cases)
  case (cl_release s)
  then show ?thesis by (simp add: close_measure_def release_step_def)
next
  case (cl_goroutine c s s' b)
  have dn: "evDone s" "c_pc s \<noteq> CSetDone" "\<not> panicked s" "\<not> panicked s'"
    using assms(2,3) cl_goroutine by (auto simp: close_inv_def close_ok_def shadows_def)
  show ?thesis
  proof (cases c)
    case Consume
    then have "consume_step n (source xs) s = Some s'" using cl_goroutine(4) dn by (simp add: sched_step_def)
    from this dn(1) show ?thesis
    proof (cases rule: consume_cases)
      case 1
      then show ?thesis using cl_goroutine by (auto simp: close_measure_def)
    qed (use dn cl_goroutine in \<open>simp_all add: close_measure_def\<close>)
  next
    case (Process j)
    then have "process_step n (\<lambda>x. Some (f x)) j s = Some s'" using cl_goroutine(4) dn by (simp add: sched_step_def)
    then show ?thesis
    proof (cases rule: process_cases)
      case (1 r rest)
      then show ?thesis
        using cl_goroutine close_workers_update [of j "workers s" "WHold (r\<lparr>r_e := Option.bind (r_e r) (\<lambda>x. Some (f x))\<rparr>)"]
        by (simp add: close_measure_def)
    next
      case 2
      then show ?thesis using cl_goroutine close_workers_update [of j "workers s" WExit] by (simp add: close_measure_def)
    next
      case (3 r)
      then show ?thesis using cl_goroutine close_workers_update [of j "workers s" WIdle] by (simp add: close_measure_def)
    qed
  next
    case Placer
    then have "placer_step s = Some s'" using cl_goroutine(4) dn by (simp add: sched_step_def)
    then show ?thesis by (cases rule: placer_cases) (use dn cl_goroutine in \<open>simp_all add: close_measure_def\<close>)
  qed (use dn cl_goroutine in \<open>auto simp: sched_step_def closer_step_def finisher_step_def close_measure_def split: if_splits\<close>)
qed

lemma close_bound:
  assumes "(close_step n (source xs) (\<lambda>x. Some (f x)) ^^ k) cs cs'" "close_inv n f xs cs" "0 < n"
  shows "k + close_measure cs' \<le> close_measure cs"
  using assms(1)
proof (induction k arbitrary: cs')
  case (Suc k)
  then obtain cs1 where cs1: "(close_step n (source xs) (\<lambda>x. Some (f x)) ^^ k) cs cs1"
    "close_step n (source xs) (\<lambda>x. Some (f x)) cs1 cs'" by auto
  have "close_inv n f xs cs1" using close_inv_steps [OF cs1(1) assms(2,3)] .
  then have "close_measure cs' < close_measure cs1"
    using close_measure_step [OF cs1(2)] close_inv_step [OF cs1(2) _ assms(3)] by blast
  then show ?case using Suc.IH [OF cs1(1)] by simp
qed simp

lemma close_outs_step: "close_step n gen proc cs cs' \<Longrightarrow> outs (fst cs') = outs (fst cs)"
proof (induction rule: close_step.induct)
  case (cl_goroutine c s s' b)
  then show ?case
    by (cases c) (auto simp: sched_step_def consume_step_def process_step_def placer_step_def closer_step_def
        finisher_step_def Let_def split: consume_pc.splits worker_pc.splits placer_pc.splits consumer_pc.splits
          list.splits option.splits prod.splits if_splits)
qed (simp add: release_step_def)

lemma close_outs: "(close_step n gen proc ^^ k) cs cs' \<Longrightarrow> outs (fst cs') = outs (fst cs)"
proof (induction k arbitrary: cs')
  case (Suc k)
  then show ?case using close_outs_step by (metis relpowp_Suc_E)
qed simp

text \<open>C3: for a generator that gives the elements of a list without an error and then nil, and a mapper that never returns
  nil, closing a pipeline returns: from every state that a run reaches with no call of the generator under way, under
  every schedule, nothing panics, nothing more is delivered, the number of steps is bounded, and when no goroutine can take a
  step all those that the wait group counts have returned, so that the wait of the close function is over.\<close>

theorem pipeliner_close_returns:
  assumes "Pipeliner m = Inr s0" "(pipe_step (nat m) (source xs) (\<lambda>x. Some (f x)))\<^sup>*\<^sup>* s0 s" "\<forall>r. k_pc s \<noteq> KBody r"
    and "(close_step (nat m) (source xs) (\<lambda>x. Some (f x)) ^^ k) (close_begin s, False) (t, b)"
  shows "\<not> panicked t \<and> outs t = outs s \<and> k \<le> close_measure (close_begin s, False) \<and>
    ((\<nexists>cs'. close_step (nat m) (source xs) (\<lambda>x. Some (f x)) (t, b) cs') \<longrightarrow> wg_finished t)"
proof -
  have n: "0 < nat m" using Pipeliner_size [OF assms(1)] by simp
  have start: "close_inv (nat m) f xs (close_begin s, False)"
    using close_inv_begin [OF inv_reachable [OF assms(1) Pipeliner_size [OF assms(1)] assms(2)] assms(3)] .
  from close_inv_steps [OF assms(4) start n] have inv: "close_inv (nat m) f xs (t, b)" .
  then have "\<not> panicked t" by (auto simp: close_inv_def shadows_def)
  moreover have "outs t = outs s" using close_outs [OF assms(4)] by (simp add: close_begin_def)
  ultimately show ?thesis
    using close_bound [OF assms(4) start n] close_progress [OF inv n] by simp
qed

lemma follow_close:
  "follow n gen proc cs s = Some s' \<Longrightarrow> Consumer \<notin> set cs \<Longrightarrow> (close_step n gen proc ^^ length cs) (s, b) (s', b)"
proof (induction cs arbitrary: s)
  case (Cons c cs)
  then obtain s1 where s1: "sched_step n gen proc c s = Some s1" "follow n gen proc cs s1 = Some s'"
    by (auto simp: bind_eq_Some_conv)
  then have "close_step n gen proc (s, b) (s1, b)" using Cons.prems(2) by (intro cl_goroutine) auto
  moreover have "(close_step n gen proc ^^ length cs) (s1, b) (s', b)" using Cons.IH [OF s1(2)] Cons.prems(2) by simp
  ultimately show ?case by (metis length_Cons relpowp_Suc_I2)
qed simp

lemma pipeliner_close_returns_witness:
  "\<exists>t. (close_step 2 (source [7]) (\<lambda>x. Some (Suc x)) ^^ 7) (close_begin start2, False) (t, True) \<and>
    \<not> panicked t \<and> outs t = [] \<and> wg_finished t"
proof -
  let ?G = "source [7]" and ?P = "\<lambda>x. Some (Suc x)"
  let ?run = "[Consume, Process 0, Process 1, Closer, Placer, Finisher]"
  note unfold = start2_def close_begin_def release_step_def sched_step_def consume_step_def process_step_def
    placer_step_def closer_step_def finisher_step_def
  have "\<exists>t. follow 2 ?G ?P ?run (release_step (close_begin start2)) = Some t \<and> (\<forall>c. c \<noteq> Consumer \<longrightarrow> sched_step 2 ?G ?P c t = None)"
    by (simp add: unfold split: sched.split) (simp add: nth_Cons' less_Suc_eq)
  then obtain t where t: "follow 2 ?G ?P ?run (release_step (close_begin start2)) = Some t"
    "\<And>c. c \<noteq> Consumer \<Longrightarrow> sched_step 2 ?G ?P c t = None" by blast
  have "close_step 2 ?G ?P (close_begin start2, False) (release_step (close_begin start2), True)"
    by (rule cl_release) (simp add: start2_def close_begin_def)
  moreover have "(close_step 2 ?G ?P ^^ 6) (release_step (close_begin start2), True) (t, True)"
    using follow_close [OF t(1), of True] by (simp add: numeral_eq_Suc)
  ultimately have run: "(close_step 2 ?G ?P ^^ 7) (close_begin start2, False) (t, True)"
    using relpowp_Suc_I2 [of "close_step 2 ?G ?P" _ _ 6] by fastforce
  moreover have "\<nexists>cs'. close_step 2 ?G ?P (t, True) cs'" using t(2) by (auto elim!: close_step.cases)
  ultimately show ?thesis
    using pipeliner_close_returns [OF Pipeliner_2, where xs = "[7]" and f = Suc and k = 7 and s = start2 and t = t and b = True]
    by (auto simp: start2_def)
qed

end
