(* ===== verification/World.thy ===== *)
theory World
  imports Json_Value "HOL-Library.State_Monad"
begin

text \<open>
  The effects of the adapters. An adapter runs in the state monad of the library over a \<open>world\<close>: the
  history of what it did, newest first, and the flag of its stop event. What comes from outside is
  an oracle in \<open>env\<close> that may depend on the whole history: the clock, the result of
  \<open>uspclient.Client.Ship\<close>, the answer \<open>'r\<close> of a remote call \<open>'q\<close> (an HTTP request, a storage
  operation), and whether someone else sets the stop event during a wait. Theorems hold for every
  oracle. Debug logging has no effect on anything the model observes and is left out.
\<close>

section \<open>Messages and effects\<close>

text \<open>\<open>protocol.DataMessage\<close>.\<close>

datatype payload =
    JsonPayload dict
  | TextPayload string
  | BundlePayload string
  | CompressedBundlePayload string

record data_message =
  payload :: payload
  TimestampMs :: "64 word"
  EventType :: string

datatype ('q, 'r) eff =
    ENow time
  | EShip data_message duration "go_err option"
  | ECall 'q 'r
  | EOnError go_err
  | EOnWarning string
  | EWait duration bool
  | EStop
  | EDrain duration "go_err option"
  | EClose "go_err option"

type_synonym ('q, 'r) history = "('q, 'r) eff list"

record ('q, 'r) env =
  e_now :: "('q, 'r) history \<Rightarrow> time"
  e_ship :: "('q, 'r) history \<Rightarrow> data_message \<Rightarrow> duration \<Rightarrow> go_err option"
  e_call :: "('q, 'r) history \<Rightarrow> 'q \<Rightarrow> 'r"
  e_stop :: "('q, 'r) history \<Rightarrow> duration \<Rightarrow> bool"
  e_drain :: "('q, 'r) history \<Rightarrow> go_err option"
  e_close :: "('q, 'r) history \<Rightarrow> go_err option"

record ('q, 'r) world =
  hist :: "('q, 'r) history"
  stop :: bool

type_synonym ('q, 'r, 'a) io = "(('q, 'r) world, 'a) state"

abbreviation ret :: "'a \<Rightarrow> ('s, 'a) state" where
  "ret \<equiv> State_Monad.return"

definition emit :: "('q, 'r) eff \<Rightarrow> ('q, 'r, unit) io" where
  "emit e = State (\<lambda>w. ((), w\<lparr>hist := e # hist w\<rparr>))"

definition now :: "('q, 'r) env \<Rightarrow> ('q, 'r, time) io" where
  "now env = State (\<lambda>w. let t = e_now env (hist w) in (t, w\<lparr>hist := ENow t # hist w\<rparr>))"

definition ship :: "('q, 'r) env \<Rightarrow> data_message \<Rightarrow> duration \<Rightarrow> ('q, 'r, go_err option) io" where
  "ship env m d =
     State (\<lambda>w. let e = e_ship env (hist w) m d in (e, w\<lparr>hist := EShip m d e # hist w\<rparr>))"

definition call :: "('q, 'r) env \<Rightarrow> 'q \<Rightarrow> ('q, 'r, 'r) io" where
  "call env q = State (\<lambda>w. let r = e_call env (hist w) q in (r, w\<lparr>hist := ECall q r # hist w\<rparr>))"

definition onError :: "go_err \<Rightarrow> ('q, 'r, unit) io" where
  "onError e = emit (EOnError e)"

definition onWarning :: "string \<Rightarrow> ('q, 'r, unit) io" where
  "onWarning s = emit (EOnWarning s)"

text \<open>\<open>doStop.Set()\<close>, and \<open>doStop.WaitFor(d)\<close>: true at once when set, else whether it is set in time.\<close>

definition setStop :: "('q, 'r, unit) io" where
  "setStop = State (\<lambda>w. ((), w\<lparr>hist := EStop # hist w, stop := True\<rparr>))"

definition waitFor :: "('q, 'r) env \<Rightarrow> duration \<Rightarrow> ('q, 'r, bool) io" where
  "waitFor env d =
     State (\<lambda>w. let b = (stop w \<or> e_stop env (hist w) d)
                in (b, w\<lparr>hist := EWait d b # hist w, stop := b\<rparr>))"

definition isStopped :: "('q, 'r, bool) io" where
  "isStopped = State (\<lambda>w. (stop w, w))"

definition drain :: "('q, 'r) env \<Rightarrow> duration \<Rightarrow> ('q, 'r, go_err option) io" where
  "drain env d = State (\<lambda>w. let e = e_drain env (hist w) in (e, w\<lparr>hist := EDrain d e # hist w\<rparr>))"

definition closeClient :: "('q, 'r) env \<Rightarrow> ('q, 'r, go_err option) io" where
  "closeClient env = State (\<lambda>w. let e = e_close env (hist w) in (e, w\<lparr>hist := EClose e # hist w\<rparr>))"

lemma run_ops [run_simps]:
  "run_state (emit e) w = ((), w\<lparr>hist := e # hist w\<rparr>)"
  "run_state (now env) w = (e_now env (hist w), w\<lparr>hist := ENow (e_now env (hist w)) # hist w\<rparr>)"
  "run_state (ship env m d) w = (e_ship env (hist w) m d, w\<lparr>hist := EShip m d (e_ship env (hist w) m d) # hist w\<rparr>)"
  "run_state (call env q) w = (e_call env (hist w) q, w\<lparr>hist := ECall q (e_call env (hist w) q) # hist w\<rparr>)"
  "run_state setStop w = ((), w\<lparr>hist := EStop # hist w, stop := True\<rparr>)"
  "run_state isStopped w = (stop w, w)"
  by (simp_all add: emit_def now_def ship_def call_def setStop_def isStopped_def Let_def)

lemma run_waitFor [run_simps]:
  "run_state (waitFor env d) w =
     (stop w \<or> e_stop env (hist w) d,
      w\<lparr>hist := EWait d (stop w \<or> e_stop env (hist w) d) # hist w, stop := stop w \<or> e_stop env (hist w) d\<rparr>)"
  by (simp add: waitFor_def Let_def)

section \<open>Weakest preconditions\<close>

text \<open>
  \<open>wp m Q w\<close>: running \<open>m\<close> from \<open>w\<close> ends with a result and a world that satisfy \<open>Q\<close>. Every operation of the model
  is total, so there is no distinction between partial and total correctness; a page loop that used up
  its fuel has the result \<open>None\<close>.
\<close>

definition wp :: "('s, 'a) state \<Rightarrow> ('a \<Rightarrow> 's \<Rightarrow> bool) \<Rightarrow> 's \<Rightarrow> bool" where
  "wp m Q w \<longleftrightarrow> (case run_state m w of (x, w') \<Rightarrow> Q x w')"

lemma wpD: "wp m Q w \<Longrightarrow> run_state m w = (x, w') \<Longrightarrow> Q x w'"
  by (simp add: wp_def)

lemma wpI: "(\<And>x w'. run_state m w = (x, w') \<Longrightarrow> Q x w') \<Longrightarrow> wp m Q w"
  by (auto simp: wp_def split: prod.split)

lemma wp_any: "(\<And>x w'. Q x w') \<Longrightarrow> wp m Q w"
  by (auto intro: wpI)

lemma wp_mono: "wp m P w \<Longrightarrow> (\<And>x w'. P x w' \<Longrightarrow> Q x w') \<Longrightarrow> wp m Q w"
  by (auto simp: wp_def split: prod.splits)

lemma wp_conj: "wp m P w \<Longrightarrow> wp m Q w \<Longrightarrow> wp m (\<lambda>x w'. P x w' \<and> Q x w') w"
  by (auto simp: wp_def split: prod.splits)

lemma wp_ret [wp_simps]: "wp (ret x) Q w \<longleftrightarrow> Q x w"
  by (simp add: wp_def)

lemma wp_bind [wp_simps]: "wp (State_Monad.bind m f) Q w \<longleftrightarrow> wp m (\<lambda>x. wp (f x) Q) w"
  by (auto simp: wp_def split: prod.splits)

lemma wp_bindI: "wp m P w \<Longrightarrow> (\<And>x w'. P x w' \<Longrightarrow> wp (f x) Q w') \<Longrightarrow> wp (State_Monad.bind m f) Q w"
  unfolding wp_bind by (rule wp_mono)

lemma wp_if [wp_simps]: "wp (if b then m else m') Q w \<longleftrightarrow> (if b then wp m Q w else wp m' Q w)"
  by simp

lemma wp_unit_ops [wp_simps]:
  "wp (emit e) Q w \<longleftrightarrow> Q () (w\<lparr>hist := e # hist w\<rparr>)"
  "wp setStop Q w \<longleftrightarrow> Q () (w\<lparr>hist := EStop # hist w, stop := True\<rparr>)"
  "wp (onError err) Q w \<longleftrightarrow> Q () (w\<lparr>hist := EOnError err # hist w\<rparr>)"
  "wp (onWarning s) Q w \<longleftrightarrow> Q () (w\<lparr>hist := EOnWarning s # hist w\<rparr>)"
  by (simp_all add: wp_def run_simps onError_def onWarning_def)

lemma wp_now [wp_simps]:
  "wp (now env) Q w \<longleftrightarrow> Q (e_now env (hist w)) (w\<lparr>hist := ENow (e_now env (hist w)) # hist w\<rparr>)"
  by (simp add: wp_def run_simps)

lemma wp_ship [wp_simps]:
  "wp (ship env m d) Q w \<longleftrightarrow>
     Q (e_ship env (hist w) m d) (w\<lparr>hist := EShip m d (e_ship env (hist w) m d) # hist w\<rparr>)"
  by (simp add: wp_def run_simps)

lemma wp_call [wp_simps]:
  "wp (call env q) Q w \<longleftrightarrow> Q (e_call env (hist w) q) (w\<lparr>hist := ECall q (e_call env (hist w) q) # hist w\<rparr>)"
  by (simp add: wp_def run_simps)

lemma wp_stop_ops [wp_simps]:
  "wp isStopped Q w \<longleftrightarrow> Q (stop w) w"
  "wp (waitFor env d) Q w \<longleftrightarrow>
     Q (stop w \<or> e_stop env (hist w) d)
       (w\<lparr>hist := EWait d (stop w \<or> e_stop env (hist w) d) # hist w, stop := stop w \<or> e_stop env (hist w) d\<rparr>)"
  by (simp_all add: wp_def run_simps)

section \<open>Times\<close>

text \<open>\<open>time.Time{}\<close>, the first of January of year one; \<open>Unix()\<close>; and the millisecond stamp of a message.\<close>

definition zero_time :: time where
  "zero_time = - 62135596800 * second"

definition unix :: "time \<Rightarrow> int" where
  "unix t = t div second"

definition stamp_ms :: "time \<Rightarrow> 64 word" where
  "stamp_ms t = word_of_int (go_div t millisecond)"

text \<open>\<open>time.Parse\<close> returns the zero time with its error; the callers that drop the error use it.\<close>

definition parse_or_zero :: "(string \<Rightarrow> time option) \<Rightarrow> string \<Rightarrow> time" where
  "parse_or_zero parse_time s = (case parse_time s of None \<Rightarrow> zero_time | Some t \<Rightarrow> t)"

text \<open>\<open>v, _ := item[k].(string)\<close>.\<close>

definition string_field :: "dict \<Rightarrow> string \<Rightarrow> string" where
  "string_field item k =
     (case map_of item k of Some (GString s) \<Rightarrow> s | _ \<Rightarrow> '''')"

section \<open>HTTP\<close>

text \<open>
  A request. The text of a URL or body is a list of parts, since the formatted times in it are only
  read by the server: \<open>RFC3339 t\<close> is the instant \<open>t\<close> formatted with \<open>time.RFC3339\<close>, \<open>Layout l t\<close> with another
  layout, \<open>Base64 s\<close> the encoding of \<open>s\<close>, \<open>Escaped s\<close> is \<open>url.QueryEscape(s)\<close> and \<open>BasicAuth u p\<close> the value
  \<open>SetBasicAuth\<close> sets.
\<close>

datatype part =
    Lit string
  | RFC3339 time
  | Layout string time
  | Num int
  | Base64 string
  | Escaped string
  | BasicAuth string string

record http_req =
  http_method :: string
  url :: "part list"
  headers :: "(string \<times> part list) list"
  body :: "part list"

text \<open>
  What building the request and \<open>httpClient.Do\<close> give: an error of one of them, or a status with the
  error of reading the body and the result of decoding the bytes that were read.
\<close>

datatype 'b http =
    NewRequestErr go_err
  | DoErr go_err
  | Resp (status: nat) (read_err: "go_err option") (decoded: "go_err + 'b")

section \<open>Shipping\<close>

text \<open>
  The loop body every polling adapter has: one attempt with ten seconds, and one more of an hour
  when the buffer is full; any other error stops the adapter.
\<close>

definition ship_retry :: "('q, 'r) env \<Rightarrow> data_message \<Rightarrow> ('q, 'r, go_err option) io" where
  "ship_retry env msg = do {
     err \<leftarrow> ship env msg (10 * second);
     case err of
       None \<Rightarrow> ret None
     | Some e \<Rightarrow>
         if e = BufferFull then do {
           onWarning ''stream falling behind'';
           ship env msg (1 * hour)
         } else ret (Some e)
   }"

definition ship_or_stop :: "('q, 'r) env \<Rightarrow> data_message \<Rightarrow> ('q, 'r, bool) io" where
  "ship_or_stop env msg = do {
     err \<leftarrow> ship_retry env msg;
     case err of
       None \<Rightarrow> ret True
     | Some e \<Rightarrow> do {
         onError (GoWrap ''Ship(): %v'' e);
         setStop;
         ret False
       }
   }"

definition json_message :: "dict \<Rightarrow> time \<Rightarrow> data_message" where
  "json_message item t = \<lparr>payload = JsonPayload item, TimestampMs = stamp_ms t, EventType = ''''\<rparr>"

fun ship_items :: "('q, 'r) env \<Rightarrow> dict list \<Rightarrow> ('q, 'r, bool) io" where
  "ship_items env [] = ret True"
| "ship_items env (item # items) = do {
     t \<leftarrow> now env;
     ok \<leftarrow> ship_or_stop env (json_message item t);
     if ok then ship_items env items else ret False
   }"

section \<open>Closing\<close>

text \<open>The \<open>Close\<close> of the polling adapters: stop, wait for the senders, drain, close; the first error wins.\<close>

definition close_adapter :: "('q, 'r) env \<Rightarrow> ('q, 'r, go_err option) io" where
  "close_adapter env = do {
     setStop;
     err1 \<leftarrow> drain env (1 * minute);
     err2 \<leftarrow> closeClient env;
     ret (case err1 of Some e \<Rightarrow> Some e | None \<Rightarrow> err2)
   }"

section \<open>What was delivered\<close>

text \<open>The payloads the client accepted, and all attempts, in the order they were made.\<close>

fun acked :: "('q, 'r) eff \<Rightarrow> payload list" where
  "acked (EShip m d None) = [payload m]"
| "acked _ = []"

fun attempt :: "('q, 'r) eff \<Rightarrow> (payload \<times> duration \<times> go_err option) list" where
  "attempt (EShip m d e) = [(payload m, d, e)]"
| "attempt _ = []"

definition delivered :: "('q, 'r) history \<Rightarrow> payload list" where
  "delivered h = concat (map acked (rev h))"

definition attempts :: "('q, 'r) history \<Rightarrow> (payload \<times> duration \<times> go_err option) list" where
  "attempts h = concat (map attempt (rev h))"

lemma delivered_Cons [simp]: "delivered (e # h) = delivered h @ acked e"
  by (simp add: delivered_def)

lemma attempts_Cons [simp]: "attempts (e # h) = attempts h @ attempt e"
  by (simp add: attempts_def)

lemma delivered_Nil [simp]: "delivered [] = []"
  by (simp add: delivered_def)

lemma attempts_Nil [simp]: "attempts [] = []"
  by (simp add: attempts_def)

lemma run_onError [run_simps]:
  "run_state (onError e) w = ((), w\<lparr>hist := EOnError e # hist w\<rparr>)"
  "run_state (onWarning s) w = ((), w\<lparr>hist := EOnWarning s # hist w\<rparr>)"
  by (simp_all add: onError_def onWarning_def run_simps)

text \<open>The attempts one message can cause: one that succeeds or fails, or two when the buffer is full.\<close>

definition attempts_ok :: "payload \<Rightarrow> bool \<Rightarrow> (payload \<times> duration \<times> go_err option) list \<Rightarrow> bool" where
  "attempts_ok p ok as \<longleftrightarrow>
     (\<exists>e. as = [(p, 10 * second, e)] \<and> e \<noteq> Some BufferFull \<and> (ok \<longleftrightarrow> e = None)) \<or>
     (\<exists>e. as = [(p, 10 * second, Some BufferFull), (p, 1 * hour, e)] \<and> (ok \<longleftrightarrow> e = None))"

text \<open>
  \<open>extends w w'\<close>: the history of \<open>w'\<close> continues that of \<open>w\<close>, with these deliveries and attempts added.
\<close>

definition adds :: "('q, 'r) world \<Rightarrow> payload list \<Rightarrow> (payload \<times> duration \<times> go_err option) list \<Rightarrow> ('q, 'r) world \<Rightarrow> bool" where
  "adds w ps as w' \<longleftrightarrow> (\<exists>h. hist w' = h @ hist w) \<and>
     delivered (hist w') = delivered (hist w) @ ps \<and> attempts (hist w') = attempts (hist w) @ as"

lemma adds_refl [simp]: "adds w [] [] w"
  by (simp add: adds_def)

lemma adds_trans: "adds w ps as w1 \<Longrightarrow> adds w1 qs bs w2 \<Longrightarrow> adds w (ps @ qs) (as @ bs) w2"
  by (auto simp: adds_def)

lemma ship_or_stop_cases:
  assumes "run_state (ship_or_stop env m) w = (ok, w')"
  shows "\<exists>as. adds w (if ok then [payload m] else []) as w' \<and> attempts_ok (payload m) ok as \<and>
    stop w' = (stop w \<or> \<not> ok)"
proof -
  let ?e1 = "e_ship env (hist w) m (10 * second)"
  consider "?e1 = None" | "?e1 = Some BufferFull" | e where "?e1 = Some e" "e \<noteq> BufferFull"
    by (cases ?e1) auto
  then show ?thesis
  proof cases
    case 1
    with assms show ?thesis
      by (auto simp: ship_or_stop_def ship_retry_def run_simps adds_def attempts_ok_def)
  next
    case 2
    let ?w1 = "w\<lparr>hist := EOnWarning ''stream falling behind'' #
      EShip m (10 * second) (Some BufferFull) # hist w\<rparr>"
    show ?thesis
      using assms 2
      by (cases "e_ship env (hist ?w1) m (1 * hour)")
        (auto simp: ship_or_stop_def ship_retry_def run_simps adds_def attempts_ok_def)
  next
    case 3
    with assms show ?thesis
      by (auto simp: ship_or_stop_def ship_retry_def run_simps adds_def attempts_ok_def)
  qed
qed

text \<open>The attempts of a list of payloads: those of one payload after the other, up to a failure.\<close>

fun attempts_list :: "payload list \<Rightarrow> bool \<Rightarrow> (payload \<times> duration \<times> go_err option) list \<Rightarrow> bool" where
  "attempts_list [] ok as \<longleftrightarrow> ok \<and> as = []"
| "attempts_list (p # ps) ok as \<longleftrightarrow>
     (\<exists>bs cs. as = bs @ cs \<and>
       (attempts_ok p True bs \<and> attempts_list ps ok cs \<or> \<not> ok \<and> cs = [] \<and> attempts_ok p False bs))"

lemma run_bind_exhaust:
  "run_state (bind m f) w = (b, w') \<longleftrightarrow>
     (\<exists>a w1. run_state m w = (a, w1) \<and> run_state (f a) w1 = (b, w'))"
  by (auto split: prod.splits)

lemma wp_ship_or_stop:
  assumes "\<And>w' as. adds w [payload m] as w' \<Longrightarrow> stop w' = stop w \<Longrightarrow> Q True w'"
    and "\<And>w' as. adds w [] as w' \<Longrightarrow> stop w' \<Longrightarrow> Q False w'"
  shows "wp (ship_or_stop env m) Q w"
proof (rule wpI)
  fix ok w'
  assume "run_state (ship_or_stop env m) w = (ok, w')"
  from ship_or_stop_cases [OF this] assms show "Q ok w'" by (cases ok) auto
qed

lemma payload_json_message [simp]: "payload (json_message item t) = JsonPayload item"
  by (simp add: json_message_def)

lemma ship_items_cases:
  assumes "run_state (ship_items env items) w = (ok, w')"
  shows "\<exists>k as. k \<le> length items \<and> (ok \<longleftrightarrow> k = length items) \<and>
    adds w (map JsonPayload (take k items)) as w' \<and> attempts_list (map JsonPayload items) ok as \<and>
    stop w' = (stop w \<or> \<not> ok)"
  using assms
proof (induction items arbitrary: w)
  case Nil
  then show ?case by simp
next
  case (Cons item items)
  let ?t = "e_now env (hist w)"
  let ?w1 = "w\<lparr>hist := ENow ?t # hist w\<rparr>"
  obtain ok1 w2 where s: "run_state (ship_or_stop env (json_message item ?t)) ?w1 = (ok1, w2)"
    by fastforce
  have rest: "run_state (if ok1 then ship_items env items else ret False) w2 = (ok, w')"
    using Cons.prems s by (simp add: run_simps)
  obtain as where as: "adds ?w1 (if ok1 then [JsonPayload item] else []) as w2"
    "attempts_ok (JsonPayload item) ok1 as" "stop w2 = (stop w \<or> \<not> ok1)"
    using ship_or_stop_cases [OF s] by (cases ok1) auto
  then have w2: "adds w (if ok1 then [JsonPayload item] else []) as w2"
    by (auto simp: adds_def)
  show ?case
  proof (cases ok1)
    case True
    with rest have "run_state (ship_items env items) w2 = (ok, w')" by simp
    from Cons.IH [OF this] obtain k bs where k: "k \<le> length items" "ok \<longleftrightarrow> k = length items"
      "adds w2 (map JsonPayload (take k items)) bs w'" "attempts_list (map JsonPayload items) ok bs"
      "stop w' = (stop w2 \<or> \<not> ok)" by blast
    have "adds w (map JsonPayload (take (Suc k) (item # items))) (as @ bs) w'"
      using adds_trans [OF w2 k(3)] True by simp
    with k as True show ?thesis by (intro exI [of _ "Suc k"] exI [of _ "as @ bs"]) auto
  next
    case False
    with rest have "\<not> ok" "w' = w2" by auto
    with w2 as False show ?thesis by (intro exI [of _ 0] exI [of _ as]) auto
  qed
qed

section \<open>A concrete environment\<close>

text \<open>For the concrete runs: a clock that stands still, a client that accepts everything, fixed answers.\<close>

definition fresh_world :: "('q, 'r) world" where
  "fresh_world = \<lparr>hist = [], stop = False\<rparr>"

definition steady_env :: "time \<Rightarrow> ('q \<Rightarrow> 'r) \<Rightarrow> ('q, 'r) env" where
  "steady_env t answer = \<lparr>e_now = \<lambda>_. t, e_ship = \<lambda>_ _ _. None, e_call = \<lambda>_. answer,
     e_stop = \<lambda>_ _. False, e_drain = \<lambda>_. None, e_close = \<lambda>_. None\<rparr>"

lemma fresh_world_simps [simp]: "hist fresh_world = []" "stop fresh_world = False"
  by (simp_all add: fresh_world_def)

lemma steady_env_simps [simp]:
  "e_now (steady_env t answer) h = t" "e_ship (steady_env t answer) h m d = None"
  "e_call (steady_env t answer) h q = answer q" "e_stop (steady_env t answer) h d = False"
  "e_drain (steady_env t answer) h = None" "e_close (steady_env t answer) h = None"
  by (simp_all add: steady_env_def)

end
