(* ===== verification/Polling.thy ===== *)
theory Polling
  imports World
begin

text \<open>
  What the polling adapters share: the loop that waits, asks the service for new events and ships
  them, and the table of identifiers already seen. The interface between the loop and an adapter is
  the locale \<open>poller\<close>: a request that itself ships nothing.
\<close>

section \<open>The loop\<close>

text \<open>
  \<open>for !doStop.WaitFor(d) { items := makeOneRequest(...); for each item Ship }\<close>, \<open>n\<close> turns of it. A
  request that is still paging when its own bound is reached gives \<open>None\<close> and the model stops there.
\<close>

fun poll_loop ::
    "('q, 'r) env \<Rightarrow> duration \<Rightarrow> ('st \<Rightarrow> ('q, 'r, (dict list \<times> 'st) option) io) \<Rightarrow> nat \<Rightarrow> 'st \<Rightarrow>
     ('q, 'r, 'st) io" where
  "poll_loop env d request 0 st = ret st"
| "poll_loop env d request (Suc n) st = do {
     stopped \<leftarrow> waitFor env d;
     if stopped then ret st
     else do {
       res \<leftarrow> request st;
       case res of
         None \<Rightarrow> ret st
       | Some (items, st') \<Rightarrow> do {
           ok \<leftarrow> ship_items env items;
           if ok then poll_loop env d request n st' else ret st'
         }
     }
   }"

lemma attempts_list_append:
  "attempts_list ps True as \<Longrightarrow> attempts_list qs ok bs \<Longrightarrow> attempts_list (ps @ qs) ok (as @ bs)"
proof (induction ps arbitrary: as)
  case (Cons p ps)
  then obtain cs ds where "as = cs @ ds" "attempts_ok p True cs" "attempts_list ps True ds" by auto
  with Cons show ?case by (auto simp: append_assoc)
qed simp

text \<open>
  An invariant of the loop: kept by the waiting, turned by a request into a condition on its items, and
  restored when they are shipped.
\<close>

lemma poll_loop_inv:
  assumes wait: "\<And>st w b w'. I st w \<Longrightarrow> run_state (waitFor env d) w = (b, w') \<Longrightarrow> I st w'"
    and none: "\<And>st w w'. I st w \<Longrightarrow> run_state (request st) w = (None, w') \<Longrightarrow> I st w'"
    and some: "\<And>st w items st' w'. I st w \<Longrightarrow> run_state (request st) w = (Some (items, st'), w') \<Longrightarrow> J items st' w'"
    and ships: "\<And>st w items ok w'. J items st w \<Longrightarrow> run_state (ship_items env items) w = (ok, w') \<Longrightarrow> I st w'"
  shows "I st w \<Longrightarrow> run_state (poll_loop env d request n st) w = (st', w') \<Longrightarrow> I st' w'"
proof (induction n arbitrary: st w)
  case (Suc n)
  obtain b w1 where w1: "run_state (waitFor env d) w = (b, w1)" by fastforce
  note i1 = wait [OF Suc.prems(1) w1]
  obtain res w2 where w2: "run_state (request st) w1 = (res, w2)" by fastforce
  consider "b" | "\<not> b" "res = None" | items s1 where "\<not> b" "res = Some (items, s1)" by fastforce
  then show ?case
  proof cases
    case 3
    obtain ok w3 where w3: "run_state (ship_items env items) w2 = (ok, w3)" by fastforce
    have i3: "I s1 w3" using ships [OF some [OF i1] w3] w2 3 by blast
    show ?thesis using Suc.prems(2) w1 w2 w3 3 i3 Suc.IH [OF i3] by (auto split: if_splits)
  next
    case 2
    with Suc.prems(2) w1 w2 none [OF i1] show ?thesis by auto
  qed (use Suc.prems(2) w1 i1 in auto)
qed simp

locale poller =
  fixes request :: "'st \<Rightarrow> ('q, 'r, (dict list \<times> 'st) option) io"
  assumes quiet: "run_state (request st) w = (res, w') \<Longrightarrow> adds w [] [] w'"
begin

text \<open>
  Everything the loop ships is one sequence of payloads, each attempted in its turn; after a failed
  one nothing more is attempted and the stop event is set.
\<close>

lemma loop_ships:
  "run_state (poll_loop env d request n st) w = (st', w') \<Longrightarrow>
   \<exists>ps ok as. attempts (hist w') = attempts (hist w) @ as \<and> attempts_list ps ok as \<and>
     (ok \<longrightarrow> delivered (hist w') = delivered (hist w) @ ps) \<and> (\<not> ok \<longrightarrow> stop w')"
proof (induction n arbitrary: st w)
  case 0
  then show ?case by (intro exI [of _ "[]"] exI [of _ True]) auto
next
  case (Suc n)
  obtain b w1 where w1: "run_state (waitFor env d) w = (b, w1)" by fastforce
  then have h1: "attempts (hist w1) = attempts (hist w)" "delivered (hist w1) = delivered (hist w)"
    by (auto simp: run_simps)
  obtain res w2 where w2: "run_state (request st) w1 = (res, w2)" by fastforce
  then have h2: "attempts (hist w2) = attempts (hist w)" "delivered (hist w2) = delivered (hist w)"
    using quiet [OF w2] h1 by (auto simp: adds_def)
  consider "b \<or> res = None" | items s1 where "\<not> b" "res = Some (items, s1)" by fastforce
  then show ?case
  proof cases
    case 1
    with Suc.prems w1 w2 have "w' = w1 \<or> w' = w2" by (auto split: if_splits)
    with h1 h2 show ?thesis by (intro exI [of _ "[]"] exI [of _ True] exI [of _ "[]"]) auto
  next
    case 2
    obtain ok w3 where w3: "run_state (ship_items env items) w2 = (ok, w3)" by fastforce
    from ship_items_cases [OF w3] obtain k as where k: "ok \<longleftrightarrow> k = length items"
      "adds w2 (map JsonPayload (take k items)) as w3" "attempts_list (map JsonPayload items) ok as"
      "stop w3 = (stop w2 \<or> \<not> ok)" by blast
    have rest: "run_state (if ok then poll_loop env d request n s1 else ret s1) w3 = (st', w')"
      using Suc.prems w1 w2 w3 2 by simp
    show ?thesis
    proof (cases ok)
      case True
      with rest have "run_state (poll_loop env d request n s1) w3 = (st', w')" by simp
      from Suc.IH [OF this] obtain ps ok' bs where r: "attempts (hist w') = attempts (hist w3) @ bs"
        "attempts_list ps ok' bs" "ok' \<longrightarrow> delivered (hist w') = delivered (hist w3) @ ps"
        "\<not> ok' \<longrightarrow> stop w'" by blast
      have "attempts_list (map JsonPayload items @ ps) ok' (as @ bs)"
        using attempts_list_append [OF _ r(2)] k(3) True by simp
      with r k(1,2) True h2 show ?thesis
        by (intro exI [of _ "map JsonPayload items @ ps"] exI [of _ ok'] exI [of _ "as @ bs"])
          (auto simp: adds_def)
    next
      case False
      with rest have "w' = w3" by simp
      with k False h2 show ?thesis
        by (intro exI [of _ "map JsonPayload items"] exI [of _ False] exI [of _ as])
          (auto simp: adds_def)
    qed
  qed
qed

end

section \<open>Identifiers already seen\<close>

type_synonym dedupe = "(string \<times> int) list"

text \<open>
  The loop over the items of a page: items whose identifier is in the table are skipped, the others
  are kept and recorded with the second of their time stamp (the zero time when it does not parse).
\<close>

fun new_items :: "(string \<Rightarrow> time option) \<Rightarrow> string \<Rightarrow> string \<Rightarrow> dict list \<Rightarrow> dedupe \<Rightarrow> dict list \<times> dedupe" where
  "new_items parse_time ts_key id_key [] dd = ([], dd)"
| "new_items parse_time ts_key id_key (item # items) dd =
     (let eventid = string_field item id_key in
      if map_of dd eventid \<noteq> None then new_items parse_time ts_key id_key items dd
      else (let epoch = parse_or_zero parse_time (string_field item ts_key);
                (rest, dd') = new_items parse_time ts_key id_key items (put eventid (unix epoch) dd)
            in (item # rest, dd')))"

text \<open>\<open>for k, v := range dedupe\<close>: delete what is older than the overlap, reading the clock each time.\<close>

fun cull :: "('q, 'r) env \<Rightarrow> duration \<Rightarrow> dedupe \<Rightarrow> ('q, 'r, dedupe) io" where
  "cull env overlapPeriod [] = ret []"
| "cull env overlapPeriod ((k, v) # dd) = do {
     t \<leftarrow> now env;
     dd' \<leftarrow> cull env overlapPeriod dd;
     ret (if v < unix (t - overlapPeriod) then dd' else (k, v) # dd')
   }"

text \<open>The first of a list of actions that only read the clock, report or call adds no delivery.\<close>

lemma adds_quiet:
  "adds w [] [] (w\<lparr>hist := ENow t # hist w\<rparr>)"
  "adds w [] [] (w\<lparr>hist := ECall q r # hist w\<rparr>)"
  "adds w [] [] (w\<lparr>hist := EOnError e # hist w\<rparr>)"
  "adds w [] [] (w\<lparr>hist := EStop # hist w, stop := b\<rparr>)"
  "adds w [] [] (w\<lparr>hist := EWait d c # hist w, stop := b\<rparr>)"
  by (auto simp: adds_def)

definition quiet_io :: "('q, 'r, 'a) io \<Rightarrow> bool" where
  "quiet_io m \<longleftrightarrow> (\<forall>w. adds w [] [] (snd (run_state m w)))"

lemma quiet_ret [simp, intro!]: "quiet_io (ret x)"
  by (simp add: quiet_io_def)

lemma quiet_bind [intro!]: "quiet_io m \<Longrightarrow> (\<And>x. quiet_io (f x)) \<Longrightarrow> quiet_io (State_Monad.bind m f)"
  unfolding quiet_io_def
  by (auto split: prod.split) (metis adds_trans append_Nil snd_conv)

lemma quiet_prims [simp, intro!]:
  "quiet_io (now env)" "quiet_io (call env q)" "quiet_io (onError e)" "quiet_io setStop"
  "quiet_io (waitFor env d)" "quiet_io isStopped" "quiet_io (onWarning s)"
  by (auto simp: quiet_io_def run_simps adds_def)

lemma quiet_ioD: "quiet_io m \<Longrightarrow> run_state m w = (x, w') \<Longrightarrow> adds w [] [] w'"
  by (metis quiet_io_def snd_conv)

lemma quiet_cull [simp, intro!]: "quiet_io (cull env ov dd)"
  by (induction dd) auto

section \<open>Facts on the table\<close>

lemma new_items_keys:
  "new_items p tk ik items dd = (ns, dd') \<Longrightarrow>
   set (map (\<lambda>i. string_field i ik) ns) \<inter> fst ` set dd = {} \<and>
   distinct (map (\<lambda>i. string_field i ik) ns) \<and> set ns \<subseteq> set items \<and>
   fst ` set dd' = fst ` set dd \<union> set (map (\<lambda>i. string_field i ik) items)"
proof (induction items arbitrary: dd ns)
  case (Cons item items)
  let ?id = "string_field item ik"
  show ?case
  proof (cases "map_of dd ?id")
    case None
    then have notin: "?id \<notin> fst ` set dd" by (simp add: map_of_eq_None_iff)
    obtain rest where r: "ns = item # rest"
      "new_items p tk ik items (put ?id (unix (parse_or_zero p (string_field item tk))) dd) = (rest, dd')"
      using Cons.prems None by (auto simp: Let_def split: prod.splits)
    from Cons.IH [OF r(2)] show ?thesis using notin by (auto simp: r(1))
  next
    case (Some v)
    then have "?id \<in> fst ` set dd" by (force dest: map_of_SomeD)
    moreover have "new_items p tk ik items dd = (ns, dd')" using Cons.prems Some by (simp add: Let_def)
    ultimately show ?thesis using Cons.IH by auto
  qed
qed auto

text \<open>Every item whose identifier is not in the table yet is represented among the new ones.\<close>

lemma new_items_complete:
  "new_items p tk ik items dd = (ns, dd') \<Longrightarrow>
   item \<in> set items \<Longrightarrow> string_field item ik \<notin> fst ` set dd \<Longrightarrow>
   string_field item ik \<in> set (map (\<lambda>i. string_field i ik) ns)"
  using new_items_keys
proof (induction items arbitrary: dd ns)
  case (Cons x items)
  show ?case
  proof (cases "map_of dd (string_field x ik)")
    case None
    obtain rest where r: "ns = x # rest"
      "new_items p tk ik items (put (string_field x ik) (unix (parse_or_zero p (string_field x tk))) dd) = (rest, dd')"
      using Cons.prems None by (auto simp: Let_def split: prod.splits)
    then show ?thesis using Cons.IH [OF r(2)] Cons.prems by auto
  next
    case (Some v)
    then have "string_field x ik \<in> fst ` set dd" by (force dest: map_of_SomeD)
    then show ?thesis using Cons.IH [of dd ns] Cons.prems Some by (auto simp: Let_def)
  qed
qed simp

section \<open>No event is shipped twice\<close>

text \<open>
  An identifier is old once the clock was read at a time so late that its event lies before the
  overlap; only old identifiers leave the table.
\<close>

definition old :: "(string \<Rightarrow> int) \<Rightarrow> duration \<Rightarrow> ('q, 'r) history \<Rightarrow> string \<Rightarrow> bool" where
  "old pub ov h k \<longleftrightarrow> (\<exists>t. ENow t \<in> set h \<and> pub k < unix (t - ov))"

lemma old_mono: "old pub ov h k \<Longrightarrow> set h \<subseteq> set h' \<Longrightarrow> old pub ov h' k"
  by (auto simp: old_def)

lemma adds_hist: "adds w ps as w' \<Longrightarrow> set (hist w) \<subseteq> set (hist w')"
  by (auto simp: adds_def)

lemma cull_keeps:
  "run_state (cull env ov dd) w = (dd', w') \<Longrightarrow>
   set dd' \<subseteq> set dd \<and> (\<forall>k v. (k, v) \<in> set dd \<longrightarrow> (k, v) \<in> set dd' \<or> (\<exists>t. ENow t \<in> set (hist w') \<and> v < unix (t - ov)))"
proof (induction dd arbitrary: w dd')
  case (Cons x dd)
  obtain k v where x: "x = (k, v)" by fastforce
  let ?t = "e_now env (hist w)"
  let ?w1 = "w\<lparr>hist := ENow ?t # hist w\<rparr>"
  obtain dd1 where r: "run_state (cull env ov dd) ?w1 = (dd1, w')"
    "dd' = (if v < unix (?t - ov) then dd1 else x # dd1)"
    using Cons.prems x by (auto simp: run_simps split: prod.splits)
  have "ENow ?t \<in> set (hist w')"
    using adds_hist [OF quiet_ioD [OF quiet_cull r(1)]] by auto
  then show ?case using Cons.IH [OF r(1)] r(2) x by auto
qed auto

text \<open>The identifiers of delivered events.\<close>

definition delivered_ids :: "string \<Rightarrow> ('q, 'r) history \<Rightarrow> string list" where
  "delivered_ids ik h =
     map (\<lambda>p. case p of JsonPayload d \<Rightarrow> string_field d ik | _ \<Rightarrow> '''') (delivered h)"

definition once_inv :: "string \<Rightarrow> (string \<Rightarrow> int) \<Rightarrow> duration \<Rightarrow> dedupe \<Rightarrow> ('q, 'r) world \<Rightarrow> bool" where
  "once_inv ik pub ov dd w \<longleftrightarrow> distinct (delivered_ids ik (hist w)) \<and>
     (\<forall>k \<in> set (delivered_ids ik (hist w)). k \<in> fst ` set dd \<or> old pub ov (hist w) k) \<and>
     (\<forall>k v. (k, v) \<in> set dd \<longrightarrow> v = pub k)"

lemma once_inv_adds:
  assumes "once_inv ik pub ov dd w" "adds w [] [] w'"
  shows "once_inv ik pub ov dd w'"
  using assms old_mono [of pub ov "hist w" _ "hist w'"] adds_hist [OF assms(2)]
  by (auto simp: once_inv_def delivered_ids_def adds_def)

text \<open>What a request has to guarantee for its items to be new ones.\<close>

definition fresh_items :: "string \<Rightarrow> (string \<Rightarrow> int) \<Rightarrow> duration \<Rightarrow> dict list \<Rightarrow> dedupe \<Rightarrow> ('q, 'r) world \<Rightarrow> bool" where
  "fresh_items ik pub ov items dd w \<longleftrightarrow> distinct (map (\<lambda>i. string_field i ik) items) \<and>
     (\<forall>i \<in> set items. string_field i ik \<notin> set (delivered_ids ik (hist w)) \<and>
        (string_field i ik \<in> fst ` set dd \<or> old pub ov (hist w) (string_field i ik)))"

lemma once_inv_ship:
  assumes "once_inv ik pub ov dd w" "fresh_items ik pub ov items dd w"
    and "run_state (ship_items env items) w = (ok, w')"
  shows "once_inv ik pub ov dd w'"
proof -
  obtain k as where k: "adds w (map JsonPayload (take k items)) as w'"
    using ship_items_cases [OF assms(3)] by blast
  then have ids: "delivered_ids ik (hist w') =
      delivered_ids ik (hist w) @ map (\<lambda>i. string_field i ik) (take k items)"
    by (simp add: adds_def delivered_ids_def)
  have sub: "set (take k items) \<subseteq> set items" by (rule set_take_subset)
  have "distinct (map (\<lambda>i. string_field i ik) (take k items))"
    using assms(2) by (simp add: fresh_items_def take_map [symmetric] distinct_take)
  moreover have "old pub ov (hist w) i \<Longrightarrow> old pub ov (hist w') i" for i
    using old_mono adds_hist [OF k] by blast
  ultimately show ?thesis
    using assms(1,2) sub unfolding once_inv_def ids fresh_items_def by auto
qed

text \<open>The step of a table through a page: what is new is recorded, what leaves is old.\<close>

lemma new_items_pub:
  "new_items p tk ik items dd = (ns, dd') \<Longrightarrow> \<forall>k v. (k, v) \<in> set dd \<longrightarrow> v = pub k \<Longrightarrow>
   \<forall>i \<in> set items. pub (string_field i ik) = unix (parse_or_zero p (string_field i tk)) \<Longrightarrow>
   \<forall>k v. (k, v) \<in> set dd' \<longrightarrow> v = pub k"
proof (induction items arbitrary: dd ns)
  case (Cons item items)
  let ?id = "string_field item ik" and ?v = "unix (parse_or_zero p (string_field item tk))"
  show ?case
  proof (cases "map_of dd ?id")
    case None
    obtain rest where r: "new_items p tk ik items (put ?id ?v dd) = (rest, dd')"
      using Cons.prems None by (auto simp: Let_def split: prod.splits)
    have "(k, v) \<in> set (put ?id ?v dd) \<Longrightarrow> (k, v) = (?id, ?v) \<or> (k, v) \<in> set dd" for k v
      using set_put [of ?id ?v dd] by auto
    then have "\<forall>k v. (k, v) \<in> set (put ?id ?v dd) \<longrightarrow> v = pub k"
      using Cons.prems(2,3) by fastforce
    from Cons.IH [OF r this] show ?thesis using Cons.prems(3) by simp
  next
    case (Some v)
    then show ?thesis using Cons.IH [of dd ns] Cons.prems by (simp add: Let_def)
  qed
qed auto

lemma once_inv_page:
  assumes inv: "once_inv ik pub ov dd w" and page: "new_items p tk ik items dd = (ns, dd1)"
    and cull: "run_state (cull env ov dd1) w = (dd2, w')"
    and pubs: "\<forall>i \<in> set items. pub (string_field i ik) = unix (parse_or_zero p (string_field i tk))"
    and young: "\<forall>i \<in> set items. \<not> old pub ov (hist w) (string_field i ik)"
  shows "once_inv ik pub ov dd2 w' \<and> fresh_items ik pub ov ns dd2 w'"
proof -
  note keys = new_items_keys [OF page]
  have "\<forall>k v. (k, v) \<in> set dd \<longrightarrow> v = pub k" using inv unfolding once_inv_def by blast
  note pub1 = new_items_pub [OF page this pubs]
  have q: "adds w [] [] w'" using quiet_ioD [OF quiet_cull cull] .
  then have ids: "delivered_ids ik (hist w') = delivered_ids ik (hist w)"
    by (simp add: delivered_ids_def adds_def)
  have keep: "k \<in> fst ` set dd2 \<or> old pub ov (hist w') k" if "k \<in> fst ` set dd1" for k
    using cull_keeps [OF cull] that pub1 by (force simp: old_def)
  have mono: "old pub ov (hist w) k \<Longrightarrow> old pub ov (hist w') k" for k
    using old_mono adds_hist [OF q] by blast
  have "k \<in> fst ` set dd2 \<or> old pub ov (hist w') k" if "k \<in> set (delivered_ids ik (hist w))" for k
  proof -
    from inv that have "k \<in> fst ` set dd \<or> old pub ov (hist w) k" unfolding once_inv_def by blast
    then show ?thesis using keep [of k] mono [of k] keys by blast
  qed
  moreover have "\<forall>k v. (k, v) \<in> set dd2 \<longrightarrow> v = pub k" using cull_keeps [OF cull] pub1 by blast
  moreover have "distinct (delivered_ids ik (hist w))" using inv unfolding once_inv_def by blast
  ultimately have "once_inv ik pub ov dd2 w'" unfolding once_inv_def ids by blast
  moreover have "fresh_items ik pub ov ns dd2 w'"
  proof -
    have "string_field i ik \<notin> set (delivered_ids ik (hist w)) \<and>
        (string_field i ik \<in> fst ` set dd2 \<or> old pub ov (hist w') (string_field i ik))" if "i \<in> set ns" for i
    proof -
      have i: "i \<in> set items" "string_field i ik \<notin> fst ` set dd" "string_field i ik \<in> fst ` set dd1"
        using keys that by auto
      then have "\<not> old pub ov (hist w) (string_field i ik)" using young by blast
      with i inv have "string_field i ik \<notin> set (delivered_ids ik (hist w))"
        unfolding once_inv_def by blast
      with keep [OF i(3)] show ?thesis by blast
    qed
    with keys show ?thesis unfolding fresh_items_def ids by blast
  qed
  ultimately show ?thesis ..
qed

section \<open>Delivered documents\<close>

definition delivered_docs :: "('q, 'r) history \<Rightarrow> dict list" where
  "delivered_docs h = concat (map (\<lambda>p. case p of JsonPayload d \<Rightarrow> [d] | _ \<Rightarrow> []) (delivered h))"

lemma delivered_docs_Nil [simp]: "delivered_docs [] = []"
  by (simp add: delivered_docs_def)

lemma concat_map_docs: "concat (map (\<lambda>p. case p of JsonPayload d \<Rightarrow> [d] | _ \<Rightarrow> []) (map JsonPayload xs)) = xs"
  by (induction xs) auto

lemma adds_docs:
  "adds w (map JsonPayload xs) as w' \<Longrightarrow> delivered_docs (hist w') = delivered_docs (hist w) @ xs"
  unfolding adds_def delivered_docs_def by (simp only: map_append concat_append concat_map_docs)

lemma adds_docs_Nil: "adds w [] as w' \<Longrightarrow> delivered_docs (hist w') = delivered_docs (hist w)"
  using adds_docs [of w "[]"] by simp

lemma quiet_docs: "quiet_io m \<Longrightarrow> run_state m w = (x, w') \<Longrightarrow> delivered_docs (hist w') = delivered_docs (hist w)"
  by (rule adds_docs_Nil [OF quiet_ioD])

lemma ship_items_docs:
  assumes "run_state (ship_items env items) w = (ok, w')"
  shows "\<exists>k. delivered_docs (hist w') = delivered_docs (hist w) @ take k items"
  using ship_items_cases [OF assms] adds_docs by blast

section \<open>Windows that meet\<close>

text \<open>
  The polls at times \<open>us\<close>, each over the window that ends at its time and begins \<open>ov\<close> earlier, but not
  before \<open>nb\<close>: when no two of them (and \<open>nb\<close>) are more than \<open>ov\<close> apart, no moment is missed.
\<close>

fun chain :: "duration \<Rightarrow> time list \<Rightarrow> bool" where
  "chain ov (t1 # t2 # ts) \<longleftrightarrow> t2 - t1 \<le> ov \<and> chain ov (t2 # ts)"
| "chain ov ts \<longleftrightarrow> True"

lemma chain_covers:
  "chain ov (nb # us) \<Longrightarrow> us \<noteq> [] \<Longrightarrow> nb \<le> e \<Longrightarrow> e \<le> last us \<Longrightarrow>
   \<exists>u \<in> set us. u - ov \<le> e \<and> e \<le> u"
proof (induction us arbitrary: nb)
  case (Cons u us)
  show ?case
  proof (cases "e \<le> u")
    case True
    with Cons.prems show ?thesis by auto
  next
    case False
    with Cons.prems have "us \<noteq> []" by auto
    with Cons.IH [of u] Cons.prems False show ?thesis by auto
  qed
qed simp

text \<open>
  The windows that were asked for, oldest first: a request over a window has its two ends, and no other
  time in this format, in its URL.
\<close>

fun part_time :: "part \<Rightarrow> time list" where
  "part_time (RFC3339 t) = [t]"
| "part_time _ = []"

fun window_of :: "(http_req, 'r) eff \<Rightarrow> (time \<times> time) list" where
  "window_of (ECall q r) = (case concat (map part_time (url q)) of [s, u] \<Rightarrow> [(s, u)] | _ \<Rightarrow> [])"
| "window_of _ = []"

definition windows :: "(http_req, 'r) history \<Rightarrow> (time \<times> time) list" where
  "windows h = concat (map window_of (rev h))"

lemma windows_simps [simp]:
  "windows [] = []" "windows (e # h) = windows h @ window_of e"
  by (simp_all add: windows_def)

definition no_call :: "(http_req, 'r, 'a) io \<Rightarrow> bool" where
  "no_call m \<longleftrightarrow> (\<forall>w. windows (hist (snd (run_state m w))) = windows (hist w))"

lemma no_call_ret [simp, intro!]: "no_call (ret x)"
  by (simp add: no_call_def)

lemma no_call_bind [intro!]: "no_call m \<Longrightarrow> (\<And>x. no_call (f x)) \<Longrightarrow> no_call (State_Monad.bind m f)"
  unfolding no_call_def by (auto split: prod.split) (metis snd_conv)

lemma no_call_prims [simp, intro!]:
  "no_call (now env)" "no_call (onError e)" "no_call setStop" "no_call (waitFor env d)"
  "no_call (onWarning s)" "no_call (ship env m d)"
  by (auto simp: no_call_def run_simps)

lemma no_call_cull [simp, intro!]: "no_call (cull env ov dd)"
  by (induction dd) auto

lemma no_call_ship_items [simp, intro!]: "no_call (ship_items env items)"
  by (induction items) (auto simp: ship_or_stop_def ship_retry_def split: option.split)

lemma no_callD: "no_call m \<Longrightarrow> run_state m w = (x, w') \<Longrightarrow> windows (hist w') = windows (hist w)"
  by (metis no_call_def snd_conv)

text \<open>A clock that does not go back, and one that shows the latest time read so far.\<close>

definition clock_monotone :: "('q, 'r) env \<Rightarrow> bool" where
  "clock_monotone env \<longleftrightarrow> (\<forall>h t. ENow t \<in> set h \<longrightarrow> t \<le> e_now env h)"

fun latest :: "('q, 'r) history \<Rightarrow> time" where
  "latest [] = 0"
| "latest (ENow t # h) = max t (latest h)"
| "latest (_ # h) = latest h"

lemma latest_ge: "ENow t \<in> set h \<Longrightarrow> t \<le> latest h"
  by (induction h rule: latest.induct) auto

definition latest_env :: "('q \<Rightarrow> 'r) \<Rightarrow> ('q, 'r) env" where
  "latest_env answer = (steady_env 0 answer)\<lparr>e_now := latest\<rparr>"

lemma latest_env_simps [simp]:
  "e_now (latest_env answer) = latest" "e_ship (latest_env answer) h m d = None"
  "e_call (latest_env answer) h q = answer q" "e_stop (latest_env answer) h d = False"
  by (simp_all add: latest_env_def)

lemma clock_monotone_latest [simp]: "clock_monotone (latest_env answer)"
  by (simp add: clock_monotone_def latest_ge)

text \<open>Consecutive windows that leave nothing out, and what lies in them.\<close>

fun linked :: "(time \<times> time) list \<Rightarrow> bool" where
  "linked (w1 # w2 # ws) \<longleftrightarrow> fst w2 \<le> snd w1 \<and> linked (w2 # ws)"
| "linked ws \<longleftrightarrow> True"

lemma linked_snoc: "linked (ws @ [v]) \<longleftrightarrow> linked ws \<and> (ws \<noteq> [] \<longrightarrow> fst v \<le> snd (last ws))"
  by (induction ws rule: linked.induct) auto

lemma linked_covers:
  "linked ws \<Longrightarrow> ws \<noteq> [] \<Longrightarrow> fst (hd ws) \<le> x \<Longrightarrow> x \<le> snd (last ws) \<Longrightarrow>
   \<exists>(s, e) \<in> set ws. s \<le> x \<and> x \<le> e"
proof (induction ws rule: linked.induct)
  case (1 w1 w2 ws)
  show ?case
  proof (cases "x \<le> snd w1")
    case False
    with 1 show ?thesis by (auto split: prod.splits)
  qed (use 1 in auto)
qed auto

section \<open>Operations that only add to the history\<close>

definition grows :: "('q, 'r, 'a) io \<Rightarrow> bool" where
  "grows m \<longleftrightarrow> (\<forall>w. wp m (\<lambda>_ w'. \<exists>h. hist w' = h @ hist w) w)"

lemma growsD: "grows m \<Longrightarrow> run_state m w = (x, w') \<Longrightarrow> \<exists>h. hist w' = h @ hist w"
  unfolding grows_def by (blast dest: wpD)

lemma grows_wp: "grows m \<Longrightarrow> (\<And>x w' h. hist w' = h @ hist w \<Longrightarrow> Q x w') \<Longrightarrow> wp m Q w"
  by (rule wpI) (blast dest: growsD)

lemma grows_ret [simp, intro!]: "grows (ret x)"
  by (simp add: grows_def wp_simps)

lemma grows_bind [intro!]: "grows m \<Longrightarrow> (\<And>x. grows (f x)) \<Longrightarrow> grows (State_Monad.bind m f)"
  unfolding grows_def by (intro allI, rule wp_bindI, blast) (force intro: wp_mono)

lemma grows_quiet: "quiet_io m \<Longrightarrow> grows m"
  by (auto simp: grows_def quiet_io_def adds_def wp_def case_prod_beta)

lemma grows_ship [simp, intro!]: "grows (ship_or_stop env m)"
  unfolding grows_def by (intro allI, rule wp_ship_or_stop) (auto simp: adds_def)

lemma grows_prims [simp, intro!]:
  "grows (now env)" "grows (call env q)" "grows (onError e)" "grows (onWarning s)" "grows (waitFor env d)" "grows setStop"
  by (auto intro: grows_quiet)

end
