(* ===== verification/Poll_Okta.thy ===== *)
theory Poll_Okta
  imports Polling
begin

text \<open>
  \<open>okta/client.go\<close>: the adapter that polls the system log of Okta every thirty seconds over a window
  of thirty minutes and drops the events it has seen. \<open>client_err\<close> is the result of
  \<open>ClientOptions.Validate\<close> and of \<open>uspclient.NewClient\<close>; \<open>parse_time\<close> is \<open>time.Parse\<close> with the layout
  RFC 3339.
\<close>

section \<open>Model\<close>

record okta_config =
  okta_ApiKey :: string
  okta_URL :: string

definition okta_Validate :: "go_err option \<Rightarrow> okta_config \<Rightarrow> go_err option" where
  "okta_Validate client_err c =
     (case client_err of
        Some e \<Rightarrow> Some (GoWrap ''client_options: %v'' e)
      | None \<Rightarrow>
          if okta_URL c = '''' then Some (GoErr ''missing url'')
          else if okta_ApiKey c = '''' then Some (GoErr ''missing api key'')
          else None)"

record okta_adapter =
  okta_conf :: okta_config
  okta_dedupe :: dedupe

definition NewOktaAdapter :: "go_err option \<Rightarrow> okta_config \<Rightarrow> go_err + okta_adapter" where
  "NewOktaAdapter client_err conf =
     (case client_err of
        Some e \<Rightarrow> Inl e
      | None \<Rightarrow> Inr \<lparr>okta_conf = conf, okta_dedupe = []\<rparr>)"

definition okta_Close :: "('q, 'r) env \<Rightarrow> ('q, 'r, go_err option) io" where
  "okta_Close env = close_adapter env"

definition okta_logsURL :: string where
  "okta_logsURL = ''/api/v1/logs''"

definition okta_overlapPeriod :: duration where
  "okta_overlapPeriod = 30 * minute"

text \<open>The start of the window of a request made at \<open>currentTime\<close>.\<close>

definition okta_start :: "time \<Rightarrow> time \<Rightarrow> time" where
  "okta_start currentTime notBefore =
     (if currentTime - okta_overlapPeriod < notBefore then notBefore
      else currentTime - okta_overlapPeriod)"

definition okta_request :: "okta_config \<Rightarrow> string \<Rightarrow> time \<Rightarrow> time \<Rightarrow> http_req" where
  "okta_request c u start until =
     \<lparr>http_method = ''GET'',
      url = [Lit (okta_URL c), Lit u, Lit ''?since='', RFC3339 start, Lit ''&until='', RFC3339 until],
      headers = [(''Content-Type'', [Lit ''application/json'']),
                 (''Authorization'', [Lit ''SSWS '', Lit (okta_ApiKey c)])],
      body = []\<rparr>"

definition okta_makeOneRequest ::
    "(http_req, dict list http) env \<Rightarrow> (string \<Rightarrow> time option) \<Rightarrow> okta_config \<Rightarrow> string \<Rightarrow> time \<Rightarrow>
     dedupe \<Rightarrow> (http_req, dict list http, (dict list \<times> dedupe) option) io" where
  "okta_makeOneRequest env parse_time c u notBefore dd = do {
     currentTime \<leftarrow> now env;
     resp \<leftarrow> call env (okta_request c u (okta_start currentTime notBefore) currentTime);
     case resp of
       NewRequestErr e \<Rightarrow> do { setStop; ret (Some ([], dd)) }
     | DoErr e \<Rightarrow> do { onError (GoWrap ''http.Client.Do(): %v'' e); ret (Some ([], dd)) }
     | Resp st rd bd \<Rightarrow>
         if st \<noteq> 200 then do { onError (GoErr ''okta api non-200: %s''); ret (Some ([], dd)) }
         else (case bd of
                 Inl e \<Rightarrow> do { onError (GoWrap ''okta api invalid json: %v'' e); ret (Some ([], dd)) }
               | Inr items \<Rightarrow> do {
                   let (newItems, dd1) = new_items parse_time ''published'' ''uuid'' items dd;
                   dd2 \<leftarrow> cull env okta_overlapPeriod dd1;
                   ret (Some (newItems, dd2))
                 })
   }"

definition okta_fetchEvents ::
    "(http_req, dict list http) env \<Rightarrow> (string \<Rightarrow> time option) \<Rightarrow> okta_config \<Rightarrow> string \<Rightarrow> nat \<Rightarrow>
     dedupe \<Rightarrow> (http_req, dict list http, dedupe) io" where
  "okta_fetchEvents env parse_time c u n dd = do {
     adapterStart \<leftarrow> now env;
     poll_loop env (30 * second) (okta_makeOneRequest env parse_time c u adapterStart) n dd
   }"

section \<open>Shipping\<close>

lemma okta_request_quiet [intro]: "quiet_io (okta_makeOneRequest env p c u nb dd)"
  unfolding okta_makeOneRequest_def
  by (auto split: http.split sum.split prod.split)

interpretation okta: poller "okta_makeOneRequest env p c u nb" for env p c u nb
  by unfold_locales (rule quiet_ioD [OF okta_request_quiet])

text \<open>However long the adapter runs and whatever the service, the clock and the client answer, it
  ships one sequence of events: each is tried once with ten seconds, and a second and last time with
  an hour exactly when the buffer was full; all of them are delivered in order as long as no attempt
  fails otherwise, and after an attempt that fails nothing more is shipped and the adapter stops.\<close>

theorem okta_fetchEvents_ships:
  assumes "run_state (okta_fetchEvents env p c u n dd) w = (dd', w')"
  shows "\<exists>ps ok as. attempts (hist w') = attempts (hist w) @ as \<and> attempts_list ps ok as \<and>
    (ok \<longrightarrow> delivered (hist w') = delivered (hist w) @ ps) \<and> (\<not> ok \<longrightarrow> stop w')"
proof -
  let ?w1 = "w\<lparr>hist := ENow (e_now env (hist w)) # hist w\<rparr>"
  have "run_state (poll_loop env (30 * second)
      (okta_makeOneRequest env p c u (e_now env (hist w))) n dd) ?w1 = (dd', w')"
    using assms by (simp add: okta_fetchEvents_def run_simps)
  from okta.loop_ships [OF this] show ?thesis by auto
qed

section \<open>Every event once\<close>

text \<open>
  What is relied on: the clock does not go back, and the service honours the \<open>since\<close> parameter, so that no
  event it returns is older than the start of the window; \<open>pub\<close> is the second at which the event of
  an identifier was published.
\<close>

definition okta_honours_since ::
    "(http_req, dict list http) env \<Rightarrow> (string \<Rightarrow> time option) \<Rightarrow> (string \<Rightarrow> int) \<Rightarrow> bool" where
  "okta_honours_since env p pub \<longleftrightarrow>
     (\<forall>h c u s t re items i. e_call env h (okta_request c u s t) = Resp 200 re (Inr items) \<longrightarrow> i \<in> set items \<longrightarrow>
        pub (string_field i ''uuid'') = unix (parse_or_zero p (string_field i ''published'')) \<and>
        unix s \<le> pub (string_field i ''uuid''))"

lemma unix_mono: "s \<le> t \<Longrightarrow> unix s \<le> unix t"
  by (simp add: unix_def zdiv_mono1)

lemma window_not_old:
  assumes "\<forall>t. ENow t \<in> set h \<longrightarrow> t \<le> c" "unix (c - ov) \<le> pub k"
  shows "\<not> old pub ov h k"
proof
  assume "old pub ov h k"
  then obtain t where t: "ENow t \<in> set h" "pub k < unix (t - ov)" by (auto simp: old_def)
  then have "unix (t - ov) \<le> unix (c - ov)" using assms(1) by (intro unix_mono) simp
  with t(2) assms(2) show False by linarith
qed

lemma okta_request_once:
  assumes clock: "clock_monotone env" and api: "okta_honours_since env p pub"
    and inv: "once_inv ''uuid'' pub okta_overlapPeriod dd w"
    and run: "run_state (okta_makeOneRequest env p c u nb dd) w = (res, w')"
  shows "\<exists>items dd'. res = Some (items, dd') \<and> once_inv ''uuid'' pub okta_overlapPeriod dd' w' \<and>
    fresh_items ''uuid'' pub okta_overlapPeriod items dd' w'"
proof -
  define t where "t = e_now env (hist w)"
  define q where "q = okta_request c u (okta_start t nb) t"
  define r where "r = e_call env (ENow t # hist w) q"
  define w1 where "w1 = w\<lparr>hist := ECall q r # ENow t # hist w\<rparr>"
  have quiet: "adds w [] [] w1" by (auto simp: adds_def w1_def)
  have inv1: "once_inv ''uuid'' pub okta_overlapPeriod dd w1" using once_inv_adds [OF inv quiet] .
  show ?thesis
  proof (cases "\<exists>re items. r = Resp 200 re (Inr items)")
    case True
    then obtain re items where r: "r = Resp 200 re (Inr items)" by blast
    obtain ns dd1 where page: "new_items p ''published'' ''uuid'' items dd = (ns, dd1)" by fastforce
    obtain dd2 w2 where cl: "run_state (cull env okta_overlapPeriod dd1) w1 = (dd2, w2)" by fastforce
    have res: "res = Some (ns, dd2)" "w' = w2"
      using run cl page r
      by (auto simp: okta_makeOneRequest_def run_simps t_def q_def r_def w1_def)
    have contract: "pub (string_field i ''uuid'') = unix (parse_or_zero p (string_field i ''published'')) \<and>
        unix (okta_start t nb) \<le> pub (string_field i ''uuid'')" if "i \<in> set items" for i
      using api r that unfolding okta_honours_since_def r_def q_def by blast
    have "t' \<le> t" if "ENow t' \<in> set (hist w1)" for t'
      using that clock by (auto simp: w1_def clock_monotone_def t_def)
    moreover have "unix (t - okta_overlapPeriod) \<le> unix (okta_start t nb)"
      by (intro unix_mono) (simp add: okta_start_def)
    ultimately have "\<not> old pub okta_overlapPeriod (hist w1) (string_field i ''uuid'')" if "i \<in> set items" for i
      using contract [OF that] by (intro window_not_old [of _ t]) auto
    then show ?thesis
      using once_inv_page [OF inv1 page cl] contract res by blast
  next
    case False
    have "res = Some ([], dd) \<and> adds w1 [] [] w'"
    proof (cases r)
      case (Resp st re bd)
      with False run show ?thesis
        by (cases bd) (auto simp: okta_makeOneRequest_def run_simps t_def q_def r_def w1_def adds_def split: if_splits)
    qed (use run in \<open>auto simp: okta_makeOneRequest_def run_simps t_def q_def r_def w1_def adds_def\<close>)
    then show ?thesis
      using once_inv_adds [OF inv1] by (auto simp: fresh_items_def)
  qed
qed

lemma okta_loop_once:
  assumes clock: "clock_monotone env" and api: "okta_honours_since env p pub"
    and "once_inv ''uuid'' pub okta_overlapPeriod dd w"
    and "run_state (poll_loop env d (okta_makeOneRequest env p c u nb) n dd) w = (dd', w')"
  shows "once_inv ''uuid'' pub okta_overlapPeriod dd' w'"
proof (rule poll_loop_inv [where I = "once_inv ''uuid'' pub okta_overlapPeriod"
      and J = "\<lambda>items dd w. once_inv ''uuid'' pub okta_overlapPeriod dd w \<and>
        fresh_items ''uuid'' pub okta_overlapPeriod items dd w", OF _ _ _ _ assms(3,4)])
  show "once_inv ''uuid'' pub okta_overlapPeriod st w2"
    if "once_inv ''uuid'' pub okta_overlapPeriod st w1" "run_state (waitFor env d) w1 = (b, w2)" for st w1 b w2
    using once_inv_adds [OF that(1)] quiet_ioD [OF _ that(2)] by blast
qed (use okta_request_once [OF clock api] once_inv_ship in blast)+

text \<open>C6: no event is delivered twice: starting with an empty table and nothing delivered, after any number
  of turns the identifiers of the delivered events are distinct, provided the clock does not go back
  and the service returns no event from before the window it is asked for.\<close>

theorem okta_delivers_once:
  assumes "clock_monotone env" "okta_honours_since env p pub" "delivered (hist w) = []"
    and "run_state (okta_fetchEvents env p c u n []) w = (dd', w')"
  shows "distinct (delivered_ids ''uuid'' (hist w'))"
proof -
  let ?w1 = "w\<lparr>hist := ENow (e_now env (hist w)) # hist w\<rparr>"
  have "once_inv ''uuid'' pub okta_overlapPeriod [] ?w1"
    using assms(3) by (simp add: once_inv_def delivered_ids_def)
  moreover have "run_state (poll_loop env (30 * second)
      (okta_makeOneRequest env p c u (e_now env (hist w))) n []) ?w1 = (dd', w')"
    using assms(4) by (simp add: okta_fetchEvents_def run_simps)
  ultimately have "once_inv ''uuid'' pub okta_overlapPeriod dd' w'"
    using okta_loop_once [OF assms(1,2)] by blast
  then show ?thesis by (simp add: once_inv_def)
qed

text \<open>A service with one event at time zero, for the witnesses.\<close>

definition one_event :: "http_req \<Rightarrow> dict list http" where
  "one_event q =
     (case url q ! 3 of
        RFC3339 s \<Rightarrow>
          if unix s \<le> 0 then Resp 200 None (Inr [[(''uuid'', GString ''a'')]])
          else Resp 200 None (Inr [])
      | _ \<Rightarrow> DoErr (GoErr ''no window''))"

definition one_event_env :: "(http_req, dict list http) env" where
  "one_event_env = \<lparr>e_now = latest, e_ship = \<lambda>_ _ _. None, e_call = \<lambda>_. one_event,
     e_stop = \<lambda>_ _. False, e_drain = \<lambda>_. None, e_close = \<lambda>_. None\<rparr>"

lemma one_event_contract:
  "clock_monotone one_event_env" "okta_honours_since one_event_env (\<lambda>_. Some 0) (\<lambda>_. 0)"
  by (auto simp: clock_monotone_def one_event_env_def latest_ge okta_honours_since_def one_event_def
      okta_request_def parse_or_zero_def unix_def split: if_splits)

definition okta_demo :: okta_config where
  "okta_demo = \<lparr>okta_ApiKey = ''k'', okta_URL = ''https://x''\<rparr>"

lemma okta_delivers_once_witness:
  "\<exists>dd' w'. run_state (okta_fetchEvents one_event_env (\<lambda>_. Some 0) okta_demo okta_logsURL 2 []) fresh_world
      = (dd', w') \<and> distinct (delivered_ids ''uuid'' (hist w'))"
proof -
  obtain dd' w' where r: "run_state (okta_fetchEvents one_event_env (\<lambda>_. Some 0) okta_demo okta_logsURL 2 [])
      fresh_world = (dd', w')" by fastforce
  have "delivered (hist (fresh_world :: (http_req, dict list http) world)) = []"
    by (simp add: fresh_world_def)
  from okta_delivers_once [OF one_event_contract this r] r show ?thesis by blast
qed

lemma okta_fetchEvents_ships_witness:
  "\<exists>dd' w' ps ok as. run_state (okta_fetchEvents one_event_env (\<lambda>_. Some 0) okta_demo okta_logsURL 1 []) fresh_world
      = (dd', w') \<and> attempts (hist w') = as \<and> attempts_list ps ok as"
proof -
  obtain dd' w' where r: "run_state (okta_fetchEvents one_event_env (\<lambda>_. Some 0) okta_demo okta_logsURL 1 [])
      fresh_world = (dd', w')" by fastforce
  from okta_fetchEvents_ships [OF r] r show ?thesis by (auto simp: fresh_world_def)
qed

section \<open>No gap between the windows\<close>

lemma window_of_okta_request [simp]: "window_of (ECall (okta_request c u s t) r) = [(s, t)]"
  by (simp add: okta_request_def)

lemma okta_request_window:
  assumes "run_state (okta_makeOneRequest env p c u nb dd) w = (res, w')"
  shows "windows (hist w') = windows (hist w) @ [(okta_start (e_now env (hist w)) nb, e_now env (hist w))]"
proof -
  let ?t = "e_now env (hist w)"
  let ?q = "okta_request c u (okta_start ?t nb) ?t"
  define r where "r = e_call env (ENow ?t # hist w) ?q"
  define w1 where "w1 = w\<lparr>hist := ECall ?q r # ENow ?t # hist w\<rparr>"
  define k where "k = (\<lambda>resp. case resp of
       NewRequestErr e \<Rightarrow> do { setStop; ret (Some ([], dd)) }
     | DoErr e \<Rightarrow> do { onError (GoWrap ''http.Client.Do(): %v'' e); ret (Some ([], dd)) }
     | Resp st rd bd \<Rightarrow>
         if st \<noteq> 200 then do { onError (GoErr ''okta api non-200: %s''); ret (Some ([], dd)) }
         else (case bd of
                 Inl e \<Rightarrow> do { onError (GoWrap ''okta api invalid json: %v'' e); ret (Some ([], dd)) }
               | Inr items \<Rightarrow> do {
                   let (newItems, dd1) = new_items p ''published'' ''uuid'' items dd;
                   dd2 \<leftarrow> cull env okta_overlapPeriod dd1;
                   ret (Some (newItems, dd2))
                 }))"
  have "no_call (k resp)" for resp
    unfolding k_def by (auto split: http.split sum.split prod.split)
  moreover have "run_state (k r) w1 = (res, w')"
    using assms by (simp add: okta_makeOneRequest_def run_simps k_def r_def w1_def)
  ultimately have "windows (hist w') = windows (hist w1)" by (rule no_callD)
  then show ?thesis by (simp add: w1_def del: window_of.simps(1))
qed

lemma okta_loop_windows:
  assumes "\<forall>(s, u) \<in> set (windows (hist w)). s = okta_start u nb"
    and "run_state (poll_loop env d (okta_makeOneRequest env p c u nb) n dd) w = (dd', w')"
  shows "\<forall>(s, u) \<in> set (windows (hist w')). s = okta_start u nb"
proof (rule poll_loop_inv [where I = "\<lambda>dd w. \<forall>(s, u) \<in> set (windows (hist w)). s = okta_start u nb"
      and J = "\<lambda>items dd w. \<forall>(s, u) \<in> set (windows (hist w)). s = okta_start u nb", OF _ _ _ _ assms])
  show "\<forall>(s, u) \<in> set (windows (hist w2)). s = okta_start u nb"
    if "\<forall>(s, u) \<in> set (windows (hist w1)). s = okta_start u nb" "run_state (waitFor env d) w1 = (b, w2)"
    for w1 b w2 and st :: dedupe
    using that(1) no_callD [OF _ that(2)] by (simp add: no_call_prims)
  show "\<forall>(s, u) \<in> set (windows (hist w2)). s = okta_start u nb"
    if "\<forall>(s, u) \<in> set (windows (hist w1)). s = okta_start u nb"
      "run_state (ship_items env items) w1 = (ok, w2)" for w1 items ok w2 and st :: dedupe
    using that(1) no_callD [OF no_call_ship_items that(2)] by simp
qed (use okta_request_window in auto)

text \<open>C7: as long as the polls are at most thirty minutes apart, the first one counted from the start of the
  adapter, every moment from that start to the last poll lies in a window that was asked for: no event is
  missed between two polls.\<close>

theorem okta_windows_cover:
  assumes "run_state (okta_fetchEvents env p c u n dd) w = (dd', w')"
    and "windows (hist w) = []"
    and "chain okta_overlapPeriod (e_now env (hist w) # map snd (windows (hist w')))"
    and "windows (hist w') \<noteq> []"
    and "e_now env (hist w) \<le> e" "e \<le> snd (last (windows (hist w')))"
  shows "\<exists>(s, t) \<in> set (windows (hist w')). s \<le> e \<and> e \<le> t"
proof -
  let ?nb = "e_now env (hist w)" and ?ws = "windows (hist w')"
  let ?w1 = "w\<lparr>hist := ENow ?nb # hist w\<rparr>"
  have "run_state (poll_loop env (30 * second) (okta_makeOneRequest env p c u ?nb) n dd) ?w1 = (dd', w')"
    using assms(1) by (simp add: okta_fetchEvents_def run_simps)
  with assms(2) have ws: "\<forall>(s, u) \<in> set ?ws. s = okta_start u ?nb"
    using okta_loop_windows [of ?w1 ?nb] by simp
  have "last (map snd ?ws) = snd (last ?ws)" using assms(4) by (simp add: last_map)
  then obtain t where t: "t \<in> set (map snd ?ws)" "t - okta_overlapPeriod \<le> e" "e \<le> t"
    using chain_covers [OF assms(3), of e] assms(4-6) by auto
  then obtain s where "(s, t) \<in> set ?ws" by auto
  moreover from this have "s \<le> e" using ws t(2) assms(5) by (auto simp: okta_start_def)
  ultimately show ?thesis using t(3) by blast
qed

lemma okta_windows_cover_witness:
  "\<exists>(s, t) \<in> {(0, 0) :: time \<times> time}. s \<le> 0 \<and> 0 \<le> t \<and>
     windows (hist (snd (run_state (okta_fetchEvents one_event_env (\<lambda>_. Some 0) okta_demo okta_logsURL 1 [])
       fresh_world))) = [(s, t)]"
proof -
  obtain dd' w' where r: "run_state (okta_fetchEvents one_event_env (\<lambda>_. Some 0) okta_demo okta_logsURL 1 [])
      (fresh_world :: (http_req, dict list http) world) = (dd', w')" by fastforce
  have ws: "windows (hist w') = [(0, 0)]"
    using r by (auto simp: okta_fetchEvents_def fresh_world_def one_event_env_def run_simps okta_makeOneRequest_def
        okta_start_def one_event_def okta_request_def unix_def okta_overlapPeriod_def Let_def parse_or_zero_def
        string_field_def ship_or_stop_def ship_retry_def json_message_def)
  have "\<exists>(s, t) \<in> set (windows (hist w')). s \<le> 0 \<and> 0 \<le> t"
    by (rule okta_windows_cover [OF r]) (simp_all add: ws fresh_world_def one_event_env_def okta_overlapPeriod_def)
  then show ?thesis using ws r by simp
qed

end
