(* ===== verification/Poll_Pages.thy ===== *)
theory Poll_Pages
  imports Poll_Okta
begin

text \<open>
  The polling adapters that read several pages per request: \<open>hubspot/client.go\<close>, \<open>pandadoc/client.go\<close>,
  \<open>zendesk/client.go\<close> and \<open>mimecast/client.go\<close>. Their \<open>fetchEvents\<close> is the loop of \<open>Polling\<close>; the page loop of
  \<open>makeOneRequest\<close> runs with fuel, and \<open>None\<close> means that it is still paging when the fuel is used up.
  A field that a response does not hold has the zero value its Go type gives it.
\<close>

section \<open>HubSpot\<close>

definition hubspot_Validate :: "go_err option \<Rightarrow> string \<Rightarrow> go_err option" where
  "hubspot_Validate client_err accessToken =
     (case client_err of
        Some e \<Rightarrow> Some (GoWrap ''client_options: %v'' e)
      | None \<Rightarrow> if accessToken = '''' then Some (GoErr ''missing access token'') else None)"

text \<open>The constructor gives the table of the adapter, or the error of \<open>uspclient.NewClient\<close>.\<close>

definition NewHubSpotAdapter :: "go_err option \<Rightarrow> go_err + dedupe" where
  "NewHubSpotAdapter client_err = (case client_err of Some e \<Rightarrow> Inl e | None \<Rightarrow> Inr [])"

definition hubspot_Close :: "('q, 'r) env \<Rightarrow> ('q, 'r, go_err option) io" where
  "hubspot_Close env = close_adapter env"

record hubspot_page =
  hs_link :: string
  hs_after :: string
  hs_results :: "dict list"

definition hubspot_logsURL :: string where
  "hubspot_logsURL = ''https://api.hubapi.com/account-info/v3/activity/audit-logs''"

definition hubspot_overlapPeriod :: duration where
  "hubspot_overlapPeriod = 30 * minute"

definition hubspot_start :: "time \<Rightarrow> time \<Rightarrow> time" where
  "hubspot_start currentTime notBefore =
     (if currentTime - hubspot_overlapPeriod < notBefore then notBefore
      else currentTime - hubspot_overlapPeriod)"

definition hubspot_request :: "string \<Rightarrow> part \<Rightarrow> time \<Rightarrow> http_req" where
  "hubspot_request accessToken start until =
     \<lparr>http_method = ''GET'',
      url = [Lit hubspot_logsURL, Lit ''?occurredAfter='', start, Lit ''&occurredBefore='', RFC3339 until],
      headers = [(''Content-Type'', [Lit ''application/json'']),
                 (''Authorization'', [Lit ''Bearer '', Lit accessToken])],
      body = []\<rparr>"

fun hubspot_pages ::
    "(http_req, hubspot_page http) env \<Rightarrow> (string \<Rightarrow> time option) \<Rightarrow> string \<Rightarrow> nat \<Rightarrow> part \<Rightarrow> time \<Rightarrow>
     dict list \<Rightarrow> dedupe \<Rightarrow> (http_req, hubspot_page http, (dict list \<times> dedupe) option) io" where
  "hubspot_pages env p tok 0 start until allItems dd = ret None"
| "hubspot_pages env p tok (Suc fuel) start until allItems dd = do {
     resp \<leftarrow> call env (hubspot_request tok start until);
     case resp of
       NewRequestErr e \<Rightarrow> do { setStop; ret (Some ([], dd)) }
     | DoErr e \<Rightarrow> do { onError (GoWrap ''http.Client.Do(): %v'' e); ret (Some ([], dd)) }
     | Resp st rd bd \<Rightarrow>
         if st \<noteq> 200 then do { onError (GoErr ''hubspot api non-200: %s''); ret (Some ([], dd)) }
         else (case rd of
           Some e \<Rightarrow> do { onError (GoWrap ''error: %v'' e); ret (Some ([], dd)) }
         | None \<Rightarrow>
             (case bd of
                Inl e \<Rightarrow> do { onError (GoWrap ''hubspot api invalid json: %v'' e); ret (Some ([], dd)) }
              | Inr response \<Rightarrow> do {
                  let (newItems, dd1) = new_items p ''occurredAt'' ''id'' (hs_results response) dd;
                  if hs_link response = '''' then do {
                    dd2 \<leftarrow> cull env hubspot_overlapPeriod dd1;
                    ret (Some (allItems @ newItems, dd2))
                  } else
                    hubspot_pages env p tok fuel (Lit (hs_after response)) until (allItems @ newItems) dd1
                }))
   }"

definition hubspot_makeOneRequest ::
    "(http_req, hubspot_page http) env \<Rightarrow> (string \<Rightarrow> time option) \<Rightarrow> string \<Rightarrow> nat \<Rightarrow> time \<Rightarrow> dedupe \<Rightarrow>
     (http_req, hubspot_page http, (dict list \<times> dedupe) option) io" where
  "hubspot_makeOneRequest env p tok fuel notBefore dd = do {
     currentTime \<leftarrow> now env;
     hubspot_pages env p tok fuel (RFC3339 (hubspot_start currentTime notBefore)) currentTime [] dd
   }"

definition hubspot_fetchEvents ::
    "(http_req, hubspot_page http) env \<Rightarrow> (string \<Rightarrow> time option) \<Rightarrow> string \<Rightarrow> nat \<Rightarrow> nat \<Rightarrow> dedupe \<Rightarrow>
     (http_req, hubspot_page http, dedupe) io" where
  "hubspot_fetchEvents env p tok fuel n dd = do {
     adapterStart \<leftarrow> now env;
     poll_loop env (30 * second) (hubspot_makeOneRequest env p tok fuel adapterStart) n dd
   }"

lemma hubspot_pages_quiet [intro!]: "quiet_io (hubspot_pages env p tok fuel start until allItems dd)"
  by (induction fuel arbitrary: start allItems dd)
    (auto split: http.split sum.split prod.split option.split)

lemma hubspot_request_quiet: "quiet_io (hubspot_makeOneRequest env p tok fuel nb dd)"
  by (auto simp: hubspot_makeOneRequest_def)

interpretation hubspot: poller "hubspot_makeOneRequest env p tok fuel nb" for env p tok fuel nb
  by unfold_locales (rule quiet_ioD [OF hubspot_request_quiet])

section \<open>PandaDoc\<close>

definition pandadoc_Validate :: "go_err option \<Rightarrow> string \<Rightarrow> go_err option" where
  "pandadoc_Validate client_err apiKey =
     (case client_err of
        Some e \<Rightarrow> Some (GoWrap ''client_options: %v'' e)
      | None \<Rightarrow> if apiKey = '''' then Some (GoErr ''missing api key'') else None)"

definition NewPandaDocAdapter :: "go_err option \<Rightarrow> go_err + dedupe" where
  "NewPandaDocAdapter client_err = (case client_err of Some e \<Rightarrow> Inl e | None \<Rightarrow> Inr [])"

definition pandadoc_Close :: "('q, 'r) env \<Rightarrow> ('q, 'r, go_err option) io" where
  "pandadoc_Close env = close_adapter env"

definition pandadoc_overlapPeriod :: duration where
  "pandadoc_overlapPeriod = 30 * second"

definition pandadoc_start :: "time \<Rightarrow> time \<Rightarrow> time" where
  "pandadoc_start currentTime since =
     (if currentTime - pandadoc_overlapPeriod < since then since
      else currentTime - pandadoc_overlapPeriod)"

text \<open>\<open>UTC().Truncate(time.Millisecond).Format("2006-01-02T15:04:05.000")\<close>.\<close>

definition millis :: "time \<Rightarrow> part" where
  "millis t = Layout ''2006-01-02T15:04:05.000'' (t - t mod millisecond)"

definition pandadoc_request :: "string \<Rightarrow> time \<Rightarrow> time \<Rightarrow> nat \<Rightarrow> http_req" where
  "pandadoc_request apiKey start until page =
     \<lparr>http_method = ''GET'',
      url = [Lit ''https://api.pandadoc.com/public/v1/logs'', Lit ''?since='', millis start, Lit ''&to='',
             millis until, Lit ''&page='', Num (int page)],
      headers = [(''Content-Type'', [Lit ''application/json'']),
                 (''Authorization'', [Lit ''Api-Key '', Lit apiKey])],
      body = []\<rparr>"

text \<open>The detection time after a page: that of its last new item, else the one the request began with.\<close>

definition last_epoch :: "(string \<Rightarrow> time option) \<Rightarrow> string \<Rightarrow> time \<Rightarrow> dict list \<Rightarrow> time" where
  "last_epoch p ts_key since newItems =
     (if newItems = [] then since else parse_or_zero p (string_field (last newItems) ts_key))"

fun pandadoc_pages ::
    "(http_req, dict list http) env \<Rightarrow> (string \<Rightarrow> time option) \<Rightarrow> string \<Rightarrow> time \<Rightarrow> nat \<Rightarrow> nat \<Rightarrow> time \<Rightarrow> time \<Rightarrow>
     dict list \<Rightarrow> dedupe \<Rightarrow> time \<Rightarrow>
     (http_req, dict list http, (dict list \<times> (dedupe \<times> time)) option) io" where
  "pandadoc_pages env p key since 0 page start until allItems dd lastDet = ret None"
| "pandadoc_pages env p key since (Suc fuel) page start until allItems dd lastDet = do {
     resp \<leftarrow> call env (pandadoc_request key start until page);
     case resp of
       NewRequestErr e \<Rightarrow> do { setStop; ret (Some ([], (dd, lastDet))) }
     | DoErr e \<Rightarrow> do { onError (GoWrap ''http.Client.Do(): %v'' e); ret (Some ([], (dd, lastDet))) }
     | Resp st rd bd \<Rightarrow>
         if st \<noteq> 200 then do { onError (GoErr ''pandadoc api non-200: %s''); ret (Some ([], (dd, lastDet))) }
         else (case rd of
           Some e \<Rightarrow> do { onError (GoWrap ''error: %v'' e); ret (Some ([], (dd, lastDet))) }
         | None \<Rightarrow>
             (case bd of
                Inl e \<Rightarrow> do { onError (GoWrap ''pandadoc api invalid json: %v'' e); ret (Some ([], (dd, lastDet))) }
              | Inr items \<Rightarrow> do {
                  let (newItems, dd1) = new_items p ''request_time'' ''id'' items dd;
                  let lastDet1 = last_epoch p ''request_time'' since newItems;
                  if length items < 100 then do {
                    dd2 \<leftarrow> cull env pandadoc_overlapPeriod dd1;
                    ret (Some (allItems @ newItems, (dd2, lastDet1)))
                  } else
                    pandadoc_pages env p key since fuel (page + 1) start until (allItems @ newItems) dd1 lastDet1
                }))
   }"

definition pandadoc_makeOneRequest ::
    "(http_req, dict list http) env \<Rightarrow> (string \<Rightarrow> time option) \<Rightarrow> string \<Rightarrow> nat \<Rightarrow> dedupe \<times> time \<Rightarrow>
     (http_req, dict list http, (dict list \<times> (dedupe \<times> time)) option) io" where
  "pandadoc_makeOneRequest env p key fuel st = (case st of (dd, since) \<Rightarrow> do {
     currentTime \<leftarrow> now env;
     pandadoc_pages env p key since fuel 1 (pandadoc_start currentTime since) currentTime [] dd zero_time
   })"

definition pandadoc_fetchEvents ::
    "(http_req, dict list http) env \<Rightarrow> (string \<Rightarrow> time option) \<Rightarrow> string \<Rightarrow> nat \<Rightarrow> nat \<Rightarrow> dedupe \<Rightarrow>
     (http_req, dict list http, dedupe \<times> time) io" where
  "pandadoc_fetchEvents env p key fuel n dd = do {
     since \<leftarrow> now env;
     poll_loop env (30 * second) (pandadoc_makeOneRequest env p key fuel) n (dd, since)
   }"

lemma pandadoc_pages_quiet [intro!]:
  "quiet_io (pandadoc_pages env p key since fuel page start until allItems dd lastDet)"
  by (induction fuel arbitrary: page allItems dd lastDet)
    (auto split: http.split sum.split prod.split option.split simp: Let_def)

lemma pandadoc_request_quiet: "quiet_io (pandadoc_makeOneRequest env p key fuel st)"
  by (auto simp: pandadoc_makeOneRequest_def split: prod.split)

interpretation pandadoc: poller "pandadoc_makeOneRequest env p key fuel" for env p key fuel
  by unfold_locales (rule quiet_ioD [OF pandadoc_request_quiet])

section \<open>Zendesk\<close>

record zendesk_config =
  zd_ApiToken :: string
  zd_ZendeskDomain :: string
  zd_ZendeskEmail :: string

definition zendesk_Validate :: "go_err option \<Rightarrow> zendesk_config \<Rightarrow> go_err option" where
  "zendesk_Validate client_err c =
     (case client_err of
        Some e \<Rightarrow> Some (GoWrap ''client_options: %v'' e)
      | None \<Rightarrow>
          if zd_ApiToken c = '''' then Some (GoErr ''missing api token'')
          else if zd_ZendeskDomain c = '''' then Some (GoErr ''missing zendesk domain'')
          else if zd_ZendeskEmail c = '''' then Some (GoErr ''missing zendesk email'')
          else None)"

definition NewZendeskAdapter :: "go_err option \<Rightarrow> go_err + dedupe" where
  "NewZendeskAdapter client_err = (case client_err of Some e \<Rightarrow> Inl e | None \<Rightarrow> Inr [])"

definition zendesk_Close :: "('q, 'r) env \<Rightarrow> ('q, 'r, go_err option) io" where
  "zendesk_Close env = close_adapter env"

record zendesk_page =
  zd_AuditLogs :: "dict list"
  zd_HasMore :: bool
  zd_Next :: string

definition zendesk_overlapPeriod :: duration where
  "zendesk_overlapPeriod = 30 * second"

definition zendesk_start :: "time \<Rightarrow> time \<Rightarrow> time" where
  "zendesk_start currentTime since =
     (if currentTime - zendesk_overlapPeriod < since then since
      else currentTime - zendesk_overlapPeriod)"

definition zendesk_request :: "zendesk_config \<Rightarrow> part \<Rightarrow> time \<Rightarrow> http_req" where
  "zendesk_request c start until =
     \<lparr>http_method = ''GET'',
      url = [Lit ''https://'', Lit (zd_ZendeskDomain c), Lit ''/api/v2/audit_logs'',
             Lit ''?filter[created_at][]='', start, Lit ''&filter[created_at][]='', RFC3339 until,
             Lit ''&page[size]=100''],
      headers = [(''Content-Type'', [Lit ''application/json'']),
                 (''Authorization'', [Lit ''Basic '',
                    Base64 (zd_ZendeskEmail c @ ''/token:'' @ zd_ApiToken c)])],
      body = []\<rparr>"

fun zendesk_pages ::
    "(http_req, zendesk_page http) env \<Rightarrow> (string \<Rightarrow> time option) \<Rightarrow> zendesk_config \<Rightarrow> time \<Rightarrow> nat \<Rightarrow> part \<Rightarrow>
     time \<Rightarrow> dict list \<Rightarrow> dedupe \<Rightarrow> time \<Rightarrow>
     (http_req, zendesk_page http, (dict list \<times> (dedupe \<times> time)) option) io" where
  "zendesk_pages env p c since 0 start until allItems dd lastDet = ret None"
| "zendesk_pages env p c since (Suc fuel) start until allItems dd lastDet = do {
     resp \<leftarrow> call env (zendesk_request c start until);
     case resp of
       NewRequestErr e \<Rightarrow> do { setStop; ret (Some ([], (dd, lastDet))) }
     | DoErr e \<Rightarrow> do { onError (GoWrap ''http.Client.Do(): %v'' e); ret (Some ([], (dd, lastDet))) }
     | Resp st rd bd \<Rightarrow>
         if st \<noteq> 200 then do { onError (GoErr ''zendesk api non-200: %s''); ret (Some ([], (dd, lastDet))) }
         else (case rd of
           Some e \<Rightarrow> do { onError (GoWrap ''error: %v'' e); ret (Some ([], (dd, lastDet))) }
         | None \<Rightarrow>
             (case bd of
                Inl e \<Rightarrow> do { onError (GoWrap ''zendesk api invalid json: %v'' e); ret (Some ([], (dd, lastDet))) }
              | Inr response \<Rightarrow> do {
                  let (newItems, dd1) = new_items p ''created_at'' ''id'' (zd_AuditLogs response) dd;
                  let lastDet1 = last_epoch p ''created_at'' since newItems;
                  if \<not> zd_HasMore response then do {
                    dd2 \<leftarrow> cull env zendesk_overlapPeriod dd1;
                    ret (Some (allItems @ newItems, (dd2, lastDet1)))
                  } else
                    zendesk_pages env p c since fuel (Lit (zd_Next response)) until (allItems @ newItems) dd1 lastDet1
                }))
   }"

definition zendesk_makeOneRequest ::
    "(http_req, zendesk_page http) env \<Rightarrow> (string \<Rightarrow> time option) \<Rightarrow> zendesk_config \<Rightarrow> nat \<Rightarrow> dedupe \<times> time \<Rightarrow>
     (http_req, zendesk_page http, (dict list \<times> (dedupe \<times> time)) option) io" where
  "zendesk_makeOneRequest env p c fuel st = (case st of (dd, since) \<Rightarrow> do {
     currentTime \<leftarrow> now env;
     zendesk_pages env p c since fuel (RFC3339 (zendesk_start currentTime since)) currentTime [] dd zero_time
   })"

definition zendesk_fetchEvents ::
    "(http_req, zendesk_page http) env \<Rightarrow> (string \<Rightarrow> time option) \<Rightarrow> zendesk_config \<Rightarrow> nat \<Rightarrow> nat \<Rightarrow> dedupe \<Rightarrow>
     (http_req, zendesk_page http, dedupe \<times> time) io" where
  "zendesk_fetchEvents env p c fuel n dd = do {
     since \<leftarrow> now env;
     poll_loop env (30 * second) (zendesk_makeOneRequest env p c fuel) n (dd, since)
   }"

lemma zendesk_pages_quiet [intro!]:
  "quiet_io (zendesk_pages env p c since fuel start until allItems dd lastDet)"
  by (induction fuel arbitrary: start allItems dd lastDet)
    (auto split: http.split sum.split prod.split option.split simp: Let_def)

lemma zendesk_request_quiet: "quiet_io (zendesk_makeOneRequest env p c fuel st)"
  by (auto simp: zendesk_makeOneRequest_def split: prod.split)

interpretation zendesk: poller "zendesk_makeOneRequest env p c fuel" for env p c fuel
  by unfold_locales (rule quiet_ioD [OF zendesk_request_quiet])

section \<open>Mimecast\<close>

record mimecast_config =
  mc_ClientId :: string
  mc_ClientSecret :: string

definition mimecast_Validate :: "go_err option \<Rightarrow> mimecast_config \<Rightarrow> go_err option" where
  "mimecast_Validate client_err c =
     (case client_err of
        Some e \<Rightarrow> Some (GoWrap ''client_options: %v'' e)
      | None \<Rightarrow>
          if mc_ClientId c = '''' then Some (GoErr ''missing client id'')
          else if mc_ClientSecret c = '''' then Some (GoErr ''missing client secret'')
          else None)"

definition NewMimecastAdapter :: "go_err option \<Rightarrow> go_err + dedupe" where
  "NewMimecastAdapter client_err = (case client_err of Some e \<Rightarrow> Inl e | None \<Rightarrow> Inr [])"

definition mimecast_Close :: "('q, 'r) env \<Rightarrow> ('q, 'r, go_err option) io" where
  "mimecast_Close env = close_adapter env"

record AuditLog =
  mc_ID :: string
  mc_AuditType :: string
  mc_User :: string
  mc_EventTime :: string
  mc_EventInfo :: string
  mc_Category :: string

text \<open>The two kinds of answers: of the token endpoint, and of the audit log endpoint.\<close>

datatype mimecast_answer =
    McToken string
  | McPage "AuditLog list" string

definition audit_item :: "AuditLog \<Rightarrow> dict" where
  "audit_item item =
     [(''id'', GString (mc_ID item)), (''auditType'', GString (mc_AuditType item)),
      (''user'', GString (mc_User item)), (''eventTime'', GString (mc_EventTime item)),
      (''eventInfo'', GString (mc_EventInfo item)), (''category'', GString (mc_Category item))]"

definition mimecast_overlapPeriod :: duration where
  "mimecast_overlapPeriod = 30 * second"

definition mimecast_start :: "time \<Rightarrow> time \<Rightarrow> time" where
  "mimecast_start currentTime since =
     (if currentTime - mimecast_overlapPeriod < since then since
      else currentTime - mimecast_overlapPeriod)"

definition mimecast_baseURL :: string where
  "mimecast_baseURL = ''https://api.services.mimecast.com''"

definition zoned :: "time \<Rightarrow> part" where
  "zoned t = Layout ''2006-01-02T15:04:05-0700'' t"

text \<open>The JSON body of a request, as its values in order.\<close>

definition mimecast_request :: "string \<Rightarrow> time \<Rightarrow> time \<Rightarrow> string \<Rightarrow> http_req" where
  "mimecast_request token start end_time pageToken =
     \<lparr>http_method = ''POST'', url = [Lit mimecast_baseURL, Lit ''/api/audit/get-audit-events''],
      headers = [(''Authorization'', [Lit ''Bearer '', Lit token]),
                 (''Content-Type'', [Lit ''application/json''])],
      body = [Lit ''pageSize'', Num 50, Lit ''startDateTime'', zoned start, Lit ''endDateTime'', zoned end_time] @
             (if pageToken \<noteq> '''' then [Lit ''pageToken'', Lit pageToken] else [])\<rparr>"

definition mimecast_token_request :: "mimecast_config \<Rightarrow> http_req" where
  "mimecast_token_request c =
     \<lparr>http_method = ''POST'', url = [Lit mimecast_baseURL, Lit ''/oauth/token''],
      headers = [(''Content-Type'', [Lit ''application/x-www-form-urlencoded''])],
      body = [Lit ''grant_type=client_credentials&client_id='', Lit (mc_ClientId c),
              Lit ''&client_secret='', Lit (mc_ClientSecret c)]\<rparr>"

definition mimecast_getAuthToken ::
    "(http_req, mimecast_answer http) env \<Rightarrow> mimecast_config \<Rightarrow>
     (http_req, mimecast_answer http, go_err + string) io" where
  "mimecast_getAuthToken env c = do {
     resp \<leftarrow> call env (mimecast_token_request c);
     ret (case resp of
            NewRequestErr e \<Rightarrow> Inl e
          | DoErr e \<Rightarrow> Inl e
          | Resp st rd bd \<Rightarrow>
              if st \<noteq> 200 then Inl (GoErr ''failed to get token, status code: %d'')
              else (case bd of
                      Inl e \<Rightarrow> Inl e
                    | Inr (McToken t) \<Rightarrow> Inr t
                    | Inr _ \<Rightarrow> Inr ''''))
   }"

fun mimecast_pages ::
    "(http_req, mimecast_answer http) env \<Rightarrow> (string \<Rightarrow> time option) \<Rightarrow> mimecast_config \<Rightarrow> time \<Rightarrow> nat \<Rightarrow> string \<Rightarrow>
     time \<Rightarrow> time \<Rightarrow> dict list \<Rightarrow> dedupe \<Rightarrow> time \<Rightarrow>
     (http_req, mimecast_answer http, (dict list \<times> (dedupe \<times> time)) option) io" where
  "mimecast_pages env p c since 0 pageToken start end_time allItems dd lastDet = ret None"
| "mimecast_pages env p c since (Suc fuel) pageToken start end_time allItems dd lastDet = do {
     auth \<leftarrow> mimecast_getAuthToken env c;
     case auth of
       Inl e \<Rightarrow> ret (Some ([], (dd, lastDet)))
     | Inr token \<Rightarrow> do {
         resp \<leftarrow> call env (mimecast_request token start end_time pageToken);
         case resp of
           NewRequestErr e \<Rightarrow> ret (Some ([], (dd, lastDet)))
         | DoErr e \<Rightarrow> ret (Some ([], (dd, lastDet)))
         | Resp st rd bd \<Rightarrow>
             if st \<noteq> 200 then do { onError (GoErr ''mimecast api non-200: %s''); ret (Some ([], (dd, lastDet))) }
             else (case rd of
               Some e \<Rightarrow> do { onError (GoWrap ''error: %v'' e); ret (Some ([], (dd, lastDet))) }
             | None \<Rightarrow>
                 (case bd of
                    Inl e \<Rightarrow> do { onError (GoWrap ''mimecast api invalid json: %v'' e); ret (Some ([], (dd, lastDet))) }
                  | Inr answer \<Rightarrow> do {
                      let (data, next_token) = (case answer of McPage d n \<Rightarrow> (d, n) | McToken _ \<Rightarrow> ([], ''''));
                      let (newItems, dd1) = new_items p ''eventTime'' ''id'' (map audit_item data) dd;
                      let lastDet1 = last_epoch p ''eventTime'' since newItems;
                      if next_token \<noteq> '''' then
                        mimecast_pages env p c since fuel next_token start end_time (allItems @ newItems) dd1 lastDet1
                      else do {
                        dd2 \<leftarrow> cull env mimecast_overlapPeriod dd1;
                        ret (Some (allItems @ newItems, (dd2, lastDet1)))
                      }
                    }))
       }
   }"

definition mimecast_makeOneRequest ::
    "(http_req, mimecast_answer http) env \<Rightarrow> (string \<Rightarrow> time option) \<Rightarrow> mimecast_config \<Rightarrow> nat \<Rightarrow> dedupe \<times> time \<Rightarrow>
     (http_req, mimecast_answer http, (dict list \<times> (dedupe \<times> time)) option) io" where
  "mimecast_makeOneRequest env p c fuel st = (case st of (dd, since) \<Rightarrow> do {
     currentTime \<leftarrow> now env;
     mimecast_pages env p c since fuel '''' (mimecast_start currentTime since) currentTime [] dd zero_time
   })"

definition mimecast_fetchEvents ::
    "(http_req, mimecast_answer http) env \<Rightarrow> (string \<Rightarrow> time option) \<Rightarrow> mimecast_config \<Rightarrow> nat \<Rightarrow> nat \<Rightarrow> dedupe \<Rightarrow>
     (http_req, mimecast_answer http, dedupe \<times> time) io" where
  "mimecast_fetchEvents env p c fuel n dd = do {
     t \<leftarrow> now env;
     poll_loop env (30 * second) (mimecast_makeOneRequest env p c fuel) n (dd, t - 400 * hour)
   }"

lemma mimecast_pages_quiet [intro!]:
  "quiet_io (mimecast_pages env p c since fuel pageToken start end_time allItems dd lastDet)"
  by (induction fuel arbitrary: pageToken allItems dd lastDet)
    (auto split: http.split sum.split prod.split option.split mimecast_answer.split
      simp: Let_def mimecast_getAuthToken_def)

lemma mimecast_request_quiet: "quiet_io (mimecast_makeOneRequest env p c fuel st)"
  by (auto simp: mimecast_makeOneRequest_def split: prod.split)

interpretation mimecast: poller "mimecast_makeOneRequest env p c fuel" for env p c fuel
  by unfold_locales (rule quiet_ioD [OF mimecast_request_quiet])

section \<open>What paging can lose\<close>

text \<open>When a later page of a HubSpot request fails, the request reports no event, but the identifiers of the
  pages before stay in the table: whatever the service returns next, these events are not reported any more.\<close>

theorem hubspot_page_error_loses:
  assumes "\<And>h s t. e_call env h (hubspot_request tok (RFC3339 s) t) = Resp 200 None (Inr page1)"
    and "hs_link page1 \<noteq> ''''"
    and "\<And>h t. e_call env h (hubspot_request tok (Lit (hs_after page1)) t) = DoErr err"
  shows "\<exists>dd' w'. run_state (hubspot_makeOneRequest env p tok (Suc (Suc fuel)) nb dd) w = (Some ([], dd'), w') \<and>
    (\<forall>item \<in> set (hs_results page1). \<forall>items. string_field item ''id'' \<notin>
       set (map (\<lambda>i. string_field i ''id'') (fst (new_items p ''occurredAt'' ''id'' items dd'))))"
proof -
  obtain ns dd1 where page: "new_items p ''occurredAt'' ''id'' (hs_results page1) dd = (ns, dd1)" by fastforce
  have "fst (run_state (hubspot_makeOneRequest env p tok (Suc (Suc fuel)) nb dd) w) = Some ([], dd1)"
    using assms page by (simp add: hubspot_makeOneRequest_def run_simps)
  moreover have "string_field item ''id'' \<notin>
       set (map (\<lambda>i. string_field i ''id'') (fst (new_items p ''occurredAt'' ''id'' items dd1)))"
    if "item \<in> set (hs_results page1)" for item items
  proof -
    have "string_field item ''id'' \<in> fst ` set dd1" using new_items_keys [OF page] that by auto
    moreover obtain ns2 dd2 where n2: "new_items p ''occurredAt'' ''id'' items dd1 = (ns2, dd2)" by fastforce
    ultimately show ?thesis using new_items_keys [OF n2] by (auto simp: n2)
  qed
  ultimately show ?thesis by (metis prod.collapse)
qed

definition hubspot_page_error_env :: "(http_req, hubspot_page http) env" where
  "hubspot_page_error_env = \<lparr>e_now = \<lambda>_. 0, e_ship = \<lambda>_ _ _. None,
     e_call = \<lambda>_ q. (case url q ! 2 of
        Lit _ \<Rightarrow> DoErr (GoErr ''reset'')
      | _ \<Rightarrow> Resp 200 None (Inr \<lparr>hs_link = ''l'', hs_after = ''2'', hs_results = [[(''id'', GString ''a'')]]\<rparr>)),
     e_stop = \<lambda>_ _. False, e_drain = \<lambda>_. None, e_close = \<lambda>_. None\<rparr>"

lemma hubspot_page_error_loses_witness:
  "\<exists>dd' w'. run_state (hubspot_makeOneRequest hubspot_page_error_env (\<lambda>_. None) ''k'' 2 0 []) fresh_world = (Some ([], dd'), w') \<and>
    (\<forall>items. ''a'' \<notin> set (map (\<lambda>i. string_field i ''id'') (fst (new_items (\<lambda>_. None) ''occurredAt'' ''id'' items dd'))))"
proof -
  let ?pg = "\<lparr>hs_link = ''l'', hs_after = ''2'', hs_results = [[(''id'', GString ''a'')]]\<rparr>"
  have "e_call hubspot_page_error_env h (hubspot_request ''k'' (RFC3339 s) t) = Resp 200 None (Inr ?pg)" for h s t
    by (simp add: hubspot_page_error_env_def hubspot_request_def)
  moreover have "e_call hubspot_page_error_env h (hubspot_request ''k'' (Lit (hs_after ?pg)) t) = DoErr (GoErr ''reset'')" for h t
    by (simp add: hubspot_page_error_env_def hubspot_request_def)
  moreover have "hs_link ?pg \<noteq> ''''" by simp
  ultimately show ?thesis
    using hubspot_page_error_loses [of hubspot_page_error_env "''k''" ?pg "GoErr ''reset''" "\<lambda>_. None" 0 0 "[]" fresh_world]
    by (simp add: numeral_2_eq_2 string_field_def)
qed

text \<open>The first call of a run whose first step is a call.\<close>

lemma quiet_io_extends: "quiet_io m \<Longrightarrow> run_state m w = (x, w') \<Longrightarrow> \<exists>h. hist w' = h @ hist w"
  using quiet_ioD [of m w x w'] by (auto simp: adds_def)

lemma call_first:
  assumes "run_state (State_Monad.bind (call env q) f) w = (x, w')" "\<And>r. quiet_io (f r)"
  shows "\<exists>h r. hist w' = h @ ECall q r # hist w"
proof -
  let ?r = "e_call env (hist w) q"
  have "run_state (f ?r) (w\<lparr>hist := ECall q ?r # hist w\<rparr>) = (x, w')"
    using assms(1) by (simp add: run_simps)
  from quiet_io_extends [OF assms(2) this] show ?thesis by auto
qed

lemma zendesk_first_call:
  assumes "run_state (zendesk_makeOneRequest env p c (Suc fuel) (dd, since)) w = (res, w')"
  shows "\<exists>h r. hist w' = h @ ECall (zendesk_request c (RFC3339 (zendesk_start (e_now env (hist w)) since)) (e_now env (hist w))) r #
    ENow (e_now env (hist w)) # hist w"
proof -
  let ?t = "e_now env (hist w)"
  have "run_state (zendesk_pages env p c since (Suc fuel) (RFC3339 (zendesk_start ?t since)) ?t [] dd zero_time)
      (w\<lparr>hist := ENow ?t # hist w\<rparr>) = (res, w')"
    using assms by (simp add: zendesk_makeOneRequest_def run_simps del: zendesk_pages.simps)
  then show ?thesis unfolding zendesk_pages.simps
    by (drule_tac call_first)
      (auto split: http.split sum.split prod.split option.split simp: Let_def simp del: zendesk_pages.simps)
qed

lemma pandadoc_first_call:
  assumes "run_state (pandadoc_makeOneRequest env p key (Suc fuel) (dd, since)) w = (res, w')"
  shows "\<exists>h r. hist w' = h @ ECall (pandadoc_request key (pandadoc_start (e_now env (hist w)) since) (e_now env (hist w)) 1) r #
    ENow (e_now env (hist w)) # hist w"
proof -
  let ?t = "e_now env (hist w)"
  have "run_state (pandadoc_pages env p key since (Suc fuel) 1 (pandadoc_start ?t since) ?t [] dd zero_time)
      (w\<lparr>hist := ENow ?t # hist w\<rparr>) = (res, w')"
    using assms by (simp add: pandadoc_makeOneRequest_def run_simps del: pandadoc_pages.simps)
  then show ?thesis unfolding pandadoc_pages.simps
    by (drule_tac call_first)
      (auto split: http.split sum.split prod.split option.split simp: Let_def simp del: pandadoc_pages.simps)
qed

text \<open>The overlap of Zendesk and PandaDoc equals their polling interval, which leaves gaps: when a poll is
  made at \<open>t2\<close>, more than thirty seconds after the poll before it at \<open>t1\<close>, and the last event seen is not later
  than \<open>t1\<close>, the window it asks for begins after every moment \<open>e\<close> between \<open>t1\<close> and \<open>t2 - 30s\<close>.\<close>

theorem short_overlap_gap:
  assumes "since \<le> t1" "t1 < e" "e < t2 - 30 * second" "e_now env (hist w) = t2" "e_now env2 (hist w2) = t2"
    and "run_state (zendesk_makeOneRequest env p c (Suc fuel) (dd, since)) w = (res, w')"
    and "run_state (pandadoc_makeOneRequest env2 p2 key (Suc fuel2) (dd2, since)) w2 = (res2, w2')"
  shows "(\<exists>s h r. hist w' = h @ ECall (zendesk_request c (RFC3339 s) t2) r # ENow t2 # hist w \<and> e < s) \<and>
    (\<exists>s h r. hist w2' = h @ ECall (pandadoc_request key s t2 1) r # ENow t2 # hist w2 \<and> e < s)"
proof -
  have "e < zendesk_start t2 since" "e < pandadoc_start t2 since"
    using assms(1-3) by (auto simp: zendesk_start_def pandadoc_start_def
        zendesk_overlapPeriod_def pandadoc_overlapPeriod_def)
  then show ?thesis
    using zendesk_first_call [OF assms(6)] pandadoc_first_call [OF assms(7)] unfolding assms(4,5) by blast
qed

lemma short_overlap_gap_witness:
  "\<exists>w' s h r. snd (run_state (pandadoc_makeOneRequest (steady_env (61 * second) (\<lambda>_. DoErr (GoErr ''down''))) (\<lambda>_. None) ''k'' 1 ([], 0)) fresh_world) = w' \<and>
    hist w' = h @ ECall (pandadoc_request ''k'' s (61 * second) 1) r # ENow (61 * second) # [] \<and> 30 * second + 1 < s"
proof -
  let ?z = "run_state (zendesk_makeOneRequest (steady_env (61 * second) (\<lambda>_. DoErr (GoErr ''down''))) (\<lambda>_. None) \<lparr>zd_ApiToken = ''t'', zd_ZendeskDomain = ''d'',
    zd_ZendeskEmail = ''e''\<rparr> (Suc 0) ([], 0)) fresh_world"
  let ?p = "run_state (pandadoc_makeOneRequest (steady_env (61 * second) (\<lambda>_. DoErr (GoErr ''down''))) (\<lambda>_. None) ''k'' (Suc 0) ([], 0)) fresh_world"
  have t: "e_now (steady_env (61 * second) (\<lambda>_. DoErr (GoErr ''down''))) (hist (fresh_world :: ('q, 'b http) world)) = 61 * second"
    by (simp add: steady_env_def)
  obtain zr zw pr pw where z: "?z = (zr, zw)" and p: "?p = (pr, pw)" by (metis surj_pair)
  have "\<exists>s h r. hist pw = h @ ECall (pandadoc_request ''k'' s (61 * second) 1) r # ENow (61 * second) # hist (fresh_world :: (http_req, dict list http) world) \<and>
    30 * second + 1 < s"
    using short_overlap_gap [OF _ _ _ t t z p, of "30 * second" "30 * second + 1"] by simp
  then show ?thesis using p by (auto simp: fresh_world_def)
qed

end
