(* ===== verification/Poll_Sublime.thy ===== *)
theory Poll_Sublime
  imports Polling
begin

text \<open>
  \<open>sublime/client.go\<close>: the adapter reads the audit log of Sublime from its newest event on, page by page, and
  keeps the events that were created after the latest one it has seen so far (\<open>since\<close>). \<open>p\<close> is \<open>time.Parse\<close>
  with the layout RFC 3339 with nanoseconds.
\<close>

section \<open>Model\<close>

record sublime_config =
  sub_ApiKey :: string
  sub_BaseURL :: string

definition sublime_defaultBaseURL :: string where
  "sublime_defaultBaseURL = ''https://platform.sublime.security''"

text \<open>\<open>Validate\<close> also fills in the default of the configuration.\<close>

definition sublime_Validate :: "go_err option \<Rightarrow> sublime_config \<Rightarrow> sublime_config \<times> go_err option" where
  "sublime_Validate client_err c =
     (case client_err of
        Some e \<Rightarrow> (c, Some (GoWrap ''client_options: %v'' e))
      | None \<Rightarrow>
          if sub_ApiKey c = '''' then (c, Some (GoErr ''missing api key''))
          else if sub_BaseURL c = '''' then (c\<lparr>sub_BaseURL := sublime_defaultBaseURL\<rparr>, None)
          else (c, None))"

definition NewSublimeAdapter :: "go_err option \<Rightarrow> go_err + dedupe" where
  "NewSublimeAdapter client_err = (case client_err of Some e \<Rightarrow> Inl e | None \<Rightarrow> Inr [])"

definition sublime_Close :: "('q, 'r) env \<Rightarrow> ('q, 'r, go_err option) io" where
  "sublime_Close env = close_adapter env"

definition sublime_overlapPeriod :: duration where
  "sublime_overlapPeriod = 30 * second"

definition sublime_pageLimit :: nat where
  "sublime_pageLimit = 500"

definition sublime_request :: "sublime_config \<Rightarrow> nat \<Rightarrow> http_req" where
  "sublime_request c offset =
     \<lparr>http_method = ''GET'',
      url = [Lit (sub_BaseURL c), Lit ''/v0/audit-log/events'', Lit ''?limit='', Num (int sublime_pageLimit),
             Lit ''&offset='', Num (int offset)],
      headers = [(''Authorization'', [Lit ''Bearer '', Lit (sub_ApiKey c)]),
                 (''Accept'', [Lit ''application/json''])],
      body = []\<rparr>"

text \<open>The loop over the events of a page.\<close>

fun sublime_new_items ::
    "(string \<Rightarrow> time option) \<Rightarrow> time \<Rightarrow> dict list \<Rightarrow> dedupe \<Rightarrow> time \<Rightarrow> dict list \<times> dedupe \<times> time" where
  "sublime_new_items p since [] dd lastDet = ([], dd, lastDet)"
| "sublime_new_items p since (event # events) dd lastDet =
     (let eventid = string_field event ''id'' in
      if map_of dd eventid \<noteq> None then sublime_new_items p since events dd lastDet
      else (case p (string_field event ''created_at'') of
              None \<Rightarrow> sublime_new_items p since events dd lastDet
            | Some createdAt \<Rightarrow>
                if createdAt > since then
                  (let (rest, dd', lastDet') = sublime_new_items p since events (put eventid (unix createdAt) dd)
                         (if createdAt > lastDet then createdAt else lastDet)
                   in (event # rest, dd', lastDet'))
                else sublime_new_items p since events dd lastDet))"

fun sublime_pages ::
    "(http_req, dict list http) env \<Rightarrow> (string \<Rightarrow> time option) \<Rightarrow> sublime_config \<Rightarrow> time \<Rightarrow> nat \<Rightarrow> nat \<Rightarrow>
     dict list \<Rightarrow> dedupe \<Rightarrow> time \<Rightarrow>
     (http_req, dict list http, (dict list \<times> (dedupe \<times> time)) option) io" where
  "sublime_pages env p c since 0 offset allItems dd lastDet = ret None"
| "sublime_pages env p c since (Suc fuel) offset allItems dd lastDet = do {
     resp \<leftarrow> call env (sublime_request c offset);
     case resp of
       NewRequestErr e \<Rightarrow> do { setStop; ret (Some ([], (dd, lastDet))) }
     | DoErr e \<Rightarrow> do { onError (GoWrap ''http.Client.Do(): %v'' e); ret (Some ([], (dd, lastDet))) }
     | Resp st rd bd \<Rightarrow>
         if st \<noteq> 200 then do { onError (GoErr ''sublime api non-200: %s''); ret (Some ([], (dd, lastDet))) }
         else (case rd of
           Some e \<Rightarrow> do { onError (GoWrap ''read body error: %v'' e); ret (Some ([], (dd, lastDet))) }
         | None \<Rightarrow>
             (case bd of
                Inl e \<Rightarrow> do { onError (GoWrap ''sublime api invalid json: %v'' e); ret (Some ([], (dd, lastDet))) }
              | Inr events \<Rightarrow> do {
                  let (newItems, dd1, lastDet1) = sublime_new_items p since events dd lastDet;
                  if length events < sublime_pageLimit then do {
                    dd2 \<leftarrow> cull env sublime_overlapPeriod dd1;
                    ret (Some (allItems @ newItems, (dd2, lastDet1)))
                  } else
                    sublime_pages env p c since fuel (offset + sublime_pageLimit) (allItems @ newItems) dd1 lastDet1
                }))
   }"

definition sublime_makeOneRequest ::
    "(http_req, dict list http) env \<Rightarrow> (string \<Rightarrow> time option) \<Rightarrow> sublime_config \<Rightarrow> nat \<Rightarrow> dedupe \<times> time \<Rightarrow>
     (http_req, dict list http, (dict list \<times> (dedupe \<times> time)) option) io" where
  "sublime_makeOneRequest env p c fuel st = (case st of (dd, since) \<Rightarrow>
     sublime_pages env p c since fuel 0 [] dd since)"

definition sublime_fetchEvents ::
    "(http_req, dict list http) env \<Rightarrow> (string \<Rightarrow> time option) \<Rightarrow> sublime_config \<Rightarrow> nat \<Rightarrow> nat \<Rightarrow> dedupe \<Rightarrow>
     (http_req, dict list http, dedupe \<times> time) io" where
  "sublime_fetchEvents env p c fuel n dd = do {
     since \<leftarrow> now env;
     poll_loop env (30 * second) (sublime_makeOneRequest env p c fuel) n (dd, since)
   }"

lemma sublime_pages_quiet [intro!]:
  "quiet_io (sublime_pages env p c since fuel offset allItems dd lastDet)"
  by (induction fuel arbitrary: offset allItems dd lastDet)
    (auto split: http.split sum.split prod.split option.split simp: Let_def)

lemma sublime_request_quiet: "quiet_io (sublime_makeOneRequest env p c fuel st)"
  by (auto simp: sublime_makeOneRequest_def split: prod.split)

interpretation sublime: poller "sublime_makeOneRequest env p c fuel" for env p c fuel
  by unfold_locales (rule quiet_ioD [OF sublime_request_quiet])

section \<open>Nothing twice\<close>

text \<open>Items with different identifiers that are in the table, created after \<open>since\<close> and not after \<open>last\<close>.\<close>

definition in_span :: "(string \<Rightarrow> time option) \<Rightarrow> time \<Rightarrow> time \<Rightarrow> dict list \<Rightarrow> bool" where
  "in_span p since lastDet items \<longleftrightarrow> distinct (map (\<lambda>i. string_field i ''id'') items) \<and>
     (\<forall>i \<in> set items. \<exists>t. p (string_field i ''created_at'') = Some t \<and> since < t \<and> t \<le> lastDet)"

definition recorded :: "dict list \<Rightarrow> dedupe \<Rightarrow> bool" where
  "recorded items dd \<longleftrightarrow> (\<forall>i \<in> set items. string_field i ''id'' \<in> fst ` set dd)"

lemma sublime_new_items_span:
  "sublime_new_items p since events dd lastDet = (ns, dd', lastDet') \<Longrightarrow>
   lastDet \<le> lastDet' \<and> fst ` set dd \<subseteq> fst ` set dd' \<and> recorded ns dd' \<and> in_span p since lastDet' ns \<and>
   (\<forall>i \<in> set ns. string_field i ''id'' \<notin> fst ` set dd)"
proof (induction events arbitrary: dd lastDet ns)
  case Nil
  then show ?case by (auto simp: in_span_def recorded_def)
next
  case (Cons event events)
  let ?id = "string_field event ''id''"
  show ?case
  proof (cases "map_of dd ?id = None \<and> (\<exists>t. p (string_field event ''created_at'') = Some t \<and> t > since)")
    case False
    then have "sublime_new_items p since events dd lastDet = (ns, dd', lastDet')"
      using Cons.prems by (auto simp: Let_def split: option.splits if_splits)
    then show ?thesis by (rule Cons.IH)
  next
    case True
    then obtain t where t: "p (string_field event ''created_at'') = Some t" "t > since" "map_of dd ?id = None" by blast
    let ?l = "if t > lastDet then t else lastDet"
    obtain rest where r: "ns = event # rest"
      "sublime_new_items p since events (put ?id (unix t) dd) ?l = (rest, dd', lastDet')"
      using Cons.prems t by (auto simp: Let_def split: prod.splits)
    have "?id \<notin> fst ` set dd" using t(3) by (simp add: map_of_eq_None_iff)
    with Cons.IH [OF r(2)] t(1,2) show ?thesis
      by (auto simp: r(1) in_span_def recorded_def split: if_splits)
  qed
qed

lemma in_span_append:
  assumes "in_span p since l xs" "recorded xs dd" "l \<le> l'" "in_span p since l' ys"
    and "\<forall>i \<in> set ys. string_field i ''id'' \<notin> fst ` set dd"
  shows "in_span p since l' (xs @ ys)"
proof -
  have "\<exists>t. p (string_field i ''created_at'') = Some t \<and> since < t \<and> t \<le> l'" if "i \<in> set xs" for i
    using assms(1,3) that by (force simp: in_span_def)
  moreover have "(\<lambda>i. string_field i ''id'') ` set xs \<inter> (\<lambda>i. string_field i ''id'') ` set ys = {}"
    using assms(2,5) unfolding recorded_def by (intro equals0I) (auto, metis)
  ultimately show ?thesis using assms(1,4) by (auto simp: in_span_def)
qed

lemma sublime_pages_span:
  "in_span p since lastDet allItems \<Longrightarrow> recorded allItems dd \<Longrightarrow>
   wp (sublime_pages env p c since fuel offset allItems dd lastDet)
     (\<lambda>res w'. \<forall>items dd' lastDet'. res = Some (items, dd', lastDet') \<longrightarrow>
        lastDet \<le> lastDet' \<and> in_span p since lastDet' items) w"
proof (induction fuel arbitrary: offset allItems dd lastDet w)
  case (Suc fuel)
  have empty: "in_span p since l []" for l by (simp add: in_span_def)
  {
    fix w events
    obtain ns dd1 l1 where page: "sublime_new_items p since events dd lastDet = (ns, dd1, l1)"
      by (metis prod_cases3)
    note span = sublime_new_items_span [OF page]
    then have all: "in_span p since l1 (allItems @ ns)"
      using in_span_append [OF Suc.prems] by blast
    have "recorded (allItems @ ns) dd1" using span Suc.prems(2) by (auto simp: recorded_def)
    note next_page = Suc.IH [OF all this]
    have "wp (let (newItems, dd1, lastDet1) = sublime_new_items p since events dd lastDet in
           if length events < sublime_pageLimit then do {
             dd2 \<leftarrow> cull env sublime_overlapPeriod dd1;
             ret (Some (allItems @ newItems, (dd2, lastDet1)))
           } else sublime_pages env p c since fuel (offset + sublime_pageLimit) (allItems @ newItems) dd1 lastDet1)
         (\<lambda>res w'. \<forall>items dd' lastDet'. res = Some (items, dd', lastDet') \<longrightarrow>
            lastDet \<le> lastDet' \<and> in_span p since lastDet' items) w"
      using span all by (auto simp: page wp_simps intro: wp_any intro!: wp_mono [OF next_page])
  }
  with empty show ?case
    by (auto simp: wp_simps split: http.split option.split sum.split)
qed (simp add: wp_simps)

text \<open>The state of the loop: everything delivered is different, and none of it is later than \<open>since\<close>.\<close>

definition sublime_key :: "dict \<Rightarrow> string \<times> string" where
  "sublime_key i = (string_field i ''id'', string_field i ''created_at'')"

definition sublime_inv :: "(string \<Rightarrow> time option) \<Rightarrow> dedupe \<times> time \<Rightarrow> ('q, 'r) world \<Rightarrow> bool" where
  "sublime_inv p st w \<longleftrightarrow> distinct (map sublime_key (delivered_docs (hist w))) \<and>
     (\<forall>i \<in> set (delivered_docs (hist w)). \<exists>t. p (string_field i ''created_at'') = Some t \<and> t \<le> snd st)"

lemma sublime_inv_ship:
  assumes "sublime_inv p (dd, since) w" "in_span p since lastDet items" "since \<le> lastDet"
    and "run_state (ship_items env items) w = (ok, w')"
  shows "sublime_inv p (dd', lastDet) w'"
proof -
  obtain k where k: "delivered_docs (hist w') = delivered_docs (hist w) @ take k items"
    using ship_items_docs [OF assms(4)] by blast
  have sub: "set (take k items) \<subseteq> set items" by (rule set_take_subset)
  have "distinct (map (\<lambda>i. string_field i ''id'') (take k items))"
    using assms(2) by (simp add: in_span_def take_map [symmetric] distinct_take)
  then have "distinct (map sublime_key (take k items))"
    by (auto simp: distinct_map inj_on_def sublime_key_def)
  moreover have "sublime_key i \<noteq> sublime_key j" if ij: "i \<in> set (delivered_docs (hist w))" "j \<in> set items" for i j
  proof -
    obtain s where "p (string_field i ''created_at'') = Some s" "s \<le> since"
      using assms(1) ij(1) by (auto simp: sublime_inv_def)
    moreover obtain t where "p (string_field j ''created_at'') = Some t" "since < t"
      using assms(2) ij(2) by (auto simp: in_span_def)
    ultimately show ?thesis by (auto simp: sublime_key_def)
  qed
  then have "sublime_key ` set (delivered_docs (hist w)) \<inter> sublime_key ` set (take k items) = {}"
    using sub by blast
  moreover have "\<exists>t. p (string_field i ''created_at'') = Some t \<and> t \<le> lastDet"
    if "i \<in> set (delivered_docs (hist w')) " for i
    using that assms(1-3) sub unfolding k sublime_inv_def in_span_def
    by (auto dest!: bspec)
  ultimately show ?thesis
    using assms(1) unfolding sublime_inv_def k by auto
qed

text \<open>C15: the Sublime adapter ships no event twice, whatever the service answers and whatever the clock shows:
  the pairs of identifier and creation time of the events it delivers are all different.\<close>

theorem sublime_delivers_once:
  assumes "run_state (sublime_fetchEvents env p c fuel n dd) w = (st', w')" "delivered_docs (hist w) = []"
  shows "distinct (map sublime_key (delivered_docs (hist w')))"
proof -
  let ?t = "e_now env (hist w)"
  let ?w1 = "w\<lparr>hist := ENow ?t # hist w\<rparr>"
  have run: "run_state (poll_loop env (30 * second) (sublime_makeOneRequest env p c fuel) n (dd, ?t)) ?w1 = (st', w')"
    using assms(1) by (simp add: sublime_fetchEvents_def run_simps)
  have init: "sublime_inv p (dd, ?t) ?w1"
    using assms(2) adds_docs_Nil [OF adds_quiet(1) [of w ?t]] by (simp add: sublime_inv_def)
  have "sublime_inv p st' w'"
  proof (rule poll_loop_inv [where I = "sublime_inv p"
        and J = "\<lambda>items st w. \<exists>dd since. sublime_inv p (dd, since) w \<and> in_span p since (snd st) items \<and> since \<le> snd st",
        OF _ _ _ _ init run])
    show "sublime_inv p st w2" if "sublime_inv p st w1" "run_state (waitFor env (30 * second)) w1 = (b, w2)" for st w1 b w2
      using that(1) quiet_docs [OF _ that(2)] by (simp add: sublime_inv_def)
    show "sublime_inv p st w2" if "sublime_inv p st w1" "run_state (sublime_makeOneRequest env p c fuel st) w1 = (None, w2)"
      for st w1 w2
      using that(1) quiet_docs [OF sublime_request_quiet that(2)] by (simp add: sublime_inv_def)
    show "\<exists>dd since. sublime_inv p (dd, since) w2 \<and> in_span p since (snd st') items \<and> since \<le> snd st'"
      if "sublime_inv p st w1" "run_state (sublime_makeOneRequest env p c fuel st) w1 = (Some (items, st'), w2)"
      for st w1 items st' w2
    proof -
      obtain dd1 s1 where st: "st = (dd1, s1)" by fastforce
      have run1: "run_state (sublime_pages env p c s1 fuel 0 [] dd1 s1) w1 = (Some (items, st'), w2)"
        using that(2) by (simp add: st sublime_makeOneRequest_def)
      have "wp (sublime_pages env p c s1 fuel 0 [] dd1 s1) (\<lambda>res w'. \<forall>items dd' l. res = Some (items, dd', l) \<longrightarrow>
          s1 \<le> l \<and> in_span p s1 l items) w1"
        by (rule sublime_pages_span) (auto simp: in_span_def recorded_def)
      from wpD [OF this run1] have "s1 \<le> snd st' \<and> in_span p s1 (snd st') items"
        by (cases st') auto
      moreover have "sublime_inv p (dd1, s1) w2"
        using that(1) quiet_docs [OF sublime_request_quiet that(2)] by (simp add: sublime_inv_def st)
      ultimately show ?thesis by blast
    qed
    show "sublime_inv p st w2"
      if "\<exists>dd since. sublime_inv p (dd, since) w1 \<and> in_span p since (snd st) items \<and> since \<le> snd st"
        "run_state (ship_items env items) w1 = (ok, w2)" for st w1 items ok w2
      using sublime_inv_ship [OF _ _ _ that(2), of p _ _ "snd st" "fst st"] that(1) by (cases st) auto
  qed
  then show ?thesis by (simp add: sublime_inv_def)
qed

lemma sublime_delivers_once_witness:
  "\<exists>st' w'. run_state (sublime_fetchEvents (steady_env 0 (\<lambda>_. Resp 200 None
        (Inr [[(''id'', GString ''a''), (''created_at'', GString ''t'')], [(''id'', GString ''b''), (''created_at'', GString ''t'')]])))
      (\<lambda>_. Some 5) \<lparr>sub_ApiKey = ''k'', sub_BaseURL = ''https://x''\<rparr> 1 2 []) fresh_world = (st', w') \<and>
    map sublime_key (delivered_docs (hist w')) = [(''a'', ''t''), (''b'', ''t'')] \<and>
    distinct (map sublime_key (delivered_docs (hist w')))"
proof -
  let ?ev = "[[(''id'', GString ''a''), (''created_at'', GString ''t'')], [(''id'', GString ''b''), (''created_at'', GString ''t'')]]"
  let ?env = "steady_env 0 (\<lambda>_. Resp 200 None (Inr ?ev)) :: (http_req, dict list http) env"
  obtain st' w' where r: "run_state (sublime_fetchEvents ?env (\<lambda>_. Some 5)
      \<lparr>sub_ApiKey = ''k'', sub_BaseURL = ''https://x''\<rparr> 1 2 []) fresh_world = (st', w')" by fastforce
  have "map sublime_key (delivered_docs (hist w')) = [(''a'', ''t''), (''b'', ''t'')]"
    using r by (auto simp: sublime_fetchEvents_def sublime_makeOneRequest_def run_simps numeral_2_eq_2 string_field_def
        sublime_pageLimit_def unix_def sublime_overlapPeriod_def ship_or_stop_def ship_retry_def sublime_key_def
        delivered_docs_def json_message_def Let_def)
  with sublime_delivers_once [OF r] r show ?thesis by simp
qed

end
