(* ===== verification/Poll_Proofpoint.thy ===== *)
theory Poll_Proofpoint
  imports Polling
begin

text \<open>
  \<open>proofpoint_tap/client.go\<close>: the adapter asks the Proofpoint TAP service for at most an hour at a time, from two
  minutes before the end of the last answer on, and keeps two tables of the messages and clicks it has seen.
\<close>

section \<open>Model\<close>

record proofpoint_config =
  pp_Principal :: string
  pp_Secret :: string

definition proofpoint_Validate :: "go_err option \<Rightarrow> proofpoint_config \<Rightarrow> go_err option" where
  "proofpoint_Validate client_err c =
     (case client_err of
        Some e \<Rightarrow> Some (GoWrap ''client_options: %v'' e)
      | None \<Rightarrow>
          if pp_Principal c = '''' then Some (GoErr ''missing principal'')
          else if pp_Secret c = '''' then Some (GoErr ''missing secret'')
          else None)"

record proofpoint_state =
  messageDedupe :: dedupe
  clickDedupe :: dedupe
  pp_since :: time

text \<open>The constructor validates first; \<open>new_err\<close> is the error of \<open>uspclient.NewClient\<close>.\<close>

definition NewProofpointTapAdapter ::
    "go_err option \<Rightarrow> go_err option \<Rightarrow> proofpoint_config \<Rightarrow> go_err + (dedupe \<times> dedupe)" where
  "NewProofpointTapAdapter client_err new_err conf =
     (case proofpoint_Validate client_err conf of
        Some e \<Rightarrow> Inl e
      | None \<Rightarrow> (case new_err of Some e \<Rightarrow> Inl e | None \<Rightarrow> Inr ([], [])))"

definition proofpoint_Close :: "('q, 'r) env \<Rightarrow> ('q, 'r, go_err option) io" where
  "proofpoint_Close env = close_adapter env"

record proofpoint_page =
  QueryEndTime :: time
  MessagesDelivered :: "dict list"
  MessagesBlocked :: "dict list"
  ClicksPermitted :: "dict list"
  ClicksBlocked :: "dict list"

definition warnDedupeSize :: nat where
  "warnDedupeSize = 100000"

text \<open>The interval of a request made at \<open>nowTimestamp\<close>.\<close>

definition proofpoint_interval :: "time \<Rightarrow> time \<Rightarrow> time \<times> time" where
  "proofpoint_interval since nowTimestamp =
     (let sinceWithOverlap = since - 2 * minute in
      (sinceWithOverlap,
       if nowTimestamp - sinceWithOverlap > 1 * hour then sinceWithOverlap + 1 * hour - 1 * minute
       else nowTimestamp))"

definition proofpoint_request :: "proofpoint_config \<Rightarrow> time \<times> time \<Rightarrow> http_req" where
  "proofpoint_request c interval =
     \<lparr>http_method = ''GET'',
      url = [Lit ''https://tap-api-v2.proofpoint.com/v2/siem/all'', Lit ''?format=json&interval='',
             RFC3339 (fst interval), Lit ''/'', RFC3339 (snd interval)],
      headers = [(''Accept'', [Lit ''application/json'']),
                 (''Authorization'', [BasicAuth (pp_Principal c) (pp_Secret c)])],
      body = []\<rparr>"

text \<open>One of the four loops over the events of an answer.\<close>

fun proofpoint_new_items ::
    "('q, 'r) env \<Rightarrow> string \<Rightarrow> string \<Rightarrow> dict list \<Rightarrow> dedupe \<Rightarrow> ('q, 'r, dict list \<times> dedupe) io" where
  "proofpoint_new_items env id_key eventType [] dd = ret ([], dd)"
| "proofpoint_new_items env id_key eventType (event # events) dd =
     (let eventid = string_field event id_key in
      if map_of dd eventid \<noteq> None then proofpoint_new_items env id_key eventType events dd
      else do {
        t \<leftarrow> now env;
        (rest, dd') \<leftarrow> proofpoint_new_items env id_key eventType events (put eventid (unix t) dd);
        ret (put ''eventType'' (GString eventType) event # rest, dd')
      })"

definition warn_size :: "string \<Rightarrow> dedupe \<Rightarrow> ('q, 'r, unit) io" where
  "warn_size s dd = (if length dd > warnDedupeSize then onWarning s else ret ())"

definition drop_before :: "int \<Rightarrow> dedupe \<Rightarrow> dedupe" where
  "drop_before u dd = filter (\<lambda>(k, v). \<not> v < u) dd"

text \<open>What is done with a decoded answer.\<close>

definition proofpoint_events ::
    "('q, 'r) env \<Rightarrow> proofpoint_page \<Rightarrow> proofpoint_state \<Rightarrow> ('q, 'r, dict list \<times> proofpoint_state) io" where
  "proofpoint_events env response st = do {
     let sinceWithOverlapUnix = unix (pp_since st - 2 * minute);
     (items1, m1) \<leftarrow> proofpoint_new_items env ''GUID'' ''message_delivered'' (MessagesDelivered response) (messageDedupe st);
     (items2, m2) \<leftarrow> proofpoint_new_items env ''GUID'' ''message_blocked'' (MessagesBlocked response) m1;
     let m3 = drop_before sinceWithOverlapUnix m2;
     warn_size ''message dedupe map size: %d'' m3;
     (items3, c1) \<leftarrow> proofpoint_new_items env ''id'' ''click_permitted'' (ClicksPermitted response) (clickDedupe st);
     (items4, c2) \<leftarrow> proofpoint_new_items env ''id'' ''click_blocked'' (ClicksBlocked response) c1;
     let c3 = drop_before sinceWithOverlapUnix c2;
     warn_size ''click dedupe map size: %d'' c3;
     ret (items1 @ items2 @ items3 @ items4,
          \<lparr>messageDedupe = m3, clickDedupe = c3, pp_since = QueryEndTime response\<rparr>)
   }"

definition proofpoint_makeOneRequest ::
    "(http_req, proofpoint_page http) env \<Rightarrow> proofpoint_config \<Rightarrow> proofpoint_state \<Rightarrow>
     (http_req, proofpoint_page http, (dict list \<times> proofpoint_state) option) io" where
  "proofpoint_makeOneRequest env c st = do {
     nowTimestamp \<leftarrow> now env;
     resp \<leftarrow> call env (proofpoint_request c (proofpoint_interval (pp_since st) nowTimestamp));
     case resp of
       NewRequestErr e \<Rightarrow> do { setStop; ret (Some ([], st)) }
     | DoErr e \<Rightarrow> do { onError (GoWrap ''http.Client.Do(): %v'' e); ret (Some ([], st)) }
     | Resp sc rd bd \<Rightarrow>
         if sc \<noteq> 200 then do { onError (GoErr ''proofpoint tap api non-200: %s''); ret (Some ([], st)) }
         else (case rd of
           Some e \<Rightarrow> do { onError (GoWrap ''read body error: %v'' e); ret (Some ([], st)) }
         | None \<Rightarrow>
             (case bd of
                Inl e \<Rightarrow> do { onError (GoWrap ''proofpoint tap api invalid json: %v'' e); ret (Some ([], st)) }
              | Inr response \<Rightarrow> do {
                  r \<leftarrow> proofpoint_events env response st;
                  ret (Some r)
                }))
   }"

definition proofpoint_fetchEvents ::
    "(http_req, proofpoint_page http) env \<Rightarrow> proofpoint_config \<Rightarrow> nat \<Rightarrow> dedupe \<times> dedupe \<Rightarrow>
     (http_req, proofpoint_page http, proofpoint_state) io" where
  "proofpoint_fetchEvents env c n dds = do {
     since \<leftarrow> now env;
     poll_loop env (60 * second) (proofpoint_makeOneRequest env c) n
       \<lparr>messageDedupe = fst dds, clickDedupe = snd dds, pp_since = since\<rparr>
   }"

lemma proofpoint_new_items_quiet [simp, intro!]:
  "quiet_io (proofpoint_new_items env id_key et events dd)"
  by (induction events arbitrary: dd) (auto simp: Let_def split: prod.split)

lemma warn_size_quiet [simp, intro!]: "quiet_io (warn_size s dd)"
  by (simp add: warn_size_def)

lemma proofpoint_events_quiet [simp, intro!]: "quiet_io (proofpoint_events env response st)"
  unfolding proofpoint_events_def by (auto simp: Let_def split: prod.split)

lemma proofpoint_request_quiet: "quiet_io (proofpoint_makeOneRequest env c st)"
  unfolding proofpoint_makeOneRequest_def by (auto split: http.split option.split sum.split)

interpretation proofpoint: poller "proofpoint_makeOneRequest env c" for env c
  by unfold_locales (rule quiet_ioD [OF proofpoint_request_quiet])

section \<open>The intervals\<close>

lemma proofpoint_new_items_no_call [simp, intro!]: "no_call (proofpoint_new_items env id_key et events dd)"
  by (induction events arbitrary: dd) (auto simp: Let_def split: prod.split)

lemma warn_size_no_call [simp, intro!]: "no_call (warn_size s dd)"
  by (simp add: warn_size_def)

lemma proofpoint_events_no_call [simp, intro!]: "no_call (proofpoint_events env response st)"
  unfolding proofpoint_events_def by (auto simp: Let_def split: prod.split)

lemma proofpoint_events_since:
  "run_state (proofpoint_events env response st) w = ((items, st'), w') \<Longrightarrow> pp_since st' = QueryEndTime response"
  unfolding proofpoint_events_def by (auto simp: Let_def split: prod.splits)

lemma window_of_proofpoint_request [simp]:
  "window_of (ECall (proofpoint_request c i) r) = [i]"
  by (cases i) (simp add: proofpoint_request_def)

text \<open>
  What is relied on: the end of the interval that the service reports is not after the end it was asked for.
\<close>

definition proofpoint_end_within :: "(http_req, proofpoint_page http) env \<Rightarrow> bool" where
  "proofpoint_end_within env \<longleftrightarrow>
     (\<forall>h c s e rd r. e_call env h (proofpoint_request c (s, e)) = Resp 200 rd (Inr r) \<longrightarrow> QueryEndTime r \<le> e)"

definition proofpoint_inv :: "time \<Rightarrow> proofpoint_state \<Rightarrow> (http_req, proofpoint_page http) world \<Rightarrow> bool" where
  "proofpoint_inv t0 st w \<longleftrightarrow> (let ws = windows (hist w) in
     linked ws \<and> (\<forall>(s, e) \<in> set ws. e - s \<le> 1 * hour) \<and>
     (\<exists>t. ENow t \<in> set (hist w) \<and> pp_since st \<le> t) \<and>
     (ws = [] \<longrightarrow> pp_since st = t0) \<and>
     (ws \<noteq> [] \<longrightarrow> fst (hd ws) = t0 - 2 * minute \<and> pp_since st - 2 * minute \<le> snd (last ws)))"

lemma proofpoint_inv_same:
  assumes "proofpoint_inv t0 st w" "windows (hist w') = windows (hist w)" "set (hist w) \<subseteq> set (hist w')"
  shows "proofpoint_inv t0 st w'"
  using assms unfolding proofpoint_inv_def by (auto simp: Let_def)

lemma proofpoint_inv_quiet:
  "proofpoint_inv t0 st w \<Longrightarrow> quiet_io m \<Longrightarrow> no_call m \<Longrightarrow> run_state m w = (x, w') \<Longrightarrow> proofpoint_inv t0 st w'"
  using proofpoint_inv_same no_callD adds_hist [OF quiet_ioD] by metis

text \<open>The call of a request, and both ways the state can go on from it.\<close>

lemma proofpoint_inv_call:
  assumes inv: "proofpoint_inv t0 st w" and clock: "clock_monotone env"
    and t: "t = e_now env (hist w)" and i: "i = proofpoint_interval (pp_since st) t"
    and w1: "hist w1 = ECall (proofpoint_request c i) r # ENow t # hist w"
    and st': "pp_since st' = pp_since st \<or> pp_since st' \<le> snd i"
  shows "proofpoint_inv t0 st' w1"
proof -
  obtain t1 where t1: "ENow t1 \<in> set (hist w)" "pp_since st \<le> t1"
    using inv by (auto simp: proofpoint_inv_def Let_def)
  then have le: "pp_since st \<le> t" using clock by (force simp: clock_monotone_def t)
  have ws: "windows (hist w1) = windows (hist w) @ [i]" by (simp add: w1 del: window_of.simps(1))
  have i1: "fst i = pp_since st - 2 * minute" "snd i \<le> t" "snd i - fst i \<le> 1 * hour" "fst i \<le> snd i"
    using le by (auto simp: i proofpoint_interval_def Let_def)
  have "linked (windows (hist w1))"
    using inv i1(1) unfolding ws linked_snoc by (auto simp: proofpoint_inv_def Let_def)
  moreover have "\<forall>(s, e) \<in> set (windows (hist w1)). e - s \<le> 1 * hour"
    using inv i1(3) unfolding ws by (auto simp: proofpoint_inv_def Let_def split: prod.splits)
  moreover have "fst (hd (windows (hist w1))) = t0 - 2 * minute"
    using inv i1(1) unfolding ws by (auto simp: proofpoint_inv_def Let_def hd_append)
  moreover have "pp_since st' \<le> t" "pp_since st' - 2 * minute \<le> snd i"
    using st' le i1 by auto
  ultimately show ?thesis
    unfolding proofpoint_inv_def Let_def ws by (auto simp: w1)
qed

lemma proofpoint_request_inv:
  assumes inv: "proofpoint_inv t0 st w" and clock: "clock_monotone env" and ends: "proofpoint_end_within env"
  shows "wp (proofpoint_makeOneRequest env c st)
    (\<lambda>res w'. \<forall>items st'. res = Some (items, st') \<longrightarrow> proofpoint_inv t0 st' w') w"
proof -
  let ?t = "e_now env (hist w)"
  let ?i = "proofpoint_interval (pp_since st) ?t"
  let ?q = "proofpoint_request c ?i"
  define r where "r = e_call env (ENow ?t # hist w) ?q"
  have same: "proofpoint_inv t0 st w1" if "hist w1 = ECall ?q r # ENow ?t # hist w" for w1
    using proofpoint_inv_call [OF inv clock refl refl that] by simp
  have eff: "proofpoint_inv t0 st w1" if "hist w1 = e # ECall ?q r # ENow ?t # hist w" "window_of e = []" for w1 e
    using proofpoint_inv_same [OF same [of "w\<lparr>hist := ECall ?q r # ENow ?t # hist w\<rparr>"], of w1] that
    by (simp del: window_of.simps(1)) blast
  have page: "wp (proofpoint_events env response st) (\<lambda>res w'. proofpoint_inv t0 (snd res) w')
      (w\<lparr>hist := ECall ?q r # ENow ?t # hist w\<rparr>)" (is "wp _ _ ?w1") if "r = Resp 200 rd (Inr response)" for rd response
  proof (rule wpI)
    fix res w' assume run: "run_state (proofpoint_events env response st) ?w1 = (res, w')"
    have "pp_since (snd res) = QueryEndTime response"
      using run proofpoint_events_since by (cases res) auto
    moreover have "QueryEndTime response \<le> snd ?i"
      using ends that unfolding proofpoint_end_within_def r_def by (cases ?i) auto
    ultimately have "proofpoint_inv t0 (snd res) ?w1"
      by (intro proofpoint_inv_call [OF inv clock refl refl]) auto
    then show "proofpoint_inv t0 (snd res) w'"
      using proofpoint_inv_quiet [OF _ _ _ run] by simp
  qed
  show ?thesis
    using page wp_mono [OF page]
    by (auto simp: proofpoint_makeOneRequest_def wp_simps r_def [symmetric] same eff elim!: wp_mono
        split: http.split option.split sum.split)
qed

text \<open>C10: when the clock does not go back and \<open>queryEndTime\<close> of an answer lies within the interval asked for,
  the intervals the adapter asks for leave no gap, however late the polls come and however many of them fail:
  each is at most an hour long, the first begins two minutes before the start of the adapter, and every moment
  from there to the end of the last interval lies in one of them.\<close>

theorem proofpoint_no_gap:
  assumes "clock_monotone env" "proofpoint_end_within env" "hist w = []"
    and run: "run_state (proofpoint_fetchEvents env c n dds) w = (st', w')"
  shows "(\<forall>(s, e) \<in> set (windows (hist w')). e - s \<le> 1 * hour) \<and>
    (\<forall>x. windows (hist w') \<noteq> [] \<longrightarrow> e_now env [] - 2 * minute \<le> x \<longrightarrow> x \<le> snd (last (windows (hist w'))) \<longrightarrow>
       (\<exists>(s, e) \<in> set (windows (hist w')). s \<le> x \<and> x \<le> e))"
proof -
  let ?t = "e_now env []"
  let ?st = "\<lparr>messageDedupe = fst dds, clickDedupe = snd dds, pp_since = ?t\<rparr>"
  let ?w1 = "w\<lparr>hist := [ENow ?t]\<rparr>"
  have init: "proofpoint_inv ?t ?st ?w1" by (simp add: proofpoint_inv_def)
  have loop: "run_state (poll_loop env (60 * second) (proofpoint_makeOneRequest env c) n ?st) ?w1 = (st', w')"
    using run assms(3) by (simp add: proofpoint_fetchEvents_def run_simps)
  have "proofpoint_inv ?t st' w'"
  proof (rule poll_loop_inv [where I = "proofpoint_inv ?t" and J = "\<lambda>items. proofpoint_inv ?t", OF _ _ _ _ init loop])
    show "proofpoint_inv ?t st w2" if "proofpoint_inv ?t st w1" "run_state (waitFor env (60 * second)) w1 = (b, w2)" for st w1 b w2
      using proofpoint_inv_quiet [OF that(1) _ _ that(2)] by simp
    show "proofpoint_inv ?t st w2" if "proofpoint_inv ?t st w1" "run_state (proofpoint_makeOneRequest env c st) w1 = (None, w2)"
      for st w1 w2
    proof -
      have "wp (proofpoint_makeOneRequest env c st) (\<lambda>res w'. res \<noteq> None) w1"
        by (auto simp: proofpoint_makeOneRequest_def wp_simps intro: wp_any split: http.split option.split sum.split)
      from wpD [OF this that(2)] show ?thesis by simp
    qed
    show "proofpoint_inv ?t st2 w2"
      if "proofpoint_inv ?t st w1" "run_state (proofpoint_makeOneRequest env c st) w1 = (Some (items, st2), w2)"
      for st w1 items st2 w2
      using wpD [OF proofpoint_request_inv [OF that(1) assms(1,2)] that(2)] by simp
    show "proofpoint_inv ?t st w2" if "proofpoint_inv ?t st w1" "run_state (ship_items env items) w1 = (ok, w2)"
      for st w1 items ok w2
      using that proofpoint_inv_same no_callD [OF no_call_ship_items that(2)] ship_items_cases [OF that(2)] adds_hist
      by metis
  qed
  then show ?thesis
    unfolding proofpoint_inv_def Let_def using linked_covers by auto
qed

lemma proofpoint_no_gap_witness:
  "\<exists>w'. snd (run_state (proofpoint_fetchEvents (latest_env (\<lambda>_. DoErr (GoErr ''down'')))
      \<lparr>pp_Principal = ''p'', pp_Secret = ''s''\<rparr> 1 ([], [])) fresh_world) = w' \<and>
    windows (hist w') = [(- 2 * minute, 0)] \<and>
    (\<exists>(s, e) \<in> set (windows (hist w')). s \<le> - 1 * minute \<and> - 1 * minute \<le> e)"
proof -
  let ?env = "latest_env (\<lambda>_. DoErr (GoErr ''down'')) :: (http_req, proofpoint_page http) env"
  let ?m = "proofpoint_fetchEvents ?env \<lparr>pp_Principal = ''p'', pp_Secret = ''s''\<rparr> 1 ([], [])"
  obtain st' w' where r: "run_state ?m fresh_world = (st', w')" by fastforce
  have "windows (hist w') = [(- 2 * minute, 0)]"
    using r by (auto simp: proofpoint_fetchEvents_def proofpoint_makeOneRequest_def run_simps
        proofpoint_request_def proofpoint_interval_def Let_def)
  moreover have "proofpoint_end_within ?env" by (simp add: proofpoint_end_within_def)
  ultimately show ?thesis
    using proofpoint_no_gap [of ?env fresh_world, OF _ _ _ r] r by (auto simp: fresh_world_def)
qed

end
