(* ===== verification/Poll_Cursor.thy ===== *)
theory Poll_Cursor
  imports Polling Json_Query
begin

text \<open>
  The polling adapters that follow a cursor of the service: \<open>1password/client.go\<close>, \<open>itglue/client.go\<close>,
  \<open>sophos/client.go\<close> and \<open>box/client.go\<close>. The state of their loop is the cursor (and what Box has seen).
  \<open>um\<close> is the JSON decoder behind \<open>FindOneString\<close>; a decoded answer is a \<open>dict\<close>.
\<close>

section \<open>1Password\<close>

record onepassword_config =
  op_Token :: string
  op_Endpoint :: string

definition onepassword_URL :: "(string \<times> string) list" where
  "onepassword_URL =
     [(''business'', ''https://events.1password.com''),
      (''enterprise'', ''https://events.ent.1password.com''),
      (''ca'', ''https://events.1password.ca''),
      (''eu'', ''https://events.1password.eu'')]"

definition onepassword_Validate :: "go_err option \<Rightarrow> onepassword_config \<Rightarrow> go_err option" where
  "onepassword_Validate client_err c =
     (case client_err of
        Some e \<Rightarrow> Some (GoWrap ''client_options: %v'' e)
      | None \<Rightarrow>
          if op_Token c = '''' then Some (GoErr ''missing token'')
          else if op_Endpoint c = '''' then Some (GoErr ''missing endpoint'')
          else if \<not> has_prefix (op_Endpoint c) ''https://'' \<and> map_of onepassword_URL (op_Endpoint c) = None then
            Some (GoErr ''invalid endpoint, not https or in %v'')
          else None)"

text \<open>The constructor resolves the endpoint, then creates the client; it starts one loop per path below.\<close>

definition NewOnePasswordpAdapter :: "go_err option \<Rightarrow> onepassword_config \<Rightarrow> go_err + string" where
  "NewOnePasswordpAdapter client_err conf =
     (if has_prefix (op_Endpoint conf) ''https://'' then
        (case client_err of Some e \<Rightarrow> Inl e | None \<Rightarrow> Inr (op_Endpoint conf))
      else (case map_of onepassword_URL (op_Endpoint conf) of
              Some v \<Rightarrow> (case client_err of Some e \<Rightarrow> Inl e | None \<Rightarrow> Inr v)
            | None \<Rightarrow> Inl (GoErr ''not a valid api endpoint: %s'')))"

definition onepassword_urls :: "string list" where
  "onepassword_urls = [''/api/v1/auditevents'', ''/api/v1/itemusages'', ''/api/v1/signinattempts'']"

definition onepassword_Close :: "('q, 'r) env \<Rightarrow> ('q, 'r, go_err option) io" where
  "onepassword_Close env = close_adapter env"

text \<open>The JSON body, as its fields in order; fields with a zero value are left out.\<close>

definition onepassword_request :: "string \<Rightarrow> string \<Rightarrow> string \<Rightarrow> part list \<Rightarrow> http_req" where
  "onepassword_request endpoint token u b =
     \<lparr>http_method = ''POST'', url = [Lit endpoint, Lit u],
      headers = [(''Content-Type'', [Lit ''application/json'']),
                 (''Authorization'', [Lit ''Bearer '', Lit token])],
      body = b\<rparr>"

definition onepassword_makeOneRequest ::
    "(http_req, dict http) env \<Rightarrow> json_unmarshal \<Rightarrow> string \<Rightarrow> string \<Rightarrow> string \<Rightarrow> string \<Rightarrow>
     (http_req, dict http, (dict list \<times> string) option) io" where
  "onepassword_makeOneRequest env um endpoint token u lastCursor = do {
     b \<leftarrow> (if lastCursor \<noteq> '''' then ret [Lit ''cursor'', Lit lastCursor]
           else do {
             t \<leftarrow> now env;
             ret [Lit ''limit'', Num 1000, Lit ''start_time'', RFC3339 t]
           });
     resp \<leftarrow> call env (onepassword_request endpoint token u b);
     case resp of
       NewRequestErr e \<Rightarrow> do { setStop; ret (Some ([], '''')) }
     | DoErr e \<Rightarrow> do { onError (GoWrap ''http.Client.Do(): %v'' e); ret (Some ([], lastCursor)) }
     | Resp st rd bd \<Rightarrow>
         if st \<noteq> 200 then do { onWarning ''1password api non-200: %s''; ret (Some ([], lastCursor)) }
         else (case bd of
                 Inl e \<Rightarrow> do { onError (GoWrap ''1password api invalid json: %v'' e); ret (Some ([], lastCursor)) }
               | Inr respData \<Rightarrow>
                   ret (Some (fst (GetListOfDict respData ''items''), FindOneString um respData ''cursor'')))
   }"

definition onepassword_fetchEvents ::
    "(http_req, dict http) env \<Rightarrow> json_unmarshal \<Rightarrow> string \<Rightarrow> string \<Rightarrow> string \<Rightarrow> nat \<Rightarrow> (http_req, dict http, string) io" where
  "onepassword_fetchEvents env um endpoint token u n =
     poll_loop env (30 * second) (onepassword_makeOneRequest env um endpoint token u) n ''''"

lemma onepassword_request_quiet: "quiet_io (onepassword_makeOneRequest env um endpoint token u cur)"
  unfolding onepassword_makeOneRequest_def by (auto split: http.split sum.split)

interpretation onepassword: poller "onepassword_makeOneRequest env um endpoint token u" for env um endpoint token u
  by unfold_locales (rule quiet_ioD [OF onepassword_request_quiet])

section \<open>IT Glue\<close>

definition itglue_Validate :: "go_err option \<Rightarrow> string \<Rightarrow> go_err option" where
  "itglue_Validate client_err token =
     (case client_err of
        Some e \<Rightarrow> Some (GoWrap ''client_options: %v'' e)
      | None \<Rightarrow> if token = '''' then Some (GoErr ''missing token'') else None)"

definition NewITGlueAdapter :: "go_err option \<Rightarrow> string \<Rightarrow> go_err + string" where
  "NewITGlueAdapter client_err token = (case client_err of Some e \<Rightarrow> Inl e | None \<Rightarrow> Inr token)"

definition itglue_Close :: "('q, 'r) env \<Rightarrow> ('q, 'r, go_err option) io" where
  "itglue_Close env = close_adapter env"

definition itglue_logsURL :: string where
  "itglue_logsURL = ''/logs''"

definition itglue_request :: "string \<Rightarrow> part list \<Rightarrow> http_req" where
  "itglue_request token u =
     \<lparr>http_method = ''GET'', url = u,
      headers = [(''Content-Type'', [Lit ''application/vnd.api+json'']), (''x-api-key'', [Lit token])],
      body = []\<rparr>"

definition itglue_makeOneRequest ::
    "(http_req, dict http) env \<Rightarrow> json_unmarshal \<Rightarrow> string \<Rightarrow> string \<Rightarrow> string \<Rightarrow>
     (http_req, dict http, (dict list \<times> string) option) io" where
  "itglue_makeOneRequest env um token u lastCursor = do {
     currentTime \<leftarrow> now env;
     let thirtySecondsAgo = currentTime - 30 * second;
     resp \<leftarrow> call env (itglue_request token
       (if lastCursor \<noteq> '''' then [Lit lastCursor]
        else [Lit ''https://api.itglue.com'', Lit u, Lit ''?filter[created_at]='',
              Layout ''2006-01-02T15:04:05.000000Z07:00'' thirtySecondsAgo, Lit ''&sort=created_at&page[size]=1000'']));
     case resp of
       NewRequestErr e \<Rightarrow> do { setStop; ret (Some ([], '''')) }
     | DoErr e \<Rightarrow> do { onError (GoWrap ''http.Client.Do(): %v'' e); ret (Some ([], lastCursor)) }
     | Resp st rd bd \<Rightarrow>
         if st \<noteq> 200 then do { onWarning ''itglue api non-200: %s''; ret (Some ([], lastCursor)) }
         else (case bd of
                 Inl e \<Rightarrow> do { onError (GoWrap ''itglue api invalid json: %v'' e); ret (Some ([], lastCursor)) }
               | Inr respData \<Rightarrow>
                   ret (Some (fst (GetListOfDict respData ''data''), FindOneString um respData ''next'')))
   }"

definition itglue_fetchEvents ::
    "(http_req, dict http) env \<Rightarrow> json_unmarshal \<Rightarrow> string \<Rightarrow> string \<Rightarrow> nat \<Rightarrow> (http_req, dict http, string) io" where
  "itglue_fetchEvents env um token u n =
     poll_loop env (30 * second) (itglue_makeOneRequest env um token u) n ''''"

lemma itglue_request_quiet: "quiet_io (itglue_makeOneRequest env um token u cur)"
  unfolding itglue_makeOneRequest_def by (auto split: http.split sum.split simp: Let_def)

interpretation itglue: poller "itglue_makeOneRequest env um token u" for env um token u
  by unfold_locales (rule quiet_ioD [OF itglue_request_quiet])

section \<open>Sophos\<close>

record sophos_config =
  so_ClientId :: string
  so_ClientSecret :: string
  so_TenantId :: string
  so_URL :: string

definition sophos_Validate :: "go_err option \<Rightarrow> sophos_config \<Rightarrow> go_err option" where
  "sophos_Validate client_err c =
     (case client_err of
        Some e \<Rightarrow> Some (GoWrap ''client_options: %v'' e)
      | None \<Rightarrow>
          if so_URL c = '''' then Some (GoErr ''missing url'')
          else if so_ClientId c = '''' then Some (GoErr ''missing client id'')
          else if so_ClientSecret c = '''' then Some (GoErr ''missing client secret'')
          else if so_TenantId c = '''' then Some (GoErr ''missing tenant id'')
          else None)"

definition NewSophosAdapter :: "go_err option \<Rightarrow> sophos_config \<Rightarrow> go_err + sophos_config" where
  "NewSophosAdapter client_err conf = (case client_err of Some e \<Rightarrow> Inl e | None \<Rightarrow> Inr conf)"

definition sophos_Close :: "('q, 'r) env \<Rightarrow> ('q, 'r, go_err option) io" where
  "sophos_Close env = close_adapter env"

definition sophos_eventsURL :: string where
  "sophos_eventsURL = ''/siem/v1/events''"

text \<open>The token, or the empty string on every error.\<close>

definition sophos_getJwt ::
    "(http_req, dict http) env \<Rightarrow> json_unmarshal \<Rightarrow> sophos_config \<Rightarrow> (http_req, dict http, string) io" where
  "sophos_getJwt env um c = do {
     resp \<leftarrow> call env
       \<lparr>http_method = ''POST'', url = [Lit ''https://id.sophos.com/api/v2/oauth2/token''],
        headers = [(''Content-Type'', [Lit ''application/x-www-form-urlencoded''])],
        body = [Lit ''grant_type=client_credentials&scope=token&client_id='', Lit (so_ClientId c),
                Lit ''&client_secret='', Lit (so_ClientSecret c)]\<rparr>;
     case resp of
       NewRequestErr e \<Rightarrow> ret ''''
     | DoErr e \<Rightarrow> ret ''''
     | Resp st rd bd \<Rightarrow>
         if st \<noteq> 200 then do { onError (GoErr ''sophos api non-200: %s''); ret '''' }
         else (case bd of
                 Inl e \<Rightarrow> do { onError (GoWrap ''sophos api invalid json: %v'' e); ret '''' }
               | Inr respData \<Rightarrow> ret (FindOneString um respData ''access_token''))
   }"

text \<open>The URL of a request: by time, unless the last answer said that there is more.\<close>

definition sophos_page_url :: "sophos_config \<Rightarrow> string \<Rightarrow> string \<Rightarrow> string \<Rightarrow> time \<Rightarrow> part list" where
  "sophos_page_url c u lastCursor has_more t =
     (if has_more \<noteq> ''false'' then
        [Lit (so_URL c), Lit u, Lit ''?cursor='', Lit lastCursor, Lit ''&limit=200'']
      else [Lit (so_URL c), Lit u, Lit ''?from_date='', Num (unix t - 30), Lit ''&limit=200''])"

definition sophos_makeOneRequest ::
    "(http_req, dict http) env \<Rightarrow> json_unmarshal \<Rightarrow> sophos_config \<Rightarrow> string \<Rightarrow> string \<times> string \<Rightarrow>
     (http_req, dict http, (dict list \<times> (string \<times> string)) option) io" where
  "sophos_makeOneRequest env um c u st = (case st of (lastCursor, has_more) \<Rightarrow> do {
     token \<leftarrow> sophos_getJwt env um c;
     t \<leftarrow> now env;
     resp \<leftarrow> call env
       \<lparr>http_method = ''GET'', url = sophos_page_url c u lastCursor has_more t,
        headers = [(''Content-Type'', [Lit ''application/json'']), (''X-Tenant-ID'', [Lit (so_TenantId c)]),
                   (''Authorization'', [Lit ''Bearer '', Lit token])],
        body = []\<rparr>;
     case resp of
       NewRequestErr e \<Rightarrow> do { setStop; ret (Some ([], ('''', ''''))) }
     | DoErr e \<Rightarrow> do { onError (GoWrap ''http.Client.Do(): %v'' e); ret (Some ([], (lastCursor, has_more))) }
     | Resp st rd bd \<Rightarrow>
         if st \<noteq> 200 then do { onError (GoErr ''sophos api non-200: %s''); ret (Some ([], (lastCursor, has_more))) }
         else (case bd of
                 Inl e \<Rightarrow> do { onError (GoWrap ''sophos api invalid json: %v'' e); ret (Some ([], (lastCursor, has_more))) }
               | Inr respData \<Rightarrow>
                   ret (Some (fst (GetListOfDict respData ''items''),
                     (FindOneString um respData ''next_cursor'', FindOneString um respData ''has_more''))))
   })"

definition sophos_fetchEvents ::
    "(http_req, dict http) env \<Rightarrow> json_unmarshal \<Rightarrow> sophos_config \<Rightarrow> string \<Rightarrow> nat \<Rightarrow> (http_req, dict http, string \<times> string) io" where
  "sophos_fetchEvents env um c u n =
     poll_loop env (30 * second) (sophos_makeOneRequest env um c u) n ('''', ''false'')"

lemma sophos_getJwt_quiet [intro!]: "quiet_io (sophos_getJwt env um c)"
  unfolding sophos_getJwt_def by (auto split: http.split sum.split)

lemma sophos_request_quiet: "quiet_io (sophos_makeOneRequest env um c u st)"
  unfolding sophos_makeOneRequest_def by (auto split: http.split sum.split prod.split)

interpretation sophos: poller "sophos_makeOneRequest env um c u" for env um c u
  by unfold_locales (rule quiet_ioD [OF sophos_request_quiet])

section \<open>Box\<close>

record box_config =
  box_ClientID :: string
  box_ClientSecret :: string
  box_SubjectID :: string

definition box_Validate :: "go_err option \<Rightarrow> box_config \<Rightarrow> go_err option" where
  "box_Validate client_err c =
     (case client_err of
        Some e \<Rightarrow> Some (GoWrap ''client_options: %v'' e)
      | None \<Rightarrow>
          if box_ClientID c = '''' \<or> box_ClientSecret c = '''' \<or> box_SubjectID c = '''' then
            Some (GoErr ''missing Box client ID, secret, or subject ID'')
          else None)"

text \<open>The table of seen events and the position in the stream.\<close>

type_synonym box_state = "dedupe \<times> string"

definition NewBoxAdapter :: "go_err option \<Rightarrow> go_err + box_state" where
  "NewBoxAdapter client_err = (case client_err of Some e \<Rightarrow> Inl e | None \<Rightarrow> Inr ([], ''''))"

definition box_Close :: "('q, 'r) env \<Rightarrow> ('q, 'r, go_err option) io" where
  "box_Close env = close_adapter env"

datatype box_answer =
    BoxToken dict
  | BoxPage (box_Entries: "dict list") (box_NextStreamPos: string)

text \<open>The form of the token request, encoded with its keys in alphabetical order.\<close>

definition box_token_request :: "box_config \<Rightarrow> http_req" where
  "box_token_request c =
     \<lparr>http_method = ''POST'', url = [Lit ''https://api.box.com/oauth2/token''],
      headers = [(''Content-Type'', [Lit ''application/x-www-form-urlencoded''])],
      body = [Lit ''box_subject_id='', Escaped (box_SubjectID c), Lit ''&box_subject_type=enterprise&client_id='',
              Escaped (box_ClientID c), Lit ''&client_secret='', Escaped (box_ClientSecret c),
              Lit ''&grant_type=client_credentials'']\<rparr>"

definition box_getAccessToken ::
    "(http_req, box_answer http) env \<Rightarrow> box_config \<Rightarrow> (http_req, box_answer http, go_err + string) io" where
  "box_getAccessToken env c = do {
     resp \<leftarrow> call env (box_token_request c);
     ret (case resp of
            NewRequestErr e \<Rightarrow> Inl e
          | DoErr e \<Rightarrow> Inl e
          | Resp st rd bd \<Rightarrow>
              if st \<noteq> 200 then Inl (GoErr ''token request failed: %s'')
              else (case bd of
                      Inl e \<Rightarrow> Inl e
                    | Inr (BoxToken result) \<Rightarrow>
                        (case map_of result ''access_token'' of
                           Some (GString accessToken) \<Rightarrow> Inr accessToken
                         | _ \<Rightarrow> Inl (GoErr ''access_token missing in response''))
                    | Inr (BoxPage _ _) \<Rightarrow> Inl (GoErr ''access_token missing in response'')))
   }"

text \<open>The loop over the entries of an answer.\<close>

fun box_new_items :: "(string \<Rightarrow> time option) \<Rightarrow> dict list \<Rightarrow> dedupe \<Rightarrow> dict list \<times> dedupe" where
  "box_new_items p [] dd = ([], dd)"
| "box_new_items p (entry # entries) dd =
     (let eventid = string_field entry ''event_id'' in
      if map_of dd eventid \<noteq> None then box_new_items p entries dd
      else (let dd1 = (case p (string_field entry ''created_at'') of
                         None \<Rightarrow> dd | Some ts \<Rightarrow> put eventid (unix ts) dd);
                (rest, dd2) = box_new_items p entries dd1
            in (entry # rest, dd2)))"

definition box_request :: "string \<Rightarrow> part list \<Rightarrow> http_req" where
  "box_request token position =
     \<lparr>http_method = ''GET'', url = Lit ''https://api.box.com/2.0/events?stream_type=admin_logs'' # position,
      headers = [(''Authorization'', [Lit ''Bearer '', Lit token])], body = []\<rparr>"

text \<open>The part of a poll after the token and the position are known.\<close>

definition box_answered ::
    "(http_req, box_answer http) env \<Rightarrow> (string \<Rightarrow> time option) \<Rightarrow> dedupe \<Rightarrow> string \<Rightarrow> http_req \<Rightarrow>
     (http_req, box_answer http, dict list \<times> string \<times> go_err option \<times> dedupe) io" where
  "box_answered env p dd streamPosition q = do {
     resp \<leftarrow> call env q;
     case resp of
       NewRequestErr e \<Rightarrow> ret ([], streamPosition, Some e, dd)
     | DoErr e \<Rightarrow> ret ([], streamPosition, Some e, dd)
     | Resp st rd bd \<Rightarrow>
         if st \<noteq> 200 then do {
           onError (GoErr ''box api non-200: %s'');
           ret ([], streamPosition, Some (GoErr ''non-200 from Box''), dd)
         }
         else (case bd of
                 Inl e \<Rightarrow> do { onError (GoWrap ''unmarshal: %v'' e); ret ([], streamPosition, Some e, dd) }
               | Inr parsed \<Rightarrow> do {
                   let (entries, next_pos) = (case parsed of BoxPage es n \<Rightarrow> (es, n) | BoxToken _ \<Rightarrow> ([], ''''));
                   let nextStreamPosStr = (if next_pos = ''0'' then ''now'' else next_pos);
                   let (allItems, dd1) = box_new_items p entries dd;
                   dd2 \<leftarrow> cull env (1 * hour) dd1;
                   ret (allItems, nextStreamPosStr, None, dd2)
                 })
   }"

definition box_makeOneRequest ::
    "(http_req, box_answer http) env \<Rightarrow> (string \<Rightarrow> time option) \<Rightarrow> box_config \<Rightarrow> dedupe \<Rightarrow> string \<Rightarrow>
     (http_req, box_answer http, dict list \<times> string \<times> go_err option \<times> dedupe) io" where
  "box_makeOneRequest env p c dd streamPosition = do {
     auth \<leftarrow> box_getAccessToken env c;
     case auth of
       Inl e \<Rightarrow> do { onError (GoWrap ''token: %v'' e); ret ([], streamPosition, Some e, dd) }
     | Inr token \<Rightarrow> do {
         position \<leftarrow> (if streamPosition = ''now'' \<or> streamPosition = ''0'' then do {
             t \<leftarrow> now env;
             ret [Lit ''&created_after='', RFC3339 (t - 10 * minute)]
           } else ret [Lit ''&stream_position='', Escaped streamPosition]);
         box_answered env p dd streamPosition (box_request token position)
       }
   }"

text \<open>One turn of the loop: the position moves only when the answer has one.\<close>

definition box_poll ::
    "(http_req, box_answer http) env \<Rightarrow> (string \<Rightarrow> time option) \<Rightarrow> box_config \<Rightarrow> box_state \<Rightarrow>
     (http_req, box_answer http, (dict list \<times> box_state) option) io" where
  "box_poll env p c st = (case st of (dd, streamPosition) \<Rightarrow> do {
     (items, newStreamPosition, err, dd') \<leftarrow> box_makeOneRequest env p c dd streamPosition;
     ret (Some (items, (dd', if newStreamPosition \<noteq> '''' then newStreamPosition else streamPosition)))
   })"

text \<open>The first request only finds the position: its items are discarded, but they count as seen.\<close>

definition box_fetchEvents ::
    "(http_req, box_answer http) env \<Rightarrow> (string \<Rightarrow> time option) \<Rightarrow> box_config \<Rightarrow> nat \<Rightarrow> box_state \<Rightarrow>
     (http_req, box_answer http, box_state) io" where
  "box_fetchEvents env p c n st = (case st of (dd, streamPosition) \<Rightarrow> do {
     (items, streamPos, err, dd') \<leftarrow> box_makeOneRequest env p c dd ''now'';
     poll_loop env (30 * second) (box_poll env p c) n (dd', if err = None then streamPos else streamPosition)
   })"

lemma box_getAccessToken_quiet [intro!]: "quiet_io (box_getAccessToken env c)"
  unfolding box_getAccessToken_def by auto

lemma box_makeOneRequest_quiet [intro!]: "quiet_io (box_makeOneRequest env p c dd pos)"
  unfolding box_makeOneRequest_def box_answered_def
  by (auto split: http.split sum.split prod.split box_answer.split simp: Let_def)

lemma box_poll_quiet: "quiet_io (box_poll env p c st)"
  unfolding box_poll_def by (auto split: prod.split)

interpretation box: poller "box_poll env p c" for env p c
  by unfold_locales (rule quiet_ioD [OF box_poll_quiet])

section \<open>Resuming\<close>

lemma box_new_items_complete:
  "box_new_items p entries dd = (items, dd') \<Longrightarrow> entry \<in> set entries \<Longrightarrow>
   string_field entry ''event_id'' \<in> fst ` set dd \<union> set (map (\<lambda>i. string_field i ''event_id'') items)"
proof (induction entries arbitrary: dd items)
  case (Cons e es)
  let ?id = "string_field e ''event_id''"
  show ?case
  proof (cases "map_of dd ?id")
    case None
    define dd1 where "dd1 = (case p (string_field e ''created_at'') of None \<Rightarrow> dd | Some ts \<Rightarrow> put ?id (unix ts) dd)"
    obtain rest where r: "items = e # rest" "box_new_items p es dd1 = (rest, dd')"
      using Cons.prems(1) None by (auto simp: Let_def dd1_def split: prod.splits)
    have "fst ` set dd1 \<subseteq> insert ?id (fst ` set dd)" by (auto simp: dd1_def split: option.split)
    then show ?thesis using Cons.IH [OF r(2)] Cons.prems(2) by (auto simp: r(1))
  next
    case (Some v)
    then have "?id \<in> fst ` set dd" by (force dest: map_of_SomeD)
    then show ?thesis using Cons.IH [of dd items] Cons.prems Some by (auto simp: Let_def)
  qed
qed simp

text \<open>What a poll that got a page has done.\<close>

definition box_paged :: "dedupe \<Rightarrow> string \<Rightarrow> dict list \<Rightarrow> string \<Rightarrow> (http_req, box_answer http) history \<Rightarrow> bool" where
  "box_paged dd pos items pos' h \<longleftrightarrow>
     (\<exists>token from rd parsed. ECall (box_request token from) (Resp 200 rd (Inr parsed)) \<in> set h \<and>
       (\<forall>entries next_pos. parsed = BoxPage entries next_pos \<longrightarrow>
          pos' = (if next_pos = ''0'' then ''now'' else if next_pos = '''' then pos else next_pos) \<and>
          (\<forall>entry \<in> set entries. string_field entry ''event_id'' \<in>
             fst ` set dd \<union> set (map (\<lambda>i. string_field i ''event_id'') items))))"

lemma box_paged_cull:
  assumes "box_paged dd pos items pos' (hist w)"
  shows "wp (cull env d dd1) (\<lambda>_ w'. box_paged dd pos items pos' (hist w')) w"
proof (rule wpI)
  fix dd2 w' assume "run_state (cull env d dd1) w = (dd2, w')"
  then have "set (hist w) \<subseteq> set (hist w')" using quiet_ioD [OF quiet_cull] adds_hist by blast
  with assms show "box_paged dd pos items pos' (hist w')" unfolding box_paged_def by blast
qed

lemma box_paged_call:
  assumes "box_new_items p entries dd = (items, dd1)"
    and "\<And>es n. parsed = BoxPage es n \<Longrightarrow> es = entries \<and> n = next_pos"
    and "pos' = (if next_pos = ''0'' then ''now'' else if next_pos = '''' then pos else next_pos)"
  shows "box_paged dd pos items pos' (ECall (box_request token from) (Resp 200 rd (Inr parsed)) # h)"
proof -
  have "\<forall>entry \<in> set entries. string_field entry ''event_id'' \<in>
      fst ` set dd \<union> set (map (\<lambda>i. string_field i ''event_id'') items)"
    using box_new_items_complete [OF assms(1)] by blast
  then show ?thesis using assms(2,3) unfolding box_paged_def
    by (intro exI [of _ token] exI [of _ "from"] exI [of _ rd] exI [of _ parsed]) auto
qed

abbreviation box_resumed ::
    "dedupe \<Rightarrow> string \<Rightarrow> dict list \<times> string \<times> go_err option \<times> dedupe \<Rightarrow> (http_req, box_answer http) world \<Rightarrow> bool" where
  "box_resumed dd pos \<equiv> \<lambda>(items, newpos, err, dd') w'. items = [] \<and> newpos = pos \<and> dd' = dd \<or>
     box_paged dd pos items (if newpos \<noteq> '''' then newpos else pos) (hist w')"

lemma box_answered_resumes: "wp (box_answered env p dd pos (box_request token from)) (box_resumed dd pos) w"
proof -
  let ?q = "box_request token from"
  let ?r = "e_call env (hist w) ?q"
  let ?w1 = "w\<lparr>hist := ECall ?q ?r # hist w\<rparr>"
  consider (page) rd parsed where "?r = Resp 200 rd (Inr parsed)" | (none) "\<not> (\<exists>rd parsed. ?r = Resp 200 rd (Inr parsed))"
    by blast
  then show ?thesis
  proof cases
    case page
    define entries where "entries = (case parsed of BoxPage es n \<Rightarrow> es | BoxToken _ \<Rightarrow> [])"
    define next_pos where "next_pos = (case parsed of BoxPage es n \<Rightarrow> n | BoxToken _ \<Rightarrow> '''')"
    obtain items dd1 where new: "box_new_items p entries dd = (items, dd1)" by fastforce
    have parsed: "(case parsed of BoxPage es n \<Rightarrow> (es, n) | BoxToken _ \<Rightarrow> ([], '''')) = (entries, next_pos)"
      by (simp add: entries_def next_pos_def split: box_answer.split)
    let ?pos = "if next_pos = ''0'' then ''now'' else if next_pos = '''' then pos else next_pos"
    have "box_paged dd pos items ?pos (ECall ?q (Resp 200 rd (Inr parsed)) # hist w)"
      by (rule box_paged_call [OF new, where next_pos = next_pos and parsed = parsed]) (auto simp: entries_def next_pos_def)
    then have "box_paged dd pos items ?pos (hist ?w1)" by (simp add: page)
    note cull = box_paged_cull [OF this, unfolded page]
    show ?thesis
      unfolding box_answered_def
      by (auto simp: wp_simps page parsed new intro!: wp_mono [OF cull] split: if_splits)
  next
    case none
    then show ?thesis
      unfolding box_answered_def
      by (cases ?r; cases "decoded ?r") (auto simp: wp_simps)
  qed
qed

lemma box_request_resumes: "wp (box_makeOneRequest env p c dd pos) (box_resumed dd pos) w"
  unfolding box_makeOneRequest_def
proof (subst wp_bind, rule wp_any)
  fix auth w1
  show "wp (case auth of
       Inl e \<Rightarrow> do { onError (GoWrap ''token: %v'' e); ret ([], pos, Some e, dd) }
     | Inr token \<Rightarrow> do {
         position \<leftarrow> (if pos = ''now'' \<or> pos = ''0'' then do {
             t \<leftarrow> now env;
             ret [Lit ''&created_after='', RFC3339 (t - 10 * minute)]
           } else ret [Lit ''&stream_position='', Escaped pos]);
         box_answered env p dd pos (box_request token position)
       }) (box_resumed dd pos) w1"
    using box_answered_resumes by (cases auth) (simp_all add: wp_simps)
qed

text \<open>A poll of Box that does not get a page changes nothing, so that the next one asks for the same position;
  a poll that gets one reports an entry for every identifier that was not seen before, and moves to the
  position the service names (to the last ten minutes when that is zero).\<close>

theorem box_poll_resumes:
  assumes "run_state (box_poll env p c (dd, pos)) w = (res, w')"
  shows "res = Some ([], (dd, pos)) \<or>
    (\<exists>items dd' pos'. res = Some (items, (dd', pos')) \<and> box_paged dd pos items pos' (hist w'))"
proof -
  have "wp (box_poll env p c (dd, pos)) (\<lambda>res w'. res = Some ([], (dd, pos)) \<or>
    (\<exists>items dd' pos'. res = Some (items, (dd', pos')) \<and> box_paged dd pos items pos' (hist w'))) w"
    unfolding box_poll_def using box_request_resumes [of env p c dd pos w]
    by (auto simp: wp_simps elim!: wp_mono split: prod.splits)
  from wpD [OF this assms] show ?thesis .
qed

text \<open>Sophos sends \<open>has_more\<close> as a JSON boolean, which the adapter reads as a string: whatever its value, the
  next request follows the cursor of the answer and never goes back to asking by time.\<close>

theorem sophos_follows_cursor:
  assumes "map_of respData ''has_more'' = Some (GBool b)"
    and "\<And>h q. e_call env h q = Resp 200 None (Inr respData)"
  shows "\<exists>items w'. run_state (sophos_makeOneRequest env um c u st) w =
      (Some (items, (FindOneString um respData ''next_cursor'', '''')), w') \<and>
    (\<forall>t. sophos_page_url c u (FindOneString um respData ''next_cursor'') '''' t =
      [Lit (so_URL c), Lit u, Lit ''?cursor='', Lit (FindOneString um respData ''next_cursor''), Lit ''&limit=200''])"
proof -
  have "FindOneString um respData ''has_more'' = ''''"
    using assms(1) by (subst FindOneString_top) (simp_all add: plain_key_def)
  then have "fst (run_state (sophos_makeOneRequest env um c u st) w) =
      Some (fst (GetListOfDict respData ''items''), (FindOneString um respData ''next_cursor'', ''''))"
    using assms(2) by (cases st) (simp add: sophos_makeOneRequest_def sophos_getJwt_def run_simps)
  then show ?thesis by (auto simp: sophos_page_url_def) (metis prod.collapse)
qed

lemma sophos_follows_cursor_witness:
  "\<exists>items w'. run_state (sophos_makeOneRequest
      (steady_env 0 (\<lambda>_. Resp 200 None (Inr [(''next_cursor'', GString ''c''), (''has_more'', GBool False)])))
      no_json \<lparr>so_ClientId = ''i'', so_ClientSecret = ''s'', so_TenantId = ''t'', so_URL = ''https://x''\<rparr>
      sophos_eventsURL ('''', ''false'')) fresh_world = (Some (items, (''c'', '''')), w')"
  using sophos_follows_cursor [of "[(''next_cursor'', GString ''c''), (''has_more'', GBool False)]" False
      "steady_env 0 (\<lambda>_. Resp 200 None (Inr [(''next_cursor'', GString ''c''), (''has_more'', GBool False)]))"
      no_json]
  by (simp add: FindOneString_top [of "''next_cursor''"] plain_key_def)

lemma box_poll_resumes_witness:
  "\<exists>res w'. run_state (box_poll (steady_env 0 (\<lambda>_. DoErr (GoErr ''down''))) (\<lambda>_. None)
      \<lparr>box_ClientID = ''i'', box_ClientSecret = ''s'', box_SubjectID = ''j''\<rparr> ([], ''7'')) fresh_world = (res, w') \<and>
    (res = Some ([], ([], ''7'')) \<or>
     (\<exists>items dd' pos'. res = Some (items, (dd', pos')) \<and> box_paged [] ''7'' items pos' (hist w')))"
proof -
  obtain res w' where r: "run_state (box_poll (steady_env 0 (\<lambda>_. DoErr (GoErr ''down''))) (\<lambda>_. None)
      \<lparr>box_ClientID = ''i'', box_ClientSecret = ''s'', box_SubjectID = ''j''\<rparr> ([], ''7'')) fresh_world = (res, w')"
    by fastforce
  from box_poll_resumes [OF r] r show ?thesis by blast
qed

end
