(* ===== verification/Poll_Slack.thy ===== *)
theory Poll_Slack
  imports Polling Json_Access
begin

text \<open>
  \<open>slack/client.go\<close>: the adapter asks the audit log of Slack for what is newer than the last entry it has seen, ships
  each page and follows the cursor to the last page. \<open>oor\<close> is the result of a conversion of a float out of range.
\<close>

section \<open>Model\<close>

definition slack_Validate :: "go_err option \<Rightarrow> string \<Rightarrow> go_err option" where
  "slack_Validate client_err token =
     (case client_err of
        Some e \<Rightarrow> Some (GoWrap ''client_options: %v'' e)
      | None \<Rightarrow> if token = '''' then Some (GoErr ''missing token'') else None)"

definition NewSlackAdapter :: "go_err option \<Rightarrow> string \<Rightarrow> go_err + string" where
  "NewSlackAdapter client_err token = (case client_err of Some e \<Rightarrow> Inl e | None \<Rightarrow> Inr token)"

definition slack_Close :: "('q, 'r) env \<Rightarrow> ('q, 'r, go_err option) io" where
  "slack_Close env = close_adapter env"

record slackResponse =
  sl_Entries :: "dict list"
  sl_NextCursor :: string

text \<open>The query, encoded with its keys in alphabetical order.\<close>

definition slack_query :: "64 word \<Rightarrow> string \<Rightarrow> part list" where
  "slack_query lastTime page =
     (let oldest = (if lastTime \<noteq> 0 then [Lit ''oldest='', Num (sint lastTime)] else []);
          cursor = (if page \<noteq> '''' then [Lit ''cursor='', Escaped page] else [])
      in if cursor = [] then oldest else if oldest = [] then cursor else cursor @ Lit ''&'' # oldest)"

definition slack_makeOneContentRequest ::
    "(http_req, slackResponse http) env \<Rightarrow> string \<Rightarrow> 64 word \<Rightarrow> string \<Rightarrow>
     (http_req, slackResponse http, go_err + (dict list \<times> string)) io" where
  "slack_makeOneContentRequest env token lastTime page = do {
     resp \<leftarrow> call env
       \<lparr>http_method = ''GET'', url = Lit ''https://api.slack.com/audit/v1/logs'' # Lit ''?'' # slack_query lastTime page,
        headers = [(''Content-Type'', [Lit ''application/json'']), (''Authorization'', [Lit ''Bearer '', Lit token])],
        body = []\<rparr>;
     case resp of
       NewRequestErr e \<Rightarrow> do { setStop; onError (GoWrap ''http.NewRequest(): %v'' e); ret (Inl e) }
     | DoErr e \<Rightarrow> do { onError (GoWrap ''http.Client.Do(): %v'' e); ret (Inl e) }
     | Resp st rd bd \<Rightarrow>
         if st \<noteq> 200 then do { onError (GoErr ''slack content api non-200: %s''); ret (Inr ([], '''')) }
         else (case bd of
                 Inl e \<Rightarrow> do { onError (GoWrap ''slack content api invalid json: %v'' e); ret (Inl e) }
               | Inr respData \<Rightarrow> ret (Inr (sl_Entries respData, sl_NextCursor respData)))
   }"

text \<open>The loop of \<open>shipEntries\<close>: the latest \<open>date_create\<close> of the page, or the error of \<open>Ship\<close>.\<close>

fun slack_ship_loop ::
    "('q, 'r) env \<Rightarrow> (gfloat \<Rightarrow> 64 word) \<Rightarrow> time \<Rightarrow> dict list \<Rightarrow> 64 word \<Rightarrow> ('q, 'r, 64 word \<times> go_err option) io" where
  "slack_ship_loop env oor t [] latestTs = ret (latestTs, None)"
| "slack_ship_loop env oor t (event # entries) latestTs = do {
     let ts = fst (GetInt oor event ''date_create'');
     let latestTs' = (if ts > latestTs then ts else latestTs);
     err \<leftarrow> ship_retry env (json_message event t);
     case err of
       Some e \<Rightarrow> do { onError (GoWrap ''Ship(): %v'' e); ret (latestTs', Some e) }
     | None \<Rightarrow> slack_ship_loop env oor t entries latestTs'
   }"

definition slack_shipEntries ::
    "('q, 'r) env \<Rightarrow> (gfloat \<Rightarrow> 64 word) \<Rightarrow> dict list \<Rightarrow> ('q, 'r, 64 word \<times> go_err option) io" where
  "slack_shipEntries env oor entries = do {
     t \<leftarrow> now env;
     slack_ship_loop env oor t entries 0
   }"

text \<open>
  One turn: a request by time, then the pages of the cursor, with fuel. The result is the new \<open>lastTime\<close> and
  whether the loop goes on (\<open>Some (_, False)\<close> is a \<open>return\<close> of \<open>fetchEvents\<close>); \<open>None\<close> means still paging.
\<close>

fun slack_pages ::
    "(http_req, slackResponse http) env \<Rightarrow> (gfloat \<Rightarrow> 64 word) \<Rightarrow> string \<Rightarrow> nat \<Rightarrow> string \<Rightarrow> 64 word \<Rightarrow> bool \<Rightarrow>
     (http_req, slackResponse http, (64 word \<times> bool) option) io" where
  "slack_pages env oor token 0 page lastTime isItemsProcessed = ret None"
| "slack_pages env oor token (Suc fuel) page lastTime isItemsProcessed = do {
     res \<leftarrow> slack_makeOneContentRequest env token lastTime page;
     case res of
       Inl e \<Rightarrow> ret (Some (lastTime, False))
     | Inr (entries, nextPage) \<Rightarrow> do {
         (lastTime1, processed1, err) \<leftarrow>
           (if entries \<noteq> [] then do {
              (latest, err) \<leftarrow> slack_shipEntries env oor entries;
              ret (latest, True, err)
            } else ret (lastTime, isItemsProcessed, None));
         if err \<noteq> None then ret (Some (lastTime1, False))
         else if nextPage \<noteq> '''' then slack_pages env oor token fuel nextPage lastTime1 processed1
         else ret (Some (if processed1 then lastTime1 + 1 else lastTime1, True))
       }
   }"

fun slack_loop ::
    "(http_req, slackResponse http) env \<Rightarrow> (gfloat \<Rightarrow> 64 word) \<Rightarrow> string \<Rightarrow> nat \<Rightarrow> nat \<Rightarrow> 64 word \<Rightarrow>
     (http_req, slackResponse http, 64 word) io" where
  "slack_loop env oor token fuel 0 lastTime = ret lastTime"
| "slack_loop env oor token fuel (Suc n) lastTime = do {
     stopped \<leftarrow> waitFor env (5 * second);
     if stopped then ret lastTime
     else do {
       r \<leftarrow> slack_pages env oor token fuel '''' lastTime False;
       case r of
         Some (lastTime', True) \<Rightarrow> slack_loop env oor token fuel n lastTime'
       | Some (lastTime', False) \<Rightarrow> ret lastTime'
       | None \<Rightarrow> ret lastTime
     }
   }"

definition slack_fetchEvents ::
    "(http_req, slackResponse http) env \<Rightarrow> (gfloat \<Rightarrow> 64 word) \<Rightarrow> string \<Rightarrow> nat \<Rightarrow> nat \<Rightarrow>
     (http_req, slackResponse http, 64 word) io" where
  "slack_fetchEvents env oor token fuel n = do {
     t \<leftarrow> now env;
     slack_loop env oor token fuel n (word_of_int (unix t))
   }"

section \<open>The time asked for next\<close>

definition slack_ts :: "(gfloat \<Rightarrow> 64 word) \<Rightarrow> dict \<Rightarrow> 64 word" where
  "slack_ts oor event = fst (GetInt oor event ''date_create'')"

definition max_ts :: "(gfloat \<Rightarrow> 64 word) \<Rightarrow> dict list \<Rightarrow> 64 word" where
  "max_ts oor entries = foldl max 0 (map (slack_ts oor) entries)"

lemma ship_retry_wp:
  assumes "\<And>h m d. e_ship env h m d = None"
  shows "wp (ship_retry env m) Q w \<longleftrightarrow> Q None (w\<lparr>hist := EShip m (10 * second) None # hist w\<rparr>)"
  using assms by (simp add: ship_retry_def wp_simps)

lemma slack_ship_loop_ts:
  assumes "\<And>h m d. e_ship env h m d = None"
  shows "wp (slack_ship_loop env oor t entries ts)
    (\<lambda>r w'. r = (foldl max ts (map (slack_ts oor) entries), None) \<and>
       delivered_docs (hist w') = delivered_docs (hist w) @ entries) w"
proof (induction entries arbitrary: ts w)
  case (Cons e es)
  let ?w1 = "w\<lparr>hist := EShip (json_message e t) (10 * second) None # hist w\<rparr>"
  have docs: "delivered_docs (hist ?w1) = delivered_docs (hist w) @ [e]"
    by (simp add: delivered_docs_def)
  have ts: "(if fst (GetInt oor e ''date_create'') > ts then fst (GetInt oor e ''date_create'') else ts) = max ts (slack_ts oor e)"
    by (auto simp: max_def slack_ts_def)
  from Cons [of "max ts (slack_ts oor e)" ?w1] docs show ?case
    by (simp only: slack_ship_loop.simps Let_def ts wp_bind ship_retry_wp [OF assms] option.case) simp
qed (simp add: wp_simps)

lemma slack_shipEntries_ts:
  assumes "\<And>h m d. e_ship env h m d = None"
  shows "wp (slack_shipEntries env oor entries)
    (\<lambda>r w'. r = (max_ts oor entries, None) \<and> delivered_docs (hist w') = delivered_docs (hist w) @ entries) w"
proof -
  let ?t = "e_now env (hist w)"
  let ?w1 = "w\<lparr>hist := ENow ?t # hist w\<rparr>"
  have "delivered_docs (hist ?w1) = delivered_docs (hist w)" by (simp add: delivered_docs_def)
  then show ?thesis
    using slack_ship_loop_ts [OF assms, of oor ?t entries 0 ?w1]
    by (simp add: slack_shipEntries_def wp_simps max_ts_def)
qed

text \<open>A page that the service answers with, and the rest of the turn after it.\<close>

lemma slack_page_step:
  assumes ships: "\<And>h m d. e_ship env h m d = None"
    and page: "\<And>h q. (Lit ''cursor='' \<in> set (url q)) = (pg \<noteq> '''') \<Longrightarrow>
      e_call env h q = Resp 200 None (Inr \<lparr>sl_Entries = entries, sl_NextCursor = cur\<rparr>)"
    and "entries \<noteq> []"
    and rest: "\<And>w1. delivered_docs (hist w1) = delivered_docs (hist w) @ entries \<Longrightarrow>
      wp (if cur \<noteq> '''' then slack_pages env oor token fuel cur (max_ts oor entries) True
          else ret (Some (max_ts oor entries + 1, True))) Q w1"
  shows "wp (slack_pages env oor token (Suc fuel) pg lastTime b) Q w"
proof -
  define q where "q = \<lparr>http_method = ''GET'',
     url = Lit ''https://api.slack.com/audit/v1/logs'' # Lit ''?'' # slack_query lastTime pg,
     headers = [(''Content-Type'', [Lit ''application/json'']), (''Authorization'', [Lit ''Bearer '', Lit token])],
     body = []\<rparr>"
  have "(Lit ''cursor='' \<in> set (url q)) = (pg \<noteq> '''')" by (auto simp: q_def slack_query_def Let_def)
  note answer = page [OF this]
  let ?w1 = "w\<lparr>hist := ECall q (Resp 200 None (Inr \<lparr>sl_Entries = entries, sl_NextCursor = cur\<rparr>)) # hist w\<rparr>"
  have docs: "delivered_docs (hist ?w1) = delivered_docs (hist w)" by (simp add: delivered_docs_def)
  note ship = slack_shipEntries_ts [OF ships, of oor entries ?w1]
  show ?thesis
    using assms(3) docs rest
    by (simp add: slack_makeOneContentRequest_def q_def [symmetric] wp_simps answer)
      (rule wp_mono [OF ship], auto simp: wp_simps)
qed

text \<open>A turn of the Slack adapter that reads two pages ships both, but goes on from the latest entry of the
  second page only. The service lists the newest entries first, so the entries of the first page are later than
  the time the next turn asks for, and they will be requested and shipped again.\<close>

theorem slack_second_page_decides:
  assumes ships: "\<And>h m d. e_ship env h m d = None"
    and page1: "\<And>h q. Lit ''cursor='' \<notin> set (url q) \<Longrightarrow>
      e_call env h q = Resp 200 None (Inr \<lparr>sl_Entries = entries1, sl_NextCursor = cur\<rparr>)"
    and page2: "\<And>h q. Lit ''cursor='' \<in> set (url q) \<Longrightarrow>
      e_call env h q = Resp 200 None (Inr \<lparr>sl_Entries = entries2, sl_NextCursor = ''''\<rparr>)"
    and "cur \<noteq> ''''" "entries1 \<noteq> []" "entries2 \<noteq> []"
  shows "\<exists>w'. run_state (slack_pages env oor token (Suc (Suc fuel)) '''' lastTime False) w =
      (Some (max_ts oor entries2 + 1, True), w') \<and>
    delivered_docs (hist w') = delivered_docs (hist w) @ entries1 @ entries2"
proof -
  have "wp (slack_pages env oor token (Suc (Suc fuel)) '''' lastTime False)
    (\<lambda>r w'. r = Some (max_ts oor entries2 + 1, True) \<and>
      delivered_docs (hist w') = delivered_docs (hist w) @ entries1 @ entries2) w"
  proof (rule slack_page_step [OF ships page1 assms(5)])
    fix w1 :: "(http_req, slackResponse http) world"
    assume w1: "delivered_docs (hist w1) = delivered_docs (hist w) @ entries1"
    have "wp (slack_pages env oor token (Suc fuel) cur (max_ts oor entries1) True)
      (\<lambda>r w'. r = Some (max_ts oor entries2 + 1, True) \<and>
        delivered_docs (hist w') = delivered_docs (hist w) @ entries1 @ entries2) w1"
      by (rule slack_page_step [OF ships page2 assms(6)]) (use assms(4) w1 in \<open>auto simp: wp_simps\<close>)
    with assms(4) show "wp (if cur \<noteq> '''' then slack_pages env oor token (Suc fuel) cur (max_ts oor entries1) True
          else ret (Some (max_ts oor entries1 + 1, True)))
      (\<lambda>r w'. r = Some (max_ts oor entries2 + 1, True) \<and>
        delivered_docs (hist w') = delivered_docs (hist w) @ entries1 @ entries2) w1" by simp
  qed simp
  then show ?thesis by (auto simp: wp_def split: prod.splits)
qed

definition two_pages :: "http_req \<Rightarrow> slackResponse http" where
  "two_pages q =
     (if Lit ''cursor='' \<in> set (url q)
      then Resp 200 None (Inr \<lparr>sl_Entries = [[(''date_create'', GUint64 10)]], sl_NextCursor = ''''\<rparr>)
      else Resp 200 None (Inr \<lparr>sl_Entries = [[(''date_create'', GUint64 20)]], sl_NextCursor = ''c''\<rparr>))"

lemma slack_second_page_decides_witness:
  "\<exists>w'. run_state (slack_pages (steady_env 0 two_pages) (\<lambda>_. 0) ''k'' 2 '''' 5 False) fresh_world = (Some (11, True), w') \<and>
    delivered_docs (hist w') = [[(''date_create'', GUint64 20)], [(''date_create'', GUint64 10)]]"
  using slack_second_page_decides [of "steady_env 0 two_pages" "[[(''date_create'', GUint64 20)]]" "''c''"
      "[[(''date_create'', GUint64 10)]]" "\<lambda>_. 0" "''k''" 0 5 fresh_world]
  by (simp add: two_pages_def numeral_2_eq_2 max_ts_def slack_ts_def GetInt_def StandardInt_def)

end
