(* ===== verification/Object_Store.thy ===== *)
theory Object_Store
  imports Polling Parquet_Bundle
begin

text \<open>
  The adapters that read the objects of a bucket and delete them once they are shipped: \<open>s3/client.go\<close> and
  \<open>gcs/client.go\<close>. The pipeline between the listing and the consumer hands over the downloaded objects in the order of
  the listing (theory \<open>Pipeline_Order\<close>); here each object is downloaded when the consumer asks for it.
  \<open>gz\<close> and \<open>to_json\<close> are the libraries behind \<open>PrepareBundleData\<close>.
\<close>

section \<open>What the two share\<close>

datatype store_query =
    QList string
  | QDownload string
  | QDelete string
  | QSchedule "string list"

text \<open>
  The listing of GCS ends with an error or not; \<open>True\<close> means that the pipeline hands the error to the consumer,
  which it does not always (\<open>Pipeline.pipeliner_loses_error\<close>). \<open>RDone\<close> is the result of a deletion and \<open>RKeys\<close> says which
  of the deletions under way have completed.
\<close>

datatype store_answer =
    RObjects "(string \<times> int) list" "(go_err \<times> bool) option"
  | RListErr go_err
  | RData "go_err + string"
  | RDone "go_err option"
  | RKeys "string list"

type_synonym 'a store_io = "(store_query, store_answer, 'a) io"
type_synonym store_env = "(store_query, store_answer) env"

definition maxObjectSize :: int where
  "maxObjectSize = 1024 * 1024 * 100"

text \<open>\<open>atomic.LoadUint32(&a.isStop)\<close>: \<open>Close\<close> may have set it in the meantime. \<open>time.Sleep\<close> is a wait that ignores it.\<close>

definition loadStop :: "('q, 'r) env \<Rightarrow> ('q, 'r, bool) io" where
  "loadStop env = waitFor env 0"

definition sleep :: "duration \<Rightarrow> ('q, 'r, unit) io" where
  "sleep d = emit (EWait d False)"

definition bundle_message :: "string \<Rightarrow> bool \<Rightarrow> time \<Rightarrow> data_message" where
  "bundle_message data isCompressed t =
     \<lparr>payload = (if isCompressed then CompressedBundlePayload data else BundlePayload data),
      TimestampMs = stamp_ms t, EventType = ''''\<rparr>"

definition processEvent :: "('q, 'r) env \<Rightarrow> string \<Rightarrow> bool \<Rightarrow> ('q, 'r, bool) io" where
  "processEvent env data isCompressed = do {
     t \<leftarrow> now env;
     err \<leftarrow> ship_retry env (bundle_message data isCompressed t);
     case err of
       None \<Rightarrow> ret True
     | Some e \<Rightarrow> do { onError (GoWrap ''Ship(): %v'' e); ret False }
   }"

text \<open>
  The goroutine of the constructors: look for files until stopped, after an error, or once; \<open>n\<close> turns of it.
\<close>

fun store_loop :: "store_env \<Rightarrow> bool \<Rightarrow> (bool \<times> go_err option) store_io \<Rightarrow> nat \<Rightarrow> go_err option store_io" where
  "store_loop env isOneTimeLoad look 0 = ret None"
| "store_loop env isOneTimeLoad look (Suc n) = do {
     stopped \<leftarrow> loadStop env;
     if stopped then ret None
     else do {
       (isFilesFound, err) \<leftarrow> look;
       if err \<noteq> None \<or> isOneTimeLoad then ret err
       else do {
         (if isFilesFound then ret () else sleep (5 * second));
         store_loop env isOneTimeLoad look n
       }
     }
   }"

definition store_run :: "store_env \<Rightarrow> string \<Rightarrow> bool \<Rightarrow> (bool \<times> go_err option) store_io \<Rightarrow> nat \<Rightarrow> unit store_io" where
  "store_run env warning isOneTimeLoad look n = do {
     err \<leftarrow> store_loop env isOneTimeLoad look n;
     if err \<noteq> None then onWarning warning else ret ()
   }"

definition store_Close :: "('q, 'r) env \<Rightarrow> ('q, 'r, go_err option) io" where
  "store_Close env = close_adapter env"

section \<open>S3\<close>

record s3_config =
  s3_BucketName :: string
  s3_AccessKey :: string
  s3_SecretKey :: string
  s3_IsOneTimeLoad :: bool
  s3_Prefix :: string
  s3_ParallelFetch :: int
  s3_Region :: string

definition s3_Validate :: "go_err option \<Rightarrow> s3_config \<Rightarrow> go_err option" where
  "s3_Validate client_err c =
     (case client_err of
        Some e \<Rightarrow> Some (GoWrap ''client_options: %v'' e)
      | None \<Rightarrow>
          if s3_BucketName c = '''' then Some (GoErr ''missing bucket_name'')
          else if s3_AccessKey c = '''' then Some (GoErr ''missing access_key'')
          else if s3_SecretKey c = '''' then Some (GoErr ''missing secret_key'')
          else None)"

text \<open>\<open>sdk_retries\<close> is the decision of the SDK's retryer, \<open>msg\<close> the text of the request's error.\<close>

definition s3_ShouldRetry :: "bool \<Rightarrow> string option \<Rightarrow> bool" where
  "s3_ShouldRetry sdk_retries msg =
     (if sdk_retries then True
      else (case msg of
              None \<Rightarrow> False
            | Some m \<Rightarrow> contains m ''connection reset by peer'' \<or> contains m ''unexpected EOF''))"

definition isNotFound :: "string option \<Rightarrow> bool" where
  "isNotFound code = (case code of None \<Rightarrow> False | Some c \<Rightarrow> c = ''NoSuchBucket'' \<or> c = ''NotFound'')"

text \<open>
  The results of the two lookups, each of a new session and of \<open>GetBucketRegion\<close>; \<open>aws_code\<close> gives the code of an
  AWS error.
\<close>

definition s3_getRegion ::
    "(go_err \<Rightarrow> string option) \<Rightarrow> go_err option \<Rightarrow> (go_err + string) \<Rightarrow> go_err option \<Rightarrow> (go_err + string) \<Rightarrow> go_err + string" where
  "s3_getRegion aws_code sess_err commercial gov_sess_err gov =
     (case sess_err of
        Some e \<Rightarrow> Inl e
      | None \<Rightarrow>
          (case commercial of
             Inr region \<Rightarrow> Inr (if region = '''' then ''us-east-1'' else region)
           | Inl err \<Rightarrow>
               if isNotFound (aws_code err) then Inl (GoWrap ''bucket %q not found in commercial or GovCloud partitions: %w'' err)
               else (case gov_sess_err of
                       Some e \<Rightarrow> Inl e
                     | None \<Rightarrow>
                         (case gov of
                            Inr govRegion \<Rightarrow> Inr (if govRegion = '''' then ''us-gov-west-1'' else govRegion)
                          | Inl govRegionErr \<Rightarrow>
                              Inl (GoWrap ''bucket %q not found in commercial or GovCloud partitions: %w''
                                (GoWrap ''govcloud region: %v, commercial region: %v'' govRegionErr))))))"

text \<open>
  The constructor: \<open>region\<close> is the result of \<open>getRegion\<close>, \<open>ctx_err\<close> the error of the context, the others those of the new
  session and of the client. The result is the configuration in use and the region.
\<close>

definition NewS3Adapter ::
    "(go_err + string) \<Rightarrow> go_err option \<Rightarrow> go_err option \<Rightarrow> go_err option \<Rightarrow> s3_config \<Rightarrow> go_err + (s3_config \<times> string)" where
  "NewS3Adapter region ctx_err sess_err client_err c =
     (let conf = (if s3_ParallelFetch c \<le> 0 then c\<lparr>s3_ParallelFetch := 1\<rparr> else c) in
      case (if s3_Region conf \<noteq> '''' then Inr (s3_Region conf) else region) of
        Inl e \<Rightarrow>
          (case ctx_err of
             Some ce \<Rightarrow> Inl (GoWrap ''s3.GetBucketRegion() context cancelled: %w'' ce)
           | None \<Rightarrow> Inl (GoWrap ''s3.GetBucketRegion(): %v'' e))
      | Inr r \<Rightarrow>
          (case sess_err of
             Some e \<Rightarrow> Inl (GoWrap ''s3.NewSession(): %v'' e)
           | None \<Rightarrow> (case client_err of Some e \<Rightarrow> Inl e | None \<Rightarrow> Inr (conf, r))))"

record local_file =
  lf_Key :: string
  lf_Data :: string
  lf_IsCompressed :: bool
  lf_Err :: "go_err option"

definition failed_file :: "string \<Rightarrow> go_err \<Rightarrow> local_file" where
  "failed_file k e = \<lparr>lf_Key = k, lf_Data = '''', lf_IsCompressed = False, lf_Err = Some e\<rparr>"

text \<open>The second function given to the pipeline.\<close>

definition s3_fetch ::
    "store_env \<Rightarrow> gz_reader \<Rightarrow> (string \<Rightarrow> go_err + string) \<Rightarrow> string \<times> int \<Rightarrow> local_file store_io" where
  "s3_fetch env gz to_json item = (case item of (k, sz) \<Rightarrow>
     if sz > maxObjectSize then do {
       onWarning ''file %s too large (%d)'';
       ret (failed_file k (GoErr ''file too large''))
     } else do {
       r \<leftarrow> call env (QDownload k);
       case r of
         RData (Inr bytes) \<Rightarrow>
           (case PrepareBundleData gz to_json k bytes of
              Inl e \<Rightarrow> do { onError e; ret (failed_file k e) }
            | Inr (rawData, isCompressed) \<Rightarrow>
                ret \<lparr>lf_Key = k, lf_Data = rawData, lf_IsCompressed = isCompressed, lf_Err = None\<rparr>)
       | RData (Inl e) \<Rightarrow> do { onError (GoWrap ''s3.Download() @ %s: %v'' e); ret (failed_file k e) }
       | _ \<Rightarrow> ret (failed_file k (GoErr ''no answer''))
     })"

text \<open>One deletion, as its goroutine does it; the result is \<open>delErr\<close> afterwards.\<close>

definition s3_delete :: "store_env \<Rightarrow> string \<Rightarrow> go_err option \<Rightarrow> go_err option store_io" where
  "s3_delete env k delErr = do {
     r \<leftarrow> call env (QDelete k);
     case r of
       RDone (Some e) \<Rightarrow> do {
         onError (GoWrap ''s3.DeleteObject(): %v'' e);
         onWarning ''aborting because files cannot be deleted'';
         ret (Some e)
       }
     | _ \<Rightarrow> ret delErr
   }"

fun s3_deletes :: "store_env \<Rightarrow> string list \<Rightarrow> go_err option \<Rightarrow> go_err option store_io" where
  "s3_deletes env [] delErr = ret delErr"
| "s3_deletes env (k # ks) delErr = do {
     delErr' \<leftarrow> s3_delete env k delErr;
     s3_deletes env ks delErr'
   }"

text \<open>
  The goroutines that complete before the consumer looks at \<open>delErr\<close>: any of those under way, in any order. The
  result is which are still under way, and \<open>delErr\<close>.
\<close>

definition s3_settle :: "store_env \<Rightarrow> string list \<Rightarrow> go_err option \<Rightarrow> (string list \<times> go_err option) store_io" where
  "s3_settle env pending delErr = do {
     r \<leftarrow> call env (QSchedule pending);
     let now_done = (case r of RKeys ks \<Rightarrow> filter (\<lambda>k. k \<in> set pending) (remdups ks) | _ \<Rightarrow> []);
     delErr' \<leftarrow> s3_deletes env now_done delErr;
     ret (filter (\<lambda>k. k \<notin> set now_done) pending, delErr')
   }"

text \<open>The loop over the files; at its end the deletions still under way are waited for.\<close>

fun s3_files ::
    "store_env \<Rightarrow> gz_reader \<Rightarrow> (string \<Rightarrow> go_err + string) \<Rightarrow> bool \<Rightarrow> (string \<times> int) list \<Rightarrow> string list \<Rightarrow> go_err option \<Rightarrow>
     bool \<Rightarrow> (bool \<times> go_err option) store_io" where
  "s3_files env gz to_json isOneTimeLoad [] pending delErr isDataFound = do {
     err \<leftarrow> s3_deletes env pending delErr;
     ret (isDataFound, err)
   }"
| "s3_files env gz to_json isOneTimeLoad (item # items) pending delErr isDataFound = do {
     stopped \<leftarrow> loadStop env;
     if stopped then do { err \<leftarrow> s3_deletes env pending delErr; ret (isDataFound, err) }
     else do {
       localFile \<leftarrow> s3_fetch env gz to_json item;
       if lf_Err localFile \<noteq> None then s3_files env gz to_json isOneTimeLoad items pending delErr isDataFound
       else do {
         ok \<leftarrow> processEvent env (lf_Data localFile) (lf_IsCompressed localFile);
         if \<not> ok then do {
           onWarning ''file %s NOT processed in %v (%d)'';
           s3_files env gz to_json isOneTimeLoad items pending delErr isDataFound
         }
         else if isOneTimeLoad then s3_files env gz to_json isOneTimeLoad items pending delErr isDataFound
         else do {
           (pending', delErr') \<leftarrow> s3_settle env (pending @ [lf_Key localFile]) delErr;
           if delErr' \<noteq> None then do { err \<leftarrow> s3_deletes env pending' delErr'; ret (isDataFound, err) }
           else s3_files env gz to_json isOneTimeLoad items pending' delErr' True
         }
       }
     }
   }"

definition s3_lookForFiles ::
    "store_env \<Rightarrow> gz_reader \<Rightarrow> (string \<Rightarrow> go_err + string) \<Rightarrow> s3_config \<Rightarrow> (bool \<times> go_err option) store_io" where
  "s3_lookForFiles env gz to_json c = do {
     r \<leftarrow> call env (QList (s3_Prefix c));
     case r of
       RObjects contents _ \<Rightarrow> s3_files env gz to_json (s3_IsOneTimeLoad c) contents [] None False
     | RListErr e \<Rightarrow> do { onError (GoWrap ''s3.ListObjectsV2() @ %s: %v'' e); ret (False, None) }
     | _ \<Rightarrow> ret (False, None)
   }"

definition s3_main ::
    "store_env \<Rightarrow> gz_reader \<Rightarrow> (string \<Rightarrow> go_err + string) \<Rightarrow> s3_config \<Rightarrow> nat \<Rightarrow> unit store_io" where
  "s3_main env gz to_json c n =
     store_run env ''s3 stoppped with error: %v'' (s3_IsOneTimeLoad c) (s3_lookForFiles env gz to_json c) n"

section \<open>GCS\<close>

record gcs_config =
  gcs_BucketName :: string
  gcs_ServiceAccountCreds :: string
  gcs_IsOneTimeLoad :: bool
  gcs_Prefix :: string
  gcs_ParallelFetch :: int

definition gcs_Validate :: "go_err option \<Rightarrow> gcs_config \<Rightarrow> gcs_config \<times> go_err option" where
  "gcs_Validate client_err c =
     (case client_err of
        Some e \<Rightarrow> (c, Some (GoWrap ''client_options: %v'' e))
      | None \<Rightarrow>
          if gcs_BucketName c = '''' then (c, Some (GoErr ''missing bucket_name''))
          else (c\<lparr>gcs_ServiceAccountCreds := trim_space (gcs_ServiceAccountCreds c)\<rparr>, None))"

text \<open>How the storage client is created; \<open>new_client\<close> is \<open>storage.NewClient\<close>.\<close>

datatype gcs_auth = DefaultAuth | WithoutAuthentication | CredentialsFile string | CredentialsJSON string

definition gcs_auth_of :: "string \<Rightarrow> gcs_auth" where
  "gcs_auth_of creds =
     (if creds = '''' then DefaultAuth
      else if creds = ''-'' then WithoutAuthentication
      else if \<not> has_prefix creds ''{'' then CredentialsFile creds
      else CredentialsJSON creds)"

definition NewGCSAdapter ::
    "(gcs_auth \<Rightarrow> go_err option) \<Rightarrow> go_err option \<Rightarrow> gcs_config \<Rightarrow> go_err + gcs_config" where
  "NewGCSAdapter new_client client_err c =
     (let conf = (if gcs_ParallelFetch c \<le> 0 then c\<lparr>gcs_ParallelFetch := 1\<rparr> else c) in
      case new_client (gcs_auth_of (gcs_ServiceAccountCreds conf)) of
        Some e \<Rightarrow> Inl e
      | None \<Rightarrow> (case client_err of Some e \<Rightarrow> Inl e | None \<Rightarrow> Inr conf))"

definition gcs_fetch ::
    "store_env \<Rightarrow> gz_reader \<Rightarrow> (string \<Rightarrow> go_err + string) \<Rightarrow> string \<times> int \<Rightarrow> local_file store_io" where
  "gcs_fetch env gz to_json attrs = (case attrs of (k, sz) \<Rightarrow>
     if sz > maxObjectSize then do {
       onWarning ''file %s too large (%d)'';
       ret (failed_file k (GoErr ''file too large''))
     } else do {
       r \<leftarrow> call env (QDownload k);
       case r of
         RData (Inr bytes) \<Rightarrow>
           (case PrepareBundleData gz to_json k bytes of
              Inl e \<Rightarrow> do { onError e; ret (failed_file k e) }
            | Inr (objData, isCompressed) \<Rightarrow>
                ret \<lparr>lf_Key = k, lf_Data = objData, lf_IsCompressed = isCompressed, lf_Err = None\<rparr>)
       | RData (Inl e) \<Rightarrow> do { onWarning ''gcs.Download(): %v''; ret (failed_file k e) }
       | _ \<Rightarrow> ret (failed_file k (GoErr ''no answer''))
     })"

text \<open>
  The loop over the files. A failed deletion leaves the loop, but its error is the one of an inner scope: the result
  is the outer \<open>err\<close>, which is nil at that point.
\<close>

fun gcs_files ::
    "store_env \<Rightarrow> gz_reader \<Rightarrow> (string \<Rightarrow> go_err + string) \<Rightarrow> bool \<Rightarrow> (string \<times> int) list \<Rightarrow> (go_err \<times> bool) option \<Rightarrow>
     bool \<Rightarrow> (bool \<times> go_err option) store_io" where
  "gcs_files env gz to_json isOneTimeLoad [] listErr isDataFound =
     ret (isDataFound, case listErr of Some (e, True) \<Rightarrow> Some e | _ \<Rightarrow> None)"
| "gcs_files env gz to_json isOneTimeLoad (attrs # items) listErr isDataFound = do {
     stopped \<leftarrow> loadStop env;
     if stopped then ret (isDataFound, None)
     else do {
       localFile \<leftarrow> gcs_fetch env gz to_json attrs;
       if lf_Err localFile \<noteq> None then gcs_files env gz to_json isOneTimeLoad items listErr isDataFound
       else do {
         ok \<leftarrow> processEvent env (lf_Data localFile) (lf_IsCompressed localFile);
         if \<not> ok then do {
           onWarning ''file %s NOT processed in %v (%d)'';
           gcs_files env gz to_json isOneTimeLoad items listErr isDataFound
         }
         else if isOneTimeLoad then gcs_files env gz to_json isOneTimeLoad items listErr isDataFound
         else do {
           r \<leftarrow> call env (QDelete (lf_Key localFile));
           case r of
             RDone (Some e) \<Rightarrow> do {
               onError (GoWrap ''gcs.DeleteObject(): %v'' e);
               onWarning ''aborting because files cannot be deleted'';
               ret (isDataFound, None)
             }
           | _ \<Rightarrow> gcs_files env gz to_json isOneTimeLoad items listErr True
         }
       }
     }
   }"

definition gcs_lookForFiles ::
    "store_env \<Rightarrow> gz_reader \<Rightarrow> (string \<Rightarrow> go_err + string) \<Rightarrow> gcs_config \<Rightarrow> (bool \<times> go_err option) store_io" where
  "gcs_lookForFiles env gz to_json c = do {
     r \<leftarrow> call env (QList (gcs_Prefix c));
     case r of
       RObjects objects listErr \<Rightarrow> gcs_files env gz to_json (gcs_IsOneTimeLoad c) objects listErr False
     | RListErr e \<Rightarrow> ret (False, Some e)
     | _ \<Rightarrow> ret (False, None)
   }"

definition gcs_main ::
    "store_env \<Rightarrow> gz_reader \<Rightarrow> (string \<Rightarrow> go_err + string) \<Rightarrow> gcs_config \<Rightarrow> nat \<Rightarrow> unit store_io" where
  "gcs_main env gz to_json c n =
     store_run env ''gcs stoppped with error: %v'' (gcs_IsOneTimeLoad c) (gcs_lookForFiles env gz to_json c) n"

section \<open>Nothing is deleted before it is shipped\<close>

text \<open>The content of an object was downloaded, prepared and accepted by the client.\<close>

definition shipped :: "gz_reader \<Rightarrow> (string \<Rightarrow> go_err + string) \<Rightarrow> string \<Rightarrow> (store_query, store_answer) history \<Rightarrow> bool" where
  "shipped gz to_json k h \<longleftrightarrow>
     (\<exists>bytes data c m d. ECall (QDownload k) (RData (Inr bytes)) \<in> set h \<and>
        PrepareBundleData gz to_json k bytes = Inr (data, c) \<and> EShip m d None \<in> set h \<and>
        payload m = (if c then CompressedBundlePayload data else BundlePayload data))"

text \<open>At every deletion in a history, the object had been shipped before.\<close>

fun deletes_safe ::
    "gz_reader \<Rightarrow> (string \<Rightarrow> go_err + string) \<Rightarrow> (store_query, store_answer) history \<Rightarrow> bool" where
  "deletes_safe gz to_json [] \<longleftrightarrow> True"
| "deletes_safe gz to_json (ECall (QDelete k) r # h) \<longleftrightarrow> shipped gz to_json k h \<and> deletes_safe gz to_json h"
| "deletes_safe gz to_json (_ # h) \<longleftrightarrow> deletes_safe gz to_json h"

lemma shipped_mono: "shipped gz tj k h \<Longrightarrow> set h \<subseteq> set h' \<Longrightarrow> shipped gz tj k h'"
  unfolding shipped_def by blast

lemma shipped_Cons: "shipped gz tj k h \<Longrightarrow> shipped gz tj k (e # h)"
  by (rule shipped_mono) auto

text \<open>Safe so far, and every object whose deletion is under way has been shipped.\<close>

definition store_ok ::
    "gz_reader \<Rightarrow> (string \<Rightarrow> go_err + string) \<Rightarrow> string list \<Rightarrow> (store_query, store_answer) world \<Rightarrow> bool" where
  "store_ok gz tj ks w \<longleftrightarrow> deletes_safe gz tj (hist w) \<and> (\<forall>k \<in> set ks. shipped gz tj k (hist w))"

text \<open>The rules of the operations that keep a world safe.\<close>

definition keeps :: "'a store_io \<Rightarrow> bool" where
  "keeps m \<longleftrightarrow> (\<forall>gz tj ks w. store_ok gz tj ks w \<longrightarrow> wp m (\<lambda>_ w'. store_ok gz tj ks w') w)"

lemma keeps_wp: "keeps m \<Longrightarrow> store_ok gz tj ks w \<Longrightarrow> wp m (\<lambda>_ w'. store_ok gz tj ks w') w"
  by (simp add: keeps_def)

lemma keeps_ret [simp, intro!]: "keeps (ret x)"
  by (simp add: keeps_def wp_simps)

lemma keeps_bind [intro!]: "keeps m \<Longrightarrow> (\<And>x. keeps (f x)) \<Longrightarrow> keeps (State_Monad.bind m f)"
  unfolding keeps_def wp_bind by (meson wp_mono)

lemma keeps_prims [simp, intro!]:
  "keeps (now env)" "keeps (onError e)" "keeps (onWarning s)" "keeps (waitFor env d)" "keeps (ship env m d)"
  "keeps (call env (QDownload k))" "keeps (call env (QList p))" "keeps (call env (QSchedule ks))"
  "keeps (loadStop env)" "keeps (sleep d)"
  unfolding keeps_def loadStop_def sleep_def
  by (auto simp: wp_simps store_ok_def shipped_Cons)

lemma keeps_ship_retry [simp, intro!]: "keeps (ship_retry env m)"
  unfolding ship_retry_def by (auto split: option.split)

lemma keeps_fetch [simp, intro!]: "keeps (s3_fetch env gz tj item)" "keeps (gcs_fetch env gz tj item)"
  unfolding s3_fetch_def gcs_fetch_def by (auto split: prod.split store_answer.split sum.split)

lemma keeps_processEvent [simp, intro!]: "keeps (processEvent env data c)"
  unfolding processEvent_def by (auto split: option.split)

text \<open>What a fetched file and an accepted one leave in the history.\<close>

definition fetched ::
    "gz_reader \<Rightarrow> (string \<Rightarrow> go_err + string) \<Rightarrow> local_file \<Rightarrow> (store_query, store_answer) history \<Rightarrow> bool" where
  "fetched gz tj f h \<longleftrightarrow> (\<exists>bytes. ECall (QDownload (lf_Key f)) (RData (Inr bytes)) \<in> set h \<and>
     PrepareBundleData gz tj (lf_Key f) bytes = Inr (lf_Data f, lf_IsCompressed f))"

lemma fetch_fetched:
  "wp (s3_fetch env gz tj item) (\<lambda>f w'. lf_Err f = None \<longrightarrow> fetched gz tj f (hist w')) w"
  "wp (gcs_fetch env gz tj item) (\<lambda>f w'. lf_Err f = None \<longrightarrow> fetched gz tj f (hist w')) w"
  unfolding s3_fetch_def gcs_fetch_def
  by (auto simp: wp_simps failed_file_def fetched_def split: prod.split store_answer.split sum.split)

lemma processEvent_ships:
  "wp (processEvent env data c) (\<lambda>ok w'. set (hist w) \<subseteq> set (hist w') \<and>
     (ok \<longrightarrow> (\<exists>m d. EShip m d None \<in> set (hist w') \<and>
        payload m = (if c then CompressedBundlePayload data else BundlePayload data)))) w"
  unfolding processEvent_def ship_retry_def
  by (auto simp: wp_simps bundle_message_def split: option.split)

lemma store_ok_subset: "store_ok gz tj ks w \<Longrightarrow> set ks' \<subseteq> set ks \<Longrightarrow> store_ok gz tj ks' w"
  unfolding store_ok_def by blast

text \<open>After both, the file may be deleted.\<close>

lemma processEvent_ok:
  assumes "store_ok gz tj ks w" "fetched gz tj f (hist w)"
  shows "wp (processEvent env (lf_Data f) (lf_IsCompressed f))
    (\<lambda>ok w'. store_ok gz tj (if ok then ks @ [lf_Key f] else ks) w') w"
proof (rule wp_mono [OF wp_conj [OF keeps_wp [OF keeps_processEvent assms(1)] processEvent_ships]])
  fix ok w'
  assume w': "store_ok gz tj ks w' \<and> (set (hist w) \<subseteq> set (hist w') \<and>
     (ok \<longrightarrow> (\<exists>m d. EShip m d None \<in> set (hist w') \<and>
        payload m = (if lf_IsCompressed f then CompressedBundlePayload (lf_Data f) else BundlePayload (lf_Data f)))))"
  then have "shipped gz tj (lf_Key f) (hist w')" if ok
    using that assms(2) unfolding shipped_def fetched_def by blast
  with w' show "store_ok gz tj (if ok then ks @ [lf_Key f] else ks) w'" by (auto simp: store_ok_def)
qed

lemma delete_ok:
  assumes "store_ok gz tj ks w" "k \<in> set ks"
  shows "store_ok gz tj ks (w\<lparr>hist := ECall (QDelete k) r # hist w\<rparr>)"
  using assms by (auto simp: store_ok_def shipped_Cons)

lemma s3_delete_ok:
  assumes "store_ok gz tj ks w" "k \<in> set ks"
  shows "wp (s3_delete env k delErr) (\<lambda>_ w'. store_ok gz tj ks w') w"
  unfolding s3_delete_def using delete_ok [OF assms]
  by (auto simp: wp_simps store_ok_def shipped_Cons split: store_answer.split option.split)

lemma s3_deletes_ok:
  "store_ok gz tj ks w \<Longrightarrow> set ds \<subseteq> set ks \<Longrightarrow> wp (s3_deletes env ds delErr) (\<lambda>_ w'. store_ok gz tj ks w') w"
proof (induction ds arbitrary: w delErr)
  case (Cons d ds)
  then show ?case by (auto simp: wp_simps intro!: wp_mono [OF s3_delete_ok])
qed (simp add: wp_simps)

lemma s3_settle_ok:
  assumes "store_ok gz tj ks w"
  shows "wp (s3_settle env ks delErr) (\<lambda>(pending, _) w'. store_ok gz tj pending w') w"
proof -
  let ?r = "e_call env (hist w) (QSchedule ks)"
  have ok: "store_ok gz tj ks (w\<lparr>hist := ECall (QSchedule ks) ?r # hist w\<rparr>)"
    using keeps_wp [OF keeps_prims(8) assms] by (simp add: wp_simps)
  show ?thesis
    unfolding s3_settle_def Let_def wp_bind wp_call
    by (rule wp_mono [OF s3_deletes_ok [OF ok]])
      (auto simp: wp_simps store_ok_def split: store_answer.split)
qed

lemma s3_finish_ok:
  "store_ok gz tj pending w \<Longrightarrow>
   wp (do { err \<leftarrow> s3_deletes env pending delErr; ret (found, err) }) (\<lambda>_ w'. store_ok gz tj [] w') w"
  by (rule wp_bindI [OF s3_deletes_ok [OF _ subset_refl]]) (auto simp: wp_simps elim: store_ok_subset)

text \<open>Both loops over files begin in the same way: a file is fetched and processed, or the loop goes on.\<close>

lemma s3_files_ok:
  "store_ok gz tj pending w \<Longrightarrow>
   wp (s3_files env gz tj one items pending delErr found) (\<lambda>_ w'. store_ok gz tj [] w') w"
proof (induction items arbitrary: pending delErr found w)
  case Nil
  then show ?case unfolding s3_files.simps by (rule s3_finish_ok)
next
  case (Cons item items)
  note IH = Cons.IH
  have deleted: "wp (do {
       (pending', delErr') \<leftarrow> s3_settle env (pending @ [lf_Key f]) delErr;
       if delErr' \<noteq> None then do { err \<leftarrow> s3_deletes env pending' delErr'; ret (found, err) }
       else s3_files env gz tj one items pending' delErr' True
     }) (\<lambda>_ w'. store_ok gz tj [] w') v" if "store_ok gz tj (pending @ [lf_Key f]) v" for f v
    by (rule wp_bindI [OF s3_settle_ok [OF that]]) (auto simp: wp_if s3_finish_ok IH split: prod.splits)
  have processed: "wp (do {
       ok \<leftarrow> processEvent env (lf_Data f) (lf_IsCompressed f);
       if \<not> ok then do { onWarning s; s3_files env gz tj one items pending delErr found }
       else if one then s3_files env gz tj one items pending delErr found
       else do {
         (pending', delErr') \<leftarrow> s3_settle env (pending @ [lf_Key f]) delErr;
         if delErr' \<noteq> None then do { err \<leftarrow> s3_deletes env pending' delErr'; ret (found, err) }
         else s3_files env gz tj one items pending' delErr' True
       }
     }) (\<lambda>_ w'. store_ok gz tj [] w') v" if "store_ok gz tj pending v" "fetched gz tj f (hist v)" for f v s
  proof (rule wp_bindI [OF processEvent_ok [OF that]])
    fix ok v'
    assume ok: "store_ok gz tj (if ok then pending @ [lf_Key f] else pending) v'"
    then have p: "store_ok gz tj pending v'" by (auto elim: store_ok_subset split: if_splits)
    note warned = wp_bindI [OF keeps_wp [OF keeps_prims(3) p] IH]
    show "wp (if \<not> ok then do { onWarning s; s3_files env gz tj one items pending delErr found }
       else if one then s3_files env gz tj one items pending delErr found
       else do {
         (pending', delErr') \<leftarrow> s3_settle env (pending @ [lf_Key f]) delErr;
         if delErr' \<noteq> None then do { err \<leftarrow> s3_deletes env pending' delErr'; ret (found, err) }
         else s3_files env gz tj one items pending' delErr' True
       }) (\<lambda>_ w'. store_ok gz tj [] w') v'"
    proof (cases ok)
      case True
      with ok have "store_ok gz tj (pending @ [lf_Key f]) v'" by simp
      from deleted [OF this] IH [OF p] True show ?thesis by (cases one) (simp_all only: simp_thms if_True if_False)
    qed (use warned in \<open>simp\<close>)
  qed
  have fetches: "wp (do {
       localFile \<leftarrow> s3_fetch env gz tj item;
       if lf_Err localFile \<noteq> None then s3_files env gz tj one items pending delErr found else P localFile
     }) (\<lambda>_ w'. store_ok gz tj [] w') v"
    if "store_ok gz tj pending v" "\<And>f v. store_ok gz tj pending v \<Longrightarrow> fetched gz tj f (hist v) \<Longrightarrow>
      wp (P f) (\<lambda>_ w'. store_ok gz tj [] w') v" for v P
    by (rule wp_bindI [OF wp_conj [OF keeps_wp [OF keeps_fetch(1) that(1)] fetch_fetched(1)]])
      (simp add: wp_if IH that(2))
  show ?case
    unfolding s3_files.simps
    by (rule wp_bindI [OF keeps_wp [OF keeps_prims(9) Cons.prems]], simp only: wp_if split: if_split)
      (intro conjI impI s3_finish_ok fetches processed)
qed

lemma gcs_files_ok:
  "store_ok gz tj [] w \<Longrightarrow> wp (gcs_files env gz tj one items le found) (\<lambda>_ w'. store_ok gz tj [] w') w"
proof (induction items arbitrary: found w)
  case Nil
  then show ?case by (simp add: wp_simps)
next
  case (Cons item items)
  note IH = Cons.IH
  have deleted: "wp (do {
       r \<leftarrow> call env (QDelete (lf_Key f));
       case r of
         RDone (Some e) \<Rightarrow> do { onError (GoWrap s e); onWarning s'; ret (found, None) }
       | _ \<Rightarrow> gcs_files env gz tj one items le True
     }) (\<lambda>_ w'. store_ok gz tj [] w') v" if "store_ok gz tj [lf_Key f] v" for f v s s'
  proof -
    have "store_ok gz tj [] (v\<lparr>hist := ECall (QDelete (lf_Key f)) r # hist v\<rparr>)" for r
      using store_ok_subset [OF delete_ok [OF that]] by simp
    then show ?thesis
      using IH by (auto simp: wp_simps store_ok_def split: store_answer.split option.split)
  qed
  have processed: "wp (do {
       ok \<leftarrow> processEvent env (lf_Data f) (lf_IsCompressed f);
       if \<not> ok then do { onWarning s2; gcs_files env gz tj one items le found }
       else if one then gcs_files env gz tj one items le found
       else do {
         r \<leftarrow> call env (QDelete (lf_Key f));
         case r of
           RDone (Some e) \<Rightarrow> do { onError (GoWrap s e); onWarning s'; ret (found, None) }
         | _ \<Rightarrow> gcs_files env gz tj one items le True
       }
     }) (\<lambda>_ w'. store_ok gz tj [] w') v" if "store_ok gz tj [] v" "fetched gz tj f (hist v)" for f v s s' s2
  proof (rule wp_bindI [OF processEvent_ok [OF that]])
    fix ok v'
    assume ok: "store_ok gz tj (if ok then [] @ [lf_Key f] else []) v'"
    then have p: "store_ok gz tj [] v'" by (auto elim: store_ok_subset split: if_splits)
    note warned = wp_bindI [OF keeps_wp [OF keeps_prims(3) p] IH]
    show "wp (if \<not> ok then do { onWarning s2; gcs_files env gz tj one items le found }
       else if one then gcs_files env gz tj one items le found
       else do {
         r \<leftarrow> call env (QDelete (lf_Key f));
         case r of
           RDone (Some e) \<Rightarrow> do { onError (GoWrap s e); onWarning s'; ret (found, None) }
         | _ \<Rightarrow> gcs_files env gz tj one items le True
       }) (\<lambda>_ w'. store_ok gz tj [] w') v'"
    proof (cases ok)
      case True
      with ok have "store_ok gz tj [lf_Key f] v'" by simp
      from deleted [OF this] IH [OF p] True show ?thesis by (cases one) (simp_all only: simp_thms if_True if_False)
    qed (use warned in \<open>simp\<close>)
  qed
  have fetches: "wp (do {
       localFile \<leftarrow> gcs_fetch env gz tj item;
       if lf_Err localFile \<noteq> None then gcs_files env gz tj one items le found else P localFile
     }) (\<lambda>_ w'. store_ok gz tj [] w') v"
    if "store_ok gz tj [] v" "\<And>f v. store_ok gz tj [] v \<Longrightarrow> fetched gz tj f (hist v) \<Longrightarrow>
      wp (P f) (\<lambda>_ w'. store_ok gz tj [] w') v" for v P
    by (rule wp_bindI [OF wp_conj [OF keeps_wp [OF keeps_fetch(2) that(1)] fetch_fetched(2)]])
      (simp add: wp_if IH that(2))
  show ?case
    unfolding gcs_files.simps
    by (rule wp_bindI [OF keeps_wp [OF keeps_prims(9) Cons.prems]], simp only: wp_if wp_ret split: if_split)
      (intro conjI impI TrueI fetches processed)
qed

text \<open>
  The interface between the goroutine of a constructor and \<open>lookForFiles\<close>: a pass over the bucket is safe.
\<close>

locale bucket_reader =
  fixes look :: "(bool \<times> go_err option) store_io"
    and gz :: gz_reader and tj :: "string \<Rightarrow> go_err + string"
  assumes look_safe: "store_ok gz tj [] w \<Longrightarrow> wp look (\<lambda>_ w'. store_ok gz tj [] w') w"
begin

lemma loop_safe: "store_ok gz tj [] w \<Longrightarrow> wp (store_loop env one look n) (\<lambda>_ w'. store_ok gz tj [] w') w"
proof (induction n arbitrary: w)
  case (Suc n)
  have rest: "wp (do { (if b then ret () else sleep d); store_loop env one look n }) (\<lambda>_ w'. store_ok gz tj [] w') v"
    if "store_ok gz tj [] v" for b d v
    by (rule wp_bindI [OF keeps_wp [OF _ that] Suc.IH]) auto
  have after: "wp (case r of (found, err) \<Rightarrow>
       if err \<noteq> None \<or> one then ret err
       else do { (if found then ret () else sleep (5 * second)); store_loop env one look n })
     (\<lambda>_ w'. store_ok gz tj [] w') v" if "store_ok gz tj [] v" for r v
    using rest [OF that, of "fst r" "5 * second"] that by (auto simp: wp_if wp_ret split: prod.splits if_splits)
  show ?case
    unfolding store_loop.simps
    by (rule wp_bindI [OF keeps_wp [OF keeps_prims(9) Suc.prems]], simp only: wp_if wp_ret split: if_split)
      (intro conjI impI TrueI wp_bindI [OF look_safe after])
qed (simp add: wp_simps)

lemma run_safe: "store_ok gz tj [] w \<Longrightarrow> wp (store_run env s one look n) (\<lambda>_ w'. store_ok gz tj [] w') w"
  unfolding store_run_def
  by (rule wp_bindI [OF loop_safe], assumption) (rule keeps_wp, auto)

end

interpretation s3: bucket_reader "s3_lookForFiles env gz tj c" gz tj for env gz tj c
proof unfold_locales
  fix w
  assume ok: "store_ok gz tj [] w"
  show "wp (s3_lookForFiles env gz tj c) (\<lambda>_ w'. store_ok gz tj [] w') w"
    unfolding s3_lookForFiles_def
    by (rule wp_bindI [OF keeps_wp [OF keeps_prims(7) ok]])
      (auto intro!: s3_files_ok keeps_wp split: store_answer.split)
qed

interpretation gcs: bucket_reader "gcs_lookForFiles env gz tj c" gz tj for env gz tj c
proof unfold_locales
  fix w
  assume ok: "store_ok gz tj [] w"
  show "wp (gcs_lookForFiles env gz tj c) (\<lambda>_ w'. store_ok gz tj [] w') w"
    unfolding gcs_lookForFiles_def
    by (rule wp_bindI [OF keeps_wp [OF keeps_prims(7) ok]])
      (auto intro!: gcs_files_ok keeps_wp split: store_answer.split)
qed

text \<open>C4: neither adapter deletes an object that it has not shipped: whenever, in any run, an object is deleted, its
  content was downloaded and prepared before, and a message with exactly that content was accepted by the client.\<close>

theorem store_deletes_after_shipping:
  "deletes_safe gz tj (hist (snd (run_state (s3_main env gz tj c n) \<lparr>hist = [], stop = b\<rparr>))) \<and>
   deletes_safe gz tj (hist (snd (run_state (gcs_main env gz tj c' n) \<lparr>hist = [], stop = b\<rparr>)))"
proof -
  have init: "store_ok gz tj [] \<lparr>hist = [], stop = b\<rparr>" by (simp add: store_ok_def)
  have "wp (s3_main env gz tj c n) (\<lambda>_ w'. store_ok gz tj [] w') \<lparr>hist = [], stop = b\<rparr>"
    unfolding s3_main_def by (rule s3.run_safe [OF init])
  moreover have "wp (gcs_main env gz tj c' n) (\<lambda>_ w'. store_ok gz tj [] w') \<lparr>hist = [], stop = b\<rparr>"
    unfolding gcs_main_def by (rule gcs.run_safe [OF init])
  ultimately show ?thesis by (simp add: wp_def store_ok_def case_prod_beta)
qed

section \<open>When an object cannot be deleted\<close>

text \<open>A bucket with one object that can be read and shipped, but not deleted, and that nobody stops.\<close>

definition undeletable :: "store_env \<Rightarrow> string \<Rightarrow> int \<Rightarrow> string \<Rightarrow> go_err \<Rightarrow> bool" where
  "undeletable env k sz bytes e \<longleftrightarrow>
     (\<forall>h d. \<not> e_stop env h d) \<and> (\<forall>h m d. e_ship env h m d = None) \<and>
     (\<forall>h p. e_call env h (QList p) = RObjects [(k, sz)] None) \<and>
     (\<forall>h. e_call env h (QDownload k) = RData (Inr bytes)) \<and>
     (\<forall>h. e_call env h (QDelete k) = RDone (Some e)) \<and> sz \<le> maxObjectSize"

definition bundle_payload :: "string \<times> bool \<Rightarrow> payload" where
  "bundle_payload dc = (if snd dc then CompressedBundlePayload (fst dc) else BundlePayload (fst dc))"

lemma gcs_pass:
  assumes "undeletable env k sz bytes e" "PrepareBundleData gz tj k bytes = Inr dc" "\<not> gcs_IsOneTimeLoad c" "\<not> stop w"
  shows "wp (gcs_lookForFiles env gz tj c)
    (\<lambda>r w'. r = (False, None) \<and> \<not> stop w' \<and> delivered (hist w') = delivered (hist w) @ [bundle_payload dc]) w"
  using assms
  by (cases dc) (simp add: undeletable_def gcs_lookForFiles_def wp_simps loadStop_def gcs_fetch_def processEvent_def
      ship_retry_def bundle_message_def bundle_payload_def)

lemma s3_pass:
  assumes "undeletable env k sz bytes e" "PrepareBundleData gz tj k bytes = Inr dc" "\<not> s3_IsOneTimeLoad c" "\<not> stop w"
  shows "wp (s3_lookForFiles env gz tj c)
    (\<lambda>r w'. snd r = Some e \<and> delivered (hist w') = delivered (hist w) @ [bundle_payload dc]) w"
proof (cases dc)
  case (Pair d c)
  have "filter (\<lambda>x. x = k) (remdups ks) = (if k \<in> set ks then [k] else [])" for ks
    by (induction ks) (auto simp: filter_empty_conv)
  then show ?thesis
    using assms Pair
    by (auto simp: undeletable_def s3_lookForFiles_def wp_simps loadStop_def s3_fetch_def processEvent_def
        ship_retry_def bundle_message_def bundle_payload_def s3_settle_def s3_delete_def Let_def split: store_answer.split)
qed

text \<open>GCS: while an object cannot be deleted, its content is shipped again in every pass, once per turn of the
  loop: the error of the deletion is lost in an inner scope, although the comment says that the adapter aborts.\<close>

theorem gcs_reships_undeletable:
  assumes "undeletable env k sz bytes e" "PrepareBundleData gz tj k bytes = Inr dc" "\<not> gcs_IsOneTimeLoad c" "\<not> stop w"
  shows "delivered (hist (snd (run_state (gcs_main env gz tj c n) w))) =
    delivered (hist w) @ replicate n (bundle_payload dc)"
proof -
  have "wp (store_loop env False (gcs_lookForFiles env gz tj c) n)
    (\<lambda>r w'. r = None \<and> delivered (hist w') = delivered (hist w) @ replicate n (bundle_payload dc)) w"
    using assms(4)
  proof (induction n arbitrary: w)
    case (Suc n)
    have nostop: "\<not> e_stop env h d" for h d using assms(1) by (simp add: undeletable_def)
    let ?w1 = "w\<lparr>hist := EWait 0 False # hist w, stop := False\<rparr>"
    have pass: "wp (gcs_lookForFiles env gz tj c) (\<lambda>r w'. r = (False, None) \<and> \<not> stop w' \<and>
        delivered (hist w') = delivered (hist w) @ [bundle_payload dc]) ?w1"
      using gcs_pass [OF assms(1-3), of ?w1] by simp
    show ?case
      unfolding store_loop.simps
      using Suc.prems nostop
      by (simp add: wp_simps loadStop_def)
        (rule wp_mono [OF pass], auto simp: wp_simps sleep_def intro!: wp_mono [OF Suc.IH])
  qed (simp add: wp_simps)
  then show ?thesis
    using assms(3) by (simp add: gcs_main_def store_run_def wp_def case_prod_beta)
qed

text \<open>S3: when an object cannot be deleted, the adapter ships it once and stops with a warning.\<close>

theorem s3_aborts_undeletable:
  assumes "undeletable env k sz bytes e" "PrepareBundleData gz tj k bytes = Inr dc" "\<not> s3_IsOneTimeLoad c" "\<not> stop w"
  shows "\<exists>w'. run_state (s3_main env gz tj c (Suc n)) w = ((), w') \<and>
    delivered (hist w') = delivered (hist w) @ [bundle_payload dc] \<and>
    hd (hist w') = EOnWarning ''s3 stoppped with error: %v''"
proof -
  have nostop: "\<not> e_stop env h d" for h d using assms(1) by (simp add: undeletable_def)
  let ?w1 = "w\<lparr>hist := EWait 0 False # hist w, stop := False\<rparr>"
  have pass: "wp (s3_lookForFiles env gz tj c) (\<lambda>r w'. snd r = Some e \<and>
      delivered (hist w') = delivered (hist w) @ [bundle_payload dc]) ?w1"
    using s3_pass [OF assms(1-3), of ?w1] by simp
  have "wp (s3_main env gz tj c (Suc n)) (\<lambda>_ w'. delivered (hist w') = delivered (hist w) @ [bundle_payload dc] \<and>
    hd (hist w') = EOnWarning ''s3 stoppped with error: %v'') w"
    unfolding s3_main_def store_run_def store_loop.simps
    using assms(4) nostop
    by (simp add: wp_simps loadStop_def) (rule wp_mono [OF pass], auto simp: wp_simps)
  then show ?thesis by (auto simp: wp_def split: prod.splits)
qed

definition stuck_bucket :: "store_query \<Rightarrow> store_answer" where
  "stuck_bucket q =
     (case q of QList _ \<Rightarrow> RObjects [(''a.log'', 3)] None | QDownload _ \<Rightarrow> RData (Inr ''abc'')
      | QDelete _ \<Rightarrow> RDone (Some (GoErr ''denied'')) | QSchedule ks \<Rightarrow> RKeys ks)"

lemma stuck_bucket_undeletable:
  "undeletable (steady_env 0 stuck_bucket) ''a.log'' 3 ''abc'' (GoErr ''denied'')"
  by (simp add: undeletable_def stuck_bucket_def maxObjectSize_def)

definition plain_gz :: gz_reader where
  "plain_gz data = Inr (data, None)"

lemma plain_log: "PrepareBundleData plain_gz Inr ''a.log'' ''abc'' = Inr (''abc'', False)"
  by code_simp

definition demo_gcs :: gcs_config where
  "demo_gcs = \<lparr>gcs_BucketName = ''b'', gcs_ServiceAccountCreds = '''', gcs_IsOneTimeLoad = False,
     gcs_Prefix = '''', gcs_ParallelFetch = 1\<rparr>"

definition demo_s3 :: s3_config where
  "demo_s3 = \<lparr>s3_BucketName = ''b'', s3_AccessKey = ''a'', s3_SecretKey = ''s'', s3_IsOneTimeLoad = False,
     s3_Prefix = '''', s3_ParallelFetch = 1, s3_Region = ''us-east-1''\<rparr>"

lemma gcs_reships_undeletable_witness:
  "delivered (hist (snd (run_state (gcs_main (steady_env 0 stuck_bucket) plain_gz Inr demo_gcs 3) fresh_world))) =
    replicate 3 (BundlePayload ''abc'')"
  using gcs_reships_undeletable [OF stuck_bucket_undeletable plain_log, of demo_gcs fresh_world 3]
  by (simp add: demo_gcs_def bundle_payload_def)

lemma s3_aborts_undeletable_witness:
  "\<exists>w'. run_state (s3_main (steady_env 0 stuck_bucket) plain_gz Inr demo_s3 3) fresh_world = ((), w') \<and>
    delivered (hist w') = [BundlePayload ''abc'']"
  using s3_aborts_undeletable [OF stuck_bucket_undeletable plain_log, of demo_s3 fresh_world 2]
  by (auto simp: demo_s3_def numeral_3_eq_3 numeral_2_eq_2 bundle_payload_def)

end
