(* ===== verification/Line_Adapters.thy ===== *)
theory Line_Adapters
  imports Polling Tokenizer
begin

text \<open>
  The adapters that ship what they read as it comes: \<open>stdin/client.go\<close>, \<open>syslog/client.go\<close>, \<open>simulator/client.go\<close> and
  \<open>evtx/client.go\<close>. A read gives bytes, the end of the stream or another error. The flag \<open>isRunning\<close> is the negation of
  the stop flag of the world.
\<close>

section \<open>Shared parts\<close>

datatype read_result = ReadData string | ReadEOF | ReadErr go_err

datatype read_query = QRead

type_synonym 'a line_io = "(read_query, read_result, 'a) io"
type_synonym line_env = "(read_query, read_result) env"

text \<open>\<open>time.Duration(sec) * time.Second\<close>, a signed 64-bit product; zero seconds stand for ten minutes.\<close>

definition write_timeout :: "64 word \<Rightarrow> duration" where
  "write_timeout writeTimeoutSec =
     sint ((if writeTimeoutSec = 0 then 600 else writeTimeoutSec) * (1000000000 :: 64 word))"

definition is_running :: "('q, 'r) env \<Rightarrow> ('q, 'r, bool) io" where
  "is_running env = do { stopped \<leftarrow> waitFor env 0; ret (\<not> stopped) }"

definition text_message :: "string \<Rightarrow> time \<Rightarrow> data_message" where
  "text_message line t = \<lparr>payload = TextPayload line, TimestampMs = stamp_ms t, EventType = ''''\<rparr>"

definition ship_line :: "('q, 'r) env \<Rightarrow> duration \<Rightarrow> data_message \<Rightarrow> ('q, 'r, unit) io" where
  "ship_line env writeTimeout msg = do {
     err \<leftarrow> ship env msg writeTimeout;
     err' \<leftarrow> (if err = Some BufferFull then do { onWarning ''stream falling behind''; ship env msg (1 * hour) }
              else ret err);
     case err' of Some e \<Rightarrow> onError (GoWrap ''Ship(): %v'' e) | None \<Rightarrow> ret ()
   }"

definition handleLine :: "('q, 'r) env \<Rightarrow> duration \<Rightarrow> string \<Rightarrow> ('q, 'r, unit) io" where
  "handleLine env writeTimeout line =
     (if line = '''' then ret ()
      else do { t \<leftarrow> now env; ship_line env writeTimeout (text_message line t) })"

fun handle_lines :: "(string \<Rightarrow> ('q, 'r, unit) io) \<Rightarrow> string list \<Rightarrow> ('q, 'r, unit) io" where
  "handle_lines handle [] = ret ()"
| "handle_lines handle (line # lines) = do { handle line; handle_lines handle lines }"

definition line_tokenizer :: tokenizer where
  "line_tokenizer = \<lparr>MaxSize = 0, ExpectedSize = 1024 * 16 * 2, Token = CHR 0x0A, currentData = []\<rparr>"

text \<open>What is done with one chunk of the stream.\<close>

definition read_chunk :: "(string \<Rightarrow> ('q, 'r, unit) io) \<Rightarrow> tokenizer \<Rightarrow> string \<Rightarrow> ('q, 'r, tokenizer) io" where
  "read_chunk handle st data =
     (case Add st data of
        (st', Returns chunks) \<Rightarrow> do { handle_lines handle chunks; ret st' }
      | (st', Fails e) \<Rightarrow> do { onError (GoWrap ''tokenizer: %v'' e); ret st' }
      | (st', Panics s) \<Rightarrow> ret st')"

text \<open>The read loop, \<open>n\<close> turns of it; \<open>report\<close> is what is done with an error that is not the end of the stream.\<close>

fun read_loop ::
    "line_env \<Rightarrow> (go_err \<Rightarrow> unit line_io) \<Rightarrow> (string \<Rightarrow> unit line_io) \<Rightarrow> nat \<Rightarrow> tokenizer \<Rightarrow> tokenizer line_io" where
  "read_loop env report handle 0 st = ret st"
| "read_loop env report handle (Suc n) st = do {
     running \<leftarrow> is_running env;
     if \<not> running then ret st
     else do {
       r \<leftarrow> call env QRead;
       case r of
         ReadEOF \<Rightarrow> ret st
       | ReadErr e \<Rightarrow> do { report e; ret st }
       | ReadData data \<Rightarrow> do { st' \<leftarrow> read_chunk handle st data; read_loop env report handle n st' }
     }
   }"

section \<open>Standard input\<close>

definition stdin_Validate :: "go_err option \<Rightarrow> go_err option" where
  "stdin_Validate client_err = map_option (GoWrap ''client_options: %v'') client_err"

definition NewStdinAdapter :: "go_err option \<Rightarrow> 64 word \<Rightarrow> go_err + duration" where
  "NewStdinAdapter client_err writeTimeoutSec =
     (case client_err of Some e \<Rightarrow> Inl e | None \<Rightarrow> Inr (write_timeout writeTimeoutSec))"

definition stdin_Close :: "('q, 'r) env \<Rightarrow> ('q, 'r, go_err option) io" where
  "stdin_Close env = close_adapter env"

definition stdin_handleInput :: "line_env \<Rightarrow> duration \<Rightarrow> nat \<Rightarrow> tokenizer line_io" where
  "stdin_handleInput env writeTimeout n =
     read_loop env (\<lambda>e. onError (GoWrap ''os.Stdin.Read(): %v'' e)) (handleLine env writeTimeout) n line_tokenizer"

section \<open>Syslog\<close>

record syslog_config =
  sy_Port :: "16 word"
  sy_Interface :: string
  sy_IsUDP :: bool
  sy_SslCertPath :: string
  sy_SslKeyPath :: string
  sy_MutualTlsCertPath :: string
  sy_WriteTimeoutSec :: "64 word"

definition syslog_Validate :: "go_err option \<Rightarrow> syslog_config \<Rightarrow> go_err option" where
  "syslog_Validate client_err c =
     (case client_err of
        Some e \<Rightarrow> Some (GoWrap ''client_options: %v'' e)
      | None \<Rightarrow> if sy_Port c = 0 then Some (GoErr ''missing port'') else None)"

text \<open>
  How the adapter listens. The network and the certificates are arguments: the error of loading the key pair, of
  reading the client certificate, of resolving the address, of listening, and of the client.
\<close>

datatype syslog_listener = TcpListener | TlsListener bool | UdpListener

record syslog_net =
  net_LoadX509KeyPair :: "go_err option"
  net_ReadFile :: "go_err option"
  net_ResolveUDPAddr :: "go_err option"
  net_Listen :: "syslog_listener \<Rightarrow> go_err option"
  net_NewClient :: "go_err option"

definition syslog_listen :: "syslog_net \<Rightarrow> syslog_config \<Rightarrow> go_err + syslog_listener" where
  "syslog_listen net conf =
     (let listen = (\<lambda>l. case net_Listen net l of Some e \<Rightarrow> Inl e | None \<Rightarrow> Inr l) in
      if sy_IsUDP conf \<and> (sy_SslCertPath conf \<noteq> '''' \<or> sy_SslKeyPath conf \<noteq> '''') then
        Inl (GoErr ''ssl cannot be enabled for udp'')
      else if sy_SslCertPath conf \<noteq> '''' \<and> sy_SslKeyPath conf \<noteq> '''' then
        (case net_LoadX509KeyPair net of
           Some e \<Rightarrow> Inl (GoWrap ''error loading certificate with cert path '%s' and key path '%s': %s'' e)
         | None \<Rightarrow>
             if sy_MutualTlsCertPath conf \<noteq> '''' then
               (case net_ReadFile net of
                  Some e \<Rightarrow> Inl (GoWrap ''error loading mutual TLS certificate with path '%s': %s'' e)
                | None \<Rightarrow> listen (TlsListener True))
             else listen (TlsListener False))
      else if sy_IsUDP conf then
        (case net_ResolveUDPAddr net of Some e \<Rightarrow> Inl e | None \<Rightarrow> listen UdpListener)
      else listen TcpListener)"

definition NewSyslogAdapter :: "syslog_net \<Rightarrow> syslog_config \<Rightarrow> go_err + (syslog_listener \<times> duration)" where
  "NewSyslogAdapter net conf =
     (case syslog_listen net conf of
        Inl e \<Rightarrow> Inl e
      | Inr l \<Rightarrow>
          (case net_NewClient net of
             Some e \<Rightarrow> Inl e
           | None \<Rightarrow> Inr (l, write_timeout (sy_WriteTimeoutSec conf))))"

text \<open>\<open>err1\<close> is the result of closing the listener.\<close>

definition syslog_Close :: "('q, 'r) env \<Rightarrow> go_err option \<Rightarrow> ('q, 'r, go_err option) io" where
  "syslog_Close env err1 = do {
     setStop;
     err2 \<leftarrow> drain env (1 * minute);
     err3 \<leftarrow> closeClient env;
     ret (case err1 of Some e \<Rightarrow> Some e | None \<Rightarrow> (case err2 of Some e \<Rightarrow> Some e | None \<Rightarrow> err3))
   }"

text \<open>A connection: a stream is split into lines, a datagram is one line.\<close>

fun datagram_loop ::
    "line_env \<Rightarrow> (go_err \<Rightarrow> unit line_io) \<Rightarrow> (string \<Rightarrow> unit line_io) \<Rightarrow> nat \<Rightarrow> unit line_io" where
  "datagram_loop env report handle 0 = ret ()"
| "datagram_loop env report handle (Suc n) = do {
     running \<leftarrow> is_running env;
     if \<not> running then ret ()
     else do {
       r \<leftarrow> call env QRead;
       case r of
         ReadEOF \<Rightarrow> ret ()
       | ReadErr e \<Rightarrow> report e
       | ReadData data \<Rightarrow> do { handle data; datagram_loop env report handle n }
     }
   }"

definition syslog_handleConnection :: "line_env \<Rightarrow> duration \<Rightarrow> bool \<Rightarrow> nat \<Rightarrow> unit line_io" where
  "syslog_handleConnection env writeTimeout isDatagram n =
     (let report = (\<lambda>e. onWarning ''conn.Read(): %v'') in
      if isDatagram then datagram_loop env report (handleLine env writeTimeout) n
      else do { read_loop env report (handleLine env writeTimeout) n line_tokenizer; ret () })"

section \<open>Simulator\<close>

text \<open>The write timeout is the constant 600, of type \<open>time.Duration\<close>: nanoseconds.\<close>

definition simulator_writeTimeout :: duration where
  "simulator_writeTimeout = 600"

definition simulator_Validate :: "go_err option \<Rightarrow> go_err option" where
  "simulator_Validate client_err = map_option (GoWrap ''client_options: %v'') client_err"

definition NewSimulatorAdapter :: "go_err option \<Rightarrow> go_err option \<Rightarrow> string \<Rightarrow> go_err + duration" where
  "NewSimulatorAdapter open_err client_err filePath =
     (case (if filePath \<noteq> '''' then open_err else None) of
        Some e \<Rightarrow> Inl e
      | None \<Rightarrow> (case client_err of Some e \<Rightarrow> Inl e | None \<Rightarrow> Inr simulator_writeTimeout))"

definition simulator_Close :: "('q, 'r) env \<Rightarrow> ('q, 'r, go_err option) io" where
  "simulator_Close env = close_adapter env"

definition sleepDelta :: duration where
  "sleepDelta = 1 * second"

text \<open>\<open>for isRunning && totalSleep != 0\<close>, with fuel; \<open>None\<close> when it is still sleeping then.\<close>

fun sleep_slices :: "('q, 'r) env \<Rightarrow> nat \<Rightarrow> duration \<Rightarrow> ('q, 'r, unit option) io" where
  "sleep_slices env 0 totalSleep = ret None"
| "sleep_slices env (Suc fuel) totalSleep = do {
     running \<leftarrow> is_running env;
     if \<not> running \<or> totalSleep = 0 then ret (Some ())
     else if totalSleep > sleepDelta then do {
       emit (EWait sleepDelta False);
       sleep_slices env fuel (totalSleep - sleepDelta)
     } else do {
       emit (EWait totalSleep False);
       sleep_slices env fuel 0
     }
   }"

record replay =
  lastEventTime :: int
  lastSentTime :: int

text \<open>
  \<open>event_time\<close> is \<open>routing.event_time\<close> of the decoded line, or \<open>None\<close> when it does not decode. The loop runs once per second
  to sleep and once more to end: the fuel is the number of seconds and three. The product of the sleep is an \<open>int64\<close>.
\<close>

definition replayTimedEvent :: "('q, 'r) env \<Rightarrow> (string \<Rightarrow> int option) \<Rightarrow> string \<Rightarrow> replay \<Rightarrow> ('q, 'r, (bool \<times> replay) option) io" where
  "replayTimedEvent env event_time line a =
     (case event_time line of
        None \<Rightarrow> ret (Some (False, a))
      | Some eventTime \<Rightarrow>
          if lastEventTime a > eventTime then ret (Some (False, a))
          else do {
            t \<leftarrow> now env;
            let nowMs = t div millisecond;
            let evtDelta = eventTime - lastEventTime a;
            let clockDelta = nowMs - lastSentTime a;
            let totalSleep = sint (word_of_int ((evtDelta - clockDelta) * millisecond) :: 64 word);
            slept \<leftarrow> (if clockDelta < evtDelta then sleep_slices env (nat (totalSleep div sleepDelta) + 3) totalSleep
              else ret (Some ()));
            ret (map_option (\<lambda>_. (True, \<lparr>lastEventTime = eventTime, lastSentTime = nowMs\<rparr>)) slept)
          })"

text \<open>
  The handler of a line and the loop over the lines and the reads, with the state of the replay. The result is \<open>None\<close> only
  when a replay used up its fuel.
\<close>

definition simulator_handleLine ::
    "('q, 'r) env \<Rightarrow> (string \<Rightarrow> int option) \<Rightarrow> bool \<Rightarrow> string \<Rightarrow> replay \<Rightarrow> ('q, 'r, replay option) io" where
  "simulator_handleLine env event_time isReplayTiming line a =
     (if line = '''' then ret (Some a)
      else do {
        r \<leftarrow> (if isReplayTiming then replayTimedEvent env event_time line a else ret (Some (True, a)));
        case r of
          None \<Rightarrow> ret None
        | Some (_, a') \<Rightarrow> do {
            t \<leftarrow> now env;
            ship_line env simulator_writeTimeout (text_message line t);
            ret (Some a')
          }
      })"

fun simulator_lines ::
    "('q, 'r) env \<Rightarrow> (string \<Rightarrow> int option) \<Rightarrow> bool \<Rightarrow> string list \<Rightarrow> replay \<Rightarrow> ('q, 'r, replay option) io" where
  "simulator_lines env event_time isReplayTiming [] a = ret (Some a)"
| "simulator_lines env event_time isReplayTiming (line # lines) a = do {
     r \<leftarrow> simulator_handleLine env event_time isReplayTiming line a;
     case r of None \<Rightarrow> ret None | Some a' \<Rightarrow> simulator_lines env event_time isReplayTiming lines a'
   }"

fun simulator_loop ::
    "line_env \<Rightarrow> (string \<Rightarrow> int option) \<Rightarrow> bool \<Rightarrow> nat \<Rightarrow> tokenizer \<Rightarrow> replay \<Rightarrow> (tokenizer \<times> replay) option line_io" where
  "simulator_loop env event_time isReplayTiming 0 st a = ret (Some (st, a))"
| "simulator_loop env event_time isReplayTiming (Suc n) st a = do {
     running \<leftarrow> is_running env;
     if \<not> running then ret (Some (st, a))
     else do {
       r \<leftarrow> call env QRead;
       case r of
         ReadEOF \<Rightarrow> ret (Some (st, a))
       | ReadErr e \<Rightarrow> do { onError (GoWrap ''io.Read(): %v'' e); ret (Some (st, a)) }
       | ReadData data \<Rightarrow>
           (case Add st data of
              (st', Returns chunks) \<Rightarrow> do {
                r \<leftarrow> simulator_lines env event_time isReplayTiming chunks a;
                case r of None \<Rightarrow> ret None | Some a' \<Rightarrow> simulator_loop env event_time isReplayTiming n st' a'
              }
            | (st', Fails e) \<Rightarrow> do {
                onError (GoWrap ''tokenizer: %v'' e);
                simulator_loop env event_time isReplayTiming n st' a
              }
            | (st', Panics s) \<Rightarrow> ret None)
     }
   }"

definition simulator_handleInput :: "line_env \<Rightarrow> (string \<Rightarrow> int option) \<Rightarrow> bool \<Rightarrow> nat \<Rightarrow> (tokenizer \<times> replay) option line_io" where
  "simulator_handleInput env event_time isReplayTiming n =
     simulator_loop env event_time isReplayTiming n line_tokenizer \<lparr>lastEventTime = 0, lastSentTime = 0\<rparr>"

section \<open>Windows event log files\<close>

definition evtx_Validate :: "go_err option \<Rightarrow> string \<Rightarrow> go_err option" where
  "evtx_Validate client_err filePath =
     (case client_err of
        Some e \<Rightarrow> Some (GoWrap ''client_options: %v'' e)
      | None \<Rightarrow> if filePath = '''' then Some (GoErr ''file_path missing'') else None)"

definition NewEVTXAdapter :: "go_err option \<Rightarrow> go_err option \<Rightarrow> go_err option \<Rightarrow> 64 word \<Rightarrow> go_err + duration" where
  "NewEVTXAdapter open_err parse_err client_err writeTimeoutSec =
     (case open_err of
        Some e \<Rightarrow> Inl e
      | None \<Rightarrow>
          (case parse_err of
             Some e \<Rightarrow> Inl e
           | None \<Rightarrow> (case client_err of Some e \<Rightarrow> Inl e | None \<Rightarrow> Inr (write_timeout writeTimeoutSec))))"

definition evtx_Close :: "('q, 'r) env \<Rightarrow> ('q, 'r, go_err option) io" where
  "evtx_Close env = do {
     err1 \<leftarrow> drain env (1 * minute);
     err2 \<leftarrow> closeClient env;
     ret (case err1 of Some e \<Rightarrow> Some e | None \<Rightarrow> err2)
   }"

text \<open>An event of the library is nil or a map; \<open>roundtrip\<close> is what encoding it to JSON and decoding it again gives.\<close>

definition evtx_handleEvent ::
    "('q, 'r) env \<Rightarrow> ('e \<Rightarrow> dict option) \<Rightarrow> duration \<Rightarrow> 'e option \<Rightarrow> ('q, 'r, unit) io" where
  "evtx_handleEvent env roundtrip writeTimeout event =
     (case event of
        None \<Rightarrow> ret ()
      | Some e \<Rightarrow>
          (case roundtrip e of
             None \<Rightarrow> ret ()
           | Some m \<Rightarrow> do { t \<leftarrow> now env; ship_line env writeTimeout (json_message m t) }))"

text \<open>The records of the channel, each an error or an event; the first error ends the loop.\<close>

fun evtx_handleInput ::
    "('q, 'r) env \<Rightarrow> ('e \<Rightarrow> dict option) \<Rightarrow> duration \<Rightarrow> (go_err + 'e option) list \<Rightarrow> ('q, 'r, unit) io" where
  "evtx_handleInput env roundtrip writeTimeout [] = ret ()"
| "evtx_handleInput env roundtrip writeTimeout (rec # recs) =
     (case rec of
        Inl e \<Rightarrow> onError (GoWrap ''evtx.Parse(): %v'' e)
      | Inr event \<Rightarrow> do {
          evtx_handleEvent env roundtrip writeTimeout event;
          evtx_handleInput env roundtrip writeTimeout recs
        })"

section \<open>Lines in, messages out\<close>

text \<open>An environment that hands out the chunks of a stream, one per read, and then its end.\<close>

definition reads :: "(read_query, 'r) history \<Rightarrow> nat" where
  "reads h = length (filter (\<lambda>e. case e of ECall q r \<Rightarrow> True | _ \<Rightarrow> False) h)"

lemma reads_Cons [simp]:
  "reads (ENow t # h) = reads h" "reads (EShip m d e # h) = reads h" "reads (EOnError err # h) = reads h"
  "reads (EOnWarning s # h) = reads h" "reads (EWait d b # h) = reads h" "reads (ECall q r # h) = Suc (reads h)"
  "reads [] = 0"
  by (simp_all add: reads_def)

definition reads_from :: "string list \<Rightarrow> line_env \<Rightarrow> bool" where
  "reads_from chunks env \<longleftrightarrow>
     (\<forall>h. e_call env h QRead = (if reads h < length chunks then ReadData (chunks ! reads h) else ReadEOF))"

text \<open>Nobody stops the adapter and the client accepts everything.\<close>

definition undisturbed :: "('q, 'r) env \<Rightarrow> bool" where
  "undisturbed env \<longleftrightarrow> (\<forall>h d. \<not> e_stop env h d) \<and> (\<forall>h m d. e_ship env h m d = None)"

abbreviation non_empty :: "string list \<Rightarrow> string list" where
  "non_empty ls \<equiv> filter (\<lambda>l. l \<noteq> '''') ls"

lemma handle_lines_ships:
  assumes "undisturbed env"
  shows "wp (handle_lines (handleLine env d) ls) (\<lambda>_ w'. stop w' = stop w \<and> reads (hist w') = reads (hist w) \<and>
    delivered (hist w') = delivered (hist w) @ map TextPayload (non_empty ls)) w"
proof (induction ls arbitrary: w)
  case (Cons l ls)
  show ?case
  proof (cases "l = ''''")
    case True
    with Cons show ?thesis by (simp add: handleLine_def wp_simps)
  next
    case False
    let ?t = "e_now env (hist w)"
    let ?w1 = "w\<lparr>hist := EShip (text_message l ?t) d None # ENow ?t # hist w\<rparr>"
    from Cons [of ?w1] False assms show ?thesis
      by (simp add: handleLine_def ship_line_def wp_simps undisturbed_def text_message_def)
  qed
qed (simp add: wp_simps)

lemma drop_Cons_split: "drop k xs = c # rest \<Longrightarrow> k < length xs \<and> xs ! k = c \<and> drop (Suc k) xs = rest"
  by (metis Cons_nth_drop_Suc drop_all leI list.inject list.distinct(1))

lemma read_loop_ships:
  assumes env: "undisturbed env" "reads_from chunks env"
  shows "\<not> stop w \<Longrightarrow> drop (reads (hist w)) chunks = rest \<Longrightarrow> length rest < n \<Longrightarrow> add_all st rest = (st', Returns ms) \<Longrightarrow>
    wp (read_loop env report (handleLine env d) n st)
      (\<lambda>r w'. r = st' \<and> delivered (hist w') = delivered (hist w) @ map TextPayload (non_empty ms)) w"
proof (induction rest arbitrary: n st ms w)
  case Nil
  then obtain m where "n = Suc m" by (cases n) auto
  moreover have "\<not> reads (hist w) < length chunks" using Nil.prems(2) by simp
  ultimately show ?case
    using Nil.prems(1,4) env by (simp add: wp_simps is_running_def undisturbed_def reads_from_def)
next
  case (Cons c rest)
  then obtain m where n: "n = Suc m" "length rest < m" by (cases n) auto
  have k: "reads (hist w) < length chunks" "chunks ! reads (hist w) = c" "drop (Suc (reads (hist w))) chunks = rest"
    using drop_Cons_split [OF Cons.prems(2)] by simp_all
  obtain st1 ms1 ms2 where a: "Add st c = (st1, Returns ms1)" "add_all st1 rest = (st', Returns ms2)" "ms = ms1 @ ms2"
    using Cons.prems(4) by (auto split: prod.splits outcome.splits)
  let ?w1 = "w\<lparr>stop := False, hist := ECall QRead (ReadData c) # EWait 0 False # hist w\<rparr>"
  have "wp (do { handle_lines (handleLine env d) ms1; read_loop env report (handleLine env d) m st1 })
      (\<lambda>r w'. r = st' \<and> delivered (hist w') = delivered (hist w) @ map TextPayload (non_empty ms)) ?w1"
  proof (rule wp_bindI [OF handle_lines_ships [OF env(1)]])
    fix x and w2 :: "(read_query, read_result) world"
    assume w2: "stop w2 = stop ?w1 \<and> reads (hist w2) = reads (hist ?w1) \<and>
      delivered (hist w2) = delivered (hist ?w1) @ map TextPayload (non_empty ms1)"
    then show "wp (read_loop env report (handleLine env d) m st1)
        (\<lambda>r w'. r = st' \<and> delivered (hist w') = delivered (hist w) @ map TextPayload (non_empty ms)) w2"
      using wp_mono [OF Cons.IH [OF _ _ n(2) a(2)]] k(3) a(3) by auto
  qed
  then show ?case
    using Cons.prems(1) env k(1,2) a(1)
    by (simp add: n(1) wp_simps is_running_def undisturbed_def reads_from_def read_chunk_def)
qed

text \<open>What the standard input adapter delivers is the non-empty lines of the stream, in order, however the stream is
  cut into reads: all lines that end with a newline, when no read has a line of one byte before a newline. What
  follows the last newline is not delivered.\<close>

theorem stdin_delivers_lines:
  assumes "undisturbed env" "reads_from chunks env" "hist w = []" "\<not> stop w" "length chunks < n"
    and "list_all (no_single_byte (CHR 0x0A)) chunks"
  shows "delivered (hist (snd (run_state (stdin_handleInput env d n) w))) =
    map TextPayload (non_empty (butlast (split_char (CHR 0x0A) (concat chunks))))"
proof -
  have "line_tokenizer\<lparr>currentData := []\<rparr> = line_tokenizer" by (simp add: line_tokenizer_def)
  then have tok: "add_all line_tokenizer chunks =
      (line_tokenizer\<lparr>currentData := last (split_char (CHR 0x0A) (concat chunks))\<rparr>,
       Returns (butlast (split_char (CHR 0x0A) (concat chunks))))"
    using add_all_split [of line_tokenizer "[]" chunks] assms(6) by (simp add: line_tokenizer_def)
  have "wp (stdin_handleInput env d n)
      (\<lambda>r w'. delivered (hist w') = map TextPayload (non_empty (butlast (split_char (CHR 0x0A) (concat chunks))))) w"
    unfolding stdin_handleInput_def
    using wp_mono [OF read_loop_ships [OF assms(1,2,4) _ assms(5) tok]] assms(3) by auto
  then show ?thesis by (simp add: wp_def case_prod_beta)
qed

section \<open>Replaying returns\<close>

lemma sleep_slices_returns:
  "nat (s div sleepDelta) + 3 \<le> fuel \<Longrightarrow> wp (sleep_slices env fuel s) (\<lambda>r w'. r = Some ()) w"
proof (induction fuel arbitrary: s w)
  case (Suc fuel)
  have zero: "wp (sleep_slices env fuel 0) (\<lambda>r w'. r = Some ()) v" for v
    using Suc.prems by (cases fuel) (simp_all add: wp_simps is_running_def)
  have less: "wp (sleep_slices env fuel (s - sleepDelta)) (\<lambda>r w'. r = Some ()) v" if "s > sleepDelta" for v
  proof (rule Suc.IH)
    have "(s - sleepDelta) div sleepDelta = s div sleepDelta - 1" by (simp add: sleepDelta_def)
    moreover have "1 \<le> s div sleepDelta" using that by (simp add: sleepDelta_def)
    ultimately show "nat ((s - sleepDelta) div sleepDelta) + 3 \<le> fuel" using Suc.prems by linarith
  qed
  show ?case by (simp add: wp_simps is_running_def zero less)
qed simp

text \<open>Replaying a timed event always returns, whatever the line, the state and the clock are, also when the sleep
  overflows: the loop of sleeps ends within its fuel.\<close>

theorem replayTimedEvent_returns:
  "\<exists>r w'. run_state (replayTimedEvent env event_time line a) w = (Some r, w')"
proof -
  have "wp (replayTimedEvent env event_time line a) (\<lambda>r w'. r \<noteq> None) w"
    unfolding replayTimedEvent_def
    by (auto simp: wp_simps Let_def intro!: wp_mono [OF sleep_slices_returns] split: option.split)
  then show ?thesis by (auto simp: wp_def split: prod.splits)
qed

definition two_reads :: line_env where
  "two_reads = \<lparr>e_now = \<lambda>_. 0, e_ship = \<lambda>_ _ _. None,
     e_call = \<lambda>h _. (if reads h < 2 then ReadData ([[CHR 0x61, CHR 0x62, CHR 0x0A, CHR 0x63], [CHR 0x64, CHR 0x64, CHR 0x0A, CHR 0x65]] ! reads h) else ReadEOF),
     e_stop = \<lambda>_ _. False, e_drain = \<lambda>_. None, e_close = \<lambda>_. None\<rparr>"

lemma stdin_delivers_lines_witness:
  "delivered (hist (snd (run_state (stdin_handleInput two_reads (10 * second) 3) fresh_world))) =
    [TextPayload ''ab'', TextPayload ''cdd'']"
proof -
  have "undisturbed two_reads" by (simp add: undisturbed_def two_reads_def)
  moreover have "reads_from [[CHR 0x61, CHR 0x62, CHR 0x0A, CHR 0x63], [CHR 0x64, CHR 0x64, CHR 0x0A, CHR 0x65]] two_reads"
    by (simp add: reads_from_def two_reads_def)
  ultimately show ?thesis
    using stdin_delivers_lines [of two_reads "[[CHR 0x61, CHR 0x62, CHR 0x0A, CHR 0x63], [CHR 0x64, CHR 0x64, CHR 0x0A, CHR 0x65]]"
        fresh_world 3 "10 * second"]
    by (simp add: no_single_byte_def)
qed

end
