(* ===== verification/Queue_Adapters.thy ===== *)
theory Queue_Adapters
  imports Object_Store Json_Query
begin

text \<open>
  The adapters that take messages from a queue: \<open>sqs/client.go\<close>, \<open>pubsub/client.go\<close>, \<open>azure_event_hub/client.go\<close>, and
  \<open>sqs-files/client.go\<close>, whose messages name objects of a bucket.
\<close>

section \<open>Shipping a message\<close>

text \<open>As \<open>ship_retry\<close>, but a full buffer is only logged for debugging.\<close>

definition ship_silently :: "('q, 'r) env \<Rightarrow> data_message \<Rightarrow> ('q, 'r, go_err option) io" where
  "ship_silently env msg = do {
     err \<leftarrow> ship env msg (10 * second);
     err' \<leftarrow> (if err = Some BufferFull then ship env msg (1 * hour) else ret err);
     case err' of
       Some e \<Rightarrow> do { onError (GoWrap ''Ship(): %v'' e); ret (Some e) }
     | None \<Rightarrow> ret None
   }"

definition queue_message :: "string \<Rightarrow> time \<Rightarrow> data_message" where
  "queue_message data t = \<lparr>payload = TextPayload data, TimestampMs = stamp_ms t, EventType = ''''\<rparr>"

section \<open>SQS\<close>

record sqs_config =
  sqs_AccessKey :: string
  sqs_SecretKey :: string
  sqs_QueueURL :: string
  sqs_Region :: string

definition sqs_Validate :: "go_err option \<Rightarrow> sqs_config \<Rightarrow> go_err option" where
  "sqs_Validate client_err c =
     (case client_err of
        Some e \<Rightarrow> Some (GoWrap ''client_options: %v'' e)
      | None \<Rightarrow>
          if sqs_AccessKey c = '''' then Some (GoErr ''missing access_key'')
          else if sqs_SecretKey c = '''' then Some (GoErr ''missing secret_key'')
          else if sqs_Region c = '''' then Some (GoErr ''missing region'')
          else if sqs_QueueURL c = '''' then Some (GoErr ''missing queue_url'')
          else None)"

text \<open>The errors of the session, of the client, and of \<open>receiveEvents\<close> within its first two seconds.\<close>

definition NewSQSAdapter :: "go_err option \<Rightarrow> go_err option \<Rightarrow> go_err option \<Rightarrow> sqs_config \<Rightarrow> go_err + sqs_config" where
  "NewSQSAdapter sess_err client_err subErr conf =
     (case sess_err of
        Some e \<Rightarrow> Inl e
      | None \<Rightarrow>
          (case client_err of
             Some e \<Rightarrow> Inl e
           | None \<Rightarrow> (case subErr of Some e \<Rightarrow> Inl e | None \<Rightarrow> Inr conf)))"

definition sqs_Close :: "('q, 'r) env \<Rightarrow> ('q, 'r, go_err option) io" where
  "sqs_Close env = do { setStop; closeClient env }"

text \<open>A received message; the service sends no message without a body. An entry of a deletion has the identifier and the handle.\<close>

record sqs_message =
  MessageId :: string
  ReceiptHandle :: string
  Body :: string

definition delete_entry :: "sqs_message \<Rightarrow> string \<times> string" where
  "delete_entry msg = (MessageId msg, ReceiptHandle msg)"

datatype sqs_query =
    QReceive
  | QDeleteBatch "(string \<times> string) list"
  | QInitS3 string
  | QObject string string

datatype sqs_answer =
    RMessages "go_err + sqs_message list"
  | RDeleted "go_err + string list"
  | RInit "go_err option"
  | RObject "go_err + string"

type_synonym 'a sqs_io = "(sqs_query, sqs_answer, 'a) io"
type_synonym sqs_env = "(sqs_query, sqs_answer) env"

definition sqs_processEvent :: "('q, 'r) env \<Rightarrow> string \<Rightarrow> ('q, 'r, go_err option) io" where
  "sqs_processEvent env message = do {
     t \<leftarrow> now env;
     ship_silently env (queue_message message t)
   }"

text \<open>The loop over the messages of a batch; an error leaves \<open>receiveEvents\<close> before anything is deleted.\<close>

fun sqs_batch :: "('q, 'r) env \<Rightarrow> sqs_message list \<Rightarrow> ('q, 'r, go_err option) io" where
  "sqs_batch env [] = ret None"
| "sqs_batch env (msg # msgs) = do {
     err \<leftarrow> sqs_processEvent env (Body msg);
     case err of Some e \<Rightarrow> ret (Some e) | None \<Rightarrow> sqs_batch env msgs
   }"

text \<open>The deletion of a batch: its error, or an error when some messages could not be deleted.\<close>

definition sqs_delete_batch :: "sqs_env \<Rightarrow> sqs_message list \<Rightarrow> go_err option sqs_io" where
  "sqs_delete_batch env msgs = do {
     r \<leftarrow> call env (QDeleteBatch (map delete_entry msgs));
     ret (case r of
            RDeleted (Inl e) \<Rightarrow> Some e
          | RDeleted (Inr failed) \<Rightarrow>
              if failed \<noteq> [] then Some (GoErr ''sqsClient.DeleteMessageBatch: failed to delete some messages'') else None
          | _ \<Rightarrow> None)
   }"

fun sqs_receiveEvents :: "sqs_env \<Rightarrow> nat \<Rightarrow> go_err option sqs_io" where
  "sqs_receiveEvents env 0 = ret None"
| "sqs_receiveEvents env (Suc n) = do {
     stopped \<leftarrow> loadStop env;
     if stopped then ret None
     else do {
       r \<leftarrow> call env QReceive;
       case r of
         RMessages (Inl e) \<Rightarrow> do { onError (GoWrap ''sqsClient.ReceiveMessage: %v'' e); ret (Some e) }
       | RMessages (Inr msgs) \<Rightarrow>
           if msgs = [] then sqs_receiveEvents env n
           else do {
             err \<leftarrow> sqs_batch env msgs;
             case err of
               Some e \<Rightarrow> ret (Some e)
             | None \<Rightarrow> do {
                 derr \<leftarrow> sqs_delete_batch env msgs;
                 case derr of Some e \<Rightarrow> ret (Some e) | None \<Rightarrow> sqs_receiveEvents env n
               }
           }
       | _ \<Rightarrow> ret None
     }
   }"

section \<open>Pub/Sub and Event Hub\<close>

record pubsub_config =
  ps_SubscriptionName :: string
  ps_ProjectName :: string
  ps_ServiceAccountCreds :: string
  ps_MaxPSBuffer :: int

definition pubsub_Validate :: "go_err option \<Rightarrow> pubsub_config \<Rightarrow> pubsub_config \<times> go_err option" where
  "pubsub_Validate client_err c =
     (case client_err of
        Some e \<Rightarrow> (c, Some (GoWrap ''client_options: %v'' e))
      | None \<Rightarrow>
          if ps_SubscriptionName c = '''' then (c, Some (GoErr ''missing sub_name''))
          else if ps_ProjectName c = '''' then (c, Some (GoErr ''missing project_name''))
          else (let c' = c\<lparr>ps_ServiceAccountCreds := trim_space (ps_ServiceAccountCreds c)\<rparr> in
                (c', if ps_ServiceAccountCreds c' = '''' then Some (GoErr ''missing service_account_creds'') else None)))"

datatype pubsub_query = QAck string | QNack string

text \<open>The callback of the subscription: the message is acknowledged exactly when it was shipped.\<close>

definition pubsub_processEvent :: "(pubsub_query, unit) env \<Rightarrow> string \<Rightarrow> string \<Rightarrow> (pubsub_query, unit, unit) io" where
  "pubsub_processEvent env msg_id data = do {
     t \<leftarrow> now env;
     err \<leftarrow> ship_silently env (queue_message data t);
     case err of
       Some e \<Rightarrow> call env (QNack msg_id)
     | None \<Rightarrow> call env (QAck msg_id)
   }"

definition pubsub_Close :: "('q, 'r) env \<Rightarrow> go_err option \<Rightarrow> ('q, 'r, go_err option) io" where
  "pubsub_Close env err1 = do {
     err2 \<leftarrow> drain env (1 * minute);
     err3 \<leftarrow> closeClient env;
     ret (case err1 of Some e \<Rightarrow> Some e | None \<Rightarrow> (case err2 of Some e \<Rightarrow> Some e | None \<Rightarrow> err3))
   }"

definition eventhub_Validate :: "go_err option \<Rightarrow> string \<Rightarrow> go_err option" where
  "eventhub_Validate client_err connectionString =
     (case client_err of
        Some e \<Rightarrow> Some (GoWrap ''client_options: %v'' e)
      | None \<Rightarrow> if connectionString = '''' then Some (GoErr ''missing connection_string'') else None)"

definition eventhub_Close :: "('q, 'r) env \<Rightarrow> go_err option \<Rightarrow> ('q, 'r, go_err option) io" where
  "eventhub_Close env err1 = pubsub_Close env err1"

definition eventhub_processEvent :: "('q, 'r) env \<Rightarrow> string \<Rightarrow> ('q, 'r, go_err option) io" where
  "eventhub_processEvent env data = do {
     t \<leftarrow> now env;
     ship_silently env (queue_message data t)
   }"

section \<open>Files named by SQS messages\<close>

record sqsf_config =
  sf_AccessKey :: string
  sf_SecretKey :: string
  sf_QueueURL :: string
  sf_Region :: string
  sf_ParallelFetch :: int
  sf_BucketPath :: string
  sf_FilePath :: string
  sf_IsDecodeObjectKey :: bool
  sf_Bucket :: string

definition sqsf_Validate :: "go_err option \<Rightarrow> sqsf_config \<Rightarrow> go_err option" where
  "sqsf_Validate client_err c =
     (case client_err of
        Some e \<Rightarrow> Some (GoWrap ''client_options: %v'' e)
      | None \<Rightarrow>
          if sf_AccessKey c = '''' then Some (GoErr ''missing access_key'')
          else if sf_SecretKey c = '''' then Some (GoErr ''missing secret_key'')
          else if sf_Region c = '''' then Some (GoErr ''missing region'')
          else if sf_QueueURL c = '''' then Some (GoErr ''missing queue_url'')
          else None)"

definition sqsf_defaults :: "sqsf_config \<Rightarrow> sqsf_config" where
  "sqsf_defaults c =
     c\<lparr>sf_ParallelFetch := (if sf_ParallelFetch c \<le> 0 then 1 else sf_ParallelFetch c),
       sf_BucketPath := (if sf_BucketPath c = '''' then ''bucket'' else sf_BucketPath c),
       sf_FilePath := (if sf_FilePath c = '''' then ''files/path'' else sf_FilePath c)\<rparr>"

definition NewSQSFilesAdapter ::
    "go_err option \<Rightarrow> go_err option \<Rightarrow> go_err option \<Rightarrow> sqsf_config \<Rightarrow> go_err + sqsf_config" where
  "NewSQSFilesAdapter sess_err client_err subErr conf =
     (case sess_err of
        Some e \<Rightarrow> Inl e
      | None \<Rightarrow>
          (case client_err of
             Some e \<Rightarrow> Inl e
           | None \<Rightarrow> (case subErr of Some e \<Rightarrow> Inl e | None \<Rightarrow> Inr (sqsf_defaults conf))))"

definition sqsf_Close :: "('q, 'r) env \<Rightarrow> ('q, 'r, go_err option) io" where
  "sqsf_Close env = do { setStop; closeClient env }"

text \<open>
  The libraries: the decoder of a message, the JSON decoder behind the search, \<open>url.QueryUnescape\<close>, and what
  \<open>PrepareBundleData\<close> uses.
\<close>

record sqsf_lib =
  lib_decode :: "string \<Rightarrow> go_err + dict"
  lib_um :: json_unmarshal
  lib_unescape :: "string \<Rightarrow> go_err + string"
  lib_gz :: gz_reader
  lib_to_json :: "string \<Rightarrow> go_err + string"

text \<open>One turn of \<open>processFiles\<close>: whether the worker goes on to the next file.\<close>

definition sqsf_process_file :: "sqs_env \<Rightarrow> sqsf_lib \<Rightarrow> sqsf_config \<Rightarrow> string \<times> string \<Rightarrow> bool sqs_io" where
  "sqsf_process_file env lib c f = (case f of (bucket, path0) \<Rightarrow>
     case (if sf_IsDecodeObjectKey c then lib_unescape lib path0 else Inr path0) of
       Inl e \<Rightarrow> do { onError (GoWrap ''url.QueryUnescape(): %v'' e); ret True }
     | Inr path \<Rightarrow> do {
         r \<leftarrow> call env (QObject bucket path);
         case r of
           RObject (Inl e) \<Rightarrow> do { onError (GoWrap ''s3.Download(): %v'' e); ret False }
         | RObject (Inr bytes) \<Rightarrow>
             (case PrepareBundleData (lib_gz lib) (lib_to_json lib) path bytes of
                Inl e \<Rightarrow> do { onError e; ret True }
              | Inr (rawData, isCompressed) \<Rightarrow> do { processEvent env rawData isCompressed; ret True })
         | _ \<Rightarrow> ret False
       })"

text \<open>
  Sending on the unbuffered channel: a worker that is still running takes the file and processes it; when no
  worker is left the send never returns, which is \<open>None\<close>.
\<close>

fun sqsf_send_all ::
    "sqs_env \<Rightarrow> sqsf_lib \<Rightarrow> sqsf_config \<Rightarrow> (string \<times> string) list \<Rightarrow> nat \<Rightarrow> nat option sqs_io" where
  "sqsf_send_all env lib c [] workers = ret (Some workers)"
| "sqsf_send_all env lib c (f # fs) 0 = ret None"
| "sqsf_send_all env lib c (f # fs) (Suc workers) = do {
     goes_on \<leftarrow> sqsf_process_file env lib c f;
     sqsf_send_all env lib c fs (if goes_on then Suc workers else workers)
   }"

text \<open>\<open>receiveEvents\<close> returns, with an error or not, or blocks forever.\<close>

datatype sqsf_result = SfReturns "go_err option" | SfBlocks

text \<open>
  The loop over the messages of a batch. Every message is in the batch to delete before anything is done with it.
  The result is the number of workers left, or how \<open>receiveEvents\<close> ends.
\<close>

fun sqsf_batch :: "sqs_env \<Rightarrow> sqsf_lib \<Rightarrow> sqsf_config \<Rightarrow> sqs_message list \<Rightarrow> nat \<Rightarrow> (sqsf_result + nat) sqs_io" where
  "sqsf_batch env lib c [] workers = ret (Inr workers)"
| "sqsf_batch env lib c (msg # msgs) workers =
     (case lib_decode lib (Body msg) of
        Inl e \<Rightarrow> do { onError (GoWrap ''sqsClient.Message.Json: %v'' e); sqsf_batch env lib c msgs workers }
      | Inr d \<Rightarrow>
          (let bucket = (if sf_Bucket c = '''' then ExpandableFindOneString (lib_um lib) d (sf_BucketPath c) else sf_Bucket c);
               filePaths = ExpandableFindString (lib_um lib) d (sf_FilePath c)
           in if bucket = '''' then do {
                onError (GoErr ''sqsClient.Message: missing bucket'');
                sqsf_batch env lib c msgs workers
              }
              else if filePaths = [] then sqsf_batch env lib c msgs workers
              else do {
                r \<leftarrow> call env (QInitS3 bucket);
                case r of
                  RInit (Some e) \<Rightarrow> do { onError e; ret (Inl (SfReturns (Some e))) }
                | _ \<Rightarrow> do {
                    sent \<leftarrow> sqsf_send_all env lib c (map (Pair bucket) filePaths) workers;
                    case sent of
                      None \<Rightarrow> ret (Inl SfBlocks)
                    | Some workers' \<Rightarrow> sqsf_batch env lib c msgs workers'
                  }
              }))"

fun sqsf_receiveEvents :: "sqs_env \<Rightarrow> sqsf_lib \<Rightarrow> sqsf_config \<Rightarrow> nat \<Rightarrow> nat \<Rightarrow> sqsf_result sqs_io" where
  "sqsf_receiveEvents env lib c 0 workers = ret (SfReturns None)"
| "sqsf_receiveEvents env lib c (Suc n) workers = do {
     stopped \<leftarrow> loadStop env;
     if stopped then ret (SfReturns None)
     else do {
       r \<leftarrow> call env QReceive;
       case r of
         RMessages (Inl e) \<Rightarrow> do { onError (GoWrap ''sqsClient.ReceiveMessage: %v'' e); ret (SfReturns (Some e)) }
       | RMessages (Inr msgs) \<Rightarrow>
           if msgs = [] then sqsf_receiveEvents env lib c n workers
           else do {
             res \<leftarrow> sqsf_batch env lib c msgs workers;
             case res of
               Inl ending \<Rightarrow> ret ending
             | Inr workers' \<Rightarrow> do {
                 derr \<leftarrow> sqs_delete_batch env msgs;
                 case derr of
                   Some e \<Rightarrow> ret (SfReturns (Some e))
                 | None \<Rightarrow> sqsf_receiveEvents env lib c n workers'
               }
           }
       | _ \<Rightarrow> ret (SfReturns None)
     }
   }"

definition sqsf_run :: "sqs_env \<Rightarrow> sqsf_lib \<Rightarrow> sqsf_config \<Rightarrow> nat \<Rightarrow> sqsf_result sqs_io" where
  "sqsf_run env lib c n = sqsf_receiveEvents env lib c n (nat (sf_ParallelFetch c))"

section \<open>Deleted only when shipped\<close>

definition accepted :: "payload \<Rightarrow> ('q, 'r) history \<Rightarrow> bool" where
  "accepted p h \<longleftrightarrow> (\<exists>m d. EShip m d None \<in> set h \<and> payload m = p)"

text \<open>The messages of a batch that was received, each accepted by the client.\<close>

definition batch_shipped :: "(string \<times> string) list \<Rightarrow> (sqs_query, sqs_answer) history \<Rightarrow> bool" where
  "batch_shipped ids h \<longleftrightarrow> (\<exists>msgs. ECall QReceive (RMessages (Inr msgs)) \<in> set h \<and> ids = map delete_entry msgs \<and>
     (\<forall>msg \<in> set msgs. accepted (TextPayload (Body msg)) h))"

fun batches_safe :: "(sqs_query, sqs_answer) history \<Rightarrow> bool" where
  "batches_safe [] \<longleftrightarrow> True"
| "batches_safe (ECall (QDeleteBatch ids) r # h) \<longleftrightarrow> batch_shipped ids h \<and> batches_safe h"
| "batches_safe (_ # h) \<longleftrightarrow> batches_safe h"

lemma batch_shippedI:
  "ECall QReceive (RMessages (Inr msgs)) \<in> set h \<Longrightarrow> \<forall>msg \<in> set msgs. accepted (TextPayload (Body msg)) h \<Longrightarrow>
   batch_shipped (map delete_entry msgs) h"
  unfolding batch_shipped_def by blast

lemma accepted_mono: "accepted p h \<Longrightarrow> set h \<subseteq> set h' \<Longrightarrow> accepted p h'"
  unfolding accepted_def by blast

lemma ship_silently_wp:
  "batches_safe (hist w) \<Longrightarrow> wp (ship_silently env m) (\<lambda>r w'. batches_safe (hist w') \<and> set (hist w) \<subseteq> set (hist w') \<and>
     (r = None \<longrightarrow> accepted (payload m) (hist w'))) w"
  unfolding ship_silently_def accepted_def by (auto simp: wp_simps split: option.split)

lemma sqs_batch_wp:
  "batches_safe (hist w) \<Longrightarrow> wp (sqs_batch env msgs) (\<lambda>r w'. batches_safe (hist w') \<and> set (hist w) \<subseteq> set (hist w') \<and>
     (r = None \<longrightarrow> (\<forall>msg \<in> set msgs. accepted (TextPayload (Body msg)) (hist w')))) w"
proof (induction msgs arbitrary: w)
  case (Cons msg msgs)
  let ?t = "e_now env (hist w)"
  let ?w1 = "w\<lparr>hist := ENow ?t # hist w\<rparr>"
  have "wp (do { err \<leftarrow> ship_silently env (queue_message (Body msg) ?t);
         case err of Some e \<Rightarrow> ret (Some e) | None \<Rightarrow> sqs_batch env msgs })
      (\<lambda>r w'. batches_safe (hist w') \<and> set (hist w) \<subseteq> set (hist w') \<and>
        (r = None \<longrightarrow> (\<forall>m \<in> set (msg # msgs). accepted (TextPayload (Body m)) (hist w')))) ?w1"
  proof (rule wp_bindI [OF ship_silently_wp])
    show "batches_safe (hist ?w1)" using Cons.prems by simp
  next
    fix err :: "go_err option" and w2 :: "(sqs_query, sqs_answer) world"
    assume w2: "batches_safe (hist w2) \<and> set (hist ?w1) \<subseteq> set (hist w2) \<and>
      (err = None \<longrightarrow> accepted (payload (queue_message (Body msg) ?t)) (hist w2))"
    show "wp (case err of Some e \<Rightarrow> ret (Some e) | None \<Rightarrow> sqs_batch env msgs)
      (\<lambda>r w'. batches_safe (hist w') \<and> set (hist w) \<subseteq> set (hist w') \<and>
        (r = None \<longrightarrow> (\<forall>m \<in> set (msg # msgs). accepted (TextPayload (Body m)) (hist w')))) w2"
    proof (cases err)
      case None
      with w2 have "accepted (TextPayload (Body msg)) (hist w2)" by (simp add: queue_message_def)
      with w2 None show ?thesis
        by (auto intro!: wp_mono [OF Cons.IH [of w2]] elim: accepted_mono)
    qed (use w2 in \<open>auto simp: wp_simps\<close>)
  qed
  then show ?case by (simp add: sqs_processEvent_def wp_simps)
qed (simp add: wp_simps)

lemma sqs_receive_safe:
  "batches_safe (hist w) \<Longrightarrow> wp (sqs_receiveEvents env n) (\<lambda>_ w'. batches_safe (hist w')) w"
proof (induction n arbitrary: w)
  case (Suc n)
  have deletes: "wp (do { derr \<leftarrow> sqs_delete_batch env msgs;
       case derr of Some e \<Rightarrow> ret (Some e) | None \<Rightarrow> sqs_receiveEvents env n }) (\<lambda>_ w'. batches_safe (hist w')) v"
    if "batches_safe (hist v)" "batch_shipped (map delete_entry msgs) (hist v)" for msgs v
    using that Suc.IH by (auto simp: sqs_delete_batch_def wp_simps split: option.split)
  have batch: "wp (do { err \<leftarrow> sqs_batch env msgs;
       case err of
         Some e \<Rightarrow> ret (Some e)
       | None \<Rightarrow> do { derr \<leftarrow> sqs_delete_batch env msgs;
           case derr of Some e \<Rightarrow> ret (Some e) | None \<Rightarrow> sqs_receiveEvents env n } }) (\<lambda>_ w'. batches_safe (hist w')) v"
    if "batches_safe (hist v)" "ECall QReceive (RMessages (Inr msgs)) \<in> set (hist v)" for msgs v
    by (rule wp_bindI [OF sqs_batch_wp [OF that(1)]])
      (use that(2) in \<open>auto simp: wp_ret intro!: deletes batch_shippedI split: option.split\<close>)
  have received: "wp (case r of
         RMessages (Inl e) \<Rightarrow> do { onError (GoWrap s e); ret (Some e) }
       | RMessages (Inr msgs) \<Rightarrow>
           if msgs = [] then sqs_receiveEvents env n
           else do { err \<leftarrow> sqs_batch env msgs;
             case err of
               Some e \<Rightarrow> ret (Some e)
             | None \<Rightarrow> do { derr \<leftarrow> sqs_delete_batch env msgs;
                 case derr of Some e \<Rightarrow> ret (Some e) | None \<Rightarrow> sqs_receiveEvents env n } }
       | _ \<Rightarrow> ret None) (\<lambda>_ w'. batches_safe (hist w')) (v\<lparr>hist := ECall QReceive r # hist v\<rparr>)"
    if "batches_safe (hist v)" for r s v
    using that batch [of "v\<lparr>hist := ECall QReceive r # hist v\<rparr>"] Suc.IH
    by (auto simp: wp_if wp_ret wp_unit_ops wp_bind [of "onError _"] split: sqs_answer.split sum.split)
  from received [of "w\<lparr>hist := EWait 0 False # hist w, stop := False\<rparr>"] Suc.prems show ?case
    by (simp add: loadStop_def wp_simps)
qed (simp add: wp_simps)

text \<open>C5: the SQS adapter deletes a batch of messages only when the client has accepted the body of every message in
  it: a message that was not shipped stays in the queue.\<close>

theorem sqs_deletes_after_shipping:
  "batches_safe (hist (snd (run_state (sqs_receiveEvents env n) \<lparr>hist = [], stop = b\<rparr>)))"
  using sqs_receive_safe [of "\<lparr>hist = [], stop = b\<rparr>" env n] by (simp add: wp_def case_prod_beta)

text \<open>Pub/Sub: the last thing done with a message is to acknowledge it when it was accepted, and else to refuse it.\<close>

lemma pubsub_acks_iff_accepted:
  "wp (pubsub_processEvent env i data) (\<lambda>_ w'.
     (\<exists>m d r h. hist w' = ECall (QAck i) r # EShip m d None # h \<and> payload m = TextPayload data) \<or>
     (\<exists>e r h. hist w' = ECall (QNack i) r # EOnError e # h)) w"
  unfolding pubsub_processEvent_def ship_silently_def
  by (auto simp: wp_simps queue_message_def split: option.split)

section \<open>Workers that are gone\<close>

text \<open>The SQS files adapter can hang: a worker ends at its first failed download, and when all have ended the
  next file is never taken. With one worker, a message with two files whose first download fails blocks the receiver
  forever, before the message is deleted.\<close>

theorem sqsf_blocks_after_failed_download:
  assumes "sf_ParallelFetch c = 1" "\<not> sf_IsDecodeObjectKey c" "sf_Bucket c \<noteq> ''''" "\<not> stop w"
    and "\<And>h d. \<not> e_stop env h d"
    and "\<And>h. e_call env h QReceive = RMessages (Inr (msg # msgs))"
    and "\<And>h bk. e_call env h (QInitS3 bk) = RInit None"
    and "\<And>h p. e_call env h (QObject (sf_Bucket c) p) = RObject (Inl e)"
    and "lib_decode lib (Body msg) = Inr d" "ExpandableFindString (lib_um lib) d (sf_FilePath c) = p1 # p2 # ps"
  shows "\<exists>w'. run_state (sqsf_run env lib c (Suc n)) w = (SfBlocks, w') \<and>
    (\<forall>ids r. ECall (QDeleteBatch ids) r \<in> set (hist w') \<longrightarrow> ECall (QDeleteBatch ids) r \<in> set (hist w))"
proof -
  have "wp (sqsf_run env lib c (Suc n)) (\<lambda>r w'. r = SfBlocks \<and>
    (\<forall>ids r. ECall (QDeleteBatch ids) r \<in> set (hist w') \<longrightarrow> ECall (QDeleteBatch ids) r \<in> set (hist w))) w"
    using assms by (simp add: sqsf_run_def wp_simps loadStop_def sqsf_process_file_def Let_def)
  then show ?thesis by (auto simp: wp_def split: prod.splits)
qed

definition broken_downloads :: "sqs_query \<Rightarrow> sqs_answer" where
  "broken_downloads q =
     (case q of QReceive \<Rightarrow> RMessages (Inr [\<lparr>MessageId = ''m'', ReceiptHandle = ''h'', Body = ''b''\<rparr>])
      | QInitS3 _ \<Rightarrow> RInit None | QObject _ _ \<Rightarrow> RObject (Inl (GoErr ''reset'')) | QDeleteBatch _ \<Rightarrow> RDeleted (Inr []))"

definition demo_lib :: sqsf_lib where
  "demo_lib = \<lparr>lib_decode = \<lambda>_. Inr [(''p'', GList [GString ''x'', GString ''y''])], lib_um = no_json, lib_unescape = Inr,
     lib_gz = plain_gz, lib_to_json = Inr\<rparr>"

definition demo_sqsf :: sqsf_config where
  "demo_sqsf = \<lparr>sf_AccessKey = ''a'', sf_SecretKey = ''s'', sf_QueueURL = ''q'', sf_Region = ''r'', sf_ParallelFetch = 1,
     sf_BucketPath = ''bucket'', sf_FilePath = ''p/?'', sf_IsDecodeObjectKey = False, sf_Bucket = ''bk''\<rparr>"

lemma sqsf_blocks_after_failed_download_witness:
  "\<exists>w'. run_state (sqsf_run (steady_env 0 broken_downloads) demo_lib demo_sqsf 1) fresh_world = (SfBlocks, w')"
proof -
  have files: "ExpandableFindString (lib_um demo_lib) [(''p'', GList [GString ''x'', GString ''y''])] (sf_FilePath demo_sqsf) =
      ''x'' # ''y'' # []"
    by (simp add: demo_lib_def demo_sqsf_def, code_simp)
  show ?thesis
    using sqsf_blocks_after_failed_download [where env = "steady_env 0 broken_downloads" and c = demo_sqsf and lib = demo_lib
        and w = fresh_world and n = 0 and msg = "\<lparr>MessageId = ''m'', ReceiptHandle = ''h'', Body = ''b''\<rparr>" and msgs = "[]" and e = "GoErr ''reset''",
        OF _ _ _ _ _ _ _ _ _ files]
    by (auto simp: demo_sqsf_def broken_downloads_def demo_lib_def)
qed

end
