(* ===== verification/O365.thy ===== *)
theory O365
  imports Object_Store Dedup
begin

text \<open>
  \<open>o365/client.go\<close>. The adapter registers a subscription per content type and starts one fetcher for each. A
  fetcher lists the available contents page by page, downloads every content the deduper does not know and ships
  the events in it that the deduper does not know. The deduper is the interface \<open>utils.Deduper\<close> of the
  configuration, so its answers are calls of the environment; the record \<open>gjson\<close> has what the package of that name
  gives: the raw texts of the elements of a document and the string in the field \<open>Id\<close> of one.
\<close>

section \<open>Configuration\<close>

record listItem =
  ContentType :: string
  ContentID :: string
  ContentURI :: string
  ContentCreated :: string
  ContentExpiration :: string

definition o365_URL :: "string \<Rightarrow> string option" where
  "o365_URL = map_of
     [(''enterprise'', ''https://manage.office.com/api/v1.0/''),
      (''gcc-gov'', ''https://manage-gcc.office.com/api/v1.0/''),
      (''gcc-high-gov'', ''https://manage.office365.us/api/v1.0/''),
      (''dod-gov'', ''https://manage.protection.apps.mil/api/v1.0/'')]"

definition o365_TokenURL :: "string \<Rightarrow> string option" where
  "o365_TokenURL = map_of
     [(''enterprise'', ''https://login.windows.net/''),
      (''gcc-gov'', ''https://login.windows.net/''),
      (''gcc-high-gov'', ''https://login.microsoftonline.us/''),
      (''dod-gov'', ''https://login.microsoftonline.us/'')]"

definition o365_ResourceScope :: "string \<Rightarrow> string option" where
  "o365_ResourceScope = map_of
     [(''enterprise'', ''https://manage.office.com''),
      (''gcc-gov'', ''https://manage.office.com''),
      (''gcc-high-gov'', ''https://manage.office365.us''),
      (''dod-gov'', ''https://manage.protection.apps.mil'')]"

record o365_config =
  o_Domain :: string
  o_TenantID :: string
  o_PublisherID :: string
  o_ClientID :: string
  o_ClientSecret :: string
  o_Endpoint :: string
  o_ContentTypes :: string
  o_StartTime :: string

definition o365_Validate :: "go_err option \<Rightarrow> o365_config \<Rightarrow> go_err option" where
  "o365_Validate client_err c =
     (case client_err of
        Some e \<Rightarrow> Some (GoWrap ''client_options: %v'' e)
      | None \<Rightarrow>
          if o_Domain c = '''' then Some (GoErr ''missing domain'')
          else if o_TenantID c = '''' then Some (GoErr ''missing tenant_id'')
          else if o_PublisherID c = '''' then Some (GoErr ''missing publisher_id'')
          else if o_ClientID c = '''' then Some (GoErr ''missing client_id'')
          else if o_ClientSecret c = '''' then Some (GoErr ''missing client_secret'')
          else if o_Endpoint c = '''' then Some (GoErr ''missing endpoint'')
          else if \<not> has_prefix (o_Endpoint c) ''https://'' \<and> o365_URL (o_Endpoint c) = None
          then Some (GoErr ''invalid endpoint, not https or in %v'')
          else None)"

text \<open>The endpoint and its type.\<close>

definition o365_endpoint :: "o365_config \<Rightarrow> go_err + (string \<times> string)" where
  "o365_endpoint c =
     (if has_prefix (o_Endpoint c) ''https://'' then Inr (o_Endpoint c, ''custom'')
      else (case o365_URL (o_Endpoint c) of
              Some v \<Rightarrow> Inr (v, o_Endpoint c)
            | None \<Rightarrow> Inl (GoErr ''not a valid api endpoint: %s'')))"

text \<open>\<open>clientcredentials.Config\<close>: what the token requests are made with.\<close>

record credentials =
  cc_ClientID :: string
  cc_ClientSecret :: string
  cc_TokenURL :: string
  cc_Scopes :: "string list"
  cc_Resource :: "string list"

definition updateBearerToken :: "o365_config \<Rightarrow> string \<Rightarrow> credentials" where
  "updateBearerToken c endpointType =
     (let fallback = ''https://login.windows.net/'' @ o_Domain c @ ''/oauth2/token?api-version=1.0'';
          gov = (endpointType = ''gcc-high-gov'' \<or> endpointType = ''dod-gov'');
          (tokenURL, resourceScope) =
            (if endpointType = ''custom'' then (fallback, ''https://manage.office.com'')
             else (case o365_TokenURL endpointType of
                     Some baseTokenURL \<Rightarrow>
                       (if gov then baseTokenURL @ o_TenantID c @ ''/oauth2/v2.0/token''
                        else baseTokenURL @ o_Domain c @ ''/oauth2/token?api-version=1.0'',
                        case o365_ResourceScope endpointType of Some s \<Rightarrow> s | None \<Rightarrow> '''')
                   | None \<Rightarrow> (fallback, ''https://manage.office.com'')))
      in \<lparr>cc_ClientID = o_ClientID c, cc_ClientSecret = o_ClientSecret c, cc_TokenURL = tokenURL,
          cc_Scopes = (if gov then [resourceScope @ ''/.default''] else []),
          cc_Resource = (if gov then [] else [resourceScope])\<rparr>)"

section \<open>Requests\<close>

text \<open>
  The calls of the environment: the deduper and the three kinds of requests. The answer to a listing comes with
  the header \<open>NextPageUri\<close>, the one to a registration with the text of the body.
\<close>

datatype o365_query =
    QSeen string
  | QCloseDeduper
  | QRegister string
  | QListing "part list"
  | QContent string

datatype o365_answer =
    RSeen bool
  | RClosed
  | RRegister "dict http" string
  | RListing "listItem list http" string
  | RContent "string http"

type_synonym 'a o365_io = "(o365_query, o365_answer, 'a) io"
type_synonym o365_env = "(o365_query, o365_answer) env"

definition o365_seen :: "o365_env \<Rightarrow> string \<Rightarrow> bool o365_io" where
  "o365_seen env k = do { r \<leftarrow> call env (QSeen k); ret (r = RSeen True) }"

definition o365_Close :: "o365_env \<Rightarrow> go_err option o365_io" where
  "o365_Close env = do {
     setStop;
     err1 \<leftarrow> drain env (1 * minute);
     err2 \<leftarrow> closeClient env;
     call env QCloseDeduper;
     ret (case err1 of Some e \<Rightarrow> Some e | None \<Rightarrow> err2)
   }"

definition o365_register :: "o365_env \<Rightarrow> string \<Rightarrow> (go_err + dict) o365_io" where
  "o365_register env uri = do {
     r \<leftarrow> call env (QRegister uri);
     case r of
       RRegister (NewRequestErr e) _ \<Rightarrow> do { setStop; onError (GoWrap ''http.NewRequest(): %v'' e); ret (Inl e) }
     | RRegister (DoErr e) _ \<Rightarrow> do { onError (GoWrap ''http.Client.Do(): %v'' e); ret (Inl e) }
     | RRegister (Resp st _ d) text \<Rightarrow>
         if st = 400 \<and> contains text ''already enabled'' then ret (Inr [])
         else if st \<noteq> 200 then do {
           onError (GoErr ''office365 start api non-200: %s'');
           ret (Inl (GoErr ''resp.Status''))
         }
         else (case d of
                 Inl e \<Rightarrow> do {
                   onError (GoWrap ''office365 start api invalid json: %v (%s)'' e);
                   ret (Inl (GoWrap ''office365 start api invalid json: %v (%s)'' e))
                 }
               | Inr respData \<Rightarrow> ret (Inr respData))
     | _ \<Rightarrow> ret (Inl (GoErr ''''))
   }"

text \<open>
  The loop that a listing and a content request share. It ends with nothing, with the URL to be asked again
  after the retries of a status 503 or 504, or with an answer. \<open>None\<close> is the end of the fuel. The factor of the
  delay is exact: one second times powers of 3/2 stays a whole number of nanoseconds below the cap.
\<close>

datatype 'b o365_outcome = Gives_up | Exhausted | Answered nat "go_err + 'b"

definition maxRetryDuration :: duration where "maxRetryDuration = 5 * minute"
definition initialDelay :: duration where "initialDelay = 1 * second"
definition maxDelay :: duration where "maxDelay = 30 * second"

definition next_delay :: "duration \<Rightarrow> duration" where
  "next_delay delay = (let d = delay * 3 div 2 in if d > maxDelay then maxDelay else d)"

definition o365_may_retry :: "o365_env \<Rightarrow> time \<Rightarrow> bool o365_io" where
  "o365_may_retry env startTime = do {
     t \<leftarrow> now env;
     if t - startTime < maxRetryDuration then do { stopped \<leftarrow> loadStop env; ret (\<not> stopped) }
     else ret False
   }"

fun o365_attempts :: "o365_env \<Rightarrow> 'b http o365_io \<Rightarrow> time \<Rightarrow> nat \<Rightarrow> duration \<Rightarrow> 'b o365_outcome option o365_io" where
  "o365_attempts env send startTime 0 delay = ret None"
| "o365_attempts env send startTime (Suc fuel) delay = do {
     stopped \<leftarrow> loadStop env;
     if stopped then ret (Some Gives_up)
     else do {
       r \<leftarrow> send;
       (case r of
          NewRequestErr e \<Rightarrow> do { setStop; onError (GoWrap ''http.NewRequest(): %v'' e); ret (Some Gives_up) }
        | DoErr e \<Rightarrow> do {
            again \<leftarrow> o365_may_retry env startTime;
            if again then do {
              onWarning ''HTTP request failed, retrying in %v: %v'';
              woken \<leftarrow> waitFor env delay;
              if \<not> woken then ret (Some Gives_up)
              else o365_attempts env send startTime fuel (next_delay delay)
            } else do { onError (GoWrap ''http.Client.Do(): %v'' e); ret (Some Gives_up) }
          }
        | Resp st (Some e) d \<Rightarrow> do {
            again \<leftarrow> o365_may_retry env startTime;
            if again then do {
              onWarning ''Failed to read response body, retrying in %v: %v'';
              woken \<leftarrow> waitFor env delay;
              if \<not> woken then ret (Some Gives_up)
              else o365_attempts env send startTime fuel (next_delay delay)
            } else do { onError (GoWrap ''failed to read response body: %v'' e); ret (Some Gives_up) }
          }
        | Resp st None d \<Rightarrow>
            if st = 503 \<or> st = 504 then do {
              again \<leftarrow> o365_may_retry env startTime;
              if again then do {
                onWarning ''office365 api %d, retrying in %v: %s'';
                woken \<leftarrow> waitFor env delay;
                if \<not> woken then ret (Some Gives_up)
                else o365_attempts env send startTime fuel (next_delay delay)
              } else do { onError (GoErr ''office365 api %d after retries: %s''); ret (Some Exhausted) }
            }
            else ret (Some (Answered st d)))
     }
   }"

text \<open>Two turns are all the loop ever makes, as \<open>o365_attempts_two\<close> below shows.\<close>

definition o365_fuel :: nat where "o365_fuel = 2"

text \<open>A page is the list of parts of its URL; no page is the empty list.\<close>

definition page_of :: "string \<Rightarrow> part list" where
  "page_of s = (if s = '''' then [] else [Lit s])"

definition o365_send_listing :: "o365_env \<Rightarrow> part list \<Rightarrow> (listItem list \<times> string) http o365_io" where
  "o365_send_listing env uri = do {
     r \<leftarrow> call env (QListing uri);
     ret (case r of
            RListing (NewRequestErr e) _ \<Rightarrow> NewRequestErr e
          | RListing (DoErr e) _ \<Rightarrow> DoErr e
          | RListing (Resp st re d) nextPage \<Rightarrow> Resp st re (map_sum id (\<lambda>items. (items, nextPage)) d)
          | _ \<Rightarrow> DoErr (GoErr ''''))
   }"

definition o365_send_content :: "o365_env \<Rightarrow> string \<Rightarrow> string http o365_io" where
  "o365_send_content env uri = do {
     r \<leftarrow> call env (QContent uri);
     ret (case r of RContent a \<Rightarrow> a | _ \<Rightarrow> DoErr (GoErr ''''))
   }"

definition makeOneListRequest :: "o365_env \<Rightarrow> part list \<Rightarrow> (listItem list \<times> part list) o365_io" where
  "makeOneListRequest env uri = do {
     startTime \<leftarrow> now env;
     r \<leftarrow> o365_attempts env (o365_send_listing env uri) startTime o365_fuel initialDelay;
     case r of
       Some (Answered st d) \<Rightarrow>
         if st \<noteq> 200 then do { onError (GoErr ''office365 list api non-200: %s''); ret ([], uri) }
         else (case d of
                 Inl e \<Rightarrow> do { onError (GoWrap ''office365 list api invalid json: %v'' e); ret ([], []) }
               | Inr (respData, nextPage) \<Rightarrow> ret (respData, page_of nextPage))
     | Some Exhausted \<Rightarrow> ret ([], uri)
     | _ \<Rightarrow> ret ([], [])
   }"

definition makeOneContentRequest :: "o365_env \<Rightarrow> string \<Rightarrow> string o365_io" where
  "makeOneContentRequest env uri = do {
     startTime \<leftarrow> now env;
     r \<leftarrow> o365_attempts env (o365_send_content env uri) startTime o365_fuel initialDelay;
     case r of
       Some (Answered st d) \<Rightarrow>
         if st \<noteq> 200 then do { onError (GoErr ''office365 content api non-200: %s''); ret '''' }
         else (case d of Inl e \<Rightarrow> ret '''' | Inr bytes \<Rightarrow> ret bytes)
     | _ \<Rightarrow> ret ''''
   }"

section \<open>Fetching\<close>

record gjson =
  elements :: "string \<Rightarrow> string list"
  get_Id :: "string \<Rightarrow> string"

text \<open>The callback of \<open>ForEach\<close>: a failed \<open>Ship\<close> sets the stop event and the iteration goes on.\<close>

definition o365_event :: "o365_env \<Rightarrow> gjson \<Rightarrow> string \<Rightarrow> unit o365_io" where
  "o365_event env g raw = do {
     let ID = get_Id g raw;
     dup \<leftarrow> (if ID \<noteq> '''' then o365_seen env ID else ret False);
     if dup then ret ()
     else do {
       t \<leftarrow> now env;
       ship_or_stop env \<lparr>payload = TextPayload raw, TimestampMs = stamp_ms t, EventType = ''''\<rparr>;
       ret ()
     }
   }"

fun o365_events :: "o365_env \<Rightarrow> gjson \<Rightarrow> string list \<Rightarrow> unit o365_io" where
  "o365_events env g [] = ret ()"
| "o365_events env g (event # events) = do { o365_event env g event; o365_events env g events }"

definition o365_item :: "o365_env \<Rightarrow> gjson \<Rightarrow> listItem \<Rightarrow> unit o365_io" where
  "o365_item env g item = do {
     dup \<leftarrow> o365_seen env (ContentID item);
     if dup then ret ()
     else do {
       events \<leftarrow> makeOneContentRequest env (ContentURI item);
       if events = '''' then ret () else o365_events env g (elements g events)
     }
   }"

fun o365_items :: "o365_env \<Rightarrow> gjson \<Rightarrow> listItem list \<Rightarrow> unit o365_io" where
  "o365_items env g [] = ret ()"
| "o365_items env g (item # items) = do { o365_item env g item; o365_items env g items }"

definition o365_layout :: string where "o365_layout = ''2006-01-02T15:04:05''"

text \<open>The condition of the loop and the URL of the page to ask for.\<close>

definition o365_goes_on :: "o365_env \<Rightarrow> bool \<Rightarrow> part list \<Rightarrow> bool o365_io" where
  "o365_goes_on env isFirstRun nextPage =
     (if isFirstRun then ret True
      else do {
        stopped \<leftarrow> (if nextPage \<noteq> [] then loadStop env else ret True);
        if \<not> stopped then ret True
        else do { woken \<leftarrow> waitFor env (5 * minute); ret (\<not> woken) }
      })"

definition o365_page :: "o365_env \<Rightarrow> o365_config \<Rightarrow> string \<Rightarrow> bool \<Rightarrow> part list \<Rightarrow> part list o365_io" where
  "o365_page env c uri isFirstRun nextPage =
     (if nextPage \<noteq> [] then ret nextPage
      else do {
        t \<leftarrow> now env;
        let start = (if \<not> isFirstRun \<or> o_StartTime c = '''' then Layout o365_layout (t - 3 * hour) else Lit (o_StartTime c));
        ret [Lit uri, Lit ''&startTime='', start, Lit ''&endTime='', Layout o365_layout t]
      })"

fun o365_loop ::
    "o365_env \<Rightarrow> gjson \<Rightarrow> o365_config \<Rightarrow> string \<Rightarrow> nat \<Rightarrow> bool \<Rightarrow> part list \<Rightarrow> unit o365_io" where
  "o365_loop env g c uri 0 isFirstRun nextPage = ret ()"
| "o365_loop env g c uri (Suc n) isFirstRun nextPage = do {
     go \<leftarrow> o365_goes_on env isFirstRun nextPage;
     if \<not> go then ret ()
     else do {
       page \<leftarrow> o365_page env c uri isFirstRun nextPage;
       (items, next) \<leftarrow> makeOneListRequest env page;
       o365_items env g items;
       o365_loop env g c uri n False next
     }
   }"

definition o365_fetchEvents ::
    "o365_env \<Rightarrow> gjson \<Rightarrow> o365_config \<Rightarrow> string \<Rightarrow> nat \<Rightarrow> unit o365_io" where
  "o365_fetchEvents env g c uri n = o365_loop env g c uri n True []"

section \<open>Starting\<close>

definition o365_defaultTypes :: string where
  "o365_defaultTypes = ''Audit.AzureActiveDirectory,Audit.Exchange,Audit.SharePoint,Audit.General,DLP.All''"

text \<open>
  The loop over the content types; the result is the URLs of the fetchers that were started, or the error after
  the adapter was closed.
\<close>

fun o365_subscribe :: "o365_env \<Rightarrow> o365_config \<Rightarrow> string \<Rightarrow> string list \<Rightarrow> string list \<Rightarrow> (go_err + string list) o365_io" where
  "o365_subscribe env c endpoint [] started = ret (Inr started)"
| "o365_subscribe env c endpoint (ct0 # cts) started =
     (let ct = trim_space ct0;
          feed = endpoint @ o_TenantID c @ ''/activity/feed/subscriptions/'';
          args = ''?contentType='' @ ct @ ''&PublisherIdentifier='' @ o_PublisherID c
      in if ct = '''' then o365_subscribe env c endpoint cts started
         else do {
           r \<leftarrow> o365_register env (feed @ ''start'' @ args);
           case r of
             Inl e \<Rightarrow> do {
               onError (GoWrap ''failed to register subscription to %s: %v'' e);
               o365_Close env;
               ret (Inl (GoWrap ''failed to register subscription to %s: %v'' e))
             }
           | Inr sub \<Rightarrow> o365_subscribe env c endpoint cts (started @ [feed @ ''content'' @ args])
         })"

definition NewOffice365Adapter :: "o365_env \<Rightarrow> go_err option \<Rightarrow> o365_config \<Rightarrow> (go_err + (credentials \<times> string list)) o365_io" where
  "NewOffice365Adapter env client_err c =
     (case o365_endpoint c of
        Inl e \<Rightarrow> ret (Inl e)
      | Inr (endpoint, endpointType) \<Rightarrow>
          (case client_err of
             Some e \<Rightarrow> ret (Inl e)
           | None \<Rightarrow> do {
               r \<leftarrow> o365_subscribe env c endpoint
                 (split_char CHR '','' (if o_ContentTypes c = '''' then o365_defaultTypes else o_ContentTypes c)) [];
               case r of
                 Inl e \<Rightarrow> ret (Inl e)
               | Inr started \<Rightarrow>
                   if started = [] then do { o365_Close env; ret (Inl (GoErr ''no content types specified'')) }
                   else ret (Inr (updateBearerToken c endpointType, started))
             }))"

section \<open>One attempt\<close>

text \<open>The requests for listings and contents in a history, and the keys the deduper was asked for.\<close>

fun is_request :: "(o365_query, o365_answer) eff \<Rightarrow> bool" where
  "is_request (ECall (QListing u) r) = True"
| "is_request (ECall (QContent u) r) = True"
| "is_request _ = False"

definition requests :: "(o365_query, o365_answer) history \<Rightarrow> nat" where
  "requests h = length (filter is_request h)"

lemma requests_simps [simp]:
  "requests [] = 0" "requests (e # h) = (if is_request e then Suc (requests h) else requests h)"
  by (simp_all add: requests_def)

text \<open>A retry needs the stop event to be set, and then the next turn of the loop gives up.\<close>

lemma o365_attempts_stopped:
  "stop w \<Longrightarrow> wp (o365_attempts env send t (Suc fuel) d) (\<lambda>r w'. r = Some Gives_up \<and> requests (hist w') = requests (hist w)) w"
  by (simp add: wp_simps loadStop_def)

lemma o365_attempts_two:
  assumes "\<And>w. wp send (\<lambda>r w'. requests (hist w') \<le> Suc (requests (hist w))) w"
  shows "wp (o365_attempts env send t (Suc (Suc fuel)) d)
    (\<lambda>r w'. (\<exists>x. r = Some x) \<and> requests (hist w') \<le> Suc (requests (hist w))) w"
proof -
  let ?Q = "\<lambda>r w'. (\<exists>x. r = Some x) \<and> requests (hist w') \<le> Suc (requests (hist w))"
  have stopped: "wp (o365_attempts env send t (Suc fuel) d') ?Q v"
    if "stop v" "requests (hist v) \<le> Suc (requests (hist w))" for v d'
    by (rule wp_mono [OF o365_attempts_stopped [OF that(1)]]) (use that(2) in auto)
  show ?thesis
    unfolding o365_attempts.simps(2) [of env send t "Suc fuel"]
    by (auto intro!: wp_mono [OF assms] stopped simp: wp_simps loadStop_def o365_may_retry_def simp del: o365_attempts.simps
        split: http.split option.split)
qed

lemma o365_send_requests:
  "wp (o365_send_listing env uri) (\<lambda>r w'. requests (hist w') \<le> Suc (requests (hist w))) w"
  "wp (o365_send_content env u) (\<lambda>r w'. requests (hist w') \<le> Suc (requests (hist w))) w"
  by (simp_all add: o365_send_listing_def o365_send_content_def wp_simps)

lemmas o365_tries = o365_attempts_two [OF o365_send_requests(1), where fuel = 0] o365_attempts_two [OF o365_send_requests(2), where fuel = 0]

lemma o365_one_list: "wp (makeOneListRequest env uri) (\<lambda>r w'. requests (hist w') \<le> Suc (requests (hist w))) w"
  unfolding makeOneListRequest_def o365_fuel_def numeral_2_eq_2 wp_bind wp_now
  by (rule wp_mono [OF o365_tries(1)]) (auto simp: wp_simps split: option.split o365_outcome.split sum.split)

lemma o365_one_content: "wp (makeOneContentRequest env u) (\<lambda>r w'. requests (hist w') \<le> Suc (requests (hist w))) w"
  unfolding makeOneContentRequest_def o365_fuel_def numeral_2_eq_2 wp_bind wp_now
  by (rule wp_mono [OF o365_tries(2)]) (auto simp: wp_simps split: option.split o365_outcome.split sum.split)

text \<open>The retries of the Office 365 adapter never happen. Whatever the service answers and however the waits end, one
  call of \<open>makeOneListRequest\<close> or \<open>makeOneContentRequest\<close> sends at most one request: the wait before a retry returns
  false when its time has passed, which the loop takes for a stop.\<close>

theorem o365_never_retries:
  "requests (hist (snd (run_state (makeOneListRequest env uri) w))) \<le> requests (hist w) + 1 \<and>
   requests (hist (snd (run_state (makeOneContentRequest env u) w))) \<le> requests (hist w) + 1"
  using o365_one_list [of env uri w] o365_one_content [of env u w] by (simp add: wp_def case_prod_beta)

section \<open>Deduplication\<close>

definition asked :: "string \<Rightarrow> (o365_query, o365_answer) history \<Rightarrow> bool" where
  "asked k h \<longleftrightarrow> (\<exists>r. ECall (QSeen k) r \<in> set h)"

lemma asked_mono: "asked k h \<Longrightarrow> asked k (h' @ h)"
  by (auto simp: asked_def)

text \<open>What the adapter relies on while no key expires: a key that was asked for is a duplicate.\<close>

definition remembers :: "o365_env \<Rightarrow> bool" where
  "remembers env \<longleftrightarrow> (\<forall>h k. asked k h \<longrightarrow> e_call env h (QSeen k) = RSeen True)"

text \<open>The identifiers of the delivered events, those without one left out.\<close>

definition delivered_ids :: "gjson \<Rightarrow> (o365_query, o365_answer) history \<Rightarrow> string list" where
  "delivered_ids g h = filter (\<lambda>i. i \<noteq> '''')
     (concat (map (\<lambda>p. case p of TextPayload raw \<Rightarrow> [get_Id g raw] | _ \<Rightarrow> []) (delivered h)))"

definition ids_ok :: "gjson \<Rightarrow> (o365_query, o365_answer) world \<Rightarrow> bool" where
  "ids_ok g w \<longleftrightarrow> distinct (delivered_ids g (hist w)) \<and> (\<forall>i \<in> set (delivered_ids g (hist w)). asked i (hist w))"

lemma ids_ok_adds: "ids_ok g w \<Longrightarrow> adds w [] as w' \<Longrightarrow> ids_ok g w'"
  unfolding ids_ok_def adds_def delivered_ids_def by (clarsimp simp: asked_def) blast

lemma ids_ok_quiet: "quiet_io m \<Longrightarrow> ids_ok g w \<Longrightarrow> wp m (\<lambda>_ w'. ids_ok g w') w"
  by (rule wpI) (drule quiet_ioD, assumption, erule ids_ok_adds, assumption)

lemma quiet_attempts: "quiet_io send \<Longrightarrow> quiet_io (o365_attempts env send t fuel d)"
  by (induction fuel arbitrary: d) (auto simp: loadStop_def o365_may_retry_def split: http.split option.split)

lemma quiet_o365 [simp, intro!]:
  "quiet_io (makeOneListRequest env uri)" "quiet_io (makeOneContentRequest env u)" "quiet_io (o365_goes_on env f p)"
  "quiet_io (o365_page env c u f p)" "quiet_io (o365_seen env k)"
  unfolding makeOneListRequest_def makeOneContentRequest_def o365_send_listing_def o365_send_content_def
    o365_goes_on_def o365_page_def o365_seen_def loadStop_def Let_def
  by (auto intro!: quiet_attempts split: option.split o365_outcome.split sum.split)

text \<open>An event with an identifier is shipped right after the deduper called it new.\<close>

lemma delivered_ids_adds:
  "adds w ps as w' \<Longrightarrow> delivered_ids g (hist w') = delivered_ids g (hist w) @
     filter (\<lambda>i. i \<noteq> '''') (concat (map (\<lambda>p. case p of TextPayload raw \<Rightarrow> [get_Id g raw] | _ \<Rightarrow> []) ps))"
  by (simp add: adds_def delivered_ids_def)

lemma ids_ok_ship:
  assumes "ids_ok g w" "payload m = TextPayload raw"
    and "get_Id g raw \<noteq> '''' \<longrightarrow> asked (get_Id g raw) (hist w) \<and> get_Id g raw \<notin> set (delivered_ids g (hist w))"
  shows "wp (ship_or_stop env m) (\<lambda>_ w'. ids_ok g w') w"
proof (rule wp_ship_or_stop)
  fix w' as assume a: "adds w [payload m] as w'" "stop w' = stop w"
  obtain h where "hist w' = h @ hist w" using a(1) by (auto simp: adds_def)
  then show "ids_ok g w'"
    using assms delivered_ids_adds [OF a(1), of g] by (auto simp: ids_ok_def asked_mono)
qed (use assms(1) ids_ok_adds in blast)

lemma ids_ok_event:
  assumes "remembers env" "ids_ok g w"
  shows "wp (o365_event env g raw) (\<lambda>_ w'. ids_ok g w') w"
proof (cases "get_Id g raw = ''''")
  case True
  with assms(2) show ?thesis
    unfolding o365_event_def Let_def
    by (auto simp: wp_simps intro!: wp_mono [OF ids_ok_ship [where raw = raw]] ids_ok_adds [OF assms(2), where as = "[]"]
        simp: adds_def)
next
  case False
  let ?id = "get_Id g raw" and ?r = "e_call env (hist w) (QSeen (get_Id g raw))"
  show ?thesis
  proof (cases "?r = RSeen True")
    case True
    with False show ?thesis
      unfolding o365_event_def Let_def o365_seen_def
      by (auto simp: wp_simps intro!: ids_ok_adds [OF assms(2), where as = "[]"] simp: adds_def)
  next
    case new: False
    let ?t = "e_now env (ECall (QSeen ?id) ?r # hist w)"
    let ?w1 = "w\<lparr>hist := ENow ?t # ECall (QSeen ?id) ?r # hist w\<rparr>"
    have "\<not> asked ?id (hist w)" using new assms(1) by (auto simp: remembers_def)
    then have "?id \<notin> set (delivered_ids g (hist w))" using assms(2) by (auto simp: ids_ok_def)
    moreover have "delivered_ids g (hist ?w1) = delivered_ids g (hist w)" by (simp add: delivered_ids_def)
    moreover have "asked ?id (hist ?w1)" by (auto simp: asked_def)
    moreover have "ids_ok g ?w1" by (rule ids_ok_adds [OF assms(2), where as = "[]"]) (simp add: adds_def)
    ultimately show ?thesis
      using False new unfolding o365_event_def Let_def o365_seen_def
      by (auto simp: wp_simps intro!: wp_mono [OF ids_ok_ship [where raw = raw]])
  qed
qed

lemma ids_ok_events:
  "remembers env \<Longrightarrow> ids_ok g w \<Longrightarrow> wp (o365_events env g events) (\<lambda>_ w'. ids_ok g w') w"
  by (induction events arbitrary: w) (auto simp: wp_simps intro: wp_mono [OF ids_ok_event])

lemma ids_ok_item:
  assumes "remembers env" "ids_ok g w"
  shows "wp (o365_item env g item) (\<lambda>_ w'. ids_ok g w') w"
  unfolding o365_item_def
  by (rule wp_bindI [OF ids_ok_quiet [OF _ assms(2)]], simp)
    (auto simp: wp_simps intro!: wp_mono [OF ids_ok_quiet [OF quiet_o365(2)]] ids_ok_events [OF assms(1)])

lemma ids_ok_items:
  "remembers env \<Longrightarrow> ids_ok g w \<Longrightarrow> wp (o365_items env g items) (\<lambda>_ w'. ids_ok g w') w"
  by (induction items arbitrary: w) (auto simp: wp_simps intro: wp_mono [OF ids_ok_item])

lemma ids_ok_loop:
  assumes "remembers env"
  shows "ids_ok g w \<Longrightarrow> wp (o365_loop env g c uri n f p) (\<lambda>_ w'. ids_ok g w') w"
proof (induction n arbitrary: f p w)
  case (Suc n)
  then show ?case
    by (auto simp: wp_simps intro!: wp_mono [OF ids_ok_quiet [OF quiet_o365(1)]] wp_mono [OF ids_ok_quiet [OF quiet_o365(3)]]
        wp_mono [OF ids_ok_quiet [OF quiet_o365(4)]] wp_mono [OF ids_ok_items [OF assms]])
qed (simp add: wp_simps)

text \<open>C9: while the deduper forgets nothing, a fetcher delivers no two events with the same identifier, over any number
  of turns and whatever the service lists, in whatever way its pages and contents overlap.\<close>

theorem o365_delivers_once:
  assumes "remembers env" "hist w = []"
  shows "distinct (delivered_ids g (hist (snd (run_state (o365_fetchEvents env g c uri n) w))))"
proof -
  have "ids_ok g w" using assms(2) by (simp add: ids_ok_def delivered_ids_def)
  from ids_ok_loop [OF assms(1) this] show ?thesis
    unfolding o365_fetchEvents_def by (auto simp: wp_def case_prod_beta ids_ok_def)
qed

section \<open>What is lost and what is repeated\<close>

lemma grows_events [simp, intro!]: "grows (o365_events env g events)"
  by (induction events) (auto simp: o365_event_def Let_def intro: grows_quiet)

lemma o365_item_asks: "wp (o365_item env g item) (\<lambda>_ w'. asked (ContentID item) (hist w')) w"
proof -
  let ?r = "e_call env (hist w) (QSeen (ContentID item))"
  let ?w1 = "w\<lparr>hist := ECall (QSeen (ContentID item)) ?r # hist w\<rparr>"
  have g: "grows (do { events \<leftarrow> makeOneContentRequest env (ContentURI item);
      if events = '''' then ret () else o365_events env g (elements g events) })"
    by (auto intro: grows_quiet)
  have "wp (do { events \<leftarrow> makeOneContentRequest env (ContentURI item);
      if events = '''' then ret () else o365_events env g (elements g events) })
      (\<lambda>_ w'. asked (ContentID item) (hist w')) ?w1"
    by (rule grows_wp [OF g]) (auto simp: asked_def)
  then show ?thesis
    unfolding o365_item_def o365_seen_def by (auto simp: wp_simps asked_def)
qed

text \<open>A content is tried once: after the adapter has looked at it, whatever became of its one request, no later
  listing of it leads to a request or a delivery while the deduper remembers it. A content whose request failed is
  lost.\<close>

theorem o365_content_tried_once:
  assumes "remembers env" "run_state (o365_item env g item) w = ((), w1)"
    and "hist w2 = later @ hist w1" "ContentID item' = ContentID item"
  shows "\<exists>w3. run_state (o365_item env g item') w2 = ((), w3) \<and>
    requests (hist w3) = requests (hist w2) \<and> delivered (hist w3) = delivered (hist w2)"
proof -
  have "asked (ContentID item) (hist w2)" using o365_item_asks [of env g item w] assms(2,3) by (auto simp: wp_def asked_mono)
  with assms(1,4) have "e_call env (hist w2) (QSeen (ContentID item')) = RSeen True" by (simp add: remembers_def)
  then show ?thesis by (simp add: o365_item_def o365_seen_def run_simps)
qed

text \<open>The waits of the adapter that take time.\<close>

definition long_waits :: "(o365_query, o365_answer) history \<Rightarrow> nat" where
  "long_waits h = length (filter (\<lambda>e. case e of EWait d b \<Rightarrow> d > 0 | _ \<Rightarrow> False) h)"

lemma long_waits_simps [simp]:
  "long_waits [] = 0" "long_waits (EWait d b # h) = (if d > 0 then Suc (long_waits h) else long_waits h)"
  "long_waits (ENow t # h) = long_waits h" "long_waits (ECall q r # h) = long_waits h"
  "long_waits (EOnError e # h) = long_waits h"
  by (simp_all add: long_waits_def)

lemma o365_refused:
  assumes "\<And>h d. \<not> e_stop env h d" "\<And>h u. \<exists>d s. e_call env h (QListing u) = RListing (Resp st None d) s"
    and "st \<notin> {200, 503, 504}" "\<not> stop w"
  shows "wp (makeOneListRequest env uri) (\<lambda>r w'. r = ([], uri) \<and> \<not> stop w' \<and>
    requests (hist w') = Suc (requests (hist w)) \<and> long_waits (hist w') = long_waits (hist w)) w"
proof -
  let ?h = "EWait 0 False # ENow (e_now env (hist w)) # hist w"
  obtain d s where "e_call env ?h (QListing uri) = RListing (Resp st None d) s" using assms(2) by blast
  with assms show ?thesis
    by (simp add: makeOneListRequest_def o365_fuel_def numeral_2_eq_2 wp_simps loadStop_def o365_send_listing_def)
qed

lemma o365_hot_turns:
  assumes "\<And>h d. \<not> e_stop env h d" "\<And>h u. \<exists>d s. e_call env h (QListing u) = RListing (Resp st None d) s"
    and "st \<notin> {200, 503, 504}"
  shows "\<not> stop w \<Longrightarrow> f \<or> p \<noteq> [] \<Longrightarrow> wp (o365_loop env g c uri n f p)
    (\<lambda>_ w'. requests (hist w') = n + requests (hist w) \<and> long_waits (hist w') = long_waits (hist w)) w"
proof (induction n arbitrary: f p w)
  case (Suc n)
  have turn: "wp (do { (items, next) \<leftarrow> makeOneListRequest env page; o365_items env g items; o365_loop env g c uri n False next })
      (\<lambda>_ w'. requests (hist w') = Suc (n + requests (hist w)) \<and> long_waits (hist w') = long_waits (hist w)) v"
    if "\<not> stop v" "page \<noteq> []" "requests (hist v) = requests (hist w)" "long_waits (hist v) = long_waits (hist w)" for v page
    by (rule wp_bindI [OF o365_refused [OF assms that(1)]]) (use that in \<open>auto simp: wp_simps intro!: wp_mono [OF Suc.IH]\<close>)
  show ?case
  proof (cases "p = []")
    case True
    with Suc.prems show ?thesis
      by (simp add: o365_goes_on_def o365_page_def Let_def wp_bind [of "now env"] wp_now)
        (intro conjI impI; rule turn; simp)
  next
    case False
    let ?w1 = "w\<lparr>hist := EWait 0 False # hist w, stop := False\<rparr>"
    show ?thesis
    proof (cases f)
      case True
      with False turn [OF Suc.prems(1) False] show ?thesis by (simp add: o365_goes_on_def o365_page_def)
    next
      case nf: False
      have "wp (o365_loop env g c uri (Suc n) f p) Q w \<longleftrightarrow> wp (do { (items, next) \<leftarrow> makeOneListRequest env p;
          o365_items env g items; o365_loop env g c uri n False next }) Q ?w1" for Q
        using False nf Suc.prems(1) assms(1)
        by (simp add: o365_goes_on_def o365_page_def loadStop_def wp_bind [of "waitFor env 0"] wp_stop_ops)
      with turn [of ?w1 p] False show ?thesis by simp
    qed
  qed
qed (simp add: wp_simps)

text \<open>While the service refuses a listing with a status such as 401 or 429, the fetcher sends the same request again
  and again without any wait: \<open>n\<close> turns send \<open>n\<close> requests and wait no time.\<close>

theorem o365_hot_loop:
  assumes "\<And>h d. \<not> e_stop env h d" "\<And>h u. \<exists>d s. e_call env h (QListing u) = RListing (Resp st None d) s"
    and "st \<notin> {200, 503, 504}" "\<not> stop w" "hist w = []"
  shows "requests (hist (snd (run_state (o365_fetchEvents env g c uri n) w))) = n \<and>
    long_waits (hist (snd (run_state (o365_fetchEvents env g c uri n) w))) = 0"
  using o365_hot_turns [OF assms(1,2,3,4), of True "[]" g c uri n] assms(5)
  by (simp add: o365_fetchEvents_def wp_def case_prod_beta)

section \<open>The local deduper behind the interface\<close>

text \<open>The state of a local deduper after the questions of a history, oldest first, no rotation in between.\<close>

fun questions :: "(o365_query, o365_answer) history \<Rightarrow> dedup_op list" where
  "questions [] = []"
| "questions (ECall (QSeen k) r # h) = questions h @ [Check k]"
| "questions (_ # h) = questions h"

definition local_answer :: "localDeduper \<Rightarrow> (o365_query, o365_answer) history \<Rightarrow> string \<Rightarrow> bool outcome" where
  "local_answer d h k = bind_outcome (buckets.exec (questions h) d) (\<lambda>d'. bind_outcome (CheckAndAdd d' k) (\<lambda>(_, b). Returns b))"

lemma new_deduper_empty:
  assumes "NewLocalDeduper w t = Returns d"
  shows "key_age d k = None"
proof -
  have "bucket d i = []" if "i < nBuckets d" for i
    using assms that by (auto simp: NewLocalDeduper_def Let_def bucket_def nth_list_update split: if_splits option.split)
  then show ?thesis
    using known_iff [OF NewLocalDeduper_inv [OF assms], of k] by (auto simp: list_ex_iff)
qed

lemma questions_asked: "asked k h \<Longrightarrow> Check k \<in> set (questions h)"
  by (induction h rule: questions.induct) (auto simp: asked_def)

lemma questions_no_tick: "buckets.ticks (questions h) = 0"
  by (induction h rule: questions.induct) (auto simp: buckets.ticks_def)

lemma local_remembers:
  assumes d: "NewLocalDeduper w t = Returns d" and "asked k h"
  shows "local_answer d h k = Returns True"
proof -
  note inv = NewLocalDeduper_inv [OF d]
  obtain d' where d': "buckets.exec (questions h) d = Returns d'" "deduper_inv d'"
    using buckets.exec_total [OF inv] by blast
  have "key_age d' k \<noteq> None"
    using buckets.exec_checked [OF inv new_deduper_empty [OF d] questions_asked [OF assms(2)] _ d'(1)]
      buckets.life_pos [OF inv] by (simp add: questions_no_tick)
  then obtain d'' where "CheckAndAdd d' k = Returns (d'', True)" using buckets.check_law [OF d'(2), of k] by auto
  then show ?thesis by (simp add: local_answer_def d'(1))
qed

text \<open>An environment whose deduper is a new local one, before its first rotation, forgets nothing.\<close>

definition uses_local :: "localDeduper \<Rightarrow> o365_env \<Rightarrow> bool" where
  "uses_local d env \<longleftrightarrow> (\<forall>h k b. local_answer d h k = Returns b \<longrightarrow> e_call env h (QSeen k) = RSeen b)"

lemma uses_local_remembers: "NewLocalDeduper w t = Returns d \<Longrightarrow> uses_local d env \<Longrightarrow> remembers env"
  by (simp add: remembers_def uses_local_def local_remembers)

section \<open>Concrete runs\<close>

definition day_deduper :: localDeduper where
  "day_deduper = \<lparr>window = 1 * hour, ttl = 24 * hour, nBuckets = 24, nCurrent = 0, stopEvt = False,
     windows = (replicate 24 None)[0 := Some []]\<rparr>"

lemma NewLocalDeduper_day: "NewLocalDeduper (1 * hour) (24 * hour) = Returns day_deduper"
  by (simp add: NewLocalDeduper_def go_div_def day_deduper_def)

text \<open>One listing with a content that is there twice, and the content has one event twice.\<close>

definition demo_item :: listItem where
  "demo_item = \<lparr>ContentType = ''t'', ContentID = ''c'', ContentURI = ''u'', ContentCreated = '''', ContentExpiration = ''''\<rparr>"

definition demo_gjson :: gjson where
  "demo_gjson = \<lparr>elements = \<lambda>_. [''{1}'', ''{1}''], get_Id = id\<rparr>"

definition demo_config :: o365_config where
  "demo_config = \<lparr>o_Domain = ''d'', o_TenantID = ''t'', o_PublisherID = ''p'', o_ClientID = ''i'', o_ClientSecret = ''s'',
     o_Endpoint = ''enterprise'', o_ContentTypes = ''DLP.All'', o_StartTime = ''''\<rparr>"

definition demo_env :: "(nat \<times> string) \<Rightarrow> o365_env" where
  "demo_env content = \<lparr>e_now = \<lambda>_. 0, e_ship = \<lambda>_ _ _. None,
     e_call = (\<lambda>h q. case q of
         QSeen k \<Rightarrow> (case local_answer day_deduper h k of Returns b \<Rightarrow> RSeen b | _ \<Rightarrow> RSeen False)
       | QListing u \<Rightarrow> RListing (Resp 200 None (Inr [demo_item, demo_item])) ''''
       | QContent u \<Rightarrow> RContent (Resp (fst content) None (Inr (snd content)))
       | QRegister u \<Rightarrow> RRegister (Resp 200 None (Inr [])) ''''
       | QCloseDeduper \<Rightarrow> RClosed),
     e_stop = \<lambda>_ _. False, e_drain = \<lambda>_. None, e_close = \<lambda>_. None\<rparr>"

lemma demo_remembers: "remembers (demo_env content)"
  by (rule uses_local_remembers [OF NewLocalDeduper_day]) (simp add: uses_local_def demo_env_def)

lemma o365_delivers_once_witness:
  "distinct (delivered_ids demo_gjson (hist (snd (run_state
     (o365_fetchEvents (demo_env (200, ''[]'')) demo_gjson demo_config ''http'' 2) fresh_world))))"
  by (rule o365_delivers_once [OF demo_remembers]) simp

lemma o365_content_tried_once_witness:
  "\<exists>w1 w3. run_state (o365_item (demo_env (503, '''')) demo_gjson demo_item) fresh_world = ((), w1) \<and>
     run_state (o365_item (demo_env (503, '''')) demo_gjson demo_item) w1 = ((), w3) \<and> requests (hist w3) = requests (hist w1)"
proof -
  obtain w1 where w1: "run_state (o365_item (demo_env (503, '''')) demo_gjson demo_item) fresh_world = ((), w1)"
    by (metis old.unit.exhaust surj_pair)
  from o365_content_tried_once [OF demo_remembers w1, of w1 "[]" demo_item] w1 show ?thesis by auto
qed

definition refused :: "o365_query \<Rightarrow> o365_answer" where
  "refused q = RListing (Resp 401 None (Inl (GoErr ''''))) ''''"

lemma o365_hot_loop_witness:
  "requests (hist (snd (run_state (o365_fetchEvents (steady_env 0 refused) demo_gjson demo_config ''http'' 100) fresh_world))) = 100"
  using o365_hot_loop [of "steady_env 0 refused" 401 fresh_world demo_gjson demo_config "''http''" 100] by (simp add: refused_def)

end
