(* ===== verification/Harmony.thy ===== *)
theory Harmony
  imports Object_Store Json_Access Dedup
begin

text \<open>
  \<open>harmony/client.go\<close>, the Check Point Harmony adapter. It has two sources: Infinity Events, which submits a
  query over a time window, waits for its task and retrieves the pages, and Emails, which scrolls through the entities of
  a lookback window and deduplicates them. Every request goes through one function that attaches a cached bearer token
  and retries transient failures. The deduper of the emails source and the random jitter are calls of the environment.
\<close>

section \<open>Constants\<close>

definition harmony_defaultBaseURL :: string where
  "harmony_defaultBaseURL = ''https://cloudinfra-gw.portal.checkpoint.com''"

definition authPath :: string where "authPath = ''/auth/external''"
definition eventsQueryPath :: string where "eventsQueryPath = ''/app/laas-logs-api/api/logs_query''"
definition eventsRetrievePath :: string where "eventsRetrievePath = ''/app/laas-logs-api/api/logs_query/retrieve''"
definition hecSearchEntityPath :: string where "hecSearchEntityPath = ''/app/hec-api/v1.0/search/query''"

definition tokenRefreshSkew :: duration where "tokenRefreshSkew = 1 * minute"

definition maxRequestAttempts :: nat where "maxRequestAttempts = 4"

definition requestRetryBackoff :: "duration list" where
  "requestRetryBackoff = [2 * second, 5 * second, 10 * second]"

definition defaultEventsCloudServices :: "string list" where
  "defaultEventsCloudServices =
     [''Harmony Endpoint'', ''Harmony Email & Collaboration'', ''Harmony Mobile'', ''Harmony Connect'', ''Harmony Browse'']"

definition defaultEventsPollInterval :: duration where "defaultEventsPollInterval = 60 * second"
definition defaultEventsStatusPollEvery :: duration where "defaultEventsStatusPollEvery = 5 * second"
definition defaultEventsStatusPollTotal :: duration where "defaultEventsStatusPollTotal = 10 * minute"
definition defaultEventsInitialLookback :: duration where "defaultEventsInitialLookback = 1 * hour"
definition defaultEventsEndLag :: duration where "defaultEventsEndLag = 1 * minute"
definition defaultEventsPageLimit :: int where "defaultEventsPageLimit = 100"
definition defaultEventsPerCloudLimit :: int where "defaultEventsPerCloudLimit = 5000"

definition defaultEmailsSaasEntity :: "string \<Rightarrow> string option" where
  "defaultEmailsSaasEntity = map_of
     [(''office365_emails'', ''office365_emails_email''), (''google_mail'', ''google_mail_email'')]"

definition defaultEmailsSaas :: "string list" where
  "defaultEmailsSaas = [''office365_emails'', ''google_mail'']"

definition defaultEmailsPollInterval :: duration where "defaultEmailsPollInterval = 5 * minute"
definition defaultEmailsLookback :: duration where "defaultEmailsLookback = 1 * hour"
definition maxEmailsPages :: nat where "maxEmailsPages = 1000"

section \<open>Configuration\<close>

record events_config =
  ev_Enabled :: bool
  ev_CloudServices :: "string list"
  ev_Filter :: string
  ev_PollInterval :: duration
  ev_PageLimit :: int
  ev_Limit :: int

definition events_Validate :: "events_config \<Rightarrow> events_config" where
  "events_Validate c =
     (let at_least = (\<lambda>v dflt. let v' = (if v \<le> 0 then dflt else v) in if v' < 10 then 10 else v') in
      c\<lparr>ev_CloudServices := (if ev_CloudServices c = [] then defaultEventsCloudServices else ev_CloudServices c),
        ev_PollInterval := (if ev_PollInterval c \<le> 0 then defaultEventsPollInterval else ev_PollInterval c),
        ev_PageLimit := at_least (ev_PageLimit c) defaultEventsPageLimit,
        ev_Limit := at_least (ev_Limit c) defaultEventsPerCloudLimit\<rparr>)"

record emails_config =
  em_Enabled :: bool
  em_Saas :: "string list"
  em_PollInterval :: duration
  em_Lookback :: duration

text \<open>The configuration is changed in place, also when the result is an error.\<close>

definition emails_Validate :: "emails_config \<Rightarrow> emails_config \<times> go_err option" where
  "emails_Validate c =
     (let c1 = c\<lparr>em_Saas := (if em_Saas c = [] then defaultEmailsSaas else em_Saas c)\<rparr> in
      if list_ex (\<lambda>s. defaultEmailsSaasEntity s = None) (em_Saas c1)
      then (c1, Some (GoErr ''emails.saas %q is not supported (supported: %v)''))
      else (c1\<lparr>em_PollInterval := (if em_PollInterval c \<le> 0 then defaultEmailsPollInterval else em_PollInterval c),
               em_Lookback := (if em_Lookback c \<le> 0 then defaultEmailsLookback else em_Lookback c)\<rparr>, None))"

record harmony_config =
  h_ClientID :: string
  h_AccessKey :: string
  h_URL :: string
  h_Events :: events_config
  h_Emails :: emails_config

definition harmony_Validate :: "go_err option \<Rightarrow> harmony_config \<Rightarrow> harmony_config \<times> go_err option" where
  "harmony_Validate client_err c =
     (case client_err of
        Some e \<Rightarrow> (c, Some (GoWrap ''client_options: %v'' e))
      | None \<Rightarrow>
          if h_ClientID c = '''' then (c, Some (GoErr ''missing client_id''))
          else if h_AccessKey c = '''' then (c, Some (GoErr ''missing access_key''))
          else
            (let c1 = c\<lparr>h_URL := trim_right (if h_URL c = '''' then harmony_defaultBaseURL else h_URL c) CHR ''/''\<rparr>;
                 c2 = (if ev_Enabled (h_Events c1) then c1\<lparr>h_Events := events_Validate (h_Events c1)\<rparr> else c1)
             in if ev_Enabled (h_Events c2) \<or> em_Enabled (h_Emails c2) then
                  (if em_Enabled (h_Emails c2) then
                     (let (em, err) = emails_Validate (h_Emails c2)
                      in (c2\<lparr>h_Emails := em\<rparr>, map_option (GoWrap ''%s: %v'') err))
                   else (c2, None))
                else (c2, Some (GoErr ''at least one source must be enabled (%s)''))))"

section \<open>Requests\<close>

text \<open>
  The bodies the adapter sends, as JSON. The times in them are formatted with \<open>time.RFC3339\<close>.
\<close>

datatype harmony_body =
    NoBody
  | AuthBody string string
  | EventsQuery string time time int int string
  | RetrievePage string string
  | EntitySearch string string time time string

record harmony_req =
  hr_method :: string
  hr_url :: string
  hr_body :: harmony_body
  hr_token :: "string option"
  hr_reqid :: "string option"

datatype harmony_query = HRequest harmony_req | HSeen string | HJitter int | HCounter | HCloseDeduper

datatype harmony_answer = HHttp "string http" | HKnown bool | HRandom int | HCount "64 word" | HUnit

type_synonym 'a harmony_io = "(harmony_query, harmony_answer, 'a) io"
type_synonym harmony_env = "(harmony_query, harmony_answer) env"

text \<open>
  What the code gets from libraries: parsing of times, the JSON decoder and encoder, and of a transport error its text
  and whether it is a timeout (\<open>net.Error\<close> or \<open>context.DeadlineExceeded\<close>).
\<close>

record harmony_lib =
  hl_parseNano :: "string \<Rightarrow> time option"
  hl_parse1123 :: "string \<Rightarrow> time option"
  hl_unmarshal :: "string \<Rightarrow> go_err + dict"
  hl_marshal :: "gval \<Rightarrow> string option"
  hl_oor :: "gfloat \<Rightarrow> 64 word"
  hl_timeout :: "go_err \<Rightarrow> bool"
  hl_text :: "go_err \<Rightarrow> string"

definition isTransientStatus :: "nat \<Rightarrow> bool" where
  "isTransientStatus st \<longleftrightarrow> st = 502 \<or> st = 503 \<or> st = 504"

definition isTransientErr :: "harmony_lib \<Rightarrow> go_err \<Rightarrow> bool" where
  "isTransientErr lib err \<longleftrightarrow> hl_timeout lib err \<or>
     list_ex (contains (hl_text lib err))
       [''context deadline exceeded'', ''Client.Timeout'', ''connection reset'', ''connection refused'', ''unexpected EOF'',
        ''i/o timeout'', ''TLS handshake timeout'', ''server closed idle connection'']"

text \<open>\<open>rand.Int64N(2*span)\<close> is the answer of the environment, taken modulo its argument.\<close>

definition retryBackoff :: "harmony_env \<Rightarrow> int \<Rightarrow> duration harmony_io" where
  "retryBackoff env tries = do {
     let i = (if tries - 1 < 0 then 0 else tries - 1);
     let i' = (if i \<ge> int (length requestRetryBackoff) then int (length requestRetryBackoff) - 1 else i);
     let base = requestRetryBackoff ! nat i';
     let span = base div 5;
     if span \<le> 0 then ret base
     else do {
       r \<leftarrow> call env (HJitter (2 * span));
       ret (base + ((case r of HRandom n \<Rightarrow> n mod (2 * span) | _ \<Rightarrow> 0) - span))
     }
   }"

text \<open>The loop over the attempts: \<open>k\<close> are left, \<open>tries\<close> were made.\<close>

fun harmony_attempts ::
    "harmony_env \<Rightarrow> harmony_lib \<Rightarrow> harmony_req \<Rightarrow> nat \<Rightarrow> int \<Rightarrow> go_err \<Rightarrow> (go_err + (nat \<times> string)) harmony_io" where
  "harmony_attempts env lib req 0 tries lastErr = ret (Inl (GoWrap ''%s: exhausted %d attempts: %v'' lastErr))"
| "harmony_attempts env lib req (Suc k) tries lastErr = do {
     aborted \<leftarrow> (if tries > 0 then do { d \<leftarrow> retryBackoff env tries; waitFor env d } else ret False);
     if aborted then ret (Inl (GoErr ''%s: aborted during retry backoff''))
     else do {
       r \<leftarrow> call env (HRequest req);
       case r of
         HHttp (NewRequestErr e) \<Rightarrow> ret (Inl e)
       | HHttp (DoErr e) \<Rightarrow>
           if \<not> isTransientErr lib e then ret (Inl e) else harmony_attempts env lib req k (tries + 1) e
       | HHttp (Resp st _ d) \<Rightarrow>
           if isTransientStatus st then harmony_attempts env lib req k (tries + 1) (GoErr ''%s: HTTP %d: %s'')
           else ret (Inr (st, case d of Inr respBody \<Rightarrow> respBody | Inl _ \<Rightarrow> ''''))
       | _ \<Rightarrow> ret (Inl (GoErr ''''))
     }
   }"

definition doHTTPWithRetry :: "harmony_env \<Rightarrow> harmony_lib \<Rightarrow> harmony_req \<Rightarrow> (go_err + (nat \<times> string)) harmony_io" where
  "doHTTPWithRetry env lib req = harmony_attempts env lib req maxRequestAttempts 0 (GoErr '''')"

section \<open>The token\<close>

record harmony_token =
  cachedToken :: string
  tokenExpires :: time

text \<open>\<open>data, _ := d.GetDict(k)\<close>: a missing dictionary is nil, in which every lookup fails.\<close>

definition dict_field :: "dict \<Rightarrow> string \<Rightarrow> dict" where
  "dict_field d k = (case fst (GetDict d k) of None \<Rightarrow> [] | Some x \<Rightarrow> x)"

definition auth_req :: "harmony_config \<Rightarrow> harmony_req" where
  "auth_req c = \<lparr>hr_method = ''POST'', hr_url = h_URL c @ authPath, hr_body = AuthBody (h_ClientID c) (h_AccessKey c),
     hr_token = None, hr_reqid = None\<rparr>"

text \<open>The end of the validity of a new token. The product of the seconds is an \<open>int64\<close>.\<close>

definition token_expiry :: "harmony_env \<Rightarrow> harmony_lib \<Rightarrow> dict \<Rightarrow> time harmony_io" where
  "token_expiry env lib data = do {
     t0 \<leftarrow> now env;
     let expires = t0 + 25 * minute;
     (case GetInt (hl_oor lib) data ''expiresIn'' of (n, ok) \<Rightarrow>
        if ok \<and> n > 0 then do { t \<leftarrow> now env; ret (t + sint (n * (1000000000 :: 64 word))) }
        else (case GetString data ''expires'' of (s, ok) \<Rightarrow>
          if ok \<and> s \<noteq> '''' then ret (case hl_parse1123 lib s of Some t \<Rightarrow> t | None \<Rightarrow> expires) else ret expires))
   }"

definition harmony_getToken ::
    "harmony_env \<Rightarrow> harmony_lib \<Rightarrow> harmony_config \<Rightarrow> bool \<Rightarrow> harmony_token \<Rightarrow> ((go_err + string) \<times> harmony_token) harmony_io" where
  "harmony_getToken env lib c force tok = do {
     fresh \<leftarrow> (if force \<or> cachedToken tok = '''' then ret False
       else do { t \<leftarrow> now env; ret (t + tokenRefreshSkew < tokenExpires tok) });
     if fresh then ret (Inr (cachedToken tok), tok)
     else do {
       r \<leftarrow> doHTTPWithRetry env lib (auth_req c);
       case r of
         Inl e \<Rightarrow> ret (Inl (GoWrap ''auth request: %v'' e), tok)
       | Inr (st, respBody) \<Rightarrow>
           if st < 200 \<or> st \<ge> 300 then ret (Inl (GoErr ''auth HTTP %d: %s''), tok)
           else (case hl_unmarshal lib respBody of
             Inl e \<Rightarrow> ret (Inl (GoWrap ''auth decode: %v'' e), tok)
           | Inr parsed \<Rightarrow>
               (let data = dict_field parsed ''data''; token = fst (GetString data ''token'') in
                if token = '''' then ret (Inl (GoErr ''auth response missing token: %s''), tok)
                else do {
                  expires \<leftarrow> token_expiry env lib data;
                  ret (Inr token, \<lparr>cachedToken = token, tokenExpires = expires\<rparr>)
                }))
     }
   }"

section \<open>Authenticated requests\<close>

text \<open>A 401 renews the token once and sends the request again.\<close>

definition harmony_reissue ::
    "harmony_env \<Rightarrow> harmony_lib \<Rightarrow> harmony_config \<Rightarrow> harmony_req \<Rightarrow> nat \<times> string \<Rightarrow> harmony_token \<Rightarrow>
     ((go_err + (nat \<times> string)) \<times> harmony_token) harmony_io" where
  "harmony_reissue env lib c req answer tok =
     (if fst answer = 401 then do {
        (t, tok') \<leftarrow> harmony_getToken env lib c True tok;
        case t of
          Inl e \<Rightarrow> ret (Inl e, tok')
        | Inr token \<Rightarrow> do { r \<leftarrow> doHTTPWithRetry env lib (req\<lparr>hr_token := Some token\<rparr>); ret (r, tok') }
      } else ret (Inr answer, tok))"

definition decode_answer :: "harmony_lib \<Rightarrow> nat \<times> string \<Rightarrow> go_err + dict" where
  "decode_answer lib answer = (case answer of (st, respBody) \<Rightarrow>
     if st < 200 \<or> st \<ge> 300 then Inl (GoErr ''%s: HTTP %d: %s'')
     else if respBody = '''' then Inr []
     else (case hl_unmarshal lib respBody of
             Inl e \<Rightarrow> Inl (GoWrap ''decode response: %v (body=%s)'' e)
           | Inr out \<Rightarrow> Inr out))"

definition doAuthRequest ::
    "harmony_env \<Rightarrow> harmony_lib \<Rightarrow> harmony_config \<Rightarrow> string \<Rightarrow> string \<Rightarrow> harmony_body \<Rightarrow> string option \<Rightarrow> harmony_token \<Rightarrow>
     ((go_err + dict) \<times> harmony_token) harmony_io" where
  "doAuthRequest env lib c http_meth uri bodyv reqid tok = do {
     (t, tok1) \<leftarrow> harmony_getToken env lib c False tok;
     case t of
       Inl e \<Rightarrow> ret (Inl e, tok1)
     | Inr token \<Rightarrow> do {
         let req = \<lparr>hr_method = http_meth, hr_url = uri, hr_body = bodyv, hr_token = Some token, hr_reqid = reqid\<rparr>;
         r \<leftarrow> doHTTPWithRetry env lib req;
         case r of
           Inl e \<Rightarrow> ret (Inl e, tok1)
         | Inr answer \<Rightarrow> do {
             (r2, tok2) \<leftarrow> harmony_reissue env lib c req answer tok1;
             case r2 of
               Inl e \<Rightarrow> ret (Inl e, tok2)
             | Inr answer2 \<Rightarrow> ret (decode_answer lib answer2, tok2)
           }
       }
   }"

definition shipRecord :: "harmony_env \<Rightarrow> dict \<Rightarrow> go_err option harmony_io" where
  "shipRecord env rec = do {
     t \<leftarrow> now env;
     err \<leftarrow> ship_retry env (json_message rec t);
     case err of
       None \<Rightarrow> ret None
     | Some e \<Rightarrow> do { onError (GoWrap ''Ship(): %v'' e); setStop; ret (Some e) }
   }"

section \<open>Infinity Events\<close>

definition submitEventsQuery ::
    "harmony_env \<Rightarrow> harmony_lib \<Rightarrow> harmony_config \<Rightarrow> string \<Rightarrow> time \<Rightarrow> time \<Rightarrow> harmony_token \<Rightarrow>
     ((go_err + string) \<times> harmony_token) harmony_io" where
  "submitEventsQuery env lib c service startTime endTime tok = do {
     (r, tok') \<leftarrow> doAuthRequest env lib c ''POST'' (h_URL c @ eventsQueryPath)
       (EventsQuery service startTime endTime (ev_PageLimit (h_Events c)) (ev_Limit (h_Events c)) (ev_Filter (h_Events c))) None tok;
     ret (case r of
            Inl e \<Rightarrow> Inl e
          | Inr resp \<Rightarrow>
              (let taskID = fst (GetString (dict_field resp ''data'') ''taskId'')
               in if taskID = '''' then Inl (GoErr ''missing taskId in response: %s'') else Inr taskID), tok')
   }"

text \<open>A canceled task is an error of its own type, which the worker recognises behind the wrapping.\<close>

datatype harmony_err = TaskCanceled string "string list" | OtherErr go_err

text \<open>What a status answer says: the page tokens, or a canceled task, or that the task is not finished.\<close>

definition error_details :: "harmony_lib \<Rightarrow> gval list \<Rightarrow> string list" where
  "error_details lib es = concat (map (\<lambda>e.
     case e of GString s \<Rightarrow> [s] | _ \<Rightarrow> (case hl_marshal lib e of Some b \<Rightarrow> [b] | None \<Rightarrow> [])) es)"

definition page_tokens :: "gval list \<Rightarrow> string list" where
  "page_tokens ts = filter (\<lambda>s. s \<noteq> '''') (concat (map (\<lambda>t. case t of GString s \<Rightarrow> [s] | _ \<Rightarrow> []) ts))"

definition list_field :: "dict \<Rightarrow> string \<Rightarrow> gval list" where
  "list_field d k = (case fst (GetList d k) of None \<Rightarrow> [] | Some x \<Rightarrow> x)"

definition task_state :: "harmony_lib \<Rightarrow> string \<Rightarrow> dict \<Rightarrow> (harmony_err + string list) option" where
  "task_state lib taskID resp =
     (let data = dict_field resp ''data''; state = fst (GetString data ''state'') in
      if state = ''Ready'' then Some (Inr (page_tokens (list_field data ''pageTokens'')))
      else if state = ''Done'' then Some (Inr [])
      else if state = ''Canceled'' then Some (Inl (TaskCanceled taskID (error_details lib (list_field data ''errors''))))
      else None)"

text \<open>
  The loop that polls the status. It ends by itself when the clock passes the deadline; \<open>None\<close> is the end of the fuel.
\<close>

fun await_task ::
    "harmony_env \<Rightarrow> harmony_lib \<Rightarrow> harmony_config \<Rightarrow> string \<Rightarrow> time \<Rightarrow> nat \<Rightarrow> harmony_token \<Rightarrow>
     ((harmony_err + string list) \<times> harmony_token) option harmony_io" where
  "await_task env lib c taskID deadline 0 tok = ret None"
| "await_task env lib c taskID deadline (Suc fuel) tok = do {
     stopped \<leftarrow> loadStop env;
     if stopped then ret (Some (Inr [], tok))
     else do {
       (r, tok') \<leftarrow> doAuthRequest env lib c ''GET'' (h_URL c @ eventsQueryPath @ ''/'' @ taskID) NoBody None tok;
       case r of
         Inl e \<Rightarrow> ret (Some (Inl (OtherErr e), tok'))
       | Inr resp \<Rightarrow>
           (case task_state lib taskID resp of
              Some res \<Rightarrow> ret (Some (res, tok'))
            | None \<Rightarrow> do {
                t \<leftarrow> now env;
                if t > deadline then ret (Some (Inl (OtherErr (GoErr ''task %s did not reach a terminal state within %s (last state=%q)'')), tok'))
                else do {
                  woken \<leftarrow> waitFor env defaultEventsStatusPollEvery;
                  if woken then ret (Some (Inr [], tok')) else await_task env lib c taskID deadline fuel tok'
                }
              })
     }
   }"

definition waitForEventsTask ::
    "harmony_env \<Rightarrow> harmony_lib \<Rightarrow> harmony_config \<Rightarrow> string \<Rightarrow> nat \<Rightarrow> harmony_token \<Rightarrow>
     ((harmony_err + string list) \<times> harmony_token) option harmony_io" where
  "waitForEventsTask env lib c taskID fuel tok = do {
     t \<leftarrow> now env;
     await_task env lib c taskID (t + defaultEventsStatusPollTotal) fuel tok
   }"

text \<open>Only elements that are maps are records: \<open>map[string]interface{}\<close> or \<open>utils.Dict\<close>.\<close>

definition page_records :: "dict \<Rightarrow> dict list" where
  "page_records resp =
     concat (map (\<lambda>v. case v of GMap d \<Rightarrow> [d] | GDict d \<Rightarrow> [d] | _ \<Rightarrow> []) (list_field (dict_field resp ''data'') ''records''))"

definition retrieveEventsPage ::
    "harmony_env \<Rightarrow> harmony_lib \<Rightarrow> harmony_config \<Rightarrow> string \<Rightarrow> string \<Rightarrow> harmony_token \<Rightarrow>
     ((go_err + (dict list \<times> string)) \<times> harmony_token) harmony_io" where
  "retrieveEventsPage env lib c taskID token tok = do {
     (r, tok') \<leftarrow> doAuthRequest env lib c ''POST'' (h_URL c @ eventsRetrievePath) (RetrievePage taskID token) None tok;
     ret (case r of
            Inl e \<Rightarrow> Inl e
          | Inr resp \<Rightarrow>
              Inr (page_records resp, fst (GetString (dict_field resp ''data'') ''nextPageToken'')), tok')
   }"

text \<open>The first of three fields that parses, else the zero time.\<close>

definition extractRecordTime :: "harmony_lib \<Rightarrow> dict \<Rightarrow> time" where
  "extractRecordTime lib rec =
     (case filter (\<lambda>t. t \<noteq> None) (map (\<lambda>k. case GetString rec k of (s, ok) \<Rightarrow>
         if ok \<and> s \<noteq> '''' then hl_parseNano lib s else None) [''time'', ''eventTime'', ''timestamp'']) of
        Some t # _ \<Rightarrow> t
      | _ \<Rightarrow> zero_time)"

definition put_missing :: "string \<Rightarrow> gval \<Rightarrow> dict \<Rightarrow> dict" where
  "put_missing k v rec = (if map_of rec k = None then put k v rec else rec)"

definition annotate_event :: "string \<Rightarrow> dict \<Rightarrow> dict" where
  "annotate_event service rec =
     put_missing ''_lc_harmony_service'' (GString service) (put_missing ''_lc_harmony_source'' (GString ''infinity_events'') rec)"

fun ship_records ::
    "harmony_env \<Rightarrow> harmony_lib \<Rightarrow> string \<Rightarrow> dict list \<Rightarrow> time \<Rightarrow> (time \<times> go_err option) harmony_io" where
  "ship_records env lib service [] newest = ret (newest, None)"
| "ship_records env lib service (rec # recs) newest = do {
     let ts = extractRecordTime lib rec;
     let newest' = (if ts > newest then ts else newest);
     err \<leftarrow> shipRecord env (annotate_event service rec);
     case err of Some e \<Rightarrow> ret (newest', Some e) | None \<Rightarrow> ship_records env lib service recs newest'
   }"

text \<open>The page loop; \<open>None\<close> when the pages outlast the bound.\<close>

fun events_pages ::
    "harmony_env \<Rightarrow> harmony_lib \<Rightarrow> harmony_config \<Rightarrow> string \<Rightarrow> string \<Rightarrow> time \<Rightarrow> nat \<Rightarrow> string \<Rightarrow> time \<Rightarrow> harmony_token \<Rightarrow>
     (time \<times> harmony_err option \<times> harmony_token) option harmony_io" where
  "events_pages env lib c service taskID endTime 0 token newest tok = ret None"
| "events_pages env lib c service taskID endTime (Suc pages) token newest tok = do {
     stopped \<leftarrow> loadStop env;
     if stopped then ret (Some (newest, None, tok))
     else do {
       (r, tok') \<leftarrow> retrieveEventsPage env lib c taskID token tok;
       case r of
         Inl e \<Rightarrow> ret (Some (newest, Some (OtherErr (GoWrap ''retrieveEventsPage: %v'' e)), tok'))
       | Inr (records, nextToken) \<Rightarrow> do {
           (newest', err) \<leftarrow> ship_records env lib service records newest;
           case err of
             Some e \<Rightarrow> ret (Some (newest', Some (OtherErr e), tok'))
           | None \<Rightarrow>
               if nextToken = '''' \<or> nextToken = ''NULL''
               then ret (Some (if newest' = zero_time then endTime else newest', None, tok'))
               else events_pages env lib c service taskID endTime pages nextToken newest' tok'
         }
     }
   }"

definition runOneEventsQuery ::
    "harmony_env \<Rightarrow> harmony_lib \<Rightarrow> harmony_config \<Rightarrow> nat \<Rightarrow> string \<Rightarrow> time \<Rightarrow> time \<Rightarrow> harmony_token \<Rightarrow>
     (time \<times> harmony_err option \<times> harmony_token) option harmony_io" where
  "runOneEventsQuery env lib c fuel service startTime endTime tok = do {
     (s, tok1) \<leftarrow> submitEventsQuery env lib c service startTime endTime tok;
     case s of
       Inl e \<Rightarrow> ret (Some (zero_time, Some (OtherErr (GoWrap ''submitEventsQuery: %v'' e)), tok1))
     | Inr taskID \<Rightarrow> do {
         r \<leftarrow> waitForEventsTask env lib c taskID fuel tok1;
         case r of
           None \<Rightarrow> ret None
         | Some (Inl e, tok2) \<Rightarrow> ret (Some (zero_time, Some e, tok2))
         | Some (Inr [], tok2) \<Rightarrow> ret (Some (endTime, None, tok2))
         | Some (Inr (token # _), tok2) \<Rightarrow> events_pages env lib c service taskID endTime fuel token zero_time tok2
       }
   }"

text \<open>The worker of one service, \<open>n\<close> turns of its loop.\<close>

definition next_cursor :: "time \<Rightarrow> time \<Rightarrow> time \<Rightarrow> harmony_err option \<Rightarrow> time" where
  "next_cursor nextStart endTime newCursor err =
     (case err of
        Some (TaskCanceled _ _) \<Rightarrow> endTime
      | Some (OtherErr _) \<Rightarrow> nextStart
      | None \<Rightarrow> if newCursor \<noteq> zero_time then newCursor else nextStart)"

definition report_query :: "harmony_err option \<Rightarrow> unit harmony_io" where
  "report_query err =
     (case err of
        Some (TaskCanceled _ _) \<Rightarrow> onWarning ''harmony[events:%s]: %v - skipping window''
      | Some (OtherErr e) \<Rightarrow> onError (GoWrap ''harmony[events:%s]: %v'' e)
      | None \<Rightarrow> ret ())"

fun events_loop ::
    "harmony_env \<Rightarrow> harmony_lib \<Rightarrow> harmony_config \<Rightarrow> nat \<Rightarrow> string \<Rightarrow> nat \<Rightarrow> time \<Rightarrow> harmony_token \<Rightarrow> (time \<times> harmony_token) harmony_io" where
  "events_loop env lib c fuel service 0 nextStart tok = ret (nextStart, tok)"
| "events_loop env lib c fuel service (Suc n) nextStart tok = do {
     t \<leftarrow> now env;
     let endTime = t - defaultEventsEndLag;
     if \<not> endTime > nextStart then do {
       stopped \<leftarrow> waitFor env (ev_PollInterval (h_Events c));
       if stopped then ret (nextStart, tok) else events_loop env lib c fuel service n nextStart tok
     } else do {
       r \<leftarrow> runOneEventsQuery env lib c fuel service nextStart endTime tok;
       case r of
         None \<Rightarrow> ret (nextStart, tok)
       | Some (newCursor, err, tok') \<Rightarrow> do {
           report_query err;
           stopped \<leftarrow> waitFor env (ev_PollInterval (h_Events c));
           let nextStart' = next_cursor nextStart endTime newCursor err;
           if stopped then ret (nextStart', tok') else events_loop env lib c fuel service n nextStart' tok'
         }
     }
   }"

definition fetchEventsForService ::
    "harmony_env \<Rightarrow> harmony_lib \<Rightarrow> harmony_config \<Rightarrow> nat \<Rightarrow> string \<Rightarrow> nat \<Rightarrow> harmony_token \<Rightarrow> (time \<times> harmony_token) harmony_io" where
  "fetchEventsForService env lib c fuel service n tok = do {
     t \<leftarrow> now env;
     events_loop env lib c fuel service n (t - defaultEventsInitialLookback) tok
   }"

section \<open>Emails\<close>

definition emailDedupKey :: "dict \<Rightarrow> string" where
  "emailDedupKey rec =
     (let info = dict_field rec ''entityInfo''; entityID = fst (GetString info ''entityId'') in
      if entityID = '''' then ''''
      else (let updated = fst (GetString info ''entityUpdated'');
                updated' = (if updated = '''' then fst (GetString info ''entityCreated'') else updated)
            in ''email:'' @ entityID @ ''|'' @ updated'))"

text \<open>The identifier of a request: the parts of the clock and of a counter in hexadecimal, padded with zeros.\<close>

fun hex_str :: "nat \<Rightarrow> string" where
  "hex_str n = (if n < 16 then [] else hex_str (n div 16)) @ [''0123456789abcdef'' ! (n mod 16)]"

declare hex_str.simps [simp del]

definition hex_pad :: "nat \<Rightarrow> nat \<Rightarrow> string" where
  "hex_pad k n = replicate (k - length (hex_str n)) CHR ''0'' @ hex_str n"

definition newRequestID :: "harmony_env \<Rightarrow> string harmony_io" where
  "newRequestID env = do {
     r \<leftarrow> call env HCounter;
     t \<leftarrow> now env;
     let n = (case r of HCount n \<Rightarrow> unat n | _ \<Rightarrow> 0);
     let u = unat (word_of_int t :: 64 word);
     ret (hex_pad 8 (u div 2 ^ 32) @ ''-'' @ hex_pad 4 (u div 2 ^ 16 mod 2 ^ 16) @ ''-'' @ hex_pad 4 (u mod 2 ^ 16) @ ''-'' @
          hex_pad 4 (n div 2 ^ 16 mod 2 ^ 16) @ ''-'' @ hex_pad 12 n)
   }"

definition harmony_seen :: "harmony_env \<Rightarrow> string \<Rightarrow> bool harmony_io" where
  "harmony_seen env k = do { r \<leftarrow> call env (HSeen k); ret (r = HKnown True) }"

definition annotate_email :: "string \<Rightarrow> dict \<Rightarrow> dict" where
  "annotate_email saas rec = put ''_lc_harmony_saas'' (GString saas) (put ''_lc_harmony_source'' (GString ''emails'') rec)"

fun ship_emails :: "harmony_env \<Rightarrow> string \<Rightarrow> dict list \<Rightarrow> go_err option harmony_io" where
  "ship_emails env saas [] = ret None"
| "ship_emails env saas (rec # recs) =
     (let key = emailDedupKey rec in
      if key = '''' then ship_emails env saas recs
      else do {
        dup \<leftarrow> harmony_seen env key;
        if dup then ship_emails env saas recs
        else do {
          err \<leftarrow> shipRecord env (annotate_email saas rec);
          case err of Some e \<Rightarrow> ret (Some e) | None \<Rightarrow> ship_emails env saas recs
        }
      })"

fun emails_pages ::
    "harmony_env \<Rightarrow> harmony_lib \<Rightarrow> harmony_config \<Rightarrow> string \<Rightarrow> string \<Rightarrow> time \<Rightarrow> time \<Rightarrow> nat \<Rightarrow> string \<Rightarrow> harmony_token \<Rightarrow>
     (go_err option \<times> harmony_token) harmony_io" where
  "emails_pages env lib c saas entity startDate endDate 0 scroll tok =
     ret (Some (GoErr ''emails query exceeded %d pages (saas=%q): gateway did not signal end of scroll''), tok)"
| "emails_pages env lib c saas entity startDate endDate (Suc pages) scroll tok = do {
     stopped \<leftarrow> loadStop env;
     if stopped then ret (None, tok)
     else do {
       reqid \<leftarrow> newRequestID env;
       (r, tok') \<leftarrow> doAuthRequest env lib c ''POST'' (h_URL c @ hecSearchEntityPath)
         (EntitySearch saas entity startDate endDate scroll) (Some reqid) tok;
       case r of
         Inl e \<Rightarrow> ret (Some e, tok')
       | Inr resp \<Rightarrow>
           (let nextScroll = fst (GetString (dict_field resp ''responseEnvelope'') ''scrollId'');
                records = fst (GetListOfDict resp ''responseData'')
            in if records = [] then ret (None, tok')
               else do {
                 err \<leftarrow> ship_emails env saas records;
                 case err of
                   Some e \<Rightarrow> ret (Some e, tok')
                 | None \<Rightarrow> if nextScroll = '''' then ret (None, tok')
                           else emails_pages env lib c saas entity startDate endDate pages nextScroll tok'
               })
     }
   }"

definition runOneEmailsQuery ::
    "harmony_env \<Rightarrow> harmony_lib \<Rightarrow> harmony_config \<Rightarrow> string \<Rightarrow> harmony_token \<Rightarrow> (go_err option \<times> harmony_token) harmony_io" where
  "runOneEmailsQuery env lib c saas tok =
     (case defaultEmailsSaasEntity saas of
        None \<Rightarrow> ret (Some (GoErr ''unsupported saas %q''), tok)
      | Some entity \<Rightarrow> do {
          t1 \<leftarrow> now env;
          t2 \<leftarrow> now env;
          emails_pages env lib c saas entity (t1 - em_Lookback (h_Emails c)) t2 maxEmailsPages '''' tok
        })"

fun fetchEmailsForSaas ::
    "harmony_env \<Rightarrow> harmony_lib \<Rightarrow> harmony_config \<Rightarrow> string \<Rightarrow> nat \<Rightarrow> harmony_token \<Rightarrow> harmony_token harmony_io" where
  "fetchEmailsForSaas env lib c saas 0 tok = ret tok"
| "fetchEmailsForSaas env lib c saas (Suc n) tok = do {
     stopped \<leftarrow> loadStop env;
     if stopped then ret tok
     else do {
       (err, tok') \<leftarrow> runOneEmailsQuery env lib c saas tok;
       (case err of Some e \<Rightarrow> onError (GoWrap ''harmony[emails:%s]: %v'' e) | None \<Rightarrow> ret ());
       woken \<leftarrow> waitFor env (em_PollInterval (h_Emails c));
       if woken then ret tok' else fetchEmailsForSaas env lib c saas n tok'
     }
   }"

section \<open>Starting and closing\<close>

text \<open>
  \<open>Start\<close> of the emails source makes a deduper unless one is configured: windows of an hour, and as many as the lookback
  and one more hour, but at least a day, take.
\<close>

definition emails_Start :: "bool \<Rightarrow> emails_config \<Rightarrow> localDeduper option outcome" where
  "emails_Start given c =
     (if given then Returns None
      else (let ttl = em_Lookback c + 1 * hour; ttl' = (if ttl < 24 * hour then 24 * hour else ttl)
            in bind_outcome (NewLocalDeduper (1 * hour) ttl') (\<lambda>d. Returns (Some d))))"

definition harmony_Close :: "harmony_env \<Rightarrow> bool \<Rightarrow> go_err option harmony_io" where
  "harmony_Close env has_deduper = do {
     setStop;
     err1 \<leftarrow> drain env (1 * minute);
     err2 \<leftarrow> closeClient env;
     (if has_deduper then do { call env HCloseDeduper; ret () } else ret ());
     ret (case err1 of Some e \<Rightarrow> Some e | None \<Rightarrow> err2)
   }"

text \<open>The result names the services and the platforms that get a worker, and the deduper that was made.\<close>

definition NewHarmonyAdapter ::
    "harmony_env \<Rightarrow> go_err option \<Rightarrow> go_err option \<Rightarrow> bool \<Rightarrow> harmony_config \<Rightarrow>
     (go_err + (harmony_config \<times> string list \<times> string list \<times> localDeduper option)) harmony_io" where
  "NewHarmonyAdapter env options_err client_err given conf =
     (case harmony_Validate options_err conf of
        (_, Some e) \<Rightarrow> ret (Inl e)
      | (c, None) \<Rightarrow>
          (case client_err of
             Some e \<Rightarrow> ret (Inl e)
           | None \<Rightarrow>
               (let services = (if ev_Enabled (h_Events c) then ev_CloudServices (h_Events c) else []) in
                if \<not> em_Enabled (h_Emails c) then ret (Inr (c, services, [], None))
                else (case emails_Start given (h_Emails c) of
                        Returns d \<Rightarrow> ret (Inr (c, services, em_Saas (h_Emails c), d))
                      | Fails e \<Rightarrow> do {
                          setStop;
                          (if given then do { call env HCloseDeduper; ret () } else ret ());
                          closeClient env;
                          ret (Inl (GoWrap ''%s.Start: %v'' e))
                        }
                      | Panics s \<Rightarrow> ret (Inl (GoErr s))))))"

text \<open>The deduper of the emails source outlives the lookback: for a lookback of whole hours it is always made, and a
  key that was new is still a duplicate after that many hourly rotations, which is at least as long as its entity can
  stay in the lookback.\<close>

theorem harmony_dedup_covers_lookback:
  assumes "em_Lookback c = int k * hour"
  shows "\<exists>d. emails_Start False c = Returns (Some d) \<and>
    (\<forall>before d1 d2 key ops. buckets.exec before d = Returns d1 \<longrightarrow> CheckAndAdd d1 key = Returns (d2, False) \<longrightarrow>
       Check key \<notin> set ops \<longrightarrow> buckets.ticks ops \<le> k \<longrightarrow>
       (\<exists>d3 d4. buckets.exec ops d2 = Returns d3 \<and> CheckAndAdd d3 key = Returns (d4, True)))"
proof -
  let ?ttl = "max (24 * hour) ((int k + 1) * hour)"
  have start: "emails_Start False c = bind_outcome (NewLocalDeduper (1 * hour) ?ttl) (\<lambda>d. Returns (Some d))"
    by (simp add: emails_Start_def assms Let_def max_def algebra_simps)
  have "\<exists>d. NewLocalDeduper (1 * hour) ?ttl = Returns d" by (auto simp: NewLocalDeduper_def Let_def)
  then obtain d where d: "NewLocalDeduper (1 * hour) ?ttl = Returns d" ..
  note inv = NewLocalDeduper_inv [OF d]
  have "?ttl div (1 * hour) \<ge> int k + 1" by (auto simp: max_def)
  then have life: "k < nBuckets d" using NewLocalDeduper_buckets [OF d] by simp
  have "\<exists>d3 d4. buckets.exec ops d2 = Returns d3 \<and> CheckAndAdd d3 key = Returns (d4, True)"
    if *: "buckets.exec before d = Returns d1" "CheckAndAdd d1 key = Returns (d2, False)" "Check key \<notin> set ops"
      "buckets.ticks ops \<le> k" for before d1 d2 key ops
  proof -
    have "deduper_inv d1" "nBuckets d1 = nBuckets d" using buckets.exec_total [OF inv, of before] *(1) by auto
    with buckets.new_key_lives [OF _ *(2,3)] life *(4) show ?thesis by auto
  qed
  then show ?thesis using start d by auto
qed

section \<open>The requests an operation sends\<close>

fun req_of :: "(harmony_query, harmony_answer) eff \<Rightarrow> harmony_req list" where
  "req_of (ECall (HRequest r) a) = [r]"
| "req_of _ = []"

definition reqs :: "(harmony_query, harmony_answer) history \<Rightarrow> harmony_req list" where
  "reqs h = concat (map req_of (rev h))"

lemma reqs_simps [simp]: "reqs [] = []" "reqs (e # h) = reqs h @ req_of e"
  by (simp_all add: reqs_def)

definition sends_none :: "'a harmony_io \<Rightarrow> bool" where
  "sends_none m \<longleftrightarrow> (\<forall>w. wp m (\<lambda>_ w'. reqs (hist w') = reqs (hist w)) w)"

lemma sends_none_ret [simp, intro!]: "sends_none (ret x)"
  by (simp add: sends_none_def wp_simps)

lemma sends_none_bind [intro!]: "sends_none m \<Longrightarrow> (\<And>x. sends_none (f x)) \<Longrightarrow> sends_none (State_Monad.bind m f)"
  unfolding sends_none_def by (intro allI, rule wp_bindI, blast) (force intro: wp_mono)

lemma sends_none_wp: "sends_none m \<Longrightarrow> (\<And>x w'. reqs (hist w') = reqs (hist w) \<Longrightarrow> Q x w') \<Longrightarrow> wp m Q w"
  unfolding sends_none_def by (blast intro: wp_mono)

lemma sends_none_prims [simp, intro!]:
  "sends_none (now env)" "sends_none (onError e)" "sends_none (onWarning s)" "sends_none (waitFor env d)"
  "sends_none setStop" "sends_none (ship env m d)" "sends_none (loadStop env)" "sends_none (call env (HJitter n))"
  "sends_none (call env (HSeen k))" "sends_none (call env HCounter)"
  by (simp_all add: sends_none_def wp_simps loadStop_def)

lemma sends_none_ops [simp, intro!]:
  "sends_none (retryBackoff env a)" "sends_none (token_expiry env lib data)" "sends_none (shipRecord env rec)"
  "sends_none (newRequestID env)" "sends_none (harmony_seen env k)" "sends_none (report_query err)"
  by (auto simp: retryBackoff_def token_expiry_def shipRecord_def ship_retry_def newRequestID_def harmony_seen_def
      report_query_def Let_def split: option.split prod.split harmony_err.split)

text \<open>
  \<open>answered env lib h body d\<close>: in a history that continues \<open>h\<close> with requests that carry \<open>body\<close> or log in, the
  environment answers such a request with bytes that decode to \<open>d\<close>.
\<close>

definition plain :: "harmony_body \<Rightarrow> harmony_req list \<Rightarrow> bool" where
  "plain b rs \<longleftrightarrow> (\<forall>r \<in> set rs. hr_body r = b \<or> (\<exists>i k. hr_body r = AuthBody i k))"

lemma plain_simps [simp]: "plain b []" "plain b (rs @ rs') \<longleftrightarrow> plain b rs \<and> plain b rs'"
  "plain b (r # rs) \<longleftrightarrow> (hr_body r = b \<or> (\<exists>i k. hr_body r = AuthBody i k)) \<and> plain b rs"
  by (auto simp: plain_def)

lemma plain_replicate [simp]: "plain b (replicate n r) \<longleftrightarrow> n = 0 \<or> hr_body r = b \<or> (\<exists>i k. hr_body r = AuthBody i k)"
  by (auto simp: plain_def)

definition tried ::
    "harmony_env \<Rightarrow> harmony_req \<Rightarrow> harmony_req list \<Rightarrow> nat \<Rightarrow> go_err + (nat \<times> string) \<Rightarrow> (harmony_query, harmony_answer) world \<Rightarrow> bool" where
  "tried env req rs k r w' \<longleftrightarrow> (\<exists>n \<le> k. reqs (hist w') = rs @ replicate n req \<and>
     (\<forall>st b. r = Inr (st, b) \<longrightarrow> n \<noteq> 0 \<and> \<not> isTransientStatus st \<and>
        (b \<noteq> '''' \<longrightarrow> (\<exists>h re. reqs h = rs @ replicate (n - 1) req \<and>
           e_call env h (HRequest req) = HHttp (Resp st re (Inr b))))))"

lemma tried_none: "reqs (hist w') = rs \<Longrightarrow> tried env req rs k (Inl e) w'"
  unfolding tried_def by (rule exI [of _ 0]) simp

lemma tried_error: "reqs (hist w') = rs @ [req] \<Longrightarrow> tried env req rs (Suc k) (Inl e) w'"
  unfolding tried_def by (rule exI [of _ 1]) simp

lemma tried_answer:
  assumes "reqs (hist w') = reqs h @ [req]" "\<not> isTransientStatus st" "e_call env h (HRequest req) = HHttp (Resp st re d)"
  shows "tried env req (reqs h) (Suc k) (Inr (st, case d of Inr b \<Rightarrow> b | Inl _ \<Rightarrow> '''')) w'"
  unfolding tried_def using assms by (intro exI [of _ 1]) (auto split: sum.splits)

lemma tried_more:
  assumes "tried env req (rs @ [req]) k r w'"
  shows "tried env req rs (Suc k) r w'"
proof -
  obtain n where n: "n \<le> k" "reqs (hist w') = rs @ replicate (Suc n) req"
    "\<forall>st b. r = Inr (st, b) \<longrightarrow> n \<noteq> 0 \<and> \<not> isTransientStatus st \<and>
      (b \<noteq> '''' \<longrightarrow> (\<exists>h re. reqs h = rs @ [req] @ replicate (n - 1) req \<and>
         e_call env h (HRequest req) = HHttp (Resp st re (Inr b))))"
    using assms unfolding tried_def by auto
  have "[req] @ replicate (n - 1) req = replicate n req" if "n \<noteq> 0" using that by (cases n) simp_all
  with n show ?thesis unfolding tried_def by (intro exI [of _ "Suc n"]) auto
qed

lemma harmony_attempts_spec: "wp (harmony_attempts env lib req k tries e) (tried env req (reqs (hist w)) k) w"
proof (induction k arbitrary: tries e w)
  case 0
  then show ?case by (simp add: wp_simps tried_none)
next
  case (Suc k)
  have turn: "wp (do { r \<leftarrow> call env (HRequest req);
       case r of
         HHttp (NewRequestErr e) \<Rightarrow> ret (Inl e)
       | HHttp (DoErr e) \<Rightarrow>
           if \<not> isTransientErr lib e then ret (Inl e) else harmony_attempts env lib req k (tries + 1) e
       | HHttp (Resp st _ d) \<Rightarrow>
           if isTransientStatus st then harmony_attempts env lib req k (tries + 1) (GoErr ''%s: HTTP %d: %s'')
           else ret (Inr (st, case d of Inr respBody \<Rightarrow> respBody | Inl _ \<Rightarrow> ''''))
       | _ \<Rightarrow> ret (Inl (GoErr '''')) }) (tried env req (reqs (hist v)) (Suc k)) v" for v
  proof -
    let ?r = "e_call env (hist v) (HRequest req)"
    let ?v1 = "v\<lparr>hist := ECall (HRequest req) ?r # hist v\<rparr>"
    have more: "wp (harmony_attempts env lib req k t e) (tried env req (reqs (hist v)) (Suc k)) ?v1" for t e
      by (rule wp_mono [OF Suc.IH]) (rule tried_more, simp)
    have ans: "tried env req (reqs (hist v)) (Suc k) (Inr (st, case d of Inr b \<Rightarrow> b | Inl _ \<Rightarrow> '''')) ?v1"
      if "?r = HHttp (Resp st re d)" "\<not> isTransientStatus st" for st re d
      by (rule tried_answer [where h = "hist v", OF _ that(2,1)]) simp
    have err: "tried env req (reqs (hist v)) (Suc k) (Inl e) ?v1" for e
      by (rule tried_error) simp
    show ?thesis
    proof (cases ?r)
      case (HHttp x)
      then show ?thesis using more ans err by (cases x) (simp_all add: wp_bind wp_call wp_ret)
    qed (use err in \<open>simp_all add: wp_bind wp_call wp_ret\<close>)
  qed
  have wait: "sends_none (if tries > 0 then do { d \<leftarrow> retryBackoff env tries; waitFor env d } else ret False)"
    by auto
  show ?case
    unfolding harmony_attempts.simps
  proof (subst wp_bind, rule sends_none_wp [OF wait])
    fix aborted and v :: "(harmony_query, harmony_answer) world"
    assume v: "reqs (hist v) = reqs (hist w)"
    then show "wp (if aborted then ret (Inl (GoErr ''%s: aborted during retry backoff'')) else do {
        r \<leftarrow> call env (HRequest req);
        case r of
          HHttp (NewRequestErr e) \<Rightarrow> ret (Inl e)
        | HHttp (DoErr e) \<Rightarrow>
            if \<not> isTransientErr lib e then ret (Inl e) else harmony_attempts env lib req k (tries + 1) e
        | HHttp (Resp st _ d) \<Rightarrow>
            if isTransientStatus st then harmony_attempts env lib req k (tries + 1) (GoErr ''%s: HTTP %d: %s'')
            else ret (Inr (st, case d of Inr respBody \<Rightarrow> respBody | Inl _ \<Rightarrow> ''''))
        | _ \<Rightarrow> ret (Inl (GoErr '''')) }) (tried env req (reqs (hist w)) (Suc k)) v"
      using turn [of v] by (simp add: tried_none wp_ret)
  qed
qed

lemma harmony_getToken_spec:
  "wp (harmony_getToken env lib c force tok) (\<lambda>r w'. \<exists>n \<le> maxRequestAttempts.
     reqs (hist w') = reqs (hist w) @ replicate n (auth_req c)) w"
proof -
  let ?R = "\<lambda>w'. \<exists>n \<le> maxRequestAttempts. reqs (hist w') = reqs (hist w) @ replicate n (auth_req c)"
  have renew: "wp (doHTTPWithRetry env lib (auth_req c)) (\<lambda>r. ?R) v" if "reqs (hist v) = reqs (hist w)" for v
    unfolding doHTTPWithRetry_def
    by (rule wp_mono [OF harmony_attempts_spec]) (use that in \<open>auto simp: tried_def\<close>)
  have tail: "wp m (\<lambda>_. ?R) v" if "sends_none m" "?R v" for m :: "((go_err + string) \<times> harmony_token) harmony_io" and v
    by (rule sends_none_wp [OF that(1)]) (use that(2) in auto)
  have check: "sends_none (if force \<or> cachedToken tok = '''' then ret False
       else do { t \<leftarrow> now env; ret (t + tokenRefreshSkew < tokenExpires tok) })" by auto
  show ?thesis
    unfolding harmony_getToken_def
  proof (subst wp_bind, rule sends_none_wp [OF check])
    fix fresh :: bool and v :: "(harmony_query, harmony_answer) world"
    assume v: "reqs (hist v) = reqs (hist w)"
    have none: "?R v" using v by (intro exI [of _ 0]) simp
    show "wp (if fresh then ret (Inr (cachedToken tok), tok)
     else do {
       r \<leftarrow> doHTTPWithRetry env lib (auth_req c);
       case r of
         Inl e \<Rightarrow> ret (Inl (GoWrap ''auth request: %v'' e), tok)
       | Inr (st, respBody) \<Rightarrow>
           if st < 200 \<or> st \<ge> 300 then ret (Inl (GoErr ''auth HTTP %d: %s''), tok)
           else (case hl_unmarshal lib respBody of
             Inl e \<Rightarrow> ret (Inl (GoWrap ''auth decode: %v'' e), tok)
           | Inr parsed \<Rightarrow>
               (let data = dict_field parsed ''data''; token = fst (GetString data ''token'') in
                if token = '''' then ret (Inl (GoErr ''auth response missing token: %s''), tok)
                else do {
                  expires \<leftarrow> token_expiry env lib data;
                  ret (Inr token, \<lparr>cachedToken = token, tokenExpires = expires\<rparr>)
                }))
     }) (\<lambda>_. ?R) v"
    proof (cases fresh)
      case False
      show ?thesis
        unfolding if_not_P [OF False]
        by (rule wp_bindI [OF renew [OF v]]) (rule tail, auto simp: Let_def split: sum.split prod.split)
    qed (use none in \<open>simp add: wp_ret\<close>)
  qed
qed

text \<open>
  What a request with a token does: it sends at most four times four requests, which carry its body or log in, and a
  result without error comes from decoding an answer to one that carries its body.
\<close>

definition asked_for ::
    "harmony_env \<Rightarrow> harmony_lib \<Rightarrow> harmony_body \<Rightarrow> harmony_req list \<Rightarrow> go_err + dict \<Rightarrow> harmony_req list \<Rightarrow> bool" where
  "asked_for env lib b rs r sent \<longleftrightarrow> plain b sent \<and> length sent \<le> 4 * maxRequestAttempts \<and>
     (\<forall>d. r = Inr d \<longrightarrow> (\<exists>q \<in> set sent. hr_body q = b) \<and>
        (d \<noteq> [] \<longrightarrow> (\<exists>h q st re bytes rs'. reqs h = rs @ rs' \<and> plain b rs' \<and> hr_body q = b \<and>
           e_call env h (HRequest q) = HHttp (Resp st re (Inr bytes)) \<and> hl_unmarshal lib bytes = Inr d)))"

text \<open>An answer to a request with this body: where it was given.\<close>

definition answered :: "harmony_env \<Rightarrow> harmony_body \<Rightarrow> harmony_req list \<Rightarrow> nat \<times> string \<Rightarrow> bool" where
  "answered env b rs answer \<longleftrightarrow> snd answer \<noteq> '''' \<longrightarrow>
     (\<exists>h q re rs'. reqs h = rs @ rs' \<and> plain b rs' \<and> hr_body q = b \<and>
        e_call env h (HRequest q) = HHttp (Resp (fst answer) re (Inr (snd answer))))"

lemma answered_later: "answered env b (rs @ rs') answer \<Longrightarrow> plain b rs' \<Longrightarrow> answered env b rs answer"
  unfolding answered_def by (metis append.assoc plain_simps(2))

lemma doHTTP_answered:
  assumes "hr_body req = b"
  shows "wp (doHTTPWithRetry env lib req) (\<lambda>r w'. \<exists>n \<le> maxRequestAttempts. reqs (hist w') = reqs (hist w) @ replicate n req \<and>
    (\<forall>answer. r = Inr answer \<longrightarrow> n \<noteq> 0 \<and> answered env b (reqs (hist w)) answer)) w"
  unfolding doHTTPWithRetry_def
proof (rule wp_mono [OF harmony_attempts_spec])
  fix r and w' :: "(harmony_query, harmony_answer) world"
  assume "tried env req (reqs (hist w)) maxRequestAttempts r w'"
  then obtain n where n: "n \<le> maxRequestAttempts" "reqs (hist w') = reqs (hist w) @ replicate n req"
    "\<forall>st b. r = Inr (st, b) \<longrightarrow> n \<noteq> 0 \<and> \<not> isTransientStatus st \<and>
      (b \<noteq> '''' \<longrightarrow> (\<exists>h re. reqs h = reqs (hist w) @ replicate (n - 1) req \<and>
         e_call env h (HRequest req) = HHttp (Resp st re (Inr b))))"
    unfolding tried_def by blast
  have "n \<noteq> 0 \<and> answered env b (reqs (hist w)) answer" if "r = Inr answer" for answer
  proof -
    obtain st bs where a: "answer = (st, bs)" by fastforce
    have "plain b (replicate (n - 1) req)" using assms by simp
    then show ?thesis using n(3) that assms unfolding a answered_def by fastforce
  qed
  with n show "\<exists>n \<le> maxRequestAttempts. reqs (hist w') = reqs (hist w) @ replicate n req \<and>
      (\<forall>answer. r = Inr answer \<longrightarrow> n \<noteq> 0 \<and> answered env b (reqs (hist w)) answer)" by blast
qed

lemma hr_body_auth_req [simp]: "hr_body (auth_req c) = AuthBody (h_ClientID c) (h_AccessKey c)"
  by (simp add: auth_req_def)

lemma harmony_reissue_spec:
  assumes "hr_body req = b"
  shows "wp (harmony_reissue env lib c req answer tok) (\<lambda>r w'. \<exists>rs. reqs (hist w') = reqs (hist w) @ rs \<and> plain b rs \<and>
    length rs \<le> 2 * maxRequestAttempts \<and>
    (\<forall>a. fst r = Inr a \<longrightarrow> a = answer \<or> (\<exists>q \<in> set rs. hr_body q = b) \<and> answered env b (reqs (hist w)) a)) w"
    (is "wp _ ?Q w")
proof (cases "fst answer = 401")
  case True
  have send: "wp (do { r \<leftarrow> doHTTPWithRetry env lib (req\<lparr>hr_token := Some token\<rparr>); ret (r, tok') }) ?Q v"
    if n: "n \<le> maxRequestAttempts" "reqs (hist v) = reqs (hist w) @ replicate n (auth_req c)" for token tok' v n
    unfolding wp_bind wp_ret
  proof (rule wp_mono [OF doHTTP_answered [of "req\<lparr>hr_token := Some token\<rparr>" b]])
    fix r :: "go_err + nat \<times> string" and w' :: "(harmony_query, harmony_answer) world"
    let ?q = "req\<lparr>hr_token := Some token\<rparr>"
    assume "\<exists>m \<le> maxRequestAttempts. reqs (hist w') = reqs (hist v) @ replicate m ?q \<and>
      (\<forall>answer. r = Inr answer \<longrightarrow> m \<noteq> 0 \<and> answered env b (reqs (hist v)) answer)"
    then obtain m where m: "m \<le> maxRequestAttempts" "reqs (hist w') = reqs (hist v) @ replicate m ?q"
      "\<forall>answer. r = Inr answer \<longrightarrow> m \<noteq> 0 \<and> answered env b (reqs (hist v)) answer" by blast
    let ?rs = "replicate n (auth_req c) @ replicate m ?q"
    have "reqs (hist w') = reqs (hist w) @ ?rs" "plain b ?rs" "length ?rs \<le> 2 * maxRequestAttempts"
      using m n assms by simp_all
    moreover have "(\<exists>q \<in> set ?rs. hr_body q = b) \<and> answered env b (reqs (hist w)) a" if "r = Inr a" for a
      using m(3) that assms answered_later [of env b "reqs (hist w)" "replicate n (auth_req c)" a] n(2) by auto
    ultimately show "?Q (r, tok') w'" by (intro exI [of _ ?rs]) auto
  qed (simp add: assms)
  show ?thesis
    unfolding harmony_reissue_def if_P [OF True] wp_bind
  proof (rule wp_mono [OF harmony_getToken_spec])
    fix x :: "(go_err + string) \<times> harmony_token" and v :: "(harmony_query, harmony_answer) world"
    assume "\<exists>n \<le> maxRequestAttempts. reqs (hist v) = reqs (hist w) @ replicate n (auth_req c)"
    then obtain n where n: "n \<le> maxRequestAttempts" "reqs (hist v) = reqs (hist w) @ replicate n (auth_req c)" by blast
    obtain t tok' where x: "x = (t, tok')" by fastforce
    show "wp (case x of (t, tok') \<Rightarrow> (case t of Inl e \<Rightarrow> ret (Inl e, tok')
        | Inr token \<Rightarrow> do { r \<leftarrow> doHTTPWithRetry env lib (req\<lparr>hr_token := Some token\<rparr>); ret (r, tok') })) ?Q v"
    proof (cases t)
      case Inl
      then show ?thesis using n by (auto simp: x wp_ret intro!: exI [of _ "replicate n (auth_req c)"])
    qed (use send [OF n] in \<open>simp add: x\<close>)
  qed
qed (auto simp: harmony_reissue_def wp_ret intro: exI [of _ "[]"])

lemma decode_answered:
  assumes "decode_answer lib a = Inr d" "d \<noteq> []" "answered env b rs a"
  shows "\<exists>h q st re bytes rs'. reqs h = rs @ rs' \<and> plain b rs' \<and> hr_body q = b \<and>
    e_call env h (HRequest q) = HHttp (Resp st re (Inr bytes)) \<and> hl_unmarshal lib bytes = Inr d"
proof -
  obtain st bytes where a: "a = (st, bytes)" by fastforce
  with assms(1,2) have "bytes \<noteq> ''''" "hl_unmarshal lib bytes = Inr d"
    by (auto simp: decode_answer_def split: if_splits sum.splits)
  with assms(3) a show ?thesis unfolding answered_def by fastforce
qed

definition asks ::
    "harmony_env \<Rightarrow> harmony_lib \<Rightarrow> harmony_body \<Rightarrow> harmony_req list \<Rightarrow> (go_err + dict) \<times> harmony_token \<Rightarrow>
     (harmony_query, harmony_answer) world \<Rightarrow> bool" where
  "asks env lib b rs r w' \<longleftrightarrow> (\<exists>sent. reqs (hist w') = rs @ sent \<and> asked_for env lib b rs (fst r) sent)"

lemma doAuthRequest_spec:
  "wp (doAuthRequest env lib c m u b reqid tok) (asks env lib b (reqs (hist w))) w" (is "wp _ ?Q w")
proof -
  let ?R = "reqs (hist w)" and ?A = "\<lambda>n. replicate n (auth_req c)"
  have failed: "?Q (Inl e, t) w'" if "reqs (hist w') = ?R @ sent" "plain b sent" "length sent \<le> 4 * maxRequestAttempts"
    for e t w' sent
    using that by (auto simp: asks_def asked_for_def)
  have decoded: "?Q (decode_answer lib a, t) w'" if "reqs (hist w') = ?R @ sent" "plain b sent"
    "length sent \<le> 4 * maxRequestAttempts" "\<exists>q \<in> set sent. hr_body q = b" "answered env b ?R a" for a t w' sent
    using that decode_answered [OF _ _ that(5), of lib] by (auto simp: asks_def asked_for_def)
  have send: "wp (do { r \<leftarrow> doHTTPWithRetry env lib req;
        case r of
          Inl e \<Rightarrow> ret (Inl e, tok1)
        | Inr answer \<Rightarrow> do {
            (r2, tok2) \<leftarrow> harmony_reissue env lib c req answer tok1;
            case r2 of Inl e \<Rightarrow> ret (Inl e, tok2) | Inr answer2 \<Rightarrow> ret (decode_answer lib answer2, tok2) } }) ?Q v"
    if req: "hr_body req = b" and n: "n \<le> maxRequestAttempts" "reqs (hist v) = ?R @ ?A n" for req tok1 v n
    unfolding wp_bind
  proof (rule wp_mono [OF doHTTP_answered [OF req]])
    fix r :: "go_err + nat \<times> string" and v2 :: "(harmony_query, harmony_answer) world"
    assume "\<exists>k \<le> maxRequestAttempts. reqs (hist v2) = reqs (hist v) @ replicate k req \<and>
      (\<forall>answer. r = Inr answer \<longrightarrow> k \<noteq> 0 \<and> answered env b (reqs (hist v)) answer)"
    then obtain k where k: "k \<le> maxRequestAttempts" "reqs (hist v2) = ?R @ (?A n @ replicate k req)"
      "\<And>a. r = Inr a \<Longrightarrow> k \<noteq> 0 \<and> answered env b (?R @ ?A n) a" using n(2) by auto
    have p1: "plain b (?A n)" "plain b (?A n @ replicate k req)" using req by auto
    show "wp (case r of
          Inl e \<Rightarrow> ret (Inl e, tok1)
        | Inr answer \<Rightarrow> do {
            (r2, tok2) \<leftarrow> harmony_reissue env lib c req answer tok1;
            case r2 of Inl e \<Rightarrow> ret (Inl e, tok2) | Inr answer2 \<Rightarrow> ret (decode_answer lib answer2, tok2) }) ?Q v2"
    proof (cases r)
      case (Inl e)
      then show ?thesis using failed [OF k(2) p1(2)] k(1) n(1) by (simp add: wp_ret)
    next
      case (Inr answer)
      have first: "k \<noteq> 0" "answered env b ?R answer" using k(3) [OF Inr] answered_later [OF _ p1(1)] by blast+
      show ?thesis
        unfolding Inr sum.case wp_bind
      proof (rule wp_mono [OF harmony_reissue_spec [OF req]])
        fix x :: "(go_err + nat \<times> string) \<times> harmony_token" and v3 :: "(harmony_query, harmony_answer) world"
        assume "\<exists>rs. reqs (hist v3) = reqs (hist v2) @ rs \<and> plain b rs \<and> length rs \<le> 2 * maxRequestAttempts \<and>
          (\<forall>a. fst x = Inr a \<longrightarrow> a = answer \<or> (\<exists>q \<in> set rs. hr_body q = b) \<and> answered env b (reqs (hist v2)) a)"
        then obtain rs where rs: "reqs (hist v3) = ?R @ (?A n @ replicate k req) @ rs" "plain b rs"
          "length rs \<le> 2 * maxRequestAttempts"
          "\<And>a. fst x = Inr a \<Longrightarrow> a = answer \<or> answered env b (?R @ (?A n @ replicate k req)) a" using k(2) by auto
        let ?sent = "(?A n @ replicate k req) @ rs"
        have s: "plain b ?sent" "length ?sent \<le> 4 * maxRequestAttempts" "\<exists>q \<in> set ?sent. hr_body q = b"
          using p1(2) rs(2,3) k(1) n(1) first(1) req by auto
        have "answered env b ?R a" if "fst x = Inr a" for a
          using rs(4) [OF that] first(2) answered_later [OF _ p1(2)] by blast
        then show "wp (case x of (r2, tok2) \<Rightarrow> (case r2 of Inl e \<Rightarrow> ret (Inl e, tok2)
            | Inr answer2 \<Rightarrow> ret (decode_answer lib answer2, tok2))) ?Q v3"
          using failed [OF rs(1) s(1,2)] decoded [OF rs(1) s] by (cases x; cases "fst x") (simp_all add: wp_ret)
      qed
    qed
  qed
  show ?thesis
    unfolding doAuthRequest_def wp_bind
  proof (rule wp_mono [OF harmony_getToken_spec])
    fix x :: "(go_err + string) \<times> harmony_token" and v :: "(harmony_query, harmony_answer) world"
    assume "\<exists>n \<le> maxRequestAttempts. reqs (hist v) = reqs (hist w) @ ?A n"
    then obtain n where n: "n \<le> maxRequestAttempts" "reqs (hist v) = ?R @ ?A n" by blast
    show "wp (case x of (t, tok1) \<Rightarrow> (case t of Inl e \<Rightarrow> ret (Inl e, tok1)
       | Inr token \<Rightarrow> do {
           let req = \<lparr>hr_method = m, hr_url = u, hr_body = b, hr_token = Some token, hr_reqid = reqid\<rparr>;
           r \<leftarrow> doHTTPWithRetry env lib req;
           case r of
             Inl e \<Rightarrow> ret (Inl e, tok1)
           | Inr answer \<Rightarrow> do {
               (r2, tok2) \<leftarrow> harmony_reissue env lib c req answer tok1;
               case r2 of Inl e \<Rightarrow> ret (Inl e, tok2) | Inr answer2 \<Rightarrow> ret (decode_answer lib answer2, tok2) } })) ?Q v"
      using failed [OF n(2)] send [OF _ n] n(1) by (cases x; cases "fst x") (simp_all add: wp_ret Let_def)
  qed
qed

text \<open>However the gateway behaves, one authenticated call sends at most sixteen requests, each of which carries its
  body or logs in: four attempts each of a login, the call, a new login after a 401 and the call again.\<close>

theorem harmony_requests_bounded:
  "\<exists>sent. reqs (hist (snd (run_state (doAuthRequest env lib c m u b reqid tok) w))) = reqs (hist w) @ sent \<and>
    length sent \<le> 16 \<and> plain b sent"
  using doAuthRequest_spec [of env lib c m u b reqid tok w]
  by (auto simp: wp_def asks_def asked_for_def maxRequestAttempts_def split: prod.splits)

section \<open>The windows of the events source\<close>

fun body_window :: "harmony_body \<Rightarrow> (time \<times> time) list" where
  "body_window (EventsQuery service s e pages lim f) = [(s, e)]"
| "body_window _ = []"

definition asked_windows :: "(harmony_query, harmony_answer) history \<Rightarrow> (time \<times> time) list" where
  "asked_windows h = concat (map (\<lambda>r. body_window (hr_body r)) (reqs h))"

lemma plain_no_window: "plain b rs \<Longrightarrow> body_window b = [] \<Longrightarrow> concat (map (\<lambda>r. body_window (hr_body r)) rs) = []"
  by (induction rs) auto

lemma plain_windows:
  "plain (EventsQuery v s e p l f) rs \<Longrightarrow>
   \<exists>k. concat (map (\<lambda>r. body_window (hr_body r)) rs) = replicate k (s, e) \<and>
     ((\<exists>q \<in> set rs. hr_body q = EventsQuery v s e p l f) \<longrightarrow> k \<noteq> 0)"
proof (induction rs)
  case (Cons r rs)
  then obtain k where k: "concat (map (\<lambda>r. body_window (hr_body r)) rs) = replicate k (s, e)"
    "(\<exists>q \<in> set rs. hr_body q = EventsQuery v s e p l f) \<longrightarrow> k \<noteq> 0" by auto
  show ?case
  proof (cases "hr_body r = EventsQuery v s e p l f")
    case True
    with k show ?thesis by (intro exI [of _ "Suc k"]) auto
  next
    case False
    with Cons.prems k show ?thesis by (intro exI [of _ k]) auto
  qed
qed simp

definition keeps_windows :: "'a harmony_io \<Rightarrow> bool" where
  "keeps_windows m \<longleftrightarrow> (\<forall>w. wp m (\<lambda>_ w'. asked_windows (hist w') = asked_windows (hist w)) w)"

lemma keeps_windows_wp:
  "keeps_windows m \<Longrightarrow> (\<And>x w'. asked_windows (hist w') = asked_windows (hist w) \<Longrightarrow> Q x w') \<Longrightarrow> wp m Q w"
  unfolding keeps_windows_def by (blast intro: wp_mono)

lemma keeps_windows_ret [simp, intro!]: "keeps_windows (ret x)"
  by (simp add: keeps_windows_def wp_simps)

lemma keeps_windows_bind [intro!]: "keeps_windows m \<Longrightarrow> (\<And>x. keeps_windows (f x)) \<Longrightarrow> keeps_windows (State_Monad.bind m f)"
  unfolding keeps_windows_def by (intro allI, rule wp_bindI, blast) (force intro: wp_mono)

lemma sends_none_keeps_windows: "sends_none m \<Longrightarrow> keeps_windows m"
  unfolding sends_none_def keeps_windows_def asked_windows_def by (auto intro: wp_mono)

lemmas keeps_windows_prims [simp, intro!] = sends_none_prims [THEN sends_none_keeps_windows]
  sends_none_ops [THEN sends_none_keeps_windows]

lemma keeps_windows_call: "body_window b = [] \<Longrightarrow> keeps_windows (doAuthRequest env lib c m u b reqid tok)"
  unfolding keeps_windows_def
  by (intro allI, rule wp_mono [OF doAuthRequest_spec])
    (auto simp: asks_def asked_for_def asked_windows_def plain_no_window)

lemma keeps_windows_await [simp, intro!]: "keeps_windows (await_task env lib c taskID deadline fuel tok)"
  by (induction fuel arbitrary: tok) (auto intro!: keeps_windows_call split: sum.split option.split prod.split)

text \<open>What is relied on: the records of a page are not newer than the end of the last window that was asked for.\<close>

definition honours_timeframe :: "harmony_env \<Rightarrow> harmony_lib \<Rightarrow> bool" where
  "honours_timeframe env lib \<longleftrightarrow> (\<forall>h q taskID token st re bytes d rec.
     hr_body q = RetrievePage taskID token \<longrightarrow> e_call env h (HRequest q) = HHttp (Resp st re (Inr bytes)) \<longrightarrow>
     hl_unmarshal lib bytes = Inr d \<longrightarrow> rec \<in> set (page_records d) \<longrightarrow> asked_windows h \<noteq> [] \<longrightarrow>
     extractRecordTime lib rec \<le> snd (last (asked_windows h)))"

lemma page_records_empty [simp]: "page_records [] = []"
  by (simp add: page_records_def dict_field_def list_field_def GetDict_def GetList_def)

lemma retrieve_in_time:
  assumes "honours_timeframe env lib" "asked_windows (hist w) \<noteq> []"
  shows "wp (retrieveEventsPage env lib c taskID token tok) (\<lambda>r w'. asked_windows (hist w') = asked_windows (hist w) \<and>
    (\<forall>recs nt. fst r = Inr (recs, nt) \<longrightarrow> (\<forall>rec \<in> set recs. extractRecordTime lib rec \<le> snd (last (asked_windows (hist w)))))) w"
  unfolding retrieveEventsPage_def wp_bind
proof (rule wp_mono [OF doAuthRequest_spec])
  let ?b = "RetrievePage taskID token"
  fix x :: "(go_err + dict) \<times> harmony_token" and w' :: "(harmony_query, harmony_answer) world"
  assume "asks env lib ?b (reqs (hist w)) x w'"
  then obtain sent where s: "reqs (hist w') = reqs (hist w) @ sent" "asked_for env lib ?b (reqs (hist w)) (fst x) sent"
    by (auto simp: asks_def)
  have same: "asked_windows (hist w') = asked_windows (hist w)"
    using s plain_no_window [of ?b sent] by (simp add: asked_windows_def asked_for_def)
  have "extractRecordTime lib rec \<le> snd (last (asked_windows (hist w)))" if d: "fst x = Inr d" "rec \<in> set (page_records d)" for d rec
  proof -
    have "d \<noteq> []" using d(2) by auto
    with s(2) d(1) obtain h q st re bytes rs' where h: "reqs h = reqs (hist w) @ rs'" "plain ?b rs'" "hr_body q = ?b"
      "e_call env h (HRequest q) = HHttp (Resp st re (Inr bytes))" "hl_unmarshal lib bytes = Inr d"
      unfolding asked_for_def by blast
    have "asked_windows h = asked_windows (hist w)" using h(1) plain_no_window [OF h(2)] by (simp add: asked_windows_def)
    with assms h(3-5) d(2) show ?thesis unfolding honours_timeframe_def by metis
  qed
  with same show "wp (case x of (r, tok') \<Rightarrow> ret (case r of
            Inl e \<Rightarrow> Inl e
          | Inr resp \<Rightarrow> Inr (page_records resp, fst (GetString (dict_field resp ''data'') ''nextPageToken'')), tok'))
     (\<lambda>r w'. asked_windows (hist w') = asked_windows (hist w) \<and>
    (\<forall>recs nt. fst r = Inr (recs, nt) \<longrightarrow> (\<forall>rec \<in> set recs. extractRecordTime lib rec \<le> snd (last (asked_windows (hist w)))))) w'"
    by (auto simp: wp_ret split: prod.split sum.splits)
qed

text \<open>A cursor within a window: none yet, or not after its end.\<close>

definition cursor_ok :: "time \<Rightarrow> time \<Rightarrow> bool" where
  "cursor_ok e t \<longleftrightarrow> t = zero_time \<or> t \<le> e"

lemma ship_records_cursor:
  "(\<forall>rec \<in> set recs. extractRecordTime lib rec \<le> e) \<Longrightarrow> cursor_ok e t \<Longrightarrow>
   wp (ship_records env lib service recs t) (\<lambda>r w'. asked_windows (hist w') = asked_windows (hist w) \<and> cursor_ok e (fst r)) w"
proof (induction recs arbitrary: t w)
  case (Cons rec recs)
  let ?t = "if extractRecordTime lib rec > t then extractRecordTime lib rec else t"
  have ok: "cursor_ok e ?t" using Cons.prems by (auto simp: cursor_ok_def)
  show ?case
    unfolding ship_records.simps Let_def wp_bind
  proof (rule keeps_windows_wp [OF sends_none_ops(3) [THEN sends_none_keeps_windows]], goal_cases)
    case (1 err w')
    with ok Cons.IH [OF _ ok, of w'] Cons.prems(1) show ?case by (cases err) (simp_all add: wp_ret)
  qed
qed (simp add: wp_simps)

lemma events_pages_cursor:
  assumes h: "honours_timeframe env lib"
  shows "asked_windows (hist w) \<noteq> [] \<Longrightarrow> snd (last (asked_windows (hist w))) = e \<Longrightarrow> cursor_ok e t \<Longrightarrow>
    wp (events_pages env lib c service taskID e pages token t tok)
      (\<lambda>r w'. asked_windows (hist w') = asked_windows (hist w) \<and> (\<forall>t' err tok'. r = Some (t', err, tok') \<longrightarrow> cursor_ok e t' \<and>
         (\<forall>i ds. err \<noteq> Some (TaskCanceled i ds)))) w"
proof (induction pages arbitrary: token t tok w)
  case (Suc pages)
  let ?Q = "\<lambda>r w'. asked_windows (hist w') = asked_windows (hist w) \<and> (\<forall>t' err tok'. r = Some (t', err, tok') \<longrightarrow> cursor_ok e t' \<and>
         (\<forall>i ds. err \<noteq> Some (TaskCanceled i ds)))"
  have ships: "wp (do { (t', err) \<leftarrow> ship_records env lib service recs t;
        case err of
          Some e \<Rightarrow> ret (Some (t', Some (OtherErr e), tok'))
        | None \<Rightarrow> if nt = '''' \<or> nt = ''NULL'' then ret (Some (if t' = zero_time then e else t', None, tok'))
                  else events_pages env lib c service taskID e pages nt t' tok' }) ?Q v"
    if v: "asked_windows (hist v) = asked_windows (hist w)" "\<forall>rec \<in> set recs. extractRecordTime lib rec \<le> e"
    for recs nt tok' v
    unfolding wp_bind
  proof (rule wp_mono [OF ship_records_cursor [OF v(2) Suc.prems(3)]], goal_cases)
    case (1 x v')
    obtain t' err where x: "x = (t', err)" by fastforce
    have v': "asked_windows (hist v') = asked_windows (hist w)" "cursor_ok e t'" using 1 v(1) x by simp_all
    have "wp (events_pages env lib c service taskID e pages nt t' tok') ?Q v'"
      using Suc.IH [of v' t' nt tok'] Suc.prems v' by simp
    with v' show ?case by (cases err) (auto simp: x wp_ret cursor_ok_def)
  qed
  show ?case
    unfolding events_pages.simps wp_bind
  proof (rule keeps_windows_wp [OF keeps_windows_prims(7)], goal_cases)
    case (1 stopped w1)
    have turn: "wp (do { (r, tok') \<leftarrow> retrieveEventsPage env lib c taskID token tok;
       case r of
         Inl e \<Rightarrow> ret (Some (t, Some (OtherErr (GoWrap ''retrieveEventsPage: %v'' e)), tok'))
       | Inr (records, nextToken) \<Rightarrow> do {
           (t', err) \<leftarrow> ship_records env lib service records t;
           case err of
             Some e \<Rightarrow> ret (Some (t', Some (OtherErr e), tok'))
           | None \<Rightarrow>
               if nextToken = '''' \<or> nextToken = ''NULL''
               then ret (Some (if t' = zero_time then e else t', None, tok'))
               else events_pages env lib c service taskID e pages nextToken t' tok'
         } }) ?Q w1"
    proof (rule wp_bindI [OF retrieve_in_time [OF h]], goal_cases)
      case (2 x w2)
      obtain r tok' where x: "x = (r, tok')" by fastforce
      show ?case
      proof (cases r)
        case (Inr a)
        obtain recs nt where a: "a = (recs, nt)" by fastforce
        show ?thesis using ships [of w2 recs nt tok'] 1 2 Suc.prems(2) by (simp add: x Inr a)
      qed (use 1 2 Suc.prems(3) in \<open>simp add: x wp_ret\<close>)
    qed (use 1 Suc.prems(1) in simp)
    show ?case
    proof (cases stopped)
      case True
      with 1 Suc.prems(3) show ?thesis by (simp add: wp_ret)
    qed (use turn in simp)
  qed
qed (simp add: wp_simps)

lemma next_cursor_le: "s \<le> e \<Longrightarrow> cursor_ok e t \<Longrightarrow> next_cursor s e t err \<le> e"
  by (auto simp: next_cursor_def cursor_ok_def split: option.split harmony_err.split)

text \<open>One query over a window adds that window, sent once or more, and moves the cursor only after it was sent, to a time
  that is not after its end.\<close>

lemma runOneEventsQuery_cursor:
  assumes h: "honours_timeframe env lib" and le: "s \<le> e"
  shows "wp (runOneEventsQuery env lib c fuel service s e tok)
    (\<lambda>r w'. \<exists>k. asked_windows (hist w') = asked_windows (hist w) @ replicate k (s, e) \<and>
       (\<forall>t err tok'. r = Some (t, err, tok') \<longrightarrow> next_cursor s e t err \<le> e \<and> (k = 0 \<longrightarrow> next_cursor s e t err = s))) w"
    (is "wp _ ?Q w")
proof -
  have none: "?Q None w'" if "asked_windows (hist w') = asked_windows (hist w) @ replicate k (s, e)" for w' k
    using that by auto
  have done1: "?Q (Some (t, err, tok')) w'"
    if "asked_windows (hist w') = asked_windows (hist w) @ replicate k (s, e)" "k = 0 \<longrightarrow> next_cursor s e t err = s"
      "next_cursor s e t err \<le> e" for w' k t err tok'
    using that by auto
  have rest: "wp (do { r \<leftarrow> waitForEventsTask env lib c taskID fuel tok1;
         case r of
           None \<Rightarrow> ret None
         | Some (Inl er, tok2) \<Rightarrow> ret (Some (zero_time, Some er, tok2))
         | Some (Inr [], tok2) \<Rightarrow> ret (Some (e, None, tok2))
         | Some (Inr (token # _), tok2) \<Rightarrow> events_pages env lib c service taskID e fuel token zero_time tok2 }) ?Q v"
    if v: "asked_windows (hist v) = asked_windows (hist w) @ replicate k (s, e)" "k \<noteq> 0" for taskID tok1 v k
    unfolding wp_bind
  proof (rule keeps_windows_wp, goal_cases)
    case 1 show ?case by (auto simp: waitForEventsTask_def)
  next
    case (2 r w2)
    have w2: "asked_windows (hist w2) = asked_windows (hist w) @ replicate k (s, e)" using 2 v(1) by simp
    then have lst: "asked_windows (hist w2) \<noteq> []" "snd (last (asked_windows (hist w2))) = e" using v(2) by simp_all
    have pages: "wp (events_pages env lib c service taskID e fuel token zero_time tok2) ?Q w2" for token tok2
    proof (rule wp_mono [OF events_pages_cursor [OF h lst]], simp add: cursor_ok_def, goal_cases)
      case (1 x w3)
      have w3: "asked_windows (hist w3) = asked_windows (hist w) @ replicate k (s, e)" using 1 w2 by simp
      show ?case
      proof (cases x)
        case None
        then show ?thesis using none [OF w3] by simp
      next
        case (Some y)
        obtain t err t2 where x: "x = Some (t, err, t2)" using Some by (cases y) auto
        with 1 have "cursor_ok e t" "\<And>i ds. err \<noteq> Some (TaskCanceled i ds)" by auto
        from next_cursor_le [OF le this(1)] show ?thesis unfolding x using done1 [OF w3] v(2) by blast
      qed
    qed
    have fin: "?Q (Some (e, None, tok2)) w2" "?Q (Some (zero_time, Some er, tok2)) w2" for tok2 er
      by (rule done1 [OF w2 _ next_cursor_le [OF le]]; use v(2) in \<open>simp add: cursor_ok_def\<close>)+
    show ?case
      using pages fin none [OF w2] by (simp add: wp_ret split: option.split sum.split list.split prod.split)
  qed
  let ?b = "EventsQuery service s e (ev_PageLimit (h_Events c)) (ev_Limit (h_Events c)) (ev_Filter (h_Events c))"
  have submit: "wp (submitEventsQuery env lib c service s e tok) (\<lambda>r w'. \<exists>k.
      asked_windows (hist w') = asked_windows (hist w) @ replicate k (s, e) \<and> (\<forall>i. fst r = Inr i \<longrightarrow> k \<noteq> 0)) w"
    unfolding submitEventsQuery_def wp_bind
  proof (rule wp_mono [OF doAuthRequest_spec], goal_cases)
    case (1 x w')
    then obtain sent where s: "reqs (hist w') = reqs (hist w) @ sent" "asked_for env lib ?b (reqs (hist w)) (fst x) sent"
      by (auto simp: asks_def)
    then obtain k where k: "concat (map (\<lambda>r. body_window (hr_body r)) sent) = replicate k (s, e)"
      "(\<exists>q \<in> set sent. hr_body q = ?b) \<longrightarrow> k \<noteq> 0" using plain_windows unfolding asked_for_def by blast
    then show ?case
      using s by (cases x; cases "fst x") (auto simp: wp_ret asked_windows_def asked_for_def Let_def intro!: exI [of _ k])
  qed
  show ?thesis
    unfolding runOneEventsQuery_def
  proof (rule wp_bindI [OF submit], goal_cases)
    case (1 x w1)
    then obtain k where k: "asked_windows (hist w1) = asked_windows (hist w) @ replicate k (s, e)"
      "\<And>i. fst x = Inr i \<Longrightarrow> k \<noteq> 0" by blast
    obtain r tok1 where x: "x = (r, tok1)" by fastforce
    show ?case
    proof (cases r)
      case (Inl er)
      then show ?thesis using done1 [OF k(1), of zero_time "Some (OtherErr (GoWrap ''submitEventsQuery: %v'' er))" tok1] le
        by (simp add: x wp_ret next_cursor_def)
    next
      case (Inr taskID)
      then show ?thesis using rest [OF k(1) k(2)] by (simp add: x)
    qed
  qed
qed

definition windows_ok :: "time \<Rightarrow> time \<Rightarrow> (harmony_query, harmony_answer) world \<Rightarrow> bool" where
  "windows_ok t0 s w \<longleftrightarrow> (let ws = asked_windows (hist w) in
     linked ws \<and> (\<forall>(a, b) \<in> set ws. a < b) \<and> (ws = [] \<longrightarrow> s = t0) \<and> (ws \<noteq> [] \<longrightarrow> fst (hd ws) = t0 \<and> s \<le> snd (last ws)))"

lemma linked_replicate: "linked ws \<Longrightarrow> (ws \<noteq> [] \<longrightarrow> s \<le> snd (last ws)) \<Longrightarrow> s \<le> e \<Longrightarrow> linked (ws @ replicate k (s, e))"
proof (induction k arbitrary: ws)
  case (Suc k)
  have "linked ((ws @ [(s, e)]) @ replicate k (s, e))"
    using Suc.prems by (intro Suc.IH) (simp_all add: linked_snoc)
  then show ?case by simp
qed simp

lemma windows_ok_query:
  assumes "windows_ok t0 s w" "s < e" "asked_windows (hist w') = asked_windows (hist w) @ replicate k (s, e)"
    and "s' \<le> e" "k = 0 \<longrightarrow> s' = s"
  shows "windows_ok t0 s' w'"
proof (cases k)
  case 0
  with assms show ?thesis by (simp add: windows_ok_def)
next
  case (Suc m)
  have "linked (asked_windows (hist w'))"
    unfolding assms(3) using assms(1,2) by (intro linked_replicate) (auto simp: windows_ok_def Let_def)
  with assms Suc show ?thesis by (auto simp: windows_ok_def Let_def hd_append)
qed

lemma events_loop_windows:
  assumes h: "honours_timeframe env lib"
  shows "windows_ok t0 s w \<Longrightarrow> wp (events_loop env lib c fuel service n s tok) (\<lambda>r w'. windows_ok t0 (fst r) w') w"
proof (induction n arbitrary: s tok w)
  case (Suc n)
  let ?t = "e_now env (hist w)"
  let ?e = "?t - defaultEventsEndLag" and ?w1 = "w\<lparr>hist := ENow ?t # hist w\<rparr>"
  have w1: "windows_ok t0 s ?w1" using Suc.prems by (simp add: windows_ok_def asked_windows_def)
  have wait: "wp (do { stopped \<leftarrow> waitFor env d; if stopped then ret (s', tok') else events_loop env lib c fuel service n s' tok' })
      (\<lambda>r w'. windows_ok t0 (fst r) w') v" if "windows_ok t0 s' v" for d s' tok' v
    using that Suc.IH [of s' _ tok'] by (auto simp: wp_simps windows_ok_def asked_windows_def)
  show ?case
  proof (cases "?e > s")
    case True
    have "wp (do { r \<leftarrow> runOneEventsQuery env lib c fuel service s ?e tok;
       case r of
         None \<Rightarrow> ret (s, tok)
       | Some (newCursor, err, tok') \<Rightarrow> do {
           report_query err;
           stopped \<leftarrow> waitFor env (ev_PollInterval (h_Events c));
           let nextStart' = next_cursor s ?e newCursor err;
           if stopped then ret (nextStart', tok') else events_loop env lib c fuel service n nextStart' tok'
         } }) (\<lambda>r w'. windows_ok t0 (fst r) w') ?w1"
    proof (rule wp_bindI [OF runOneEventsQuery_cursor [OF h]], goal_cases)
      case (2 r w2)
      then obtain k where k: "asked_windows (hist w2) = asked_windows (hist ?w1) @ replicate k (s, ?e)"
        "\<And>t err tok'. r = Some (t, err, tok') \<Longrightarrow> next_cursor s ?e t err \<le> ?e \<and> (k = 0 \<longrightarrow> next_cursor s ?e t err = s)"
        by blast
      show ?case
      proof (cases r)
        case None
        then show ?thesis using windows_ok_query [OF w1 True k(1)] True by (simp add: wp_ret)
      next
        case (Some y)
        obtain t err tok' where y: "y = (t, err, tok')" by (cases y)
        let ?s = "next_cursor s ?e t err"
        have w2: "windows_ok t0 ?s w2" using windows_ok_query [OF w1 True k(1)] k(2) Some y by simp
        have "wp (do { report_query err; stopped \<leftarrow> waitFor env (ev_PollInterval (h_Events c));
            if stopped then ret (?s, tok') else events_loop env lib c fuel service n ?s tok' })
            (\<lambda>r w'. windows_ok t0 (fst r) w') w2"
          by (subst wp_bind, rule keeps_windows_wp [OF sends_none_ops(6) [THEN sends_none_keeps_windows]], rule wait)
            (use w2 in \<open>simp add: windows_ok_def\<close>)
        then show ?thesis by (simp add: Some y Let_def)
      qed
    qed (use True in simp)
    with True show ?thesis
      unfolding events_loop.simps wp_bind [of "now env"] wp_now by (simp only: Let_def simp_thms if_False if_True)
  next
    case False
    with wait [OF w1] show ?thesis by (simp add: Let_def wp_bind [of "now env"] wp_now)
  qed
qed (simp add: wp_simps)

text \<open>C11: the windows the events source asks for leave no gap, whatever fails: when the service gives no record newer than the
  end of the window that was asked for last, every moment from an hour before the start of the worker to the end of its last
  query lies in a window it asked for.\<close>

theorem harmony_events_no_gap:
  assumes "honours_timeframe env lib" "hist w = []"
    and ws: "ws = asked_windows (hist (snd (run_state (fetchEventsForService env lib c fuel service n tok) w)))"
    and x: "e_now env [] - defaultEventsInitialLookback \<le> x" "ws \<noteq> []" "x \<le> snd (last ws)"
  shows "\<exists>(s, e) \<in> set ws. s \<le> x \<and> x \<le> e"
proof -
  let ?t0 = "e_now env [] - defaultEventsInitialLookback"
  let ?w1 = "w\<lparr>hist := [ENow (e_now env [])]\<rparr>"
  have "windows_ok ?t0 ?t0 ?w1" by (simp add: windows_ok_def asked_windows_def)
  from events_loop_windows [OF assms(1) this] have "wp (fetchEventsForService env lib c fuel service n tok)
      (\<lambda>r w'. windows_ok ?t0 (fst r) w') w"
    by (simp add: fetchEventsForService_def wp_bind [of "now env"] wp_now assms(2))
  then have "linked ws" "fst (hd ws) = ?t0" using x(2) unfolding ws by (auto simp: wp_def windows_ok_def Let_def case_prod_beta)
  with linked_covers [of ws x] x show ?thesis by simp
qed

section \<open>Emails once\<close>

lemma wp_shipRecord:
  assumes "\<And>w' as. adds w [JsonPayload rec] as w' \<Longrightarrow> Q None w'" "\<And>e w' as. adds w [] as w' \<Longrightarrow> Q (Some e) w'"
  shows "wp (shipRecord env rec) Q w"
proof -
  have "wp (shipRecord env rec) (\<lambda>r w'. \<exists>as. adds w (if r = None then [JsonPayload rec] else []) as w') w"
    by (auto simp: shipRecord_def ship_retry_def wp_simps adds_def split: option.split)
  then show ?thesis by (rule wp_mono) (auto split: if_splits intro: assms)
qed

lemma quiet_attempts_harmony: "quiet_io (harmony_attempts env lib req k tries e)"
  by (induction k arbitrary: tries e) (auto simp: retryBackoff_def Let_def split: harmony_answer.split http.split)

lemma quiet_token [simp, intro!]: "quiet_io (harmony_getToken env lib c force tok)"
  unfolding harmony_getToken_def doHTTPWithRetry_def token_expiry_def
  by (auto simp: Let_def intro!: quiet_attempts_harmony split: sum.split prod.split option.split)

lemma quiet_call_harmony [simp, intro!]: "quiet_io (doAuthRequest env lib c m u b reqid tok)"
  unfolding doAuthRequest_def harmony_reissue_def doHTTPWithRetry_def
  by (auto simp: Let_def intro!: quiet_attempts_harmony split: sum.split prod.split)

lemma quiet_harmony_ops [simp, intro!]:
  "quiet_io (newRequestID env)" "quiet_io (harmony_seen env k)" "quiet_io (loadStop env)"
  by (auto simp: newRequestID_def harmony_seen_def loadStop_def Let_def)

definition checked :: "string \<Rightarrow> (harmony_query, harmony_answer) history \<Rightarrow> bool" where
  "checked k h \<longleftrightarrow> (\<exists>r. ECall (HSeen k) r \<in> set h)"

text \<open>What is relied on while no key expires: a key that was asked for is a duplicate.\<close>

definition harmony_remembers :: "harmony_env \<Rightarrow> bool" where
  "harmony_remembers env \<longleftrightarrow> (\<forall>h k. checked k h \<longrightarrow> e_call env h (HSeen k) = HKnown True)"

definition emails_ok :: "(harmony_query, harmony_answer) world \<Rightarrow> bool" where
  "emails_ok w \<longleftrightarrow> distinct (map emailDedupKey (delivered_docs (hist w))) \<and>
     (\<forall>d \<in> set (delivered_docs (hist w)). checked (emailDedupKey d) (hist w))"

lemma emails_ok_adds: "emails_ok w \<Longrightarrow> adds w [] as w' \<Longrightarrow> emails_ok w'"
  unfolding emails_ok_def adds_def delivered_docs_def by (clarsimp simp: checked_def) blast

lemma emails_ok_quiet: "quiet_io m \<Longrightarrow> emails_ok w \<Longrightarrow> wp m (\<lambda>_ w'. emails_ok w') w"
  by (rule wpI) (drule quiet_ioD, assumption, erule emails_ok_adds, assumption)

lemma emailDedupKey_annotate [simp]: "emailDedupKey (annotate_email saas rec) = emailDedupKey rec"
  by (simp add: emailDedupKey_def annotate_email_def dict_field_def GetDict_def)

lemma emails_ok_ship:
  assumes "emails_ok w" "checked (emailDedupKey rec) (hist w)"
    and "emailDedupKey rec \<notin> emailDedupKey ` set (delivered_docs (hist w))"
  shows "wp (shipRecord env (annotate_email saas rec)) (\<lambda>_ w'. emails_ok w') w"
proof (rule wp_shipRecord)
  fix w' as assume a: "adds w [JsonPayload (annotate_email saas rec)] as w'"
  obtain h where h: "hist w' = h @ hist w" using a by (auto simp: adds_def)
  have "delivered_docs (hist w') = delivered_docs (hist w) @ [annotate_email saas rec]"
    using a by (simp add: adds_def delivered_docs_def)
  with assms h show "emails_ok w'" unfolding emails_ok_def by (auto simp: checked_def)
qed (use assms(1) emails_ok_adds in blast)

lemma emails_ok_records:
  assumes "harmony_remembers env"
  shows "emails_ok w \<Longrightarrow> wp (ship_emails env saas recs) (\<lambda>_ w'. emails_ok w') w"
proof (induction recs arbitrary: w)
  case (Cons rec recs)
  let ?k = "emailDedupKey rec"
  let ?r = "e_call env (hist w) (HSeen ?k)" and ?w1 = "w\<lparr>hist := ECall (HSeen ?k) (e_call env (hist w) (HSeen ?k)) # hist w\<rparr>"
  have w1: "emails_ok ?w1" by (rule emails_ok_adds [OF Cons.prems, where as = "[]"]) (simp add: adds_def)
  show ?case
  proof (cases "?k = '''' \<or> ?r = HKnown True")
    case True
    then show ?thesis using Cons.IH [OF Cons.prems] Cons.IH [OF w1] by (auto simp: Let_def harmony_seen_def wp_simps)
  next
    case False
    have "\<not> checked ?k (hist w)" using False assms by (auto simp: harmony_remembers_def)
    then have "?k \<notin> emailDedupKey ` set (delivered_docs (hist w))" using Cons.prems by (auto simp: emails_ok_def)
    moreover have "delivered_docs (hist ?w1) = delivered_docs (hist w)" by (simp add: delivered_docs_def)
    ultimately have s: "wp (shipRecord env (annotate_email saas rec)) (\<lambda>_ w'. emails_ok w') ?w1"
      by (intro emails_ok_ship [OF w1]) (auto simp: checked_def)
    have "wp (do { err \<leftarrow> shipRecord env (annotate_email saas rec);
          case err of Some e \<Rightarrow> ret (Some e) | None \<Rightarrow> ship_emails env saas recs }) (\<lambda>_ w'. emails_ok w') ?w1"
      by (rule wp_bindI [OF s]) (auto simp: wp_simps intro: Cons.IH split: option.split)
    with False show ?thesis by (simp add: Let_def harmony_seen_def wp_simps)
  qed
qed (simp add: wp_simps)

lemma emails_ok_pages:
  assumes "harmony_remembers env"
  shows "emails_ok w \<Longrightarrow> wp (emails_pages env lib c saas entity sd ed pages scroll tok) (\<lambda>_ w'. emails_ok w') w"
proof (induction pages arbitrary: scroll tok w)
  case (Suc pages)
  have ships: "wp (do { err \<leftarrow> ship_emails env saas recs;
        case err of Some e \<Rightarrow> ret (Some e, tok')
        | None \<Rightarrow> if s = '''' then ret (None, tok') else emails_pages env lib c saas entity sd ed pages s tok' }) (\<lambda>_ w'. emails_ok w') v"
    if "emails_ok v" for recs s tok' v
    by (rule wp_bindI [OF emails_ok_records [OF assms that]]) (auto simp: wp_simps intro: Suc.IH split: option.split)
  show ?case
    unfolding emails_pages.simps
  proof (rule wp_bindI [OF emails_ok_quiet [OF quiet_harmony_ops(3) Suc.prems]], goal_cases)
    case (1 stopped w1)
    have "wp (do { reqid \<leftarrow> newRequestID env;
       (r, tok') \<leftarrow> doAuthRequest env lib c ''POST'' (h_URL c @ hecSearchEntityPath)
         (EntitySearch saas entity sd ed scroll) (Some reqid) tok;
       case r of
         Inl e \<Rightarrow> ret (Some e, tok')
       | Inr resp \<Rightarrow>
           (let nextScroll = fst (GetString (dict_field resp ''responseEnvelope'') ''scrollId'');
                records = fst (GetListOfDict resp ''responseData'')
            in if records = [] then ret (None, tok')
               else do {
                 err \<leftarrow> ship_emails env saas records;
                 case err of
                   Some e \<Rightarrow> ret (Some e, tok')
                 | None \<Rightarrow> if nextScroll = '''' then ret (None, tok')
                           else emails_pages env lib c saas entity sd ed pages nextScroll tok'
               }) }) (\<lambda>_ w'. emails_ok w') w1"
    proof (rule wp_bindI [OF emails_ok_quiet [OF quiet_harmony_ops(1) 1]], rule wp_bindI [OF emails_ok_quiet [OF quiet_call_harmony]], assumption, goal_cases)
      case (1 reqid w2 x w3)
      then show ?case using ships [OF 1(2)] by (cases x; cases "fst x") (simp_all add: Let_def wp_ret)
    qed
    with 1 show ?case by (simp add: wp_ret)
  qed
qed (simp add: wp_simps)

lemma emails_ok_query:
  assumes "harmony_remembers env" "emails_ok w"
  shows "wp (runOneEmailsQuery env lib c saas tok) (\<lambda>_ w'. emails_ok w') w"
proof -
  have "wp (do { t1 \<leftarrow> now env; t2 \<leftarrow> now env; emails_pages env lib c saas entity (t1 - em_Lookback (h_Emails c)) t2 maxEmailsPages '''' tok })
      (\<lambda>_ w'. emails_ok w') w" for entity
    by (rule wp_bindI [OF emails_ok_quiet [OF _ assms(2)]], simp, rule wp_bindI [OF emails_ok_quiet], simp, assumption)
      (rule emails_ok_pages [OF assms(1)])
  then show ?thesis using assms(2) by (simp add: runOneEmailsQuery_def wp_ret split: option.split)
qed

lemma emails_ok_loop:
  assumes "harmony_remembers env"
  shows "emails_ok w \<Longrightarrow> wp (fetchEmailsForSaas env lib c saas n tok) (\<lambda>_ w'. emails_ok w') w"
proof (induction n arbitrary: tok w)
  case (Suc n)
  have rest: "wp (do { (err, tok') \<leftarrow> runOneEmailsQuery env lib c saas tok;
       (case err of Some e \<Rightarrow> onError (GoWrap ''harmony[emails:%s]: %v'' e) | None \<Rightarrow> ret ());
       woken \<leftarrow> waitFor env (em_PollInterval (h_Emails c));
       if woken then ret tok' else fetchEmailsForSaas env lib c saas n tok' }) (\<lambda>_ w'. emails_ok w') v" if "emails_ok v" for v
  proof (rule wp_bindI [OF emails_ok_query [OF assms that]], goal_cases)
    case (1 x w2)
    obtain err tok' where x: "x = (err, tok')" by fastforce
    have report: "quiet_io (case err of Some e \<Rightarrow> onError (GoWrap ''harmony[emails:%s]: %v'' e) | None \<Rightarrow> ret ())"
      by (auto split: option.split)
    show ?case
      unfolding x prod.case
      by (rule wp_bindI [OF emails_ok_quiet [OF report 1]], rule wp_bindI [OF emails_ok_quiet], simp, assumption)
        (auto simp: wp_simps intro: Suc.IH)
  qed
  show ?case
    unfolding fetchEmailsForSaas.simps
    by (rule wp_bindI [OF emails_ok_quiet [OF quiet_harmony_ops(3) Suc.prems]]) (use rest in \<open>simp add: wp_ret\<close>)
qed (simp add: wp_simps)

text \<open>C12: while the deduper forgets nothing (a key it was asked for is a duplicate from then on), a worker of the emails source delivers no two records with the same entity and
  update time, over any number of polls, however the windows and the pages of the scrolls overlap.\<close>

theorem harmony_emails_once:
  assumes "harmony_remembers env" "hist w = []"
  shows "distinct (map emailDedupKey (delivered_docs (hist (snd (run_state (fetchEmailsForSaas env lib c saas n tok) w)))))"
proof -
  have "emails_ok w" using assms(2) by (simp add: emails_ok_def)
  from emails_ok_loop [OF assms(1) this, of lib c saas n tok] show ?thesis
    by (simp add: wp_def case_prod_beta emails_ok_def)
qed

section \<open>Concrete runs\<close>

definition demo_emails :: emails_config where
  "demo_emails = \<lparr>em_Enabled = True, em_Saas = [''google_mail''], em_PollInterval = 5 * minute, em_Lookback = 48 * hour\<rparr>"

definition demo_harmony :: harmony_config where
  "demo_harmony = \<lparr>h_ClientID = ''i'', h_AccessKey = ''k'', h_URL = ''u'',
     h_Events = \<lparr>ev_Enabled = True, ev_CloudServices = [''s''], ev_Filter = '''', ev_PollInterval = 60 * second, ev_PageLimit = 100,
       ev_Limit = 5000\<rparr>, h_Emails = demo_emails\<rparr>"

text \<open>Answers are texts that the decoder of the demonstration knows.\<close>

definition demo_decoder :: "string \<Rightarrow> go_err + dict" where
  "demo_decoder s =
     (if s = ''login'' then Inr [(''data'', GMap [(''token'', GString ''t'')])]
      else if s = ''task'' then Inr [(''data'', GMap [(''taskId'', GString ''1''), (''state'', GString ''Done'')])]
      else Inr [])"

definition demo_hlib :: harmony_lib where
  "demo_hlib = \<lparr>hl_parseNano = \<lambda>_. None, hl_parse1123 = \<lambda>_. None, hl_unmarshal = demo_decoder, hl_marshal = \<lambda>_. None,
     hl_oor = \<lambda>_. 0, hl_timeout = \<lambda>_. False, hl_text = \<lambda>_. ''''\<rparr>"

lemma harmony_dedup_covers_lookback_witness:
  "\<exists>d. emails_Start False demo_emails = Returns (Some d)"
  using harmony_dedup_covers_lookback [of demo_emails 48] by (auto simp: demo_emails_def)

text \<open>
  A service whose deduper knows a key once it was asked for it, and whose search gives the same records again with
  duplicates, and a record that was updated.
\<close>

definition mail :: "string \<Rightarrow> string \<Rightarrow> gval" where
  "mail ident updated = GMap [(''entityInfo'', GMap [(''entityId'', GString ident), (''entityUpdated'', GString updated)])]"

definition mails_decoder :: "string \<Rightarrow> go_err + dict" where
  "mails_decoder s =
     (if s = ''login'' then Inr [(''data'', GMap [(''token'', GString ''t'')])]
      else if s = ''first'' then Inr [(''responseData'', GList [mail ''a'' ''1'', mail ''b'' ''1'', mail ''a'' ''1''])]
      else Inr [(''responseData'', GList [mail ''b'' ''1'', mail ''a'' ''2''])])"

fun asks_key :: "string \<Rightarrow> (harmony_query, harmony_answer) eff \<Rightarrow> bool" where
  "asks_key k (ECall (HSeen k') r) \<longleftrightarrow> k' = k"
| "asks_key k _ \<longleftrightarrow> False"

definition was_asked :: "string \<Rightarrow> (harmony_query, harmony_answer) history \<Rightarrow> bool" where
  "was_asked k h = list_ex (asks_key k) h"

definition mails_env :: harmony_env where
  "mails_env = (steady_env 0 (\<lambda>_. HUnit))\<lparr>e_call := \<lambda>h q.
     case q of
       HRequest r \<Rightarrow> HHttp (Resp 200 None (Inr (case hr_body r of
         AuthBody _ _ \<Rightarrow> ''login'' | _ \<Rightarrow> if was_asked ''email:a|1'' h then ''second'' else ''first'')))
     | HSeen k \<Rightarrow> HKnown (was_asked k h)
     | _ \<Rightarrow> HUnit\<rparr>"

lemma checked_was_asked: "checked k h \<longleftrightarrow> was_asked k h"
proof -
  have "asks_key k e \<longleftrightarrow> (\<exists>r. ECall (HSeen k) r = e)" for e
    by (cases "(k, e)" rule: asks_key.cases) auto
  then show ?thesis by (auto simp: checked_def was_asked_def list_ex_iff)
qed

text \<open>The identifier of a request, for evaluation: with the shifts and masks of the code instead of divisions.\<close>

lemma newRequestID_code [code]:
  "newRequestID env = do {
     r \<leftarrow> call env HCounter;
     t \<leftarrow> now env;
     let n = (case r of HCount n \<Rightarrow> n | _ \<Rightarrow> 0);
     let u = (word_of_int t :: 64 word);
     ret (hex_pad 8 (unat (drop_bit 32 u)) @ ''-'' @ hex_pad 4 (unat (take_bit 16 (drop_bit 16 u))) @ ''-'' @
          hex_pad 4 (unat (take_bit 16 u)) @ ''-'' @ hex_pad 4 (unat (take_bit 16 (drop_bit 16 n))) @ ''-'' @ hex_pad 12 (unat n))
   }"
proof -
  have d: "unat (drop_bit k w) = unat w div 2 ^ k" for k and w :: "64 word"
    by (metis drop_bit_eq_div of_nat_drop_bit of_nat_eq_iff unat_drop_bit_eq)
  have t: "unat (take_bit 16 w) = unat w mod 2 ^ 16" for w :: "64 word"
    by (simp only: unsigned_take_bit_eq) (simp only: take_bit_eq_mod)
  have n: "unat (case r of HCount n \<Rightarrow> n | _ \<Rightarrow> 0) = (case r of HCount n \<Rightarrow> unat n | _ \<Rightarrow> 0)" for r
    by (cases r) simp_all
  show ?thesis unfolding newRequestID_def Let_def d t n ..
qed

lemma harmony_emails_once_witness:
  "map emailDedupKey (delivered_docs (hist (snd (run_state
     (fetchEmailsForSaas mails_env (demo_hlib\<lparr>hl_unmarshal := mails_decoder\<rparr>) demo_harmony ''google_mail'' 2
       \<lparr>cachedToken = '''', tokenExpires = 0\<rparr>) fresh_world)))) = [''email:a|1'', ''email:b|1'', ''email:a|2''] \<and>
   distinct (map emailDedupKey (delivered_docs (hist (snd (run_state
     (fetchEmailsForSaas mails_env (demo_hlib\<lparr>hl_unmarshal := mails_decoder\<rparr>) demo_harmony ''google_mail'' 2
       \<lparr>cachedToken = '''', tokenExpires = 0\<rparr>) fresh_world)))))"
proof
  show "distinct (map emailDedupKey (delivered_docs (hist (snd (run_state
     (fetchEmailsForSaas mails_env (demo_hlib\<lparr>hl_unmarshal := mails_decoder\<rparr>) demo_harmony ''google_mail'' 2
       \<lparr>cachedToken = '''', tokenExpires = 0\<rparr>) fresh_world)))))"
    by (rule harmony_emails_once) (simp_all add: harmony_remembers_def mails_env_def checked_was_asked)
qed code_simp

text \<open>
  A service whose tasks have one page, with one record of half an hour before the start when the window reaches up to it; the
  clock goes on by ten minutes with each query.
\<close>

definition events_decoder :: "string \<Rightarrow> go_err + dict" where
  "events_decoder s =
     (if s = ''login'' then Inr [(''data'', GMap [(''token'', GString ''t'')])]
      else if s = ''task'' then
        Inr [(''data'', GMap [(''taskId'', GString ''1''), (''state'', GString ''Ready''), (''pageTokens'', GList [GString ''p''])])]
      else if s = ''page'' then Inr [(''data'', GMap [(''records'', GList [GMap [(''time'', GString ''half past'')]])])]
      else Inr [])"

definition events_lib :: harmony_lib where
  "events_lib = demo_hlib\<lparr>hl_unmarshal := events_decoder, hl_parseNano := \<lambda>s. if s = ''half past'' then Some (- 30 * minute) else None\<rparr>"

definition reaches :: "(harmony_query, harmony_answer) history \<Rightarrow> bool" where
  "reaches h \<longleftrightarrow> (asked_windows h \<noteq> [] \<and> - 30 * minute \<le> snd (last (asked_windows h)))"

definition events_env :: harmony_env where
  "events_env = (steady_env 0 (\<lambda>_. HUnit))\<lparr>e_now := \<lambda>h. int (length (asked_windows h)) * (10 * minute), e_call := \<lambda>h q.
     case q of
       HRequest r \<Rightarrow> HHttp (Resp 200 None (Inr (case hr_body r of
         AuthBody _ _ \<Rightarrow> ''login'' | RetrievePage _ _ \<Rightarrow> (if reaches h then ''page'' else '''') | _ \<Rightarrow> ''task'')))
     | _ \<Rightarrow> HUnit\<rparr>"

definition events_run :: "(harmony_query, harmony_answer) world" where
  "events_run = snd (run_state (fetchEventsForService events_env events_lib demo_harmony 1 ''s'' 2 \<lparr>cachedToken = '''', tokenExpires = 0\<rparr>) fresh_world)"

lemma events_run_windows: "asked_windows (hist events_run) = [(- 60 * minute, - 1 * minute), (- 30 * minute, 9 * minute)]"
  by code_simp

lemma events_run_records: "map (extractRecordTime events_lib) (delivered_docs (hist events_run)) = [- 30 * minute, - 30 * minute]"
  by code_simp

lemma events_page_records:
  assumes "events_decoder s = Inr d" "rec \<in> set (page_records d)"
  shows "extractRecordTime events_lib rec = - 30 * minute \<and> s = ''page''"
proof -
  have none: "page_records [(''data'', GMap [(''token'', GString ''t'')])] = []"
    "page_records [(''data'', GMap [(''taskId'', GString ''1''), (''state'', GString ''Ready''), (''pageTokens'', GList [GString ''p''])])] = []"
    by code_simp+
  have one: "page_records [(''data'', GMap [(''records'', GList [GMap [(''time'', GString ''half past'')]])])] = [[(''time'', GString ''half past'')]]"
    "extractRecordTime events_lib [(''time'', GString ''half past'')] = - 30 * minute"
    by code_simp+
  show ?thesis using assms none one by (auto simp: events_decoder_def split: if_splits)
qed

lemma events_env_honours: "honours_timeframe events_env events_lib"
  unfolding honours_timeframe_def
proof (intro allI impI)
  fix h q taskID token st re bytes d rec
  assume a: "hr_body q = RetrievePage taskID token" "e_call events_env h (HRequest q) = HHttp (Resp st re (Inr bytes))"
    "hl_unmarshal events_lib bytes = Inr d" "rec \<in> set (page_records d)"
  then have "events_decoder bytes = Inr d" by (simp add: events_lib_def)
  from events_page_records [OF this a(4)] have r: "extractRecordTime events_lib rec = - 30 * minute" "bytes = ''page''" by simp_all
  with a(1,2) have "reaches h" by (auto simp: events_env_def split: if_splits)
  with r show "extractRecordTime events_lib rec \<le> snd (last (asked_windows h))" by (simp add: reaches_def)
qed

lemma harmony_events_no_gap_witness:
  "map (extractRecordTime events_lib) (delivered_docs (hist events_run)) = [- 30 * minute, - 30 * minute] \<and>
   asked_windows (hist events_run) = [(- 60 * minute, - 1 * minute), (- 30 * minute, 9 * minute)] \<and>
   (\<exists>(s, e) \<in> set (asked_windows (hist events_run)). s \<le> 5 * minute \<and> 5 * minute \<le> e)"
proof -
  have "\<exists>(s, e) \<in> set (asked_windows (hist events_run)). s \<le> 5 * minute \<and> 5 * minute \<le> e"
    unfolding events_run_windows
    by (rule harmony_events_no_gap [OF events_env_honours _ events_run_windows [symmetric, unfolded events_run_def]])
      (simp_all, simp add: events_env_def asked_windows_def defaultEventsInitialLookback_def)

  with events_run_windows events_run_records show ?thesis by blast
qed

end
