(* ===== verification/Frame.thy ===== *)
theory Frame
  imports World
begin

text \<open>
  Frame rules. Many facts on an operation only say how the world before and the world after it are related, whatever its
  result: what stays the same, what only grows. For a relation that is reflexive and transitive such facts compose, and
  this theory proves the composition once. The adapters interpret the locale on the relations they need.
\<close>

definition along :: "('s \<Rightarrow> 's \<Rightarrow> bool) \<Rightarrow> ('s, 'a) state \<Rightarrow> bool" where
  "along R m \<longleftrightarrow> (\<forall>w. wp m (\<lambda>_ w'. R w w') w)"

lemma alongI: "(\<And>w. wp m (\<lambda>_ w'. R w w') w) \<Longrightarrow> along R m"
  by (simp add: along_def)

lemma alongD: "along R m \<Longrightarrow> run_state m w = (x, w') \<Longrightarrow> R w w'"
  unfolding along_def by (blast dest: wpD)

lemma along_wp: "along R m \<Longrightarrow> (\<And>x w'. R w w' \<Longrightarrow> Q x w') \<Longrightarrow> wp m Q w"
  by (rule wpI) (blast dest: alongD)

lemma along_wp_and: "along R m \<Longrightarrow> wp m P w \<Longrightarrow> (\<And>x w'. R w w' \<Longrightarrow> P x w' \<Longrightarrow> Q x w') \<Longrightarrow> wp m Q w"
  by (rule wpI) (blast dest: alongD wpD)

locale frame =
  fixes R :: "'s \<Rightarrow> 's \<Rightarrow> bool"
  assumes refl: "R w w"
    and trans: "R w w' \<Longrightarrow> R w' w'' \<Longrightarrow> R w w''"
begin

lemma ret: "along R (ret x)"
  by (simp add: along_def wp_ret refl)

lemma bind:
  assumes "along R m" "\<And>x. along R (f x)"
  shows "along R (State_Monad.bind m f)"
  unfolding along_def wp_bind
  by (intro allI, rule along_wp [OF assms(1)], rule along_wp [OF assms(2)], rule trans)

lemma bind_wp:
  assumes "along R m" "\<And>x w'. R w w' \<Longrightarrow> wp (f x) (\<lambda>y w''. R w' w'' \<longrightarrow> Q y w'') w'" "\<And>x. along R (f x)"
  shows "wp (State_Monad.bind m f) Q w"
  unfolding wp_bind
  by (rule along_wp [OF assms(1)], rule along_wp_and [OF assms(3) assms(2)]) auto

lemmas rules = ret bind

end

text \<open>The effects that only add to the history and leave the stop event alone.\<close>

definition calm :: "('q, 'r) world \<Rightarrow> ('q, 'r) world \<Rightarrow> bool" where
  "calm w w' \<longleftrightarrow> stop w' = stop w \<and> (\<exists>h. hist w' = h @ hist w)"

interpretation calm: frame calm
proof
  show "calm w w" for w :: "('q, 'r) world" by (simp add: calm_def)
  show "calm w w''" if "calm w w'" "calm w' w''" for w w' w'' :: "('q, 'r) world"
    using that by (auto simp: calm_def)
qed

lemmas calm_rules [simp, intro!] = calm.rules

lemma calm_prims [simp, intro!]:
  "along calm (now env)" "along calm (call env q)" "along calm (onError e)" "along calm (onWarning s)" "along calm (ship env m d)"
  "along calm isStopped"
  by (auto intro!: alongI simp: wp_simps calm_def)

section \<open>Results\<close>

text \<open>What holds of every result of an operation, whatever the world.\<close>

definition yields :: "('a \<Rightarrow> bool) \<Rightarrow> ('s, 'a) state \<Rightarrow> bool" where
  "yields P m \<longleftrightarrow> (\<forall>w. wp m (\<lambda>x _. P x) w)"

lemma yields_ret [simp]: "yields P (ret x) \<longleftrightarrow> P x"
  by (simp add: yields_def wp_ret)

lemma yields_bind: "(\<And>x. yields P (f x)) \<Longrightarrow> yields P (State_Monad.bind m f)"
  unfolding yields_def wp_bind by (blast intro: wp_any)

lemma yields_bind_after: "yields P m \<Longrightarrow> (\<And>x. P x \<Longrightarrow> yields Q (f x)) \<Longrightarrow> yields Q (State_Monad.bind m f)"
  unfolding yields_def wp_bind by (blast intro: wp_mono)

lemma yields_wp: "yields P m \<Longrightarrow> (\<And>x w'. P x \<Longrightarrow> Q x w') \<Longrightarrow> wp m Q w"
  unfolding yields_def by (blast intro: wp_mono)

lemma yieldsD: "yields P m \<Longrightarrow> run_state m w = (x, w') \<Longrightarrow> P x"
  unfolding yields_def by (blast dest: wpD)

section \<open>Calls\<close>

text \<open>The calls of a history, newest first, and the operations that make none.\<close>

fun call_of :: "('q, 'r) eff \<Rightarrow> ('q \<times> 'r) list" where
  "call_of (ECall q r) = [(q, r)]"
| "call_of _ = []"

definition calls :: "('q, 'r) history \<Rightarrow> ('q \<times> 'r) list" where
  "calls h = concat (map call_of h)"

lemma calls_simps [simp]: "calls [] = []" "calls (e # h) = call_of e @ calls h" "calls (h @ h') = calls h @ calls h'"
  by (simp_all add: calls_def)

definition same_calls :: "('q, 'r) world \<Rightarrow> ('q, 'r) world \<Rightarrow> bool" where
  "same_calls w w' \<longleftrightarrow> calls (hist w') = calls (hist w)"

interpretation same_calls: frame same_calls
  by unfold_locales (auto simp: same_calls_def)

lemmas same_calls_rules [simp, intro!] = same_calls.rules

lemma same_calls_prims [simp, intro!]:
  "along same_calls (now env)" "along same_calls (onError e)" "along same_calls (onWarning s)" "along same_calls (ship env m d)"
  "along same_calls isStopped" "along same_calls setStop" "along same_calls (waitFor env d)"
  by (auto intro!: alongI simp: wp_simps same_calls_def)

lemma same_calls_ship_or_stop [simp, intro!]: "along same_calls (ship_or_stop env m)"
  by (auto simp: ship_or_stop_def ship_retry_def split: option.split)

lemma same_calls_ship_items [simp, intro!]: "along same_calls (ship_items env items)"
  by (induction items) auto

end
