(* ===== verification/File_Tail.thy ===== *)
theory File_Tail
  imports Object_Store Line_Adapters "HOL-Library.List_Lexorder" "HOL-Library.Char_ord"
begin

text \<open>
  \<open>file/client.go\<close>, the adapter that follows the files of a pattern. A loop looks at the files every ten seconds: it keeps
  a table of the files it knows, opens a tail on new ones, notices rotation by the inode, stops and restarts tails of
  inactive files, and has Parquet files decoded as a whole. One goroutine per tail ships its lines, one per Parquet
  file its rows. The file system and the \<open>tail\<close> package are calls of the environment. Counters that only appear in log
  lines are left out.
\<close>

section \<open>State\<close>

record file_config =
  fc_WriteTimeoutSec :: "64 word"
  fc_FilePath :: string
  fc_NoFollow :: bool
  fc_InactivityThreshold :: int
  fc_ReactivationThreshold :: int
  fc_Backfill :: bool
  fc_SerializeFiles :: bool
  fc_Poll :: bool
  fc_MultiLineJSON :: bool

definition file_Validate :: "go_err option \<Rightarrow> file_config \<Rightarrow> go_err option" where
  "file_Validate client_err c =
     (case client_err of
        Some e \<Rightarrow> Some (GoWrap ''client_options: %v'' e)
      | None \<Rightarrow> if fc_FilePath c = '''' then Some (GoErr ''file_path missing'') else None)"

definition NewFileAdapter :: "go_err option \<Rightarrow> file_config \<Rightarrow> go_err + duration" where
  "NewFileAdapter client_err c =
     (case client_err of Some e \<Rightarrow> Inl e | None \<Rightarrow> Inr (write_timeout (fc_WriteTimeoutSec c)))"

text \<open>An entry of the table. \<open>ti_id\<close> stands for the pointer to it, which the goroutine of a Parquet file compares.\<close>

record tail_info =
  ti_id :: nat
  lastActive :: time
  isInactive :: bool
  lastData :: int
  inode :: "64 word"
  processedAsParquet :: bool
  parquetDecoding :: bool
  parquetSize :: int
  parquetModTime :: time

type_synonym tail_files = "(string \<times> tail_info) list"

record file_stat =
  st_size :: int
  st_mtime :: time
  st_inode :: "64 word"

datatype tail_start = AtEnd | AtStart

record tail_opts =
  to_follow :: bool
  to_poll :: bool
  to_start :: tail_start

text \<open>\<open>FHandle\<close> and \<open>FDecode\<close> start the goroutines of a tail and of a Parquet file, with the pointer to their entry.\<close>

datatype file_query =
    FGlob string
  | FStat string
  | FTail string tail_opts
  | FStop string
  | FCleanup string
  | FHandle string nat
  | FDecode string nat
  | FOpen string
  | FReadAt string int
  | FReadAll string
  | FLine string
  | FAcquire
  | FRelease

datatype read_at = AtBytes string | AtEOF | AtErr go_err

datatype file_answer =
    RPaths "go_err + string list"
  | RStat "go_err + file_stat"
  | RErr "go_err option"
  | RSize "go_err + int"
  | RBytes read_at
  | RContents "string \<times> go_err option"
  | RLine "(go_err + string) option"

type_synonym 'a file_io = "(file_query, file_answer, 'a) io"
type_synonym file_env = "(file_query, file_answer) env"

definition defaultPollingInterval :: duration where "defaultPollingInterval = 10 * second"
definition defaultReactivationThreshold :: duration where "defaultReactivationThreshold = 60 * second"
definition maxParquetFileSize :: int where "maxParquetFileSize = 2 ^ 30"

text \<open>\<open>time.Duration(n) * time.Second\<close>.\<close>

definition seconds :: "int \<Rightarrow> duration" where
  "seconds n = sint (word_of_int n * 1000000000 :: 64 word)"

definition inactivityThreshold :: "file_config \<Rightarrow> duration" where
  "inactivityThreshold c = seconds (fc_InactivityThreshold c)"

definition reactivationThreshold :: "file_config \<Rightarrow> duration" where
  "reactivationThreshold c =
     (if fc_ReactivationThreshold c \<noteq> 0 then seconds (fc_ReactivationThreshold c) else defaultReactivationThreshold)"

section \<open>Detecting Parquet files\<close>

definition gz_parquet :: "string \<Rightarrow> bool" where
  "gz_parquet path = (case cut_suffix (to_lower path) ''.gz'' of None \<Rightarrow> False | Some base \<Rightarrow> has_suffix base ''.parquet'')"

text \<open>The result and the error. A read that ends early is no error: the file changed meanwhile.\<close>

definition detectParquetFile :: "file_env \<Rightarrow> string \<Rightarrow> (bool \<times> go_err option) file_io" where
  "detectParquetFile env path =
     (if has_suffix (to_lower path) ''.parquet'' then ret (True, None)
      else if gz_parquet path then ret (True, None)
      else do {
        r \<leftarrow> call env (FOpen path);
        case r of
          RSize (Inl e) \<Rightarrow> ret (False, Some e)
        | RSize (Inr sz) \<Rightarrow>
            if sz < 8 then ret (False, None)
            else do {
              h \<leftarrow> call env (FReadAt path 0);
              case h of
                RBytes (AtErr e) \<Rightarrow> ret (False, Some e)
              | RBytes (AtBytes buf) \<Rightarrow>
                  if buf \<noteq> ParquetMagic then ret (False, None)
                  else do {
                    t \<leftarrow> call env (FReadAt path (sz - 4));
                    case t of
                      RBytes (AtErr e) \<Rightarrow> ret (False, Some e)
                    | RBytes (AtBytes buf') \<Rightarrow> ret (buf' = ParquetMagic, None)
                    | _ \<Rightarrow> ret (False, None)
                  }
              | _ \<Rightarrow> ret (False, None)
            }
        | _ \<Rightarrow> ret (False, None)
      })"

section \<open>One look at the known files\<close>

definition rotated :: "tail_info \<Rightarrow> file_stat \<Rightarrow> bool" where
  "rotated info st \<longleftrightarrow> st_inode st \<noteq> 0 \<and> inode info \<noteq> 0 \<and> st_inode st \<noteq> inode info"

definition rewritten :: "tail_info \<Rightarrow> file_stat \<Rightarrow> bool" where
  "rewritten info st \<longleftrightarrow> \<not> rotated info st \<and> (st_size st \<noteq> parquetSize info \<or> st_mtime st \<noteq> parquetModTime info)"

definition stop_tail :: "file_env \<Rightarrow> string \<Rightarrow> string \<Rightarrow> unit file_io" where
  "stop_tail env report path = do {
     r \<leftarrow> call env (FStop path);
     case r of RErr (Some e) \<Rightarrow> onError (GoWrap report e) | _ \<Rightarrow> ret ()
   }"

definition tail_file :: "file_env \<Rightarrow> file_config \<Rightarrow> tail_start \<Rightarrow> string \<Rightarrow> go_err option file_io" where
  "tail_file env c start path = do {
     r \<leftarrow> call env (FTail path \<lparr>to_follow = \<not> fc_NoFollow c, to_poll = fc_Poll c, to_start = start\<rparr>);
     ret (case r of RErr e \<Rightarrow> e | _ \<Rightarrow> Some (GoErr ''''))
   }"

text \<open>An entry after the look, or \<open>None\<close> when it was deleted.\<close>

definition check_parquet :: "tail_info \<Rightarrow> file_stat \<Rightarrow> tail_info option file_io" where
  "check_parquet info st =
     (if parquetDecoding info then ret (Some info)
      else if rotated info st then do { onError (GoErr ''[ROTATION DETECTED] Parquet file rotated: %s''); ret None }
      else if rewritten info st then do { onError (GoErr ''[REWRITE DETECTED] Parquet file rewritten in place: %s''); ret None }
      else ret (Some info))"

definition check_inactive :: "file_env \<Rightarrow> file_config \<Rightarrow> time \<Rightarrow> string \<Rightarrow> tail_info \<Rightarrow> file_stat \<Rightarrow> tail_info option file_io" where
  "check_inactive env c t path info st =
     (if t - st_mtime st \<le> reactivationThreshold c then do {
        onError (GoErr ''[REACTIVATION] File reactivated: %s'');
        err \<leftarrow> tail_file env c AtStart path;
        case err of
          Some e \<Rightarrow> do { onError (GoWrap ''tail error on reactivation: %v'' e); ret (Some info) }
        | None \<Rightarrow> do {
            call env (FHandle path (ti_id info));
            ret (Some (info\<lparr>isInactive := False, lastActive := st_mtime st, inode := st_inode st\<rparr>))
          }
      } else ret (Some info))"

definition check_active :: "file_env \<Rightarrow> file_config \<Rightarrow> time \<Rightarrow> string \<Rightarrow> tail_info \<Rightarrow> file_stat \<Rightarrow> tail_info option file_io" where
  "check_active env c t path info st = do {
     let sinceMod = t - st_mtime st;
     let sinceData = t - lastData info * second;
     info' \<leftarrow> (if inactivityThreshold c > 0 \<and> sinceMod > inactivityThreshold c \<and> sinceData > inactivityThreshold c then do {
        onError (GoErr ''[INACTIVITY] File inactive: %s'');
        stop_tail env ''error stopping tail: %v'' path;
        ret (info\<lparr>isInactive := True\<rparr>)
      } else ret (if st_mtime st > lastActive info then info\<lparr>lastActive := st_mtime st\<rparr> else info));
     (if sinceData > 2 * minute \<and> lastData info \<noteq> 0 then onWarning ''[HEALTH] File has not produced data in %s: %s'' else ret ());
     ret (Some info')
   }"

definition check_entry :: "file_env \<Rightarrow> file_config \<Rightarrow> time \<Rightarrow> string \<Rightarrow> tail_info \<Rightarrow> tail_info option file_io" where
  "check_entry env c t path info = do {
     r \<leftarrow> call env (FStat path);
     case r of
       RStat (Inr st) \<Rightarrow>
         if processedAsParquet info then check_parquet info st
         else if rotated info st then do {
           onError (GoErr ''[ROTATION DETECTED] File rotated: %s'');
           stop_tail env ''error stopping tail after rotation: %v'' path;
           call env (FCleanup path);
           ret None
         }
         else if isInactive info then check_inactive env c t path info st
         else check_active env c t path info st
     | _ \<Rightarrow>
         if processedAsParquet info then ret None
         else do {
           onError (GoErr ''[REMOVAL] File removed from disk: %s'');
           stop_tail env ''error stopping tail: %v'' path;
           call env (FCleanup path);
           ret None
         }
   }"

fun check_entries :: "file_env \<Rightarrow> file_config \<Rightarrow> time \<Rightarrow> tail_files \<Rightarrow> tail_files file_io" where
  "check_entries env c t [] = ret []"
| "check_entries env c t ((path, info) # files) = do {
     r \<leftarrow> check_entry env c t path info;
     rest \<leftarrow> check_entries env c t files;
     ret (case r of None \<Rightarrow> rest | Some info' \<Rightarrow> (path, info') # rest)
   }"

section \<open>Opening new files\<close>

record poll_state =
  tailFiles :: tail_files
  next_id :: nat

definition new_info :: "nat \<Rightarrow> time \<Rightarrow> 64 word \<Rightarrow> bool \<Rightarrow> tail_info" where
  "new_info i t ino parquet =
     \<lparr>ti_id = i, lastActive = t, isInactive = False, lastData = 0, inode = ino, processedAsParquet = parquet,
      parquetDecoding = parquet, parquetSize = 0, parquetModTime = zero_time\<rparr>"

definition track :: "string \<Rightarrow> 64 word \<Rightarrow> bool \<Rightarrow> time \<Rightarrow> poll_state \<Rightarrow> poll_state" where
  "track path ino parquet t s =
     \<lparr>tailFiles = put path (new_info (next_id s) t ino parquet) (tailFiles s), next_id = Suc (next_id s)\<rparr>"

definition open_new :: "file_env \<Rightarrow> file_config \<Rightarrow> time \<Rightarrow> bool \<Rightarrow> string \<Rightarrow> poll_state \<Rightarrow> poll_state file_io" where
  "open_new env c t isFirstRun path s = do {
     r \<leftarrow> call env (FStat path);
     case r of
       RStat (Inr st) \<Rightarrow> do {
         (isParquet, err) \<leftarrow> detectParquetFile env path;
         (case err of Some e \<Rightarrow> onError (GoWrap ''parquet detect %s: %v'' e) | None \<Rightarrow> ret ());
         if isParquet then do {
           t' \<leftarrow> now env;
           call env (FDecode path (next_id s));
           ret (track path (st_inode st) True t' s)
         }
         else if inactivityThreshold c > 0 \<and> t - st_mtime st > inactivityThreshold c then do {
           onWarning ''[SKIP] File too old to open: %s'';
           ret s
         }
         else do {
           e \<leftarrow> tail_file env c (if fc_Backfill c \<or> \<not> isFirstRun then AtStart else AtEnd) path;
           case e of
             Some err \<Rightarrow> do { onError (GoWrap ''tail error: %v'' err); ret s }
           | None \<Rightarrow> do {
               t' \<leftarrow> now env;
               call env (FHandle path (next_id s));
               ret (track path (st_inode st) False t' s)
             }
         }
       }
     | RStat (Inl e) \<Rightarrow> do { onError (GoWrap ''error getting file stats: %v'' e); ret s }
     | _ \<Rightarrow> ret s
   }"

fun open_matches :: "file_env \<Rightarrow> file_config \<Rightarrow> time \<Rightarrow> bool \<Rightarrow> string list \<Rightarrow> poll_state \<Rightarrow> poll_state file_io" where
  "open_matches env c t isFirstRun [] s = ret s"
| "open_matches env c t isFirstRun (path # matches) s = do {
     cancelled \<leftarrow> loadStop env;
     if cancelled then ret s
     else do {
       s' \<leftarrow> (if map_of (tailFiles s) path = None then open_new env c t isFirstRun path s else ret s);
       open_matches env c t isFirstRun matches s'
     }
   }"

text \<open>One cycle of the loop, from the matches to the end of the mutex.\<close>

definition poll_cycle :: "file_env \<Rightarrow> file_config \<Rightarrow> bool \<Rightarrow> string list \<Rightarrow> poll_state \<Rightarrow> poll_state file_io" where
  "poll_cycle env c isFirstRun matches s = do {
     t \<leftarrow> now env;
     files \<leftarrow> check_entries env c t (tailFiles s);
     open_matches env c t isFirstRun (sort matches) (s\<lparr>tailFiles := files\<rparr>)
   }"

fun poll_files :: "file_env \<Rightarrow> file_config \<Rightarrow> nat \<Rightarrow> bool \<Rightarrow> poll_state \<Rightarrow> poll_state file_io" where
  "poll_files env c 0 isFirstRun s = ret s"
| "poll_files env c (Suc n) isFirstRun s = do {
     cancelled \<leftarrow> loadStop env;
     if cancelled then ret s
     else do {
       r \<leftarrow> call env (FGlob (fc_FilePath c));
       case r of
         RPaths (Inl e) \<Rightarrow> do { onError (GoWrap ''glob error: %v'' e); ret s }
       | RPaths (Inr matches) \<Rightarrow> do {
           s' \<leftarrow> poll_cycle env c isFirstRun matches s;
           woken \<leftarrow> waitFor env defaultPollingInterval;
           if woken then ret s' else poll_files env c n False s'
         }
       | _ \<Rightarrow> ret s
     }
   }"

definition pollFiles :: "file_env \<Rightarrow> file_config \<Rightarrow> nat \<Rightarrow> poll_state file_io" where
  "pollFiles env c n = poll_files env c n True \<lparr>tailFiles = [], next_id = 0\<rparr>"

section \<open>The goroutine of a tail\<close>

text \<open>
  A line of the tail is \<open>FLine\<close>: \<open>None\<close> when the channel is closed, else an error or a text. The handler keeps the time of
  the last data, in seconds, which is the field \<open>lastData\<close> of the entry.
\<close>

fun tail_lines :: "file_env \<Rightarrow> duration \<Rightarrow> string \<Rightarrow> nat \<Rightarrow> int \<Rightarrow> int file_io" where
  "tail_lines env writeTimeout path 0 seen = ret seen"
| "tail_lines env writeTimeout path (Suc n) seen = do {
     r \<leftarrow> call env (FLine path);
     case r of
       RLine (Some (Inl e)) \<Rightarrow> do { onError (GoWrap ''[TAIL ERROR] tail.Line() error for %s: %v'' e); ret seen }
     | RLine (Some (Inr line)) \<Rightarrow> do {
         t \<leftarrow> now env;
         handleLine env writeTimeout line;
         tail_lines env writeTimeout path n (unix t)
       }
     | _ \<Rightarrow> ret seen
   }"

text \<open>The grouping of lines into JSON objects by counting braces: the lines kept and the count.\<close>

definition count_char :: "char \<Rightarrow> string \<Rightarrow> int" where
  "count_char c s = int (length (filter (\<lambda>x. x = c) s))"

definition braces :: "string \<Rightarrow> int" where
  "braces s = count_char CHR ''{'' s - count_char CHR ''}'' s"

definition group_line :: "string \<Rightarrow> string list \<times> int \<Rightarrow> string option \<times> (string list \<times> int)" where
  "group_line line = (\<lambda>(jsonLines, braceCount).
     let lineText = trim_space line in
     if lineText = '''' then (None, (jsonLines, braceCount))
     else (let jsonLines' = jsonLines @ [lineText]; braceCount' = braceCount + braces lineText
           in if braceCount' = 0 then (Some (concat jsonLines'), ([], braceCount'))
              else (None, (jsonLines', braceCount'))))"

text \<open>In this mode the error of a line is not looked at; its text is empty.\<close>

fun tail_json :: "file_env \<Rightarrow> duration \<Rightarrow> string \<Rightarrow> nat \<Rightarrow> string list \<times> int \<Rightarrow> int \<Rightarrow> int file_io" where
  "tail_json env writeTimeout path 0 g seen = ret seen"
| "tail_json env writeTimeout path (Suc n) g seen = do {
     r \<leftarrow> call env (FLine path);
     case r of
       RLine (Some l) \<Rightarrow>
         (case group_line (case l of Inr line \<Rightarrow> line | Inl _ \<Rightarrow> '''') g of
            (None, g') \<Rightarrow> tail_json env writeTimeout path n g' seen
          | (Some rawJSON, g') \<Rightarrow> do {
              t \<leftarrow> now env;
              handleLine env writeTimeout rawJSON;
              tail_json env writeTimeout path n g' (unix t)
            })
     | _ \<Rightarrow> ret seen
   }"

definition file_handleInput :: "file_env \<Rightarrow> file_config \<Rightarrow> duration \<Rightarrow> string \<Rightarrow> nat \<Rightarrow> tail_info option \<Rightarrow> int option file_io" where
  "file_handleInput env c writeTimeout path n entry =
     (case entry of
        None \<Rightarrow> do { onError (GoErr ''[TAIL ERROR] tailInfo not found for: %s''); ret None }
      | Some info \<Rightarrow> do {
          err \<leftarrow> (if fc_SerializeFiles c then call env FAcquire else ret (RErr None));
          case err of
            RErr (Some e) \<Rightarrow> do { onError (GoWrap ''error acquiring semaphore: %v'' e); ret None }
          | _ \<Rightarrow> do {
              seen \<leftarrow> (if fc_MultiLineJSON c then tail_json env writeTimeout path n ([], 0) (lastData info)
                else tail_lines env writeTimeout path n (lastData info));
              (if fc_SerializeFiles c then do { call env FRelease; ret () } else ret ());
              ret (Some seen)
            }
        })"

section \<open>The goroutine of a Parquet file\<close>

definition parquetSizeCap :: "int \<Rightarrow> int" where
  "parquetSizeCap parquetMaxSize = (if parquetMaxSize > 0 then parquetMaxSize else maxParquetFileSize)"

text \<open>
  Opening the file with its stat, the header of the gzip layer, and reading at most one byte more than the cap. The
  contents are the bytes with the error the stream ends in, after the gzip layer where there is one.
\<close>

definition readParquetBytes :: "file_env \<Rightarrow> gz_reader \<Rightarrow> string \<Rightarrow> int \<Rightarrow> (go_err + (string \<times> int \<times> time)) file_io" where
  "readParquetBytes env gz path sizeCap = do {
     r \<leftarrow> call env (FStat path);
     case r of
       RStat (Inl e) \<Rightarrow> ret (Inl e)
     | RStat (Inr st) \<Rightarrow>
         if st_size st > sizeCap then ret (Inl (GoErr ''file size %d exceeds parquet cap %d''))
         else do {
           r \<leftarrow> call env (FReadAll path);
           case r of
             RContents (raw, err) \<Rightarrow>
               (case (if gz_parquet path then gz raw else Inr (raw, err)) of
                  Inl e \<Rightarrow> ret (Inl (GoWrap ''gunzip: %w'' e))
                | Inr stream \<Rightarrow>
                    (case read_limited (nat (sizeCap + 1)) stream of
                       Inl e \<Rightarrow> ret (Inl e)
                     | Inr data \<Rightarrow>
                         if int (length data) > sizeCap then ret (Inl (GoErr ''payload exceeds parquet cap %d''))
                         else ret (Inr (data, st_size st, st_mtime st))))
           | _ \<Rightarrow> ret (Inl (GoErr ''''))
         }
     | _ \<Rightarrow> ret (Inl (GoErr ''''))
   }"

text \<open>
  The result is the entry when the decoding has ended, and whether it stays in the table. \<open>to_json\<close> is
  \<open>utils.ParquetToJSONLines\<close>.
\<close>

definition processParquetFile ::
    "file_env \<Rightarrow> gz_reader \<Rightarrow> (string \<Rightarrow> go_err + string) \<Rightarrow> int \<Rightarrow> duration \<Rightarrow> string \<Rightarrow> tail_info \<Rightarrow> (tail_info \<times> bool) file_io" where
  "processParquetFile env gz to_json sizeCap writeTimeout path info = do {
     r \<leftarrow> readParquetBytes env gz path sizeCap;
     case r of
       Inl e \<Rightarrow> do { onError (GoWrap ''read parquet %s: %v'' e); ret (info\<lparr>parquetDecoding := False\<rparr>, False) }
     | Inr (data, sz, modTime) \<Rightarrow>
         (let info1 = info\<lparr>parquetSize := sz, parquetModTime := modTime\<rparr> in
          case to_json data of
            Inl e \<Rightarrow> do { onError (GoWrap ''parquet decode %s: %v'' e); ret (info1\<lparr>parquetDecoding := False\<rparr>, False) }
          | Inr converted \<Rightarrow> do {
              handle_lines (handleLine env writeTimeout) (filter (\<lambda>l. l \<noteq> '''') (split_char (CHR 0x0A) converted));
              t \<leftarrow> now env;
              ret (info1\<lparr>lastData := unix t, parquetDecoding := False\<rparr>, True)
            })
   }"

text \<open>Only the entry the goroutine was started for is dropped: the table may have a newer one for the path.\<close>

definition dropTailEntryIfMatch :: "string \<Rightarrow> nat \<Rightarrow> tail_files \<Rightarrow> tail_files" where
  "dropTailEntryIfMatch path i files =
     (case map_of files path of
        Some info \<Rightarrow> if ti_id info = i then filter (\<lambda>(p, _). p \<noteq> path) files else files
      | None \<Rightarrow> files)"

section \<open>Closing\<close>

fun stop_all :: "file_env \<Rightarrow> tail_files \<Rightarrow> unit file_io" where
  "stop_all env [] = ret ()"
| "stop_all env ((path, info) # files) = do {
     (if processedAsParquet info then ret () else do { call env (FStop path); ret () });
     stop_all env files
   }"

definition file_Close :: "file_env \<Rightarrow> tail_files \<Rightarrow> go_err option file_io" where
  "file_Close env files = do {
     setStop;
     stop_all env files;
     err1 \<leftarrow> drain env (1 * minute);
     err2 \<leftarrow> closeClient env;
     ret (case err1 of Some e \<Rightarrow> Some e | None \<Rightarrow> err2)
   }"

end
