(* ===== verification/Json_Lines.thy ===== *)
theory Json_Lines
  imports File_Tail
begin

text \<open>
  The multi-line JSON mode of the file adapter, its lines alone: what an object over several lines is, read by a scanner that
  knows JSON strings and their escapes, and what the adapter's grouping, which counts braces and knows no strings, makes of it.
\<close>

section \<open>The grouping of many lines\<close>

text \<open>All the objects the grouping makes of a list of lines, and what it keeps for later.\<close>

fun group_lines :: "string list \<Rightarrow> string list \<times> int \<Rightarrow> string list \<times> (string list \<times> int)" where
  "group_lines [] g = ([], g)"
| "group_lines (l # ls) g =
     (case group_line l g of
        (None, g') \<Rightarrow> group_lines ls g'
      | (Some obj, g') \<Rightarrow> (case group_lines ls g' of (objs, g'') \<Rightarrow> (obj # objs, g'')))"

lemma group_lines_append:
  "group_lines (ls @ ls') g =
     (case group_lines ls g of (objs, g') \<Rightarrow> (case group_lines ls' g' of (objs', g'') \<Rightarrow> (objs @ objs', g'')))"
  by (induction ls arbitrary: g) (auto split: prod.split option.split)

section \<open>Lines whose braces are balanced\<close>

text \<open>
  Lines, of which the blank ones do not count, whose braces are balanced at the end and at no earlier line: what the grouping
  takes for an object. \<open>object_text\<close> is the object on one line.
\<close>

definition inked :: "string list \<Rightarrow> string list" where
  "inked ls = filter (\<lambda>l. l \<noteq> '''') (map trim_space ls)"

definition depth :: "string list \<Rightarrow> int" where
  "depth ls = sum_list (map braces ls)"

definition balanced :: "string list \<Rightarrow> bool" where
  "balanced ls \<longleftrightarrow> inked ls \<noteq> [] \<and> depth (inked ls) = 0 \<and> (\<forall>k < length (inked ls). 0 < k \<longrightarrow> depth (take k (inked ls)) \<noteq> 0)"

definition object_text :: "string list \<Rightarrow> string" where
  "object_text ls = concat (inked ls)"

lemma inked_simps [simp]:
  "inked [] = []" "inked (l # ls) = (if trim_space l = '''' then inked ls else trim_space l # inked ls)"
  by (simp_all add: inked_def)

lemma depth_simps [simp]: "depth [] = 0" "depth (l # ls) = braces l + depth ls" "depth (xs @ ys) = depth xs + depth ys"
  by (simp_all add: depth_def)

lemma group_blank: "inked ls = [] \<Longrightarrow> group_lines ls ([], 0) = ([], ([], 0))"
  by (induction ls) (auto simp: group_line_def split: if_splits)

lemma group_object:
  "inked ls \<noteq> [] \<Longrightarrow> depth (acc @ inked ls) = 0 \<Longrightarrow>
   \<forall>k < length (acc @ inked ls). length acc < k \<longrightarrow> depth (take k (acc @ inked ls)) \<noteq> 0 \<Longrightarrow>
   group_lines ls (acc, depth acc) = ([concat (acc @ inked ls)], ([], 0))"
proof (induction ls arbitrary: acc)
  case (Cons l ls)
  show ?case
  proof (cases "trim_space l = ''''")
    case True
    with Cons.IH [of acc] Cons.prems show ?thesis by (simp add: group_line_def)
  next
    case False
    let ?acc = "acc @ [trim_space l]"
    have all: "?acc @ inked ls = acc @ inked (l # ls)" using False by simp
    show ?thesis
    proof (cases "inked ls = []")
      case True
      with Cons.prems False have "depth ?acc = 0" by simp
      then have "group_line l (acc, depth acc) = (Some (concat ?acc), ([], 0))"
        using False by (simp add: group_line_def Let_def)
      with group_blank [OF True] True False show ?thesis by simp
    next
      case inked: False
      have "depth (take (length ?acc) (acc @ inked (l # ls))) \<noteq> 0"
        using Cons.prems(3) [rule_format, of "length ?acc"] inked False by simp
      then have "depth ?acc \<noteq> 0" unfolding all [symmetric] by simp
      then have g: "group_line l (acc, depth acc) = (None, (?acc, depth ?acc))"
        using False by (simp add: group_line_def Let_def)
      have "group_lines ls (?acc, depth ?acc) = ([concat (?acc @ inked ls)], ([], 0))"
        by (rule Cons.IH [OF inked]) (use Cons.prems(2,3) all in \<open>simp_all only: all\<close>, auto)
      with g show ?thesis unfolding all by simp
    qed
  qed
qed simp

lemma group_balanced: "balanced ls \<Longrightarrow> group_lines ls ([], 0) = ([object_text ls], ([], 0))"
  using group_object [of ls "[]"] by (simp add: balanced_def object_text_def)

lemma group_objects: "(\<And>o1. o1 \<in> set os \<Longrightarrow> balanced o1) \<Longrightarrow> group_lines (concat os) ([], 0) = (map object_text os, ([], 0))"
  by (induction os) (simp_all add: group_lines_append group_balanced)

lemma object_text_not_empty:
  assumes "balanced ls"
  shows "object_text ls \<noteq> ''''"
proof -
  have "hd (inked ls) \<in> set (inked ls)" using assms by (simp add: balanced_def)
  moreover from this have "hd (inked ls) \<noteq> ''''" by (simp add: inked_def)
  ultimately show ?thesis unfolding object_text_def concat_eq_Nil_conv by blast
qed

section \<open>Objects, read as JSON\<close>

text \<open>
  The scanner: before the object, in it below \<open>n\<close> further objects, in a string there, in a string after a backslash, and after
  the object. A string does not go over the end of a line.
\<close>

datatype scan = Before | Inside nat | Quoted nat | Escaped nat | After

definition newline :: char where "newline = CHR 0x0A"
definition quote :: char where "quote = CHR 0x22"
definition backslash :: char where "backslash = CHR 0x5C"

fun scan_char :: "scan \<Rightarrow> char \<Rightarrow> scan option" where
  "scan_char Before c = (if is_space c then Some Before else if c = CHR ''{'' then Some (Inside 0) else None)"
| "scan_char (Inside n) c =
     Some (if c = quote then Quoted n
           else if c = CHR ''{'' then Inside (Suc n)
           else if c = CHR ''}'' then (case n of 0 \<Rightarrow> After | Suc m \<Rightarrow> Inside m)
           else Inside n)"
| "scan_char (Quoted n) c =
     (if c = newline then None else Some (if c = backslash then Escaped n else if c = quote then Inside n else Quoted n))"
| "scan_char (Escaped n) c = (if c = newline then None else Some (Quoted n))"
| "scan_char After c = (if is_space c then Some After else None)"

primrec scans :: "string \<Rightarrow> scan \<Rightarrow> scan option" where
  "scans [] s = Some s"
| "scans (c # cs) s = Option.bind (scan_char s c) (scans cs)"

fun in_string :: "scan \<Rightarrow> bool" where
  "in_string (Quoted n) = True"
| "in_string (Escaped n) = True"
| "in_string _ = False"

text \<open>The characters of a text that are in strings, and the text without the white space that is not in strings.\<close>

primrec quoted :: "string \<Rightarrow> scan \<Rightarrow> string" where
  "quoted [] s = []"
| "quoted (c # cs) s = (if in_string s then [c] else []) @ (case scan_char s c of None \<Rightarrow> [] | Some s' \<Rightarrow> quoted cs s')"

primrec compact :: "string \<Rightarrow> scan \<Rightarrow> string" where
  "compact [] s = []"
| "compact (c # cs) s =
     (if is_space c \<and> \<not> in_string s then [] else [c]) @ (case scan_char s c of None \<Rightarrow> [] | Some s' \<Rightarrow> compact cs s')"

text \<open>Lines that hold one object, and those whose strings have as many closing as opening braces up to the end of each line.\<close>

definition lines_text :: "string list \<Rightarrow> string" where
  "lines_text ls = concat (map (\<lambda>l. l @ [newline]) ls)"

definition json_object :: "string list \<Rightarrow> bool" where
  "json_object ls \<longleftrightarrow> scans (lines_text ls) Before = Some After"

definition even_strings :: "string list \<Rightarrow> bool" where
  "even_strings ls \<longleftrightarrow> list_all (\<lambda>k. braces (quoted (lines_text (take k ls)) Before) = 0) [0..<Suc (length ls)]"

lemma even_strings_iff: "even_strings ls \<longleftrightarrow> (\<forall>k \<le> length ls. braces (quoted (lines_text (take k ls)) Before) = 0)"
  by (auto simp: even_strings_def list_all_iff simp del: upt_Suc)

subsection \<open>The scanner\<close>

lemma scans_append: "scans (xs @ ys) s = Option.bind (scans xs s) (scans ys)"
  by (induction xs arbitrary: s) (auto split: Option.bind_split)

lemma scans_appendE:
  assumes "scans (xs @ ys) s = Some s'"
  obtains m where "scans xs s = Some m" "scans ys m = Some s'"
  using assms by (auto simp: scans_append bind_eq_Some_conv)

lemma quoted_append: "scans xs s = Some s' \<Longrightarrow> quoted (xs @ ys) s = quoted xs s @ quoted ys s'"
  by (induction xs arbitrary: s) (auto split: Option.bind_splits)

lemma compact_append: "scans xs s = Some s' \<Longrightarrow> compact (xs @ ys) s = compact xs s @ compact ys s'"
  by (induction xs arbitrary: s) (auto split: Option.bind_splits)

lemma braces_simps [simp]:
  "braces [] = 0" "braces (c # cs) = (if c = CHR ''{'' then 1 else if c = CHR ''}'' then -1 else 0) + braces cs"
  "braces (xs @ ys) = braces xs + braces ys"
  by (auto simp: braces_def count_char_def)

text \<open>The scanner counts the braces that are not in strings.\<close>

fun level :: "scan \<Rightarrow> int" where
  "level (Inside n) = 1 + int n"
| "level (Quoted n) = 1 + int n"
| "level (Escaped n) = 1 + int n"
| "level _ = 0"

lemma special_chars [simp]:
  "is_space newline" "quote \<noteq> CHR ''{''" "quote \<noteq> CHR ''}''" "\<not> is_space CHR ''{''" "\<not> is_space CHR ''}''" "\<not> is_space quote"
  by (simp_all add: is_space_def newline_def quote_def)

lemma space_no_brace: "is_space c \<Longrightarrow> c \<noteq> CHR ''{'' \<and> c \<noteq> CHR ''}'' \<and> c \<noteq> quote"
  by auto

lemma level_char:
  "scan_char s c = Some s' \<Longrightarrow> level s' + braces (if in_string s then [c] else []) = level s + braces [c]"
  by (cases s) (auto dest: space_no_brace split: if_splits nat.splits)

lemma level_scans: "scans cs s = Some s' \<Longrightarrow> level s' + braces (quoted cs s) = level s + braces cs"
proof (induction cs arbitrary: s)
  case (Cons c cs)
  then obtain m where m: "scan_char s c = Some m" "scans cs m = Some s'" by (auto simp: bind_eq_Some_conv)
  from Cons.IH [OF m(2)] level_char [OF m(1)] m(1) show ?case by auto
qed simp

text \<open>White space outside of strings changes nothing, and neither does the trimming of a line.\<close>

lemma spaces_skip: "list_all is_space cs \<Longrightarrow> \<not> in_string s \<Longrightarrow> scans cs s = Some s \<and> compact cs s = []"
proof (induction cs)
  case (Cons c cs)
  then have "scan_char s c = Some s" by (cases s) (auto dest: space_no_brace)
  with Cons show ?case by simp
qed simp

lemma spaces_in_string: "list_all is_space cs \<Longrightarrow> in_string s \<Longrightarrow> scans cs s = Some s' \<Longrightarrow> in_string s'"
proof (induction cs arbitrary: s)
  case (Cons c cs)
  from Cons.prems obtain m where m: "scan_char s c = Some m" "scans cs m = Some s'" by (auto simp: bind_eq_Some_conv)
  have "in_string m" using m(1) Cons.prems by (cases s) (auto dest: space_no_brace split: if_splits)
  with Cons m(2) show ?case by simp
qed simp

lemma trim_space_parts:
  obtains b a where "l = b @ trim_space l @ a" "list_all is_space b" "list_all is_space a"
proof -
  let ?m = "dropWhile is_space l"
  have "l = takeWhile is_space l @ ?m" by simp
  moreover have "?m = trim_space l @ rev (takeWhile is_space (rev ?m))"
    unfolding trim_space_def rev_append [symmetric] takeWhile_dropWhile_id by simp
  ultimately have "l = takeWhile is_space l @ trim_space l @ rev (takeWhile is_space (rev ?m))" by metis
  then show thesis
    by (rule that) (auto simp: list_all_iff dest: set_takeWhileD)
qed

lemma trim_line:
  assumes "scans (l @ [newline]) s = Some s'" "\<not> in_string s"
  shows "\<not> in_string s'" "scans (trim_space l) s = Some s'" "compact (l @ [newline]) s = compact (trim_space l) s"
proof -
  obtain b a where l: "l = b @ trim_space l @ a" and sp: "list_all is_space b" "list_all is_space a" by (rule trim_space_parts)
  have "scans (b @ trim_space l @ a @ [newline]) s = Some s'" using assms(1) l by (metis append_assoc)
  then obtain m n where m: "scans (trim_space l) s = Some m" and n: "scans a m = Some n" "scans [newline] n = Some s'"
    using spaces_skip [OF sp(1) assms(2)] by (auto simp: scans_append bind_eq_Some_conv)
  have "\<not> in_string n" using n(2) by (cases n) auto
  then have nm: "\<not> in_string m" using spaces_in_string [OF sp(2) _ n(1)] by blast
  then have "n = m" using spaces_skip [OF sp(2)] n(1) by auto
  moreover have "s' = n" using n(2) \<open>\<not> in_string n\<close> spaces_skip [of "[newline]" n] by auto
  ultimately show "\<not> in_string s'" "scans (trim_space l) s = Some s'" using nm m by auto
  have "compact (b @ trim_space l @ a @ [newline]) s = compact (trim_space l) s"
    using spaces_skip [OF sp(1) assms(2)] spaces_skip [of "a @ [newline]" m] sp(2) nm m
    by (simp add: compact_append)
  then show "compact (l @ [newline]) s = compact (trim_space l) s" using l by (metis append_assoc)
qed

lemma lines_text_simps [simp]:
  "lines_text [] = []" "lines_text (l # ls) = l @ newline # lines_text ls" "lines_text (xs @ ys) = lines_text xs @ lines_text ys"
  by (simp_all add: lines_text_def)

text \<open>The lines joined without the white space around them are the same object: they differ in white space outside of strings only.\<close>

lemma join_scans:
  "scans (lines_text ls) s = Some s' \<Longrightarrow> \<not> in_string s \<Longrightarrow>
   \<not> in_string s' \<and> scans (concat (inked ls)) s = Some s' \<and> compact (concat (inked ls)) s = compact (lines_text ls) s"
proof (induction ls arbitrary: s)
  case (Cons l ls)
  have "scans ((l @ [newline]) @ lines_text ls) s = Some s'" using Cons.prems(1) by simp
  then obtain m where m: "scans (l @ [newline]) s = Some m" "scans (lines_text ls) m = Some s'" by (rule scans_appendE)
  note t = trim_line [OF m(1) Cons.prems(2)]
  have "compact (lines_text (l # ls)) s = compact (l @ [newline]) s @ compact (lines_text ls) m"
    using compact_append [OF m(1), of "lines_text ls"] by simp
  moreover have "concat (inked (l # ls)) = trim_space l @ concat (inked ls)" by simp
  ultimately show ?case
    using Cons.IH [OF m(2) t(1)] t by (simp add: scans_append compact_append)
qed simp

subsection \<open>Objects are balanced\<close>

lemma braces_trim [simp]: "braces (trim_space l) = braces l"
proof -
  have sp: "list_all is_space cs \<Longrightarrow> braces cs = 0" for cs by (induction cs) (auto dest: space_no_brace)
  obtain b a where "l = b @ trim_space l @ a" "list_all is_space b" "list_all is_space a" by (rule trim_space_parts)
  then show ?thesis using sp braces_simps(3) by (metis add_0 add.right_neutral)
qed

lemma depth_inked: "depth (inked ls) = braces (lines_text ls)"
proof (induction ls)
  case (Cons l ls)
  have "trim_space l = [] \<Longrightarrow> braces l = 0" using braces_trim [of l] by simp
  with Cons show ?case by (auto simp: newline_def)
qed simp

lemma before_spaces: "scans cs s = Some Before \<Longrightarrow> s = Before \<and> list_all is_space cs"
proof (induction cs arbitrary: s)
  case (Cons c cs)
  then obtain m where m: "scan_char s c = Some m" "m = Before" by (auto simp: bind_eq_Some_conv)
  then have "s = Before \<and> is_space c" by (cases s) (auto split: if_splits nat.splits)
  with Cons m show ?case by (auto simp: bind_eq_Some_conv)
qed simp

lemma after_spaces: "scans cs After = Some s' \<Longrightarrow> s' = After \<and> list_all is_space cs"
  by (induction cs) (auto split: if_splits)

lemma spaces_no_ink: "list_all is_space (lines_text ls) \<Longrightarrow> inked ls = []"
proof (induction ls)
  case (Cons l ls)
  then have "dropWhile is_space l = []" by (simp add: list_all_iff)
  then have "trim_space l = []" by (simp only: trim_space_def rev.simps dropWhile.simps)
  with Cons show ?case by simp
qed simp

lemma inked_prefix:
  "k < length (inked ls) \<Longrightarrow> \<exists>j \<le> length ls. inked (take j ls) = take k (inked ls) \<and> inked (drop j ls) \<noteq> []"
proof (induction ls arbitrary: k)
  case (Cons l ls)
  show ?case
  proof (cases "trim_space l = []")
    case True
    then obtain j where "j \<le> length ls" "inked (take j ls) = take k (inked ls)" "inked (drop j ls) \<noteq> []"
      using Cons.IH [of k] Cons.prems by auto
    with True show ?thesis by (intro exI [of _ "Suc j"]) simp
  next
    case False
    show ?thesis
    proof (cases k)
      case 0
      with False show ?thesis by (intro exI [of _ 0]) simp
    next
      case (Suc k')
      then obtain j where "j \<le> length ls" "inked (take j ls) = take k' (inked ls)" "inked (drop j ls) \<noteq> []"
        using Cons.IH [of k'] Cons.prems False by auto
      with False Suc show ?thesis by (intro exI [of _ "Suc j"]) simp
    qed
  qed
qed simp

text \<open>Where an object has begun and has not ended, the scanner is in it.\<close>

lemma object_prefix:
  assumes "json_object ls"
  obtains m where "scans (lines_text (take j ls)) Before = Some m" "scans (lines_text (drop j ls)) m = Some After"
proof -
  have "scans (lines_text (take j ls) @ lines_text (drop j ls)) Before = Some After"
    using assms by (simp only: json_object_def lines_text_simps(3) [symmetric] append_take_drop_id)
  then show thesis by (rule scans_appendE) (rule that)
qed

lemma object_depth:
  assumes "json_object ls" "inked (take j ls) \<noteq> []" "inked (drop j ls) \<noteq> []"
  shows "braces (quoted (lines_text (take j ls)) Before) < depth (inked (take j ls))"
proof -
  obtain m where m: "scans (lines_text (take j ls)) Before = Some m" "scans (lines_text (drop j ls)) m = Some After"
    by (rule object_prefix [OF assms(1)])
  have "m \<noteq> Before" using before_spaces m(1) spaces_no_ink assms(2) by blast
  moreover have "m \<noteq> After" using after_spaces m(2) spaces_no_ink assms(3) by blast
  ultimately have "0 < level m" by (cases m) auto
  with level_scans [OF m(1)] show ?thesis by (simp add: depth_inked)
qed

lemma object_depth_end: "json_object ls \<Longrightarrow> depth (inked ls) = braces (quoted (lines_text ls) Before)"
  using level_scans [of "lines_text ls" Before After] by (simp add: json_object_def depth_inked)

lemma object_has_ink: "json_object ls \<Longrightarrow> inked ls \<noteq> []"
  using join_scans [of ls Before After] by (auto simp: json_object_def)

lemma object_balanced:
  assumes "json_object ls" "even_strings ls"
  shows "balanced ls"
  unfolding balanced_def
proof (intro conjI allI impI)
  show "inked ls \<noteq> []" by (rule object_has_ink [OF assms(1)])
  show "depth (inked ls) = 0" using object_depth_end [OF assms(1)] assms(2) [unfolded even_strings_iff, rule_format, of "length ls"] by simp
next
  fix k assume k: "k < length (inked ls)" "0 < k"
  then obtain j where j: "j \<le> length ls" "inked (take j ls) = take k (inked ls)" "inked (drop j ls) \<noteq> []"
    using inked_prefix by blast
  then have "inked (take j ls) \<noteq> []" using k by auto
  from object_depth [OF assms(1) this j(3)] assms(2) j(1,2) show "depth (take k (inked ls)) \<noteq> 0"
    by (simp add: even_strings_iff)
qed

subsection \<open>Braces in strings\<close>

text \<open>
  Lines whose strings never have more closing than opening braces, counted up to the end of a line. When there are more opening
  ones at the end of an object, the count stays above zero, and nothing after it is taken for an object.
\<close>

definition opening_strings :: "string list \<Rightarrow> bool" where
  "opening_strings ls \<longleftrightarrow> list_all (\<lambda>k. 0 \<le> braces (quoted (lines_text (take k ls)) Before)) [0..<Suc (length ls)]"

lemma opening_strings_iff: "opening_strings ls \<longleftrightarrow> (\<forall>k \<le> length ls. 0 \<le> braces (quoted (lines_text (take k ls)) Before))"
  by (auto simp: opening_strings_def list_all_iff simp del: upt_Suc)

lemma group_lines_stuck:
  "\<forall>j \<le> length ls. inked (take j ls) \<noteq> [] \<longrightarrow> 0 < c + depth (inked (take j ls)) \<Longrightarrow>
   group_lines ls (acc, c) = ([], (acc @ inked ls, c + depth (inked ls)))"
proof (induction ls arbitrary: acc c)
  case (Cons l ls)
  show ?case
  proof (cases "trim_space l = []")
    case True
    have "group_lines ls (acc, c) = ([], (acc @ inked ls, c + depth (inked ls)))"
    proof (rule Cons.IH, intro allI impI)
      fix j assume "j \<le> length ls" "inked (take j ls) \<noteq> []"
      then show "0 < c + depth (inked (take j ls))" using Cons.prems [rule_format, of "Suc j"] True by simp
    qed
    with True show ?thesis by (simp add: group_line_def)
  next
    case False
    let ?l = "trim_space l"
    have pos: "0 < c + braces l" using Cons.prems [rule_format, of "Suc 0"] False by simp
    then have g: "group_line l (acc, c) = (None, (acc @ [?l], c + braces l))"
      using False by (simp add: group_line_def Let_def)
    have "group_lines ls (acc @ [?l], c + braces l) = ([], ((acc @ [?l]) @ inked ls, (c + braces l) + depth (inked ls)))"
    proof (rule Cons.IH, intro allI impI)
      fix j assume "j \<le> length ls" "inked (take j ls) \<noteq> []"
      then show "0 < c + braces l + depth (inked (take j ls))"
        using Cons.prems [rule_format, of "Suc j"] False by (simp add: add.assoc)
    qed
    with g False show ?thesis by (simp add: add.assoc)
  qed
qed simp

lemma opening_depth:
  assumes "json_object ls" "opening_strings ls" "j \<le> length ls" "inked (take j ls) \<noteq> []"
  shows "0 < depth (inked (take j ls)) \<or> depth (inked (take j ls)) = depth (inked ls)"
proof (cases "inked (drop j ls) = []")
  case True
  have "inked ls = inked (take j ls) @ inked (drop j ls)" unfolding inked_def by (metis append_take_drop_id filter_append map_append)
  with True show ?thesis by simp
next
  case False
  from object_depth [OF assms(1,4) False] assms(2,3) show ?thesis by (force simp: opening_strings_iff)
qed

lemma group_opening_object:
  assumes "json_object ls" "opening_strings ls" "0 < c \<or> c = 0 \<and> 0 < depth (inked ls)"
  shows "group_lines ls (acc, c) = ([], (acc @ inked ls, c + depth (inked ls)))" "0 < c + depth (inked ls)"
proof -
  have "0 \<le> depth (inked ls)" using object_depth_end [OF assms(1)] assms(2) [unfolded opening_strings_iff, rule_format, of "length ls"] by simp
  then show "0 < c + depth (inked ls)" using assms(3) by auto
  show "group_lines ls (acc, c) = ([], (acc @ inked ls, c + depth (inked ls)))"
    by (rule group_lines_stuck) (use opening_depth [OF assms(1,2)] \<open>0 \<le> depth (inked ls)\<close> assms(3) in \<open>force\<close>)
qed

lemma group_after_opening:
  "\<forall>ls \<in> set os. json_object ls \<and> opening_strings ls \<Longrightarrow> 0 < c \<Longrightarrow> fst (group_lines (concat os) (acc, c)) = []"
proof (induction os arbitrary: acc c)
  case (Cons ls os)
  have "fst (group_lines (concat os) (acc @ inked ls, c + depth (inked ls))) = []"
    using Cons group_opening_object(2) [of ls c] by simp
  then show ?case using Cons.prems group_opening_object(1) [of ls c acc] by (simp add: group_lines_append split: prod.split)
qed simp

lemma group_opening:
  assumes "json_object ls" "opening_strings ls" "0 < braces (quoted (lines_text ls) Before)"
    and "\<forall>ls \<in> set os. json_object ls \<and> opening_strings ls"
  shows "fst (group_lines (ls @ concat os) ([], 0)) = []"
  using group_opening_object(1) [OF assms(1,2), of 0 "[]"] group_after_opening [OF assms(4)] object_depth_end [OF assms(1)] assms(3)
  by (simp add: group_lines_append split: prod.split)

end
