(* ===== verification/File_Watch.thy ===== *)
theory File_Watch
  imports Frame Json_Lines
begin

text \<open>
  What the file adapter of \<open>File_Tail\<close> does over time: the tails that run are those of the table, a rotated file is followed
  again within a cycle, the objects of a multi-line file come out one by one, and Parquet files are told from text files as
  the storage adapters tell them.
\<close>

section \<open>Tails and the table\<close>

text \<open>The paths with a tail that was opened and not stopped since, and that none was opened twice.\<close>

definition live_step :: "(file_query, file_answer) eff \<Rightarrow> string set \<Rightarrow> string set" where
  "live_step e L =
     (case e of
        ECall q r \<Rightarrow>
          (case q of FTail p opts \<Rightarrow> (if r = RErr None then insert p L else L) | FStop p \<Rightarrow> L - {p} | _ \<Rightarrow> L)
      | _ \<Rightarrow> L)"

primrec live :: "(file_query, file_answer) history \<Rightarrow> string set" where
  "live [] = {}"
| "live (e # h) = live_step e (live h)"

primrec single :: "(file_query, file_answer) history \<Rightarrow> bool" where
  "single [] = True"
| "single (e # h) \<longleftrightarrow> (\<forall>p opts. e = ECall (FTail p opts) (RErr None) \<longrightarrow> p \<notin> live h) \<and> single h"

lemma live_step_simps [simp]:
  "live_step (ENow t) L = L" "live_step (EShip m d x) L = L" "live_step (EOnError err) L = L"
  "live_step (EOnWarning s) L = L" "live_step (EWait d b) L = L" "live_step EStop L = L"
  "live_step (ECall (FTail p opts) r) L = (if r = RErr None then insert p L else L)"
  "live_step (ECall (FStop p) r) L = L - {p}"
  "live_step (ECall (FStat p) r) L = L" "live_step (ECall (FCleanup p) r) L = L" "live_step (ECall (FHandle p i) r) L = L"
  "live_step (ECall (FDecode p i) r) L = L" "live_step (ECall (FOpen p) r) L = L" "live_step (ECall (FReadAt p k) r) L = L"
  "live_step (ECall (FReadAll p) r) L = L" "live_step (ECall (FLine p) r) L = L" "live_step (ECall FAcquire r) L = L"
  "live_step (ECall FRelease r) L = L" "live_step (ECall (FGlob g) r) L = L"
  by (simp_all add: live_step_def)

definition same_tails :: "(file_query, file_answer) world \<Rightarrow> (file_query, file_answer) world \<Rightarrow> bool" where
  "same_tails w w' \<longleftrightarrow> live (hist w') = live (hist w) \<and> single (hist w') = single (hist w)"

interpretation same_tails: frame same_tails
  by unfold_locales (auto simp: same_tails_def)

lemmas same_tails_rules [simp, intro!] = same_tails.rules

abbreviation keeps_tails :: "'a file_io \<Rightarrow> bool" where
  "keeps_tails \<equiv> along same_tails"

lemma keeps_tails_prims [simp, intro!]:
  "keeps_tails (now env)" "keeps_tails (onError e)" "keeps_tails (onWarning s)" "keeps_tails (waitFor env d)"
  "keeps_tails (loadStop env)" "keeps_tails (ship env m d)"
  "keeps_tails (call env (FStat p))" "keeps_tails (call env (FCleanup p))" "keeps_tails (call env (FHandle p i))"
  "keeps_tails (call env (FDecode p i))" "keeps_tails (call env (FOpen p))" "keeps_tails (call env (FReadAt p o1))"
  "keeps_tails (call env (FReadAll p))" "keeps_tails (call env (FLine p))" "keeps_tails (call env FAcquire)"
  "keeps_tails (call env FRelease)" "keeps_tails (call env (FGlob g))"
  by (auto intro!: alongI simp: same_tails_def wp_simps loadStop_def)

lemma keeps_tails_detect [simp, intro!]: "keeps_tails (detectParquetFile env path)"
  unfolding detectParquetFile_def by (auto split: file_answer.split read_at.split sum.split)

definition active :: "tail_info \<Rightarrow> bool" where
  "active info \<longleftrightarrow> \<not> processedAsParquet info \<and> \<not> isInactive info"

definition following :: "tail_files \<Rightarrow> string set" where
  "following files = fst ` set (filter (\<lambda>(p, info). active info) files)"

lemma stop_tail_spec:
  "(\<And>w'. live (hist w') = live (hist w) - {p} \<Longrightarrow> single (hist w') = single (hist w) \<Longrightarrow> Q () w') \<Longrightarrow>
   wp (stop_tail env rep p) Q w"
  unfolding stop_tail_def by (simp add: wp_simps split: file_answer.split option.split)

lemma tail_file_spec:
  assumes "p \<notin> live (hist w)"
    and "\<And>w'. live (hist w') = insert p (live (hist w)) \<Longrightarrow> single (hist w') = single (hist w) \<Longrightarrow> Q None w'"
    and "\<And>e w'. live (hist w') = live (hist w) \<Longrightarrow> single (hist w') = single (hist w) \<Longrightarrow> Q (Some e) w'"
  shows "wp (tail_file env c start p) Q w"
proof -
  let ?q = "FTail p \<lparr>to_follow = \<not> fc_NoFollow c, to_poll = fc_Poll c, to_start = start\<rparr>"
  let ?r = "e_call env (hist w) ?q"
  show ?thesis
  proof (cases "?r = RErr None")
    case True
    with assms(1,2) show ?thesis by (simp add: tail_file_def wp_simps)
  next
    case False
    then show ?thesis using assms(3) by (auto simp: tail_file_def wp_simps split: file_answer.split option.split)
  qed
qed

text \<open>What one look leaves of an entry: its tail lives exactly when the entry is active.\<close>

definition looked :: "string set \<Rightarrow> string \<Rightarrow> tail_info \<Rightarrow> tail_info option \<Rightarrow> (file_query, file_answer) world \<Rightarrow> bool" where
  "looked L path info r w' \<longleftrightarrow> single (hist w') \<and>
     live (hist w') = (L - {path}) \<union> (case r of Some i \<Rightarrow> if active i then {path} else {} | None \<Rightarrow> {}) \<and>
     (\<forall>i. r = Some i \<longrightarrow> ti_id i = ti_id info \<and> processedAsParquet i = processedAsParquet info)"

lemma looked_same:
  "single (hist w') \<Longrightarrow> live (hist w') = L \<Longrightarrow> path \<in> L \<longleftrightarrow> active i \<Longrightarrow> ti_id i = ti_id info \<Longrightarrow>
   processedAsParquet i = processedAsParquet info \<Longrightarrow> looked L path info (Some i) w'"
  unfolding looked_def by auto

lemma looked_gone: "single (hist w') \<Longrightarrow> live (hist w') = L - {path} \<Longrightarrow> looked L path info None w'"
  by (simp add: looked_def)

lemma check_parquet_tails:
  assumes "path \<notin> live (hist w)" "single (hist w)" "processedAsParquet info"
  shows "wp (check_parquet info st) (looked (live (hist w)) path info) w"
  unfolding check_parquet_def using assms by (simp add: wp_simps looked_def active_def)

lemma check_inactive_tails:
  assumes "path \<notin> live (hist w)" "single (hist w)" "\<not> processedAsParquet info" "isInactive info"
  shows "wp (check_inactive env c t path info st) (looked (live (hist w)) path info) w"
proof (cases "t - st_mtime st \<le> reactivationThreshold c")
  case True
  show ?thesis
    unfolding check_inactive_def if_P [OF True] wp_bind wp_unit_ops
    by (rule tail_file_spec) (use assms in \<open>simp_all add: wp_simps looked_def active_def\<close>)
next
  case False
  with assms show ?thesis by (simp add: check_inactive_def wp_ret looked_def active_def)
qed

lemma check_active_tails:
  assumes "path \<in> live (hist w)" "single (hist w)" "\<not> processedAsParquet info" "\<not> isInactive info"
  shows "wp (check_active env c t path info st) (looked (live (hist w)) path info) w"
proof -
  let ?L = "live (hist w)"
  let ?post = "\<lambda>i w'. single (hist w') \<and> (live (hist w') = (if active i then ?L else ?L - {path})) \<and>
    ti_id i = ti_id info \<and> processedAsParquet i = processedAsParquet info"
  have stop: "wp (do { onError e; stop_tail env rep path; ret (info\<lparr>isInactive := True\<rparr>) }) ?post w" for e rep
    unfolding wp_bind wp_unit_ops
    by (rule stop_tail_spec) (use assms in \<open>simp add: wp_simps active_def\<close>)
  have keep: "?post (if b then info\<lparr>lastActive := m\<rparr> else info) w" for b m
    using assms by (simp add: active_def)
  have health: "wp (do { (if b then onWarning s else ret ()); ret (Some i) }) (looked ?L path info) v" if "?post i v" for b s i v
    using that assms(1) by (auto simp: wp_simps looked_def)
  show ?thesis
    unfolding check_active_def Let_def
    by (rule wp_bindI [where P = ?post]) (use stop keep in \<open>simp add: wp_ret\<close>, rule health, assumption)
qed

lemma stop_and_clean:
  assumes "single (hist w)"
  shows "wp (do { onError e; stop_tail env rep path; call env (FCleanup path); ret None }) (looked (live (hist w)) path info) w"
  unfolding wp_bind wp_unit_ops
  by (rule stop_tail_spec) (use assms in \<open>simp add: wp_simps looked_def\<close>)

lemma wp_stat_answer:
  assumes "\<And>st. r = RStat (Inr st) \<Longrightarrow> wp (f st) Q w" "wp g Q w"
  shows "wp (case r of RStat (Inr st) \<Rightarrow> f st | _ \<Rightarrow> g) Q w"
  using assms by (simp split: file_answer.split sum.split)

lemma check_entry_tails:
  assumes "path \<in> live (hist w) \<longleftrightarrow> active info" "single (hist w)"
  shows "wp (check_entry env c t path info) (looked (live (hist w)) path info) w"
proof -
  let ?r = "e_call env (hist w) (FStat path)"
  let ?w1 = "w\<lparr>hist := ECall (FStat path) ?r # hist w\<rparr>"
  let ?Q = "looked (live (hist w)) path info"
  have w1: "live (hist ?w1) = live (hist w)" "single (hist ?w1)" using assms(2) by simp_all
  have gone: "wp (do { onError e; stop_tail env rep path; call env (FCleanup path); ret None }) ?Q ?w1" for e rep
    using stop_and_clean [OF w1(2), of e env rep path info] unfolding w1(1) .
  have absent: "wp (if processedAsParquet info then ret None
         else do { onError e; stop_tail env rep path; call env (FCleanup path); ret None }) ?Q ?w1" for e rep
  proof (cases "processedAsParquet info")
    case True
    then have "?Q None ?w1" using assms w1 by (auto simp: looked_def active_def)
    with True show ?thesis by (simp add: wp_ret)
  qed (use gone in \<open>simp only: if_False\<close>)
  have present: "wp (if processedAsParquet info then check_parquet info st
         else if rotated info st then do { onError e; stop_tail env rep path; call env (FCleanup path); ret None }
         else if isInactive info then check_inactive env c t path info st
         else check_active env c t path info st) ?Q ?w1" for st e rep
  proof (cases "processedAsParquet info")
    case True
    then have "path \<notin> live (hist ?w1)" using assms(1) w1(1) by (simp add: active_def)
    from check_parquet_tails [OF this w1(2) True, of st] True show ?thesis unfolding w1(1) by (simp only: if_True)
  next
    case np: False
    have "wp (if isInactive info then check_inactive env c t path info st else check_active env c t path info st) ?Q ?w1"
    proof (cases "isInactive info")
      case True
      then have "path \<notin> live (hist ?w1)" using assms(1) w1(1) by (simp add: active_def)
      from check_inactive_tails [OF this w1(2) np True, of env c t st] True show ?thesis unfolding w1(1) by (simp only: if_True)
    next
      case False
      then have "path \<in> live (hist ?w1)" using assms(1) w1(1) np by (simp add: active_def)
      from check_active_tails [OF this w1(2) np False, of env c t st] False show ?thesis unfolding w1(1) by (simp only: if_False)
    qed
    then show ?thesis using gone np by (cases "rotated info st") (simp_all only: if_True if_False)
  qed
  show ?thesis
    unfolding check_entry_def wp_bind [of "call env (FStat path)"] wp_call
    by (rule wp_stat_answer) (rule present, rule absent)
qed

lemma following_Cons [simp]: "following ((p, i) # files) = (if active i then insert p (following files) else following files)"
  by (auto simp: following_def)

lemma following_Nil [simp]: "following [] = {}"
  by (simp add: following_def)

lemma following_dom: "following files \<subseteq> fst ` set files"
  by (auto simp: following_def)

text \<open>
  The entries of the table after a look at all of them: each is one that was there, with the same pointer and kind, and
  the tails that live are theirs. \<open>L\<close> are the tails of other paths.
\<close>

definition same_entries :: "tail_files \<Rightarrow> tail_files \<Rightarrow> bool" where
  "same_entries files files' \<longleftrightarrow> (\<forall>p i'. (p, i') \<in> set files' \<longrightarrow>
     (\<exists>i. (p, i) \<in> set files \<and> ti_id i' = ti_id i \<and> processedAsParquet i' = processedAsParquet i))"

lemma check_entries_tails:
  "distinct (map fst files) \<Longrightarrow> single (hist w) \<Longrightarrow> live (hist w) = L \<union> following files \<Longrightarrow> L \<inter> fst ` set files = {} \<Longrightarrow>
   wp (check_entries env c t files) (\<lambda>files' w'. single (hist w') \<and> live (hist w') = L \<union> following files' \<and>
     distinct (map fst files') \<and> same_entries files files') w"
proof (induction files arbitrary: L w)
  case Nil
  then show ?case by (simp add: wp_ret same_entries_def)
next
  case (Cons e files)
  obtain path info where e: "e = (path, info)" by fastforce
  have notin: "path \<notin> following files" "path \<notin> L" using Cons.prems(1,4) following_dom e by auto
  then have act: "path \<in> live (hist w) \<longleftrightarrow> active info" using Cons.prems(3) e by auto
  show ?case
    unfolding e check_entries.simps wp_bind
  proof (rule wp_mono [OF check_entry_tails [OF act Cons.prems(2)]], goal_cases)
    case (1 r w1)
    let ?A = "case r of Some i \<Rightarrow> if active i then {path} else {} | None \<Rightarrow> {}"
    have l1: "live (hist w1) = (L \<union> ?A) \<union> following files" and s1: "single (hist w1)"
      and ids: "\<And>i. r = Some i \<Longrightarrow> ti_id i = ti_id info \<and> processedAsParquet i = processedAsParquet info"
      using 1 Cons.prems(3) notin e by (auto simp: looked_def)
    have disj: "(L \<union> ?A) \<inter> fst ` set files = {}" using Cons.prems(1,4) e by (auto split: option.splits)
    show ?case
    proof (rule wp_mono [OF Cons.IH [OF _ s1 l1 disj]], goal_cases)
      case 1 then show ?case using Cons.prems(1) by simp
    next
      case (2 rest w2)
      then have "path \<notin> fst ` set rest" using Cons.prems(1) e unfolding same_entries_def by force
      moreover have "same_entries (e # files) rest" using 2 unfolding same_entries_def by (meson list.set_intros(2))
      moreover have "same_entries (e # files) ((path, i) # rest)" if "r = Some i" for i
        using ids [OF that] \<open>same_entries (e # files) rest\<close> unfolding same_entries_def e by auto
      ultimately show ?case using 2 e by (cases r) (simp_all add: wp_ret Un_ac)
    qed
  qed
qed

text \<open>A tail is opened for a path that is not in the table, and the entry made for it is active.\<close>

definition tails_ok :: "poll_state \<Rightarrow> (file_query, file_answer) world \<Rightarrow> bool" where
  "tails_ok s w \<longleftrightarrow> distinct (map fst (tailFiles s)) \<and> single (hist w) \<and> live (hist w) = following (tailFiles s)"

lemma tails_ok_keeps:
  assumes "keeps_tails m" "tails_ok s w" "\<And>x w'. tails_ok s w' \<Longrightarrow> Q x w'"
  shows "wp m Q w"
  by (rule along_wp [OF assms(1)]) (use assms(2,3) in \<open>simp add: tails_ok_def same_tails_def\<close>)

lemma following_put_new: "map_of files p = None \<Longrightarrow>
  following (put p i files) = (if active i then insert p (following files) else following files)"
  by (induction files) (auto split: if_splits)

lemma tails_ok_track_parquet:
  assumes "tails_ok s w" "map_of (tailFiles s) p = None"
  shows "tails_ok (track p ino True t s) w"
  using assms by (simp add: tails_ok_def track_def following_put_new active_def new_info_def)

lemma tails_ok_track_tail:
  assumes "tails_ok s w" "map_of (tailFiles s) p = None" "live (hist w') = insert p (live (hist w))"
    "single (hist w') = single (hist w)"
  shows "tails_ok (track p ino False t s) w'"
  using assms by (simp add: tails_ok_def track_def following_put_new active_def new_info_def)

lemma tails_ok_fresh: "tails_ok s w \<Longrightarrow> map_of (tailFiles s) p = None \<Longrightarrow> p \<notin> live (hist w)"
  using following_dom by (auto simp: tails_ok_def map_of_eq_None_iff)

lemma tails_ok_hist: "live (hist w') = live (hist w) \<Longrightarrow> single (hist w') = single (hist w) \<Longrightarrow> tails_ok s w' = tails_ok s w"
  by (simp add: tails_ok_def)

lemma open_tail_tails:
  assumes "tails_ok s w" "map_of (tailFiles s) p = None"
  shows "wp (do {
      e \<leftarrow> tail_file env c start p;
      case e of
        Some err \<Rightarrow> do { onError (GoWrap m err); ret s }
      | None \<Rightarrow> do { t' \<leftarrow> now env; call env (FHandle p (next_id s)); ret (track p ino False t' s) }
    }) tails_ok w"
  unfolding wp_bind [of "tail_file env c start p"]
proof (rule tail_file_spec [OF tails_ok_fresh [OF assms]], goal_cases)
  case (1 w')
  then show ?case using tails_ok_track_tail [OF assms] by (simp add: wp_simps)
next
  case (2 e w')
  then show ?case using assms(1) tails_ok_hist by (simp add: wp_simps tails_ok_def)
qed

lemma open_new_tails:
  assumes "tails_ok s w" "map_of (tailFiles s) p = None"
  shows "wp (open_new env c t isFirstRun p s) tails_ok w"
proof -
  have parquet: "wp (do { t' \<leftarrow> now env; call env (FDecode p (next_id s)); ret (track p ino True t' s) }) tails_ok w1"
    if "tails_ok s w1" for w1 ino
    using tails_ok_track_parquet [OF that assms(2)] by (simp add: wp_simps tails_ok_def)
  have skip: "wp (do { onWarning m; ret s }) tails_ok w1" if "tails_ok s w1" for w1 m
    using that by (simp add: wp_simps tails_ok_def)
  have found: "wp (do {
      (isParquet, err) \<leftarrow> detectParquetFile env p;
      (case err of Some e \<Rightarrow> onError (GoWrap m e) | None \<Rightarrow> ret ());
      if isParquet then do { t' \<leftarrow> now env; call env (FDecode p (next_id s)); ret (track p ino True t' s) }
      else if old then do { onWarning m'; ret s }
      else do {
        e \<leftarrow> tail_file env c start p;
        case e of
          Some err \<Rightarrow> do { onError (GoWrap m'' err); ret s }
        | None \<Rightarrow> do { t' \<leftarrow> now env; call env (FHandle p (next_id s)); ret (track p ino False t' s) }
      }
    }) tails_ok w1" if w1: "tails_ok s w1" for w1 ino m m' m'' old start
    unfolding wp_bind [of "detectParquetFile env p"]
  proof (rule tails_ok_keeps [OF keeps_tails_detect w1], goal_cases)
    case (1 x w2)
    obtain isParquet err where x: "x = (isParquet, err)" by fastforce
    have report: "keeps_tails (case err of Some e \<Rightarrow> onError (GoWrap m e) | None \<Rightarrow> ret ())" by (simp split: option.split)
    show ?case
      unfolding x prod.case wp_bind [of "case err of Some e \<Rightarrow> onError (GoWrap m e) | None \<Rightarrow> ret ()"]
    proof (rule tails_ok_keeps [OF report 1], goal_cases)
      case (1 u w3)
      show ?case using parquet [OF 1] skip [OF 1] open_tail_tails [OF 1 assms(2)]
        by (cases isParquet; cases old) (simp_all only: if_True if_False)
    qed
  qed
  show ?thesis
    unfolding open_new_def wp_bind [of "call env (FStat p)"]
  proof (rule tails_ok_keeps [of _ s])
    fix r w'
    assume w': "tails_ok s w'"
    note found [OF w']
    moreover have "tails_ok s (w'\<lparr>hist := EOnError e # hist w'\<rparr>)" for e
      using w' by (simp add: tails_ok_def)
    ultimately show "wp (case r of RStat (Inl e) \<Rightarrow> do { onError (GoWrap ''error getting file stats: %v'' e); ret s }
       | RStat (Inr st) \<Rightarrow> do {
         (isParquet, err) \<leftarrow> detectParquetFile env p;
         (case err of Some e \<Rightarrow> onError (GoWrap ''parquet detect %s: %v'' e) | None \<Rightarrow> ret ());
         if isParquet then do {
           t' \<leftarrow> now env;
           call env (FDecode p (next_id s));
           ret (track p (st_inode st) True t' s)
         }
         else if inactivityThreshold c > 0 \<and> t - st_mtime st > inactivityThreshold c then do {
           onWarning ''[SKIP] File too old to open: %s'';
           ret s
         }
         else do {
           e \<leftarrow> tail_file env c (if fc_Backfill c \<or> \<not> isFirstRun then AtStart else AtEnd) p;
           case e of
             Some err \<Rightarrow> do { onError (GoWrap ''tail error: %v'' err); ret s }
           | None \<Rightarrow> do {
               t' \<leftarrow> now env;
               call env (FHandle p (next_id s));
               ret (track p (st_inode st) False t' s)
             }
         }
       }
     | _ \<Rightarrow> ret s) tails_ok w'"
      using w' by (simp only: file_answer.case sum.case split: file_answer.split sum.split) (simp add: wp_simps)
  qed (use assms(1) in auto)
qed

lemma open_matches_tails: "tails_ok s w \<Longrightarrow> wp (open_matches env c t isFirstRun ms s) tails_ok w"
proof (induction ms arbitrary: s w)
  case Nil
  then show ?case by (simp add: wp_ret)
next
  case (Cons p ms)
  have one: "wp (if map_of (tailFiles s) p = None then open_new env c t isFirstRun p s else ret s) tails_ok w1"
    if "tails_ok s w1" for w1
    using that open_new_tails by (simp add: wp_ret)
  show ?case
    unfolding open_matches.simps wp_bind [of "loadStop env"]
  proof (rule tails_ok_keeps [OF _ Cons.prems], goal_cases)
    case (2 cancelled w1)
    have "wp (do { s' \<leftarrow> (if map_of (tailFiles s) p = None then open_new env c t isFirstRun p s else ret s);
        open_matches env c t isFirstRun ms s' }) tails_ok w1"
      by (rule wp_bindI [OF one [OF 2]], rule Cons.IH)
    with 2 show ?case by (cases cancelled) (simp_all add: wp_ret)
  qed simp
qed

lemma poll_cycle_tails: "tails_ok s w \<Longrightarrow> wp (poll_cycle env c isFirstRun ms s) tails_ok w"
proof -
  assume s: "tails_ok s w"
  let ?w1 = "w\<lparr>hist := ENow (e_now env (hist w)) # hist w\<rparr>"
  have "wp (check_entries env c (e_now env (hist w)) (tailFiles s)) (\<lambda>files w'. tails_ok (s\<lparr>tailFiles := files\<rparr>) w') ?w1"
    by (rule wp_mono [OF check_entries_tails [where L = "{}"]]) (use s in \<open>simp_all add: tails_ok_def\<close>)
  then show ?thesis
    unfolding poll_cycle_def wp_bind wp_now by (rule wp_mono) (rule open_matches_tails)
qed

text \<open>Which kind the entry of a pointer is never changes.\<close>

definition set_entry :: "string \<Rightarrow> nat \<Rightarrow> (tail_info \<Rightarrow> tail_info) \<Rightarrow> tail_files \<Rightarrow> tail_files" where
  "set_entry p k f files = map (\<lambda>(q, i). (q, if q = p \<and> ti_id i = k then f i else i)) files"

lemma map_fst_set_entry [simp]: "map fst (set_entry p k f files) = map fst files"
  by (induction files) (auto simp: set_entry_def)

lemma following_set_entry:
  assumes "\<And>i. (p, i) \<in> set files \<Longrightarrow> ti_id i = k \<Longrightarrow> active (f i) = active i"
  shows "following (set_entry p k f files) = following files"
  using assms by (induction files) (auto simp: set_entry_def split: if_splits)

lemma following_drop:
  assumes "\<And>i. (p, i) \<in> set files \<Longrightarrow> \<not> active i"
  shows "following (filter (\<lambda>(q, _). q \<noteq> p) files) = following files"
  using assms by (induction files) (auto split: if_splits)

text \<open>
  The steps of the adapter: a cycle of the loop, some lines of the goroutine of a tail, and the end of the decoding of a
  Parquet file. The pointers in the calls that start a goroutine say for which entry it works.
\<close>

inductive file_step ::
    "file_env \<Rightarrow> file_config \<Rightarrow> gz_reader \<Rightarrow> (string \<Rightarrow> go_err + string) \<Rightarrow> poll_state \<times> (file_query, file_answer) world \<Rightarrow>
     poll_state \<times> (file_query, file_answer) world \<Rightarrow> bool"
  for env :: file_env and c :: file_config and gz :: gz_reader and to_json :: "string \<Rightarrow> go_err + string"
where
  step_cycle: "run_state (poll_cycle env c isFirstRun matches s) w = (s', w') \<Longrightarrow> file_step env c gz to_json (s, w) (s', w')"
| step_lines: "ECall (FHandle p k) r \<in> set (hist w) \<Longrightarrow>
    (\<And>i. (p, i) \<in> set (tailFiles s) \<Longrightarrow> ti_id i = k \<Longrightarrow> seen = lastData i) \<Longrightarrow>
    run_state (tail_lines env d p n seen) w = (seen', w') \<Longrightarrow>
    file_step env c gz to_json (s, w) (s\<lparr>tailFiles := set_entry p k (\<lambda>i. i\<lparr>lastData := seen'\<rparr>) (tailFiles s)\<rparr>, w')"
| step_json: "ECall (FHandle p k) r \<in> set (hist w) \<Longrightarrow>
    (\<And>i. (p, i) \<in> set (tailFiles s) \<Longrightarrow> ti_id i = k \<Longrightarrow> seen = lastData i) \<Longrightarrow>
    run_state (tail_json env d p n g seen) w = (seen', w') \<Longrightarrow>
    file_step env c gz to_json (s, w) (s\<lparr>tailFiles := set_entry p k (\<lambda>i. i\<lparr>lastData := seen'\<rparr>) (tailFiles s)\<rparr>, w')"
| step_decoded: "ECall (FDecode p k) r \<in> set (hist w) \<Longrightarrow>
    (\<And>i. (p, i) \<in> set (tailFiles s) \<Longrightarrow> ti_id i = k \<Longrightarrow> info = i) \<Longrightarrow>
    run_state (processParquetFile env gz to_json cap d p info) w = ((info', kept), w') \<Longrightarrow>
    files = set_entry p k (\<lambda>_. info') (tailFiles s) \<Longrightarrow>
    file_step env c gz to_json (s, w) (s\<lparr>tailFiles := (if kept then files else dropTailEntryIfMatch p k files)\<rparr>, w')"

definition file_init :: poll_state where
  "file_init = \<lparr>tailFiles = [], next_id = 0\<rparr>"

definition file_reachable ::
    "file_env \<Rightarrow> file_config \<Rightarrow> gz_reader \<Rightarrow> (string \<Rightarrow> go_err + string) \<Rightarrow> poll_state \<Rightarrow> (file_query, file_answer) world \<Rightarrow> bool" where
  "file_reachable env c gz to_json s w \<longleftrightarrow> (file_step env c gz to_json)\<^sup>*\<^sup>* (file_init, fresh_world) (s, w)"

section \<open>Pointers\<close>

text \<open>Only Parquet entries are ever handed to a decoding goroutine.\<close>

definition decodes :: "(file_query, file_answer) history \<Rightarrow> (string \<times> nat) set" where
  "decodes h = {(p, k). \<exists>r. ECall (FDecode p k) r \<in> set h}"

definition starts_ok :: "poll_state \<Rightarrow> (file_query, file_answer) world \<Rightarrow> bool" where
  "starts_ok s w \<longleftrightarrow> (\<forall>p i. (p, i) \<in> set (tailFiles s) \<longrightarrow> ti_id i < next_id s) \<and>
     (\<forall>p k. (p, k) \<in> decodes (hist w) \<longrightarrow> k < next_id s \<and>
        (\<forall>i. (p, i) \<in> set (tailFiles s) \<longrightarrow> ti_id i = k \<longrightarrow> processedAsParquet i))"

definition same_decodes :: "(file_query, file_answer) world \<Rightarrow> (file_query, file_answer) world \<Rightarrow> bool" where
  "same_decodes w w' \<longleftrightarrow> decodes (hist w') = decodes (hist w)"

interpretation same_decodes: frame same_decodes
  by unfold_locales (auto simp: same_decodes_def)

lemmas same_decodes_rules [simp, intro!] = same_decodes.rules

abbreviation no_decodes :: "'a file_io \<Rightarrow> bool" where
  "no_decodes \<equiv> along same_decodes"

lemma no_decodes_prims [simp, intro!]:
  "no_decodes (now env)" "no_decodes (onError e)" "no_decodes (onWarning s)" "no_decodes (waitFor env d)"
  "no_decodes (loadStop env)" "no_decodes (ship env m d)"
  by (auto intro!: alongI simp: same_decodes_def wp_simps loadStop_def decodes_def)

lemma no_decodes_call [simp]: "(\<And>p k. q \<noteq> FDecode p k) \<Longrightarrow> no_decodes (call env q)"
  by (rule alongI) (simp add: same_decodes_def wp_simps decodes_def, metis)

lemma no_decodes_pieces [simp, intro!]:
  "no_decodes (detectParquetFile env p)" "no_decodes (stop_tail env rep p)" "no_decodes (tail_file env c start p)"
  by (auto simp: detectParquetFile_def stop_tail_def tail_file_def split: file_answer.split read_at.split sum.split option.split)

lemma no_decodes_check_entry [simp, intro!]: "no_decodes (check_entry env c t p info)"
  unfolding check_entry_def check_parquet_def check_inactive_def check_active_def Let_def
  by (auto split: file_answer.split sum.split option.split)

lemma no_decodes_check_entries [simp, intro!]: "no_decodes (check_entries env c t files)"
  by (induction files) (auto split: option.split)

lemma no_decodes_handleLine [simp, intro!]: "no_decodes (handleLine env d l)"
  by (auto simp: handleLine_def ship_line_def split: option.split)

lemma no_decodes_handle_lines [simp, intro!]: "no_decodes (handle_lines (handleLine env d) ls)"
  by (induction ls) auto

lemma no_decodes_tail_lines [simp, intro!]: "no_decodes (tail_lines env d p n seen)"
  by (induction n arbitrary: seen) (auto split: file_answer.split sum.split option.split)

lemma no_decodes_tail_json [simp, intro!]: "no_decodes (tail_json env d p n g seen)"
  by (induction n arbitrary: g seen) (auto split: file_answer.split sum.split option.split prod.split)

lemma no_decodes_readParquetBytes [simp, intro!]: "no_decodes (readParquetBytes env gz p cap)"
  by (auto simp: readParquetBytes_def Let_def split: file_answer.split sum.split option.split)

lemma no_decodes_processParquetFile [simp, intro!]: "no_decodes (processParquetFile env gz to_json cap d p info)"
  unfolding processParquetFile_def Let_def by (auto split: sum.split)

lemma starts_ok_keeps:
  assumes "no_decodes m" "starts_ok s w" "\<And>x w'. starts_ok s w' \<Longrightarrow> Q x w'"
  shows "wp m Q w"
  by (rule along_wp [OF assms(1)]) (use assms(2,3) in \<open>simp add: starts_ok_def same_decodes_def\<close>)

lemma starts_ok_track:
  assumes "starts_ok s w" "map_of (tailFiles s) p = None"
    and "decodes (hist w') \<subseteq> decodes (hist w) \<union> (if pq then {(p, next_id s)} else {})"
  shows "starts_ok (track p ino pq t s) w'"
proof -
  let ?files = "put p (new_info (next_id s) t ino pq) (tailFiles s)"
  have mem: "(q, i) \<in> set ?files \<Longrightarrow> (q, i) = (p, new_info (next_id s) t ino pq) \<or> (q, i) \<in> set (tailFiles s)" for q i
    using set_put by fastforce
  have absent: "(p, i) \<notin> set (tailFiles s)" for i
    using assms(2) by (force simp: map_of_eq_None_iff)
  show ?thesis
    unfolding starts_ok_def track_def poll_state.simps
  proof (intro conjI allI impI)
    fix q i assume "(q, i) \<in> set ?files"
    from mem [OF this] show "ti_id i < Suc (next_id s)"
      using assms(1) by (auto simp: starts_ok_def new_info_def less_Suc_eq)
  next
    fix q k assume d: "(q, k) \<in> decodes (hist w')"
    show "k < Suc (next_id s)" using d assms(1,3) by (auto simp: starts_ok_def less_Suc_eq split: if_splits)
    fix i assume i: "(q, i) \<in> set ?files" "ti_id i = k"
    show "processedAsParquet i"
    proof (cases "(q, k) \<in> decodes (hist w)")
      case True
      then have "k < next_id s" using assms(1) by (auto simp: starts_ok_def)
      then have "(q, i) \<in> set (tailFiles s)" using mem [OF i(1)] i(2) by (auto simp: new_info_def)
      with True i(2) assms(1) show ?thesis by (auto simp: starts_ok_def)
    next
      case False
      then have "q = p" pq using d assms(3) by (auto split: if_splits)
      then show ?thesis using mem [OF i(1)] absent by (auto simp: new_info_def)
    qed
  qed
qed

lemma open_new_starts:
  assumes "starts_ok s w" "map_of (tailFiles s) p = None"
  shows "wp (open_new env c t isFirstRun p s) starts_ok w"
proof -
  have tracked: "wp (do { t' \<leftarrow> now env; call env q; ret (track p ino pq t' s) }) starts_ok w1"
    if "starts_ok s w1" "q = (if pq then FDecode p (next_id s) else FHandle p (next_id s))" for q w1 ino pq
    unfolding wp_bind wp_now wp_call wp_ret that(2)
    by (rule starts_ok_track [OF that(1) assms(2)]) (auto simp: decodes_def)
  have report: "wp (do { m; ret s }) starts_ok w1" if "starts_ok s w1" "no_decodes m" for w1 and m :: "unit file_io"
    unfolding wp_bind by (rule starts_ok_keeps [OF that(2,1)]) (simp add: wp_ret)
  have tail: "wp (do {
      e \<leftarrow> tail_file env c start p;
      case e of
        Some err \<Rightarrow> do { onError (GoWrap m err); ret s }
      | None \<Rightarrow> do { t' \<leftarrow> now env; call env (FHandle p (next_id s)); ret (track p ino False t' s) }
    }) starts_ok w1" if "starts_ok s w1" for w1 m start ino
    unfolding wp_bind [of "tail_file env c start p"]
  proof (rule starts_ok_keeps [OF _ that], goal_cases)
    case (2 e w2)
    from tracked [OF this, where pq = False] report [OF this] show ?case by (cases e) simp_all
  qed simp
  show ?thesis
    unfolding open_new_def wp_bind [of "call env (FStat p)"]
  proof (rule starts_ok_keeps [of _ s], goal_cases)
    case (3 r w1)
    show ?case
    proof (cases r)
      case (RStat y)
      show ?thesis
      proof (cases y)
        case (Inr st)
        show ?thesis
          unfolding RStat Inr file_answer.case sum.case wp_bind [of "detectParquetFile env p"]
        proof (rule starts_ok_keeps [OF _ 3], goal_cases)
          case (2 x w2)
          obtain isParquet err where x: "x = (isParquet, err)" by fastforce
          have rep: "no_decodes (case err of Some e \<Rightarrow> onError (GoWrap m e) | None \<Rightarrow> ret ())" for m
            by (simp split: option.split)
          show ?case
            unfolding x prod.case wp_bind [of "case err of Some e \<Rightarrow> onError (GoWrap _ e) | None \<Rightarrow> ret ()"]
          proof (rule starts_ok_keeps [OF rep 2], goal_cases)
            case (1 u w3)
            define old where "old \<longleftrightarrow> inactivityThreshold c > 0 \<and> t - st_mtime st > inactivityThreshold c"
            show ?case
              unfolding old_def [symmetric] using tracked [OF 1, where pq = True] report [OF 1] tail [OF 1]
              by (cases isParquet; cases old) (simp_all only: if_True if_False no_decodes_prims)
          qed
        qed simp
      qed (use RStat report [OF 3] in simp)
    qed (use 3 in \<open>simp_all add: wp_ret\<close>)
  qed (use assms(1) in simp_all)
qed

lemma open_matches_starts: "starts_ok s w \<Longrightarrow> wp (open_matches env c t isFirstRun ms s) starts_ok w"
proof (induction ms arbitrary: s w)
  case Nil
  then show ?case by (simp add: wp_ret)
next
  case (Cons p ms)
  have one: "wp (if map_of (tailFiles s) p = None then open_new env c t isFirstRun p s else ret s) starts_ok w1"
    if "starts_ok s w1" for w1
    using that open_new_starts by (simp add: wp_ret)
  show ?case
    unfolding open_matches.simps wp_bind [of "loadStop env"]
  proof (rule starts_ok_keeps [OF _ Cons.prems], goal_cases)
    case (2 cancelled w1)
    have "wp (do { s' \<leftarrow> (if map_of (tailFiles s) p = None then open_new env c t isFirstRun p s else ret s);
        open_matches env c t isFirstRun ms s' }) starts_ok w1"
      by (rule wp_bindI [OF one [OF 2]], rule Cons.IH)
    with 2 show ?case by (cases cancelled) (simp_all add: wp_ret)
  qed simp
qed

lemma starts_ok_same_entries:
  assumes "starts_ok s w" "same_entries (tailFiles s) files" "decodes (hist w') = decodes (hist w)"
  shows "starts_ok (s\<lparr>tailFiles := files\<rparr>) w'"
  using assms unfolding starts_ok_def same_entries_def by (simp, metis)

lemma poll_cycle_starts:
  assumes "starts_ok s w" "tails_ok s w"
  shows "wp (poll_cycle env c isFirstRun ms s) starts_ok w"
proof -
  let ?w1 = "w\<lparr>hist := ENow (e_now env (hist w)) # hist w\<rparr>"
  let ?m = "check_entries env c (e_now env (hist w)) (tailFiles s)"
  have "wp ?m (\<lambda>files w'. same_entries (tailFiles s) files) ?w1"
    by (rule wp_mono [OF check_entries_tails [where L = "{}"]]) (use assms(2) in \<open>simp_all add: tails_ok_def\<close>)
  moreover have "wp ?m (\<lambda>_ w'. decodes (hist w') = decodes (hist w)) ?w1"
    by (rule along_wp [OF no_decodes_check_entries]) (simp add: same_decodes_def decodes_def)
  ultimately show ?thesis
    unfolding poll_cycle_def wp_bind [of "now env"] wp_now
    by (rule wp_bindI [OF wp_conj]) (rule open_matches_starts, rule starts_ok_same_entries [OF assms(1)], simp_all)
qed

text \<open>The goroutines leave the kinds and the tails alone.\<close>

lemma keeps_tails_handleLine [simp, intro!]: "keeps_tails (handleLine env d l)"
  by (auto simp: handleLine_def ship_line_def split: option.split)

lemma keeps_tails_handle_lines [simp, intro!]: "keeps_tails (handle_lines (handleLine env d) ls)"
  by (induction ls) auto

lemma keeps_tails_lines [simp, intro!]: "keeps_tails (tail_lines env d p n seen)"
  by (induction n arbitrary: seen) (auto split: file_answer.split sum.split option.split)

lemma keeps_tails_json [simp, intro!]: "keeps_tails (tail_json env d p n g seen)"
  by (induction n arbitrary: g seen) (auto split: file_answer.split sum.split option.split prod.split)

lemma keeps_tails_read [simp, intro!]: "keeps_tails (readParquetBytes env gz p cap)"
  by (auto simp: readParquetBytes_def Let_def split: file_answer.split sum.split option.split)

lemma keeps_tails_process [simp, intro!]: "keeps_tails (processParquetFile env gz to_json cap d p info)"
  unfolding processParquetFile_def Let_def by (auto split: sum.split)

lemma process_same_entry:
  "wp (processParquetFile env gz to_json cap d p info)
     (\<lambda>(info', kept) w'. ti_id info' = ti_id info \<and> processedAsParquet info' = processedAsParquet info) w"
  unfolding processParquetFile_def wp_bind [of "readParquetBytes env gz p cap"]
proof (rule wp_any, goal_cases)
  case (1 r w1)
  show ?case
  proof (cases r)
    case (Inr y)
    obtain data sz m where y: "y = (data, sz, m)" by (cases y)
    have "wp (do { handle_lines (handleLine env d) ls; t \<leftarrow> now env;
        ret (info\<lparr>parquetSize := sz, parquetModTime := m, lastData := unix t, parquetDecoding := False\<rparr>, True) })
       (\<lambda>(info', kept) w'. ti_id info' = ti_id info \<and> processedAsParquet info' = processedAsParquet info) w1" for ls
      unfolding wp_bind [of "handle_lines _ _"] by (rule wp_any) (simp add: wp_simps)
    then show ?thesis using Inr y by (simp add: Let_def wp_simps split: sum.split)
  qed (simp add: wp_simps)
qed

lemma same_entries_set_entry:
  assumes "\<And>i. (p, i) \<in> set files \<Longrightarrow> ti_id i = k \<Longrightarrow> ti_id (f i) = k \<and> processedAsParquet (f i) = processedAsParquet i"
  shows "same_entries files (set_entry p k f files)"
  using assms by (auto simp: same_entries_def set_entry_def split: if_splits) blast+

lemma same_entries_drop: "same_entries files files' \<Longrightarrow> same_entries files (dropTailEntryIfMatch p k files')"
  by (auto simp: same_entries_def dropTailEntryIfMatch_def split: option.splits)

definition file_ok :: "poll_state \<Rightarrow> (file_query, file_answer) world \<Rightarrow> bool" where
  "file_ok s w \<longleftrightarrow> tails_ok s w \<and> starts_ok s w"

lemma file_ok_quiet:
  assumes "file_ok s w" "keeps_tails m" "no_decodes m" "run_state m w = (x, w')"
  shows "file_ok s w'"
proof -
  have "wp m (\<lambda>_ w'. tails_ok s w') w" "wp m (\<lambda>_ w'. starts_ok s w') w"
    using assms(1-3) by (auto simp: file_ok_def intro: tails_ok_keeps starts_ok_keeps)
  with assms(4) show ?thesis by (auto simp: file_ok_def dest: wpD)
qed

lemma file_ok_entries:
  assumes "file_ok s w" "same_entries (tailFiles s) files" "distinct (map fst files)" "following files = following (tailFiles s)"
  shows "file_ok (s\<lparr>tailFiles := files\<rparr>) w"
  using assms starts_ok_same_entries [OF _ assms(2) refl] by (simp add: file_ok_def tails_ok_def)

lemma file_ok_lastData:
  assumes "file_ok s w"
  shows "file_ok (s\<lparr>tailFiles := set_entry p k (\<lambda>i. i\<lparr>lastData := n\<rparr>) (tailFiles s)\<rparr>) w"
proof (rule file_ok_entries [OF assms])
  show "following (set_entry p k (\<lambda>i. i\<lparr>lastData := n\<rparr>) (tailFiles s)) = following (tailFiles s)"
    by (rule following_set_entry) (simp add: active_def)
qed (use assms in \<open>auto simp: file_ok_def tails_ok_def intro: same_entries_set_entry\<close>)

lemma file_ok_decoded:
  assumes ok: "file_ok s w" and dec: "(p, k) \<in> decodes (hist w)"
    and here: "\<And>i. (p, i) \<in> set (tailFiles s) \<Longrightarrow> ti_id i = k \<Longrightarrow> ti_id info = k \<and> processedAsParquet info = processedAsParquet i"
    and files: "files = set_entry p k (\<lambda>_. info) (tailFiles s)"
  shows "file_ok (s\<lparr>tailFiles := (if kept then files else dropTailEntryIfMatch p k files)\<rparr>) w"
proof -
  have dist: "distinct (map fst (tailFiles s))" using ok by (simp add: file_ok_def tails_ok_def)
  have pq: "(p, i) \<in> set (tailFiles s) \<Longrightarrow> ti_id i = k \<Longrightarrow> processedAsParquet i" for i
    using ok dec by (simp add: file_ok_def starts_ok_def)
  have same: "same_entries (tailFiles s) files" unfolding files by (rule same_entries_set_entry) (use here in auto)
  have fol: "following files = following (tailFiles s)"
    unfolding files by (rule following_set_entry) (use here pq in \<open>auto simp: active_def\<close>)
  have inact: "\<not> active i" if "(p, i) \<in> set files" "ti_id i = k" for i
    using that here pq by (auto simp: files set_entry_def active_def split: if_splits)
  have d: "distinct (map fst files)" using dist files by simp
  have fol': "following (dropTailEntryIfMatch p k files) = following files"
  proof (cases "\<exists>i. map_of files p = Some i \<and> ti_id i = k")
    case True
    then obtain i where i: "map_of files p = Some i" "ti_id i = k" by blast
    then have "(p, j) \<in> set files \<Longrightarrow> j = i" for j using d by simp
    moreover have "\<not> active i" using inact map_of_SomeD [OF i(1)] i(2) by blast
    ultimately have "following (filter (\<lambda>(q, _). q \<noteq> p) files) = following files" by (intro following_drop) blast
    then show ?thesis using i by (simp add: dropTailEntryIfMatch_def)
  qed (auto simp: dropTailEntryIfMatch_def split: option.split)
  have "distinct (map fst (filter P files))" for P using d by (rule distinct_map_filter)
  then have d': "distinct (map fst (dropTailEntryIfMatch p k files))"
    using d by (simp add: dropTailEntryIfMatch_def split: option.split)
  show ?thesis
    using file_ok_entries [OF ok same d] file_ok_entries [OF ok same_entries_drop [OF same] d'] fol fol' by simp
qed

lemma file_step_ok:
  assumes "file_step env c gz to_json (s, w) (s', w')" "file_ok s w"
  shows "file_ok s' w'"
  using assms
proof cases
  case (step_cycle isFirstRun matches)
  then show ?thesis
    using assms(2) wpD [OF poll_cycle_tails] wpD [OF poll_cycle_starts] unfolding file_ok_def by blast
next
  case (step_lines p k r d n seen seen')
  show ?thesis unfolding step_lines(1) by (rule file_ok_lastData, rule file_ok_quiet [OF assms(2) _ _ step_lines(4)]) simp_all
next
  case (step_json p k r d n g seen seen')
  show ?thesis unfolding step_json(1) by (rule file_ok_lastData, rule file_ok_quiet [OF assms(2) _ _ step_json(4)]) simp_all
next
  case (step_decoded p k r info cap d info' kept files)
  have w': "file_ok s w'" by (rule file_ok_quiet [OF assms(2) _ _ step_decoded(4)]) simp_all
  have dec: "(p, k) \<in> decodes (hist w')"
    using alongD [OF no_decodes_processParquetFile step_decoded(4)] step_decoded(2)
    by (auto simp: same_decodes_def decodes_def)
  have same: "ti_id info' = ti_id info" "processedAsParquet info' = processedAsParquet info"
    using wpD [OF process_same_entry step_decoded(4)] by auto
  show ?thesis
    unfolding step_decoded(1) by (rule file_ok_decoded [OF w' dec _ step_decoded(5)]) (use same step_decoded(3) in auto)
qed

lemma file_init_ok: "file_ok file_init fresh_world"
  by (simp add: file_ok_def tails_ok_def starts_ok_def file_init_def decodes_def)

lemma file_reachable_ok:
  assumes "file_reachable env c gz to_json s w"
  shows "file_ok s w"
  using assms unfolding file_reachable_def
proof (induction rule: rtranclp_induct2)
  case refl
  then show ?case by (rule file_init_ok)
qed (rule file_step_ok)

text \<open>C13: In every reachable state of the file adapter no path is in the table twice, no tail was ever opened for a path
  whose tail was still running, and the running tails are exactly those of the entries that are neither Parquet files nor
  inactive: nothing leaks and nothing is left without its tail, over cycles, lines, decodings and their failures.\<close>

theorem file_tails_tracked:
  assumes "file_reachable env c gz to_json s w"
  shows "distinct (map fst (tailFiles s)) \<and> single (hist w) \<and> live (hist w) = following (tailFiles s)"
  using file_reachable_ok [OF assms] by (simp add: file_ok_def tails_ok_def)

section \<open>Rotation\<close>

lemma calm_pieces [simp, intro!]:
  "along calm (detectParquetFile env p)" "along calm (stop_tail env rep p)"
  "along calm (tail_file env c start p)"
  by (auto simp: detectParquetFile_def stop_tail_def tail_file_def
    split: file_answer.split read_at.split sum.split option.split)

lemma calm_check_entry [simp, intro!]: "along calm (check_entry env c t p info)"
  unfolding check_entry_def check_parquet_def check_inactive_def check_active_def Let_def
  by (auto split: file_answer.split sum.split option.split)

lemma calm_check_entries [simp, intro!]: "along calm (check_entries env c t files)"
  by (induction files) (auto split: option.split)

lemma calm_open_new [simp, intro!]: "along calm (open_new env c t isFirstRun p s)"
  unfolding open_new_def by (auto split: file_answer.split sum.split option.split prod.split)

lemma calm_loadStop: "(\<And>h. \<not> e_stop env h 0) \<Longrightarrow> along calm (loadStop env)"
  by (auto intro!: alongI simp: loadStop_def wp_simps calm_def)

text \<open>Whatever happens to one path leaves the entries of the others.\<close>

definition others_kept :: "string \<Rightarrow> poll_state \<Rightarrow> poll_state \<Rightarrow> bool" where
  "others_kept p s s' \<longleftrightarrow> (\<forall>q. q \<noteq> p \<longrightarrow> map_of (tailFiles s') q = map_of (tailFiles s) q)"

lemma others_kept_simps [simp]: "others_kept p s s" "others_kept p s (track p ino pq t s)"
  by (simp_all add: others_kept_def track_def)

lemma open_new_others: "yields (others_kept p s) (open_new env c t isFirstRun p s)"
  unfolding open_new_def
  by (auto intro!: yields_bind split: file_answer.split sum.split prod.split option.split)

lemma open_step_keeps:
  assumes "map_of (tailFiles s) p = Some i"
  shows "yields (\<lambda>s'. map_of (tailFiles s') p = Some i)
    (if map_of (tailFiles s) q = None then open_new env c t isFirstRun q s else ret s)"
proof (cases "map_of (tailFiles s) q = None")
  case True
  then have "p \<noteq> q" using assms by auto
  with assms have "others_kept q s s' \<Longrightarrow> map_of (tailFiles s') p = Some i" for s' by (simp add: others_kept_def)
  then show ?thesis unfolding if_P [OF True] yields_def by (intro allI yields_wp [OF open_new_others])
next
  case False
  with assms show ?thesis unfolding if_not_P [OF False] by simp
qed

lemma open_matches_keeps:
  "map_of (tailFiles s) p = Some i \<Longrightarrow> yields (\<lambda>s'. map_of (tailFiles s') p = Some i) (open_matches env c t isFirstRun ms s)"
proof (induction ms arbitrary: s)
  case (Cons q ms)
  have "yields (\<lambda>s'. map_of (tailFiles s') p = Some i)
      (do { s' \<leftarrow> (if map_of (tailFiles s) q = None then open_new env c t isFirstRun q s else ret s);
        open_matches env c t isFirstRun ms s' })"
    by (rule yields_bind_after [OF open_step_keeps [OF Cons.prems]]) (rule Cons.IH)
  with Cons.prems show ?case
    unfolding open_matches.simps by (intro yields_bind) simp
qed simp

text \<open>
  A path whose file is there, is no Parquet file, is not too old, and can be tailed. \<open>detectParquetFile\<close> answers no for it,
  with or without an error.
\<close>

definition text_file :: "file_env \<Rightarrow> file_config \<Rightarrow> time \<Rightarrow> string \<Rightarrow> file_stat \<Rightarrow> bool" where
  "text_file env c t p st \<longleftrightarrow> (\<forall>h. e_call env h (FStat p) = RStat (Inr st)) \<and>
     (\<forall>h opts. e_call env h (FTail p opts) = RErr None) \<and>
     yields (\<lambda>(isParquet, err). \<not> isParquet) (detectParquetFile env p) \<and>
     (inactivityThreshold c > 0 \<longrightarrow> t - st_mtime st \<le> inactivityThreshold c)"

definition opts_of :: "file_config \<Rightarrow> tail_start \<Rightarrow> tail_opts" where
  "opts_of c start = \<lparr>to_follow = \<not> fc_NoFollow c, to_poll = fc_Poll c, to_start = start\<rparr>"

text \<open>The path is followed: an active entry with the inode, and a tail opened after \<open>h0\<close>, reading from \<open>start\<close>.\<close>

definition followed ::
    "file_config \<Rightarrow> string \<Rightarrow> 64 word \<Rightarrow> tail_start \<Rightarrow> (file_query, file_answer) history \<Rightarrow> poll_state \<Rightarrow>
     (file_query, file_answer) world \<Rightarrow> bool" where
  "followed c p ino start h0 s w \<longleftrightarrow>
     (\<exists>i. map_of (tailFiles s) p = Some i \<and> active i \<and> inode i = ino) \<and>
     (\<exists>h1 h2. hist w = h1 @ ECall (FTail p (opts_of c start)) (RErr None) # h2 @ h0)"

lemma followed_hist:
  assumes "followed c p ino start h0 s w" "map_of (tailFiles s') p = map_of (tailFiles s) p" "calm w w'"
  shows "followed c p ino start h0 s' w'"
proof -
  obtain h h1 h2 where "hist w' = h @ hist w" "hist w = h1 @ ECall (FTail p (opts_of c start)) (RErr None) # h2 @ h0"
    using assms(1,3) unfolding followed_def calm_def by blast
  then have "hist w' = (h @ h1) @ ECall (FTail p (opts_of c start)) (RErr None) # h2 @ h0" by simp
  then have "\<exists>h1 h2. hist w' = h1 @ ECall (FTail p (opts_of c start)) (RErr None) # h2 @ h0" by blast
  with assms(1,2) show ?thesis unfolding followed_def by simp
qed

lemma open_new_follows:
  assumes "text_file env c t p st"
  shows "wp (open_new env c t isFirstRun p s)
    (followed c p (st_inode st) (if fc_Backfill c \<or> \<not> isFirstRun then AtStart else AtEnd) (hist w)) w"
proof -
  let ?start = "if fc_Backfill c \<or> \<not> isFirstRun then AtStart else AtEnd"
  have st: "e_call env h (FStat p) = RStat (Inr st)" and tl: "e_call env h (FTail p opts) = RErr None" for h opts
    using assms by (auto simp: text_file_def)
  have young: "\<not> (inactivityThreshold c > 0 \<and> t - st_mtime st > inactivityThreshold c)"
    using assms by (auto simp: text_file_def)
  have no: "yields (\<lambda>(isParquet, err). \<not> isParquet) (detectParquetFile env p)" using assms by (simp add: text_file_def)
  have tail: "wp (do {
      e \<leftarrow> tail_file env c ?start p;
      case e of
        Some err \<Rightarrow> do { onError (GoWrap m err); ret s }
      | None \<Rightarrow> do { t' \<leftarrow> now env; call env (FHandle p (next_id s)); ret (track p (st_inode st) False t' s) }
    }) (followed c p (st_inode st) ?start (hist w)) w1" if cw: "calm w w1" for w1 m
  proof -
    obtain h where h: "hist w1 = h @ hist w" using cw by (auto simp: calm_def)
    have "followed c p (st_inode st) ?start (hist w) (track p (st_inode st) False t' s)
        (w1\<lparr>hist := e2 # e1 # ECall (FTail p (opts_of c ?start)) (RErr None) # hist w1\<rparr>)" for t' e1 e2
    proof -
      have "\<exists>h1 h2. e2 # e1 # ECall (FTail p (opts_of c ?start)) (RErr None) # h @ hist w =
          h1 @ ECall (FTail p (opts_of c ?start)) (RErr None) # h2 @ hist w"
        by (rule exI [of _ "[e2, e1]"], rule exI [of _ h]) simp
      then show ?thesis by (simp add: followed_def h track_def new_info_def active_def)
    qed
    then show ?thesis using tl by (simp add: tail_file_def wp_simps opts_of_def)
  qed
  show ?thesis
    unfolding open_new_def wp_bind [of "call env (FStat p)"] wp_call st file_answer.case sum.case
      wp_bind [of "detectParquetFile env p"]
  proof (rule along_wp_and [OF calm_pieces(1) no [unfolded yields_def, rule_format]], goal_cases)
    case (1 x w1)
    obtain err where x: "x = (False, err)" using 1(2) by auto
    have c1: "calm w w1" using 1(1) by (auto simp: calm_def)
    show ?case
      unfolding x prod.case if_False wp_bind [of "case err of Some e \<Rightarrow> onError (GoWrap _ e) | None \<Rightarrow> ret ()"] if_not_P [OF young]
      using tail c1 by (auto simp: wp_simps calm_def split: option.split intro!: tail [unfolded wp_simps calm_def])
  qed
qed

definition uncancelled :: "file_env \<Rightarrow> (file_query, file_answer) world \<Rightarrow> bool" where
  "uncancelled env w \<longleftrightarrow> \<not> stop w \<and> (\<forall>h. \<not> e_stop env h 0)"

lemma uncancelled_calm: "uncancelled env w \<Longrightarrow> calm w w' \<Longrightarrow> uncancelled env w'"
  by (simp add: uncancelled_def calm_def)

lemma wp_loadStop_uncancelled:
  "uncancelled env w \<Longrightarrow> (\<And>w'. calm w w' \<Longrightarrow> Q False w') \<Longrightarrow> wp (loadStop env) Q w"
  by (simp add: loadStop_def wp_simps uncancelled_def calm_def)

lemma calm_open_matches:
  assumes "\<And>h. \<not> e_stop env h 0"
  shows "along calm (open_matches env c t isFirstRun ms s)"
  using assms by (induction ms arbitrary: s) (auto intro!: calm.bind calm_loadStop)

lemma open_matches_follows:
  assumes "text_file env c t p st" "p \<in> set ms" "map_of (tailFiles s) p = None" "uncancelled env w"
  shows "wp (open_matches env c t False ms s) (\<lambda>s' w'. \<exists>h. followed c p (st_inode st) AtStart (h @ hist w) s' w') w"
  using assms(2-4)
proof (induction ms arbitrary: s w)
  case (Cons q ms)
  have cm: "along calm (open_matches env c t False ms s')" for s'
    using Cons.prems(3) by (intro calm_open_matches) (simp add: uncancelled_def)
  show ?case
    unfolding open_matches.simps wp_bind [of "loadStop env"]
  proof (rule wp_loadStop_uncancelled [OF Cons.prems(3)], unfold if_False)
    fix w1 assume w1: "calm w w1"
    show "wp (do { s' \<leftarrow> (if map_of (tailFiles s) q = None then open_new env c t False q s else ret s);
        open_matches env c t False ms s' }) (\<lambda>s' w'. \<exists>h. followed c p (st_inode st) AtStart (h @ hist w) s' w') w1"
    proof (cases "q = p")
      case True
      obtain h where h: "hist w1 = h @ hist w" using w1 by (auto simp: calm_def)
      have "wp (open_matches env c t False ms s') (followed c p (st_inode st) AtStart (hist w1)) w2"
        if f: "followed c p (st_inode st) AtStart (hist w1) s' w2" for s' w2
      proof -
        obtain i where i: "map_of (tailFiles s') p = Some i" using f by (auto simp: followed_def)
        show ?thesis
          by (rule along_wp_and [OF cm open_matches_keeps [OF i, unfolded yields_def, rule_format]])
            (auto intro: followed_hist [OF f] simp: i)
      qed
      with True Cons.prems(2) open_new_follows [OF assms(1), of False s w1]
      have "wp (do { s' \<leftarrow> (if map_of (tailFiles s) q = None then open_new env c t False q s else ret s);
          open_matches env c t False ms s' }) (followed c p (st_inode st) AtStart (hist w1)) w1"
        by (intro wp_bindI [where P = "followed c p (st_inode st) AtStart (hist w1)"]) simp_all
      then show ?thesis by (rule wp_mono) (auto simp: h)
    next
      case False
      have step: "wp (if map_of (tailFiles s) q = None then open_new env c t False q s else ret s)
          (\<lambda>s' w2. others_kept q s s' \<and> calm w1 w2) w1"
        by (cases "map_of (tailFiles s) q = None")
          (simp_all add: wp_ret calm.refl along_wp_and [OF calm_open_new open_new_others [unfolded yields_def, rule_format]])
      show ?thesis
      proof (rule wp_bindI [OF step])
        fix s' w2 assume s': "others_kept q s s' \<and> calm w1 w2"
        then obtain h where h: "hist w2 = h @ hist w" using w1 by (auto simp: calm_def)
        have "wp (open_matches env c t False ms s') (\<lambda>s' w'. \<exists>h. followed c p (st_inode st) AtStart (h @ hist w2) s' w') w2"
          by (rule Cons.IH) (use Cons.prems False s' w1 in \<open>auto simp: others_kept_def intro: uncancelled_calm\<close>)
        then show "wp (open_matches env c t False ms s') (\<lambda>s' w'. \<exists>h. followed c p (st_inode st) AtStart (h @ hist w) s' w') w2"
          by (rule wp_mono) (metis append_assoc h)
      qed
    qed
  qed
qed simp

text \<open>The look at a rotated file stops its tail and drops the entry.\<close>

definition stopped_since :: "string \<Rightarrow> (file_query, file_answer) world \<Rightarrow> (file_query, file_answer) world \<Rightarrow> bool" where
  "stopped_since p w w' \<longleftrightarrow> (\<exists>h r. hist w' = h @ hist w \<and> ECall (FStop p) r \<in> set h)"

lemma stopped_since_calm: "stopped_since p w1 w2 \<Longrightarrow> calm w w1 \<Longrightarrow> stopped_since p w w2"
  "stopped_since p w w1 \<Longrightarrow> calm w1 w2 \<Longrightarrow> stopped_since p w w2"
  by (force simp: stopped_since_def calm_def)+

lemma stop_tail_stops: "wp (stop_tail env rep p) (\<lambda>_. stopped_since p w) w"
  by (auto simp: stop_tail_def wp_simps stopped_since_def split: file_answer.split option.split)

lemma check_entries_keys: "yields (\<lambda>files'. fst ` set files' \<subseteq> fst ` set files) (check_entries env c t files)"
proof (induction files)
  case (Cons e files)
  obtain p info where e: "e = (p, info)" by fastforce
  show ?case unfolding e check_entries.simps
    by (rule yields_bind, rule yields_bind_after [OF Cons.IH]) (auto split: option.split)
qed simp

lemma check_entry_rotated:
  assumes "e_call env (hist w) (FStat p) = RStat (Inr st)" "\<not> processedAsParquet info" "rotated info st"
  shows "wp (check_entry env c t p info) (\<lambda>r w'. r = None \<and> stopped_since p w w') w"
proof -
  have stop: "wp (do { onError e; stop_tail env rep p; call env (FCleanup p); ret None }) (\<lambda>r w'. r = None \<and> stopped_since p w w') w1"
    if w1: "calm w w1" for w1 e rep
    unfolding wp_bind wp_unit_ops
  proof (rule wp_mono [OF stop_tail_stops])
    fix u w' assume "stopped_since p (w1\<lparr>hist := EOnError e # hist w1\<rparr>) w'"
    moreover have "calm w (w1\<lparr>hist := EOnError e # hist w1\<rparr>)" using w1 by (auto simp: calm_def)
    ultimately have w': "stopped_since p w w'" by (rule stopped_since_calm(1))
    have "stopped_since p w (w'\<lparr>hist := x # hist w'\<rparr>)" for x
      by (rule stopped_since_calm(2) [OF w']) (simp add: calm_def)
    then show "wp (call env (FCleanup p)) (\<lambda>x. wp (ret None) (\<lambda>r w'. r = None \<and> stopped_since p w w')) w'"
      by (simp add: wp_simps)
  qed
  show ?thesis
    unfolding check_entry_def wp_bind [of "call env (FStat p)"] wp_call assms(1) file_answer.case sum.case
      if_not_P [OF assms(2)] if_P [OF assms(3)]
    by (rule stop) (simp add: calm_def)
qed

lemma check_entries_rotated:
  assumes "e_call env = (\<lambda>h q. if q = FStat p then RStat (Inr st) else e_call env h q)"
    and "\<not> processedAsParquet info" "rotated info st"
  shows "map_of files p = Some info \<Longrightarrow> distinct (map fst files) \<Longrightarrow>
    wp (check_entries env c t files) (\<lambda>files' w'. map_of files' p = None \<and> stopped_since p w w') w"
proof (induction files arbitrary: w)
  case (Cons e files)
  obtain q i where e: "e = (q, i)" by fastforce
  show ?case
  proof (cases "q = p")
    case True
    then have info: "i = info" "p \<notin> fst ` set files" using Cons.prems e by auto
    have st: "e_call env (hist w) (FStat p) = RStat (Inr st)" using assms(1) by (metis (full_types))
    have rest: "wp (do { rest \<leftarrow> check_entries env c t files; ret (case r of None \<Rightarrow> rest | Some info' \<Rightarrow> (q, info') # rest) })
        (\<lambda>files' w'. map_of files' p = None \<and> stopped_since p w w') w1" if "r = None \<and> stopped_since p w w1" for r w1
      unfolding wp_bind
    proof (rule along_wp_and [OF calm_check_entries check_entries_keys [unfolded yields_def, rule_format]], goal_cases)
      case (1 files' w2)
      then have "p \<notin> fst ` set files'" using info(2) by blast
      moreover have "stopped_since p w w2" using that 1(1) by (blast intro: stopped_since_calm(2))
      ultimately show ?case using that by (simp add: wp_ret map_of_eq_None_iff)
    qed
    show ?thesis
      unfolding e check_entries.simps True info(1) by (rule wp_bindI [OF check_entry_rotated [OF st assms(2,3)]]) (use rest True in simp)
  next
    case False
    show ?thesis
      unfolding e check_entries.simps wp_bind [of "check_entry _ _ _ _ _"]
    proof (rule along_wp [OF calm_check_entry])
      fix r w1 assume w1: "calm w w1"
      show "wp (do { rest \<leftarrow> check_entries env c t files; ret (case r of None \<Rightarrow> rest | Some info' \<Rightarrow> (q, info') # rest) })
          (\<lambda>files' w'. map_of files' p = None \<and> stopped_since p w w') w1"
        by (rule wp_bindI [OF Cons.IH])
          (use Cons.prems e False w1 in \<open>auto simp: wp_ret stopped_since_calm(1) split: option.split\<close>)
    qed
  qed
qed simp

text \<open>C14: A text file that was rotated (its inode is another one) is followed again within one cycle of the loop: the old
  tail is stopped, a new one is opened that reads the new file from its start, and its entry is active and carries the new
  inode. What the look does with the other files and what the other matches are does not matter.\<close>

theorem rotation_followed:
  assumes "text_file env c (e_now env (hist w)) p st" "map_of (tailFiles s) p = Some info"
    and "\<not> processedAsParquet info" "rotated info st" "distinct (map fst (tailFiles s))"
    and "p \<in> set ms" "uncancelled env w"
  shows "wp (poll_cycle env c False ms s)
    (\<lambda>s' w'. \<exists>w1. stopped_since p w w1 \<and> followed c p (st_inode st) AtStart (hist w1) s' w') w"
proof -
  let ?w0 = "w\<lparr>hist := ENow (e_now env (hist w)) # hist w\<rparr>"
  let ?t = "e_now env (hist w)"
  have st: "e_call env = (\<lambda>h q. if q = FStat p then RStat (Inr st) else e_call env h q)"
    using assms(1) by (auto simp: text_file_def fun_eq_iff)
  have w0: "calm w ?w0" by (simp add: calm_def)
  show ?thesis
    unfolding poll_cycle_def wp_bind [of "now env"] wp_now wp_bind [of "check_entries _ _ _ _"]
  proof (rule along_wp_and [OF calm_check_entries check_entries_rotated [OF st assms(3,4,2,5)]], goal_cases)
    case (1 files w1)
    have un: "uncancelled env w1" using uncancelled_calm [OF assms(7)] calm.trans [OF w0 1(1)] by blast
    have stopped: "stopped_since p w w1" using 1(2) w0 by (blast intro: stopped_since_calm(1))
    have "wp (open_matches env c ?t False (sort ms) (s\<lparr>tailFiles := files\<rparr>))
        (\<lambda>s' w'. \<exists>h. followed c p (st_inode st) AtStart (h @ hist w1) s' w') w1"
      by (rule open_matches_follows [OF assms(1) _ _ un]) (use assms(6) 1(2) in simp_all)
    then show ?case
    proof (rule wp_mono)
      fix s' w' assume "\<exists>h. followed c p (st_inode st) AtStart (h @ hist w1) s' w'"
      then obtain h where h: "followed c p (st_inode st) AtStart (h @ hist w1) s' w'" by blast
      have "stopped_since p w (w1\<lparr>hist := h @ hist w1\<rparr>)" by (rule stopped_since_calm(2) [OF stopped]) (simp add: calm_def)
      with h show "\<exists>w1. stopped_since p w w1 \<and> followed c p (st_inode st) AtStart (hist w1) s' w'" by force
    qed
  qed
qed

section \<open>Lines\<close>

text \<open>The texts the tail handed out, in order; a line with an error has no text.\<close>

definition text_of :: "go_err + string \<Rightarrow> string" where
  "text_of l = (case l of Inr line \<Rightarrow> line | Inl _ \<Rightarrow> '''')"

fun line_read :: "(file_query, file_answer) eff \<Rightarrow> string list" where
  "line_read (ECall (FLine p) (RLine (Some l))) = [text_of l]"
| "line_read _ = []"

definition lines_read :: "(file_query, file_answer) history \<Rightarrow> string list" where
  "lines_read h = concat (map line_read (rev h))"

lemma lines_read_Cons [simp]: "lines_read (e # h) = lines_read h @ line_read e"
  by (simp add: lines_read_def)

lemma line_read_other [simp]: "(\<And>l. r \<noteq> RLine (Some l)) \<Longrightarrow> line_read (ECall q r) = []"
  by (cases q; cases r) (auto split: option.split, metis line_read.simps option.exhaust)

definition accepting :: "('q, 'r) env \<Rightarrow> bool" where
  "accepting env \<longleftrightarrow> (\<forall>h m d. e_ship env h m d = None)"

text \<open>\<open>w'\<close> has these lines read and these texts delivered since \<open>w\<close>.\<close>

definition moved ::
    "string list \<Rightarrow> string list \<Rightarrow> (file_query, file_answer) world \<Rightarrow> (file_query, file_answer) world \<Rightarrow> bool" where
  "moved ls out w w' \<longleftrightarrow> lines_read (hist w') = lines_read (hist w) @ ls \<and>
     delivered (hist w') = delivered (hist w) @ map TextPayload out"

lemma moved_refl [simp]: "moved [] [] w w"
  by (simp add: moved_def)

lemma moved_trans: "moved ls out w w1 \<Longrightarrow> moved ls' out' w1 w2 \<Longrightarrow> moved (ls @ ls') (out @ out') w w2"
  by (simp add: moved_def)

lemma handleLine_moved:
  assumes "accepting env"
  shows "wp (handleLine env d l) (\<lambda>_. moved [] (non_empty [l]) w) w"
  using assms by (auto simp: handleLine_def ship_line_def wp_simps accepting_def moved_def text_message_def)

lemma wp_line:
  assumes "\<And>l w1. r = RLine (Some l) \<Longrightarrow> moved [text_of l] [] w w1 \<Longrightarrow> wp (f l) Q w1"
    and "\<And>w1. moved [] [] w w1 \<Longrightarrow> wp g Q w1"
  shows "wp (case r of RLine (Some l) \<Rightarrow> f l | _ \<Rightarrow> g) Q (w\<lparr>hist := ECall (FLine p) r # hist w\<rparr>)"
proof (cases "\<exists>l. r = RLine (Some l)")
  case True
  then show ?thesis using assms(1) by (auto simp: moved_def)
next
  case False
  then have "moved [] [] w (w\<lparr>hist := ECall (FLine p) r # hist w\<rparr>)" by (simp add: moved_def)
  then have "wp g Q (w\<lparr>hist := ECall (FLine p) r # hist w\<rparr>)" by (rule assms(2))
  with False show ?thesis by (auto split: file_answer.split option.split)
qed

lemma tail_json_moved:
  assumes "accepting env"
  shows "wp (tail_json env d p n g seen) (\<lambda>_ w'. \<exists>ls. moved ls (non_empty (fst (group_lines ls g))) w w') w"
proof (induction n arbitrary: g seen w)
  case 0
  show ?case by (simp add: wp_ret) (metis fst_conv group_lines.simps(1) filter.simps(1) moved_refl)
next
  case (Suc n)
  let ?Q = "\<lambda>_ w'. \<exists>ls. moved ls (non_empty (fst (group_lines ls g))) w w'"
  have stop: "wp (ret seen) ?Q w1" if "moved [] [] w w1" for w1
    using that by (simp add: wp_ret) (metis fst_conv group_lines.simps(1) filter.simps(1))
  have line: "wp (case group_line (case l of Inr line \<Rightarrow> line | Inl _ \<Rightarrow> '''') g of
       (None, g') \<Rightarrow> tail_json env d p n g' seen
     | (Some rawJSON, g') \<Rightarrow> do { t \<leftarrow> now env; handleLine env d rawJSON; tail_json env d p n g' (unix t) }) ?Q w1"
    if w1: "moved [text_of l] [] w w1" for l w1
  proof -
    obtain o1 g' where g: "group_line (text_of l) g = (o1, g')" by (cases "group_line (text_of l) g")
    have tail: "wp (tail_json env d p n g' s') ?Q w2"
      if w2: "moved [text_of l] out w w2" and out: "out = (case o1 of None \<Rightarrow> [] | Some obj \<Rightarrow> non_empty [obj])" for w2 out s'
    proof (rule wp_mono [OF Suc.IH])
      fix x w3 assume "\<exists>ls. moved ls (non_empty (fst (group_lines ls g'))) w2 w3"
      then obtain ls where "moved ls (non_empty (fst (group_lines ls g'))) w2 w3" by blast
      from moved_trans [OF w2 this] g out
      have "moved (text_of l # ls) (non_empty (fst (group_lines (text_of l # ls) g))) w w3"
        by (auto split: option.splits prod.splits)
      then show "\<exists>ls. moved ls (non_empty (fst (group_lines ls g))) w w3" by blast
    qed
    show ?thesis
    proof (cases o1)
      case None
      with g tail [OF w1] show ?thesis by (simp add: text_of_def)
    next
      case (Some obj)
      have clock: "moved [text_of l] [] w (w1\<lparr>hist := ENow t # hist w1\<rparr>)" for t using w1 by (simp add: moved_def)
      have rest: "wp (tail_json env d p n g' (unix t)) ?Q w2"
        if "moved [] (non_empty [obj]) (w1\<lparr>hist := ENow t # hist w1\<rparr>) w2" for t w2
      proof (rule tail)
        show "moved [text_of l] (non_empty [obj]) w w2" using moved_trans [OF clock that] by (simp only: append_Nil append_Nil2)
      qed (simp add: Some)
      have "wp (do { t \<leftarrow> now env; handleLine env d obj; tail_json env d p n g' (unix t) }) ?Q w1"
        unfolding wp_bind wp_now by (rule wp_mono [OF handleLine_moved [OF assms]], rule rest)
      with g Some show ?thesis by (simp add: text_of_def)
    qed
  qed
  show ?case
    unfolding tail_json.simps wp_bind [of "call env (FLine p)"] wp_call
    by (rule wp_line) (rule line, assumption, rule stop, assumption)
qed

section \<open>Objects over several lines\<close>


text \<open>
  The count of braces does not know strings: after an object with an opening brace too many in its strings nothing is delivered
  any more, neither this object nor the ones after it, as long as no closing brace too many comes in a string.
\<close>

theorem brace_in_string_stalls:
  assumes "accepting env" "run_state (tail_json env d p n ([], 0) seen) w = (seen', w')"
    and "lines_read (hist w') = lines_read (hist w) @ ls @ concat os"
    and "json_object ls" "opening_strings ls" "0 < braces (quoted (lines_text ls) Before)"
    and "\<forall>ls \<in> set os. json_object ls \<and> opening_strings ls"
  shows "delivered (hist w') = delivered (hist w)"
proof -
  obtain ks where "moved ks (non_empty (fst (group_lines ks ([], 0)))) w w'"
    using wpD [OF tail_json_moved [OF assms(1)] assms(2)] by blast
  moreover from this have "ks = ls @ concat os" using assms(3) by (simp add: moved_def)
  ultimately show ?thesis using group_opening [OF assms(4-7)] by (simp add: moved_def)
qed

section \<open>Telling Parquet files\<close>

text \<open>A file whose contents stay \<open>data\<close> while it is examined.\<close>

definition serves :: "file_env \<Rightarrow> string \<Rightarrow> string \<Rightarrow> bool" where
  "serves env p data \<longleftrightarrow> (\<forall>h. e_call env h (FOpen p) = RSize (Inr (int (length data)))) \<and>
     (\<forall>h off. e_call env h (FReadAt p off) =
        RBytes (if nat off + 4 \<le> length data then AtBytes (take 4 (drop (nat off) data)) else AtEOF))"

text \<open>C36: The examination of a file on disk, which reads eight bytes of it, decides as the examination of a whole object in
  memory that the storage adapters use, \<open>IsParquetFile\<close>, and takes \<open>.parquet.gz\<close> names for Parquet as well.\<close>

theorem detect_agrees:
  assumes "serves env p data"
  shows "wp (detectParquetFile env p) (\<lambda>r _. r = (IsParquetFile p data \<or> gz_parquet p, None)) w"
proof -
  have op: "e_call env h (FOpen p) = RSize (Inr (int (length data)))" for h using assms by (simp add: serves_def)
  have rd: "e_call env h (FReadAt p off) =
      RBytes (if nat off + 4 \<le> length data then AtBytes (take 4 (drop (nat off) data)) else AtEOF)" for h off
    using assms by (simp add: serves_def)
  have n: "nat (int (length data) - 4) = length data - 4" by simp
  show ?thesis
    by (cases "length data < 8") (auto simp: detectParquetFile_def IsParquetFile_def wp_simps op rd n)
qed

text \<open>A file that has become shorter than its header when the examination reads it is not left for the next cycle, as
  the comment on the function says: it is followed as text at once, and with its entry in the table no later cycle examines
  it again.\<close>

theorem shrunk_file_followed:
  assumes "\<And>h. e_call env h (FStat p) = RStat (Inr st)" "\<And>h opts. e_call env h (FTail p opts) = RErr None"
    and "\<And>h. e_call env h (FOpen p) = RSize (Inr sz)" "\<And>h. e_call env h (FReadAt p 0) = RBytes AtEOF"
    and "\<not> has_suffix (to_lower p) ''.parquet''" "\<not> gz_parquet p" "inactivityThreshold c \<le> 0"
  shows "wp (open_new env c t False p s) (followed c p (st_inode st) AtStart (hist w)) w"
proof -
  have "yields (\<lambda>(isParquet, err). \<not> isParquet) (detectParquetFile env p)"
    using assms(3-6) by (simp add: yields_def detectParquetFile_def wp_simps)
  then have "text_file env c t p st" using assms(1,2,7) by (simp add: text_file_def)
  from open_new_follows [OF this, of False s w] show ?thesis by simp
qed

section \<open>Concrete runs\<close>

text \<open>A log file of inode 7, which is no Parquet file, and the tail of it that hands out nothing.\<close>

definition demo_stat :: file_stat where
  "demo_stat = \<lparr>st_size = 3, st_mtime = 0, st_inode = 7\<rparr>"

definition demo_answer :: "file_query \<Rightarrow> file_answer" where
  "demo_answer q = (case q of FStat _ \<Rightarrow> RStat (Inr demo_stat) | FTail _ _ \<Rightarrow> RErr None | FOpen _ \<Rightarrow> RSize (Inr 3) | _ \<Rightarrow> RErr None)"

definition demo_config :: file_config where
  "demo_config = \<lparr>fc_WriteTimeoutSec = 0, fc_FilePath = ''*.log'', fc_NoFollow = False, fc_InactivityThreshold = 0,
     fc_ReactivationThreshold = 0, fc_Backfill = False, fc_SerializeFiles = False, fc_Poll = False, fc_MultiLineJSON = False\<rparr>"

definition demo_poll :: "poll_state \<times> (file_query, file_answer) world" where
  "demo_poll = run_state (poll_cycle (steady_env 0 demo_answer) demo_config True [''a.log''] file_init) fresh_world"

lemma demo_not_parquet [simp]: "has_suffix (to_lower ''a.log'') ''.parquet'' = False" "gz_parquet ''a.log'' = False"
  by code_simp+

lemma demo_poll_files: "following (tailFiles (fst demo_poll)) = {''a.log''}"
  by (simp add: demo_poll_def poll_cycle_def run_simps file_init_def open_new_def demo_answer_def demo_stat_def
    detectParquetFile_def tail_file_def track_def new_info_def active_def loadStop_def inactivityThreshold_def seconds_def
    demo_config_def run_waitFor)

lemma file_tails_tracked_witness:
  "live (hist (snd demo_poll)) = {''a.log''} \<and> single (hist (snd demo_poll))"
proof -
  have "file_reachable (steady_env 0 demo_answer) demo_config gz to_json (fst demo_poll) (snd demo_poll)" for gz to_json
    unfolding file_reachable_def demo_poll_def by (rule r_into_rtranclp, rule step_cycle) (simp add: prod.collapse)
  from file_tails_tracked [OF this] show ?thesis by (simp add: demo_poll_files)
qed

lemma rotation_followed_witness:
  "\<exists>s' w' w1. stopped_since ''a.log'' fresh_world w1 \<and> followed demo_config ''a.log'' 7 AtStart (hist w1) s' w'"
proof -
  let ?env = "steady_env 0 demo_answer"
  let ?info = "new_info 0 0 5 False"
  let ?s = "\<lparr>tailFiles = [(''a.log'', ?info)], next_id = 1\<rparr>"
  have plain: "text_file ?env demo_config (e_now ?env (hist fresh_world)) ''a.log'' demo_stat"
    by (simp add: text_file_def demo_answer_def yields_def detectParquetFile_def wp_simps inactivityThreshold_def seconds_def demo_config_def)
  have "wp (poll_cycle ?env demo_config False [''a.log''] ?s)
    (\<lambda>s' w'. \<exists>w1. stopped_since ''a.log'' fresh_world w1 \<and> followed demo_config ''a.log'' (st_inode demo_stat) AtStart (hist w1) s' w') fresh_world"
    by (rule rotation_followed [OF plain, of ?s ?info])
      (simp_all add: new_info_def rotated_def demo_stat_def uncancelled_def)
  then show ?thesis by (auto simp: wp_def demo_stat_def split: prod.splits)
qed

definition parquet_answer :: "file_query \<Rightarrow> file_answer" where
  "parquet_answer q = (case q of
     FReadAt _ off \<Rightarrow> RBytes (if nat off + 4 \<le> 8 then AtBytes (take 4 (drop (nat off) ''PAR1PAR1'')) else AtEOF)
   | _ \<Rightarrow> RSize (Inr 8))"

lemma detect_agrees_witness:
  "serves (steady_env 0 parquet_answer) ''x'' ''PAR1PAR1'' \<and>
   wp (detectParquetFile (steady_env 0 parquet_answer) ''x'') (\<lambda>r _. r = (True, None)) fresh_world"
proof -
  have served: "serves (steady_env 0 parquet_answer) ''x'' ''PAR1PAR1''" by (simp add: serves_def parquet_answer_def)
  have "IsParquetFile ''x'' ''PAR1PAR1''" by (simp add: IsParquetFile_def ParquetMagic_def)
  with detect_agrees [OF served, of fresh_world] served show ?thesis by simp
qed

text \<open>A file that has shrunk.\<close>

definition shrunk_answer :: "file_query \<Rightarrow> file_answer" where
  "shrunk_answer q = (case q of FStat _ \<Rightarrow> RStat (Inr demo_stat) | FTail _ _ \<Rightarrow> RErr None | FOpen _ \<Rightarrow> RSize (Inr 100)
     | FReadAt _ _ \<Rightarrow> RBytes AtEOF | _ \<Rightarrow> RErr None)"

lemma shrunk_file_followed_witness:
  "wp (open_new (steady_env 0 shrunk_answer) demo_config 0 False ''a.log'' file_init)
     (followed demo_config ''a.log'' 7 AtStart []) fresh_world"
  using shrunk_file_followed [of "steady_env 0 shrunk_answer" "''a.log''" demo_stat 100 demo_config 0 file_init fresh_world]
  by (simp add: shrunk_answer_def demo_stat_def inactivityThreshold_def seconds_def demo_config_def)

text \<open>The lines of a file, handed out one by one.\<close>

definition reads_lines :: "string list \<Rightarrow> file_env" where
  "reads_lines ls = (steady_env 0 (\<lambda>_. RLine None))\<lparr>e_call := \<lambda>h q.
     RLine (if length (lines_read h) < length ls then Some (Inr (ls ! length (lines_read h))) else None)\<rparr>"

lemma accepting_reads_lines [simp]: "accepting (reads_lines ls)"
  by (simp add: accepting_def reads_lines_def)

text \<open>
  An object over four lines, one of them blank, with braces and an escaped quote in a string, one on a single line, and one
  with an opening brace in a string.
\<close>

definition pretty :: "string list" where
  "pretty = [''{'', ''  '' @ [quote] @ ''m'' @ [quote] @ '': '' @ [quote] @ ''a {b} '' @ [backslash, quote, quote] @ '','',
     '''', ''  '' @ [quote] @ ''n'' @ [quote] @ '': {} }'']"

definition plain :: "string list" where
  "plain = [''{ }'']"

definition smiley :: "string list" where
  "smiley = [''{'' @ [quote] @ ''m'' @ [quote] @ '': '' @ [quote] @ '':{'' @ [quote, CHR ''}'']]"

lemma demo_objects:
  "json_object pretty" "even_strings pretty" "json_object plain" "even_strings plain"
  "json_object smiley" "opening_strings smiley" "0 < braces (quoted (lines_text smiley) Before)" "opening_strings plain"
  by code_simp+


lemma brace_in_string_stalls_witness:
  "lines_read (hist (snd (run_state (tail_json (reads_lines (smiley @ plain)) 0 ''a'' 6 ([], 0) 0) fresh_world))) = smiley @ plain \<and>
   delivered (hist (snd (run_state (tail_json (reads_lines (smiley @ plain)) 0 ''a'' 6 ([], 0) 0) fresh_world))) = []"
proof -
  let ?r = "run_state (tail_json (reads_lines (smiley @ plain)) 0 ''a'' 6 ([], 0) 0) fresh_world"
  have "lines_read (hist (snd ?r)) = smiley @ plain" by code_simp
  then show ?thesis
    using brace_in_string_stalls [of "reads_lines (smiley @ plain)" 0 "''a''" 6 0 fresh_world "fst ?r" "snd ?r" smiley "[plain]"]
    by (simp add: demo_objects lines_read_def)
qed

end
