(* ===== verification/Cylance.thy ===== *)
theory Cylance
  imports Frame Polling Json_Access
begin

text \<open>
  \<open>cylance/client.go\<close>: every minute the adapter lists the new detections, threats and memory protections, page by page,
  asks for the details of each, and ships these. All requests go through \<open>doWithRetry\<close>, which renews the access token.
  Parsing times, signing and reading web tokens are library functions; \<open>cl_parse_time layout\<close> is \<open>time.Parse\<close>,
  \<open>cl_claims\<close> the claims of \<open>ParseUnverified\<close>, \<open>cl_int64\<close> the conversion of a number that no \<open>int64\<close> has. The loops
  that may not end have a bound: a result \<open>None\<close> says that it was used up.
\<close>

section \<open>Configuration and state\<close>

definition cyl_queryInterval :: int where "cyl_queryInterval = 60"
definition consecutiveAuthFailsLimit :: nat where "consecutiveAuthFailsLimit = 10"
definition cyl_pageLimit :: int where "cyl_pageLimit = 100"
definition cyl_defaultLoggingBaseURL :: string where "cyl_defaultLoggingBaseURL = ''https://protectapi.cylance.com''"
definition authEndpoint :: string where "authEndpoint = ''/auth/v2/token''"
definition detectionsEndpoint :: string where "detectionsEndpoint = ''/detections/v2''"
definition threatsEndpoint :: string where "threatsEndpoint = ''/threats/v2''"
definition memoryProtectionEndpoint :: string where "memoryProtectionEndpoint = ''/memoryprotection/v2''"

record cyl_config =
  cyl_TenantID :: string
  cyl_AppID :: string
  cyl_AppSecret :: string
  cyl_LoggingBaseURL :: string

definition cyl_Validate :: "go_err option \<Rightarrow> cyl_config \<Rightarrow> cyl_config \<times> go_err option" where
  "cyl_Validate client_err c =
     (case client_err of
        Some e \<Rightarrow> (c, Some (GoWrap ''client_options: %v'' e))
      | None \<Rightarrow>
          if cyl_TenantID c = '''' then (c, Some (GoErr ''missing tenant id''))
          else if cyl_AppID c = '''' then (c, Some (GoErr ''missing app id''))
          else if cyl_AppSecret c = '''' then (c, Some (GoErr ''missing app secret''))
          else if cyl_LoggingBaseURL c = '''' then (c\<lparr>cyl_LoggingBaseURL := cyl_defaultLoggingBaseURL\<rparr>, None)
          else (c, None))"

text \<open>The token, its expiry, and the flags of the failed refreshes and of \<open>Close\<close>.\<close>

record cyl_state =
  accessToken :: string
  tokenExpiresAt :: time
  refreshFailLimitMet :: bool
  cyl_closed :: bool

definition cyl_new :: cyl_state where
  "cyl_new = \<lparr>accessToken = '''', tokenExpiresAt = zero_time, refreshFailLimitMet = False, cyl_closed = False\<rparr>"

text \<open>
  \<open>NewCylanceAdapter\<close> validates a copy of the configuration before it is stored, so the default is filled in; then the
  client is created and the loop started.
\<close>

definition NewCylanceAdapter :: "go_err option \<Rightarrow> go_err option \<Rightarrow> cyl_config \<Rightarrow> go_err + (cyl_config \<times> cyl_state)" where
  "NewCylanceAdapter opts_err client_err c =
     (case cyl_Validate opts_err c of
        (c', Some e) \<Rightarrow> Inl e
      | (c', None) \<Rightarrow> (case client_err of Some e \<Rightarrow> Inl e | None \<Rightarrow> Inr (c', cyl_new)))"

text \<open>Calls: signing the claims (with the secret, and the expiry and issue times), a token request, a list page, the details of an object.\<close>

datatype cyl_query =
    CySign string string string int int
  | CyAuth string string
  | CyPage string string "part list"
  | CyDetail string string

record cyl_page =
  PageItems :: "dict list"
  TotalPages :: int
  PageNumber :: int

text \<open>The body \<open>null\<close> decodes to no page and to no details.\<close>

datatype cyl_answer =
    CSigned "go_err + string"
  | CAuth "string http"
  | CPage "cyl_page option http"
  | CDetail "dict option http"

type_synonym 'a cyl_io = "(cyl_query, cyl_answer, 'a) io"
type_synonym cyl_env = "(cyl_query, cyl_answer) env"

record cyl_lib =
  cl_parse_time :: "string \<Rightarrow> string \<Rightarrow> time option"
  cl_claims :: "string \<Rightarrow> dict option"
  cl_int64 :: "gfloat \<Rightarrow> int"

record cyl_api =
  api_key :: string
  api_objectType :: string
  api_endpoint :: string
  idField :: string
  timeField :: string
  startFilterField :: string
  returnedTimeFormat :: string

definition cyl_apis :: "cyl_api list" where
  "cyl_apis =
     [\<lparr>api_key = ''detections'', api_objectType = ''Detection'', api_endpoint = detectionsEndpoint, idField = ''Id'',
       timeField = ''ReceivedTime'', startFilterField = ''start'', returnedTimeFormat = ''2006-01-02T15:04:05Z07:00''\<rparr>,
      \<lparr>api_key = ''threats'', api_objectType = ''Threat'', api_endpoint = threatsEndpoint, idField = ''sha256'',
       timeField = ''last_found'', startFilterField = ''start_time'', returnedTimeFormat = ''2006-01-02T15:04:05''\<rparr>,
      \<lparr>api_key = ''memoryProtections'', api_objectType = ''Memory Protection'', api_endpoint = memoryProtectionEndpoint,
       idField = ''device_image_file_event_id'', timeField = ''created'', startFilterField = ''start_time'',
       returnedTimeFormat = ''2006-01-02T15:04:05''\<rparr>]"

section \<open>The access token\<close>

definition sleepContext :: "('q, 'r) env \<Rightarrow> duration \<Rightarrow> ('q, 'r, go_err option) io" where
  "sleepContext env d = do { done \<leftarrow> waitFor env d; ret (if done then Some (GoErr ''context canceled'') else None) }"

definition tokenError :: "cyl_env \<Rightarrow> go_err \<Rightarrow> nat \<Rightarrow> duration \<Rightarrow> cyl_state \<Rightarrow> (nat \<times> cyl_state) cyl_io" where
  "tokenError env errorMessage refreshFails sleepTime st = do {
     onError errorMessage;
     if Suc refreshFails > consecutiveAuthFailsLimit then ret (Suc refreshFails, st\<lparr>refreshFailLimitMet := True\<rparr>)
     else do {
       errSleep \<leftarrow> sleepContext env sleepTime;
       (case errSleep of Some e \<Rightarrow> onError (GoWrap ''could not sleep: %v'' e) | None \<Rightarrow> ret ());
       ret (Suc refreshFails, st)
     }
   }"

definition getJWTExpiration :: "cyl_lib \<Rightarrow> string \<Rightarrow> go_err + time" where
  "getJWTExpiration lib tokenString =
     (case cl_claims lib tokenString of
        None \<Rightarrow> Inl (GoErr ''failed to parse token: %v'')
      | Some claims \<Rightarrow>
          (case map_of claims ''exp'' of
             Some (GFloat64 f) \<Rightarrow>
               (case f of
                  Dyadic m e \<Rightarrow>
                    (let t = float_trunc m e in Inr ((if - (2 ^ 63) \<le> t \<and> t < 2 ^ 63 then t else cl_int64 lib f) * second))
                | _ \<Rightarrow> Inr (cl_int64 lib f * second))
           | _ \<Rightarrow> Inl (GoErr ''exp claim not found or invalid'')))"

text \<open>What the answer to a token request is: an error with the time to sleep, a 429, or the token.\<close>

datatype auth_outcome = AuthErr go_err duration | AuthLimited | AuthToken string

definition auth_outcome :: "string http \<Rightarrow> auth_outcome" where
  "auth_outcome r =
     (case r of
        NewRequestErr e \<Rightarrow> AuthErr (GoWrap ''error while creating new http post request for token refresh: %v'' e) (60 * second)
      | DoErr e \<Rightarrow> AuthErr (GoWrap ''cylance auth api request error: %v'' e) (60 * second)
      | Resp st rd bd \<Rightarrow>
          (case rd of
             Some e \<Rightarrow> AuthErr (GoWrap ''cylance auth api read error: %v'' e) (60 * second)
           | None \<Rightarrow>
               if st = 429 then AuthLimited
               else if st \<noteq> 200 then AuthErr (GoErr ''cylance auth api non-200: %dnRESPONSE %s'') (60 * second)
               else (case bd of
                       Inl e \<Rightarrow> AuthErr (GoWrap ''cylance auth api invalid json: %v'' e) (10 * second)
                     | Inr token \<Rightarrow> AuthToken token)))"

definition store_token :: "cyl_lib \<Rightarrow> string \<Rightarrow> cyl_state \<Rightarrow> cyl_state" where
  "store_token lib token st =
     st\<lparr>accessToken := token, tokenExpiresAt := (case getJWTExpiration lib token of Inl e \<Rightarrow> zero_time | Inr t \<Rightarrow> t)\<rparr>"

text \<open>Signing the claims and sending the request; the identifier \<open>jti\<close> is drawn by the signing.\<close>

definition request_token :: "cyl_env \<Rightarrow> cyl_config \<Rightarrow> auth_outcome cyl_io" where
  "request_token env c = do {
     t1 \<leftarrow> now env;
     t2 \<leftarrow> now env;
     signed \<leftarrow> call env (CySign (cyl_AppSecret c) (cyl_AppID c) (cyl_TenantID c) (unix (t1 + 30 * minute)) (unix t2));
     case signed of
       CSigned (Inr jwt) \<Rightarrow> do {
         r \<leftarrow> call env (CyAuth (cyl_LoggingBaseURL c @ authEndpoint) jwt);
         ret (case r of CAuth answer \<Rightarrow> auth_outcome answer | _ \<Rightarrow> AuthErr (GoErr '''') (60 * second))
       }
     | CSigned (Inl e) \<Rightarrow> ret (AuthErr (GoWrap ''could not sign jwt token: %v'' e) (10 * second))
     | _ \<Rightarrow> ret (AuthErr (GoErr '''') (10 * second))
   }"

fun refreshToken :: "cyl_env \<Rightarrow> cyl_lib \<Rightarrow> cyl_config \<Rightarrow> nat \<Rightarrow> nat \<Rightarrow> cyl_state \<Rightarrow> (unit outcome option \<times> cyl_state) cyl_io" where
  "refreshToken env lib c 0 refreshFails st = ret (None, st)"
| "refreshToken env lib c (Suc fuel) refreshFails st =
     (if refreshFailLimitMet st then ret (Some (Fails (GoErr ''token refresh failure limit met'')), st)
      else do {
        st1 \<leftarrow> (if refreshFails > consecutiveAuthFailsLimit div 2 \<and> refreshFails \<le> consecutiveAuthFailsLimit then do {
            (_, st') \<leftarrow> tokenError env (GoErr ''high failure rate to refresh token'') refreshFails (5 * minute) st;
            ret st'
          } else ret st);
        r \<leftarrow> request_token env c;
        case r of
          AuthErr e d \<Rightarrow> do {
            (fails, st2) \<leftarrow> tokenError env e refreshFails d st1;
            refreshToken env lib c fuel fails st2
          }
        | AuthLimited \<Rightarrow> do {
            onWarning ''refreshToken got 429, sleeping 60s before retry'';
            errSleep \<leftarrow> sleepContext env (60 * second);
            case errSleep of
              Some e \<Rightarrow> do { onWarning ''failed to sleep during refresh''; ret (Some (Fails e), st1) }
            | None \<Rightarrow> refreshToken env lib c fuel refreshFails st1
          }
        | AuthToken token \<Rightarrow> ret (Some (Returns ()), store_token lib token st1)
      })"

definition cyl_getToken :: "cyl_env \<Rightarrow> cyl_lib \<Rightarrow> cyl_config \<Rightarrow> nat \<Rightarrow> cyl_state \<Rightarrow> (string outcome option \<times> cyl_state) cyl_io" where
  "cyl_getToken env lib c fuel st =
     (if refreshFailLimitMet st then ret (Some (Fails (GoErr ''AuthFailLimit met'')), st)
      else do {
        fresh \<leftarrow> (if accessToken st = '''' then ret False
          else do { t \<leftarrow> now env; ret (\<not> tokenExpiresAt st - t < cyl_queryInterval * second) });
        if fresh then ret (Some (Returns (accessToken st)), st)
        else do {
          (r, st') \<leftarrow> refreshToken env lib c fuel 0 st;
          ret (case r of
                 None \<Rightarrow> None
               | Some (Returns _) \<Rightarrow> Some (Returns (accessToken st'))
               | Some (Fails e) \<Rightarrow> Some (Fails e)
               | Some (Panics s) \<Rightarrow> Some (Panics s), st')
        }
      })"

section \<open>Requests\<close>

text \<open>\<open>mk\<close> makes the request of a token, \<open>get\<close> takes the answer out of the reply.\<close>

fun cyl_doWithRetry ::
    "cyl_env \<Rightarrow> cyl_lib \<Rightarrow> cyl_config \<Rightarrow> (string \<Rightarrow> cyl_query) \<Rightarrow> (cyl_answer \<Rightarrow> 'b http) \<Rightarrow> nat \<Rightarrow> nat \<Rightarrow> cyl_state \<Rightarrow>
     ('b outcome option \<times> cyl_state) cyl_io" where
  "cyl_doWithRetry env lib c mk get tfuel 0 st = ret (None, st)"
| "cyl_doWithRetry env lib c mk get tfuel (Suc fuel) st = do {
     (token, st1) \<leftarrow> cyl_getToken env lib c tfuel st;
     case token of
       None \<Rightarrow> ret (None, st1)
     | Some (Fails e) \<Rightarrow> ret (Some (Fails e), st1)
     | Some (Panics s) \<Rightarrow> ret (Some (Panics s), st1)
     | Some (Returns tok) \<Rightarrow> do {
         r \<leftarrow> call env (mk tok);
         case get r of
           NewRequestErr e \<Rightarrow> do { onError (GoWrap ''cylance %s api request error: %v'' e); ret (Some (Fails e), st1) }
         | DoErr e \<Rightarrow> do { onError (GoWrap ''cylance %s api do error: %v'' e); ret (Some (Fails e), st1) }
         | Resp code rd bd \<Rightarrow>
             (case rd of
                Some e \<Rightarrow> do { onError (GoWrap ''cylance %s api read error: %v'' e); ret (Some (Fails e), st1) }
              | None \<Rightarrow>
                  if code = 429 then do {
                    onWarning ''getEventsRequest got 429, sleeping 60s before retry'';
                    errSleep \<leftarrow> sleepContext env (60 * second);
                    case errSleep of
                      Some e \<Rightarrow> ret (Some (Fails e), st1)
                    | None \<Rightarrow> cyl_doWithRetry env lib c mk get tfuel fuel st1
                  }
                  else if code = 401 then do {
                    t \<leftarrow> now env;
                    cyl_doWithRetry env lib c mk get tfuel fuel (st1\<lparr>accessToken := '''', tokenExpiresAt := t\<rparr>)
                  }
                  else if code \<noteq> 200 then do {
                    onError (GoErr ''cylance %s api non-200: %dnRESPONSE %s'');
                    ret (Some (Fails (GoErr ''cylance %s api non-200: %dnRESPONSE %s'')), st1)
                  }
                  else (case bd of
                          Inl e \<Rightarrow> do { onError (GoWrap ''cylance %s api invalid json: %v'' e); ret (Some (Fails e), st1) }
                        | Inr x \<Rightarrow> ret (Some (Returns x), st1)))
       }
   }"

definition page_answer :: "cyl_answer \<Rightarrow> cyl_page option http" where
  "page_answer r = (case r of CPage p \<Rightarrow> p | _ \<Rightarrow> DoErr (GoErr ''''))"

definition detail_answer :: "cyl_answer \<Rightarrow> dict option http" where
  "detail_answer r = (case r of CDetail d \<Rightarrow> d | _ \<Rightarrow> DoErr (GoErr ''''))"

definition cyl_page_url :: "cyl_config \<Rightarrow> cyl_api \<Rightarrow> int \<Rightarrow> time \<Rightarrow> part list" where
  "cyl_page_url c api page start =
     [Lit (cyl_LoggingBaseURL c), Lit (api_endpoint api), Lit ''?page='', Num page, Lit ''&page_size='', Num cyl_pageLimit,
      Lit ''&'', Lit (startFilterField api), Lit ''='', Layout (returnedTimeFormat api) start]"

text \<open>The URL of the details of an object, which only detections end in \<open>/details\<close>.\<close>

definition cyl_detail_url :: "cyl_config \<Rightarrow> cyl_api \<Rightarrow> string \<Rightarrow> string" where
  "cyl_detail_url c api ident =
     cyl_LoggingBaseURL c @ api_endpoint api @ ''/'' @ ident @ (if api_key api = ''detections'' then ''/details'' else '''')"

definition HasNextPage :: "cyl_page \<Rightarrow> bool" where
  "HasNextPage p \<longleftrightarrow> \<not> PageNumber p \<ge> TotalPages p"

section \<open>Listing\<close>

text \<open>
  One event of a page: what is reported, whether the event is kept, and the table and the latest time after it.
\<close>

datatype cyl_report = Quiet | Warns string | Errs go_err

text \<open>\<open>s, ok := event[k].(string)\<close>.\<close>

definition as_string :: "gval option \<Rightarrow> string option" where
  "as_string v = (case v of Some (GString s) \<Rightarrow> Some s | _ \<Rightarrow> None)"

definition cyl_event ::
    "cyl_lib \<Rightarrow> cyl_api \<Rightarrow> time \<Rightarrow> dict \<Rightarrow> dedupe \<times> time \<Rightarrow> cyl_report \<times> bool \<times> dedupe \<times> time" where
  "cyl_event lib api since event = (\<lambda>(dd, lastDet).
     (case as_string (map_of event (idField api)) of
        None \<Rightarrow> (Warns ''event id not a string: %s'', False, dd, lastDet)
      | Some ident \<Rightarrow>
          (case as_string (map_of event (timeField api)) of
             None \<Rightarrow> (Warns ''event time not a string: %s'', False, dd, lastDet)
           | Some createdAtStr \<Rightarrow>
               if map_of dd ident \<noteq> None then (Quiet, False, dd, lastDet)
               else (case cl_parse_time lib (returnedTimeFormat api) createdAtStr of
                       None \<Rightarrow> (Errs (GoErr ''cylance %s api invalid timestamp: %v''), False, dd, lastDet)
                     | Some createdAt \<Rightarrow>
                         if createdAt > since then
                           (Quiet, True, put ident (unix createdAt) dd, if createdAt > lastDet then createdAt else lastDet)
                         else (Quiet, False, dd, lastDet)))))"

definition cyl_emit :: "cyl_report \<Rightarrow> unit cyl_io" where
  "cyl_emit r = (case r of Quiet \<Rightarrow> ret () | Warns s \<Rightarrow> onWarning s | Errs e \<Rightarrow> onError e)"

fun cyl_events ::
    "cyl_lib \<Rightarrow> cyl_api \<Rightarrow> time \<Rightarrow> dict list \<Rightarrow> dedupe \<times> time \<Rightarrow> (dict list \<times> dedupe \<times> time) cyl_io" where
  "cyl_events lib api since [] seen = ret ([], seen)"
| "cyl_events lib api since (event # events) seen =
     (case cyl_event lib api since event seen of (report, kept, seen1) \<Rightarrow> do {
        cyl_emit report;
        (items, seen2) \<leftarrow> cyl_events lib api since events seen1;
        ret (if kept then event # items else items, seen2)
      })"

text \<open>The pages of a list. A page that is \<open>null\<close> is a nil response, whose methods panic.\<close>

fun cyl_pages ::
    "cyl_env \<Rightarrow> cyl_lib \<Rightarrow> cyl_config \<Rightarrow> cyl_api \<Rightarrow> time \<Rightarrow> nat \<Rightarrow> nat \<Rightarrow> int \<Rightarrow> dict list \<Rightarrow> dedupe \<times> time \<Rightarrow> cyl_state \<Rightarrow>
     ((dict list \<times> time) outcome option \<times> dedupe \<times> cyl_state) cyl_io" where
  "cyl_pages env lib c api since rfuel 0 page allItems seen st = ret (None, fst seen, st)"
| "cyl_pages env lib c api since rfuel (Suc fuel) page allItems seen st = do {
     (r, st1) \<leftarrow> cyl_doWithRetry env lib c (\<lambda>tok. CyPage tok (api_key api) (cyl_page_url c api page (snd seen))) page_answer
       rfuel rfuel st;
     case r of
       None \<Rightarrow> ret (None, fst seen, st1)
     | Some (Fails e) \<Rightarrow> ret (Some (Fails e), fst seen, st1)
     | Some (Panics s) \<Rightarrow> ret (Some (Panics s), fst seen, st1)
     | Some (Returns None) \<Rightarrow> ret (Some (Panics ''nil pointer dereference''), fst seen, st1)
     | Some (Returns (Some response)) \<Rightarrow> do {
         (newItems, seen1) \<leftarrow> cyl_events lib api since (PageItems response) seen;
         if \<not> HasNextPage response then ret (Some (Returns (allItems @ newItems, snd seen1)), fst seen1, st1)
         else cyl_pages env lib c api since rfuel fuel (page + 1) (allItems @ newItems) seen1 st1
       }
   }"

definition cyl_getEventsRequest ::
    "cyl_env \<Rightarrow> cyl_lib \<Rightarrow> cyl_config \<Rightarrow> nat \<Rightarrow> cyl_api \<Rightarrow> time \<Rightarrow> dedupe \<Rightarrow> cyl_state \<Rightarrow>
     ((dict list \<times> time) outcome option \<times> dedupe \<times> cyl_state) cyl_io" where
  "cyl_getEventsRequest env lib c fuel api since dd st = do {
     (r, dd', st') \<leftarrow> cyl_pages env lib c api since fuel fuel 1 [] (dd, since) st;
     ret (r, filter (\<lambda>(k, v). \<not> v < unix since) dd', st')
   }"

section \<open>Details\<close>

text \<open>\<open>SetMeta\<close> on the one event of a detail response.\<close>

definition meta_put :: "string \<Rightarrow> string \<Rightarrow> dict \<Rightarrow> dict" where
  "meta_put k v item = (case map_of item k of None \<Rightarrow> put k (GString v) item | Some x \<Rightarrow> if x = GNil then put k (GString v) item else item)"

definition SetMeta :: "string \<Rightarrow> string \<Rightarrow> dict \<Rightarrow> dict" where
  "SetMeta objectSource objectType item = meta_put ''ObjectType'' objectType (meta_put ''ObjectSource'' objectSource item)"

text \<open>
  The details of the listed events. The details \<open>null\<close> are a nil map, and \<open>SetMeta\<close> panics on it.
\<close>

fun cyl_details ::
    "cyl_env \<Rightarrow> cyl_lib \<Rightarrow> cyl_config \<Rightarrow> nat \<Rightarrow> cyl_api \<Rightarrow> dict list \<Rightarrow> cyl_state \<Rightarrow> (dict list outcome option \<times> cyl_state) cyl_io" where
  "cyl_details env lib c fuel api [] st = ret (Some (Returns []), st)"
| "cyl_details env lib c fuel api (event # events) st =
     (case map_of event (idField api) of
        None \<Rightarrow> do { onWarning ''no %s field on %s event: %v''; cyl_details env lib c fuel api events st }
      | Some (GString ident) \<Rightarrow> do {
          (r, st1) \<leftarrow> cyl_doWithRetry env lib c (\<lambda>tok. CyDetail tok (cyl_detail_url c api ident)) detail_answer fuel fuel st;
          case r of
            None \<Rightarrow> ret (None, st1)
          | Some (Panics s) \<Rightarrow> ret (Some (Panics s), st1)
          | Some (Fails e) \<Rightarrow>
              if refreshFailLimitMet st1 then ret (Some (Returns []), st1)
              else do { onError (GoWrap ''%s details fetch failed: %w'' e); cyl_details env lib c fuel api events st1 }
          | Some (Returns None) \<Rightarrow> ret (Some (Panics ''assignment to entry in nil map''), st1)
          | Some (Returns (Some d)) \<Rightarrow> do {
              (rest, st2) \<leftarrow> cyl_details env lib c fuel api events st1;
              ret (case rest of Some (Returns ds) \<Rightarrow> Some (Returns (SetMeta ''Cylance'' (api_objectType api) d # ds)) | _ \<Rightarrow> rest, st2)
            }
        }
      | Some _ \<Rightarrow> do { onWarning ''%s field is not a string on %s event: %v''; cyl_details env lib c fuel api events st })"

section \<open>The loop\<close>

definition cyl_Close :: "cyl_env \<Rightarrow> cyl_state \<Rightarrow> (go_err option \<times> cyl_state) cyl_io" where
  "cyl_Close env st =
     (if cyl_closed st then ret (None, st)
      else do {
        setStop;
        err1 \<leftarrow> drain env (1 * minute);
        err2 \<leftarrow> closeClient env;
        ret (case err1 of Some e \<Rightarrow> Some e | None \<Rightarrow> err2, st\<lparr>cyl_closed := True\<rparr>)
      })"

fun cyl_submitEvents :: "cyl_env \<Rightarrow> dict list \<Rightarrow> cyl_state \<Rightarrow> cyl_state cyl_io" where
  "cyl_submitEvents env [] st = ret st"
| "cyl_submitEvents env (item # items) st = do {
     t \<leftarrow> now env;
     err \<leftarrow> ship env (json_message item t) (10 * second);
     if err = Some BufferFull then do {
       onWarning ''stream falling behind'';
       err2 \<leftarrow> ship env (json_message item t) (1 * hour);
       case err2 of
         Some e \<Rightarrow> do { onError (GoWrap ''Ship(): %v'' e); (_, st') \<leftarrow> cyl_Close env st; ret st' }
       | None \<Rightarrow> cyl_submitEvents env items st
     }
     else cyl_submitEvents env items st
   }"

text \<open>The latest times and the tables of the three lists, by their keys.\<close>

record cyl_memory =
  cyl_since :: "string \<Rightarrow> time"
  cyl_dedupe :: "string \<Rightarrow> dedupe"

fun cyl_lists ::
    "cyl_env \<Rightarrow> cyl_lib \<Rightarrow> cyl_config \<Rightarrow> nat \<Rightarrow> cyl_api list \<Rightarrow> dict list \<Rightarrow> cyl_memory \<Rightarrow> cyl_state \<Rightarrow>
     (dict list outcome option \<times> cyl_memory \<times> cyl_state) cyl_io" where
  "cyl_lists env lib c fuel [] allItems m st = ret (Some (Returns allItems), m, st)"
| "cyl_lists env lib c fuel (api # apis) allItems m st = do {
     (r, dd, st1) \<leftarrow> cyl_getEventsRequest env lib c fuel api (cyl_since m (api_key api)) (cyl_dedupe m (api_key api)) st;
     let m1 = m\<lparr>cyl_dedupe := (cyl_dedupe m)(api_key api := dd)\<rparr>;
     case r of
       None \<Rightarrow> ret (None, m1, st1)
     | Some (Panics s) \<Rightarrow> ret (Some (Panics s), m1, st1)
     | Some (Fails e) \<Rightarrow> do {
         onError (GoWrap ''%s fetch failed: %w'' e);
         cyl_lists env lib c fuel apis allItems m1 st1
       }
     | Some (Returns (items, newSince)) \<Rightarrow> do {
         let m2 = m1\<lparr>cyl_since := (cyl_since m1)(api_key api := newSince)\<rparr>;
         (details, st2) \<leftarrow> (if \<not> refreshFailLimitMet st1 then cyl_details env lib c fuel api items st1
           else ret (Some (Returns []), st1));
         case details of
           Some (Returns ds) \<Rightarrow> cyl_lists env lib c fuel apis (allItems @ ds) m2 st2
         | other \<Rightarrow> ret (other, m2, st2)
       }
   }"

text \<open>
  One turn per minute, until the adapter is closed. A bound that is used up in a turn, or a panic, ends the run of the model.
\<close>

fun cyl_turns :: "cyl_env \<Rightarrow> cyl_lib \<Rightarrow> cyl_config \<Rightarrow> nat \<Rightarrow> nat \<Rightarrow> cyl_memory \<Rightarrow> cyl_state \<Rightarrow> (unit outcome option \<times> cyl_memory \<times> cyl_state) cyl_io" where
  "cyl_turns env lib c fuel 0 m st = ret (None, m, st)"
| "cyl_turns env lib c fuel (Suc n) m st = do {
     done \<leftarrow> waitFor env (cyl_queryInterval * second);
     if done then ret (Some (Returns ()), m, st)
     else do {
       (r, m1, st1) \<leftarrow> cyl_lists env lib c fuel cyl_apis [] m st;
       case r of
         None \<Rightarrow> ret (None, m1, st1)
       | Some (Panics s) \<Rightarrow> ret (Some (Panics s), m1, st1)
       | Some (Fails e) \<Rightarrow> ret (Some (Fails e), m1, st1)
       | Some (Returns allItems) \<Rightarrow> do {
           st2 \<leftarrow> (if allItems \<noteq> [] then cyl_submitEvents env allItems st1 else ret st1);
           if refreshFailLimitMet st2 then do {
             onError (GoErr ''authentication failed too many times; shutting down'');
             (_, st3) \<leftarrow> cyl_Close env st2;
             ret (Some (Returns ()), m1, st3)
           }
           else cyl_turns env lib c fuel n m1 st2
         }
     }
   }"

definition cyl_fetchEvents ::
    "cyl_env \<Rightarrow> cyl_lib \<Rightarrow> cyl_config \<Rightarrow> nat \<Rightarrow> nat \<Rightarrow> cyl_state \<Rightarrow> (unit outcome option \<times> cyl_memory \<times> cyl_state) cyl_io" where
  "cyl_fetchEvents env lib c fuel n st = do {
     t1 \<leftarrow> now env;
     t2 \<leftarrow> now env;
     t3 \<leftarrow> now env;
     let ago = cyl_queryInterval * minute;
     cyl_turns env lib c fuel n
       \<lparr>cyl_since = (\<lambda>_. zero_time)(''detections'' := t1 - ago, ''threats'' := t2 - ago, ''memoryProtections'' := t3 - ago),
        cyl_dedupe = (\<lambda>_. [])\<rparr> st
   }"

section \<open>The token is obtained or given up\<close>

text \<open>The token requests sent.\<close>

definition auth_requests :: "(cyl_query, cyl_answer) history \<Rightarrow> nat" where
  "auth_requests h = length (filter (\<lambda>e. case e of ECall (CyAuth u t) r \<Rightarrow> True | _ \<Rightarrow> False) h)"

lemma auth_requests_Cons [simp]:
  "auth_requests (e # h) = auth_requests h + (case e of ECall (CyAuth u t) r \<Rightarrow> 1 | _ \<Rightarrow> 0)"
  by (auto simp: auth_requests_def split: eff.split cyl_query.split)

lemma tokenError_wp:
  assumes "\<And>w'. auth_requests (hist w') = auth_requests (hist w) \<Longrightarrow>
    Q (Suc k, if k \<ge> consecutiveAuthFailsLimit then st\<lparr>refreshFailLimitMet := True\<rparr> else st) w'"
  shows "wp (tokenError env e k d st) Q w"
  using assms by (auto simp: tokenError_def sleepContext_def wp_simps split: option.split)

definition never_limited :: "cyl_env \<Rightarrow> bool" where
  "never_limited env \<longleftrightarrow> (\<forall>h q rd bd. e_call env h q \<noteq> CAuth (Resp 429 rd bd))"

lemma auth_limited: "auth_outcome a = AuthLimited \<Longrightarrow> \<exists>rd bd. a = Resp 429 rd bd"
  by (cases a) (auto simp: auth_outcome_def split: option.splits sum.splits if_splits)

lemma request_token_wp:
  assumes "never_limited env"
    and "\<And>e d w'. auth_requests (hist w') \<le> Suc (auth_requests (hist w)) \<Longrightarrow> Q (AuthErr e d) w'"
    and "\<And>tok w'. auth_requests (hist w') \<le> Suc (auth_requests (hist w)) \<Longrightarrow> Q (AuthToken tok) w'"
  shows "wp (request_token env c) Q w"
proof -
  have limited: "auth_outcome a \<noteq> AuthLimited" if "e_call env h q = CAuth a" for a h q
    using assms(1) that auth_limited [of a] unfolding never_limited_def by metis
  have out: "Q (case r of CAuth answer \<Rightarrow> auth_outcome answer | _ \<Rightarrow> AuthErr (GoErr '''') (60 * second)) w'"
    if "r = e_call env h q" "auth_requests (hist w') \<le> Suc (auth_requests (hist w))" for r h q w'
  proof -
    obtain o1 where o1: "(case r of CAuth answer \<Rightarrow> auth_outcome answer | _ \<Rightarrow> AuthErr (GoErr '''') (60 * second)) = o1" by blast
    moreover have "o1 \<noteq> AuthLimited" using o1 limited that(1) by (auto split: cyl_answer.splits)
    ultimately show ?thesis using assms(2,3) that(2) by (cases o1) simp_all
  qed
  show ?thesis
    unfolding request_token_def wp_bind wp_now wp_call
  proof (split cyl_answer.split, intro conjI allI impI, goal_cases)
    case (1 r)
    then show ?case by (cases r) (simp_all add: wp_simps assms(2) out)
  qed (simp_all add: wp_simps assms(2))
qed

lemma refreshToken_wp:
  assumes "never_limited env"
  shows "refreshFailLimitMet st \<or> k \<le> 10 \<and> 12 - k \<le> fuel \<Longrightarrow> 1 \<le> fuel \<Longrightarrow>
    wp (refreshToken env lib c fuel k st) (\<lambda>(r, st') w'.
      (r = Some (Returns ()) \<or> (\<exists>e. r = Some (Fails e)) \<and> refreshFailLimitMet st') \<and>
      auth_requests (hist w') \<le> auth_requests (hist w) + (if refreshFailLimitMet st then 0 else 11 - k)) w"
proof (induction fuel arbitrary: k st w)
  case (Suc fuel)
  show ?case
  proof (cases "refreshFailLimitMet st")
    case True
    then show ?thesis by (simp add: wp_ret)
  next
    case False
    with Suc.prems have k: "k \<le> 10" "12 - k \<le> Suc fuel" by auto
    let ?Q = "\<lambda>(r, st') w'. (r = Some (Returns ()) \<or> (\<exists>e. r = Some (Fails e)) \<and> refreshFailLimitMet st') \<and>
      auth_requests (hist w') \<le> auth_requests (hist w) + (11 - k)"
    let ?pre = "if k > consecutiveAuthFailsLimit div 2 \<and> k \<le> consecutiveAuthFailsLimit then do {
        (_, st') \<leftarrow> tokenError env (GoErr ''high failure rate to refresh token'') k (5 * minute) st; ret st' } else ret st"
    have pre: "wp ?pre (\<lambda>st1 w1. (k < 10 \<longrightarrow> \<not> refreshFailLimitMet st1) \<and> auth_requests (hist w1) = auth_requests (hist w)) w"
      using False by (auto simp: wp_bind wp_ret consecutiveAuthFailsLimit_def intro!: tokenError_wp)
    have again: "wp (do { (fails, st2) \<leftarrow> tokenError env e k d st1; refreshToken env lib c fuel fails st2 }) ?Q w2"
      if "k < 10 \<longrightarrow> \<not> refreshFailLimitMet st1" "auth_requests (hist w2) \<le> Suc (auth_requests (hist w))" for e d st1 w2
      unfolding wp_bind
    proof (rule tokenError_wp, unfold prod.case)
      fix w3 :: "(cyl_query, cyl_answer) world"
      assume w3: "auth_requests (hist w3) = auth_requests (hist w2)"
      let ?st2 = "if k \<ge> consecutiveAuthFailsLimit then st1\<lparr>refreshFailLimitMet := True\<rparr> else st1"
      have "refreshFailLimitMet ?st2 \<or> Suc k \<le> 10 \<and> 12 - Suc k \<le> fuel"
        using k by (auto simp: consecutiveAuthFailsLimit_def)
      moreover have "1 \<le> fuel" using k by linarith
      ultimately have ih: "wp (refreshToken env lib c fuel (Suc k) ?st2) (\<lambda>(r, st') w'.
          (r = Some (Returns ()) \<or> (\<exists>e. r = Some (Fails e)) \<and> refreshFailLimitMet st') \<and>
          auth_requests (hist w') \<le> auth_requests (hist w3) + (if refreshFailLimitMet ?st2 then 0 else 11 - Suc k)) w3"
        by (rule Suc.IH)
      have "(if refreshFailLimitMet ?st2 then 0 else 11 - Suc k) \<le> 10 - k"
        using that(1) k by (auto simp: consecutiveAuthFailsLimit_def)
      then have "auth_requests (hist w3) + (if refreshFailLimitMet ?st2 then 0 else 11 - Suc k) \<le> auth_requests (hist w) + (11 - k)"
        using w3 that(2) k(1) by linarith
      then show "wp (refreshToken env lib c fuel (Suc k) ?st2) ?Q w3"
        by (intro wp_mono [OF ih]) (auto elim: order_trans)
    qed
    show ?thesis
      unfolding refreshToken.simps if_not_P [OF False] wp_bind [of ?pre]
    proof (rule wp_mono [OF pre], unfold wp_bind [of "request_token env c"], rule request_token_wp [OF assms], goal_cases)
      case (1 st1 w1 e d w2)
      then show ?case using again by simp
    next
      case (2 st1 w1 tok w2)
      then show ?case using k by (simp add: wp_ret)
    qed
  qed
qed simp

text \<open>A token refresh of the Cylance adapter ends, as long as the token service does not answer 429: it sends at most
  eleven token requests, and it has the token or has set the flag that shuts the adapter down.\<close>

theorem refreshToken_bounded:
  assumes "never_limited env" "\<not> refreshFailLimitMet st" "12 \<le> fuel"
  shows "wp (refreshToken env lib c fuel 0 st) (\<lambda>(r, st') w'.
    (r = Some (Returns ()) \<or> (\<exists>e. r = Some (Fails e)) \<and> refreshFailLimitMet st') \<and>
    auth_requests (hist w') \<le> auth_requests (hist w) + 11) w"
  using refreshToken_wp [OF assms(1), of st 0 fuel lib c w] assms(2,3) by simp

text \<open>The token of the last of these requests comes too late: by then the flag is set, and although the refresh reports
  success the adapter is shut down.\<close>

theorem refreshToken_success_ignored:
  assumes "\<And>h q. e_call env h q = (case q of CyAuth u t \<Rightarrow> CAuth (Resp 200 None (Inr token)) | _ \<Rightarrow> CSigned (Inr jwt))"
    and "\<not> refreshFailLimitMet st"
  shows "wp (refreshToken env lib c (Suc fuel) 10 st)
    (\<lambda>(r, st') w'. r = Some (Returns ()) \<and> accessToken st' = token \<and> refreshFailLimitMet st') w"
  using assms by (simp add: consecutiveAuthFailsLimit_def tokenError_def sleepContext_def request_token_def auth_outcome_def
      wp_simps store_token_def)

definition cyl_demo_answer :: "cyl_query \<Rightarrow> cyl_answer" where
  "cyl_demo_answer q = (case q of CyAuth u t \<Rightarrow> CAuth (Resp 200 None (Inr ''t'')) | _ \<Rightarrow> CSigned (Inr ''j''))"

section \<open>What a list collects\<close>

definition cyl_id :: "cyl_api \<Rightarrow> dict \<Rightarrow> string" where
  "cyl_id api event = string_field event (idField api)"

definition cyl_created :: "cyl_lib \<Rightarrow> cyl_api \<Rightarrow> dict \<Rightarrow> time option" where
  "cyl_created lib api event = cl_parse_time lib (returnedTimeFormat api) (string_field event (timeField api))"

text \<open>
  The state of a request that began with the table \<open>dd0\<close>: the events collected have different identifiers, none of \<open>dd0\<close>,
  were created after \<open>since\<close> and not after the latest time, and are in the table, which has all of \<open>dd0\<close>.
\<close>

definition listed :: "cyl_lib \<Rightarrow> cyl_api \<Rightarrow> time \<Rightarrow> dedupe \<Rightarrow> dict list \<Rightarrow> dedupe \<times> time \<Rightarrow> bool" where
  "listed lib api since dd0 items = (\<lambda>(dd, lastDet).
     distinct (map (cyl_id api) items) \<and> since \<le> lastDet \<and> (\<forall>k v. map_of dd0 k = Some v \<longrightarrow> map_of dd k = Some v) \<and>
     (\<forall>i \<in> set items. map_of dd0 (cyl_id api i) = None \<and> map_of dd (cyl_id api i) \<noteq> None \<and>
        (\<exists>t. cyl_created lib api i = Some t \<and> since < t \<and> t \<le> lastDet)))"

lemma listed_start: "listed lib api since dd [] (dd, since)"
  by (simp add: listed_def)

lemma as_string_field: "as_string (map_of event k) = Some s \<Longrightarrow> string_field event k = s"
  by (simp add: as_string_def string_field_def split: option.splits gval.splits)

lemma cyl_event_kept:
  assumes "cyl_event lib api since event (dd, lastDet) = (rep, True, seen)"
  shows "\<exists>t. map_of dd (cyl_id api event) = None \<and> cyl_created lib api event = Some t \<and> since < t \<and>
    seen = (put (cyl_id api event) (unix t) dd, if t > lastDet then t else lastDet)"
  using assms as_string_field
  by (auto simp: cyl_event_def cyl_id_def cyl_created_def split: option.splits if_splits)

lemma cyl_event_dropped: "cyl_event lib api since event seen = (rep, False, seen') \<Longrightarrow> seen' = seen"
  by (cases seen) (auto simp: cyl_event_def split: option.splits if_splits)

lemma listed_event:
  assumes "listed lib api since dd0 items seen" "cyl_event lib api since event seen = (rep, kept, seen')"
  shows "listed lib api since dd0 (if kept then items @ [event] else items) seen'"
proof (cases kept)
  case True
  obtain dd lastDet where seen: "seen = (dd, lastDet)" by fastforce
  obtain t where t: "map_of dd (cyl_id api event) = None" "cyl_created lib api event = Some t" "since < t"
    "seen' = (put (cyl_id api event) (unix t) dd, if t > lastDet then t else lastDet)"
    using cyl_event_kept [of lib api since event dd lastDet rep seen'] assms(2) True seen by auto
  have new: "map_of dd0 (cyl_id api event) = None"
    using assms(1) t(1) unfolding listed_def seen by (cases "map_of dd0 (cyl_id api event)") auto
  have notin: "cyl_id api event \<notin> cyl_id api ` set items" using assms(1) t(1) unfolding listed_def seen by auto
  show ?thesis using assms(1) t new notin True unfolding listed_def seen by (auto dest!: bspec)
next
  case False
  with assms show ?thesis using cyl_event_dropped by metis
qed

lemma cyl_events_listed:
  "listed lib api since dd0 items seen \<Longrightarrow>
   wp (cyl_events lib api since events seen) (\<lambda>(new, seen') w'. listed lib api since dd0 (items @ new) seen') w"
proof (induction events arbitrary: items seen w)
  case (Cons event events)
  obtain rep kept seen1 where e: "cyl_event lib api since event seen = (rep, kept, seen1)" by (metis prod_cases3)
  have "wp (cyl_events lib api since events seen1) (\<lambda>(new, seen') w'.
      listed lib api since dd0 ((if kept then items @ [event] else items) @ new) seen') w1" for w1
    by (rule Cons.IH [OF listed_event [OF Cons.prems e]])
  then have "wp (do { (new, seen2) \<leftarrow> cyl_events lib api since events seen1; ret (if kept then event # new else new, seen2) })
      (\<lambda>(new, seen') w'. listed lib api since dd0 (items @ new) seen') w1" for w1
    by (rule wp_bindI) (auto simp: wp_ret)
  then show ?case unfolding cyl_events.simps e prod.case by (simp only: wp_bind [of "cyl_emit rep"] wp_any)
qed (simp add: wp_ret)

definition pages_post :: "cyl_lib \<Rightarrow> cyl_api \<Rightarrow> time \<Rightarrow> dedupe \<Rightarrow> (dict list \<times> time) outcome option \<Rightarrow> dedupe \<Rightarrow> bool" where
  "pages_post lib api since dd0 r dd \<longleftrightarrow> (\<forall>k v. map_of dd0 k = Some v \<longrightarrow> map_of dd k = Some v) \<and>
     (\<forall>items lastDet. r = Some (Returns (items, lastDet)) \<longrightarrow> listed lib api since dd0 items (dd, lastDet))"

lemma cyl_pages_listed:
  "listed lib api since dd0 allItems seen \<Longrightarrow>
   wp (cyl_pages env lib c api since rfuel fuel page allItems seen st) (\<lambda>(r, dd, st') w'. pages_post lib api since dd0 r dd) w"
proof (induction fuel arbitrary: page allItems seen st w)
  case 0
  then show ?case by (auto simp: wp_ret pages_post_def listed_def)
next
  case (Suc fuel)
  have kept: "pages_post lib api since dd0 r (fst seen)" if "\<forall>x. r \<noteq> Some (Returns x)" for r
    using Suc.prems that by (auto simp: pages_post_def listed_def)
  have more: "wp (do {
      (newItems, seen1) \<leftarrow> cyl_events lib api since (PageItems response) seen;
      if \<not> HasNextPage response then ret (Some (Returns (allItems @ newItems, snd seen1)), fst seen1, st1)
      else cyl_pages env lib c api since rfuel fuel (page + 1) (allItems @ newItems) seen1 st1
    }) (\<lambda>(r, dd, st') w'. pages_post lib api since dd0 r dd) w1" for response st1 w1
  proof (rule wp_bindI [OF cyl_events_listed [OF Suc.prems]], goal_cases)
    case (1 x w2)
    then obtain new seen1 where x: "x = (new, seen1)" and l: "listed lib api since dd0 (allItems @ new) seen1" by auto
    have "pages_post lib api since dd0 (Some (Returns (allItems @ new, snd seen1))) (fst seen1)"
      using l by (cases seen1) (simp add: pages_post_def listed_def)
    with Suc.IH [OF l] show ?case
      unfolding x prod.case by (cases "HasNextPage response") (simp_all add: wp_ret)
  qed
  show ?case
    unfolding cyl_pages.simps wp_bind [of "cyl_doWithRetry _ _ _ _ _ _ _ _"]
  proof (rule wp_any, goal_cases)
    case (1 x w1)
    obtain r st1 where x: "x = (r, st1)" by fastforce
    show ?case
      unfolding x prod.case using kept more
      by (cases r) (auto simp: wp_ret split: outcome.split option.split)
  qed
qed

text \<open>
  The rounds of one list, as the loop makes them: a request that fails leaves the time and keeps the table, one that
  succeeds gives its events and the new time.
\<close>

inductive cyl_rounds ::
    "cyl_env \<Rightarrow> cyl_lib \<Rightarrow> cyl_config \<Rightarrow> cyl_api \<Rightarrow> time \<times> dedupe \<Rightarrow> dict list \<Rightarrow> time \<times> dedupe \<Rightarrow> bool"
  for env :: cyl_env and lib :: cyl_lib and c :: cyl_config and api :: cyl_api and start :: "time \<times> dedupe"
where
  no_round: "cyl_rounds env lib c api start [] start"
| good_round: "cyl_rounds env lib c api start xs (since, dd) \<Longrightarrow>
    run_state (cyl_getEventsRequest env lib c fuel api since dd st) w = ((Some (Returns (items, since')), dd', st'), w') \<Longrightarrow>
    cyl_rounds env lib c api start (xs @ items) (since', dd')"
| bad_round: "cyl_rounds env lib c api start xs (since, dd) \<Longrightarrow>
    run_state (cyl_getEventsRequest env lib c fuel api since dd st) w = ((Some (Fails e), dd', st'), w') \<Longrightarrow>
    cyl_rounds env lib c api start xs (since, dd')"

lemma getEventsRequest_post:
  assumes "run_state (cyl_getEventsRequest env lib c fuel api since dd st) w = ((r, dd', st'), w')"
  shows "\<exists>dd1. pages_post lib api since dd r dd1 \<and> dd' = filter (\<lambda>(k, v). \<not> v < unix since) dd1"
proof -
  have "wp (cyl_getEventsRequest env lib c fuel api since dd st)
      (\<lambda>(r, dd', st') w'. \<exists>dd1. pages_post lib api since dd r dd1 \<and> dd' = filter (\<lambda>(k, v). \<not> v < unix since) dd1) w"
    unfolding cyl_getEventsRequest_def
    by (rule wp_bindI [OF cyl_pages_listed [OF listed_start]]) (auto simp: wp_ret)
  from wpD [OF this assms] show ?thesis by simp
qed

lemma map_of_filter_keep: "map_of xs k = Some v \<Longrightarrow> P (k, v) \<Longrightarrow> map_of (filter P xs) k = Some v"
  by (induction xs) (auto split: if_splits)

text \<open>What was collected so far has different pairs of identifier and creation time, none of them after \<open>since\<close>.\<close>

definition cyl_key :: "cyl_api \<Rightarrow> dict \<Rightarrow> string \<times> string" where
  "cyl_key api event = (cyl_id api event, string_field event (timeField api))"

definition collected_ok :: "cyl_lib \<Rightarrow> cyl_api \<Rightarrow> dict list \<Rightarrow> time \<Rightarrow> bool" where
  "collected_ok lib api xs since \<longleftrightarrow> distinct (map (cyl_key api) xs) \<and>
     (\<forall>x \<in> set xs. \<exists>t. cyl_created lib api x = Some t \<and> t \<le> since)"

lemma collected_ok_append:
  assumes "collected_ok lib api xs since" "listed lib api since dd items (dd', since')"
  shows "collected_ok lib api (xs @ items) since'"
proof -
  have le: "since \<le> since'" using assms(2) by (simp add: listed_def)
  have "distinct (map (cyl_id api) items)" using assms(2) by (simp add: listed_def)
  then have "distinct (map (cyl_key api) items)" by (auto simp: distinct_map inj_on_def cyl_key_def)
  moreover have "cyl_key api x \<noteq> cyl_key api y" if xy: "x \<in> set xs" "y \<in> set items" for x y
  proof -
    obtain s where "cyl_created lib api x = Some s" "s \<le> since" using assms(1) xy(1) by (auto simp: collected_ok_def)
    moreover obtain t where "cyl_created lib api y = Some t" "since < t" using assms(2) xy(2) by (auto simp: listed_def)
    ultimately show ?thesis by (auto simp: cyl_key_def cyl_created_def)
  qed
  ultimately have "distinct (map (cyl_key api) (xs @ items))" using assms(1) by (fastforce simp: collected_ok_def)
  moreover have "\<exists>t. cyl_created lib api x = Some t \<and> t \<le> since'" if "x \<in> set (xs @ items)" for x
    using that assms le unfolding collected_ok_def listed_def by (fastforce dest: bspec)
  ultimately show ?thesis by (simp add: collected_ok_def)
qed

lemma cyl_rounds_ok:
  "cyl_rounds env lib c api start xs st' \<Longrightarrow> collected_ok lib api xs (fst st')"
proof (induction xs st' rule: cyl_rounds.induct)
  case (good_round xs since dd fuel st w items since' dd' st' w')
  then obtain dd1 where "listed lib api since dd items (dd1, since')"
    using getEventsRequest_post [OF good_round.hyps(2)] by (auto simp: pages_post_def)
  from collected_ok_append [OF _ this] good_round.IH show ?case by simp
qed (auto simp: collected_ok_def)

text \<open>C16: over all rounds of a list, with whatever the service answers, failed requests included, the Cylance adapter
  collects no event state twice: the pairs of identifier and creation time are all different.\<close>

theorem cylance_collects_once:
  assumes "cyl_rounds env lib c api start xs (since, dd)"
  shows "distinct (map (cyl_key api) xs)"
  using cyl_rounds_ok [OF assms] by (simp add: collected_ok_def)

text \<open>An identifier recorded with a creation second stays recorded, or the latest time has passed it.\<close>

lemma recorded_stays:
  assumes "cyl_rounds env lib c api start xs st'"
  shows "(map_of (snd start) ident = Some s \<or> s < unix (fst start)) \<Longrightarrow>
    (map_of (snd st') ident = Some s \<or> s < unix (fst st')) \<and>
    (\<forall>x \<in> set xs. cyl_id api x = ident \<longrightarrow> map_option unix (cyl_created lib api x) \<noteq> Some s)"
  using assms
proof (induction xs st' rule: cyl_rounds.induct)
  case (good_round xs since dd fuel st w items since' dd' st' w')
  obtain dd1 where dd1: "listed lib api since dd items (dd1, since')" "dd' = filter (\<lambda>(k, v). \<not> v < unix since) dd1"
    "\<forall>k v. map_of dd k = Some v \<longrightarrow> map_of dd1 k = Some v"
    using getEventsRequest_post [OF good_round.hyps(2)] by (auto simp: pages_post_def)
  have mono: "unix since \<le> unix since'" using dd1(1) by (simp add: listed_def unix_def zdiv_mono1)
  have now: "map_of dd ident = Some s \<or> s < unix since" using good_round.IH good_round.prems by simp
  have "map_of dd' ident = Some s \<or> s < unix since'"
    using now dd1(2,3) mono by (auto simp: map_of_filter_keep)
  moreover have "map_option unix (cyl_created lib api x) \<noteq> Some s" if x: "x \<in> set items" "cyl_id api x = ident" for x
  proof -
    obtain t where t: "cyl_created lib api x = Some t" "since < t" "map_of dd ident = None"
      using dd1(1) x by (auto simp: listed_def)
    then have "unix since \<le> unix t" by (simp add: unix_def zdiv_mono1)
    with now t show ?thesis by auto
  qed
  ultimately show ?case using good_round.IH good_round.prems by auto
next
  case (bad_round xs since dd fuel st w e dd' st' w')
  obtain dd1 where dd1: "dd' = filter (\<lambda>(k, v). \<not> v < unix since) dd1" "\<forall>k v. map_of dd k = Some v \<longrightarrow> map_of dd1 k = Some v"
    using getEventsRequest_post [OF bad_round.hyps(2)] by (auto simp: pages_post_def)
  have "map_of dd ident = Some s \<or> s < unix since" using bad_round.IH bad_round.prems by simp
  then have "map_of dd' ident = Some s \<or> s < unix since" using dd1 by (auto simp: map_of_filter_keep)
  then show ?case using bad_round.IH bad_round.prems by simp
qed simp

text \<open>An event that was read on a page of a request that failed later is lost: its identifier is recorded with its
  creation time, and no later round collects it.\<close>

theorem cylance_failed_page_loses:
  assumes "run_state (cyl_getEventsRequest env lib c fuel api since dd st) w = ((Some (Fails e), dd', st'), w')"
    and "map_of dd ident = None" "map_of dd' ident = Some s" "cyl_rounds env' lib c api (since, dd') xs later"
  shows "\<forall>x \<in> set xs. cyl_id api x = ident \<longrightarrow> map_option unix (cyl_created lib api x) \<noteq> Some s"
  using recorded_stays [OF assms(4), of ident s] assms(3) by simp

text \<open>A service with an event on its first page and an error instead of the second, and later one with two events.\<close>

definition cyl_demo_event :: "string \<Rightarrow> dict" where
  "cyl_demo_event i = [(''Id'', GString i), (''ReceivedTime'', GString ''t'')]"

definition cyl_demo_service :: "bool \<Rightarrow> cyl_query \<Rightarrow> cyl_answer" where
  "cyl_demo_service up q =
     (case q of
        CySign a b d m n \<Rightarrow> CSigned (Inr ''j'')
      | CyAuth u t \<Rightarrow> CAuth (Resp 200 None (Inr ''t''))
      | CyPage t k u \<Rightarrow>
          (if up then CPage (Resp 200 None (Inr (Some \<lparr>PageItems = [cyl_demo_event ''a'', cyl_demo_event ''b''], TotalPages = 1, PageNumber = 1\<rparr>)))
           else if Num 1 \<in> set u then CPage (Resp 200 None (Inr (Some \<lparr>PageItems = [cyl_demo_event ''a''], TotalPages = 2, PageNumber = 1\<rparr>)))
           else CPage (Resp 500 None (Inl (GoErr ''''))))
      | CyDetail t u \<Rightarrow> CDetail (DoErr (GoErr '''')))"

definition cyl_demo_lib :: cyl_lib where
  "cyl_demo_lib = \<lparr>cl_parse_time = \<lambda>_ _. Some (5 * second), cl_claims = \<lambda>_. None, cl_int64 = \<lambda>_. 0\<rparr>"

definition cyl_demo_config :: cyl_config where
  "cyl_demo_config = \<lparr>cyl_TenantID = ''t'', cyl_AppID = ''a'', cyl_AppSecret = ''s'', cyl_LoggingBaseURL = ''u''\<rparr>"

lemma refreshToken_success_ignored_witness:
  "wp (refreshToken (steady_env 0 cyl_demo_answer) cyl_demo_lib cyl_demo_config 1 10 cyl_new)
    (\<lambda>(r, st') w'. r = Some (Returns ()) \<and> accessToken st' = ''t'' \<and> refreshFailLimitMet st') fresh_world"
  using refreshToken_success_ignored [of "steady_env 0 cyl_demo_answer", where token = "''t''" and jwt = "''j''" and st = cyl_new and fuel = 0]
  by (simp add: cyl_demo_answer_def cyl_new_def del: refreshToken.simps)

lemma refreshToken_bounded_witness:
  "wp (refreshToken (steady_env 0 cyl_demo_answer) cyl_demo_lib cyl_demo_config 12 0 cyl_new)
    (\<lambda>(r, st') w'. r \<noteq> None \<and> auth_requests (hist w') \<le> 11) fresh_world"
  by (rule wp_mono [OF refreshToken_bounded [of "steady_env 0 cyl_demo_answer" cyl_new 12 cyl_demo_lib cyl_demo_config fresh_world]])
    (auto simp: never_limited_def cyl_demo_answer_def cyl_new_def auth_requests_def split: cyl_query.splits)

definition cyl_demo_run :: "bool \<Rightarrow> dedupe \<Rightarrow> ((dict list \<times> time) outcome option \<times> dedupe \<times> cyl_state) \<times> (cyl_query, cyl_answer) world" where
  "cyl_demo_run up dd = run_state (cyl_getEventsRequest (steady_env 0 (cyl_demo_service up)) cyl_demo_lib cyl_demo_config 2
     (hd cyl_apis) 0 dd cyl_new) fresh_world"

lemma cyl_demo_bad: "\<exists>e st' w'. cyl_demo_run False [] = ((Some (Fails e), [(''a'', 5)], st'), w')"
proof -
  have "(case fst (fst (cyl_demo_run False [])) of Some (Fails _) \<Rightarrow> True | _ \<Rightarrow> False) \<and>
    fst (snd (fst (cyl_demo_run False []))) = [(''a'', 5)]" by code_simp
  then show ?thesis by (cases "cyl_demo_run False []") (auto split: option.splits outcome.splits)
qed

lemma cyl_demo_good: "\<exists>dd st' w'. cyl_demo_run True [(''a'', 5)] = ((Some (Returns ([cyl_demo_event ''b''], 5 * second)), dd, st'), w')"
proof -
  have "fst (fst (cyl_demo_run True [(''a'', 5)])) = Some (Returns ([cyl_demo_event ''b''], 5 * second))" by code_simp
  then show ?thesis by (cases "cyl_demo_run True [(''a'', 5)]") auto
qed

lemma cylance_collects_once_witness:
  "\<exists>env later. cyl_rounds env cyl_demo_lib cyl_demo_config (hd cyl_apis) (0, [(''a'', 5)]) [cyl_demo_event ''b''] later \<and>
     distinct (map (cyl_key (hd cyl_apis)) [cyl_demo_event ''b''])"
proof -
  obtain dd st' w' where "cyl_demo_run True [(''a'', 5)] = ((Some (Returns ([cyl_demo_event ''b''], 5 * second)), dd, st'), w')"
    using cyl_demo_good by blast
  from good_round [OF no_round this [unfolded cyl_demo_run_def]]
  have "cyl_rounds (steady_env 0 (cyl_demo_service True)) cyl_demo_lib cyl_demo_config (hd cyl_apis) (0, [(''a'', 5)])
    [cyl_demo_event ''b''] (5 * second, dd)" by simp
  with cylance_collects_once [OF this] show ?thesis by blast
qed

lemma cylance_failed_page_loses_witness:
  "\<exists>env later. cyl_rounds env cyl_demo_lib cyl_demo_config (hd cyl_apis) (0, [(''a'', 5)]) [cyl_demo_event ''b''] later \<and>
     filter (\<lambda>x. cyl_id (hd cyl_apis) x = ''a'' \<and> map_option unix (cyl_created cyl_demo_lib (hd cyl_apis) x) = Some 5)
       [cyl_demo_event ''b''] = []"
proof -
  obtain dd st' w' where "cyl_demo_run True [(''a'', 5)] = ((Some (Returns ([cyl_demo_event ''b''], 5 * second)), dd, st'), w')"
    using cyl_demo_good by blast
  from good_round [OF no_round this [unfolded cyl_demo_run_def]]
  have later: "cyl_rounds (steady_env 0 (cyl_demo_service True)) cyl_demo_lib cyl_demo_config (hd cyl_apis) (0, [(''a'', 5)])
    [cyl_demo_event ''b''] (5 * second, dd)" by simp
  obtain e st1 w1 where "cyl_demo_run False [] = ((Some (Fails e), [(''a'', 5)], st1), w1)" using cyl_demo_bad by blast
  from cylance_failed_page_loses [OF this [unfolded cyl_demo_run_def] _ _ later, of "''a''" 5]
  have "filter (\<lambda>x. cyl_id (hd cyl_apis) x = ''a'' \<and> map_option unix (cyl_created cyl_demo_lib (hd cyl_apis) x) = Some 5)
       [cyl_demo_event ''b''] = []" unfolding filter_empty_conv by simp
  with later show ?thesis by blast
qed

section \<open>Refused messages\<close>

text \<open>A message that the client refuses for another reason than a full buffer is dropped by the Cylance adapter without a
  report and without a second attempt, and the adapter goes on.\<close>

theorem cylance_drops_refused:
  assumes "\<And>h m d. e_ship env h m d = Some e" "e \<noteq> BufferFull"
  shows "wp (cyl_submitEvents env items st) (\<lambda>st' w'. st' = st \<and> stop w' = stop w \<and> delivered (hist w') = delivered (hist w) \<and>
    length (attempts (hist w')) = length (attempts (hist w)) + length items \<and>
    (\<forall>x. EOnError x \<in> set (hist w') \<longrightarrow> EOnError x \<in> set (hist w))) w"
proof (induction items arbitrary: w)
  case (Cons item items)
  let ?t = "e_now env (hist w)"
  let ?w1 = "w\<lparr>hist := EShip (json_message item ?t) (10 * second) (Some e) # ENow ?t # hist w\<rparr>"
  have "wp (cyl_submitEvents env items st) (\<lambda>st' w'. st' = st \<and> stop w' = stop w \<and> delivered (hist w') = delivered (hist w) \<and>
    length (attempts (hist w')) = length (attempts (hist w)) + length (item # items) \<and>
    (\<forall>x. EOnError x \<in> set (hist w') \<longrightarrow> EOnError x \<in> set (hist w))) ?w1"
    by (rule wp_mono [OF Cons.IH [of ?w1]]) auto
  then show ?case using assms by (simp add: wp_simps)
qed (simp add: wp_ret)

lemma cylance_drops_refused_witness:
  "wp (cyl_submitEvents ((steady_env 0 cyl_demo_answer)\<lparr>e_ship := \<lambda>_ _ _. Some (GoErr ''closed'')\<rparr>) [[(''a'', GNil)]] cyl_new)
     (\<lambda>st' w'. delivered (hist w') = [] \<and> length (attempts (hist w')) = 1 \<and> (\<forall>x. EOnError x \<notin> set (hist w'))) fresh_world"
  by (rule wp_mono [OF cylance_drops_refused [where e = "GoErr ''closed''"]]) auto

end
