(* ===== verification/K8s_Pods.thy ===== *)
theory K8s_Pods
  imports Line_Adapters
begin

text \<open>
  \<open>k8s_pods\<close>: the log files of the pods of a Kubernetes node. A goroutine watches the directory of the pods, one per pod
  watches its directory of containers, one per container its log files, of which it tails one, and one per tail sends its
  lines to \<open>consumeLogs\<close>, which ships them. A watcher is a function from its state and a message of its channels to the new
  state and what it does; the notifications, the directories and the \<open>tail\<close> package are its arguments. A method of the nil
  tail, closing a nil channel and the text of a nil error panic.
\<close>

section \<open>Paths\<close>

text \<open>\<open>path.Clean\<close> and \<open>path.Join\<close> of two elements.\<close>

definition clean_step :: "bool \<Rightarrow> string \<Rightarrow> string list \<Rightarrow> string list" where
  "clean_step rooted e out =
     (if e = '''' \<or> e = ''.'' then out
      else if e = ''..'' then
        (case out of [] \<Rightarrow> if rooted then [] else [e] | parent # rest \<Rightarrow> if parent = ''..'' then e # out else rest)
      else e # out)"

definition path_Clean :: "string \<Rightarrow> string" where
  "path_Clean p =
     (if p = '''' then ''.''
      else let rooted = (hd p = CHR ''/''); out = rev (fold (clean_step rooted) (split_char (CHR ''/'') p) []) in
        if rooted then ''/'' @ join_with ''/'' out else if out = [] then ''.'' else join_with ''/'' out)"

definition path_Join :: "string \<Rightarrow> string \<Rightarrow> string" where
  "path_Join a b =
     (if a = '''' \<and> b = '''' then '''' else if a = '''' then path_Clean b else if b = '''' then path_Clean a
      else path_Clean (a @ ''/'' @ b))"

text \<open>
  Matching a sequence of \<open>.+\<close> and single characters as \<open>regexp\<close> does: each \<open>.+\<close> takes as much as it can, and gives back
  until the rest matches. The result has the text of each \<open>.+\<close>.
\<close>

datatype re_item = Many | Lit_char char

definition line_len :: "string \<Rightarrow> nat" where
  "line_len s = length (takeWhile (\<lambda>c. c \<noteq> CHR 0x0A) s)"

fun match_many :: "(string \<Rightarrow> string list option) \<Rightarrow> string \<Rightarrow> nat \<Rightarrow> string list option" where
  "match_many rest s 0 = None"
| "match_many rest s (Suc n) =
     (case rest (drop (Suc n) s) of Some gs \<Rightarrow> Some (take (Suc n) s # gs) | None \<Rightarrow> match_many rest s n)"

fun match_items :: "re_item list \<Rightarrow> string \<Rightarrow> string list option" where
  "match_items [] s = Some []"
| "match_items (Lit_char c # items) s = (case s of [] \<Rightarrow> None | x # s' \<Rightarrow> if x = c then match_items items s' else None)"
| "match_items (Many # items) s = match_many (match_items items) s (line_len s)"

fun find_items :: "re_item list \<Rightarrow> string \<Rightarrow> string list option" where
  "find_items items [] = match_items items []"
| "find_items items (x # s) = (case match_items items (x # s) of Some gs \<Rightarrow> Some gs | None \<Rightarrow> find_items items s)"

definition k8sPodPattern :: "re_item list" where
  "k8sPodPattern = [Many, Lit_char (CHR ''/''), Many, Lit_char (CHR ''_''), Many, Lit_char (CHR ''_''), Many]"

section \<open>Pods\<close>

record k8s_entity =
  Namespace :: string
  PodName :: string
  PodID :: string
  ContainerName :: string

record k8s_mtd =
  FileName :: string
  Entity :: k8s_entity

record runtime_options =
  includePods :: "(string \<Rightarrow> bool) option"
  excludePods :: "(string \<Rightarrow> bool) option"

datatype fs_op = FsCreate | FsRemove | FsOther

datatype watch_msg = Notified fs_op string | EventsClosed | WatchErr go_err | ErrorsClosed | Stopped

text \<open>What a watcher does: it starts the goroutines of a pod, a container or a tail, stops them, or reports.\<close>

datatype k8s_act =
    StartPod k8s_mtd
  | StartContainer k8s_mtd
  | StopContainer string
  | StartTail k8s_mtd
  | StopTail string
  | Report go_err

datatype 's going = Goes 's | Ends | Crashes string

definition pod_mtd :: "string \<Rightarrow> k8s_mtd option" where
  "pod_mtd podPath =
     (case find_items k8sPodPattern podPath of
        Some [_, ns, pod, pid] \<Rightarrow>
          if ns = '''' \<or> pod = '''' \<or> pid = '''' then None
          else Some \<lparr>FileName = podPath, Entity = \<lparr>Namespace = ns, PodName = pod, PodID = pid, ContainerName = ''''\<rparr>\<rparr>
      | _ \<Rightarrow> None)"

definition wanted :: "runtime_options \<Rightarrow> string \<Rightarrow> bool" where
  "wanted rt name \<longleftrightarrow> (case includePods rt of None \<Rightarrow> True | Some re \<Rightarrow> re name) \<and>
     (case excludePods rt of None \<Rightarrow> True | Some re \<Rightarrow> \<not> re name)"

text \<open>What is done for the path of a pod; \<open>running\<close> is the map of the code.\<close>

definition pod_found :: "runtime_options \<Rightarrow> string list \<Rightarrow> string \<Rightarrow> k8s_act list" where
  "pod_found rt running podPath =
     (if podPath \<in> set running then []
      else (case pod_mtd podPath of
              None \<Rightarrow> []
            | Some mtd \<Rightarrow> if wanted rt (PodName (Entity mtd)) then [StartPod mtd] else []))"

text \<open>The entries of a directory, with whether they are directories; \<open>None\<close> when it cannot be read.\<close>

type_synonym dir_entries = "(string \<times> bool) list option"

definition scan_pods :: "runtime_options \<Rightarrow> string \<Rightarrow> string list \<Rightarrow> dir_entries \<Rightarrow> k8s_act list" where
  "scan_pods rt root running entries =
     (case entries of
        None \<Rightarrow> []
      | Some files \<Rightarrow> concat (map (\<lambda>(name, isDir). if \<not> isDir then [] else pod_found rt running (path_Join root name)) files))"

definition root_msg :: "runtime_options \<Rightarrow> string list \<Rightarrow> watch_msg \<Rightarrow> k8s_act list \<times> string list going" where
  "root_msg rt running msg =
     (case msg of
        Notified op name \<Rightarrow> (if op \<noteq> FsCreate then [] else pod_found rt running name, Goes running)
      | EventsClosed \<Rightarrow> ([], Ends)
      | WatchErr e \<Rightarrow> ([Report (GoWrap ''error watching root %s: %v'' e)], Goes running)
      | ErrorsClosed \<Rightarrow> ([], Crashes ''nil pointer dereference'')
      | Stopped \<Rightarrow> ([], Ends))"

text \<open>A watcher over a sequence of messages.\<close>

fun watch :: "('s \<Rightarrow> 'm \<Rightarrow> k8s_act list \<times> 's going) \<Rightarrow> 's \<Rightarrow> 'm list \<Rightarrow> k8s_act list \<times> 's going" where
  "watch f s [] = ([], Goes s)"
| "watch f s (m # ms) =
     (case f s m of
        (acts, Goes s') \<Rightarrow> (case watch f s' ms of (acts', g) \<Rightarrow> (acts @ acts', g))
      | (acts, g) \<Rightarrow> (acts, g))"

text \<open>The map \<open>running\<close> is empty and nothing is ever put in it.\<close>

definition watchForPods :: "runtime_options \<Rightarrow> string \<Rightarrow> dir_entries \<Rightarrow> watch_msg list \<Rightarrow> k8s_act list \<times> string list going" where
  "watchForPods rt root entries msgs =
     (let running = [] in case watch (root_msg rt) running msgs of (acts, g) \<Rightarrow> (scan_pods rt root running entries @ acts, g))"

section \<open>Containers\<close>

definition container_mtd :: "k8s_mtd \<Rightarrow> string \<Rightarrow> string \<Rightarrow> k8s_mtd" where
  "container_mtd mtd containerPath name =
     mtd\<lparr>FileName := containerPath, Entity := (Entity mtd)\<lparr>ContainerName := last (split_char (CHR ''/'') name)\<rparr>\<rparr>"

text \<open>The containers a pod watcher has a channel for.\<close>

fun scan_containers :: "k8s_mtd \<Rightarrow> (string \<times> bool) list \<Rightarrow> string list \<Rightarrow> k8s_act list \<times> string list" where
  "scan_containers mtd [] running = ([], running)"
| "scan_containers mtd ((name, isDir) # files) running =
     (let containerPath = path_Join (FileName mtd) name in
      if \<not> isDir \<or> containerPath \<in> set running then scan_containers mtd files running
      else (case scan_containers mtd files (running @ [containerPath]) of
              (acts, running') \<Rightarrow> (StartContainer (container_mtd mtd containerPath name) # acts, running')))"

definition pod_msg :: "k8s_mtd \<Rightarrow> string list \<Rightarrow> watch_msg \<Rightarrow> k8s_act list \<times> string list going" where
  "pod_msg mtd running msg =
     (case msg of
        Notified op containerPath \<Rightarrow>
          if op = FsRemove then
            (if containerPath = FileName mtd then (map StopContainer running, Ends)
             else if containerPath \<in> set running then ([StopContainer containerPath], Goes (removeAll containerPath running))
             else ([], Crashes ''close of nil channel''))
          else if op \<noteq> FsCreate \<or> containerPath \<in> set running then ([], Goes running)
          else ([StartContainer (container_mtd mtd containerPath containerPath)], Goes (running @ [containerPath]))
      | EventsClosed \<Rightarrow> (map StopContainer running, Ends)
      | WatchErr e \<Rightarrow> ([Report (GoWrap ''error from pod watch %s: %v'' e)], Goes running)
      | ErrorsClosed \<Rightarrow> (map StopContainer running, Ends)
      | Stopped \<Rightarrow> (map StopContainer running, Ends))"

text \<open>\<open>watch_err\<close> is the error of making the watcher or of adding the directory to it.\<close>

definition watchPod :: "go_err option \<Rightarrow> k8s_mtd \<Rightarrow> dir_entries \<Rightarrow> watch_msg list \<Rightarrow> k8s_act list \<times> string list going" where
  "watchPod watch_err mtd entries msgs =
     (case watch_err of
        Some e \<Rightarrow> ([Report e], Ends)
      | None \<Rightarrow>
          (case scan_containers mtd (case entries of None \<Rightarrow> [] | Some files \<Rightarrow> files) [] of
             (acts, running) \<Rightarrow> (case watch (pod_msg mtd) running msgs of (acts', g) \<Rightarrow> (acts @ acts', g))))"

section \<open>Log files\<close>

text \<open>The tail of the container by its path, \<open>None\<close> when it is nil, and the name \<open>currentLog\<close>.\<close>

record container_state =
  curFile :: "string option"
  currentLog :: string

text \<open>The entries of the directory: whether they are directories, and the time of modification where it is known.\<close>

fun latest_log :: "(string \<times> bool \<times> time option) list \<Rightarrow> string \<times> time \<Rightarrow> string" where
  "latest_log [] best = fst best"
| "latest_log ((name, isDir, info) # files) best =
     (if isDir then latest_log files best
      else (case info of
              None \<Rightarrow> latest_log files best
            | Some mod_time \<Rightarrow> latest_log files (if mod_time > snd best then (name, mod_time) else best)))"

definition prime_log ::
    "k8s_mtd \<Rightarrow> (string \<times> bool \<times> time option) list \<Rightarrow> go_err option \<Rightarrow> k8s_act list \<times> container_state" where
  "prime_log mtd files tail_err =
     (let latestLog = latest_log files ('''', zero_time); logPath = path_Join (FileName mtd) latestLog in
      if latestLog = '''' then ([], \<lparr>curFile = None, currentLog = ''''\<rparr>)
      else (case tail_err of
              Some e \<Rightarrow> ([Report (GoWrap ''error tailing %s: %v'' e)], \<lparr>curFile = None, currentLog = ''''\<rparr>)
            | None \<Rightarrow> ([StartTail (mtd\<lparr>FileName := logPath\<rparr>)], \<lparr>curFile = Some logPath, currentLog = logPath\<rparr>)))"

text \<open>A message with the result of opening a tail, should it be opened.\<close>

definition container_msg ::
    "k8s_mtd \<Rightarrow> container_state \<Rightarrow> watch_msg \<times> go_err option \<Rightarrow> k8s_act list \<times> container_state going" where
  "container_msg mtd s = (\<lambda>(msg, tail_err).
     (case msg of
        Notified op logPath \<Rightarrow>
          if op = FsRemove then
            (case curFile s of Some p \<Rightarrow> ([StopTail p], Goes s) | None \<Rightarrow> ([], Crashes ''nil pointer dereference''))
          else if op \<noteq> FsCreate \<or> logPath = currentLog s then ([], Goes s)
          else
            (let stops = (case curFile s of Some p \<Rightarrow> [StopTail p] | None \<Rightarrow> []) in
             case tail_err of
               Some e \<Rightarrow> (stops @ [Report (GoWrap ''error tailing log %s: %v'' e)], Goes (s\<lparr>curFile := None\<rparr>))
             | None \<Rightarrow> (stops @ [StartTail (mtd\<lparr>FileName := logPath\<rparr>)], Goes (s\<lparr>curFile := Some logPath\<rparr>)))
      | EventsClosed \<Rightarrow> ([], Ends)
      | WatchErr e \<Rightarrow> ([Report (GoWrap ''error from container watch %s: %v'' e)], Goes s)
      | ErrorsClosed \<Rightarrow> ([], Ends)
      | Stopped \<Rightarrow>
          (case curFile s of Some p \<Rightarrow> ([StopTail p], Ends) | None \<Rightarrow> ([], Crashes ''nil pointer dereference''))))"

definition watchContainer ::
    "go_err option \<Rightarrow> k8s_mtd \<Rightarrow> (string \<times> bool \<times> time option) list option \<Rightarrow> go_err option \<Rightarrow> (watch_msg \<times> go_err option) list \<Rightarrow>
     k8s_act list \<times> container_state going" where
  "watchContainer watch_err mtd entries tail_err msgs =
     (case watch_err of
        Some e \<Rightarrow> ([Report e], Ends)
      | None \<Rightarrow>
          (case (case entries of None \<Rightarrow> ([], \<lparr>curFile = None, currentLog = ''''\<rparr>) | Some files \<Rightarrow> prime_log mtd files tail_err) of
             (acts, s) \<Rightarrow> (case watch (container_msg mtd) s msgs of (acts', g) \<Rightarrow> (acts @ acts', g))))"

section \<open>Lines\<close>

record k8s_line =
  ll_Entity :: k8s_entity
  ll_Line :: string

text \<open>The lines a tail gives, sent on until the first error.\<close>

fun processFile :: "k8s_mtd \<Rightarrow> (go_err + string) list \<Rightarrow> k8s_line list \<times> go_err option" where
  "processFile mtd [] = ([], None)"
| "processFile mtd (Inl e # lines) = ([], Some e)"
| "processFile mtd (Inr text # lines) =
     (case processFile mtd lines of (sent, err) \<Rightarrow> (\<lparr>ll_Entity = Entity mtd, ll_Line = text\<rparr> # sent, err))"

definition entity_value :: "k8s_entity \<Rightarrow> gval" where
  "entity_value e = GMap [(''namespace'', GString (Namespace e)), (''pod_name'', GString (PodName e)), (''pod_id'', GString (PodID e)),
     (''container_name'', GString (ContainerName e))]"

text \<open>The entity, a struct, stands as the map of its fields. The message has no time.\<close>

definition k8s_message :: "k8s_line \<Rightarrow> data_message" where
  "k8s_message l = \<lparr>payload = JsonPayload [(''metadata'', entity_value (ll_Entity l)), (''message'', GString (ll_Line l))],
     TimestampMs = 0, EventType = ''''\<rparr>"

text \<open>The result is the lines that are never received.\<close>

fun consumeLogs :: "('q, 'r) env \<Rightarrow> k8s_line list \<Rightarrow> ('q, 'r, k8s_line list) io" where
  "consumeLogs env [] = ret []"
| "consumeLogs env (l # lines) = do {
     err \<leftarrow> ship_retry env (k8s_message l);
     case err of
       Some e \<Rightarrow> do { onError (GoWrap ''Ship(): %v'' e); ret lines }
     | None \<Rightarrow> consumeLogs env lines
   }"

section \<open>The adapter\<close>

record k8s_config =
  k8s_WriteTimeoutSec :: "64 word"
  k8s_Root :: string
  k8s_IncludePodsRE :: string
  k8s_ExcludePodsRE :: string

definition k8s_Validate :: "go_err option \<Rightarrow> k8s_config \<Rightarrow> go_err option" where
  "k8s_Validate client_err c =
     (case client_err of
        Some e \<Rightarrow> Some (GoWrap ''client_options: %v'' e)
      | None \<Rightarrow> if k8s_Root c = '''' then Some (GoErr ''file_path missing'') else None)"

text \<open>\<open>compile\<close> is \<open>regexp.Compile\<close> with \<open>MatchString\<close> of its result.\<close>

definition compile_option ::
    "(string \<Rightarrow> go_err + (string \<Rightarrow> bool)) \<Rightarrow> string \<Rightarrow> string \<Rightarrow> go_err + (string \<Rightarrow> bool) option" where
  "compile_option compile field re =
     (if re = '''' then Inr None else (case compile re of Inl e \<Rightarrow> Inl (GoWrap field e) | Inr f \<Rightarrow> Inr (Some f)))"

text \<open>\<open>NewK8sLogProcessor\<close>: the errors of making the watcher and of adding the root to it.\<close>

definition NewK8sLogProcessor :: "go_err option \<Rightarrow> go_err option \<Rightarrow> go_err option" where
  "NewK8sLogProcessor new_err add_err =
     (case new_err of
        Some e \<Rightarrow> Some (GoWrap ''fsnotify.NewWatcher(): %v'' e)
      | None \<Rightarrow> (case add_err of Some e \<Rightarrow> Some (GoWrap ''rootWatcher.Add(): %v'' e) | None \<Rightarrow> None))"

definition NewK8sPodsAdapter ::
    "(string \<Rightarrow> go_err + (string \<Rightarrow> bool)) \<Rightarrow> go_err option \<Rightarrow> go_err option \<Rightarrow> go_err option \<Rightarrow> k8s_config \<Rightarrow>
     go_err + (duration \<times> runtime_options)" where
  "NewK8sPodsAdapter compile client_err new_err add_err c =
     (case compile_option compile ''include_pods_re: %v'' (k8s_IncludePodsRE c) of
        Inl e \<Rightarrow> Inl e
      | Inr inc \<Rightarrow>
          (case compile_option compile ''exclude_pods_re: %v'' (k8s_ExcludePodsRE c) of
             Inl e \<Rightarrow> Inl e
           | Inr exc \<Rightarrow>
               (case client_err of
                  Some e \<Rightarrow> Inl e
                | None \<Rightarrow>
                    (case NewK8sLogProcessor new_err add_err of
                       Some e \<Rightarrow> Inl e
                     | None \<Rightarrow> Inr (write_timeout (k8s_WriteTimeoutSec c), \<lparr>includePods = inc, excludePods = exc\<rparr>)))))"

definition k8s_Close :: "('q, 'r) env \<Rightarrow> ('q, 'r, go_err option) io" where
  "k8s_Close env = do {
     setStop;
     err1 \<leftarrow> drain env (1 * minute);
     err2 \<leftarrow> closeClient env;
     ret (case err1 of Some e \<Rightarrow> Some e | None \<Rightarrow> err2)
   }"

section \<open>Names of pods\<close>

lemma match_many_at:
  "1 \<le> k \<Longrightarrow> k \<le> n \<Longrightarrow> rest (drop k s) = Some gs \<Longrightarrow> (\<And>m. k < m \<Longrightarrow> m \<le> n \<Longrightarrow> rest (drop m s) = None) \<Longrightarrow>
   match_many rest s n = Some (take k s # gs)"
proof (induction n)
  case (Suc n)
  show ?case
  proof (cases "k = Suc n")
    case True
    with Suc.prems(3) show ?thesis by simp
  next
    case False
    with Suc show ?thesis by simp
  qed
qed simp

lemma match_many_Some: "match_many rest s n = Some gs \<Longrightarrow> \<exists>m gs'. rest (drop m s) = Some gs'"
  by (induction n) (auto split: option.splits)

lemma count_drop: "count_list (drop m s) c \<le> count_list s c"
  by (metis append_take_drop_id count_list_append le_add2)

text \<open>A text without enough of a character cannot match.\<close>

lemma match_items_count: "match_items items s = Some gs \<Longrightarrow> count_list items (Lit_char c) \<le> count_list s c"
proof (induction items s arbitrary: gs rule: match_items.induct)
  case (2 d items s)
  then show ?case by (cases s) (auto split: if_splits)
next
  case (3 items s)
  then obtain m gs' where "match_items items (drop m s) = Some gs'" using match_many_Some by (metis match_items.simps(3))
  with 3 have "count_list items (Lit_char c) \<le> count_list (drop m s) c" by blast
  with count_drop [of m s c] show ?case by simp
qed simp

lemma match_none: "count_list s c < count_list items (Lit_char c) \<Longrightarrow> match_items items s = None"
  using match_items_count [of items s _ c] by (cases "match_items items s") (simp, fastforce)

lemma count_none: "c \<notin> set s \<Longrightarrow> count_list s c = 0"
  by (induction s) auto

lemma line_len_all: "CHR 0x0A \<notin> set s \<Longrightarrow> line_len s = length s"
  by (induction s) (auto simp: line_len_def)

lemma match_field:
  assumes "x \<noteq> ''''" "CHR 0x0A \<notin> set (x @ d # y)" "match_items items (d # y) = Some gs"
    and "count_list y c < count_list items (Lit_char c)"
  shows "match_items (Many # items) (x @ d # y) = Some (x # gs)"
proof -
  have len: "line_len (x @ d # y) = length (x @ d # y)"
    by (rule line_len_all [OF assms(2)])
  have "match_items items (drop m (x @ d # y)) = None" if "length x < m" for m
  proof (rule match_none)
    have "drop m (x @ d # y) = drop (m - length x - 1) y" using that by (simp add: drop_Cons')
    then show "count_list (drop m (x @ d # y)) c < count_list items (Lit_char c)"
      using count_drop [of "m - length x - 1" y c] assms(4) by simp
  qed
  moreover have "1 \<le> length x" using assms(1) by (cases x) auto
  ultimately have "match_many (match_items items) (x @ d # y) (length (x @ d # y)) = Some (take (length x) (x @ d # y) # gs)"
    using assms(3) by (intro match_many_at) simp_all
  then show ?thesis by (simp add: len)
qed

lemma match_last: "x \<noteq> '''' \<Longrightarrow> CHR 0x0A \<notin> set x \<Longrightarrow> match_items [Many] x = Some [x]"
  using match_many_at [of "length x" "length x" "match_items []" x "[]"]
  by (simp add: line_len_all Suc_leI)

text \<open>The characters of a name: not empty, and none that separates.\<close>

definition plain_name :: "string \<Rightarrow> bool" where
  "plain_name s \<longleftrightarrow> s \<noteq> '''' \<and> CHR ''/'' \<notin> set s \<and> CHR ''_'' \<notin> set s \<and> CHR 0x0A \<notin> set s"

text \<open>C18: from the path of a pod, whose last part is a namespace, a name and an identifier with underscores between, the
  watcher takes exactly these three, whatever the directory before it is called.\<close>

theorem pod_mtd_parts:
  assumes "root \<noteq> ''''" "CHR 0x0A \<notin> set root" "plain_name ns" "plain_name pod" "plain_name pid"
  shows "pod_mtd (root @ ''/'' @ ns @ ''_'' @ pod @ ''_'' @ pid) =
    Some \<lparr>FileName = root @ ''/'' @ ns @ ''_'' @ pod @ ''_'' @ pid,
          Entity = \<lparr>Namespace = ns, PodName = pod, PodID = pid, ContainerName = ''''\<rparr>\<rparr>"
proof -
  let ?u = "CHR ''_''"
  have m3: "match_items [Many] pid = Some [pid]" using assms(5) by (intro match_last) (auto simp: plain_name_def)
  have m2: "match_items [Many, Lit_char ?u, Many] (pod @ ?u # pid) = Some [pod, pid]"
    using assms(4,5) m3 by (intro match_field [where c = "?u"]) (auto simp: plain_name_def count_none)
  have m1: "match_items [Many, Lit_char ?u, Many, Lit_char ?u, Many] (ns @ ?u # pod @ ?u # pid) = Some [ns, pod, pid]"
    using assms(3-5) m2 by (intro match_field [where c = "?u"]) (auto simp: plain_name_def count_none)
  have "match_items k8sPodPattern (root @ CHR ''/'' # ns @ ?u # pod @ ?u # pid) = Some [root, ns, pod, pid]"
    unfolding k8sPodPattern_def using assms m1
    by (intro match_field [where c = "CHR ''/''"]) (auto simp: plain_name_def count_none)
  moreover obtain x xs where "root = x # xs" using assms(1) by (cases root) auto
  ultimately have "find_items k8sPodPattern (root @ CHR ''/'' # ns @ ?u # pod @ ?u # pid) = Some [root, ns, pod, pid]" by simp
  then show ?thesis using assms(3-5) by (simp add: pod_mtd_def plain_name_def)
qed

lemma pod_mtd_parts_witness:
  "pod_mtd ''/var/log/pods/kube-system_dns-1_0a'' =
    Some \<lparr>FileName = ''/var/log/pods/kube-system_dns-1_0a'',
          Entity = \<lparr>Namespace = ''kube-system'', PodName = ''dns-1'', PodID = ''0a'', ContainerName = ''''\<rparr>\<rparr>"
  using pod_mtd_parts [of "''/var/log/pods''" "''kube-system''" "''dns-1''" "''0a''"] by (simp add: plain_name_def)

section \<open>One tail per container\<close>

text \<open>The tails that run after some acts, when \<open>L\<close> run before.\<close>

fun tails_after :: "string list \<Rightarrow> k8s_act list \<Rightarrow> string list" where
  "tails_after L [] = L"
| "tails_after L (StartTail m # acts) = tails_after (FileName m # L) acts"
| "tails_after L (StopTail p # acts) = tails_after (removeAll p L) acts"
| "tails_after L (_ # acts) = tails_after L acts"

lemma tails_after_append: "tails_after L (acts @ acts') = tails_after (tails_after L acts) acts'"
  by (induction L acts rule: tails_after.induct) simp_all

definition never_two :: "string list \<Rightarrow> k8s_act list \<Rightarrow> bool" where
  "never_two L acts \<longleftrightarrow> (\<forall>k. length (tails_after L (take k acts)) \<le> 1)"

lemma never_two_Nil: "never_two L [] \<longleftrightarrow> length L \<le> 1"
  by (simp add: never_two_def)

lemma never_two_Cons: "never_two L (a # acts) \<longleftrightarrow> length L \<le> 1 \<and> never_two (tails_after L [a]) acts"
proof -
  have "tails_after L (take (Suc k) (a # acts)) = tails_after (tails_after L [a]) (take k acts)" for k
    by (cases a) simp_all
  then have "(\<forall>k. length (tails_after L (take (Suc k) (a # acts))) \<le> 1) \<longleftrightarrow> never_two (tails_after L [a]) acts"
    by (simp add: never_two_def)
  then show ?thesis unfolding never_two_def by (metis not0_implies_Suc take0 tails_after.simps(1))
qed

lemma never_two_append: "never_two L acts \<Longrightarrow> never_two (tails_after L acts) acts' \<Longrightarrow> never_two L (acts @ acts')"
proof (induction acts arbitrary: L)
  case (Cons a acts)
  have "tails_after L (a # acts) = tails_after (tails_after L [a]) acts" by (cases a) simp_all
  with Cons show ?case by (simp only: never_two_Cons append_Cons)
qed simp

definition tail_inv :: "container_state \<Rightarrow> string list \<Rightarrow> bool" where
  "tail_inv s L \<longleftrightarrow> L = [] \<or> (\<exists>p. curFile s = Some p \<and> L = [p])"

lemma container_msg_inv:
  assumes "tail_inv s L" "container_msg mtd s m = (acts, g)"
  shows "never_two L acts \<and> (\<forall>s'. g = Goes s' \<longrightarrow> tail_inv s' (tails_after L acts))"
  using assms
  by (cases m; cases "fst m"; cases "curFile s")
    (auto simp: container_msg_def tail_inv_def never_two_Cons never_two_Nil Let_def split: if_splits option.splits)

lemma watch_container_inv:
  "tail_inv s L \<Longrightarrow> never_two L (fst (watch (container_msg mtd) s msgs))"
proof (induction msgs arbitrary: s L)
  case Nil
  then show ?case by (auto simp: never_two_Nil tail_inv_def)
next
  case (Cons m msgs)
  obtain acts g where g: "container_msg mtd s m = (acts, g)" by fastforce
  note inv = container_msg_inv [OF Cons.prems g]
  show ?case
  proof (cases g)
    case (Goes s')
    obtain acts' g' where w: "watch (container_msg mtd) s' msgs = (acts', g')" by fastforce
    have "never_two (tails_after L acts) acts'" using Cons.IH [of s'] inv Goes w by simp
    with inv g w Goes show ?thesis by (simp add: never_two_append)
  qed (use inv g in simp_all)
qed

text \<open>C17: at no moment does the watcher of a container have two tails running: before it opens the tail of another log it
  stops the one it has, whatever the notifications, their order and the errors of opening.\<close>

theorem k8s_one_tail:
  "length (tails_after [] (take k (fst (watchContainer watch_err mtd entries tail_err msgs)))) \<le> 1"
proof (cases watch_err)
  case (Some e)
  then show ?thesis by (cases k) (simp_all add: watchContainer_def)
next
  case None
  obtain acts s where p: "(case entries of None \<Rightarrow> ([], \<lparr>curFile = None, currentLog = ''''\<rparr>)
      | Some files \<Rightarrow> prime_log mtd files tail_err) = (acts, s)" by fastforce
  then have "tail_inv s (tails_after [] acts)" "never_two [] acts"
    by (auto simp: prime_log_def tail_inv_def never_two_Cons never_two_Nil Let_def split: option.splits if_splits)
  then have "never_two [] (acts @ fst (watch (container_msg mtd) s msgs))"
    by (intro never_two_append watch_container_inv)
  moreover obtain acts' g where "watch (container_msg mtd) s msgs = (acts', g)" by fastforce
  ultimately show ?thesis using None p by (simp add: watchContainer_def never_two_def del: take_append)
qed

section \<open>Rotation and removal of logs\<close>

text \<open>When the log that is tailed is rotated, that is renamed and created again under its name, the watcher turns to the
  renamed file and ignores the new log: from then on the lines of the container are not read.\<close>

theorem k8s_rotation_loses:
  assumes "curFile s = Some log" "currentLog s = log" "renamed \<noteq> log"
  shows "watch (container_msg mtd) s [(Notified FsCreate renamed, None), (Notified FsCreate log, None)] =
    ([StopTail log, StartTail (mtd\<lparr>FileName := renamed\<rparr>)], Goes (s\<lparr>curFile := Some renamed\<rparr>))"
  using assms by (simp add: container_msg_def Let_def)

lemma k8s_rotation_loses_witness:
  "watch (container_msg \<lparr>FileName = ''/c'', Entity = \<lparr>Namespace = '''', PodName = '''', PodID = '''', ContainerName = ''c''\<rparr>\<rparr>)
     \<lparr>curFile = Some ''/c/0.log'', currentLog = ''/c/0.log''\<rparr>
     [(Notified FsCreate ''/c/0.log.1'', None), (Notified FsCreate ''/c/0.log'', None)] =
   ([StopTail ''/c/0.log'', StartTail \<lparr>FileName = ''/c/0.log.1'',
      Entity = \<lparr>Namespace = '''', PodName = '''', PodID = '''', ContainerName = ''c''\<rparr>\<rparr>],
    Goes \<lparr>curFile = Some ''/c/0.log.1'', currentLog = ''/c/0.log''\<rparr>)"
  by (subst k8s_rotation_loses) simp_all

text \<open>The removal of any file of the directory stops the tail of the container, whichever log it reads, and nothing
  restarts it until a log with another name is created.\<close>

theorem k8s_removal_stops_tail:
  assumes "curFile s = Some log" "tail_inv s L" "other \<noteq> log"
  shows "\<exists>acts. watch (container_msg mtd) s [(Notified FsRemove other, None), (Notified FsCreate (currentLog s), None)] = (acts, Goes s) \<and>
    tails_after L acts = []"
  using assms by (auto simp: container_msg_def tail_inv_def)

section \<open>Pods watched\<close>

text \<open>A pod directory that is there when the watcher starts, and is announced by a notification as well, gets two
  watchers, so that its lines are shipped twice: the map that is asked whether it is watched is never written.\<close>

theorem k8s_pod_watched_twice:
  assumes "(name, True) \<in> set files" "pod_mtd (path_Join root name) = Some mtd" "wanted rt (PodName (Entity mtd))"
  shows "count_list (fst (watchForPods rt root (Some files) [Notified FsCreate (path_Join root name)])) (StartPod mtd) \<ge> 2"
proof -
  let ?f = "\<lambda>(name, isDir). if \<not> isDir then [] else pod_found rt [] (path_Join root name)"
  have found: "pod_found rt [] (path_Join root name) = [StartPod mtd]" using assms(2,3) by (simp add: pod_found_def)
  obtain as bs where "files = as @ (name, True) # bs" using assms(1) by (auto dest: split_list)
  then have "count_list (concat (map ?f files)) (StartPod mtd) \<ge> 1" by (simp add: found)
  then show ?thesis by (simp add: watchForPods_def scan_pods_def root_msg_def found)
qed

lemma pod_mtd_FileName: "pod_mtd p = Some m \<Longrightarrow> FileName m = p"
  by (auto simp: pod_mtd_def split: option.splits list.splits if_splits)

definition well_watched :: "runtime_options \<Rightarrow> k8s_mtd \<Rightarrow> bool" where
  "well_watched rt mtd \<longleftrightarrow> wanted rt (PodName (Entity mtd)) \<and> pod_mtd (FileName mtd) = Some mtd"

lemma pod_found_ok: "StartPod mtd \<in> set (pod_found rt running p) \<Longrightarrow> well_watched rt mtd \<and> FileName mtd = p"
  by (cases "pod_mtd p") (auto simp: pod_found_def well_watched_def pod_mtd_FileName split: if_splits)

lemma root_msg_ok:
  "root_msg rt running m = (acts, g) \<Longrightarrow> StartPod mtd \<in> set acts \<Longrightarrow> well_watched rt mtd \<and> m = Notified FsCreate (FileName mtd)"
  by (cases m) (auto simp: root_msg_def dest: pod_found_ok split: if_splits)

lemma root_watch_ok:
  "StartPod mtd \<in> set (fst (watch (root_msg rt) running msgs)) \<Longrightarrow> well_watched rt mtd \<and> Notified FsCreate (FileName mtd) \<in> set msgs"
proof (induction msgs arbitrary: running)
  case (Cons m msgs)
  obtain acts g where g: "root_msg rt running m = (acts, g)" by fastforce
  show ?case
  proof (cases "StartPod mtd \<in> set acts")
    case True
    then show ?thesis using root_msg_ok [OF g] by simp
  next
    case False
    then obtain r where "g = Goes r" "StartPod mtd \<in> set (fst (watch (root_msg rt) r msgs))"
      using Cons.prems g by (cases g) (auto split: prod.splits)
    then show ?thesis using Cons.IH by simp
  qed
qed simp

text \<open>Every pod that is watched is one the filters of the configuration let through, and what is known of it comes from
  its path, which the directory listing or a notification gave.\<close>

theorem k8s_pods_filtered:
  assumes "StartPod mtd \<in> set (fst (watchForPods rt root entries msgs))"
  shows "wanted rt (PodName (Entity mtd)) \<and> pod_mtd (FileName mtd) = Some mtd \<and>
    (Notified FsCreate (FileName mtd) \<in> set msgs \<or>
     (\<exists>files name. entries = Some files \<and> (name, True) \<in> set files \<and> FileName mtd = path_Join root name))"
proof -
  obtain acts g where w: "watch (root_msg rt) [] msgs = (acts, g)" by fastforce
  then consider "StartPod mtd \<in> set acts" | "StartPod mtd \<in> set (scan_pods rt root [] entries)"
    using assms by (auto simp: watchForPods_def)
  then show ?thesis
  proof cases
    case 1
    then show ?thesis using root_watch_ok [of mtd rt "[]" msgs] w by (simp add: well_watched_def)
  next
    case 2
    then obtain files name where "entries = Some files" "(name, True) \<in> set files" "StartPod mtd \<in> set (pod_found rt [] (path_Join root name))"
      by (auto simp: scan_pods_def split: option.splits if_splits)
    then show ?thesis using pod_found_ok by (fastforce simp: well_watched_def)
  qed
qed

text \<open>What the adapter ships is a beginning of the lines the tails sent, in their order, each with the pod and container it
  comes from. After a line that could not be shipped no line is received any more.\<close>

theorem k8s_lines_in_order:
  "wp (consumeLogs env lines) (\<lambda>rest w'. \<exists>k. delivered (hist w') = delivered (hist w) @ map (payload \<circ> k8s_message) (take k lines) \<and>
     (k = length lines \<and> rest = [] \<or> k < length lines \<and> rest = drop (Suc k) lines)) w"
proof (induction lines arbitrary: w)
  case (Cons l lines)
  let ?Q = "\<lambda>rest w'. \<exists>k. delivered (hist w') = delivered (hist w) @ map (payload \<circ> k8s_message) (take k (l # lines)) \<and>
     (k = length (l # lines) \<and> rest = [] \<or> k < length (l # lines) \<and> rest = drop (Suc k) (l # lines))"
  have go: "wp (consumeLogs env lines) ?Q w1" if "delivered (hist w1) = delivered (hist w) @ [payload (k8s_message l)]" for w1
  proof (rule wp_mono [OF Cons.IH])
    fix rest w'
    assume "\<exists>k. delivered (hist w') = delivered (hist w1) @ map (payload \<circ> k8s_message) (take k lines) \<and>
      (k = length lines \<and> rest = [] \<or> k < length lines \<and> rest = drop (Suc k) lines)"
    then obtain k where "delivered (hist w') = delivered (hist w1) @ map (payload \<circ> k8s_message) (take k lines)"
      "k = length lines \<and> rest = [] \<or> k < length lines \<and> rest = drop (Suc k) lines" by blast
    with that show "?Q rest w'" by (intro exI [of _ "Suc k"]) auto
  qed
  have stop: "wp (do { onError e; ret lines }) ?Q w1" if "delivered (hist w1) = delivered (hist w)" for w1 e
    using that by (simp add: wp_simps)
  have "wp (ship_retry env (k8s_message l)) (\<lambda>err w1. delivered (hist w1) =
      delivered (hist w) @ (if err = None then [payload (k8s_message l)] else [])) w"
    by (auto simp: ship_retry_def wp_simps split: option.split)
  then show ?case
    unfolding consumeLogs.simps
  proof (rule wp_bindI)
    fix err :: "go_err option" and w1 :: "('a, 'b) world"
    assume "delivered (hist w1) = delivered (hist w) @ (if err = None then [payload (k8s_message l)] else [])"
    then show "wp (case err of Some e \<Rightarrow> do { onError (GoWrap ''Ship(): %v'' e); ret lines } | None \<Rightarrow> consumeLogs env lines) ?Q w1"
      using go stop by (cases err) simp_all
  qed
qed (simp add: wp_ret)

text \<open>A container whose directory has no log yet crashes the program when its pod is removed or the adapter is closed,
  and so does the removal of any file that is not a watched container from the directory of a pod.\<close>

theorem k8s_panics:
  "snd (watchContainer None mtd (Some []) tail_err [(Stopped, e)]) = Crashes ''nil pointer dereference'' \<and>
   snd (watchPod None mtd (Some [(name, False)]) [Notified FsRemove (FileName mtd @ ''/'' @ name)]) = Crashes ''close of nil channel''"
  by (simp add: watchContainer_def prime_log_def container_msg_def watchPod_def pod_msg_def Let_def)

section \<open>Concrete pods\<close>

definition demo_rt :: runtime_options where
  "demo_rt = \<lparr>includePods = None, excludePods = Some (\<lambda>n. n = ''x'')\<rparr>"

definition demo_pod :: k8s_mtd where
  "demo_pod = \<lparr>FileName = ''/p/n_a_1'', Entity = \<lparr>Namespace = ''n'', PodName = ''a'', PodID = ''1'', ContainerName = ''''\<rparr>\<rparr>"

lemma k8s_removal_stops_tail_witness:
  "\<exists>acts. watch (container_msg demo_pod) \<lparr>curFile = Some ''/c/1.log'', currentLog = ''/c/0.log''\<rparr>
      [(Notified FsRemove ''/c/1.log.gz'', None), (Notified FsCreate ''/c/0.log'', None)] =
      (acts, Goes \<lparr>curFile = Some ''/c/1.log'', currentLog = ''/c/0.log''\<rparr>) \<and> tails_after [''/c/1.log''] acts = []"
  using k8s_removal_stops_tail [of "\<lparr>curFile = Some ''/c/1.log'', currentLog = ''/c/0.log''\<rparr>" "''/c/1.log''" "[''/c/1.log'']" "''/c/1.log.gz''" demo_pod]
  by (simp add: tail_inv_def)

lemma demo_pod_mtd: "pod_mtd (path_Join ''/p'' ''n_a_1'') = Some demo_pod"
  by code_simp

lemma k8s_pod_watched_twice_witness:
  "count_list (fst (watchForPods demo_rt ''/p'' (Some [(''n_a_1'', True)]) [Notified FsCreate (path_Join ''/p'' ''n_a_1'')]))
     (StartPod demo_pod) \<ge> 2"
  by (rule k8s_pod_watched_twice [OF _ demo_pod_mtd]) (simp_all add: wanted_def demo_rt_def demo_pod_def)

lemma k8s_pods_filtered_witness:
  "wanted demo_rt (PodName (Entity demo_pod)) \<and> pod_mtd (FileName demo_pod) = Some demo_pod"
proof -
  have w: "wanted demo_rt (PodName (Entity demo_pod))" by (simp add: wanted_def demo_rt_def demo_pod_def)
  then have "StartPod demo_pod \<in> set (fst (watchForPods demo_rt ''/p'' (Some [(''n_a_1'', True)]) []))"
    using demo_pod_mtd by (simp add: watchForPods_def scan_pods_def pod_found_def)
  from k8s_pods_filtered [OF this] show ?thesis by blast
qed

end
