(* ===== verification/Bitwarden.thy ===== *)
theory Bitwarden
  imports Frame Polling Json_Access
begin

text \<open>
  \<open>bitwarden/client.go\<close>: every half minute the adapter asks for the events from the end of its last fetch to now, and for
  the pages that continue the answer. \<open>oor\<close> is the conversion to \<open>int64\<close> of a number that no \<open>int64\<close> has.
\<close>

section \<open>Configuration\<close>

definition tokenEndpointUS :: string where "tokenEndpointUS = ''https://identity.bitwarden.com/connect/token''"
definition tokenEndpointEU :: string where "tokenEndpointEU = ''https://identity.bitwarden.eu/connect/token''"
definition eventsBaseURLUS :: string where "eventsBaseURLUS = ''https://api.bitwarden.com''"
definition eventsBaseURLEU :: string where "eventsBaseURLEU = ''https://api.bitwarden.eu''"

record bw_config =
  bw_ClientID :: string
  bw_ClientSecret :: string
  bw_Region :: string
  bw_TokenEndpointURL :: string
  bw_EventsBaseURL :: string

definition bw_Validate :: "go_err option \<Rightarrow> bw_config \<Rightarrow> bw_config \<times> go_err option" where
  "bw_Validate client_err c =
     (case client_err of
        Some e \<Rightarrow> (c, Some (GoWrap ''client_options: %v'' e))
      | None \<Rightarrow>
          if bw_ClientID c = '''' then (c, Some (GoErr ''missing client_id''))
          else if bw_ClientSecret c = '''' then (c, Some (GoErr ''missing client_secret''))
          else if bw_TokenEndpointURL c \<noteq> '''' \<or> bw_EventsBaseURL c \<noteq> '''' then
            (c, if bw_TokenEndpointURL c = '''' then Some (GoErr ''token_endpoint_url must be set when events_base_url is provided'')
                else if bw_EventsBaseURL c = '''' then Some (GoErr ''events_base_url must be set when token_endpoint_url is provided'')
                else if bw_Region c \<noteq> '''' then
                  Some (GoErr ''region cannot be set when using custom URLs (token_endpoint_url and events_base_url)'')
                else None)
          else
            (let c' = (if bw_Region c = '''' then c\<lparr>bw_Region := ''us''\<rparr> else c) in
             (c', if bw_Region c' \<noteq> ''us'' \<and> bw_Region c' \<noteq> ''eu'' then Some (GoErr ''invalid region: %s (must be 'us' or 'eu')'')
                  else None)))"

record bw_urls =
  eventsBaseURL :: string
  tokenEndpoint :: string

definition bw_urls_of :: "bw_config \<Rightarrow> bw_urls" where
  "bw_urls_of c =
     (if bw_TokenEndpointURL c \<noteq> '''' \<and> bw_EventsBaseURL c \<noteq> '''' then
        \<lparr>eventsBaseURL = bw_EventsBaseURL c, tokenEndpoint = bw_TokenEndpointURL c\<rparr>
      else if bw_Region c = ''eu'' then \<lparr>eventsBaseURL = eventsBaseURLEU, tokenEndpoint = tokenEndpointEU\<rparr>
      else \<lparr>eventsBaseURL = eventsBaseURLUS, tokenEndpoint = tokenEndpointUS\<rparr>)"

record bw_state =
  bw_accessToken :: string
  tokenExpiry :: time
  lastStartDate :: "time option"

definition bw_new :: bw_state where
  "bw_new = \<lparr>bw_accessToken = '''', tokenExpiry = zero_time, lastStartDate = None\<rparr>"

definition NewBitwardenAdapter :: "go_err option \<Rightarrow> go_err option \<Rightarrow> bw_config \<Rightarrow> go_err + (bw_urls \<times> bw_state)" where
  "NewBitwardenAdapter opts_err client_err c =
     (case bw_Validate opts_err c of
        (c', Some e) \<Rightarrow> Inl e
      | (c', None) \<Rightarrow> (case client_err of Some e \<Rightarrow> Inl e | None \<Rightarrow> Inr (bw_urls_of c', bw_new)))"

definition bw_Close :: "('q, 'r) env \<Rightarrow> ('q, 'r, go_err option) io" where
  "bw_Close env = close_adapter env"

section \<open>Requests\<close>

text \<open>The query of an events request: nothing, a continuation token, or a window, which is sent in whole seconds.\<close>

datatype bw_params = NoParams | Continuation string | Window time time

datatype bw_query =
    BwToken string string string
  | BwEvents string string bw_params

text \<open>Both answers are JSON objects. That reading a body fails is not looked at: what was read is decoded.\<close>

type_synonym 'a bw_io = "(bw_query, dict http, 'a) io"
type_synonym bw_env = "(bw_query, dict http) env"

definition token_valid :: "bw_env \<Rightarrow> bw_state \<Rightarrow> bool bw_io" where
  "token_valid env st =
     (if bw_accessToken st = '''' then ret False else do { t \<leftarrow> now env; ret (t + 5 * minute < tokenExpiry st) })"

definition float_int64 :: "(gfloat \<Rightarrow> int) \<Rightarrow> gfloat \<Rightarrow> int" where
  "float_int64 oor f =
     (case f of
        Dyadic m e \<Rightarrow> (let t = float_trunc m e in if - (2 ^ 63) \<le> t \<and> t < 2 ^ 63 then t else oor f)
      | _ \<Rightarrow> oor f)"

text \<open>\<open>time.Duration(expiresIn) * time.Second\<close>, a signed 64-bit product; an hour where the answer has no number.\<close>

definition expires_in :: "(gfloat \<Rightarrow> int) \<Rightarrow> dict \<Rightarrow> duration" where
  "expires_in oor result =
     (case map_of result ''expires_in'' of
        Some (GFloat64 f) \<Rightarrow> sint (word_of_int (float_int64 oor f) * 1000000000 :: 64 word)
      | _ \<Rightarrow> 3600 * second)"

text \<open>The access token is looked at twice, before and after the lock is taken for writing.\<close>

definition getAccessToken ::
    "bw_env \<Rightarrow> (gfloat \<Rightarrow> int) \<Rightarrow> bw_config \<Rightarrow> bw_urls \<Rightarrow> bw_state \<Rightarrow> ((go_err + string) \<times> bw_state) bw_io" where
  "getAccessToken env oor c u st = do {
     valid \<leftarrow> token_valid env st;
     if valid then ret (Inr (bw_accessToken st), st)
     else do {
       valid2 \<leftarrow> token_valid env st;
       if valid2 then ret (Inr (bw_accessToken st), st)
       else do {
         resp \<leftarrow> call env (BwToken (tokenEndpoint u) (bw_ClientID c) (bw_ClientSecret c));
         case resp of
           NewRequestErr e \<Rightarrow> ret (Inl e, st)
         | DoErr e \<Rightarrow> ret (Inl e, st)
         | Resp code rd bd \<Rightarrow>
             if code \<noteq> 200 then ret (Inl (GoErr ''token request failed with status %d: %s''), st)
             else (case bd of
                     Inl e \<Rightarrow> ret (Inl (GoWrap ''failed to parse token response: %v'' e), st)
                   | Inr result \<Rightarrow>
                       (case map_of result ''access_token'' of
                          Some (GString token) \<Rightarrow> do {
                            t \<leftarrow> now env;
                            ret (Inr token, st\<lparr>bw_accessToken := token, tokenExpiry := t + expires_in oor result\<rparr>)
                          }
                        | _ \<Rightarrow> ret (Inl (GoErr ''access_token missing in response''), st)))
       }
     }
   }"

text \<open>What an answer gives: the items and the next continuation token. A 429 is reported too.\<close>

definition bw_items :: "dict http \<Rightarrow> go_err + (dict list \<times> string)" where
  "bw_items resp =
     (case resp of
        NewRequestErr e \<Rightarrow> Inl e
      | DoErr e \<Rightarrow> Inl e
      | Resp code rd bd \<Rightarrow>
          if code = 429 then Inl (GoErr ''rate limit exceeded (429)'')
          else if code \<noteq> 200 then Inl (GoErr ''API returned status %d: %s'')
          else (case bd of
                  Inl e \<Rightarrow> Inl (GoWrap ''failed to parse response: %v'' e)
                | Inr respData \<Rightarrow>
                    (case map_of respData ''data'' of
                       Some (GSlice dataArray) \<Rightarrow>
                         Inr (concat (map (\<lambda>item. case item of GMap d \<Rightarrow> [d] | _ \<Rightarrow> []) dataArray),
                              string_field respData ''continuationToken'')
                     | _ \<Rightarrow> Inl (GoErr ''missing or invalid 'data' field in response''))))"

definition limited :: "dict http \<Rightarrow> bool" where
  "limited resp = (case resp of Resp code rd bd \<Rightarrow> code = 429 | _ \<Rightarrow> False)"

definition bw_params_of :: "string \<Rightarrow> time \<Rightarrow> bw_state \<Rightarrow> bw_params" where
  "bw_params_of continuationToken endTime st =
     (if continuationToken \<noteq> '''' then Continuation continuationToken
      else (case lastStartDate st of Some start \<Rightarrow> Window start endTime | None \<Rightarrow> NoParams))"

definition bw_makeOneRequest ::
    "bw_env \<Rightarrow> (gfloat \<Rightarrow> int) \<Rightarrow> bw_config \<Rightarrow> bw_urls \<Rightarrow> string \<Rightarrow> time \<Rightarrow> bw_state \<Rightarrow>
     ((go_err + (dict list \<times> string)) \<times> bw_state) bw_io" where
  "bw_makeOneRequest env oor c u continuationToken endTime st = do {
     (token, st1) \<leftarrow> getAccessToken env oor c u st;
     case token of
       Inl e \<Rightarrow> ret (Inl (GoWrap ''failed to get access token: %v'' e), st1)
     | Inr tok \<Rightarrow> do {
         resp \<leftarrow> call env (BwEvents (eventsBaseURL u @ ''/public/events'') tok (bw_params_of continuationToken endTime st1));
         (if limited resp then onWarning ''rate limit exceeded, will retry'' else ret ());
         ret (bw_items resp, st1)
       }
   }"

section \<open>The loop\<close>

text \<open>
  The pages that continue an answer: whether the cycle goes on, \<open>None\<close> when the bound is used up. An error ends the
  pages, but not the cycle.
\<close>

fun bw_pages ::
    "bw_env \<Rightarrow> (gfloat \<Rightarrow> int) \<Rightarrow> bw_config \<Rightarrow> bw_urls \<Rightarrow> time \<Rightarrow> nat \<Rightarrow> string \<Rightarrow> bw_state \<Rightarrow> (bool option \<times> bw_state) bw_io" where
  "bw_pages env oor c u endTime 0 continuationToken st = ret (None, st)"
| "bw_pages env oor c u endTime (Suc fuel) continuationToken st =
     (if continuationToken = '''' then ret (Some True, st)
      else do {
        stopped \<leftarrow> waitFor env 0;
        if stopped then ret (Some False, st)
        else do {
          (r, st1) \<leftarrow> bw_makeOneRequest env oor c u continuationToken endTime st;
          case r of
            Inl e \<Rightarrow> do { onError (GoWrap ''failed to fetch events with continuation: %v'' e); ret (Some True, st1) }
          | Inr (items, newToken) \<Rightarrow> do {
              ok \<leftarrow> ship_items env items;
              if ok then bw_pages env oor c u endTime fuel newToken st1 else ret (Some False, st1)
            }
        }
      })"

text \<open>One cycle: whether the loop goes on.\<close>

definition bw_cycle ::
    "bw_env \<Rightarrow> (gfloat \<Rightarrow> int) \<Rightarrow> bw_config \<Rightarrow> bw_urls \<Rightarrow> nat \<Rightarrow> bw_state \<Rightarrow> (bool option \<times> bw_state) bw_io" where
  "bw_cycle env oor c u fuel st = do {
     endTime \<leftarrow> now env;
     (r, st1) \<leftarrow> bw_makeOneRequest env oor c u '''' endTime st;
     case r of
       Inl e \<Rightarrow> do { onError (GoWrap ''failed to fetch events: %v'' e); ret (Some True, st1) }
     | Inr (items, continuationToken) \<Rightarrow> do {
         ok \<leftarrow> ship_items env items;
         if \<not> ok then ret (Some False, st1)
         else do {
           (goes_on, st2) \<leftarrow> bw_pages env oor c u endTime fuel continuationToken st1;
           ret (goes_on, if goes_on = Some True then st2\<lparr>lastStartDate := Some endTime\<rparr> else st2)
         }
       }
   }"

fun bw_loop :: "bw_env \<Rightarrow> (gfloat \<Rightarrow> int) \<Rightarrow> bw_config \<Rightarrow> bw_urls \<Rightarrow> nat \<Rightarrow> nat \<Rightarrow> bw_state \<Rightarrow> bw_state bw_io" where
  "bw_loop env oor c u fuel 0 st = ret st"
| "bw_loop env oor c u fuel (Suc n) st = do {
     stopped \<leftarrow> waitFor env (30 * second);
     if stopped then ret st
     else do {
       (goes_on, st') \<leftarrow> bw_cycle env oor c u fuel st;
       if goes_on = Some True then bw_loop env oor c u fuel n st' else ret st'
     }
   }"

definition bw_fetchEvents :: "bw_env \<Rightarrow> (gfloat \<Rightarrow> int) \<Rightarrow> bw_config \<Rightarrow> nat \<Rightarrow> nat \<Rightarrow> bw_state bw_io" where
  "bw_fetchEvents env oor c fuel n = bw_loop env oor c (bw_urls_of c) fuel n bw_new"

section \<open>Windows\<close>

text \<open>The windows of the requests that were answered with events, in order.\<close>

fun answered :: "(bw_query, dict http) eff \<Rightarrow> (time \<times> time) list" where
  "answered (ECall (BwEvents u t (Window s e)) r) = (case bw_items r of Inr _ \<Rightarrow> [(s, e)] | Inl _ \<Rightarrow> [])"
| "answered _ = []"

definition answered_windows :: "(bw_query, dict http) history \<Rightarrow> (time \<times> time) list" where
  "answered_windows h = concat (map answered (rev h))"

lemma answered_windows_Cons [simp]: "answered_windows (e # h) = answered_windows h @ answered e"
  by (simp add: answered_windows_def)

fun meets :: "(time \<times> time) list \<Rightarrow> bool" where
  "meets (w1 # w2 # ws) \<longleftrightarrow> fst w2 = snd w1 \<and> meets (w2 # ws)"
| "meets ws \<longleftrightarrow> True"

lemma meets_snoc: "meets (ws @ [v]) \<longleftrightarrow> meets ws \<and> (ws \<noteq> [] \<longrightarrow> fst v = snd (last ws))"
  by (induction ws rule: meets.induct) auto

definition same_windows :: "(bw_query, dict http) world \<Rightarrow> (bw_query, dict http) world \<Rightarrow> bool" where
  "same_windows w w' \<longleftrightarrow> answered_windows (hist w') = answered_windows (hist w)"

interpretation same_windows: frame same_windows
  by unfold_locales (auto simp: same_windows_def)

lemmas same_windows_rules [simp, intro!] = same_windows.rules

lemma same_windows_prims [simp, intro!]:
  "along same_windows (now env)" "along same_windows (onError e)" "along same_windows (onWarning s)"
  "along same_windows (waitFor env d)" "along same_windows (ship env m d)" "along same_windows setStop"
  "along same_windows (call env (BwToken a b c))" "along same_windows (call env (BwEvents u t (Continuation ct)))"
  by (auto intro!: alongI simp: wp_simps same_windows_def)

lemma same_windows_ship_items [simp, intro!]: "along same_windows (ship_items env items)"
  by (induction items) (auto simp: ship_or_stop_def ship_retry_def split: option.split)

lemma same_windows_token [simp, intro!]: "along same_windows (getAccessToken env oor c u st)"
  unfolding getAccessToken_def token_valid_def
  by (auto split: http.split sum.split option.split gval.split)

lemma same_windows_continuation [simp, intro!]:
  "ct \<noteq> '''' \<Longrightarrow> along same_windows (bw_makeOneRequest env oor c u ct endTime st)"
  unfolding bw_makeOneRequest_def bw_params_of_def by (auto split: prod.split sum.split)

lemma same_windows_pages [simp, intro!]: "along same_windows (bw_pages env oor c u endTime fuel ct st)"
  by (induction fuel arbitrary: ct st) (auto split: prod.split sum.split)

lemma token_keeps_start: "yields (\<lambda>(r, st'). lastStartDate st' = lastStartDate st) (getAccessToken env oor c u st)"
  unfolding getAccessToken_def
  by (auto intro!: yields_bind split: http.split sum.split option.split gval.split)

lemma request_keeps_start: "yields (\<lambda>(r, st'). lastStartDate st' = lastStartDate st) (bw_makeOneRequest env oor c u ct endTime st)"
  unfolding bw_makeOneRequest_def
  by (rule yields_bind_after [OF token_keeps_start]) (auto intro!: yields_bind split: sum.split)

lemma pages_keep_start: "yields (\<lambda>(r, st'). lastStartDate st' = lastStartDate st) (bw_pages env oor c u endTime fuel ct st)"
proof (induction fuel arbitrary: ct st)
  case (Suc fuel)
  have "yields (\<lambda>(r, st'). lastStartDate st' = lastStartDate st) (do {
      (r, st1) \<leftarrow> bw_makeOneRequest env oor c u ct endTime st;
      case r of
        Inl e \<Rightarrow> do { onError (GoWrap m e); ret (Some True, st1) }
      | Inr (items, newToken) \<Rightarrow> do {
          ok \<leftarrow> ship_items env items;
          if ok then bw_pages env oor c u endTime fuel newToken st1 else ret (Some False, st1)
        }
    })" for m
  proof (rule yields_bind_after [OF request_keeps_start])
    fix x :: "(go_err + (dict list \<times> string)) \<times> bw_state"
    assume "case x of (r, st') \<Rightarrow> lastStartDate st' = lastStartDate st"
    then obtain r st1 where "x = (r, st1)" "lastStartDate st1 = lastStartDate st" by (cases x) auto
    with Suc [where st = st1] show "yields (\<lambda>(r, st'). lastStartDate st' = lastStartDate st) (case x of (r, st1) \<Rightarrow>
        (case r of
          Inl e \<Rightarrow> do { onError (GoWrap m e); ret (Some True, st1) }
        | Inr (items, newToken) \<Rightarrow> do {
            ok \<leftarrow> ship_items env items;
            if ok then bw_pages env oor c u endTime fuel newToken st1 else ret (Some False, st1)
          }))"
      by (auto intro!: yields_bind split: sum.split prod.split)
  qed
  then show ?case by (auto intro!: yields_bind)
qed simp

definition windows_after :: "bw_state \<Rightarrow> time \<Rightarrow> (go_err + (dict list \<times> string)) \<Rightarrow> (time \<times> time) list" where
  "windows_after st endTime r = (case lastStartDate st of Some s \<Rightarrow> (case r of Inr _ \<Rightarrow> [(s, endTime)] | Inl _ \<Rightarrow> []) | None \<Rightarrow> [])"

lemma first_request_windows:
  "wp (bw_makeOneRequest env oor c u '''' endTime st) (\<lambda>(r, st') w'. lastStartDate st' = lastStartDate st \<and>
     answered_windows (hist w') = answered_windows (hist w) @ windows_after st endTime r) w"
  unfolding bw_makeOneRequest_def wp_bind [of "getAccessToken _ _ _ _ _"]
proof (rule along_wp_and [OF same_windows_token token_keeps_start [unfolded yields_def, rule_format]], goal_cases)
  case (1 x w1)
  obtain t st1 where x: "x = (t, st1)" by fastforce
  with 1 have s: "lastStartDate st1 = lastStartDate st" "answered_windows (hist w1) = answered_windows (hist w)"
    by (auto simp: same_windows_def)
  show ?case
  proof (cases t)
    case (Inl e)
    with s x show ?thesis by (simp add: wp_ret windows_after_def split: option.split)
  next
    case (Inr tok)
    let ?q = "BwEvents (eventsBaseURL u @ ''/public/events'') tok (bw_params_of '''' endTime st1)"
    have "answered (ECall ?q r) = windows_after st endTime (bw_items r)" for r
      using s(1) by (simp add: bw_params_of_def windows_after_def split: option.split sum.split)
    with s x Inr show ?thesis by (simp add: wp_simps)
  qed
qed

text \<open>At the head of the loop, the last answered window ends where the next one begins.\<close>

definition bw_inv :: "bw_state \<Rightarrow> (bw_query, dict http) world \<Rightarrow> bool" where
  "bw_inv st w \<longleftrightarrow> meets (answered_windows (hist w)) \<and>
     (answered_windows (hist w) \<noteq> [] \<longrightarrow> lastStartDate st = Some (snd (last (answered_windows (hist w)))))"

lemma bw_inv_same: "bw_inv st w \<Longrightarrow> same_windows w w' \<Longrightarrow> bw_inv st w'"
  by (simp add: bw_inv_def same_windows_def)

lemma cycle_windows:
  assumes "bw_inv st w"
  shows "wp (bw_cycle env oor c u fuel st)
    (\<lambda>(g, st') w'. meets (answered_windows (hist w')) \<and> (g = Some True \<longrightarrow> bw_inv st' w')) w"
  unfolding bw_cycle_def wp_bind [of "now env"] wp_now wp_bind [of "bw_makeOneRequest _ _ _ _ _ _ _"]
proof (rule wp_mono [OF first_request_windows], goal_cases)
  case (1 x w1)
  let ?t = "e_now env (hist w)"
  obtain r st1 where x: "x = (r, st1)" by fastforce
  let ?ws = "answered_windows (hist w)"
  have ws: "lastStartDate st1 = lastStartDate st" "answered_windows (hist w1) = ?ws @ windows_after st ?t r"
    using 1 by (simp_all add: x)
  have meets1: "meets (answered_windows (hist w1))"
    using assms ws(2) by (auto simp: bw_inv_def windows_after_def meets_snoc split: option.split sum.split)
  show ?case
  proof (cases r)
    case (Inl e)
    then have "bw_inv st1 w1" using assms ws by (auto simp: bw_inv_def windows_after_def split: option.split)
    with Inl x show ?thesis by (simp add: wp_simps bw_inv_def)
  next
    case (Inr y)
    obtain items ct where y: "y = (items, ct)" by fastforce
    have final: "bw_inv (st2\<lparr>lastStartDate := Some ?t\<rparr>) w3" if "same_windows w1 w3" for st2 w3
      using that assms ws Inr meets1
      by (auto simp: bw_inv_def same_windows_def windows_after_def split: option.splits)
    have pages: "wp (do { (g, st2) \<leftarrow> bw_pages env oor c u ?t fuel ct st1;
        ret (g, if g = Some True then st2\<lparr>lastStartDate := Some ?t\<rparr> else st2) })
      (\<lambda>(g, st') w'. meets (answered_windows (hist w')) \<and> (g = Some True \<longrightarrow> bw_inv st' w')) w2" if "same_windows w1 w2" for w2
      unfolding wp_bind
    proof (rule along_wp [OF same_windows_pages], goal_cases)
      case (1 z w3)
      then have "same_windows w1 w3" using that same_windows.trans by blast
      with final meets1 show ?case by (cases z) (simp add: wp_ret same_windows_def)
    qed
    show ?thesis
      unfolding x Inr y prod.case sum.case wp_bind [of "ship_items env items"]
    proof (rule along_wp [OF same_windows_ship_items])
      fix ok w2 assume w2: "same_windows w1 w2"
      with pages [OF this] meets1 show "wp (if \<not> ok then ret (Some False, st1) else do {
          (g, st2) \<leftarrow> bw_pages env oor c u ?t fuel ct st1;
          ret (g, if g = Some True then st2\<lparr>lastStartDate := Some ?t\<rparr> else st2) })
        (\<lambda>(g, st') w'. meets (answered_windows (hist w')) \<and> (g = Some True \<longrightarrow> bw_inv st' w')) w2"
        by (cases ok) (simp_all add: wp_ret same_windows_def)
    qed
  qed
qed

lemma loop_windows: "bw_inv st w \<Longrightarrow> wp (bw_loop env oor c u fuel n st) (\<lambda>st' w'. meets (answered_windows (hist w'))) w"
proof (induction n arbitrary: st w)
  case 0
  then show ?case by (simp add: wp_ret bw_inv_def)
next
  case (Suc n)
  have turn: "wp (do { (g, st') \<leftarrow> bw_cycle env oor c u fuel st; if g = Some True then bw_loop env oor c u fuel n st' else ret st' })
      (\<lambda>st' w'. meets (answered_windows (hist w'))) w1" if "bw_inv st w1" for w1
    by (rule wp_bindI [OF cycle_windows [OF that]]) (auto simp: wp_ret Suc.IH split: prod.splits)
  show ?case
    unfolding bw_loop.simps wp_bind [of "waitFor _ _"]
  proof (rule along_wp [OF same_windows_prims(4)])
    fix stopped w1 assume "same_windows w w1"
    then have "bw_inv st w1" by (rule bw_inv_same [OF Suc.prems])
    with turn [OF this] show "wp (if stopped then ret st else do {
        (g, st') \<leftarrow> bw_cycle env oor c u fuel st; if g = Some True then bw_loop env oor c u fuel n st' else ret st' })
      (\<lambda>st' w'. meets (answered_windows (hist w'))) w1"
      by (cases stopped) (simp_all add: wp_ret bw_inv_def)
  qed
qed

text \<open>C19: the windows the Bitwarden adapter got an answer for follow each other without a gap and without an overlap: each
  begins exactly where the one before it ended, over any failures in between.\<close>

theorem bitwarden_windows_meet:
  "meets (answered_windows (hist (snd (run_state (bw_fetchEvents env oor c fuel n) fresh_world))))"
proof -
  have "wp (bw_fetchEvents env oor c fuel n) (\<lambda>st' w'. meets (answered_windows (hist w'))) fresh_world"
    unfolding bw_fetchEvents_def by (rule loop_windows) (simp add: bw_inv_def answered_windows_def)
  then show ?thesis by (simp add: wp_def split: prod.splits)
qed

text \<open>When the first page of a window is answered and a page that continues it is refused, the adapter takes the window as
  fetched: the next one begins at its end, and the events of the missing pages are not asked for again.\<close>

theorem bitwarden_refused_page_loses:
  assumes "\<And>h a b d. e_call env h (BwToken a b d) = Resp 200 None (Inr [(''access_token'', GString ''t'')])"
    and "\<And>h u t s e. e_call env h (BwEvents u t (Window s e)) = first"
    and "bw_items first = Inr (items, ct)" "ct \<noteq> ''''" "\<not> limited first"
    and "\<And>h u t. e_call env h (BwEvents u t (Continuation ct)) = DoErr err"
    and "\<And>h m d. e_ship env h m d = None" "\<And>h d. \<not> e_stop env h d" "\<not> stop w"
    and "lastStartDate st = Some start"
  shows "wp (bw_cycle env oor c u (Suc fuel) st) (\<lambda>(g, st') w'. g = Some True \<and> lastStartDate st' = Some (e_now env (hist w))) w"
proof -
  let ?t = "e_now env (hist w)"
  have token: "wp (getAccessToken env oor c u st0) (\<lambda>(r, st') w'. (\<exists>tok. r = Inr tok) \<and> lastStartDate st' = lastStartDate st0 \<and> stop w' = stop v) v"
    for st0 v
    using assms(1) by (simp add: getAccessToken_def token_valid_def wp_simps)
  have first: "wp (bw_makeOneRequest env oor c u '''' ?t st) (\<lambda>(r, st') w'. r = Inr (items, ct) \<and> stop w' = stop v) v" for v
    unfolding bw_makeOneRequest_def
    by (rule wp_bindI [OF token]) (use assms(2,3,5,10) in \<open>auto simp: wp_simps bw_params_of_def\<close>)
  have refused: "wp (bw_makeOneRequest env oor c u ct ?t st0) (\<lambda>(r, st') w'. r = Inl err) v" for st0 v
    unfolding bw_makeOneRequest_def
    by (rule wp_bindI [OF token]) (use assms(4,6) in \<open>auto simp: wp_simps bw_params_of_def limited_def bw_items_def\<close>)
  have ships: "wp (ship_items env items) (\<lambda>ok w'. ok \<and> stop w' = stop v) v" for v
  proof (induction items arbitrary: v)
    case (Cons i its)
    let ?v1 = "v\<lparr>hist := EShip (json_message i (e_now env (hist v))) (10 * second) None # ENow (e_now env (hist v)) # hist v\<rparr>"
    from Cons.IH [of ?v1] assms(7) show ?case by (simp add: wp_simps ship_or_stop_def ship_retry_def)
  qed (simp add: wp_ret)
  have pages: "wp (bw_pages env oor c u ?t (Suc fuel) ct st0) (\<lambda>(g, st') w'. g = Some True) v" if "\<not> stop v" for st0 v
  proof -
    have "wp (do {
        (r, st1) \<leftarrow> bw_makeOneRequest env oor c u ct ?t st0;
        case r of
          Inl e \<Rightarrow> do { onError (GoWrap m e); ret (Some True, st1) }
        | Inr (items, newToken) \<Rightarrow> do {
            ok \<leftarrow> ship_items env items;
            if ok then bw_pages env oor c u ?t fuel newToken st1 else ret (Some False, st1)
          }
      }) (\<lambda>(g, st') w'. g = Some True) v'" for v' m
      by (rule wp_bindI [OF refused]) (auto simp: wp_simps)
    then show ?thesis using assms(4,8) that by (simp add: wp_bind [of "waitFor _ _"] wp_stop_ops)
  qed
  have cont: "wp (do { (g, st2) \<leftarrow> bw_pages env oor c u ?t (Suc fuel) ct st0;
      ret (g, if g = Some True then st2\<lparr>lastStartDate := Some ?t\<rparr> else st2) })
    (\<lambda>(g, st') w'. g = Some True \<and> lastStartDate st' = Some ?t) v" if "\<not> stop v" for st0 v
    by (rule wp_bindI [OF pages [OF that]]) (auto simp: wp_ret)
  have shipped: "wp (do { ok \<leftarrow> ship_items env items;
      if \<not> ok then ret (Some False, st0) else do { (g, st2) \<leftarrow> bw_pages env oor c u ?t (Suc fuel) ct st0;
        ret (g, if g = Some True then st2\<lparr>lastStartDate := Some ?t\<rparr> else st2) } })
    (\<lambda>(g, st') w'. g = Some True \<and> lastStartDate st' = Some ?t) v" if "\<not> stop v" for st0 v
    by (rule wp_bindI [OF ships]) (use cont that in simp)
  show ?thesis
    unfolding bw_cycle_def wp_bind [of "now env"] wp_now
    by (rule wp_bindI [OF first]) (use shipped assms(9) in auto)
qed

definition bw_demo_first :: "dict http" where
  "bw_demo_first = Resp 200 None (Inr [(''data'', GSlice [GMap []]), (''continuationToken'', GString ''c'')])"

definition bw_demo_answer :: "bw_query \<Rightarrow> dict http" where
  "bw_demo_answer q =
     (case q of
        BwToken a b d \<Rightarrow> Resp 200 None (Inr [(''access_token'', GString ''t'')])
      | BwEvents u t p \<Rightarrow> (case p of Continuation ct \<Rightarrow> DoErr (GoErr ''down'') | _ \<Rightarrow> bw_demo_first))"

definition bw_demo_config :: bw_config where
  "bw_demo_config = \<lparr>bw_ClientID = ''i'', bw_ClientSecret = ''s'', bw_Region = ''us'', bw_TokenEndpointURL = '''', bw_EventsBaseURL = ''''\<rparr>"

lemma bitwarden_refused_page_loses_witness:
  "wp (bw_cycle (steady_env 9 bw_demo_answer) (\<lambda>_. 0) bw_demo_config (bw_urls_of bw_demo_config) 1 (bw_new\<lparr>lastStartDate := Some 3\<rparr>))
     (\<lambda>(g, st') w'. g = Some True \<and> lastStartDate st' = Some 9) fresh_world"
  using bitwarden_refused_page_loses [of "steady_env 9 bw_demo_answer" bw_demo_first "[[]]" "''c''" "GoErr ''down''" fresh_world
      "bw_new\<lparr>lastStartDate := Some 3\<rparr>" 3 "\<lambda>_. 0" bw_demo_config "bw_urls_of bw_demo_config" 0]
  by (simp add: bw_demo_answer_def bw_demo_first_def bw_items_def limited_def string_field_def)

end
