(* ===== verification/SentinelOne.thy ===== *)
theory SentinelOne
  imports Frame Polling
begin

text \<open>
  \<open>sentinelone/s1.go\<close> and \<open>sdk.go\<close>: one goroutine per endpoint asks for the objects created after the last one it has seen,
  page by page, with retries of transient errors. \<open>s1_format\<close> and \<open>s1_parse\<close> are \<open>Format\<close> and \<open>time.Parse\<close> with the layout
  \<open>2006-01-02T15:04:05.999999Z\<close>.
\<close>

section \<open>Errors and requests\<close>

definition maxRetryAttempts :: int where "maxRetryAttempts = 3"
definition baseRetryDelay :: duration where "baseRetryDelay = 5 * second"
definition s1_maxRetryDelay :: duration where "s1_maxRetryDelay = 30 * second"

text \<open>
  The errors of \<open>GetFromAPI\<close>: an \<open>HTTPError\<close>, and those whose texts begin with \<open>failed to execute request\<close>, \<open>failed to
  read response body\<close> and \<open>failed to decode response\<close>.
\<close>

datatype s1_err = HTTPError nat | ExecErr go_err | BodyErr go_err | DecodeErr go_err

definition s1_isTransientError :: "s1_err \<Rightarrow> bool" where
  "s1_isTransientError err =
     (case err of
        HTTPError code \<Rightarrow> (500 \<le> code \<and> code \<le> 599) \<or> code = 429
      | ExecErr e \<Rightarrow> True
      | BodyErr e \<Rightarrow> False
      | DecodeErr e \<Rightarrow> False)"

record s1_page =
  s1_Data :: "dict list"
  NextCursor :: "string option"

record s1_client =
  s1_baseURL :: string
  s1_apiToken :: string

definition NewSentinelOneClient :: "string \<Rightarrow> string \<Rightarrow> s1_client" where
  "NewSentinelOneClient baseURL apiToken = \<lparr>s1_baseURL = trim_right baseURL (CHR ''/''), s1_apiToken = apiToken\<rparr>"

text \<open>A request: the URL, the query parameters and the token.\<close>

datatype s1_query = S1Get string "(string \<times> string) list" string

type_synonym 'a s1_io = "(s1_query, s1_page http, 'a) io"
type_synonym s1_env = "(s1_query, s1_page http) env"

text \<open>When no request could be made its URL is read from a nil request, which panics.\<close>

definition GetFromAPI_result :: "s1_page http \<Rightarrow> (s1_err + s1_page) option" where
  "GetFromAPI_result resp =
     (case resp of
        NewRequestErr e \<Rightarrow> None
      | DoErr e \<Rightarrow> Some (Inl (ExecErr e))
      | Resp code rd bd \<Rightarrow>
          if code \<noteq> 200 then (case rd of Some e \<Rightarrow> Some (Inl (BodyErr e)) | None \<Rightarrow> Some (Inl (HTTPError code)))
          else (case bd of Inl e \<Rightarrow> Some (Inl (DecodeErr e)) | Inr page \<Rightarrow> Some (Inr page)))"

definition GetFromAPI :: "s1_env \<Rightarrow> s1_client \<Rightarrow> string \<Rightarrow> (string \<times> string) list \<Rightarrow> (s1_err + s1_page) option s1_io" where
  "GetFromAPI env cl endpoint opts = do {
     resp \<leftarrow> call env (S1Get (s1_baseURL cl @ endpoint) opts (s1_apiToken cl));
     ret (GetFromAPI_result resp)
   }"

section \<open>Configuration\<close>

record s1_config =
  s1_Domain :: string
  s1_APIKey :: string
  s1_URLs :: string
  s1_StartTime :: string
  TimeBetweenRequests :: duration
  RetryBaseDelay :: duration
  MaxRetryDelay :: duration
  MaxRetryAttempts :: int

definition or_default :: "'a \<Rightarrow> 'a \<Rightarrow> 'a \<Rightarrow> 'a" where
  "or_default zero d x = (if x = zero then d else x)"

definition s1_retry_defaults :: "s1_config \<Rightarrow> s1_config" where
  "s1_retry_defaults c = c\<lparr>RetryBaseDelay := or_default 0 baseRetryDelay (RetryBaseDelay c),
     MaxRetryDelay := or_default 0 s1_maxRetryDelay (MaxRetryDelay c),
     MaxRetryAttempts := or_default 0 maxRetryAttempts (MaxRetryAttempts c)\<rparr>"

definition s1_Validate :: "(string \<Rightarrow> time option) \<Rightarrow> go_err option \<Rightarrow> s1_config \<Rightarrow> s1_config \<times> go_err option" where
  "s1_Validate s1_parse client_err c =
     (case client_err of
        Some e \<Rightarrow> (c, Some (GoWrap ''client_options: %v'' e))
      | None \<Rightarrow>
          if s1_Domain c = '''' then (c, Some (GoErr ''missing domain''))
          else if s1_APIKey c = '''' then (c, Some (GoErr ''missing api_key''))
          else (let d = (if has_prefix (s1_Domain c) ''https://'' then s1_Domain c else ''https://'' @ s1_Domain c);
                    c1 = c\<lparr>s1_Domain := trim_suffix d ''/''\<rparr> in
            if s1_StartTime c \<noteq> '''' \<and> s1_parse (s1_StartTime c) = None then (c1, Some (GoErr ''invalid start_time: %v''))
            else (s1_retry_defaults (c1\<lparr>TimeBetweenRequests := or_default 0 (1 * minute) (TimeBetweenRequests c1)\<rparr>), None)))"

text \<open>The endpoints of the configuration, each with a slash in front.\<close>

definition s1_urls :: "s1_config \<Rightarrow> string list" where
  "s1_urls c =
     map (\<lambda>u. if has_prefix u ''/'' then u else ''/'' @ u)
       (if s1_URLs c = '''' then [''/web/api/v2.1/activities'', ''/web/api/v2.1/cloud-detection/alerts'', ''/web/api/v2.1/threats'']
        else filter (\<lambda>s. s \<noteq> '''') (map trim_space (split_char (CHR '','') (s1_URLs c))))"

text \<open>The constructor does not validate; with no endpoint it closes what it made.\<close>

definition NewSentinelOneAdapter :: "go_err option \<Rightarrow> s1_config \<Rightarrow> go_err + (s1_config \<times> s1_client \<times> string list)" where
  "NewSentinelOneAdapter client_err c =
     (let c1 = s1_retry_defaults c in
      case client_err of
        Some e \<Rightarrow> Inl e
      | None \<Rightarrow> if s1_urls c1 = [] then Inl (GoErr ''no content types specified'')
          else Inr (c1, NewSentinelOneClient (s1_Domain c1) (s1_APIKey c1), s1_urls c1))"

definition s1_Close :: "('q, 'r) env \<Rightarrow> ('q, 'r, go_err option) io" where
  "s1_Close env = close_adapter env"

section \<open>Fetching\<close>

text \<open>\<open>RetryBaseDelay * time.Duration(1<<attempt)\<close>, a signed 64-bit product, and the cap.\<close>

definition s1_retryDelay :: "s1_config \<Rightarrow> nat \<Rightarrow> duration" where
  "s1_retryDelay c attempts_done =
     (let d = sint (word_of_int (RetryBaseDelay c) * push_bit attempts_done 1 :: 64 word)
      in if d > MaxRetryDelay c then MaxRetryDelay c else d)"

text \<open>What the retry loop gives: a page, an error after the last attempt (none when there was no attempt), a return of the
  goroutine, or a panic. \<open>n\<close> attempts are left.\<close>

datatype s1_result = Got s1_page | Gave "s1_err option" | Quit | Crash

fun s1_get ::
    "s1_env \<Rightarrow> s1_client \<Rightarrow> s1_config \<Rightarrow> string \<Rightarrow> (string \<times> string) list \<Rightarrow> nat \<Rightarrow> nat \<Rightarrow> s1_result s1_io" where
  "s1_get env cl c endpoint q 0 k = ret (Gave None)"
| "s1_get env cl c endpoint q (Suc n) k = do {
     stopped \<leftarrow> waitFor env 0;
     if stopped then ret Quit
     else do {
       r \<leftarrow> GetFromAPI env cl endpoint q;
       case r of
         None \<Rightarrow> ret Crash
       | Some (Inr page) \<Rightarrow> ret (Got page)
       | Some (Inl err) \<Rightarrow>
           if \<not> s1_isTransientError err then do { onError (GoErr ''GetFromAPI(): %v''); setStop; ret Quit }
           else if n = 0 then ret (Gave (Some err))
           else do {
             onWarning ''transient error (attempt %d/%d), waiting %v before retry: %v'';
             woken \<leftarrow> waitFor env (s1_retryDelay c k);
             if woken then ret Quit else s1_get env cl c endpoint q n (Suc k)
           }
     }
   }"

text \<open>\<open>v.(string)\<close> and \<open>v.(map[string]interface{})\<close>. The entries of a map are in the order the loop visits them.\<close>

definition str_of :: "gval option \<Rightarrow> string option" where
  "str_of v = (case v of Some (GString s) \<Rightarrow> Some s | _ \<Rightarrow> None)"

definition map_val :: "gval \<Rightarrow> dict option" where
  "map_val v = (case v of GMap d \<Rightarrow> Some d | _ \<Rightarrow> None)"

fun sub_timestamp :: "dict \<Rightarrow> string \<Rightarrow> string \<times> bool" where
  "sub_timestamp [] p = ('''', False)"
| "sub_timestamp ((k, v) # event) p =
     (case map_val v of
        None \<Rightarrow> sub_timestamp event p
      | Some sub \<Rightarrow> (case str_of (map_of sub p) of Some lca \<Rightarrow> (lca, True) | None \<Rightarrow> sub_timestamp event p))"

definition getTimestampElement :: "dict \<Rightarrow> string \<Rightarrow> string \<times> bool" where
  "getTimestampElement event p =
     (case str_of (map_of event p) of Some lca \<Rightarrow> (lca, True) | None \<Rightarrow> sub_timestamp event p)"

record s1_times =
  s1_format :: "time \<Rightarrow> string"
  s1_parse :: "string \<Rightarrow> time option"

text \<open>The creation time of an event as text and as the time of the message: the present where it has none.\<close>

definition s1_created :: "s1_env \<Rightarrow> s1_times \<Rightarrow> dict \<Rightarrow> (string \<times> time) s1_io" where
  "s1_created env tm event =
     (let lca = fst (getTimestampElement event ''createdAt'') in
      case (if lca = '''' then None else s1_parse tm lca) of
        Some t \<Rightarrow> ret (lca, t)
      | None \<Rightarrow> do {
          onError (GoErr ''createdAt not found in event: %v'');
          t \<leftarrow> now env;
          ret (s1_format tm t, t)
        })"

text \<open>\<open>uint64(t.UnixMilli())\<close>, which rounds down.\<close>

definition unix_milli :: "time \<Rightarrow> 64 word" where
  "unix_milli t = word_of_int (t div millisecond)"

fun s1_ship :: "s1_env \<Rightarrow> s1_times \<Rightarrow> string \<Rightarrow> dict list \<Rightarrow> string \<Rightarrow> string s1_io" where
  "s1_ship env tm eventType [] lastCreatedAt = ret lastCreatedAt"
| "s1_ship env tm eventType (event # events) lastCreatedAt = do {
     (lca, t) \<leftarrow> s1_created env tm event;
     ok \<leftarrow> ship_or_stop env \<lparr>payload = JsonPayload event, TimestampMs = unix_milli t, EventType = eventType\<rparr>;
     if ok then s1_ship env tm eventType events lca else ret lca
   }"

text \<open>How the pages of one run end: with the last time and whether events came, or with the goroutine, or with a panic.\<close>

datatype s1_flow = Next string bool | Returned | Panicked

fun s1_pages ::
    "s1_env \<Rightarrow> s1_client \<Rightarrow> s1_config \<Rightarrow> s1_times \<Rightarrow> string \<Rightarrow> string \<Rightarrow> nat \<Rightarrow> string \<Rightarrow> (string \<times> string) list \<Rightarrow> string \<Rightarrow> bool \<Rightarrow>
     s1_flow option s1_io" where
  "s1_pages env cl c tm endpoint eventType 0 nextPage q lastCreatedAt found = ret None"
| "s1_pages env cl c tm endpoint eventType (Suc fuel) nextPage q lastCreatedAt found = do {
     stopped \<leftarrow> waitFor env 0;
     if stopped then ret (Some (Next lastCreatedAt found))
     else do {
       let q1 = (if nextPage \<noteq> '''' then put ''cursor'' nextPage q else q);
       r \<leftarrow> s1_get env cl c endpoint q1 (nat (MaxRetryAttempts c)) 0;
       case r of
         Quit \<Rightarrow> ret (Some Returned)
       | Crash \<Rightarrow> ret (Some Panicked)
       | Gave None \<Rightarrow> ret (Some Panicked)
       | Gave (Some err) \<Rightarrow> do {
           onError (GoErr ''GetFromAPI(): failed after %d attempts: %v'');
           ret (Some (Next lastCreatedAt found))
         }
       | Got page \<Rightarrow> do {
           let nextPage' = (case NextCursor page of Some s \<Rightarrow> s | None \<Rightarrow> '''');
           lca \<leftarrow> s1_ship env tm eventType (s1_Data page) lastCreatedAt;
           let found' = (found \<or> s1_Data page \<noteq> []);
           if nextPage' = '''' then ret (Some (Next lca found'))
           else s1_pages env cl c tm endpoint eventType fuel nextPage' q1 lca found'
         }
     }
   }"

text \<open>The filter of a run, and the last time it begins with.\<close>

definition s1_filter :: "s1_config \<Rightarrow> s1_times \<Rightarrow> time \<Rightarrow> bool \<Rightarrow> string \<Rightarrow> (string \<times> string) list \<times> string" where
  "s1_filter c tm t isFirstRun lastCreatedAt =
     (if isFirstRun then
        (let start = (if s1_StartTime c = '''' then s1_format tm (t - 15 * second) else s1_StartTime c)
         in ([(''createdAt__gte'', start), (''createdAt__lte'', s1_format tm t)], start))
      else ([(''createdAt__gt'', lastCreatedAt), (''createdAt__lte'', s1_format tm t)], lastCreatedAt))"

fun s1_loop ::
    "s1_env \<Rightarrow> s1_client \<Rightarrow> s1_config \<Rightarrow> s1_times \<Rightarrow> string \<Rightarrow> string \<Rightarrow> nat \<Rightarrow> nat \<Rightarrow> bool \<Rightarrow> bool \<Rightarrow> string \<Rightarrow> s1_flow option s1_io" where
  "s1_loop env cl c tm endpoint eventType fuel 0 isFirstRun isDataFound lastCreatedAt = ret None"
| "s1_loop env cl c tm endpoint eventType fuel (Suc n) isFirstRun isDataFound lastCreatedAt = do {
     woken \<leftarrow> (if isFirstRun \<or> isDataFound then ret False else waitFor env (TimeBetweenRequests c));
     if woken then ret (Some Returned)
     else do {
       t \<leftarrow> now env;
       let (q, start) = s1_filter c tm t isFirstRun lastCreatedAt;
       r \<leftarrow> s1_pages env cl c tm endpoint eventType fuel '''' q start False;
       case r of
         Some (Next lca found) \<Rightarrow> s1_loop env cl c tm endpoint eventType fuel n False found lca
       | other \<Rightarrow> ret other
     }
   }"

definition s1_fetchEvents :: "s1_env \<Rightarrow> s1_client \<Rightarrow> s1_config \<Rightarrow> s1_times \<Rightarrow> string \<Rightarrow> nat \<Rightarrow> nat \<Rightarrow> s1_flow option s1_io" where
  "s1_fetchEvents env cl c tm endpoint fuel n =
     s1_loop env cl c tm endpoint (last (split_char (CHR ''/'') endpoint)) fuel n True False ''''"

section \<open>Retries\<close>

text \<open>The requests and their answers, in order; and the answers that are transient errors, permanent ones, and pages.\<close>

definition s1_calls :: "(s1_query, s1_page http) history \<Rightarrow> (s1_query \<times> s1_page http) list" where
  "s1_calls h = rev (calls h)"

lemma s1_calls_Cons [simp]: "s1_calls [] = []" "s1_calls (e # h) = s1_calls h @ rev (call_of e)"
  by (simp_all add: s1_calls_def)

text \<open>How often the adapter has stopped itself.\<close>

definition s1_stops :: "(s1_query, s1_page http) history \<Rightarrow> nat" where
  "s1_stops h = length (filter (\<lambda>e. case e of EStop \<Rightarrow> True | _ \<Rightarrow> False) h)"

lemma s1_stops_Cons [simp]: "s1_stops [] = 0" "s1_stops (e # h) = (case e of EStop \<Rightarrow> Suc (s1_stops h) | _ \<Rightarrow> s1_stops h)"
  by (simp_all add: s1_stops_def split: eff.split)

definition transient_status :: "nat \<Rightarrow> bool" where
  "transient_status code \<longleftrightarrow> code = 429 \<or> 500 \<le> code \<and> code \<le> 599"

definition s1_transient :: "s1_page http \<Rightarrow> bool" where
  "s1_transient r \<longleftrightarrow> (case r of DoErr e \<Rightarrow> True | Resp code None bd \<Rightarrow> transient_status code | _ \<Rightarrow> False)"

definition s1_permanent :: "s1_page http \<Rightarrow> bool" where
  "s1_permanent r \<longleftrightarrow>
     (case r of
        Resp code rd bd \<Rightarrow> if code = 200 then isl bd else rd \<noteq> None \<or> \<not> transient_status code
      | _ \<Rightarrow> False)"

definition s1_got :: "s1_page http \<Rightarrow> s1_page \<Rightarrow> bool" where
  "s1_got r page \<longleftrightarrow> (\<exists>rd. r = Resp 200 rd (Inr page))"

text \<open>What the attempts come to, \<open>n\<close> of them allowed, from their answers: the result and whether the adapter is stopped.\<close>

definition s1_outcome :: "nat \<Rightarrow> s1_page http list \<Rightarrow> s1_result \<Rightarrow> bool \<Rightarrow> bool" where
  "s1_outcome n rs r stopped \<longleftrightarrow> length rs \<le> n \<and> list_all s1_transient (butlast rs) \<and>
     (case r of
        Got page \<Rightarrow> rs \<noteq> [] \<and> s1_got (last rs) page
      | Quit \<Rightarrow> stopped \<and> (rs \<noteq> [] \<longrightarrow> s1_transient (last rs) \<or> s1_permanent (last rs))
      | Gave None \<Rightarrow> n = 0
      | Gave (Some err) \<Rightarrow> length rs = n \<and> rs \<noteq> [] \<and> s1_transient (last rs)
      | Crash \<Rightarrow> rs \<noteq> [] \<and> (\<exists>e. last rs = NewRequestErr e))"

lemma s1_outcome_again:
  "s1_transient a \<Longrightarrow> s1_outcome n rs r stopped \<Longrightarrow> 0 < n \<Longrightarrow> s1_outcome (Suc n) (a # rs) r stopped"
  by (cases r) (auto simp: s1_outcome_def split: option.splits)

text \<open>The answers the code classifies.\<close>

lemma answer_cases:
  "(\<exists>e. resp = NewRequestErr e) \<and> GetFromAPI_result resp = None \<or>
   (\<exists>err. GetFromAPI_result resp = Some (Inl err) \<and> s1_transient resp \<and> s1_isTransientError err) \<or>
   (\<exists>err. GetFromAPI_result resp = Some (Inl err) \<and> s1_permanent resp \<and> \<not> s1_isTransientError err) \<or>
   (\<exists>page. GetFromAPI_result resp = Some (Inr page) \<and> s1_got resp page)"
proof (cases resp)
  case (Resp code rd bd)
  then show ?thesis
    by (cases "code = 200"; cases rd; cases bd)
      (auto simp: s1_transient_def s1_permanent_def s1_got_def s1_isTransientError_def GetFromAPI_result_def transient_status_def)
qed (auto simp: s1_transient_def s1_isTransientError_def GetFromAPI_result_def)

text \<open>C29: the attempts for one page. Every attempt sends the same request, and there are at most as many as configured. All
  answers but the last are transient errors (the request could not be executed, or the status is 429 or 5xx). The last answer
  decides: a page is the result; after a permanent error (a page that cannot be decoded, an error status that cannot be read, any other
  status) the adapter is stopped and nothing is asked again; a transient error is given up on only when the configured number of
  attempts was made, and before that only when the adapter was stopped by someone else, since it stops itself only after a
  permanent error; a request that cannot be made is the panic of the code.\<close>

theorem s1_attempts_bounded:
  "wp (s1_get env cl c endpoint q n k) (\<lambda>r w'. \<exists>rs.
     s1_calls (hist w') = s1_calls (hist w) @ map (Pair (S1Get (s1_baseURL cl @ endpoint) q (s1_apiToken cl))) rs \<and>
     s1_outcome n rs r (stop w') \<and> (rs \<noteq> [] \<and> s1_permanent (last rs) \<longrightarrow> r = Quit \<and> stop w') \<and>
     s1_stops (hist w') = s1_stops (hist w) + (if rs \<noteq> [] \<and> s1_permanent (last rs) then 1 else 0)) w"
  (is "wp _ (\<lambda>r w'. ?Q n w r w') _")
proof (induction n arbitrary: k w)
  case 0
  show ?case by (auto simp: wp_ret s1_outcome_def)
next
  case (Suc n)
  let ?req = "S1Get (s1_baseURL cl @ endpoint) q (s1_apiToken cl)"
  define Q where "Q = ?Q (Suc n) w"
  have ends: "Q r w1"
    if "s1_calls (hist w1) = s1_calls (hist w) @ map (Pair ?req) rs" "s1_outcome (Suc n) rs r (stop w1)"
      "rs \<noteq> [] \<and> s1_permanent (last rs) \<longrightarrow> r = Quit \<and> stop w1"
      "s1_stops (hist w1) = s1_stops (hist w) + (if rs \<noteq> [] \<and> s1_permanent (last rs) then 1 else 0)" for r w1 rs
    using that unfolding Q_def by blast
  have handle: "wp (case GetFromAPI_result a of
         None \<Rightarrow> ret Crash
       | Some (Inr page) \<Rightarrow> ret (Got page)
       | Some (Inl err) \<Rightarrow>
           if \<not> s1_isTransientError err then do { onError e; setStop; ret Quit }
           else if n = 0 then ret (Gave (Some err))
           else do { onWarning m; woken \<leftarrow> waitFor env d; if woken then ret Quit else s1_get env cl c endpoint q n (Suc k) }) Q w1"
    if w1: "s1_calls (hist w1) = s1_calls (hist w) @ [(?req, a)]" "s1_stops (hist w1) = s1_stops (hist w)" for a w1 e m d
  proof -
    consider e where "a = NewRequestErr e" "GetFromAPI_result a = None"
      | err where "GetFromAPI_result a = Some (Inl err)" "s1_transient a" "s1_isTransientError err"
      | err where "GetFromAPI_result a = Some (Inl err)" "s1_permanent a" "\<not> s1_isTransientError err"
      | page where "GetFromAPI_result a = Some (Inr page)" "s1_got a page"
      using answer_cases [of a] by blast
    then show ?thesis
    proof cases
      case (1 e)
      have "Q Crash w1" by (rule ends [of _ "[a]"]) (use 1 w1 in \<open>simp_all add: s1_outcome_def s1_permanent_def\<close>)
      with 1 show ?thesis by (simp add: wp_ret)
    next
      case (2 err)
      then have np: "\<not> s1_permanent a"
        by (auto simp: s1_transient_def s1_permanent_def transient_status_def split: http.splits option.splits)
      have again: "wp (s1_get env cl c endpoint q n (Suc k)) Q w2"
        if "s1_calls (hist w2) = s1_calls (hist w1)" "s1_stops (hist w2) = s1_stops (hist w1)" "n \<noteq> 0" for w2
      proof (rule wp_mono [OF Suc.IH], elim exE conjE)
        fix r rs and w3 :: "(s1_query, s1_page http) world"
        assume r: "s1_calls (hist w3) = s1_calls (hist w2) @ map (Pair ?req) rs" "s1_outcome n rs r (stop w3)"
          "rs \<noteq> [] \<and> s1_permanent (last rs) \<longrightarrow> r = Quit \<and> stop w3"
          "s1_stops (hist w3) = s1_stops (hist w2) + (if rs \<noteq> [] \<and> s1_permanent (last rs) then 1 else 0)"
        show "Q r w3"
          by (rule ends [of w3 "a # rs"]) (use r that w1 np s1_outcome_again [OF 2(2) r(2)] in auto)
      qed
      have stopped: "Q Quit w2" if "s1_calls (hist w2) = s1_calls (hist w1)" "s1_stops (hist w2) = s1_stops (hist w1)" "stop w2" for w2
        by (rule ends [of w2 "[a]"]) (use that w1 np 2(2) in \<open>auto simp: s1_outcome_def\<close>)
      have gave: "Q (Gave (Some err)) w1" if "n = 0"
        by (rule ends [of w1 "[a]"]) (use that w1 np 2(2) in \<open>auto simp: s1_outcome_def\<close>)
      show ?thesis
        using 2(1,3) gave by (auto simp: wp_bind wp_unit_ops wp_stop_ops wp_ret intro!: again stopped)
    next
      case (3 err)
      have "Q Quit w2" if "s1_calls (hist w2) = s1_calls (hist w1)" "s1_stops (hist w2) = Suc (s1_stops (hist w1))" "stop w2" for w2
        by (rule ends [of w2 "[a]"]) (use that w1 3 in \<open>auto simp: s1_outcome_def\<close>)
      with 3 show ?thesis by (simp add: wp_simps)
    next
      case (4 page)
      then have "\<not> s1_permanent a" by (auto simp: s1_got_def s1_permanent_def)
      then have "Q (Got page) w1" by (intro ends [of _ "[a]"]) (use 4 w1 in \<open>simp_all add: s1_outcome_def\<close>)
      with 4 show ?thesis by (simp add: wp_ret)
    qed
  qed
  have quit: "Q Quit w1" if "s1_calls (hist w1) = s1_calls (hist w)" "s1_stops (hist w1) = s1_stops (hist w)" "stop w1" for w1
    by (rule ends [of w1 "[]"]) (use that in \<open>auto simp: s1_outcome_def\<close>)
  have "wp (s1_get env cl c endpoint q (Suc n) k) Q w"
    using handle quit by (simp add: wp_bind [of "waitFor _ _"] wp_stop_ops wp_ret GetFromAPI_def wp_bind wp_call)
  then show ?case unfolding Q_def .
qed

definition s1_demo_config :: s1_config where
  "s1_demo_config = s1_retry_defaults \<lparr>s1_Domain = ''https://x'', s1_APIKey = ''k'', s1_URLs = '''', s1_StartTime = '''',
     TimeBetweenRequests = 1 * minute, RetryBaseDelay = 0, MaxRetryDelay = 0, MaxRetryAttempts = 0\<rparr>"

text \<open>A service that answers 503 once and then 401.\<close>

definition s1_demo_env :: s1_env where
  "s1_demo_env = (steady_env 0 (\<lambda>_. DoErr (GoErr ''down'')))
     \<lparr>e_call := \<lambda>h q. if calls h = [] then Resp 503 None (Inl (GoErr '''')) else Resp 401 None (Inl (GoErr ''''))\<rparr>"

definition s1_demo_run :: "s1_result \<times> (s1_query, s1_page http) world" where
  "s1_demo_run = run_state (s1_get s1_demo_env (NewSentinelOneClient ''https://x'' ''k'') s1_demo_config ''/threats'' [] 3 0) fresh_world"

lemma s1_attempts_bounded_witness:
  "map snd (s1_calls (hist (snd s1_demo_run))) = [Resp 503 None (Inl (GoErr '''')), Resp 401 None (Inl (GoErr ''''))] \<and>
   fst s1_demo_run = Quit \<and> stop (snd s1_demo_run)"
proof -
  have answers: "map snd (s1_calls (hist (snd s1_demo_run))) = [Resp 503 None (Inl (GoErr '''')), Resp 401 None (Inl (GoErr ''''))]"
    by code_simp
  have "wp (s1_get s1_demo_env (NewSentinelOneClient ''https://x'' ''k'') s1_demo_config ''/threats'' [] 3 0) (\<lambda>r w'. \<exists>rs.
     s1_calls (hist w') = s1_calls (hist fresh_world) @
       map (Pair (S1Get (s1_baseURL (NewSentinelOneClient ''https://x'' ''k'') @ ''/threats'') [] (s1_apiToken (NewSentinelOneClient ''https://x'' ''k'')))) rs \<and>
     s1_outcome 3 rs r (stop w') \<and> (rs \<noteq> [] \<and> s1_permanent (last rs) \<longrightarrow> r = Quit \<and> stop w') \<and>
     s1_stops (hist w') = s1_stops (hist fresh_world) + (if rs \<noteq> [] \<and> s1_permanent (last rs) then 1 else 0)) fresh_world"
    by (rule s1_attempts_bounded)
  from this [unfolded wp_def case_prod_beta, folded s1_demo_run_def]
  obtain rs q' where rs: "s1_calls (hist (snd s1_demo_run)) = s1_calls (hist fresh_world) @ map (Pair q') rs"
    "rs \<noteq> [] \<and> s1_permanent (last rs) \<longrightarrow> fst s1_demo_run = Quit \<and> stop (snd s1_demo_run)" by blast
  have "map snd (s1_calls (hist (snd s1_demo_run))) = rs" unfolding rs(1) by (simp add: comp_def)
  with answers rs(2) show ?thesis by (simp add: s1_permanent_def transient_status_def)
qed

text \<open>The delay before a retry is the base delay doubled for every attempt made, and never more than the cap, as long as
  that product is a 64-bit number.\<close>

theorem s1_delay_capped:
  assumes "0 \<le> RetryBaseDelay c" "RetryBaseDelay c * 2 ^ k < 2 ^ 63"
  shows "s1_retryDelay c k = min (RetryBaseDelay c * 2 ^ k) (MaxRetryDelay c)"
proof -
  have "word_of_int (RetryBaseDelay c) * push_bit k 1 = (word_of_int (RetryBaseDelay c * 2 ^ k) :: 64 word)"
    by (simp add: push_bit_eq_mult)
  moreover have "sint (word_of_int (RetryBaseDelay c * 2 ^ k) :: 64 word) = RetryBaseDelay c * 2 ^ k"
  proof -
    have "- (2 ^ 63) \<le> RetryBaseDelay c * 2 ^ k" using assms(1) by (simp add: order_trans [of _ 0])
    with assms(2) show ?thesis
      by (simp only: signed_of_int) (simp add: signed_take_bit_int_eq_self)
  qed
  ultimately show ?thesis by (simp add: s1_retryDelay_def Let_def min_def)
qed

lemma s1_delay_capped_witness: "s1_retryDelay s1_demo_config 2 = 20 * second \<and> s1_retryDelay s1_demo_config 3 = 30 * second"
  using s1_delay_capped [of s1_demo_config 2] s1_delay_capped [of s1_demo_config 3]
  by (simp add: s1_demo_config_def s1_retry_defaults_def or_default_def baseRetryDelay_def s1_maxRetryDelay_def)

text \<open>Beyond that the product wraps around: with the default delays the thirty-second retry waits a negative time, that is
  not at all.\<close>

theorem s1_delay_overflows: "s1_retryDelay s1_demo_config 31 < 0"
  by code_simp

text \<open>A negative number of attempts, which the validation accepts, makes no request and panics on the missing page.\<close>

theorem s1_negative_attempts_panic:
  assumes "MaxRetryAttempts c < 0" "\<not> stop w" "\<And>h. \<not> e_stop env h 0"
  shows "wp (s1_pages env cl c tm endpoint eventType (Suc fuel) page q last_time found) (\<lambda>r w'. r = Some Panicked) w"
  using assms by (simp add: wp_simps)

lemma s1_negative_attempts_panic_witness:
  "wp (s1_pages (steady_env 0 (\<lambda>_. DoErr (GoErr ''''))) (NewSentinelOneClient ''https://x'' ''k'') (s1_demo_config\<lparr>MaxRetryAttempts := - 1\<rparr>)
     \<lparr>s1_format = \<lambda>_. '''', s1_parse = \<lambda>_. None\<rparr> ''/threats'' ''threats'' 1 '''' [] '''' False) (\<lambda>r w'. r = Some Panicked) fresh_world"
  using s1_negative_attempts_panic [of "s1_demo_config\<lparr>MaxRetryAttempts := - 1\<rparr>" fresh_world "steady_env 0 (\<lambda>_. DoErr (GoErr ''''))", where fuel = 0]
  by simp

end
