(* ===== verification/Imap.thy ===== *)
theory Imap
  imports Frame Go_Strings "HOL-Library.Word"
begin

text \<open>
  \<open>imap/client.go\<close>: every ten seconds the adapter fetches the messages of a mailbox whose UID is above the last one it has
  shipped, ships their text, and uploads their attachments. The IMAP connection is a set of calls of the environment; the
  parser of mail, the hash and the parser of sequence sets are arguments. A fetch and the goroutine that takes its messages
  run side by side: the answer has the messages the goroutine gets and what the wait for the fetch sees first, and the
  goroutine is run before that is looked at. The upload of an attachment, which shares nothing with the rest, is run where
  its goroutine is started. Header fields are ASCII.
\<close>

section \<open>Configuration\<close>

record imap_config =
  im_Server :: string
  im_UserName :: string
  im_Password :: string
  im_InboxName :: string
  im_IsInsecure :: bool
  im_FromZero :: bool
  im_IncludeAttachments :: bool
  im_MaxBodySize :: int
  im_AttachmentIngestKey :: string
  im_AttachmentRetentionDays :: int
  im_Hostname :: string

definition imap_Validate :: "go_err option \<Rightarrow> imap_config \<Rightarrow> go_err option" where
  "imap_Validate client_err c =
     (case client_err of
        Some e \<Rightarrow> Some (GoWrap ''client_options: %v'' e)
      | None \<Rightarrow>
          if im_Server c = '''' then Some (GoErr ''missing server'')
          else if im_UserName c = '''' then Some (GoErr ''missing username'')
          else if im_Password c = '''' then Some (GoErr ''missing password'')
          else None)"

section \<open>Messages\<close>

text \<open>
  The body of a message is a map from sections to literals, here in the order of the iteration: the specifier of the
  section (the whole message is the empty one) and what reading the literal gives.
\<close>

record imap_message =
  m_Uid :: "32 word"
  m_Body :: "(string \<times> (go_err + string)) list"

text \<open>\<open>mail.Reader\<close>: the parts \<open>NextPart\<close> returns until the end of the mail. The fields of a header are those of \<open>Map()\<close>.\<close>

datatype part_header =
    InlineHeader "(string \<times> string list) list"
  | AttachmentHeader "(string \<times> string list) list"
  | OtherHeader

record mail_part =
  part_Header :: part_header
  part_Body :: "go_err + string"

datatype next_part = NextPart mail_part | NextErr go_err

record mail_lib =
  create_reader :: "string \<Rightarrow> go_err + next_part list"
  sha256_hex :: "string \<Rightarrow> string"
  parseSeqSet :: "32 word \<Rightarrow> go_err option"

text \<open>The \<open>select\<close> of \<open>waitForErrorFromChanForDuration\<close>: which of its channels is ready first.\<close>

datatype chan_event = StoppedClosed | DoneErr "go_err option" | TimedOut

definition waitForErrorFromChanForDuration :: "chan_event \<Rightarrow> go_err option" where
  "waitForErrorFromChanForDuration ev =
     (case ev of StoppedClosed \<Rightarrow> None | DoneErr err \<Rightarrow> err | TimedOut \<Rightarrow> Some (GoErr ''timeout''))"

text \<open>
  The calls of the connection, of the LimaCharlie client and of the uploader. \<open>ImapUidFetch n\<close> asks for the messages with
  UIDs \<open>n:*\<close>, \<open>ImapUids ns\<close> for the UIDs of the messages with these UIDs.
\<close>

datatype imap_query =
    ImapDial bool string
  | ImapLogin string string
  | ImapSelect string
  | ImapLogout
  | ImapCloseConn
  | ImapNewOrganization
  | ImapNewClient
  | ImapSearch time
  | ImapUids "32 word list"
  | ImapUidFetch "32 word"
  | ImapUploadArtifact string int string string string string int string

datatype imap_answer =
    IErr "go_err option"
  | ISeqs "go_err + 32 word list"
  | IUids "32 word list" chan_event
  | IMessages "imap_message list" chan_event

type_synonym 'a imap_io = "(imap_query, imap_answer, 'a) io"
type_synonym imap_env = "(imap_query, imap_answer) env"

definition err_of :: "imap_answer \<Rightarrow> go_err option" where
  "err_of r = (case r of IErr e \<Rightarrow> e | _ \<Rightarrow> None)"

definition seqs_of :: "imap_answer \<Rightarrow> go_err + 32 word list" where
  "seqs_of r = (case r of ISeqs s \<Rightarrow> s | _ \<Rightarrow> Inr [])"

definition uids_of :: "imap_answer \<Rightarrow> 32 word list \<times> chan_event" where
  "uids_of r = (case r of IUids us ev \<Rightarrow> (us, ev) | _ \<Rightarrow> ([], DoneErr None))"

definition messages_of :: "imap_answer \<Rightarrow> imap_message list \<times> chan_event" where
  "messages_of r = (case r of IMessages ms ev \<Rightarrow> (ms, ev) | _ \<Rightarrow> ([], DoneErr None))"

section \<open>Connecting and closing\<close>

definition hang_up :: "imap_env \<Rightarrow> go_err \<Rightarrow> (go_err + imap_config) imap_io" where
  "hang_up env err = do {
     logged_out \<leftarrow> call env ImapLogout;
     closed \<leftarrow> call env ImapCloseConn;
     ret (Inl err)
   }"

definition with_inbox :: "imap_config \<Rightarrow> imap_config" where
  "with_inbox c = (if im_InboxName c = '''' then c\<lparr>im_InboxName := ''INBOX''\<rparr> else c)"

definition uploads_attachments :: "imap_config \<Rightarrow> bool" where
  "uploads_attachments c \<longleftrightarrow> im_IncludeAttachments c \<and> im_AttachmentIngestKey c \<noteq> ''''"

definition NewImapAdapter :: "imap_env \<Rightarrow> imap_config \<Rightarrow> (go_err + imap_config) imap_io" where
  "NewImapAdapter env conf = do {
     dialed \<leftarrow> call env (ImapDial (im_IsInsecure conf) (im_Server conf));
     case err_of dialed of
       Some err \<Rightarrow> ret (Inl err)
     | None \<Rightarrow> do {
         logged_in \<leftarrow> call env (ImapLogin (im_UserName conf) (im_Password conf));
         case err_of logged_in of
           Some err \<Rightarrow> hang_up env err
         | None \<Rightarrow> do {
             selected \<leftarrow> call env (ImapSelect (im_InboxName (with_inbox conf)));
             case err_of selected of
               Some err \<Rightarrow> hang_up env err
             | None \<Rightarrow> do {
                 uploader \<leftarrow> (if uploads_attachments conf then call env ImapNewOrganization else ret (IErr None));
                 case err_of uploader of
                   Some err \<Rightarrow> hang_up env (GoWrap ''artifactUploader: %v'' err)
                 | None \<Rightarrow> do {
                     usp \<leftarrow> call env ImapNewClient;
                     case err_of usp of
                       Some err \<Rightarrow> hang_up env err
                     | None \<Rightarrow> ret (Inr (with_inbox conf))
                   }
               }
           }
       }
   }"

definition imap_Close :: "imap_env \<Rightarrow> go_err option imap_io" where
  "imap_Close env = do {
     setStop;
     err1 \<leftarrow> call env ImapLogout;
     err2 \<leftarrow> call env ImapCloseConn;
     err3 \<leftarrow> drain env (1 * minute);
     err4 \<leftarrow> closeClient env;
     ret (case err_of err1 of Some e \<Rightarrow> Some e
          | None \<Rightarrow> (case err_of err2 of Some e \<Rightarrow> Some e | None \<Rightarrow> (case err3 of Some e \<Rightarrow> Some e | None \<Rightarrow> err4)))
   }"

section \<open>Attachments\<close>

text \<open>\<open>vv[strings.Index(vv, sub)+len(sub):]\<close>, where \<open>sub\<close> occurs; and \<open>strings.Trim(s, "\"")\<close>.\<close>

fun text_after :: "string \<Rightarrow> string \<Rightarrow> string" where
  "text_after sub [] = []"
| "text_after sub (c # s) = (if has_prefix (c # s) sub then drop (length sub) (c # s) else text_after sub s)"

definition trim_quotes :: "string \<Rightarrow> string" where
  "trim_quotes s = rev (dropWhile (\<lambda>c. c = CHR 34) (rev (dropWhile (\<lambda>c. c = CHR 34) s)))"

definition not_text :: "string \<Rightarrow> bool" where
  "not_text vv \<longleftrightarrow> \<not> contains (to_lower vv) ''text/html'' \<and> \<not> contains (to_lower vv) ''text/plain''"

text \<open>One field of a header: whether the part is an attachment, and its name.\<close>

definition scan_field :: "string \<times> string list \<Rightarrow> bool \<times> string \<Rightarrow> bool \<times> string" where
  "scan_field field found =
     (case field of (k, v) \<Rightarrow>
        if to_lower k = ''content-type'' then (fst found \<or> list_ex not_text v, snd found)
        else if to_lower k = ''content-disposition'' then
          (case find (\<lambda>vv. contains vv ''filename='') (map to_lower v) of
             Some vv \<Rightarrow> (fst found, trim_quotes (text_after ''filename='' vv))
           | None \<Rightarrow> found)
        else found)"

definition scan_header :: "part_header \<Rightarrow> bool \<times> string" where
  "scan_header h =
     (case h of
        InlineHeader fs \<Rightarrow> fold scan_field fs (False, '''')
      | AttachmentHeader fs \<Rightarrow> fold scan_field fs (False, '''')
      | OtherHeader \<Rightarrow> (False, ''''))"

definition imap_upload :: "imap_env \<Rightarrow> mail_lib \<Rightarrow> imap_config \<Rightarrow> string \<Rightarrow> string \<Rightarrow> unit imap_io" where
  "imap_upload env lib c content attachmentName = do {
     r \<leftarrow> call env (ImapUploadArtifact content (int (length content)) ''attachment'' (im_Hostname c) (sha256_hex lib content)
                  attachmentName (im_AttachmentRetentionDays c) (im_AttachmentIngestKey c));
     case err_of r of
       Some e \<Rightarrow> onError (GoWrap ''CreateArtifactFromBytes(): %v'' e)
     | None \<Rightarrow> ret ()
   }"

fun imap_parts :: "imap_env \<Rightarrow> mail_lib \<Rightarrow> imap_config \<Rightarrow> next_part list \<Rightarrow> go_err option imap_io" where
  "imap_parts env lib c [] = ret None"
| "imap_parts env lib c (NextErr e # parts) = ret (Some (GoWrap ''NextPart(): %v'' e))"
| "imap_parts env lib c (NextPart p # parts) =
     (case scan_header (part_Header p) of (isAttachment, attachmentName) \<Rightarrow>
        if \<not> isAttachment then imap_parts env lib c parts
        else (case part_Body p of
                Inl e \<Rightarrow> ret (Some (GoWrap ''ReadAll(): %v'' e))
              | Inr content \<Rightarrow> do {
                  imap_upload env lib c content attachmentName;
                  imap_parts env lib c parts
                }))"

definition imap_attachments :: "imap_env \<Rightarrow> mail_lib \<Rightarrow> imap_config \<Rightarrow> string \<Rightarrow> go_err option imap_io" where
  "imap_attachments env lib c fullBody =
     (case create_reader lib fullBody of
        Inl e \<Rightarrow> ret (Some (GoWrap ''CreateReader(): %v'' e))
      | Inr parts \<Rightarrow> imap_parts env lib c parts)"

section \<open>One message\<close>

text \<open>\<open>MaxBodySize\<close> is compared with the number of sections of the message.\<close>

definition size_allowed :: "imap_config \<Rightarrow> imap_message \<Rightarrow> bool" where
  "size_allowed c m \<longleftrightarrow> im_MaxBodySize c = 0 \<or> int (length (m_Body m)) \<le> im_MaxBodySize c"

fun imap_sections ::
    "imap_env \<Rightarrow> mail_lib \<Rightarrow> imap_config \<Rightarrow> bool \<Rightarrow> (string \<times> (go_err + string)) list \<Rightarrow> string \<Rightarrow> (go_err + string) imap_io" where
  "imap_sections env lib c allowed [] bdy = ret (Inr bdy)"
| "imap_sections env lib c allowed ((specifier, literal) # sections) bdy =
     (if specifier \<noteq> '''' then imap_sections env lib c allowed sections bdy
      else (case literal of
              Inl e \<Rightarrow> ret (Inl (GoWrap ''ReadAll(): %v'' e))
            | Inr fullBody \<Rightarrow> do {
                err \<leftarrow> (if uploads_attachments c \<and> allowed then imap_attachments env lib c fullBody else ret None);
                case err of
                  Some e \<Rightarrow> ret (Inl e)
                | None \<Rightarrow> imap_sections env lib c allowed sections fullBody
              }))"

definition messageToJSON :: "imap_env \<Rightarrow> mail_lib \<Rightarrow> imap_config \<Rightarrow> imap_message \<Rightarrow> (go_err + data_message) imap_io" where
  "messageToJSON env lib c m = do {
     r \<leftarrow> (if size_allowed c m then imap_sections env lib c (size_allowed c m) (m_Body m) '''' else ret (Inr ''''));
     case r of
       Inl e \<Rightarrow> ret (Inl e)
     | Inr bdy \<Rightarrow> do {
         t \<leftarrow> now env;
         ret (Inr \<lparr>payload = TextPayload bdy, TimestampMs = stamp_ms t, EventType = ''''\<rparr>)
       }
   }"

definition imap_processEvent :: "imap_env \<Rightarrow> mail_lib \<Rightarrow> imap_config \<Rightarrow> imap_message \<Rightarrow> go_err option imap_io" where
  "imap_processEvent env lib c m = do {
     r \<leftarrow> messageToJSON env lib c m;
     case r of
       Inl e \<Rightarrow> ret (Some (GoWrap ''messageToJSON(): %v'' e))
     | Inr d \<Rightarrow> do {
         err \<leftarrow> ship env d (10 * second);
         err2 \<leftarrow> (if err = Some BufferFull then ship env d (1 * hour) else ret err);
         ret (map_option (GoWrap ''Ship(): %v'') err2)
       }
   }"

section \<open>The connection\<close>

text \<open>The goroutine that takes the messages of a fetch: the last UID it leaves.\<close>

fun imap_consume ::
    "imap_env \<Rightarrow> mail_lib \<Rightarrow> imap_config \<Rightarrow> bool \<Rightarrow> imap_message list \<Rightarrow> 32 word \<Rightarrow> 32 word imap_io" where
  "imap_consume env lib c hadError [] lastUID = ret lastUID"
| "imap_consume env lib c hadError (msg # msgs) lastUID =
     (if hadError then imap_consume env lib c hadError msgs lastUID
      else do {
        stopping \<leftarrow> waitFor env 0;
        if stopping then imap_consume env lib c hadError msgs lastUID
        else if m_Uid msg \<le> lastUID then imap_consume env lib c hadError msgs lastUID
        else do {
          err \<leftarrow> imap_processEvent env lib c msg;
          case err of
            Some e \<Rightarrow> do {
              onError (GoWrap ''processEvent(): %v'' e);
              imap_consume env lib c True msgs lastUID
            }
          | None \<Rightarrow> imap_consume env lib c hadError msgs (m_Uid msg)
        }
      })"

text \<open>One turn after the wait: the last UID, or \<open>None\<close> where the handler returns.\<close>

definition imap_turn :: "imap_env \<Rightarrow> mail_lib \<Rightarrow> imap_config \<Rightarrow> 32 word \<Rightarrow> 32 word option imap_io" where
  "imap_turn env lib c lastUID = do {
     selected \<leftarrow> call env (ImapSelect (im_InboxName c));
     case err_of selected of
       Some e \<Rightarrow> do { onError (GoWrap ''Select(): %v'' e); ret None }
     | None \<Rightarrow>
         (case parseSeqSet lib (lastUID + 1) of
            Some e \<Rightarrow> do { onError (GoWrap ''ParseSeqSet(): %v'' e); ret None }
          | None \<Rightarrow> do {
              r \<leftarrow> call env (ImapUidFetch (lastUID + 1));
              lastUID' \<leftarrow> imap_consume env lib c False (fst (messages_of r)) lastUID;
              case waitForErrorFromChanForDuration (snd (messages_of r)) of
                Some e \<Rightarrow> do { onError (GoWrap ''next.UidFetch(): %v'' e); ret None }
              | None \<Rightarrow> ret (Some lastUID')
            })
   }"

text \<open>\<open>time.Sleep\<close> does not look at the stop channel; the next turn does.\<close>

fun imap_loop :: "imap_env \<Rightarrow> mail_lib \<Rightarrow> imap_config \<Rightarrow> bool \<Rightarrow> nat \<Rightarrow> 32 word \<Rightarrow> unit imap_io" where
  "imap_loop env lib c isFirstRun 0 lastUID = ret ()"
| "imap_loop env lib c isFirstRun (Suc n) lastUID = do {
     stopping \<leftarrow> waitFor env 0;
     if stopping then ret ()
     else do {
       slept \<leftarrow> (if isFirstRun then ret False else waitFor env (10 * second));
       r \<leftarrow> imap_turn env lib c lastUID;
       case r of None \<Rightarrow> ret () | Some lastUID' \<Rightarrow> imap_loop env lib c False n lastUID'
     }
   }"

text \<open>The search of \<open>getLastUID\<close>: \<open>days\<close> more days are tried, the next is \<open>i\<close> days back.\<close>

fun imap_search :: "imap_env \<Rightarrow> nat \<Rightarrow> nat \<Rightarrow> 32 word list \<Rightarrow> (go_err + 32 word list) imap_io" where
  "imap_search env 0 i seqs = ret (Inr seqs)"
| "imap_search env (Suc days) i seqs = do {
     t \<leftarrow> now env;
     r \<leftarrow> call env (ImapSearch (t - 24 * hour * int i));
     case seqs_of r of
       Inl e \<Rightarrow> ret (Inl (GoWrap ''initial.Search(): %v'' e))
     | Inr [] \<Rightarrow> imap_search env days (Suc i) []
     | Inr found \<Rightarrow> ret (Inr found)
   }"

definition getLastUID :: "imap_env \<Rightarrow> imap_config \<Rightarrow> (go_err + 32 word) imap_io" where
  "getLastUID env c =
     (if im_FromZero c then ret (Inr 0)
      else do {
        searched \<leftarrow> imap_search env 365 1 [];
        case searched of
          Inl e \<Rightarrow> ret (Inl e)
        | Inr seqs \<Rightarrow> do {
            r \<leftarrow> call env (ImapUids seqs);
            case waitForErrorFromChanForDuration (snd (uids_of r)) of
              Some e \<Rightarrow> ret (Inl (GoWrap ''initial.UidFetch(): %v'' e))
            | None \<Rightarrow> ret (Inr (fold (\<lambda>uid lastUID. uid) (fst (uids_of r)) 0))
          }
      })"

definition imap_handleConnection :: "imap_env \<Rightarrow> mail_lib \<Rightarrow> imap_config \<Rightarrow> nat \<Rightarrow> unit imap_io" where
  "imap_handleConnection env lib c n = do {
     r \<leftarrow> getLastUID env c;
     case r of
       Inl e \<Rightarrow> onError (GoWrap ''getLastUID(): %v'' e)
     | Inr lastUID \<Rightarrow> imap_loop env lib c True n lastUID
   }"

section \<open>What a message becomes\<close>

text \<open>The text of the last whole-message section; and the payload of a message.\<close>

fun section_text :: "(string \<times> (go_err + string)) list \<Rightarrow> string \<Rightarrow> string" where
  "section_text [] bdy = bdy"
| "section_text ((specifier, literal) # sections) bdy =
     section_text sections (if specifier = '''' then (case literal of Inl e \<Rightarrow> bdy | Inr t \<Rightarrow> t) else bdy)"

definition imap_payload :: "imap_config \<Rightarrow> imap_message \<Rightarrow> payload" where
  "imap_payload c m = TextPayload (if size_allowed c m then section_text (m_Body m) '''' else '''')"

text \<open>The messages that were fetched, and how many of them could not be shipped.\<close>

fun fetched_by :: "(imap_query, imap_answer) eff \<Rightarrow> imap_message list" where
  "fetched_by (ECall (ImapUidFetch n) r) = fst (messages_of r)"
| "fetched_by _ = []"

definition fetched :: "(imap_query, imap_answer) history \<Rightarrow> imap_message set" where
  "fetched h = (\<Union>e\<in>set h. set (fetched_by e))"

fun process_failure :: "(imap_query, imap_answer) eff \<Rightarrow> bool" where
  "process_failure (EOnError (GoWrap s e)) \<longleftrightarrow> s = ''processEvent(): %v''"
| "process_failure _ \<longleftrightarrow> False"

definition failures :: "(imap_query, imap_answer) history \<Rightarrow> nat" where
  "failures h = length (filter process_failure h)"

lemma failures_Cons [simp]: "failures (e # h) = (if process_failure e then Suc (failures h) else failures h)"
  by (simp add: failures_def)

lemma fetched_append [simp]: "fetched (h @ h') = fetched h \<union> fetched h'"
  by (simp add: fetched_def)

text \<open>What only talks to the connection and reports nothing on a message: it delivers nothing.\<close>

definition silent :: "(imap_query, imap_answer) world \<Rightarrow> (imap_query, imap_answer) world \<Rightarrow> bool" where
  "silent w w' \<longleftrightarrow> calm w w' \<and> delivered (hist w') = delivered (hist w) \<and> failures (hist w') = failures (hist w)"

interpretation silent: frame silent
  by unfold_locales (auto simp: silent_def intro: calm.refl calm.trans)

lemma silent_fetched: "silent w w' \<Longrightarrow> fetched (hist w) \<subseteq> fetched (hist w')"
  by (auto simp: silent_def calm_def)

lemmas silent_rules [simp, intro!] = silent.rules

lemma silent_prims [simp, intro!]:
  "along silent (now env)" "along silent (call env q)"
  "s \<noteq> ''processEvent(): %v'' \<Longrightarrow> along silent (onError (GoWrap s e))"
  by (auto intro!: alongI simp: wp_simps silent_def calm_def)

lemma silent_upload [simp, intro!]: "along silent (imap_upload env lib c content name)"
  unfolding imap_upload_def by (intro silent_rules) (auto split: option.split)

lemma silent_parts [simp, intro!]: "along silent (imap_parts env lib c parts)"
  by (induction env lib c parts rule: imap_parts.induct) (auto split: sum.split prod.split)

lemma silent_attachments [simp, intro!]: "along silent (imap_attachments env lib c b)"
  by (auto simp: imap_attachments_def split: sum.split)

lemma silent_sections [simp, intro!]: "along silent (imap_sections env lib c allowed sections bdy)"
  by (induction env lib c allowed sections bdy rule: imap_sections.induct) (auto split: sum.split option.split)

lemma silent_messageToJSON: "along silent (messageToJSON env lib c m)"
  by (auto simp: messageToJSON_def split: sum.split)

lemma yields_sections:
  "yields (\<lambda>r. \<forall>b. r = Inr b \<longrightarrow> b = section_text sections bdy) (imap_sections env lib c allowed sections bdy)"
  by (induction env lib c allowed sections bdy rule: imap_sections.induct)
    (auto intro!: yields_bind split: sum.split option.split)

lemma yields_messageToJSON:
  "yields (\<lambda>r. \<forall>d. r = Inr d \<longrightarrow> payload d = imap_payload c m) (messageToJSON env lib c m)"
proof -
  have "yields (\<lambda>r. \<forall>b. r = Inr b \<longrightarrow> TextPayload b = imap_payload c m)
      (if size_allowed c m then imap_sections env lib c (size_allowed c m) (m_Body m) '''' else ret (Inr ''''))"
    using yields_sections [of "m_Body m" "''''" env lib c True] by (simp add: imap_payload_def)
  then show ?thesis
    unfolding messageToJSON_def by (rule yields_bind_after) (auto intro!: yields_bind split: sum.split)
qed

lemma wp_messageToJSON:
  assumes "\<And>e w'. silent w w' \<Longrightarrow> Q (Inl e) w'"
    and "\<And>d w'. silent w w' \<Longrightarrow> payload d = imap_payload c m \<Longrightarrow> Q (Inr d) w'"
  shows "wp (messageToJSON env lib c m) Q w"
proof (rule along_wp_and [OF silent_messageToJSON])
  show "wp (messageToJSON env lib c m) (\<lambda>r _. \<forall>d. r = Inr d \<longrightarrow> payload d = imap_payload c m) w"
    using yields_messageToJSON [of c m env lib] by (rule yields_wp)
  show "Q r w'" if "silent w w'" "\<forall>d. r = Inr d \<longrightarrow> payload d = imap_payload c m" for r w'
    using that assms by (cases r) auto
qed

text \<open>Processing a message: it is delivered, or an error results.\<close>

definition processed :: "payload \<Rightarrow> bool \<Rightarrow> (imap_query, imap_answer) world \<Rightarrow> (imap_query, imap_answer) world \<Rightarrow> bool" where
  "processed p shipped w w' \<longleftrightarrow> calm w w' \<and> failures (hist w') = failures (hist w) \<and>
     delivered (hist w') = delivered (hist w) @ (if shipped then [p] else [])"

lemma acked_EShip: "acked (EShip d t e) = (if e = None then [payload d] else [])"
  by (cases e) auto

lemma wp_processEvent:
  assumes "\<And>err w'. processed (imap_payload c m) (err = None) w w' \<Longrightarrow> Q err w'"
  shows "wp (imap_processEvent env lib c m) Q w"
  unfolding imap_processEvent_def wp_bind
proof (rule wp_messageToJSON, goal_cases)
  case (1 e w')
  then show ?case by (simp add: wp_simps) (rule assms, simp add: processed_def silent_def)
next
  case (2 d w')
  then show ?case
    by (auto simp: wp_simps intro!: assms) (auto simp: processed_def silent_def calm_def acked_EShip)
qed

section \<open>The messages of a fetch\<close>

lemma consume_after_error [simp]: "imap_consume env lib c True msgs lastUID = ret lastUID"
  by (induction msgs) simp_all

text \<open>What is delivered are messages that were fetched, with increasing UIDs, none above the last one.\<close>

definition in_order :: "imap_config \<Rightarrow> 32 word \<Rightarrow> (imap_query, imap_answer) history \<Rightarrow> bool" where
  "in_order c lastUID h \<longleftrightarrow>
     (\<exists>ms. delivered h = map (imap_payload c) ms \<and> sorted_wrt (<) (map m_Uid ms) \<and>
       (\<forall>m\<in>set ms. m_Uid m \<le> lastUID) \<and> set ms \<subseteq> fetched h)"

lemma in_order_step:
  assumes "in_order c lastUID (hist w)" "delivered (hist w') = delivered (hist w)" "fetched (hist w) \<subseteq> fetched (hist w')"
  shows "in_order c lastUID (hist w')"
  using assms unfolding in_order_def by (metis order_trans)

lemma in_order_Cons: "in_order c lastUID h \<Longrightarrow> acked e = [] \<Longrightarrow> in_order c lastUID (e # h)"
  unfolding in_order_def fetched_def by force

lemma fetched_Cons [simp]: "fetched (e # h) = set (fetched_by e) \<union> fetched h"
  by (auto simp: fetched_def)

lemma processed_fetched: "processed p s w w' \<Longrightarrow> fetched (hist w) \<subseteq> fetched (hist w')"
  by (auto simp: processed_def calm_def)

lemma in_order_deliver:
  assumes "in_order c lastUID (hist w)" "lastUID < m_Uid m" "m \<in> fetched (hist w)" "processed (imap_payload c m) True w w'"
  shows "in_order c (m_Uid m) (hist w')"
proof -
  obtain ms where ms: "delivered (hist w) = map (imap_payload c) ms" "sorted_wrt (<) (map m_Uid ms)"
    "\<forall>x\<in>set ms. m_Uid x \<le> lastUID" "set ms \<subseteq> fetched (hist w)"
    using assms(1) unfolding in_order_def by blast
  have "delivered (hist w') = map (imap_payload c) (ms @ [m])"
    using ms(1) assms(4) by (simp add: processed_def)
  moreover have "sorted_wrt (<) (map m_Uid (ms @ [m]))" "\<forall>x\<in>set (ms @ [m]). m_Uid x \<le> m_Uid m"
    using ms(2,3) assms(2) by (auto simp: sorted_wrt_append)
  moreover have "set (ms @ [m]) \<subseteq> fetched (hist w')"
    using ms(4) assms(3) processed_fetched [OF assms(4)] by auto
  ultimately show ?thesis unfolding in_order_def by blast
qed

text \<open>One message of a fetch, over any postcondition.\<close>

definition polled :: "(imap_query, imap_answer) world \<Rightarrow> (imap_query, imap_answer) world \<Rightarrow> bool" where
  "polled w w' \<longleftrightarrow> hist w' = EWait 0 (stop w') # hist w \<and> (stop w \<longrightarrow> stop w')"

lemma consume_step:
  assumes "\<And>w1. polled w w1 \<Longrightarrow> stop w1 \<or> m_Uid m \<le> lastUID \<Longrightarrow> wp (imap_consume env lib c False msgs lastUID) Q w1"
    and "\<And>w1 w2. polled w w1 \<Longrightarrow> \<not> stop w1 \<Longrightarrow> lastUID < m_Uid m \<Longrightarrow> processed (imap_payload c m) True w1 w2 \<Longrightarrow>
      wp (imap_consume env lib c False msgs (m_Uid m)) Q w2"
    and "\<And>w1 w2 e. polled w w1 \<Longrightarrow> \<not> stop w1 \<Longrightarrow> lastUID < m_Uid m \<Longrightarrow> processed (imap_payload c m) False w1 w2 \<Longrightarrow>
      Q lastUID (w2\<lparr>hist := EOnError (GoWrap ''processEvent(): %v'' e) # hist w2\<rparr>)"
  shows "wp (imap_consume env lib c False (m # msgs) lastUID) Q w"
proof -
  define b where "b = (stop w \<or> e_stop env (hist w) 0)"
  define w1 where "w1 = w\<lparr>hist := EWait 0 b # hist w, stop := b\<rparr>"
  have w1: "polled w w1" "stop w1 = b" by (auto simp: w1_def polled_def b_def)
  have "wp (imap_processEvent env lib c m) (\<lambda>err. wp (case err of
        Some e \<Rightarrow> do { onError (GoWrap ''processEvent(): %v'' e); ret lastUID }
      | None \<Rightarrow> imap_consume env lib c False msgs (m_Uid m)) Q) w1" if "\<not> b" "lastUID < m_Uid m"
  proof (rule wp_processEvent)
    fix err :: "go_err option" and w2
    assume p: "processed (imap_payload c m) (err = None) w1 w2"
    show "wp (case err of
        Some e \<Rightarrow> do { onError (GoWrap ''processEvent(): %v'' e); ret lastUID }
      | None \<Rightarrow> imap_consume env lib c False msgs (m_Uid m)) Q w2"
      using assms(2) [OF w1(1), of w2] assms(3) [OF w1(1), of w2] p that w1(2) by (cases err) (auto simp: wp_simps)
  qed
  with assms(1) [OF w1(1)] w1(2) show ?thesis
    by (simp add: wp_simps not_le flip: b_def w1_def)
qed

lemma consume_in_order:
  assumes "in_order c lastUID (hist w)" "set msgs \<subseteq> fetched (hist w)"
  shows "wp (imap_consume env lib c False msgs lastUID) (\<lambda>l w'. in_order c l (hist w')) w"
  using assms
proof (induction msgs arbitrary: lastUID w)
  case Nil
  then show ?case by (simp add: wp_simps)
next
  case (Cons m msgs)
  have w1: "in_order c lastUID (hist w1) \<and> set (m # msgs) \<subseteq> fetched (hist w1)" if "polled w w1" for w1
    using Cons.prems that by (auto simp: polled_def intro: in_order_Cons)
  show ?case
  proof (rule consume_step)
    show "wp (imap_consume env lib c False msgs lastUID) (\<lambda>l w'. in_order c l (hist w')) w1" if "polled w w1" for w1
      using w1 [OF that] Cons.IH by simp
  next
    fix w1 w2
    assume p: "polled w w1" "lastUID < m_Uid m" "processed (imap_payload c m) True w1 w2"
    then have "in_order c (m_Uid m) (hist w2)" "set msgs \<subseteq> fetched (hist w2)"
      using w1 [OF p(1)] processed_fetched [OF p(3)] by (auto intro: in_order_deliver)
    then show "wp (imap_consume env lib c False msgs (m_Uid m)) (\<lambda>l w'. in_order c l (hist w')) w2" by (rule Cons.IH)
  next
    fix w1 w2 e
    assume p: "polled w w1" "processed (imap_payload c m) False w1 w2"
    then show "in_order c lastUID (hist (w2\<lparr>hist := EOnError (GoWrap ''processEvent(): %v'' e) # hist w2\<rparr>))"
      using w1 [OF p(1)] processed_fetched [OF p(2)] by (auto simp: processed_def intro!: in_order_Cons intro: in_order_step [of c lastUID w1])
  qed
qed

text \<open>
  The new messages of an answer: those whose UID is above the last UID and above the UIDs of all messages before them. Where
  no stop comes and no message fails they are delivered.
\<close>

definition new_messages :: "32 word \<Rightarrow> imap_message list \<Rightarrow> imap_message list" where
  "new_messages lastUID ms =
     map ((!) ms) (filter (\<lambda>i. lastUID < m_Uid (ms ! i) \<and> (\<forall>j<i. m_Uid (ms ! j) < m_Uid (ms ! i))) [0..<length ms])"

lemma new_messages_Nil [simp]: "new_messages lastUID [] = []"
  by (simp add: new_messages_def)

lemma new_messages_Cons [simp]:
  "new_messages lastUID (m # ms) =
     (if lastUID < m_Uid m then m # new_messages (m_Uid m) ms else new_messages lastUID ms)"
proof -
  let ?P = "\<lambda>u i. u < m_Uid (ms ! i) \<and> (\<forall>j<i. m_Uid (ms ! j) < m_Uid (ms ! i))"
  have all: "(\<forall>j<Suc i. m_Uid ((m # ms) ! j) < u) \<longleftrightarrow> m_Uid m < u \<and> (\<forall>j<i. m_Uid (ms ! j) < u)" for i u
    by (auto simp: less_Suc_eq_0_disj)
  have upt: "[0..<length (m # ms)] = 0 # map Suc [0..<length ms]"
    by (simp add: upt_conv_Cons map_Suc_upt del: upt_Suc)
  have "new_messages lastUID (m # ms) =
      (if lastUID < m_Uid m then [m] else []) @
      map ((!) ms) (filter (\<lambda>i. m_Uid m < m_Uid (ms ! i) \<and> ?P lastUID i) [0..<length ms])"
    unfolding new_messages_def upt by (simp add: filter_map comp_def all conj_ac)
  moreover have "m_Uid m < u \<and> lastUID < u \<longleftrightarrow> (if lastUID < m_Uid m then m_Uid m < u else lastUID < u)" for u :: "32 word"
    by (auto intro: less_trans le_less_trans)
  ultimately show ?thesis by (auto simp: new_messages_def conj_ac simp flip: conj_assoc)
qed

lemma new_messages_ascending:
  "sorted_wrt (<) (map m_Uid ms) \<Longrightarrow> new_messages lastUID ms = filter (\<lambda>m. lastUID < m_Uid m) ms"
proof (induction ms arbitrary: lastUID)
  case (Cons m ms)
  have "filter (\<lambda>x. m_Uid m < m_Uid x) ms = filter (\<lambda>x. lastUID < m_Uid x) ms" if "lastUID < m_Uid m"
    using Cons.prems that by (intro filter_cong) (auto intro: less_trans)
  with Cons show ?case by auto
qed simp

definition complete ::
    "imap_config \<Rightarrow> 32 word \<Rightarrow> imap_message list \<Rightarrow> 32 word \<Rightarrow> (imap_query, imap_answer) world \<Rightarrow> (imap_query, imap_answer) world \<Rightarrow> bool" where
  "complete c lastUID msgs l w w' \<longleftrightarrow> failures (hist w) \<le> failures (hist w') \<and> (stop w \<longrightarrow> stop w') \<and>
     (failures (hist w') = failures (hist w) \<and> \<not> stop w' \<longrightarrow>
        delivered (hist w') = delivered (hist w) @ map (imap_payload c) (new_messages lastUID msgs) \<and>
        l = last (lastUID # map m_Uid (new_messages lastUID msgs)))"

lemma consume_complete:
  "wp (imap_consume env lib c False msgs lastUID) (\<lambda>l w'. complete c lastUID msgs l w w') w"
proof (induction msgs arbitrary: lastUID w)
  case Nil
  then show ?case by (simp add: wp_simps complete_def)
next
  case (Cons m msgs)
  show ?case
  proof (rule consume_step)
    show "wp (imap_consume env lib c False msgs lastUID) (\<lambda>l w'. complete c lastUID (m # msgs) l w w') w1"
      if "polled w w1" "stop w1 \<or> m_Uid m \<le> lastUID" for w1
      by (rule wp_mono [OF Cons.IH]) (use that in \<open>auto simp: complete_def polled_def\<close>)
    show "wp (imap_consume env lib c False msgs (m_Uid m)) (\<lambda>l w'. complete c lastUID (m # msgs) l w w') w2"
      if "polled w w1" "\<not> stop w1" "lastUID < m_Uid m" "processed (imap_payload c m) True w1 w2" for w1 w2
      by (rule wp_mono [OF Cons.IH]) (use that in \<open>auto simp: complete_def polled_def processed_def calm_def\<close>)
    show "complete c lastUID (m # msgs) lastUID w (w2\<lparr>hist := EOnError (GoWrap ''processEvent(): %v'' e) # hist w2\<rparr>)"
      if "polled w w1" "\<not> stop w1" "processed (imap_payload c m) False w1 w2" for w1 w2 e
      using that by (auto simp: complete_def polled_def processed_def calm_def)
  qed
qed

section \<open>Turns\<close>

lemma turn_in_order:
  assumes "in_order c lastUID (hist w)"
  shows "wp (imap_turn env lib c lastUID) (\<lambda>r w'. \<exists>l. (\<forall>l'. r = Some l' \<longrightarrow> l' = l) \<and> in_order c l (hist w')) w"
proof -
  have consumed: "wp (imap_consume env lib c False (fst (messages_of r)) lastUID) Q
      (w\<lparr>hist := ECall (ImapUidFetch k) r # h\<rparr>)"
    if "in_order c lastUID h" "\<And>l w'. in_order c l (hist w') \<Longrightarrow> Q l w'" for r k h Q
    by (rule wp_mono [OF consume_in_order]) (auto intro: that in_order_Cons)
  show ?thesis
    unfolding imap_turn_def wp_bind wp_call
    using assms by (auto simp: wp_simps split: option.split intro!: consumed in_order_Cons exI)
qed

lemma loop_in_order:
  assumes "in_order c lastUID (hist w)"
  shows "wp (imap_loop env lib c isFirstRun n lastUID) (\<lambda>_ w'. \<exists>l. in_order c l (hist w')) w"
  using assms
proof (induction n arbitrary: lastUID w isFirstRun)
  case 0
  then show ?case by (auto simp: wp_simps)
next
  case (Suc n)
  have turn: "wp (imap_turn env lib c lastUID) (\<lambda>r. wp (case r of None \<Rightarrow> ret () | Some l \<Rightarrow> imap_loop env lib c False n l)
      (\<lambda>_ w'. \<exists>l. in_order c l (hist w'))) w1" if "in_order c lastUID (hist w1)" for w1
    by (rule wp_mono [OF turn_in_order [OF that]]) (auto simp: wp_simps split: option.split intro: Suc.IH)
  show ?case
    using Suc.prems by (auto simp: wp_simps intro!: turn in_order_Cons intro: exI [of _ lastUID])
qed

lemma search_quiet: "along silent (imap_search env days i seqs)"
  by (induction env days i seqs rule: imap_search.induct) (auto split: sum.split list.split)

lemma getLastUID_quiet: "along silent (getLastUID env c)"
  by (auto simp: getLastUID_def intro!: search_quiet split: sum.split option.split)

text \<open>C20: Whatever the server answers, the adapter delivers the texts of messages it has fetched, in the order of their UIDs and
  each UID once, over all its turns.
\<close>

theorem imap_delivers_once:
  "wp (imap_handleConnection env lib c n)
     (\<lambda>_ w'. \<exists>ms. delivered (hist w') = map (imap_payload c) ms \<and> sorted_wrt (<) (map m_Uid ms) \<and> set ms \<subseteq> fetched (hist w'))
     fresh_world"
proof -
  have start: "in_order c lastUID (hist w)" if "silent fresh_world w" for lastUID w
    using that unfolding in_order_def by (intro exI [of _ "[]"]) (simp add: silent_def)
  have "wp (imap_handleConnection env lib c n) (\<lambda>_ w'. \<exists>l. in_order c l (hist w')) fresh_world"
    unfolding imap_handleConnection_def wp_bind
    by (rule along_wp [OF getLastUID_quiet])
      (auto simp: wp_simps split: sum.split intro!: loop_in_order start in_order_Cons exI)
  then show ?thesis by (rule wp_mono) (auto simp: in_order_def)
qed

text \<open>What the fetch of a turn is answered, with which the turn continues when the mailbox can be selected.\<close>

definition turn_answer :: "imap_env \<Rightarrow> imap_config \<Rightarrow> 32 word \<Rightarrow> (imap_query, imap_answer) history \<Rightarrow> imap_message list" where
  "turn_answer env c lastUID h =
     (let q = ImapSelect (im_InboxName c) in
      fst (messages_of (e_call env (ECall q (e_call env h q) # h) (ImapUidFetch (lastUID + 1)))))"

text \<open>C21: a turn delivers, in order, exactly those messages of the answer to its fetch whose UID is above the last UID and
  above the UIDs of all messages before them in the answer, and the next turn starts from the last of them; unless the turn
  is cut short by an error of the connection, by a message that cannot be processed, or by the stop event. Where the answer
  lists ascending UIDs these are all messages above the last UID; a message listed after one with a higher UID is left out.
\<close>

theorem imap_delivers_new:
  "wp (imap_turn env lib c lastUID) (\<lambda>r w'. r = None \<or> stop w' \<or> failures (hist w) < failures (hist w') \<or>
    (let answer = turn_answer env c lastUID (hist w); new = new_messages lastUID answer in
       delivered (hist w') = delivered (hist w) @ map (imap_payload c) new \<and> r = Some (last (lastUID # map m_Uid new)) \<and>
       (sorted_wrt (<) (map m_Uid answer) \<longrightarrow> new = filter (\<lambda>m. lastUID < m_Uid m) answer))) w"
proof -
  have consumed: "wp (imap_consume env lib c False ms lastUID) Q w1"
    if "ms = turn_answer env c lastUID (hist w)" "\<And>l w'. complete c lastUID ms l w1 w' \<Longrightarrow> Q l w'" for ms Q w1
    by (rule wp_mono [OF consume_complete]) (use that in auto)
  show ?thesis
    unfolding imap_turn_def wp_bind wp_call
    by (auto simp: wp_simps turn_answer_def Let_def complete_def new_messages_ascending split: option.split intro!: consumed)
qed

section \<open>Messages that cannot be read\<close>

text \<open>The whole-message section of the message fails, or the parser of mail refuses it and attachments are wanted.\<close>

definition unreadable :: "mail_lib \<Rightarrow> imap_config \<Rightarrow> imap_message \<Rightarrow> bool" where
  "unreadable lib c m \<longleftrightarrow> size_allowed c m \<and>
     (case find (\<lambda>s. fst s = '''') (m_Body m) of
        None \<Rightarrow> False
      | Some (_, Inl e) \<Rightarrow> True
      | Some (_, Inr b) \<Rightarrow> uploads_attachments c \<and> isl (create_reader lib b))"

lemma sections_unreadable:
  assumes "case find (\<lambda>s. fst s = '''') sections of
      None \<Rightarrow> False | Some (_, Inl e) \<Rightarrow> True | Some (_, Inr b) \<Rightarrow> uploads_attachments c \<and> isl (create_reader lib b)"
  shows "yields isl (imap_sections env lib c True sections bdy)"
  using assms unfolding yields_def
  by (induction sections arbitrary: bdy)
    (auto simp: imap_attachments_def isl_def wp_simps split: sum.splits if_splits)

lemma processEvent_unreadable:
  assumes "unreadable lib c m"
  shows "yields (\<lambda>err. err \<noteq> None) (imap_processEvent env lib c m)"
proof -
  have "size_allowed c m" "yields isl (imap_sections env lib c True (m_Body m) '''')"
    using assms sections_unreadable [where sections = "m_Body m"] unfolding unreadable_def by blast+
  then have "yields isl (messageToJSON env lib c m)"
    unfolding messageToJSON_def by (auto intro!: yields_bind_after [where P = isl] simp: isl_def)
  then show ?thesis
    unfolding imap_processEvent_def by (rule yields_bind_after) (auto simp: isl_def)
qed

definition no_delivery :: "(imap_query, imap_answer) world \<Rightarrow> (imap_query, imap_answer) world \<Rightarrow> bool" where
  "no_delivery w w' \<longleftrightarrow> delivered (hist w') = delivered (hist w)"

interpretation no_delivery: frame no_delivery
  by unfold_locales (auto simp: no_delivery_def)

lemma consume_stopped:
  assumes "stop w"
  shows "wp (imap_consume env lib c False msgs lastUID) (\<lambda>l w'. l = lastUID \<and> no_delivery w w') w"
  using assms
proof (induction msgs arbitrary: w)
  case Nil
  then show ?case by (simp add: wp_simps no_delivery_def)
next
  case (Cons m msgs)
  then show ?case
    by (auto simp: wp_simps intro!: wp_mono [OF Cons.IH]) (simp_all add: no_delivery_def)
qed

text \<open>Messages that are not new come before one that cannot be read: nothing is delivered, and the last UID stays.\<close>

lemma processEvent_blocked:
  assumes "unreadable lib c m" "\<And>err w'. err \<noteq> None \<Longrightarrow> no_delivery w w' \<Longrightarrow> Q err w'"
  shows "wp (imap_processEvent env lib c m) Q w"
proof -
  have "wp (imap_processEvent env lib c m) (\<lambda>err w'. processed (imap_payload c m) (err = None) w w') w"
    by (rule wp_processEvent)
  moreover have "wp (imap_processEvent env lib c m) (\<lambda>err _. err \<noteq> None) w"
    using processEvent_unreadable [OF assms(1)] by (rule yields_wp)
  ultimately have "wp (imap_processEvent env lib c m) (\<lambda>err w'. processed (imap_payload c m) (err = None) w w' \<and> err \<noteq> None) w"
    by (rule wp_conj)
  then show ?thesis by (rule wp_mono) (auto intro!: assms(2) simp: processed_def no_delivery_def)
qed

lemma consume_blocked:
  assumes "\<forall>x\<in>set old. m_Uid x \<le> lastUID" "unreadable lib c m" "lastUID < m_Uid m"
  shows "wp (imap_consume env lib c False (old @ m # rest) lastUID) (\<lambda>l w'. l = lastUID \<and> no_delivery w w') w"
  using assms
proof (induction old arbitrary: w)
  case Nil
  show ?case
    using Nil.prems
    by (auto simp: wp_simps intro!: wp_mono [OF consume_stopped] processEvent_blocked) (simp_all add: no_delivery_def)
next
  case (Cons x old)
  then show ?case
    by (auto simp: wp_simps intro!: wp_mono [OF Cons.IH]) (simp_all add: no_delivery_def)
qed

text \<open>A message that cannot be read blocks the mailbox. As long as the server lists it first of those above the last UID,
  every turn fails on it and starts again from the same UID: nothing is delivered in any number of turns.
\<close>

theorem imap_blocked_by_unreadable:
  assumes "\<And>h. fst (messages_of (e_call env h (ImapUidFetch (lastUID + 1)))) = old @ m # rest"
    and "\<forall>x\<in>set old. m_Uid x \<le> lastUID" "lastUID < m_Uid m" "unreadable lib c m"
  shows "wp (imap_loop env lib c isFirstRun n lastUID) (\<lambda>_ w'. delivered (hist w') = delivered (hist w)) w"
proof -
  have blocked: "wp (imap_consume env lib c False (fst (messages_of (e_call env h (ImapUidFetch (lastUID + 1))))) lastUID) Q w1"
    if "\<And>w'. no_delivery w1 w' \<Longrightarrow> Q lastUID w'" for h Q w1
    unfolding assms(1) by (rule wp_mono [OF consume_blocked]) (use assms that in auto)
  have turn: "wp (imap_turn env lib c lastUID) Q w1"
    if "\<And>r w'. r = None \<or> r = Some lastUID \<Longrightarrow> no_delivery w1 w' \<Longrightarrow> Q r w'" for Q w1
    unfolding imap_turn_def wp_bind wp_call
    by (auto simp: wp_simps split: option.split intro!: blocked that) (simp_all add: no_delivery_def)
  have "wp (imap_loop env lib c isFirstRun n lastUID) (\<lambda>_ w'. no_delivery w w') w"
  proof (induction n arbitrary: isFirstRun w)
    case 0
    then show ?case by (simp add: wp_simps no_delivery_def)
  next
    case (Suc n)
    have again: "wp (imap_loop env lib c False n lastUID) (\<lambda>_. no_delivery w) w1" if "no_delivery w w1" for w1
      by (rule wp_mono [OF Suc.IH]) (use that in \<open>auto simp: no_delivery_def\<close>)
    show ?case
      by (auto simp: wp_simps intro!: turn again) (auto simp: no_delivery_def)
  qed
  then show ?thesis by (simp add: no_delivery_def)
qed

section \<open>The size limit\<close>

lemma upload_limit [simp]: "imap_upload env lib (c\<lparr>im_MaxBodySize := k\<rparr>) = imap_upload env lib c"
  by (intro ext) (simp add: imap_upload_def)

lemma parts_limit [simp]: "imap_parts env lib (c\<lparr>im_MaxBodySize := k\<rparr>) parts = imap_parts env lib c parts"
  by (induction env lib c parts rule: imap_parts.induct) (auto split: sum.split prod.split)

lemma attachments_limit [simp]: "imap_attachments env lib (c\<lparr>im_MaxBodySize := k\<rparr>) b = imap_attachments env lib c b"
  by (simp add: imap_attachments_def split: sum.split)

lemma sections_limit [simp]:
  "imap_sections env lib (c\<lparr>im_MaxBodySize := k\<rparr>) allowed sections bdy = imap_sections env lib c allowed sections bdy"
  by (induction sections arbitrary: bdy)
    (auto simp: uploads_attachments_def split: sum.split)

text \<open>
  The size limit is compared with the number of sections of a message, of which a fetch asks for two: any limit of two
  or more, whatever the length of the text, is no limit.
\<close>

theorem imap_size_limit_without_effect:
  assumes "length (m_Body m) \<le> 2" "2 \<le> im_MaxBodySize c"
  shows "messageToJSON env lib c m = messageToJSON env lib (c\<lparr>im_MaxBodySize := 0\<rparr>) m"
  using assms by (simp add: messageToJSON_def size_allowed_def)

section \<open>The first UID\<close>

text \<open>
  A mailbox: the UIDs of its messages and their dates, in the order of the sequence numbers, which begin with one. A search
  gives sequence numbers; a fetch of UIDs the messages with these UIDs.
\<close>

type_synonym mailbox = "(32 word \<times> time) list"

definition search_since :: "mailbox \<Rightarrow> time \<Rightarrow> 32 word list" where
  "search_since box since = map (\<lambda>i. word_of_nat (Suc i)) (filter (\<lambda>i. since \<le> snd (box ! i)) [0..<length box])"

definition fetch_uids :: "mailbox \<Rightarrow> 32 word list \<Rightarrow> 32 word list" where
  "fetch_uids box ns = filter (\<lambda>u. u \<in> set ns) (map fst box)"

lemma search_since_bound:
  assumes "s \<in> set (search_since box since)"
  shows "unat s \<le> length box"
proof -
  obtain i where "i < length box" "s = word_of_nat (Suc i)"
    using assms unfolding search_since_def by auto
  moreover have "unat (word_of_nat (Suc i) :: 32 word) \<le> Suc i"
    by (simp only: unat_of_nat) (rule mod_less_eq_dividend)
  ultimately show ?thesis by simp
qed

lemma search_since_Cons:
  "search_since box since = s # ss \<Longrightarrow> unat s \<le> length box \<and> (\<forall>s\<in>set ss. unat s \<le> length box)"
  using search_since_bound [of _ box since] by auto

text \<open>
  The sequence numbers of the search are used as UIDs. In a mailbox whose UIDs are all above the number of its messages,
  as after deletions, none of them is the UID of a message: the adapter starts from zero and ships the mailbox from its
  first message, although it was not configured to.
\<close>

theorem imap_first_uid_missed:
  assumes "\<not> im_FromZero c" "\<forall>u\<in>fst ` set box. length box < unat u"
    and "\<And>h since. e_call env h (ImapSearch since) = ISeqs (Inr (search_since box since))"
    and "\<And>h ns. e_call env h (ImapUids ns) = IUids (fetch_uids box ns) (DoneErr None)"
  shows "fst (run_state (getLastUID env c) w) = Inr 0"
proof -
  have searched: "wp (imap_search env days i seqs) (\<lambda>r _. \<exists>ns. r = Inr ns \<and> (\<forall>s\<in>set ns. unat s \<le> length box)) w1"
    if "\<forall>s\<in>set seqs. unat s \<le> length box" for days i seqs w1
    using that
  proof (induction days arbitrary: i seqs w1)
    case (Suc days)
    then show ?case
      by (auto simp: wp_simps assms(3) seqs_of_def split: list.split dest!: search_since_Cons)
  qed (auto simp: wp_simps)
  have none: "fetch_uids box ns = []" if "\<forall>s\<in>set ns. unat s \<le> length box" for ns
    using that assms(2) unfolding fetch_uids_def by (fastforce simp: filter_empty_conv)
  have "wp (getLastUID env c) (\<lambda>r _. r = Inr 0) w"
    unfolding getLastUID_def
    by (auto simp: wp_simps assms(1,4) uids_of_def none waitForErrorFromChanForDuration_def intro!: wp_mono [OF searched])
  then show ?thesis by (auto simp: wp_def split: prod.splits)
qed

section \<open>Concrete runs\<close>

definition demo_config :: imap_config where
  "demo_config = \<lparr>im_Server = ''mail'', im_UserName = ''u'', im_Password = ''p'', im_InboxName = ''INBOX'', im_IsInsecure = False,
     im_FromZero = False, im_IncludeAttachments = False, im_MaxBodySize = 0, im_AttachmentIngestKey = '''',
     im_AttachmentRetentionDays = 30, im_Hostname = ''h''\<rparr>"

definition demo_lib :: mail_lib where
  "demo_lib = \<lparr>create_reader = \<lambda>s. Inr [], sha256_hex = \<lambda>s. s, parseSeqSet = \<lambda>n. None\<rparr>"

definition demo_mail :: "32 word \<Rightarrow> go_err + string \<Rightarrow> imap_message" where
  "demo_mail uid literal = \<lparr>m_Uid = uid, m_Body = [('''', literal)]\<rparr>"

text \<open>A server with one answer to every fetch, and a mailbox.\<close>

definition demo_answer :: "imap_message list \<Rightarrow> mailbox \<Rightarrow> imap_query \<Rightarrow> imap_answer" where
  "demo_answer ms box q =
     (case q of
        ImapUidFetch n \<Rightarrow> IMessages ms (DoneErr None)
      | ImapSearch t \<Rightarrow> ISeqs (Inr (search_since box t))
      | ImapUids ns \<Rightarrow> IUids (fetch_uids box ns) (DoneErr None)
      | _ \<Rightarrow> IErr None)"

abbreviation demo_env :: "imap_message list \<Rightarrow> mailbox \<Rightarrow> imap_env" where
  "demo_env ms box \<equiv> steady_env 0 (demo_answer ms box)"

definition demo_turn :: "32 word option \<times> (imap_query, imap_answer) world" where
  "demo_turn = run_state (imap_turn (demo_env [demo_mail 5 (Inr ''a''), demo_mail 8 (Inr ''b''), demo_mail 7 (Inr ''c''),
     demo_mail 9 (Inr ''d'')] []) demo_lib demo_config 5) fresh_world"

theorem imap_delivers_new_witness:
  "fst demo_turn = Some 9 \<and> delivered (hist (snd demo_turn)) = [TextPayload ''b'', TextPayload ''d'']"
proof -
  let ?ms = "[demo_mail 5 (Inr ''a''), demo_mail 8 (Inr ''b''), demo_mail 7 (Inr ''c''), demo_mail 9 (Inr ''d'')]"
  have run: "fst demo_turn \<noteq> None" "\<not> stop (snd demo_turn)" "failures (hist (snd demo_turn)) = 0"
    by code_simp+
  have answer: "turn_answer (demo_env ?ms []) demo_config 5 (hist fresh_world) = ?ms"
    by (simp add: turn_answer_def demo_answer_def messages_of_def)
  have new: "new_messages 5 ?ms = [demo_mail 8 (Inr ''b''), demo_mail 9 (Inr ''d'')]"
    by (simp add: demo_mail_def)
  have "delivered (hist (snd demo_turn)) = map (imap_payload demo_config) (new_messages 5 ?ms) \<and>
      fst demo_turn = Some (last (5 # map m_Uid (new_messages 5 ?ms)))"
    using imap_delivers_new [of "demo_env ?ms []" demo_lib demo_config 5 fresh_world] run
    unfolding wp_def case_prod_beta Let_def answer demo_turn_def by (auto simp: failures_def)
  then show ?thesis
    unfolding new by (simp add: demo_mail_def imap_payload_def size_allowed_def demo_config_def)
qed

theorem imap_blocked_by_unreadable_witness:
  "wp (imap_loop (demo_env [demo_mail 5 (Inr ''a''), demo_mail 6 (Inl (GoErr ''eof'')), demo_mail 7 (Inr ''b'')] []) demo_lib
       demo_config True 1000 5) (\<lambda>_ w'. delivered (hist w') = []) fresh_world"
  using imap_blocked_by_unreadable [of "demo_env [demo_mail 5 (Inr ''a''), demo_mail 6 (Inl (GoErr ''eof'')), demo_mail 7 (Inr ''b'')] []" 5
      "[demo_mail 5 (Inr ''a'')]" "demo_mail 6 (Inl (GoErr ''eof''))" "[demo_mail 7 (Inr ''b'')]" demo_lib demo_config True 1000 fresh_world]
  by (simp add: demo_answer_def messages_of_def demo_mail_def unreadable_def size_allowed_def demo_config_def)

theorem imap_size_limit_without_effect_witness:
  "messageToJSON (demo_env [] []) demo_lib (demo_config\<lparr>im_MaxBodySize := 2\<rparr>) (demo_mail 5 (Inr ''more than two bytes'')) =
     messageToJSON (demo_env [] []) demo_lib demo_config (demo_mail 5 (Inr ''more than two bytes''))"
  using imap_size_limit_without_effect [of "demo_mail 5 (Inr ''more than two bytes'')" "demo_config\<lparr>im_MaxBodySize := 2\<rparr>"
      "demo_env [] []" demo_lib]
  by (simp add: demo_mail_def demo_config_def)

theorem imap_first_uid_missed_witness:
  "fst (run_state (getLastUID (demo_env [] [(101, 0), (102, 0)]) demo_config) fresh_world) = Inr 0"
  using imap_first_uid_missed [of demo_config "[(101, 0), (102, 0)]" "demo_env [] [(101, 0), (102, 0)]" fresh_world]
  by (simp add: demo_answer_def demo_config_def)

end
