(* ===== verification/Microsoft.thy ===== *)
theory Microsoft
  imports Frame Polling Json_Access
begin

text \<open>
  \<open>ms_graph/client.go\<close>, \<open>defender/client.go\<close>, \<open>entraid/client.go\<close>: three adapters for the Microsoft Graph API. Every half
  minute each asks for the alerts from a date on and remembers the date and the identifier of the last one. The first two
  have the same code but for texts and the address; the third retries in another way. \<open>format\<close> is the layout
  \<open>2006-01-02T15:04:05.000000Z\<close> applied to a time. Times of alerts are never parsed, so they are strings here too.
\<close>

section \<open>Configuration\<close>

record ms_config =
  ms_TenantID :: string
  ms_ClientID :: string
  ms_ClientSecret :: string

record ms_graph_config = ms_config +
  ms_URL :: string

definition defender_Validate :: "go_err option \<Rightarrow> ms_config \<Rightarrow> go_err option" where
  "defender_Validate client_err c =
     (case client_err of
        Some e \<Rightarrow> Some (GoWrap ''client_options: %v'' e)
      | None \<Rightarrow>
          if ms_TenantID c = '''' then Some (GoErr ''missing tenant_id'')
          else if ms_ClientID c = '''' then Some (GoErr ''missing client_id'')
          else if ms_ClientSecret c = '''' then Some (GoErr ''missing client_secret'')
          else None)"

definition entraid_Validate :: "go_err option \<Rightarrow> ms_config \<Rightarrow> go_err option" where
  "entraid_Validate client_err c =
     (case client_err of
        Some e \<Rightarrow> Some (GoWrap ''client_options: %v'' e)
      | None \<Rightarrow>
          if ms_TenantID c = '''' then Some (GoErr ''missing tenant_id'')
          else if ms_ClientID c = '''' then Some (GoErr ''missing client_id'')
          else if ms_ClientSecret c = '''' then Some (GoErr ''missing client_secret'')
          else None)"

definition ms_graph_Validate :: "go_err option \<Rightarrow> ms_graph_config \<Rightarrow> go_err option" where
  "ms_graph_Validate client_err c =
     (case client_err of
        Some e \<Rightarrow> Some (GoWrap ''client_options: %v'' e)
      | None \<Rightarrow>
          if ms_TenantID c = '''' then Some (GoErr ''missing tenant_id'')
          else if ms_ClientID c = '''' then Some (GoErr ''missing client_id'')
          else if ms_ClientSecret c = '''' then Some (GoErr ''missing client_secret'')
          else if ms_URL c = '''' then Some (GoErr ''missing url'')
          else None)"

definition ms_scope :: string where "ms_scope = ''https://graph.microsoft.com/.default''"
definition ms_URLPrefix :: string where "ms_URLPrefix = ''https://graph.microsoft.com/v1.0/''"
definition defender_URL :: string where "defender_URL = ''https://graph.microsoft.com/v1.0/security/alerts_v2''"
definition entraid_URL :: string where "entraid_URL = ''https://graph.microsoft.com/v1.0/identityProtection/riskDetections''"

text \<open>The constructors give the address the loop is started with.\<close>

definition NewMsGraphAdapter :: "go_err option \<Rightarrow> ms_graph_config \<Rightarrow> go_err + string" where
  "NewMsGraphAdapter client_err c =
     (case client_err of Some e \<Rightarrow> Inl e | None \<Rightarrow> Inr (ms_URLPrefix @ trim_prefix (ms_URL c) ''/''))"

definition NewDefenderAdapter :: "go_err option \<Rightarrow> go_err + string" where
  "NewDefenderAdapter client_err = (case client_err of Some e \<Rightarrow> Inl e | None \<Rightarrow> Inr defender_URL)"

definition NewEntraIDAdapter :: "go_err option \<Rightarrow> go_err + string" where
  "NewEntraIDAdapter client_err = (case client_err of Some e \<Rightarrow> Inl e | None \<Rightarrow> Inr entraid_URL)"

definition ms_graph_Close :: "('q, 'r) env \<Rightarrow> ('q, 'r, go_err option) io" where
  "ms_graph_Close env = close_adapter env"

definition defender_Close :: "('q, 'r) env \<Rightarrow> ('q, 'r, go_err option) io" where
  "defender_Close env = close_adapter env"

definition entraid_Close :: "('q, 'r) env \<Rightarrow> ('q, 'r, go_err option) io" where
  "entraid_Close env = close_adapter env"

section \<open>Requests\<close>

text \<open>
  A token request has the tenant, the client, its secret and the scope; a list request its address and the token.
  Entra ID builds the list request before it asks for the token, which is the query \<open>MsNewRequest\<close>: an error, or anything else.
\<close>

datatype ms_query =
    MsToken string string string string
  | MsList string string
  | MsNewRequest string

type_synonym 'a ms_io = "(ms_query, dict http, 'a) io"
type_synonym ms_env = "(ms_query, dict http) env"

definition no_bearer :: "go_err \<Rightarrow> go_err" where
  "no_bearer = GoWrap ''no bearer token returned: %s''"

definition token_of_answer :: "dict http \<Rightarrow> go_err + string" where
  "token_of_answer resp =
     (case resp of
        NewRequestErr e \<Rightarrow> Inl (no_bearer e)
      | DoErr e \<Rightarrow> Inl (no_bearer e)
      | Resp code (Some e) bd \<Rightarrow> Inl (no_bearer e)
      | Resp code None (Inl e) \<Rightarrow> Inl (no_bearer e)
      | Resp code None (Inr result) \<Rightarrow>
          (case Option.bind (map_of result ''access_token'') as_string of
             Some accessToken \<Rightarrow> Inr accessToken
           | None \<Rightarrow> Inl (GoErr ''no bearer token returned: %#v'')))"

definition ms_graph_fetchToken :: "ms_env \<Rightarrow> 'x ms_config_scheme \<Rightarrow> (go_err + string) ms_io" where
  "ms_graph_fetchToken env c = do {
     resp \<leftarrow> call env (MsToken (ms_TenantID c) (ms_ClientID c) (ms_ClientSecret c) ms_scope);
     ret (token_of_answer resp)
   }"

definition defender_fetchToken :: "ms_env \<Rightarrow> ms_config \<Rightarrow> (go_err + string) ms_io" where
  "defender_fetchToken env c = ms_graph_fetchToken env c"

definition entraid_fetchToken :: "ms_env \<Rightarrow> ms_config \<Rightarrow> (go_err + string) ms_io" where
  "entraid_fetchToken env c = ms_graph_fetchToken env c"

text \<open>The query part: \<open>?%24filter=<field>%20ge%20<since>\<close>, with the colons of the time escaped.\<close>

definition escape_colons :: "string \<Rightarrow> string" where
  "escape_colons s = concat (map (\<lambda>c. if c = CHR '':'' then ''%3A'' else [c]) s)"

definition date_filter :: "string \<Rightarrow> string \<Rightarrow> string" where
  "date_filter field since = ''?%24filter='' @ field @ ''%20ge%20'' @ escape_colons since"

text \<open>The assertions \<open>.(map[string]interface{})\<close> and \<open>.([]interface{})\<close>.\<close>

definition as_map :: "gval \<Rightarrow> dict option" where
  "as_map v = (case v of GMap d \<Rightarrow> Some d | _ \<Rightarrow> None)"

definition as_slice :: "gval \<Rightarrow> gval list option" where
  "as_slice v = (case v of GSlice vs \<Rightarrow> Some vs | _ \<Rightarrow> None)"

text \<open>
  The loop over the detections: the alerts kept, the time of the last of them, and the identifier of the last detection
  that has one.
\<close>

fun ms_scan :: "string \<Rightarrow> string \<Rightarrow> gval list \<Rightarrow> string \<Rightarrow> string \<Rightarrow> dict list \<times> string \<times> string" where
  "ms_scan field lastEventId [] lastDetectionTime eventId = ([], lastDetectionTime, eventId)"
| "ms_scan field lastEventId (detection # detections) lastDetectionTime eventId =
     (case as_map detection of
        None \<Rightarrow> ms_scan field lastEventId detections lastDetectionTime eventId
      | Some detectMap \<Rightarrow>
          (case Option.bind (map_of detectMap ''id'') as_string of
             None \<Rightarrow> ms_scan field lastEventId detections lastDetectionTime eventId
           | Some i \<Rightarrow>
               if i \<noteq> lastEventId then
                 (case Option.bind (map_of detectMap field) as_string of
                    None \<Rightarrow> ms_scan field lastEventId detections lastDetectionTime i
                  | Some t \<Rightarrow> (case ms_scan field lastEventId detections t i of (alerts, t', e') \<Rightarrow> (detectMap # alerts, t', e')))
               else ms_scan field lastEventId detections lastDetectionTime i))"

section \<open>Graph and Defender\<close>

text \<open>The texts in which the two adapters differ.\<close>

record ms_texts =
  tx_create :: string
  tx_make :: string
  tx_read :: string
  tx_gone :: string
  tx_retry :: string
  tx_refused :: string
  tx_parse :: string

definition ms_graph_texts :: ms_texts where
  "ms_graph_texts = \<lparr>tx_create = ''error creating request: %s'', tx_make = ''error making request: %s'',
     tx_read = ''error reading response: %s'', tx_gone = ''Microsoft API returned %d after 3 attempts: %s'',
     tx_retry = ''Microsoft API returned %d (attempt %d), retrying: %s'',
     tx_refused = ''error response from Microsoft API, be sure to verify permissions and Microsoft API status: %s'',
     tx_parse = ''error parsing JSON: %v''\<rparr>"

definition newline :: string where "newline = [CHR 10]"

definition defender_texts :: ms_texts where
  "defender_texts = \<lparr>tx_create = ''Error creating request: %s'' @ newline, tx_make = ''Error making request: %s'' @ newline,
     tx_read = ''Error reading response: %s'' @ newline, tx_gone = ''Microsoft API returned %d after 3 attempts: %s'' @ newline,
     tx_retry = ''Microsoft API returned %d (attempt %d), retrying: %s'' @ newline,
     tx_refused = ''Error response from Microsoft API, be sure to verify permissions and Microsoft API status: %s'' @ newline,
     tx_parse = ''Error parsing JSON: %v''\<rparr>"

type_synonym ms_result = "dict list \<times> string \<times> string \<times> go_err option"

text \<open>An error is reported; the time stays, the identifier is forgotten.\<close>

definition ms_fail :: "string \<Rightarrow> go_err \<Rightarrow> go_err \<Rightarrow> ms_result ms_io" where
  "ms_fail since reported err = do { onError reported; ret ([], since, '''', Some err) }"

definition ms_sleep :: "ms_env \<Rightarrow> duration \<Rightarrow> unit ms_io" where
  "ms_sleep env d = do { woken \<leftarrow> waitFor env d; ret () }"

text \<open>\<open>data["value"].([]interface{})\<close>: a value of another type counts as no detections.\<close>

definition ms_detections :: "dict \<Rightarrow> gval list" where
  "ms_detections data = (case Option.bind (map_of data ''value'') as_slice of Some ds \<Rightarrow> ds | None \<Rightarrow> [])"

text \<open>The attempts: \<open>left\<close> more than this one, which has the number \<open>3 - left\<close>.\<close>

fun ms_attempts ::
    "ms_env \<Rightarrow> ms_texts \<Rightarrow> 'x ms_config_scheme \<Rightarrow> string \<Rightarrow> string \<Rightarrow> string \<Rightarrow> nat \<Rightarrow> ms_result ms_io" where
  "ms_attempts env tx c eventsUrl since lastEventId left = do {
     token \<leftarrow> ms_graph_fetchToken env c;
     case token of
       Inl err \<Rightarrow>
         (case left of
            Suc l \<Rightarrow> do {
              onWarning ''error fetching token (attempt %d), retrying: %s'';
              ms_sleep env (int (3 - left) * second);
              ms_attempts env tx c eventsUrl since lastEventId l
            }
          | 0 \<Rightarrow> (let e = GoWrap ''error fetching token after 3 attempts: %s'' err in ms_fail since e e))
     | Inr authToken \<Rightarrow> do {
         resp \<leftarrow> call env (MsList (eventsUrl @ date_filter ''createdDateTime'' since) authToken);
         case resp of
           NewRequestErr e \<Rightarrow> ms_fail since (GoWrap (tx_create tx) e) e
         | DoErr e \<Rightarrow> ms_fail since (GoWrap (tx_make tx) e) e
         | Resp code (Some e) bd \<Rightarrow> ms_fail since (GoWrap (tx_read tx) e) e
         | Resp code None bd \<Rightarrow>
             if code \<noteq> 200 then
               (if code = 503 \<or> code = 504 then
                  (case left of
                     Suc l \<Rightarrow> do {
                       onWarning (tx_retry tx);
                       ms_sleep env (int (3 - left) * second);
                       ms_attempts env tx c eventsUrl since lastEventId l
                     }
                   | 0 \<Rightarrow> ms_fail since (GoErr (tx_gone tx)) (GoErr (tx_gone tx)))
                else ms_fail since (GoErr (tx_refused tx)) (GoErr (tx_refused tx)))
             else (case bd of
                     Inl e \<Rightarrow> ms_fail since (GoWrap (tx_parse tx) e) e
                   | Inr data \<Rightarrow>
                       (case ms_scan ''createdDateTime'' lastEventId (ms_detections data) since '''' of
                          (alerts, lastDetectionTime, eventId) \<Rightarrow> ret (alerts, lastDetectionTime, eventId, None)))
       }
   }"

declare ms_attempts.simps [simp del]

definition ms_graph_makeOneListRequest ::
    "ms_env \<Rightarrow> ms_graph_config \<Rightarrow> string \<Rightarrow> string \<Rightarrow> string \<Rightarrow> ms_result ms_io" where
  "ms_graph_makeOneListRequest env c eventsUrl since lastEventId = ms_attempts env ms_graph_texts c eventsUrl since lastEventId 2"

definition defender_makeOneListRequest :: "ms_env \<Rightarrow> ms_config \<Rightarrow> string \<Rightarrow> string \<Rightarrow> string \<Rightarrow> ms_result ms_io" where
  "defender_makeOneListRequest env c eventsUrl since lastEventId = ms_attempts env defender_texts c eventsUrl since lastEventId 2"

section \<open>Entra ID\<close>

definition request_error :: "dict http \<Rightarrow> go_err option" where
  "request_error r = (case r of NewRequestErr e \<Rightarrow> Some e | _ \<Rightarrow> None)"

text \<open>Every attempt appends the filter to the address of the one before.\<close>

fun entraid_attempts :: "ms_env \<Rightarrow> ms_config \<Rightarrow> string \<Rightarrow> string \<Rightarrow> string \<Rightarrow> nat \<Rightarrow> ms_result ms_io" where
  "entraid_attempts env c eventsUrl since lastEventId left =
     (let eventsUrl = eventsUrl @ date_filter ''activityDateTime'' since in
      do {
        req \<leftarrow> call env (MsNewRequest eventsUrl);
        case request_error req of
          Some e \<Rightarrow> ms_fail since (GoWrap ''error creating request: %s'' e) e
        | None \<Rightarrow> do {
          token \<leftarrow> entraid_fetchToken env c;
          case token of
            Inl err \<Rightarrow> ms_fail since (GoWrap ''error fetching token: %s'' err) err
          | Inr authToken \<Rightarrow> do {
              resp \<leftarrow> call env (MsList eventsUrl authToken);
              case resp of
                NewRequestErr e \<Rightarrow> ms_fail since (GoWrap ''error making request: %s'' e) e
              | DoErr e \<Rightarrow> ms_fail since (GoWrap ''error making request: %s'' e) e
              | Resp code (Some e) bd \<Rightarrow> ms_fail since (GoWrap ''error reading response: %s'' e) e
              | Resp code None bd \<Rightarrow>
                  if code \<noteq> 200 then do {
                    onError (GoErr ''error response from Microsoft API, be sure to verify permissions and Microsoft API status (attempt %d): %s'');
                    (case left of
                       Suc l \<Rightarrow> entraid_attempts env c eventsUrl since lastEventId l
                     | 0 \<Rightarrow> ret ([], since, '''', Some (GoErr ''error response from Microsoft API, be sure to verify permissions and Microsoft API status (attempt 3): %s'')))
                  }
                  else (case bd of
                          Inl e \<Rightarrow> ms_fail since (GoWrap ''error parsing JSON: %v'' e) e
                        | Inr data \<Rightarrow>
                            (case ms_scan ''activityDateTime'' lastEventId (ms_detections data) since '''' of
                               (alerts, lastDetectionTime, eventId) \<Rightarrow> ret (alerts, lastDetectionTime, eventId, None)))
            }
        }
      })"

declare entraid_attempts.simps [simp del]

definition entraid_makeOneListRequest :: "ms_env \<Rightarrow> ms_config \<Rightarrow> string \<Rightarrow> string \<Rightarrow> string \<Rightarrow> ms_result ms_io" where
  "entraid_makeOneListRequest env c eventsUrl since lastEventId = entraid_attempts env c eventsUrl since lastEventId 2"

section \<open>The loop\<close>

text \<open>The state is the time and the identifier of the last alert; the error of a request is not looked at.\<close>

definition ms_turn :: "(string \<Rightarrow> string \<Rightarrow> ms_result ms_io) \<Rightarrow> string \<times> string \<Rightarrow> (dict list \<times> string \<times> string) option ms_io" where
  "ms_turn request st = do {
     (items, newSince, eventId, err) \<leftarrow> request (fst st) (snd st);
     ret (Some (items, newSince, eventId))
   }"

definition ms_graph_fetchEvents :: "ms_env \<Rightarrow> (time \<Rightarrow> string) \<Rightarrow> ms_graph_config \<Rightarrow> string \<Rightarrow> nat \<Rightarrow> (string \<times> string) ms_io" where
  "ms_graph_fetchEvents env format c addr n = do {
     t \<leftarrow> now env;
     poll_loop env (30 * second) (ms_turn (ms_graph_makeOneListRequest env c addr)) n (format t, '''')
   }"

definition defender_fetchEvents :: "ms_env \<Rightarrow> (time \<Rightarrow> string) \<Rightarrow> ms_config \<Rightarrow> string \<Rightarrow> nat \<Rightarrow> (string \<times> string) ms_io" where
  "defender_fetchEvents env format c addr n = do {
     t \<leftarrow> now env;
     poll_loop env (30 * second) (ms_turn (defender_makeOneListRequest env c addr)) n (format t, '''')
   }"

definition entraid_fetchEvents :: "ms_env \<Rightarrow> (time \<Rightarrow> string) \<Rightarrow> ms_config \<Rightarrow> string \<Rightarrow> nat \<Rightarrow> (string \<times> string) ms_io" where
  "entraid_fetchEvents env format c addr n = do {
     t \<leftarrow> now env;
     poll_loop env (30 * second) (ms_turn (entraid_makeOneListRequest env c addr)) n (format t, '''')
   }"

section \<open>Alerts that were listed\<close>

text \<open>The detections of the accepted list requests, and those that have an identifier and a time.\<close>

fun accepted :: "ms_query \<times> dict http \<Rightarrow> gval list" where
  "accepted (MsList u k, Resp code None (Inr data)) = (if code = 200 then ms_detections data else [])"
| "accepted _ = []"

lemma accepted_refused [simp]: "code \<noteq> 200 \<Longrightarrow> accepted (MsList u k, Resp code rd bd) = []"
  by (cases rd; cases bd) auto

definition listed :: "(ms_query, dict http) history \<Rightarrow> gval set" where
  "listed h = (\<Union>qr\<in>set (calls h). set (accepted qr))"

definition alert_id :: "gval \<Rightarrow> string" where
  "alert_id v = (case as_map v of Some d \<Rightarrow> string_field d ''id'' | None \<Rightarrow> '''')"

definition proper :: "string \<Rightarrow> gval \<Rightarrow> bool" where
  "proper field v =
     (case as_map v of
        Some d \<Rightarrow> alert_id v \<noteq> '''' \<and> Option.bind (map_of d field) as_string \<noteq> None
      | None \<Rightarrow> False)"

abbreviation item_ids :: "dict list \<Rightarrow> string set" where
  "item_ids items \<equiv> (\<lambda>d. string_field d ''id'') ` set items"

lemma string_field_nonempty: "string_field d k \<noteq> '''' \<Longrightarrow> Option.bind (map_of d k) as_string = Some (string_field d k)"
  by (auto simp: string_field_def as_string_def split: option.splits gval.splits)

lemma proper_cases:
  assumes "proper field v"
  obtains d t where "as_map v = Some d" "Option.bind (map_of d ''id'') as_string = Some (alert_id v)" "alert_id v \<noteq> ''''"
    "Option.bind (map_of d field) as_string = Some t" "string_field d ''id'' = alert_id v"
proof -
  from assms obtain d where d: "as_map v = Some d" "alert_id v \<noteq> ''''" "Option.bind (map_of d field) as_string \<noteq> None"
    by (auto simp: proper_def split: option.splits)
  then have "string_field d ''id'' = alert_id v" by (simp add: alert_id_def)
  with d string_field_nonempty [of d "''id''"] that show thesis by (metis option.exhaust)
qed

text \<open>The identifiers of proper detections, and of those that are not proper.\<close>

definition proper_ids :: "string \<Rightarrow> gval set \<Rightarrow> string set" where
  "proper_ids field vs = alert_id ` {v \<in> vs. proper field v}"

definition improper_ids :: "string \<Rightarrow> gval set \<Rightarrow> string set" where
  "improper_ids field vs = alert_id ` {v \<in> vs. \<not> proper field v}"

lemma ids_simps [simp]:
  "proper_ids field {} = {}" "proper_ids field (insert v vs) = (if proper field v then {alert_id v} else {}) \<union> proper_ids field vs"
  "proper_ids field (vs \<union> vs') = proper_ids field vs \<union> proper_ids field vs'"
  "improper_ids field {} = {}" "improper_ids field (insert v vs) = (if proper field v then {} else {alert_id v}) \<union> improper_ids field vs"
  "improper_ids field (vs \<union> vs') = improper_ids field vs \<union> improper_ids field vs'"
  by (auto simp: proper_ids_def improper_ids_def)

lemma proper_ids_nonempty: "'''' \<notin> proper_ids field vs"
  by (auto simp: proper_ids_def proper_def split: option.splits)

lemma alert_id_of: "as_map v = Some d \<Longrightarrow> Option.bind (map_of d ''id'') as_string = Some i \<Longrightarrow> alert_id v = i"
  by (cases "map_of d ''id''") (auto simp: alert_id_def string_field_def as_string_def split: gval.splits)

lemma scan_ids:
  assumes "ms_scan field prev ds t e = (alerts, t', e')"
  shows "proper_ids field (set ds) \<subseteq> insert prev (item_ids alerts) \<and>
    e' \<in> insert e (insert prev (item_ids alerts \<union> improper_ids field (set ds)))"
  using assms
proof (induction ds arbitrary: t e alerts t' e')
  case Nil
  then show ?case by simp
next
  case (Cons v ds)
  show ?case
  proof (cases "proper field v")
    case True
    then obtain d t1 where v: "as_map v = Some d" "Option.bind (map_of d ''id'') as_string = Some (alert_id v)"
      "Option.bind (map_of d field) as_string = Some t1" "string_field d ''id'' = alert_id v"
      by (rule proper_cases) blast
    show ?thesis
    proof (cases "alert_id v = prev")
      case same: True
      with Cons.prems v have "ms_scan field prev ds t (alert_id v) = (alerts, t', e')" by simp
      from Cons.IH [OF this] same True show ?thesis by auto
    next
      case False
      obtain as where s: "ms_scan field prev ds t1 (alert_id v) = (as, t', e')" "alerts = d # as"
        using Cons.prems v False by (auto split: prod.splits)
      from Cons.IH [OF s(1)] s(2) v True show ?thesis by auto
    qed
  next
    case False
    consider "ms_scan field prev ds t e = (alerts, t', e')"
      | "ms_scan field prev ds t (alert_id v) = (alerts, t', e')"
      | d as t1 where "alerts = d # as" "ms_scan field prev ds t1 (alert_id v) = (as, t', e')"
      using Cons.prems alert_id_of [of v] by (auto split: option.splits if_splits prod.splits)
    then show ?thesis
    proof cases
      case (3 d as t1)
      then show ?thesis using Cons.IH [OF 3(2)] False by auto
    next
      case 1
      from Cons.IH [OF 1] False show ?thesis by auto
    next
      case 2
      from Cons.IH [OF 2] False show ?thesis by auto
    qed
  qed
qed

section \<open>The contract of a list request\<close>

text \<open>
  What the loop needs from a request: it ships nothing, does not clear the stop event, returns every proper detection whose
  identifier is not that of the last alert, and an identifier that is that one, that of an alert it returns, or an improper one.
\<close>

definition lists_all ::
    "string \<Rightarrow> string \<Rightarrow> (ms_query, dict http) world \<Rightarrow> dict list \<Rightarrow> string \<Rightarrow> (ms_query, dict http) world \<Rightarrow> bool" where
  "lists_all field prev w items e w' \<longleftrightarrow> adds w [] [] w' \<and> (stop w \<longrightarrow> stop w') \<and>
     (\<exists>ds. listed (hist w') = set ds \<union> listed (hist w) \<and>
       proper_ids field (set ds) \<subseteq> insert prev (item_ids items) \<and>
       e \<in> insert '''' (insert prev (item_ids items \<union> improper_ids field (set ds))))"

definition delivered_set :: "(ms_query, dict http) history \<Rightarrow> string set" where
  "delivered_set h = set (delivered_ids ''id'' h)"

lemma delivered_set_adds:
  "adds w (map JsonPayload items) as w' \<Longrightarrow> delivered_set (hist w') = delivered_set (hist w) \<union> item_ids items"
  by (auto simp: delivered_set_def adds_def delivered_ids_def)

locale alert_source =
  fixes request :: "string \<Rightarrow> string \<Rightarrow> ms_result ms_io"
    and field :: string
  assumes lists: "run_state (request since prev) w = ((items, since', e, err), w') \<Longrightarrow> lists_all field prev w items e w'"
begin

definition covered :: "string set \<Rightarrow> string \<times> string \<Rightarrow> (ms_query, dict http) world \<Rightarrow> bool" where
  "covered fresh st w \<longleftrightarrow> stop w \<or>
     (let D = delivered_set (hist w) \<union> improper_ids field (listed (hist w)) \<union> fresh
      in proper_ids field (listed (hist w)) \<subseteq> D \<and> snd st \<in> insert '''' D)"

lemma covered_start: "listed (hist w) = {} \<Longrightarrow> covered {} (s, '''') w"
  by (simp add: covered_def Let_def)

lemma coveredD: "covered {} st w \<Longrightarrow> \<not> stop w \<Longrightarrow>
    proper_ids field (listed (hist w)) \<subseteq> delivered_set (hist w) \<union> improper_ids field (listed (hist w))"
  by (simp add: covered_def Let_def)

lemma turn_covers:
  assumes "covered {} st w" "run_state (ms_turn request st) w = (Some (items, st'), w')"
  shows "covered (item_ids items) st' w'"
proof -
  obtain since e err where r: "run_state (request (fst st) (snd st)) w = ((items, since, e, err), w')" "st' = (since, e)"
    using assms(2) by (auto simp: ms_turn_def split: prod.splits)
  obtain ds where l: "adds w [] [] w'" "stop w \<longrightarrow> stop w'" "listed (hist w') = set ds \<union> listed (hist w)"
    "proper_ids field (set ds) \<subseteq> insert (snd st) (item_ids items)"
    "e \<in> insert '''' (insert (snd st) (item_ids items \<union> improper_ids field (set ds)))"
    using lists [OF r(1)] unfolding lists_all_def by blast
  have D: "delivered_set (hist w') = delivered_set (hist w)"
    using delivered_set_adds [of w "[]"] l(1) by simp
  show ?thesis
    using assms(1) l D r(2) proper_ids_nonempty [of field "set ds"] unfolding covered_def Let_def by auto
qed

lemma loop_covers:
  assumes "covered {} st w" "run_state (poll_loop env d (ms_turn request) n st) w = (st', w')"
  shows "covered {} st' w'"
proof (rule poll_loop_inv [where I = "covered {}" and J = "\<lambda>items. covered (item_ids items)", OF _ _ _ _ assms])
  show "covered {} st w'" if "covered {} st w" "run_state (waitFor env d) w = (b, w')" for st w b w'
  proof -
    have "listed (hist w') = listed (hist w)" "delivered_set (hist w') = delivered_set (hist w)" "stop w \<longrightarrow> stop w'"
      using that(2) by (auto simp: run_simps listed_def delivered_set_def delivered_ids_def)
    with that(1) show ?thesis by (auto simp: covered_def Let_def)
  qed
  show "covered {} st w'" if "run_state (ms_turn request st) w = (None, w')" for st w w'
    using that by (auto simp: ms_turn_def split: prod.splits)
  show "covered (item_ids items) st' w'"
    if "covered {} st w" "run_state (ms_turn request st) w = (Some (items, st'), w')" for st w items st' w'
    using that by (rule turn_covers)
  show "covered {} st w'"
    if c: "covered (item_ids items) st w" and r: "run_state (ship_items env items) w = (ok, w')" for st w items ok w'
  proof -
    obtain k as where k: "ok \<longleftrightarrow> k = length items" "adds w (map JsonPayload (take k items)) as w'" "stop w' = (stop w \<or> \<not> ok)"
      using ship_items_cases [OF r] by blast
    have "listed (hist w') = listed (hist w)"
      using alongD [OF same_calls_ship_items r] by (simp add: same_calls_def listed_def)
    with k c delivered_set_adds [OF k(2)] show ?thesis
      by (cases ok) (auto simp: covered_def Let_def)
  qed
qed

end

text \<open>What changes nothing the contract speaks of.\<close>

definition idle :: "(ms_query, dict http) world \<Rightarrow> (ms_query, dict http) world \<Rightarrow> bool" where
  "idle w w' \<longleftrightarrow> adds w [] [] w' \<and> (stop w \<longrightarrow> stop w') \<and> listed (hist w') = listed (hist w)"

interpretation idle: frame idle
  by unfold_locales (auto simp: idle_def dest: adds_trans)

lemma idle_call: "accepted (q, r) = [] \<Longrightarrow> idle w (w\<lparr>hist := ECall q r # hist w\<rparr>)"
  by (simp add: idle_def adds_def listed_def)

lemma idle_prims [simp, intro!]:
  "along idle (onError e)" "along idle (onWarning s)" "along idle (waitFor env d)"
  "along idle (call env (MsToken t i s sc))" "along idle (call env (MsNewRequest u))"
  by (auto intro!: alongI idle_call simp: wp_simps) (auto simp: idle_def adds_def listed_def)

lemma idle_sleep [simp, intro!]: "along idle (ms_sleep env d)"
  by (auto simp: ms_sleep_def intro!: idle.rules)

lemma idle_token [simp, intro!]: "along idle (ms_graph_fetchToken env c)"
  by (auto simp: ms_graph_fetchToken_def intro!: idle.rules)

lemma lists_all_idle: "idle w w1 \<Longrightarrow> lists_all field prev w1 items e w' \<Longrightarrow> lists_all field prev w items e w'"
  unfolding idle_def lists_all_def by (auto dest: adds_trans)

lemma lists_all_fail: "idle w w' \<Longrightarrow> lists_all field prev w [] '''' w'"
  unfolding idle_def lists_all_def by (intro conjI exI [of _ "[]"]) simp_all

lemma lists_all_ok:
  assumes "idle w w1" "ms_scan field prev (ms_detections data) since '''' = (alerts, t, e)"
  shows "lists_all field prev w alerts e (w1\<lparr>hist := ECall (MsList u k) (Resp 200 None (Inr data)) # hist w1\<rparr>)"
proof -
  let ?w2 = "w1\<lparr>hist := ECall (MsList u k) (Resp 200 None (Inr data)) # hist w1\<rparr>"
  have "adds w1 [] [] ?w2" by (simp add: adds_def)
  with assms(1) have "adds w [] [] ?w2" "stop w \<longrightarrow> stop ?w2"
    using adds_trans [of w "[]" "[]" w1 "[]" "[]" ?w2] by (simp_all add: idle_def)
  moreover have "listed (hist ?w2) = set (ms_detections data) \<union> listed (hist w)"
    using assms(1) by (simp add: idle_def listed_def)
  ultimately show ?thesis
    using scan_ids [OF assms(2)] unfolding lists_all_def by (intro conjI exI [of _ "ms_detections data"]) simp_all
qed

definition listing :: "string \<Rightarrow> string \<Rightarrow> (ms_query, dict http) world \<Rightarrow> ms_result \<Rightarrow> (ms_query, dict http) world \<Rightarrow> bool" where
  "listing field prev w r w' \<longleftrightarrow> (case r of (items, since, e, err) \<Rightarrow> lists_all field prev w items e w')"

lemma listing_fail: "idle w w1 \<Longrightarrow> wp (ms_fail since err err') (listing field prev w) w1"
  unfolding ms_fail_def by (simp add: wp_simps listing_def) (rule lists_all_fail, auto simp: idle_def adds_def listed_def)

lemma listing_again: "idle w w1 \<Longrightarrow> wp m (listing field prev w1) w1 \<Longrightarrow> wp m (listing field prev w) w1"
  by (erule wp_mono) (auto simp: listing_def intro: lists_all_idle)

lemma idle_called: "idle w w1 \<Longrightarrow> accepted (q, r) = [] \<Longrightarrow> idle w (w1\<lparr>hist := ECall q r # hist w1\<rparr>)"
  by (rule idle.trans [OF _ idle_call])

text \<open>The answer to a list request, for any way of retrying.\<close>

lemma listing_retry:
  assumes "idle w w1" "\<And>w. wp m (listing field prev w) w"
  shows "wp (do { onWarning s; ms_sleep env d; m }) (listing field prev w) w1"
  unfolding wp_bind
proof (rule along_wp [OF idle_prims(2)], rule along_wp [OF idle_sleep])
  show "wp m (listing field prev w) w3" if "idle w1 w2" "idle w2 w3" for w2 w3
    using that assms idle.trans by (blast intro: listing_again)
qed

lemma listing_scan:
  assumes "idle w w1"
  shows "wp (case ms_scan field prev (ms_detections data) since '''' of (alerts, t, e) \<Rightarrow> ret (alerts, t, e, None))
    (listing field prev w) (w1\<lparr>hist := ECall (MsList u k) (Resp 200 None (Inr data)) # hist w1\<rparr>)"
  using lists_all_ok [OF assms] by (auto simp: wp_simps listing_def split: prod.split)

lemma ms_attempts_lists: "wp (ms_attempts env tx c addr since prev left) (listing ''createdDateTime'' prev w) w"
proof (induction left arbitrary: w)
  case 0
  show ?case
    unfolding ms_attempts.simps [of _ _ _ _ _ _ 0] wp_bind [of "ms_graph_fetchToken _ _"]
    by (rule along_wp [OF idle_token])
      (auto simp: wp_simps Let_def split: sum.split http.split option.split
        intro!: listing_fail idle_called listing_scan)
next
  case (Suc left)
  show ?case
    unfolding ms_attempts.simps [of _ _ _ _ _ _ "Suc left"] wp_bind [of "ms_graph_fetchToken _ _"]
    by (rule along_wp [OF idle_token])
      (auto simp: wp_bind [of "call _ _"] wp_call split: sum.split http.split option.split
        intro!: listing_fail idle_called listing_scan listing_retry Suc.IH)
qed

lemma entraid_refusal:
  "idle w w1 \<Longrightarrow> accepted (q, r) = [] \<Longrightarrow> idle w (w1\<lparr>hist := EOnError e # ECall q r # hist w1\<rparr>)"
  by (auto simp: idle_def adds_def listed_def)

lemma entraid_refused: "idle w w1 \<Longrightarrow> wp (ret ([], since, '''', Some e)) (listing field prev w) w1"
  by (simp add: wp_ret listing_def lists_all_fail)

lemma entraid_token:
  assumes "idle w w1" "\<And>t w2. idle w w2 \<Longrightarrow> wp (f t) Q w2"
  shows "wp (State_Monad.bind (entraid_fetchToken env c) f) Q w1"
  unfolding wp_bind entraid_fetchToken_def
  by (rule along_wp [OF idle_token]) (rule assms(2), rule idle.trans [OF assms(1)])

lemma entraid_attempts_lists: "wp (entraid_attempts env c addr since prev left) (listing ''activityDateTime'' prev w) w"
proof (induction left arbitrary: w addr)
  case 0
  show ?case
    unfolding entraid_attempts.simps [of _ _ _ _ _ 0] Let_def wp_bind [of "call _ (MsNewRequest _)"]
    by (rule along_wp [OF idle_prims(5)])
      (auto simp: wp_bind [of "call _ _"] wp_bind [of "onError _"] wp_call wp_unit_ops split: sum.split http.split option.split
        intro!: listing_fail idle_called listing_scan entraid_token entraid_refused entraid_refusal)
next
  case (Suc left)
  have again: "wp (entraid_attempts env c a since prev left) (listing ''activityDateTime'' prev w) w1" if "idle w w1" for a w1
    by (rule listing_again [OF that Suc.IH])
  show ?case
    unfolding entraid_attempts.simps [of _ _ _ _ _ "Suc left"] Let_def wp_bind [of "call _ (MsNewRequest _)"]
    by (rule along_wp [OF idle_prims(5)])
      (auto simp: wp_bind [of "call _ _"] wp_bind [of "onError _"] wp_call wp_unit_ops split: sum.split http.split option.split
        intro!: listing_fail idle_called listing_scan entraid_token again entraid_refusal)
qed

interpretation graph: alert_source "ms_graph_makeOneListRequest env c addr" "''createdDateTime''" for env c addr
  by unfold_locales
    (auto simp: ms_graph_makeOneListRequest_def listing_def dest!: wpD [OF ms_attempts_lists])

interpretation defender: alert_source "defender_makeOneListRequest env c addr" "''createdDateTime''" for env c addr
  by unfold_locales
    (auto simp: defender_makeOneListRequest_def listing_def dest!: wpD [OF ms_attempts_lists])

interpretation entraid: alert_source "entraid_makeOneListRequest env c addr" "''activityDateTime''" for env c addr
  by unfold_locales
    (auto simp: entraid_makeOneListRequest_def listing_def dest!: wpD [OF entraid_attempts_lists])

lemma listed_fresh [simp]: "listed [] = {}" "listed (ENow t # h) = listed h"
  by (simp_all add: listed_def)

section \<open>Properties\<close>

text \<open>C23: as long as the adapter is not stopped, which \<open>Close\<close> and a failed \<open>Ship\<close> do, for every detection the Graph API has
  listed to it with an identifier and a time an alert with this identifier has been delivered, at the latest in the turn that
  listed it. The exception are identifiers that were also listed in a detection without a time: the adapter
  remembers such an identifier as that of the last alert without delivering it.
\<close>

theorem ms_graph_alerts_delivered:
  assumes "run_state (ms_graph_fetchEvents env format c addr n) fresh_world = (st, w')" "\<not> stop w'"
  shows "proper_ids ''createdDateTime'' (listed (hist w')) \<subseteq>
    delivered_set (hist w') \<union> improper_ids ''createdDateTime'' (listed (hist w'))"
proof -
  let ?t = "e_now env (hist fresh_world)"
  have "run_state (poll_loop env (30 * second) (ms_turn (ms_graph_makeOneListRequest env c addr)) n (format ?t, ''''))
      (fresh_world\<lparr>hist := [ENow ?t]\<rparr>) = (st, w')"
    using assms(1) by (simp add: ms_graph_fetchEvents_def run_simps)
  from graph.coveredD [OF graph.loop_covers [OF graph.covered_start this] assms(2)] show ?thesis by simp
qed

text \<open>The same of Entra ID, whose retries are others.\<close>

theorem entraid_alerts_delivered:
  assumes "run_state (entraid_fetchEvents env format c addr n) fresh_world = (st, w')" "\<not> stop w'"
  shows "proper_ids ''activityDateTime'' (listed (hist w')) \<subseteq>
    delivered_set (hist w') \<union> improper_ids ''activityDateTime'' (listed (hist w'))"
proof -
  let ?t = "e_now env (hist fresh_world)"
  have "run_state (poll_loop env (30 * second) (ms_turn (entraid_makeOneListRequest env c addr)) n (format ?t, ''''))
      (fresh_world\<lparr>hist := [ENow ?t]\<rparr>) = (st, w')"
    using assms(1) by (simp add: entraid_fetchEvents_def run_simps)
  from entraid.coveredD [OF entraid.loop_covers [OF entraid.covered_start this] assms(2)] show ?thesis by simp
qed

text \<open>The addresses of the list requests, in order.\<close>

fun list_url :: "ms_query \<times> dict http \<Rightarrow> string list" where
  "list_url (MsList u k, r) = [u]"
| "list_url _ = []"

definition list_urls :: "(ms_query, dict http) history \<Rightarrow> string list" where
  "list_urls h = concat (map list_url (rev (calls h)))"

text \<open>A refused Entra ID request is not repeated: the filter is appended to the address once more for each attempt, so the
  second and the third ask for something else.
\<close>

theorem entraid_retries_other_url:
  assumes "\<And>h u. request_error (e_call env h (MsNewRequest u)) = None"
    and "\<And>h. token_of_answer (e_call env h (MsToken (ms_TenantID c) (ms_ClientID c) (ms_ClientSecret c) ms_scope)) = Inr (tok h)"
    and "\<And>h u k. e_call env h (MsList u k) = Resp (code h) None (answer h)" "\<And>h. code h \<noteq> 200"
  shows "wp (entraid_makeOneListRequest env c addr since prev)
    (\<lambda>_ w'. let f = date_filter ''activityDateTime'' since in
       list_urls (hist w') = list_urls (hist w) @ [addr @ f, addr @ f @ f, addr @ f @ f @ f]) w"
proof -
  let ?f = "date_filter ''activityDateTime'' since"
  have step: "wp (entraid_attempts env c a since prev left) Q w1"
    if "\<And>w2 e. list_urls (hist w2) = list_urls (hist w1) @ [a @ ?f] \<Longrightarrow>
      wp (case left of Suc l \<Rightarrow> entraid_attempts env c (a @ ?f) since prev l | 0 \<Rightarrow> ret ([], since, '''', Some e)) Q w2"
    for a left Q w1
    unfolding entraid_attempts.simps [of _ _ _ _ _ left] Let_def entraid_fetchToken_def ms_graph_fetchToken_def
    by (simp add: wp_bind wp_call wp_ret wp_unit_ops assms, rule that) (simp add: list_urls_def)
  show ?thesis
    unfolding entraid_makeOneListRequest_def numeral_2_eq_2
    by (rule step, simp, rule step, simp, rule step) (simp add: wp_ret)
qed

text \<open>One turn asks for at most three tokens and three lists, whatever the answers are.\<close>

theorem ms_graph_requests_bounded:
  "wp (ms_graph_makeOneListRequest env c addr since prev) (\<lambda>_ w'. length (calls (hist w')) \<le> length (calls (hist w)) + 6) w"
proof -
  have "wp (ms_attempts env tx c addr since prev left)
      (\<lambda>_ w'. length (calls (hist w')) \<le> length (calls (hist w)) + 2 * Suc left) w" for tx left w
  proof (induction left arbitrary: w)
    case 0
    show ?case
      unfolding ms_attempts.simps [of _ _ _ _ _ _ 0] ms_graph_fetchToken_def ms_fail_def
      by (auto simp: wp_simps Let_def split: sum.split http.split option.split prod.split)
  next
    case (Suc left)
    have again: "wp (ms_attempts env tx c addr since prev left) (\<lambda>_ w'. length (calls (hist w')) \<le> k) w1"
      if "length (calls (hist w1)) + 2 * Suc left \<le> k" for k w1
      by (rule wp_mono [OF Suc.IH]) (use that in simp)
    show ?case
      unfolding ms_attempts.simps [of _ _ _ _ _ _ "Suc left"] ms_graph_fetchToken_def ms_fail_def ms_sleep_def
      by (auto simp: wp_simps split: sum.split http.split option.split prod.split intro!: again)
  qed
  from this [where left = 2] show ?thesis by (simp add: ms_graph_makeOneListRequest_def)
qed

section \<open>Alerts of the same time\<close>

lemma steady_ship_items:
  assumes "\<not> stop w" "\<And>w'. \<not> stop w' \<Longrightarrow> delivered_docs (hist w') = delivered_docs (hist w) @ items \<Longrightarrow> Q True w'"
  shows "wp (ship_items (steady_env t answer) items) Q w"
  using assms
proof (induction items arbitrary: w)
  case Nil
  then show ?case by (simp add: wp_simps)
next
  case (Cons item items)
  then show ?case
    by (auto simp: wp_simps ship_or_stop_def ship_retry_def delivered_docs_def intro!: Cons.IH)
qed

definition alert_at :: "string \<Rightarrow> string \<Rightarrow> dict" where
  "alert_at i t = [(''id'', GString i), (''createdDateTime'', GString t)]"

text \<open>A service with two alerts of one time, which it lists to every request from that time on.\<close>

definition tied_answer :: "string \<Rightarrow> string \<Rightarrow> string \<Rightarrow> ms_query \<Rightarrow> dict http" where
  "tied_answer a b t q =
     (case q of
        MsToken _ _ _ _ \<Rightarrow> Resp 200 None (Inr [(''access_token'', GString ''k'')])
      | MsList _ _ \<Rightarrow> Resp 200 None (Inr [(''value'', GSlice [GMap (alert_at a t), GMap (alert_at b t)])])
      | MsNewRequest _ \<Rightarrow> Resp 200 None (Inr []))"

lemma tied_request:
  assumes "a \<noteq> prev" "\<And>w'. stop w' = stop w \<Longrightarrow> delivered_docs (hist w') = delivered_docs (hist w) \<Longrightarrow>
    Q ((if b = prev then [alert_at a t] else [alert_at a t, alert_at b t]), t, b, None) w'"
  shows "wp (ms_graph_makeOneListRequest (steady_env clock (tied_answer a b t)) c addr since prev) Q w"
proof -
  define kept where "kept = (if b = prev then [alert_at a t] else [alert_at a t, alert_at b t])"
  have scan: "ms_scan ''createdDateTime'' prev [GMap (alert_at a t), GMap (alert_at b t)] since '''' = (kept, t, b)"
    using assms(1) by (auto simp: alert_at_def as_map_def as_string_def kept_def)
  show ?thesis
    unfolding ms_graph_makeOneListRequest_def ms_attempts.simps [of _ _ _ _ _ _ 2] ms_graph_fetchToken_def
    by (simp add: wp_simps tied_answer_def token_of_answer_def as_string_def ms_detections_def as_slice_def scan del: ms_scan.simps)
      (rule assms(2) [folded kept_def], simp_all add: delivered_docs_def)
qed

text \<open>Two alerts of the same time are not told apart by the identifier of the last one: as long as they are listed, every
  turn delivers the first of them again.
\<close>

theorem ms_graph_ties_repeat:
  assumes "a \<noteq> b" "a \<noteq> ''''" "b \<noteq> ''''"
  shows "wp (ms_graph_fetchEvents (steady_env clock (tied_answer a b t)) format c addr (Suc n))
    (\<lambda>_ w'. delivered_docs (hist w') = [alert_at a t, alert_at b t] @ replicate n (alert_at a t)) fresh_world"
proof -
  let ?env = "steady_env clock (tied_answer a b t)"
  let ?turn = "ms_turn (ms_graph_makeOneListRequest ?env c addr)"
  have turn: "wp (?turn st) Q w"
    if "a \<noteq> snd st" "\<And>w'. stop w' = stop w \<Longrightarrow> delivered_docs (hist w') = delivered_docs (hist w) \<Longrightarrow>
      Q (Some ((if b = snd st then [alert_at a t] else [alert_at a t, alert_at b t]), t, b)) w'" for st Q w
    unfolding ms_turn_def wp_bind by (rule tied_request [OF that(1)]) (simp add: wp_ret that(2))
  have later: "wp (poll_loop ?env d ?turn n (t, b))
      (\<lambda>_ w'. delivered_docs (hist w') = delivered_docs (hist w) @ replicate n (alert_at a t)) w" if "\<not> stop w" for d n w
    using that
  proof (induction n arbitrary: w)
    case (Suc n)
    then show ?case
      using assms(1) by (auto simp: wp_simps delivered_docs_def [of "EWait _ _ # _"] delivered_docs_def [symmetric] replicate_app_Cons_same [symmetric]
        simp del: ship_items.simps intro!: turn steady_ship_items wp_mono [OF Suc.IH])
  qed (simp add: wp_simps)
  show ?thesis
    unfolding ms_graph_fetchEvents_def
    using assms by (auto simp: wp_simps delivered_docs_def [of "EWait _ _ # _"] delivered_docs_def [of "ENow _ # _"] delivered_docs_def [symmetric]
        simp del: ship_items.simps intro!: turn steady_ship_items wp_mono [OF later])
qed

section \<open>Concrete runs\<close>

definition ms_demo :: ms_graph_config where
  "ms_demo = \<lparr>ms_TenantID = ''t'', ms_ClientID = ''c'', ms_ClientSecret = ''s'', ms_URL = ''/alerts''\<rparr>"

text \<open>A service that lists two alerts and, between them, a detection without a time.\<close>

definition mixed_answer :: "ms_query \<Rightarrow> dict http" where
  "mixed_answer q =
     (case q of
        MsToken _ _ _ _ \<Rightarrow> Resp 200 None (Inr [(''access_token'', GString ''k'')])
      | MsList _ _ \<Rightarrow> Resp 200 None (Inr [(''value'', GSlice [GMap (alert_at ''1'' ''2024''), GMap [(''id'', GString ''3'')],
          GMap (alert_at ''2'' ''2025'')])])
      | MsNewRequest _ \<Rightarrow> Resp 200 None (Inr []))"

theorem ms_graph_alerts_delivered_witness:
  "{''1'', ''2''} \<subseteq> delivered_set (hist (snd (run_state
     (ms_graph_fetchEvents (steady_env 0 mixed_answer) (\<lambda>t. ''2023'') ms_demo ''https://a'' 2) fresh_world)))"
proof -
  let ?r = "run_state (ms_graph_fetchEvents (steady_env 0 mixed_answer) (\<lambda>t. ''2023'') ms_demo ''https://a'' 2) fresh_world"
  have "listed (hist (snd ?r)) = {GMap (alert_at ''1'' ''2024''), GMap [(''id'', GString ''3'')], GMap (alert_at ''2'' ''2025'')}"
    "\<not> stop (snd ?r)"
    by (simp_all add: eval_nat_numeral ms_graph_fetchEvents_def ms_turn_def ms_graph_makeOneListRequest_def ms_attempts.simps
      ms_graph_fetchToken_def token_of_answer_def run_simps mixed_answer_def alert_at_def as_string_def as_map_def as_slice_def
      ms_detections_def ship_or_stop_def ship_retry_def listed_def)
  then show ?thesis
    using ms_graph_alerts_delivered [of "steady_env 0 mixed_answer" "\<lambda>t. ''2023''" ms_demo "''https://a''" 2 "fst ?r" "snd ?r"]
    by (simp add: proper_def alert_id_def alert_at_def as_map_def as_string_def string_field_def)
qed

text \<open>And one that refuses every list request.\<close>

theorem ms_graph_ties_repeat_witness:
  "wp (ms_graph_fetchEvents (steady_env 0 (tied_answer ''1'' ''2'' ''2024-01-01'')) (\<lambda>t. ''2023'') ms_demo ''https://a'' 3)
    (\<lambda>_ w'. map (\<lambda>d. string_field d ''id'') (delivered_docs (hist w')) = [''1'', ''2'', ''1'', ''1'']) fresh_world"
  using ms_graph_ties_repeat [of "''1''" "''2''" 0 "''2024-01-01''" "\<lambda>t. ''2023''" ms_demo "''https://a''" 2]
  by (auto simp: eval_nat_numeral alert_at_def string_field_def elim: wp_mono)

definition refusing_answer :: "ms_query \<Rightarrow> dict http" where
  "refusing_answer q =
     (case q of
        MsToken _ _ _ _ \<Rightarrow> Resp 200 None (Inr [(''access_token'', GString ''k'')])
      | MsList _ _ \<Rightarrow> Resp 500 None (Inr [])
      | MsNewRequest _ \<Rightarrow> Resp 200 None (Inr []))"

theorem entraid_retries_other_url_witness:
  "wp (entraid_makeOneListRequest (steady_env 0 refusing_answer) (ms_config.truncate ms_demo) ''u'' ''12:00'' '''')
    (\<lambda>_ w'. list_urls (hist w') = [''u?%24filter=activityDateTime%20ge%2012%3A00'',
       ''u?%24filter=activityDateTime%20ge%2012%3A00?%24filter=activityDateTime%20ge%2012%3A00'',
       ''u?%24filter=activityDateTime%20ge%2012%3A00?%24filter=activityDateTime%20ge%2012%3A00?%24filter=activityDateTime%20ge%2012%3A00''])
    fresh_world"
  using entraid_retries_other_url [of "steady_env 0 refusing_answer" "ms_config.truncate ms_demo" "\<lambda>h. ''k''" "\<lambda>h. 500" "\<lambda>h. Inr []"
      "''u''" "''12:00''" "''''" fresh_world]
  by (simp add: refusing_answer_def request_error_def token_of_answer_def as_string_def date_filter_def escape_colons_def list_urls_def Let_def)

end
