(* ===== verification/Trend_Micro.thy ===== *)
theory Trend_Micro
  imports Frame Polling Json_Access
begin

text \<open>
  \<open>trendmicro/client.go\<close>: every minute the adapter asks for the alerts from its last fetch to now, with the pages that
  continue the answer, and ships them when all pages have been read. The times of a request are sent in whole seconds.
\<close>

section \<open>Configuration\<close>

definition regionalDomains :: "(string \<times> string) list" where
  "regionalDomains =
     [(''us'', ''https://api.xdr.trendmicro.com''), (''eu'', ''https://api.eu.xdr.trendmicro.com''),
      (''sg'', ''https://api.sg.xdr.trendmicro.com''), (''jp'', ''https://api.xdr.trendmicro.co.jp''),
      (''in'', ''https://api.in.xdr.trendmicro.com''), (''au'', ''https://api.au.xdr.trendmicro.com'')]"

record tm_config =
  tm_APIToken :: string
  tm_Region :: string

definition tm_Validate :: "go_err option \<Rightarrow> tm_config \<Rightarrow> tm_config \<times> go_err option" where
  "tm_Validate client_err c =
     (case client_err of
        Some e \<Rightarrow> (c, Some (GoWrap ''client_options: %v'' e))
      | None \<Rightarrow>
          if tm_APIToken c = '''' then (c, Some (GoErr ''missing api_token''))
          else (let c' = (if tm_Region c = '''' then c\<lparr>tm_Region := ''us''\<rparr> else c) in
            (c', if map_of regionalDomains (tm_Region c') = None
                 then Some (GoErr ''invalid region: %s (must be one of: us, eu, sg, jp, in, au)'') else None)))"

text \<open>The adapter has the base of its addresses and the time of the last fetch, a day back at first.\<close>

record tm_state =
  tm_baseURL :: string
  lastFetch :: time

definition NewTrendMicroAdapter ::
    "('q, 'r) env \<Rightarrow> go_err option \<Rightarrow> go_err option \<Rightarrow> tm_config \<Rightarrow> ('q, 'r, go_err + tm_state) io" where
  "NewTrendMicroAdapter env opts_err client_err conf =
     (case tm_Validate opts_err conf of
        (c, Some e) \<Rightarrow> ret (Inl e)
      | (c, None) \<Rightarrow> do {
          t \<leftarrow> now env;
          ret (case client_err of
                 Some e \<Rightarrow> Inl e
               | None \<Rightarrow> Inr \<lparr>tm_baseURL = (case map_of regionalDomains (tm_Region c) of Some u \<Rightarrow> u | None \<Rightarrow> ''''),
                              lastFetch = t - 24 * hour\<rparr>)
        })"

definition tm_Close :: "('q, 'r) env \<Rightarrow> ('q, 'r, go_err option) io" where
  "tm_Close env = close_adapter env"

section \<open>Requests\<close>

text \<open>The first page of a window has an address made of the base and the two times, the others the one they were given.\<close>

datatype tm_url = FirstPage string time time | LinkedPage string

datatype tm_query = TmAlerts tm_url string

type_synonym 'a tm_io = "(tm_query, dict http, 'a) io"
type_synonym tm_env = "(tm_query, dict http) env"

definition tm_page :: "dict http \<Rightarrow> go_err + (dict list \<times> string)" where
  "tm_page resp =
     (case resp of
        NewRequestErr e \<Rightarrow> Inl e
      | DoErr e \<Rightarrow> Inl e
      | Resp code rd bd \<Rightarrow>
          if code = 429 then Inl (GoErr ''rate limit exceeded (429)'')
          else if code = 401 then Inl (GoErr ''authentication failed (401) - check your API token'')
          else if code \<noteq> 200 then Inl (GoErr ''API returned status %d: %s'')
          else (case bd of
                  Inl e \<Rightarrow> Inl (GoWrap ''failed to parse response: %v'' e)
                | Inr respData \<Rightarrow>
                    (case map_of respData ''items'' of
                       Some (GSlice itemsArray) \<Rightarrow>
                         Inr (concat (map (\<lambda>item. case item of GMap d \<Rightarrow> [d] | _ \<Rightarrow> []) itemsArray),
                              string_field respData ''nextLink'')
                     | _ \<Rightarrow> Inr ([], ''''))))"

definition tm_limited :: "dict http \<Rightarrow> bool" where
  "tm_limited resp = (case resp of Resp code rd bd \<Rightarrow> code = 429 | _ \<Rightarrow> False)"

definition tm_alerts_url :: "tm_env \<Rightarrow> tm_state \<Rightarrow> string \<Rightarrow> tm_url tm_io" where
  "tm_alerts_url env st nextLink =
     (if nextLink \<noteq> '''' then ret (LinkedPage nextLink)
      else do { endTime \<leftarrow> now env; ret (FirstPage (tm_baseURL st @ ''/v3.0/workbench/alerts'') (lastFetch st) endTime) })"

definition tm_makeOneRequest :: "tm_env \<Rightarrow> tm_config \<Rightarrow> tm_state \<Rightarrow> string \<Rightarrow> (go_err + (dict list \<times> string)) tm_io" where
  "tm_makeOneRequest env c st nextLink = do {
     alertsURL \<leftarrow> tm_alerts_url env st nextLink;
     resp \<leftarrow> call env (TmAlerts alertsURL (tm_APIToken c));
     (if tm_limited resp then onWarning ''rate limit exceeded, will retry'' else ret ());
     ret (tm_page resp)
   }"

text \<open>\<open>None\<close>: the bound on the pages is used up.\<close>

fun tm_fetchAllPages ::
    "tm_env \<Rightarrow> tm_config \<Rightarrow> tm_state \<Rightarrow> nat \<Rightarrow> string \<Rightarrow> dict list \<Rightarrow> (go_err + dict list) option tm_io" where
  "tm_fetchAllPages env c st 0 nextLink allItems = ret None"
| "tm_fetchAllPages env c st (Suc fuel) nextLink allItems = do {
     r \<leftarrow> tm_makeOneRequest env c st nextLink;
     case r of
       Inl e \<Rightarrow> ret (Some (Inl e))
     | Inr (items, newNextLink) \<Rightarrow>
         if newNextLink = '''' then ret (Some (Inr (allItems @ items)))
         else do {
           stopped \<leftarrow> waitFor env 0;
           if stopped then ret (Some (Inr (allItems @ items)))
           else tm_fetchAllPages env c st fuel newNextLink (allItems @ items)
         }
   }"

fun tm_loop :: "tm_env \<Rightarrow> tm_config \<Rightarrow> nat \<Rightarrow> nat \<Rightarrow> tm_state \<Rightarrow> tm_state tm_io" where
  "tm_loop env c fuel 0 st = ret st"
| "tm_loop env c fuel (Suc n) st = do {
     stopped \<leftarrow> waitFor env (60 * second);
     if stopped then ret st
     else do {
       r \<leftarrow> tm_fetchAllPages env c st fuel '''' [];
       case r of
         None \<Rightarrow> ret st
       | Some (Inl e) \<Rightarrow> do {
           onError (GoWrap ''failed to fetch alerts: %v'' e);
           tm_loop env c fuel n st
         }
       | Some (Inr items) \<Rightarrow> do {
           shipped \<leftarrow> ship_items env items;
           if shipped then do {
             t \<leftarrow> now env;
             tm_loop env c fuel n (st\<lparr>lastFetch := t\<rparr>)
           } else ret st
         }
     }
   }"

definition tm_fetchAlerts :: "tm_env \<Rightarrow> tm_config \<Rightarrow> nat \<Rightarrow> nat \<Rightarrow> tm_state \<Rightarrow> tm_state tm_io" where
  "tm_fetchAlerts env c fuel n st = tm_loop env c fuel n st"

section \<open>Windows\<close>

fun tm_window :: "(tm_query, dict http) eff \<Rightarrow> (time \<times> time) list" where
  "tm_window (ECall (TmAlerts (FirstPage u s e) k) r) = [(s, e)]"
| "tm_window _ = []"

definition tm_windows :: "(tm_query, dict http) history \<Rightarrow> (time \<times> time) list" where
  "tm_windows h = concat (map tm_window (rev h))"

lemma tm_windows_simps [simp]: "tm_windows [] = []" "tm_windows (e # h) = tm_windows h @ tm_window e"
  by (simp_all add: tm_windows_def)

text \<open>The ends of windows are readings of the clock, and what is kept of the windows by everything but a first page.\<close>

definition tm_frame :: "(tm_query, dict http) world \<Rightarrow> (tm_query, dict http) world \<Rightarrow> bool" where
  "tm_frame w w' \<longleftrightarrow> tm_windows (hist w') = tm_windows (hist w) \<and> set (hist w) \<subseteq> set (hist w')"

interpretation tm_frame: frame tm_frame
  by unfold_locales (auto simp: tm_frame_def)

lemmas tm_frame_rules [simp, intro!] = tm_frame.rules

lemma tm_frame_prims [simp, intro!]:
  "along tm_frame (now env)" "along tm_frame (onError e)" "along tm_frame (onWarning s)" "along tm_frame (ship env m d)"
  "along tm_frame setStop" "along tm_frame (waitFor env d)" "along tm_frame (call env (TmAlerts (LinkedPage u) k))"
  by (auto intro!: alongI simp: wp_simps tm_frame_def)

lemma tm_frame_ship_items [simp, intro!]: "along tm_frame (ship_items env items)"
  by (induction items) (auto simp: ship_or_stop_def ship_retry_def split: option.split)

lemma tm_frame_linked: "nextLink \<noteq> '''' \<Longrightarrow> along tm_frame (tm_makeOneRequest env c st nextLink)"
  by (auto simp: tm_makeOneRequest_def tm_alerts_url_def intro!: alongI simp: wp_simps tm_frame_def)

lemma tm_frame_pages: "nextLink \<noteq> '''' \<Longrightarrow> along tm_frame (tm_fetchAllPages env c st fuel nextLink allItems)"
  by (induction fuel arbitrary: nextLink allItems) (auto intro!: tm_frame.bind tm_frame_linked split: sum.split)

text \<open>A window of the loop: it begins at the last fetch, and all windows before it began there too or ended earlier.\<close>

definition apart :: "time \<times> time \<Rightarrow> time \<times> time \<Rightarrow> bool" where
  "apart a b \<longleftrightarrow> fst b = fst a \<or> snd a < fst b"

definition tm_inv :: "time \<Rightarrow> (tm_query, dict http) world \<Rightarrow> bool" where
  "tm_inv l w \<longleftrightarrow> sorted_wrt apart (tm_windows (hist w)) \<and>
     (\<forall>a\<in>set (tm_windows (hist w)). (fst a = l \<or> snd a < l) \<and> ENow (snd a) \<in> set (hist w))"

lemma tm_inv_frame: "tm_inv l w \<Longrightarrow> tm_frame w w' \<Longrightarrow> tm_inv l w'"
  by (auto simp: tm_inv_def tm_frame_def)

lemma first_page_inv:
  assumes "tm_inv (lastFetch st) w" "\<And>r w'. tm_inv (lastFetch st) w' \<Longrightarrow> Q r w'"
  shows "wp (tm_makeOneRequest env c st '''') Q w"
  using assms(1)
  by (auto simp: tm_makeOneRequest_def tm_alerts_url_def wp_simps intro!: assms(2))
    (auto simp: tm_inv_def sorted_wrt_append apart_def)

lemma all_pages_inv:
  assumes "tm_inv (lastFetch st) w"
  shows "wp (tm_fetchAllPages env c st fuel '''' []) (\<lambda>_ w'. tm_inv (lastFetch st) w') w"
proof (cases fuel)
  case 0
  with assms show ?thesis by (simp add: wp_simps)
next
  case (Suc f)
  have more: "wp (tm_fetchAllPages env c st f link items) (\<lambda>_ w'. tm_inv (lastFetch st) w') w1"
    if "link \<noteq> ''''" "tm_inv (lastFetch st) w1" for link items w1
    by (rule along_wp [OF tm_frame_pages [OF that(1)]]) (rule tm_inv_frame [OF that(2)])
  have waited: "tm_inv l (w1\<lparr>hist := EWait d b # hist w1, stop := s\<rparr>)" if "tm_inv l w1" for l w1 d b s
    using that by (rule tm_inv_frame) (auto simp: tm_frame_def)
  show ?thesis
    unfolding Suc tm_fetchAllPages.simps wp_bind [of "tm_makeOneRequest _ _ _ _"]
    by (rule first_page_inv [OF assms]) (auto simp: wp_simps split: sum.split intro!: more waited)
qed

lemma tm_loop_inv:
  assumes clock: "\<And>h t. ENow t \<in> set h \<Longrightarrow> t < e_now env h"
    and "tm_inv (lastFetch st) w"
  shows "wp (tm_loop env c fuel n st) (\<lambda>st' w'. tm_inv (lastFetch st') w') w"
  using assms(2)
proof (induction n arbitrary: st w)
  case 0
  then show ?case by (simp add: wp_simps)
next
  case (Suc n)
  have fetched: "wp (do { t \<leftarrow> now env; tm_loop env c fuel n (st\<lparr>lastFetch := t\<rparr>) }) (\<lambda>st' w'. tm_inv (lastFetch st') w') w1"
    if "tm_inv (lastFetch st) w1" for w1
  proof -
    have "tm_inv (e_now env (hist w1)) (w1\<lparr>hist := ENow (e_now env (hist w1)) # hist w1\<rparr>)"
      using that clock unfolding tm_inv_def by simp
    then show ?thesis unfolding wp_bind wp_now by (intro Suc.IH) simp
  qed
  have answered: "wp (case r of
        None \<Rightarrow> ret st
      | Some (Inl e) \<Rightarrow> do { onError (GoWrap ''failed to fetch alerts: %v'' e); tm_loop env c fuel n st }
      | Some (Inr items) \<Rightarrow> do {
          shipped \<leftarrow> ship_items env items;
          if shipped then do { t \<leftarrow> now env; tm_loop env c fuel n (st\<lparr>lastFetch := t\<rparr>) } else ret st
        }) (\<lambda>st' w'. tm_inv (lastFetch st') w') w1" if "tm_inv (lastFetch st) w1" for r w1
  proof -
    have "wp (do { onError e; tm_loop env c fuel n st }) (\<lambda>st' w'. tm_inv (lastFetch st') w') w1" for e
      unfolding wp_bind by (rule along_wp [OF tm_frame_prims(2)]) (rule Suc.IH, rule tm_inv_frame [OF that])
    moreover have "wp (do { shipped \<leftarrow> ship_items env items;
          if shipped then do { t \<leftarrow> now env; tm_loop env c fuel n (st\<lparr>lastFetch := t\<rparr>) } else ret st })
        (\<lambda>st' w'. tm_inv (lastFetch st') w') w1" for items
      unfolding wp_bind [of "ship_items _ _"]
    proof (rule along_wp [OF tm_frame_ship_items])
      fix shipped w2 assume "tm_frame w1 w2"
      then have "tm_inv (lastFetch st) w2" by (rule tm_inv_frame [OF that])
      then show "wp (if shipped then do { t \<leftarrow> now env; tm_loop env c fuel n (st\<lparr>lastFetch := t\<rparr>) } else ret st)
          (\<lambda>st' w'. tm_inv (lastFetch st') w') w2"
        using fetched by (simp add: wp_if wp_ret)
    qed
    ultimately show ?thesis using that by (simp add: wp_ret split: option.split sum.split)
  qed
  show ?case
    unfolding tm_loop.simps wp_bind [of "waitFor _ _"]
  proof (rule along_wp [OF tm_frame_prims(6)])
    fix stopped w1 assume "tm_frame w w1"
    then have w1: "tm_inv (lastFetch st) w1" by (rule tm_inv_frame [OF Suc.prems])
    then show "wp (if stopped then ret st else do {
        r \<leftarrow> tm_fetchAllPages env c st fuel '''' [];
        case r of
          None \<Rightarrow> ret st
        | Some (Inl e) \<Rightarrow> do { onError (GoWrap ''failed to fetch alerts: %v'' e); tm_loop env c fuel n st }
        | Some (Inr items) \<Rightarrow> do {
            shipped \<leftarrow> ship_items env items;
            if shipped then do { t \<leftarrow> now env; tm_loop env c fuel n (st\<lparr>lastFetch := t\<rparr>) } else ret st
          }
      }) (\<lambda>st' w'. tm_inv (lastFetch st') w') w1"
      using wp_mono [OF all_pages_inv answered] by (simp add: wp_ret wp_bind [of "tm_fetchAllPages _ _ _ _ _ _"])
  qed
qed

text \<open>
  The windows the adapter asks for do not meet. Each ends when its request is sent, but the next begins when its alerts
  have been shipped: on a clock that advances, of any two windows the second has the same start, after an error, or begins
  after the first has ended, and what happened between is never asked for.
\<close>

theorem trend_micro_windows_apart:
  assumes "\<And>h t. ENow t \<in> set h \<Longrightarrow> t < e_now env h"
  shows "wp (tm_fetchAlerts env c fuel n st) (\<lambda>_ w'. sorted_wrt apart (tm_windows (hist w'))) fresh_world"
proof -
  have "wp (tm_loop env c fuel n st) (\<lambda>st' w'. tm_inv (lastFetch st') w') fresh_world"
    by (rule tm_loop_inv) (use assms in \<open>auto simp: tm_inv_def\<close>)
  then show ?thesis unfolding tm_fetchAlerts_def by (rule wp_mono) (simp add: tm_inv_def)
qed

section \<open>A concrete run\<close>

text \<open>A clock that advances by one with every reading, and a service without alerts.\<close>

definition ticking_env :: "('q \<Rightarrow> 'r) \<Rightarrow> ('q, 'r) env" where
  "ticking_env answer = (steady_env 0 answer)\<lparr>e_now := \<lambda>h. latest h + 1\<rparr>"

theorem trend_micro_windows_apart_witness:
  "wp (tm_fetchAlerts (ticking_env (\<lambda>q. Resp 200 None (Inr []))) \<lparr>tm_APIToken = ''t'', tm_Region = ''us''\<rparr> 5 2
      \<lparr>tm_baseURL = ''u'', lastFetch = - 100\<rparr>)
    (\<lambda>_ w'. sorted_wrt apart (tm_windows (hist w'))) fresh_world"
proof -
  have "t < e_now (ticking_env (\<lambda>q. Resp 200 None (Inr []))) h" if "ENow t \<in> set h" for h :: "(tm_query, dict http) history" and t
    using latest_ge [OF that] by (simp add: ticking_env_def)
  then show ?thesis by (rule trend_micro_windows_apart)
qed

end
