(* ===== verification/Wiz.thy ===== *)
theory Wiz
  imports Bitwarden
begin

text \<open>
  \<open>wiz/client.go\<close>: every half minute the adapter sends a GraphQL query of the configuration, with a filter on the time of
  the alerts, and finds the list of alerts along a path of the answer. \<open>format\<close> is RFC 3339, \<open>marshal\<close> the error of encoding
  a request, \<open>oor\<close> the conversion to \<open>int64\<close> of a number that no \<open>int64\<close> has. Times of alerts are never parsed.
\<close>

section \<open>Configuration and state\<close>

record wiz_config =
  wiz_ClientID :: string
  wiz_ClientSecret :: string
  wiz_URL :: string
  wiz_Query :: string
  wiz_TimeField :: string
  wiz_DataPath :: "string list"
  wiz_IDField :: string

text \<open>The variables of the configuration are part of the state: the filter in them is changed in place.\<close>

record wiz_state =
  wiz_Variables :: dict
  wiz_accessToken :: string
  expiresAt :: time

definition wiz_Validate :: "go_err option \<Rightarrow> wiz_config \<Rightarrow> go_err option" where
  "wiz_Validate client_err c =
     (case client_err of
        Some e \<Rightarrow> Some (GoWrap ''client_options: %v'' e)
      | None \<Rightarrow>
          if wiz_ClientID c = '''' then Some (GoErr ''missing client_id'')
          else if wiz_ClientSecret c = '''' then Some (GoErr ''missing client_secret'')
          else if wiz_URL c = '''' then Some (GoErr ''missing url'')
          else if wiz_Query c = '''' then Some (GoErr ''missing query'')
          else if wiz_TimeField c = '''' then Some (GoErr ''missing time_field'')
          else if wiz_DataPath c = [] then Some (GoErr ''missing data_path'')
          else if wiz_IDField c = '''' then Some (GoErr ''missing id_field'')
          else None)"

definition NewWizAdapter :: "go_err option \<Rightarrow> dict \<Rightarrow> go_err + wiz_state" where
  "NewWizAdapter client_err variables =
     (case client_err of
        Some e \<Rightarrow> Inl e
      | None \<Rightarrow> Inr \<lparr>wiz_Variables = variables, wiz_accessToken = '''', expiresAt = zero_time\<rparr>)"

definition wiz_Close :: "('q, 'r) env \<Rightarrow> ('q, 'r, go_err option) io" where
  "wiz_Close env = close_adapter env"

section \<open>Requests\<close>

text \<open>A query has its address, the text, the variables and the token.\<close>

datatype wiz_query =
    WizToken string string
  | WizQuery string string dict string

type_synonym 'a wiz_io = "(wiz_query, dict http, 'a) io"
type_synonym wiz_env = "(wiz_query, dict http) env"

text \<open>What the answer to a token request is: the token and what \<open>expires_in\<close> says of its life.\<close>

definition wiz_token :: "dict http \<Rightarrow> go_err + (string \<times> gfloat option)" where
  "wiz_token resp =
     (case resp of
        NewRequestErr e \<Rightarrow> Inl (GoWrap ''error creating token request: %v'' e)
      | DoErr e \<Rightarrow> Inl (GoWrap ''error making token request: %v'' e)
      | Resp code (Some e) bd \<Rightarrow> Inl (GoWrap ''error reading token response: %v'' e)
      | Resp code None (Inl e) \<Rightarrow> Inl (GoWrap ''error parsing token response: %v'' e)
      | Resp code None (Inr result) \<Rightarrow>
          (case map_of result ''access_token'' of
             Some (GString accessToken) \<Rightarrow>
               Inr (accessToken, case map_of result ''expires_in'' of Some (GFloat64 f) \<Rightarrow> Some f | _ \<Rightarrow> None)
           | _ \<Rightarrow> Inl (GoErr ''no access token in response'')))"

definition wiz_cached :: "wiz_env \<Rightarrow> wiz_state \<Rightarrow> bool wiz_io" where
  "wiz_cached env st =
     (if wiz_accessToken st = '''' then ret False
      else do { t \<leftarrow> now env; ret (expiresAt st - t > minute) })"

definition wiz_fetchToken :: "wiz_env \<Rightarrow> (gfloat \<Rightarrow> int) \<Rightarrow> wiz_config \<Rightarrow> wiz_state \<Rightarrow> ((go_err + string) \<times> wiz_state) wiz_io" where
  "wiz_fetchToken env oor c st = do {
     cached \<leftarrow> wiz_cached env st;
     if cached then ret (Inr (wiz_accessToken st), st)
     else do {
       resp \<leftarrow> call env (WizToken (wiz_ClientID c) (wiz_ClientSecret c));
       case wiz_token resp of
         Inl e \<Rightarrow> ret (Inl e, st)
       | Inr (accessToken, None) \<Rightarrow> ret (Inr accessToken, st\<lparr>wiz_accessToken := accessToken\<rparr>)
       | Inr (accessToken, Some f) \<Rightarrow> do {
           t \<leftarrow> now env;
           ret (Inr accessToken,
             st\<lparr>wiz_accessToken := accessToken,
                expiresAt := t + sint (word_of_int (float_int64 oor f) * 1000000000 :: 64 word)\<rparr>)
         }
     }
   }"

text \<open>
  The variables of a request, and those of the configuration afterwards: the copy of the variables is shallow, so a filter
  that is there already is changed in the configuration too.
\<close>

definition wiz_filter :: "wiz_config \<Rightarrow> string \<Rightarrow> dict \<Rightarrow> dict \<times> dict" where
  "wiz_filter c since variables =
     (let after = GMap [(''after'', GString since)] in
      case map_of variables ''filterBy'' of
        Some (GMap timeFilter) \<Rightarrow>
          (let v = put ''filterBy'' (GMap (put (wiz_TimeField c) after timeFilter)) variables in (v, v))
      | _ \<Rightarrow> (put ''filterBy'' (GMap [(wiz_TimeField c, after)]) variables, variables))"

text \<open>The loop over the items, \<open>i\<close> of them passed: the alerts, the time of the first item, the identifier of the last alert.\<close>

fun wiz_scan :: "wiz_config \<Rightarrow> string \<Rightarrow> nat \<Rightarrow> gval list \<Rightarrow> string \<Rightarrow> string \<Rightarrow> dict list \<times> string \<times> string" where
  "wiz_scan c lastEventId i [] lastDetectionTime eventId = ([], lastDetectionTime, eventId)"
| "wiz_scan c lastEventId i (item # items) lastDetectionTime eventId =
     (case item of
        GMap itemMap \<Rightarrow>
          (case Option.bind (map_of itemMap (wiz_IDField c)) as_string of
             None \<Rightarrow> wiz_scan c lastEventId (Suc i) items lastDetectionTime eventId
           | Some ident \<Rightarrow>
               if ident = lastEventId then ([], lastDetectionTime, eventId)
               else (case Option.bind (map_of itemMap (wiz_TimeField c)) as_string of
                       None \<Rightarrow> wiz_scan c lastEventId (Suc i) items lastDetectionTime eventId
                     | Some timeValue \<Rightarrow>
                         (case wiz_scan c lastEventId (Suc i) items (if i = 0 then timeValue else lastDetectionTime) ident of
                            (alerts, t, e) \<Rightarrow> (itemMap # alerts, t, e))))
      | _ \<Rightarrow> wiz_scan c lastEventId (Suc i) items lastDetectionTime eventId)"

definition wiz_alerts :: "wiz_config \<Rightarrow> string \<Rightarrow> string \<Rightarrow> gval list \<Rightarrow> dict list \<times> string \<times> string" where
  "wiz_alerts c since lastEventId items =
     (case wiz_scan c lastEventId 0 items '''' '''' of
        (alerts, t, e) \<Rightarrow> (alerts, if t = '''' then since else t, if e = '''' then lastEventId else e))"

text \<open>The path through the answer. Behind an empty path everything is empty, the time too.\<close>

fun wiz_walk :: "wiz_config \<Rightarrow> string \<Rightarrow> string \<Rightarrow> string list \<Rightarrow> dict \<Rightarrow> go_err + (dict list \<times> string \<times> string)" where
  "wiz_walk c since lastEventId [] current = Inr ([], '''', '''')"
| "wiz_walk c since lastEventId [path] current =
     (case map_of current path of
        Some (GSlice items) \<Rightarrow> Inr (wiz_alerts c since lastEventId items)
      | _ \<Rightarrow> Inl (GoErr ''expected array at path %s, got %T''))"
| "wiz_walk c since lastEventId (path # path2 # paths) current =
     (case map_of current path of
        Some (GMap next) \<Rightarrow> wiz_walk c since lastEventId (path2 # paths) next
      | _ \<Rightarrow> Inl (GoErr ''expected object at path %s, got %T''))"

definition wiz_answer :: "wiz_config \<Rightarrow> string \<Rightarrow> string \<Rightarrow> dict http \<Rightarrow> go_err + (dict list \<times> string \<times> string)" where
  "wiz_answer c since lastEventId resp =
     (case resp of
        NewRequestErr e \<Rightarrow> Inl (GoWrap ''error creating request: %v'' e)
      | DoErr e \<Rightarrow> Inl (GoWrap ''error making request: %v'' e)
      | Resp code (Some e) bd \<Rightarrow> Inl (GoWrap ''error reading response: %v'' e)
      | Resp code None bd \<Rightarrow>
          if code \<noteq> 200 then Inl (GoErr ''error response from Wiz API (%d): %s'')
          else (case bd of
                  Inl e \<Rightarrow> Inl (GoWrap ''error parsing response: %v'' e)
                | Inr result \<Rightarrow> wiz_walk c since lastEventId (wiz_DataPath c) result))"

definition makeOneGraphQLRequest ::
    "wiz_env \<Rightarrow> (dict \<Rightarrow> go_err option) \<Rightarrow> (gfloat \<Rightarrow> int) \<Rightarrow> wiz_config \<Rightarrow> string \<Rightarrow> string \<Rightarrow> wiz_state \<Rightarrow>
     ((go_err + (dict list \<times> string \<times> string)) \<times> wiz_state) wiz_io" where
  "makeOneGraphQLRequest env marshal oor c since lastEventId st =
     (let (variables, kept) = wiz_filter c since (wiz_Variables st); st1 = st\<lparr>wiz_Variables := kept\<rparr> in
      case marshal variables of
        Some e \<Rightarrow> ret (Inl (GoWrap ''error marshaling request body: %v'' e), st1)
      | None \<Rightarrow> do {
          (token, st2) \<leftarrow> wiz_fetchToken env oor c st1;
          case token of
            Inl e \<Rightarrow> ret (Inl (GoWrap ''error fetching token: %v'' e), st2)
          | Inr tok \<Rightarrow> do {
              resp \<leftarrow> call env (WizQuery (wiz_URL c) (wiz_Query c) variables tok);
              ret (wiz_answer c since lastEventId resp, st2)
            }
        })"

section \<open>The loop\<close>

fun wiz_loop ::
    "wiz_env \<Rightarrow> (dict \<Rightarrow> go_err option) \<Rightarrow> (gfloat \<Rightarrow> int) \<Rightarrow> wiz_config \<Rightarrow> nat \<Rightarrow> string \<Rightarrow> string \<Rightarrow> wiz_state \<Rightarrow> unit wiz_io" where
  "wiz_loop env marshal oor c 0 since lastEventId st = ret ()"
| "wiz_loop env marshal oor c (Suc n) since lastEventId st = do {
     stopped \<leftarrow> waitFor env (30 * second);
     if stopped then ret ()
     else do {
       (r, st') \<leftarrow> makeOneGraphQLRequest env marshal oor c since lastEventId st;
       case r of
         Inl e \<Rightarrow> do {
           onError (GoWrap ''error making GraphQL request: %v'' e);
           wiz_loop env marshal oor c n since lastEventId st'
         }
       | Inr (items, newSince, eventId) \<Rightarrow> do {
           shipped \<leftarrow> ship_items env items;
           if shipped then wiz_loop env marshal oor c n newSince eventId st' else ret ()
         }
     }
   }"

definition wiz_fetchEvents ::
    "wiz_env \<Rightarrow> (dict \<Rightarrow> go_err option) \<Rightarrow> (gfloat \<Rightarrow> int) \<Rightarrow> (time \<Rightarrow> string) \<Rightarrow> wiz_config \<Rightarrow> nat \<Rightarrow> wiz_state \<Rightarrow> unit wiz_io" where
  "wiz_fetchEvents env marshal oor format c n st = do {
     t \<leftarrow> now env;
     wiz_loop env marshal oor c n (format (t - 24 * hour)) '''' st
   }"

section \<open>What is listed\<close>

text \<open>The items an answer has at the end of the path, where it has them; and those of all answers, in order.\<close>

fun items_at :: "string list \<Rightarrow> dict \<Rightarrow> gval list" where
  "items_at [] current = []"
| "items_at [path] current = (case map_of current path of Some (GSlice items) \<Rightarrow> items | _ \<Rightarrow> [])"
| "items_at (path # path2 # paths) current =
     (case map_of current path of Some (GMap next) \<Rightarrow> items_at (path2 # paths) next | _ \<Rightarrow> [])"

definition wiz_listed :: "wiz_config \<Rightarrow> dict http \<Rightarrow> gval list" where
  "wiz_listed c resp =
     (case resp of Resp code None (Inr result) \<Rightarrow> if code = 200 then items_at (wiz_DataPath c) result else [] | _ \<Rightarrow> [])"

fun listed_by :: "wiz_config \<Rightarrow> wiz_query \<times> dict http \<Rightarrow> gval list" where
  "listed_by c (WizQuery u q vs k, r) = wiz_listed c r"
| "listed_by c (WizToken i s, r) = []"

text \<open>The lists of the answers that have one, in order, and what is on them.\<close>

definition wiz_answers :: "wiz_config \<Rightarrow> (wiz_query, dict http) history \<Rightarrow> gval list list" where
  "wiz_answers c h = filter (\<lambda>vs. vs \<noteq> []) (map (listed_by c) (rev (calls h)))"

definition all_listed :: "wiz_config \<Rightarrow> (wiz_query, dict http) history \<Rightarrow> gval list" where
  "all_listed c h = concat (wiz_answers c h)"

definition answer_list :: "gval list \<Rightarrow> gval list list" where
  "answer_list vs = (if vs = [] then [] else [vs])"

lemma concat_answer_list [simp]: "concat (answer_list vs) = vs"
  by (simp add: answer_list_def)

lemma wiz_answers_simps [simp]:
  "wiz_answers c [] = []"
  "wiz_answers c (e # h) = wiz_answers c h @ filter (\<lambda>vs. vs \<noteq> []) (map (listed_by c) (rev (call_of e)))"
  by (simp_all add: wiz_answers_def)

lemma walk_items:
  assumes "path \<noteq> []"
  shows "case wiz_walk c since lastEventId path current of
      Inl e \<Rightarrow> items_at path current = []
    | Inr r \<Rightarrow> r = wiz_alerts c since lastEventId (items_at path current)"
  using assms
  by (induction c since lastEventId path current rule: wiz_walk.induct) (auto split: option.split gval.split sum.splits)

lemma answer_items:
  assumes "wiz_DataPath c \<noteq> []"
  shows "case wiz_answer c since lastEventId resp of
      Inl e \<Rightarrow> wiz_listed c resp = []
    | Inr r \<Rightarrow> r = wiz_alerts c since lastEventId (wiz_listed c resp)"
proof (cases "\<exists>result. resp = Resp 200 None (Inr result)")
  case True
  then obtain result where "resp = Resp 200 None (Inr result)" by blast
  with walk_items [OF assms, where c = c and since = since and lastEventId = lastEventId and current = result] show ?thesis by (auto simp: wiz_answer_def wiz_listed_def split: sum.splits)
next
  case False
  then show ?thesis by (auto simp: wiz_answer_def wiz_listed_def split: http.split option.split sum.split)
qed

text \<open>The time the variables of a query ask for.\<close>

definition asked_since :: "wiz_config \<Rightarrow> dict \<Rightarrow> string" where
  "asked_since c variables =
     (case map_of variables ''filterBy'' of
        Some (GMap f) \<Rightarrow> (case map_of f (wiz_TimeField c) of Some (GMap a) \<Rightarrow> string_field a ''after'' | _ \<Rightarrow> '''')
      | _ \<Rightarrow> '''')"

lemma asked_since_filter [simp]: "asked_since c (fst (wiz_filter c since variables)) = since"
  by (auto simp: asked_since_def wiz_filter_def string_field_def Let_def split: option.split gval.split)

section \<open>One request\<close>

definition still :: "wiz_config \<Rightarrow> (wiz_query, dict http) world \<Rightarrow> (wiz_query, dict http) world \<Rightarrow> bool" where
  "still c w w' \<longleftrightarrow> stop w' = stop w \<and> delivered_docs (hist w') = delivered_docs (hist w) \<and> wiz_answers c (hist w') = wiz_answers c (hist w)"

lemma still_listed: "still c w w' \<Longrightarrow> all_listed c (hist w') = all_listed c (hist w)"
  by (simp add: still_def all_listed_def)

interpretation still: frame "still c" for c
  by unfold_locales (auto simp: still_def)

lemma still_prims [simp, intro!]:
  "along (still c) (now env)" "along (still c) (onError e)" "along (still c) (call env (WizToken i s))"
  by (auto intro!: alongI simp: wp_simps still_def delivered_docs_def)

lemma still_token [simp, intro!]: "along (still c) (wiz_fetchToken env oor c' st)"
  by (auto simp: wiz_fetchToken_def wiz_cached_def intro!: still.rules split: sum.split prod.split option.split)

lemma wp_request:
  assumes "wiz_DataPath c \<noteq> []"
    and "\<And>e st' w'. still c w w' \<Longrightarrow> Q (Inl e, st') w'"
    and "\<And>items st' w' h u q vs k. asked_since c vs = since \<Longrightarrow> items = wiz_listed c (e_call env h (WizQuery u q vs k)) \<Longrightarrow>
      stop w' = stop w \<Longrightarrow> delivered_docs (hist w') = delivered_docs (hist w) \<Longrightarrow>
      wiz_answers c (hist w') = wiz_answers c (hist w) @ answer_list items \<Longrightarrow> Q (Inr (wiz_alerts c since lastEventId items), st') w'"
  shows "wp (makeOneGraphQLRequest env marshal oor c since lastEventId st) Q w"
proof -
  obtain vs kept where f: "wiz_filter c since (wiz_Variables st) = (vs, kept)" by fastforce
  then have since: "asked_since c vs = since" using asked_since_filter [of c since "wiz_Variables st"] by simp
  let ?st = "st\<lparr>wiz_Variables := kept\<rparr>"
  have query: "Q (wiz_answer c since lastEventId r, st') (w'\<lparr>hist := ECall (WizQuery (wiz_URL c) (wiz_Query c) vs tok) r # hist w'\<rparr>)"
    if s: "still c w w'" and r: "r = e_call env (hist w') (WizQuery (wiz_URL c) (wiz_Query c) vs tok)" for r st' w' tok
  proof (cases "wiz_answer c since lastEventId r")
    case (Inl e)
    with answer_items [OF assms(1), where since = since and lastEventId = lastEventId and resp = r] have "wiz_listed c r = []" by simp
    with s Inl show ?thesis by (auto intro!: assms(2) simp: still_def delivered_docs_def)
  next
    case (Inr a)
    with answer_items [OF assms(1), where since = since and lastEventId = lastEventId and resp = r] have "a = wiz_alerts c since lastEventId (wiz_listed c r)" by simp
    with s Inr show ?thesis
      using assms(3) [OF since, of "wiz_listed c r"] r by (simp add: still_def answer_list_def delivered_docs_def)
  qed
  have "wp (do {
      (token, st2) \<leftarrow> wiz_fetchToken env oor c ?st;
      case token of
        Inl e \<Rightarrow> ret (Inl (GoWrap ''error fetching token: %v'' e), st2)
      | Inr tok \<Rightarrow> do {
          resp \<leftarrow> call env (WizQuery (wiz_URL c) (wiz_Query c) vs tok);
          ret (wiz_answer c since lastEventId resp, st2)
        }
    }) Q w"
    unfolding wp_bind
  proof (rule along_wp [OF still_token [where c = c]])
    fix x w' assume "still c w w'"
    with assms(2) query show "wp (case x of (token, st2) \<Rightarrow> (case token of
        Inl e \<Rightarrow> ret (Inl (GoWrap ''error fetching token: %v'' e), st2)
      | Inr tok \<Rightarrow> do {
          resp \<leftarrow> call env (WizQuery (wiz_URL c) (wiz_Query c) vs tok);
          ret (wiz_answer c since lastEventId resp, st2)
        })) Q w'"
      by (auto simp: wp_simps split: prod.split sum.split)
  qed
  with assms(2) [OF still.refl] f show ?thesis
    by (auto simp: makeOneGraphQLRequest_def wp_ret Let_def split: option.split)
qed

section \<open>Invariants of the loop\<close>

lemma ship_items_listed:
  assumes "run_state (ship_items env items) w = (ok, w')"
  obtains k where "k \<le> length items" "ok \<longleftrightarrow> k = length items" "delivered_docs (hist w') = delivered_docs (hist w) @ take k items"
    "wiz_answers c (hist w') = wiz_answers c (hist w)" "stop w' = (stop w \<or> \<not> ok)"
proof -
  have "wiz_answers c (hist w') = wiz_answers c (hist w)"
    using alongD [OF same_calls_ship_items assms] by (simp add: same_calls_def wiz_answers_def)
  with ship_items_cases [OF assms] adds_docs that show thesis by blast
qed

text \<open>
  What holds at the head of the loop stays true when nothing is listed or delivered, and when the alerts of an answer are
  shipped; where one is not shipped, and at the head of the loop, the result holds.
\<close>

lemma wiz_loop_rule:
  assumes path: "wiz_DataPath c \<noteq> []"
    and quiet: "\<And>since e w w'. I since e w \<Longrightarrow> delivered_docs (hist w') = delivered_docs (hist w) \<Longrightarrow>
      wiz_answers c (hist w') = wiz_answers c (hist w) \<Longrightarrow> I since e w'"
    and shipped: "\<And>since e w w1 h u q vs k items alerts since' e' ok w2. I since e w \<Longrightarrow> asked_since c vs = since \<Longrightarrow>
      items = wiz_listed c (e_call env h (WizQuery u q vs k)) \<Longrightarrow>
      stop w1 = stop w \<Longrightarrow> delivered_docs (hist w1) = delivered_docs (hist w) \<Longrightarrow>
      wiz_answers c (hist w1) = wiz_answers c (hist w) @ answer_list items \<Longrightarrow> wiz_alerts c since e items = (alerts, since', e') \<Longrightarrow>
      run_state (ship_items env alerts) w1 = (ok, w2) \<Longrightarrow> if ok then I since' e' w2 else D w2"
    and result: "\<And>since e w. I since e w \<Longrightarrow> D w"
    and start: "I since lastEventId w"
  shows "wp (wiz_loop env marshal oor c n since lastEventId st) (\<lambda>_. D) w"
  using start
proof (induction n arbitrary: since lastEventId st w)
  case 0
  then show ?case by (simp add: wp_ret result)
next
  case (Suc n)
  let ?next = "\<lambda>x. case x of (r, st') \<Rightarrow> (case r of
      Inl e \<Rightarrow> do {
        onError (GoWrap ''error making GraphQL request: %v'' e);
        wiz_loop env marshal oor c n since lastEventId st'
      }
    | Inr (items, newSince, eventId) \<Rightarrow> do {
        shipped \<leftarrow> ship_items env items;
        if shipped then wiz_loop env marshal oor c n newSince eventId st' else ret ()
      })"
  have turn: "wp (State_Monad.bind (makeOneGraphQLRequest env marshal oor c since lastEventId st) ?next) (\<lambda>_. D) w1"
    if inv: "I since lastEventId w1" for w1
    unfolding wp_bind
  proof (rule wp_request [OF path], goal_cases)
    case (1 e st' w2)
    have "wp (wiz_loop env marshal oor c n since lastEventId st') (\<lambda>_. D) w3" if "still c w2 w3" for w3
      using quiet [OF inv] still.trans [OF 1 that] by (intro Suc.IH) (simp add: still_def)
    then show ?case by (simp add: wp_bind) (rule along_wp [OF still_prims(2)])
  next
    case (2 items st' w2 h u q vs k)
    obtain alerts since' e' where a: "wiz_alerts c since lastEventId items = (alerts, since', e')" by (metis prod_cases3)
    have "wp (if ok then wiz_loop env marshal oor c n since' e' st' else ret ()) (\<lambda>_. D) w3"
      if "run_state (ship_items env alerts) w2 = (ok, w3)" for ok w3
      using shipped [OF inv 2(1-5) a that] Suc.IH by (auto simp: wp_ret split: if_splits)
    then show ?case by (simp add: a wp_bind) (rule wpI)
  qed
  have waited: "I since lastEventId (w\<lparr>hist := EWait d b # hist w, stop := s\<rparr>)" for d b s
    using quiet [OF Suc.prems] by (simp add: delivered_docs_def)
  then show ?case
    unfolding wiz_loop.simps wp_bind [of "waitFor _ _"] wp_stop_ops wp_if wp_ret
    using result [OF waited] turn [OF waited] by (split if_split) blast
qed

section \<open>What is delivered\<close>

text \<open>
  Of the items of an answer the new ones are those with an identifier and a time that stand before the first item with the
  identifier of the last alert; the next identifier is that of the last new item, if it has a non-empty one.
\<close>

definition item_id :: "wiz_config \<Rightarrow> gval \<Rightarrow> string" where
  "item_id c v = (case v of GMap d \<Rightarrow> string_field d (wiz_IDField c) | _ \<Rightarrow> '''')"

definition the_map :: "gval \<Rightarrow> dict" where
  "the_map v = (case v of GMap d \<Rightarrow> d | _ \<Rightarrow> [])"

definition has_text :: "string \<Rightarrow> gval \<Rightarrow> bool" where
  "has_text k v \<longleftrightarrow> (case v of GMap d \<Rightarrow> Option.bind (map_of d k) as_string \<noteq> None | _ \<Rightarrow> False)"

definition is_last :: "wiz_config \<Rightarrow> string \<Rightarrow> gval \<Rightarrow> bool" where
  "is_last c lastEventId v \<longleftrightarrow> has_text (wiz_IDField c) v \<and> item_id c v = lastEventId"

definition wiz_new_items :: "wiz_config \<Rightarrow> string \<Rightarrow> gval list \<Rightarrow> gval list" where
  "wiz_new_items c lastEventId items =
     filter (\<lambda>v. has_text (wiz_IDField c) v \<and> has_text (wiz_TimeField c) v) (takeWhile (\<lambda>v. \<not> is_last c lastEventId v) items)"

definition next_id :: "wiz_config \<Rightarrow> string \<Rightarrow> gval list \<Rightarrow> string" where
  "next_id c lastEventId items =
     (let e = last ('''' # map (item_id c) (wiz_new_items c lastEventId items)) in if e = '''' then lastEventId else e)"

fun wiz_news :: "wiz_config \<Rightarrow> string \<Rightarrow> gval list list \<Rightarrow> gval list" where
  "wiz_news c lastEventId [] = []"
| "wiz_news c lastEventId (items # answers) =
     wiz_new_items c lastEventId items @ wiz_news c (next_id c lastEventId items) answers"






lemma news_answer [simp]:
  "wiz_news c e (answer_list items) = wiz_new_items c e items" "foldl (next_id c) e (answer_list items) = next_id c e items"
  by (auto simp: answer_list_def wiz_new_items_def next_id_def)


section \<open>Newest first\<close>

text \<open>
  The contract of a service that lists the newest alerts first: every item has an identifier and a time, the time is later
  than the one asked for, and the times descend. \<open>T\<close> is the time of an identifier, \<open>tm\<close> the time a text stands for.
\<close>

definition item_time :: "wiz_config \<Rightarrow> gval \<Rightarrow> string" where
  "item_time c v = (case v of GMap d \<Rightarrow> string_field d (wiz_TimeField c) | _ \<Rightarrow> '''')"

definition proper_item :: "wiz_config \<Rightarrow> (string \<Rightarrow> int) \<Rightarrow> (string \<Rightarrow> int) \<Rightarrow> gval \<Rightarrow> bool" where
  "proper_item c T tm v \<longleftrightarrow> item_id c v \<noteq> '''' \<and> item_time c v \<noteq> '''' \<and> tm (item_time c v) = T (item_id c v)"

definition newest_first :: "wiz_config \<Rightarrow> (string \<Rightarrow> int) \<Rightarrow> (string \<Rightarrow> int) \<Rightarrow> string \<Rightarrow> gval list \<Rightarrow> bool" where
  "newest_first c T tm since items \<longleftrightarrow> list_all (proper_item c T tm) items \<and>
     list_all (\<lambda>v. tm since < T (item_id c v)) items \<and> sorted_wrt (>) (map (T \<circ> item_id c) items)"

lemma string_field_assert: "string_field d k \<noteq> '''' \<Longrightarrow> Option.bind (map_of d k) as_string = Some (string_field d k)"
  by (auto simp: string_field_def as_string_def split: option.splits gval.splits)

lemma scan_step:
  assumes "proper_item c T tm v" "item_id c v \<noteq> lastEventId"
  shows "wiz_scan c lastEventId i (v # items) t e =
    (case wiz_scan c lastEventId (Suc i) items (if i = 0 then item_time c v else t) (item_id c v) of
       (alerts, t', e') \<Rightarrow> (the_map v # alerts, t', e'))"
  using assms
  by (cases v) (auto simp: proper_item_def item_id_def item_time_def the_map_def string_field_assert split: prod.split)

lemma scan_all:
  assumes "list_all (proper_item c T tm) items" "list_all (\<lambda>v. item_id c v \<noteq> lastEventId) items"
  shows "wiz_scan c lastEventId i items t e =
    (map the_map items, if i = 0 \<and> items \<noteq> [] then item_time c (hd items) else t, last (e # map (item_id c) items))"
  using assms
  by (induction items arbitrary: i t e) (auto simp: scan_step simp del: wiz_scan.simps(2))

lemma alerts_all:
  assumes "list_all (proper_item c T tm) items" "list_all (\<lambda>v. item_id c v \<noteq> lastEventId) items"
  shows "wiz_alerts c since lastEventId items =
    (map the_map items, if items = [] then since else item_time c (hd items),
     if items = [] then lastEventId else item_id c (last items))"
proof -
  have scan: "wiz_scan c lastEventId 0 items '''' '''' =
      (map the_map items, if items \<noteq> [] then item_time c (hd items) else '''', last ('''' # map (item_id c) items))"
    using scan_all [OF assms, of 0] by simp
  have "item_time c (hd items) \<noteq> ''''" "item_id c (last items) \<noteq> ''''" if "items \<noteq> []"
    using assms(1) that by (auto simp: list_all_iff proper_item_def)
  then show ?thesis unfolding wiz_alerts_def scan by (cases "items = []") (simp_all add: last_map)
qed

text \<open>
  At the head of the loop: what was delivered is what was listed, the identifiers differ, no time is later than \<open>since\<close>,
  and the last identifier is one of them.
\<close>

definition wiz_inv :: "wiz_config \<Rightarrow> (string \<Rightarrow> int) \<Rightarrow> (string \<Rightarrow> int) \<Rightarrow> string \<Rightarrow> string \<Rightarrow> (wiz_query, dict http) world \<Rightarrow> bool" where
  "wiz_inv c T tm since lastEventId w \<longleftrightarrow>
     (let vs = all_listed c (hist w) in
      delivered_docs (hist w) = map the_map vs \<and> list_all (proper_item c T tm) vs \<and> distinct (map (item_id c) vs) \<and>
      list_all (\<lambda>v. T (item_id c v) \<le> tm since) vs \<and> (lastEventId = '''' \<or> lastEventId \<in> item_id c ` set vs))"

text \<open>What holds at every end: the deliveries are a first part of what was listed, all of it unless the adapter stopped.\<close>

definition wiz_done :: "wiz_config \<Rightarrow> (wiz_query, dict http) world \<Rightarrow> bool" where
  "wiz_done c w \<longleftrightarrow> distinct (map (item_id c) (all_listed c (hist w))) \<and>
     (\<exists>k. delivered_docs (hist w) = map the_map (take k (all_listed c (hist w)))) \<and>
     (stop w \<or> delivered_docs (hist w) = map the_map (all_listed c (hist w)))"

lemma inv_done: "wiz_inv c T tm since lastEventId w \<Longrightarrow> wiz_done c w"
  unfolding wiz_inv_def wiz_done_def Let_def
  by (intro conjI exI [of _ "length (all_listed c (hist w))"]) auto

lemma inv_still: "wiz_inv c T tm since lastEventId w \<Longrightarrow> still c w w' \<Longrightarrow> wiz_inv c T tm since lastEventId w'"
  by (simp add: wiz_inv_def still_def all_listed_def)

text \<open>The items of one answer are shipped: all of them, and the invariant holds with the new time and identifier, or not all.\<close>

lemma answer_shipped:
  assumes inv: "wiz_inv c T tm since lastEventId w" and new: "newest_first c T tm since items"
    and w1': "stop w1 = stop w" "delivered_docs (hist w1) = delivered_docs (hist w)"
      "wiz_answers c (hist w1) = wiz_answers c (hist w) @ answer_list items"
    and r: "wiz_alerts c since lastEventId items = (alerts, since', e')" "run_state (ship_items env alerts) w1 = (ok, w2)"
  shows "if ok then wiz_inv c T tm since' e' w2 else wiz_done c w2"
proof -
  let ?vs = "all_listed c (hist w)"
  have w1: "stop w1 = stop w" "delivered_docs (hist w1) = delivered_docs (hist w)" "all_listed c (hist w1) = all_listed c (hist w) @ items"
    using w1' by (simp_all add: all_listed_def)
  have vs: "delivered_docs (hist w) = map the_map ?vs" "list_all (proper_item c T tm) ?vs" "distinct (map (item_id c) ?vs)"
    "\<forall>v\<in>set ?vs. T (item_id c v) \<le> tm since" "lastEventId = '''' \<or> lastEventId \<in> item_id c ` set ?vs"
    using inv by (auto simp: wiz_inv_def Let_def list_all_iff)
  have items: "list_all (proper_item c T tm) items" "\<forall>v\<in>set items. tm since < T (item_id c v)"
    "sorted_wrt (>) (map (T \<circ> item_id c) items)"
    using new by (auto simp: newest_first_def list_all_iff)
  have fresh: "item_id c v \<notin> item_id c ` set ?vs" if "v \<in> set items" for v
    using vs(4) items(2) that by force
  have ids: "list_all (\<lambda>v. item_id c v \<noteq> lastEventId) items"
    using fresh vs(5) items(1) by (auto simp: list_all_iff proper_item_def)
  have "sorted_wrt (\<lambda>a b. T b < T a) (map (item_id c) items)" using items(3) by (simp add: sorted_wrt_map)
  then have "distinct (map (item_id c) items)"
    by (induction items) auto
  with vs(3) fresh have dist: "distinct (map (item_id c) (?vs @ items))" by (auto simp: disjoint_iff) (metis imageI)
  have alerts: "alerts = map the_map items" "since' = (if items = [] then since else item_time c (hd items))"
    "e' = (if items = [] then lastEventId else item_id c (last items))"
    using r(1) alerts_all [OF items(1) ids, of since] by auto
  have newest: "T (item_id c v) \<le> tm since'" if "v \<in> set (?vs @ items)" for v
  proof (cases items)
    case Nil
    with that vs(4) alerts(2) show ?thesis by simp
  next
    case (Cons x xs)
    then have x: "tm since' = T (item_id c x)" "tm since < T (item_id c x)"
      using items alerts(2) by (auto simp: proper_item_def)
    show ?thesis
    proof (cases "v \<in> set items")
      case True
      with items(3) Cons x(1) show ?thesis by (auto intro: less_imp_le)
    next
      case False
      with that vs(4) have "T (item_id c v) \<le> tm since" by simp
      with x show ?thesis by simp
    qed
  qed
  obtain k where k: "k \<le> length alerts" "ok \<longleftrightarrow> k = length alerts" "delivered_docs (hist w2) = delivered_docs (hist w1) @ take k alerts"
    "all_listed c (hist w2) = all_listed c (hist w1)" "stop w2 = (stop w1 \<or> \<not> ok)"
    using ship_items_listed [OF r(2)] unfolding all_listed_def by metis
  show ?thesis
  proof (cases ok)
    case True
    have "e' = '''' \<or> e' \<in> item_id c ` set (?vs @ items)"
      using vs(5) alerts(3) by (cases items rule: rev_cases) auto
    with True k w1 vs items dist alerts newest show ?thesis
      by (auto simp: wiz_inv_def Let_def list_all_iff)
  next
    case False
    have "delivered_docs (hist w2) = map the_map (take (length ?vs + k) (?vs @ items))"
      using k(3) w1(2) vs(1) alerts(1) by (simp add: take_map)
    then have "\<exists>j. delivered_docs (hist w2) = map the_map (take j (all_listed c (hist w2)))" using k(4) w1(3) by metis
    with False k w1 dist show ?thesis unfolding wiz_done_def by simp
  qed
qed

lemma loop_newest_first:
  assumes "wiz_DataPath c \<noteq> []"
    and service: "\<And>h u q vs k. newest_first c T tm (asked_since c vs) (wiz_listed c (e_call env h (WizQuery u q vs k)))"
    and "wiz_inv c T tm since lastEventId w"
  shows "wp (wiz_loop env marshal oor c n since lastEventId st) (\<lambda>_ w'. wiz_done c w') w"
proof (rule wiz_loop_rule [OF assms(1), where I = "wiz_inv c T tm"], goal_cases)
  case (1 since e w w')
  then show ?case by (simp add: wiz_inv_def all_listed_def)
next
  case (2 since e w w1 h u q vs k items alerts since' e' ok w2)
  have "newest_first c T tm since items" using service [of vs h u q k] 2(2,3) by simp
  then show ?case using answer_shipped 2 by blast
next
  case (3 since e w)
  then show ?case by (rule inv_done)
next
  case 4
  show ?case by (rule assms(3))
qed

text \<open>From a service that lists the newest alerts first, every listed alert is delivered, none twice and in the order of the
  lists, up to the first one that cannot be shipped, with which the adapter stops.
\<close>

theorem wiz_delivers_once:
  assumes "wiz_DataPath c \<noteq> []"
    and "\<And>h u q vs k. newest_first c T tm (asked_since c vs) (wiz_listed c (e_call env h (WizQuery u q vs k)))"
  shows "wp (wiz_fetchEvents env marshal oor format c n st)
    (\<lambda>_ w'. distinct (map (item_id c) (all_listed c (hist w'))) \<and>
       (\<exists>k. delivered_docs (hist w') = map the_map (take k (all_listed c (hist w')))) \<and>
       (stop w' \<or> delivered_docs (hist w') = map the_map (all_listed c (hist w')))) fresh_world"
proof -
  have "wiz_inv c T tm since '''' (fresh_world\<lparr>hist := [ENow t]\<rparr>)" for since t
    by (simp add: wiz_inv_def all_listed_def delivered_docs_def)
  from loop_newest_first [OF assms this] show ?thesis
    unfolding wiz_fetchEvents_def wp_bind wp_now by (simp add: wiz_done_def)
qed

section \<open>Oldest first\<close>

lemma alerts_blocked:
  assumes "item_id c v = lastEventId" "v = GMap d" "lastEventId \<noteq> ''''"
  shows "wiz_alerts c since lastEventId (v # items) = ([], since, lastEventId)"
  using assms by (auto simp: wiz_alerts_def item_id_def string_field_assert)

text \<open>The identifier that ends the list is that of the last alert of the answer before. Where the query lists the oldest
  alerts first, that alert comes first in the next answer: as long as it does, no turn delivers anything, however many newer
  alerts follow it, and the time and the identifier stay as they are.
\<close>

theorem wiz_oldest_first_starves:
  assumes "wiz_DataPath c \<noteq> []" "lastEventId \<noteq> ''''" "item_id c (GMap d) = lastEventId"
    and "\<And>h u q vs k. asked_since c vs = since \<Longrightarrow> \<exists>newer. wiz_listed c (e_call env h (WizQuery u q vs k)) = GMap d # newer"
  shows "wp (wiz_loop env marshal oor c n since lastEventId st) (\<lambda>_ w'. delivered_docs (hist w') = delivered_docs (hist w)) w"
proof (induction n arbitrary: st w)
  case 0
  then show ?case by (simp add: wp_ret)
next
  case (Suc n)
  let ?next = "\<lambda>x. case x of (r, st') \<Rightarrow> (case r of
      Inl e \<Rightarrow> do {
        onError (GoWrap ''error making GraphQL request: %v'' e);
        wiz_loop env marshal oor c n since lastEventId st'
      }
    | Inr (items, newSince, eventId) \<Rightarrow> do {
        shipped \<leftarrow> ship_items env items;
        if shipped then wiz_loop env marshal oor c n newSince eventId st' else ret ()
      })"
  have again: "wp (wiz_loop env marshal oor c n since lastEventId st') (\<lambda>_ w'. delivered_docs (hist w') = delivered_docs (hist w)) w1"
    if "delivered_docs (hist w1) = delivered_docs (hist w)" for st' w1
    using Suc.IH [of st' w1] that by simp
  have turn: "wp (State_Monad.bind (makeOneGraphQLRequest env marshal oor c since lastEventId st) ?next)
      (\<lambda>_ w'. delivered_docs (hist w') = delivered_docs (hist w)) w1"
    if d: "delivered_docs (hist w1) = delivered_docs (hist w)" for w1
    unfolding wp_bind
  proof (rule wp_request [OF assms(1)], goal_cases)
    case (1 e st' w2)
    with d show ?case
      by (simp add: wp_simps still_def) (rule again, simp add: delivered_docs_def)
  next
    case (2 items st' w2 h u q vs k)
    with assms(4) [of vs h u q k] obtain newer where "items = GMap d # newer" by auto
    then have "wiz_alerts c since lastEventId items = ([], since, lastEventId)"
      using alerts_blocked [OF assms(3) refl assms(2)] by simp
    with 2 d show ?case by (simp add: wp_ret wp_bind again)
  qed
  have waited: "delivered_docs (hist (w\<lparr>hist := EWait t b # hist w, stop := s\<rparr>)) = delivered_docs (hist w)" for t b s
    by (simp add: delivered_docs_def)
  show ?case
    unfolding wiz_loop.simps wp_bind [of "waitFor _ _"] wp_stop_ops wp_if wp_ret
    using waited turn [OF waited] by (split if_split) blast
qed

section \<open>Concrete runs\<close>

definition wiz_demo :: wiz_config where
  "wiz_demo = \<lparr>wiz_ClientID = ''i'', wiz_ClientSecret = ''s'', wiz_URL = ''u'', wiz_Query = ''q'', wiz_TimeField = ''at'',
     wiz_DataPath = [''data'', ''issues''], wiz_IDField = ''id''\<rparr>"

definition wiz_alert :: "string \<Rightarrow> string \<Rightarrow> dict" where
  "wiz_alert i t = [(''id'', GString i), (''at'', GString t)]"

text \<open>A service with two alerts, of the times 2 and 1, that lists those after the time it is asked for.\<close>

definition wiz_list_answer :: "dict list \<Rightarrow> dict http" where
  "wiz_list_answer ds = Resp 200 None (Inr [(''data'', GMap [(''issues'', GSlice (map GMap ds))])])"

definition wiz_service :: "wiz_query \<Rightarrow> dict http" where
  "wiz_service q =
     (case q of
        WizToken i s \<Rightarrow> Resp 200 None (Inr [(''access_token'', GString ''k'')])
      | WizQuery u q vs k \<Rightarrow>
          wiz_list_answer (if asked_since wiz_demo vs = ''0'' then [wiz_alert ''b'' ''2'', wiz_alert ''a'' ''1''] else []))"

definition wiz_time :: "string \<Rightarrow> int" where
  "wiz_time s = (if s = ''1'' \<or> s = ''a'' then 1 else if s = ''2'' \<or> s = ''b'' then 2 else 0)"

definition wiz_start :: wiz_state where
  "wiz_start = \<lparr>wiz_Variables = [], wiz_accessToken = '''', expiresAt = 0\<rparr>"

lemma wiz_demo_simps [simp]:
  "wiz_TimeField wiz_demo = ''at''" "wiz_IDField wiz_demo = ''id''" "wiz_DataPath wiz_demo = [''data'', ''issues'']"
  by (simp_all add: wiz_demo_def)

lemma wiz_listed_answer [simp]: "wiz_listed wiz_demo (wiz_list_answer ds) = map GMap ds"
  by (simp add: wiz_listed_def wiz_list_answer_def)

theorem wiz_delivers_once_witness:
  "wp (wiz_fetchEvents (steady_env 0 wiz_service) (\<lambda>d. None) (\<lambda>f. 0) (\<lambda>t. ''0'') wiz_demo 2 wiz_start)
    (\<lambda>_ w'. distinct (map (item_id wiz_demo) (all_listed wiz_demo (hist w'))) \<and>
       (\<exists>k. delivered_docs (hist w') = map the_map (take k (all_listed wiz_demo (hist w')))) \<and>
       (stop w' \<or> delivered_docs (hist w') = map the_map (all_listed wiz_demo (hist w')))) fresh_world"
  by (rule wiz_delivers_once [where T = wiz_time and tm = wiz_time])
    (auto simp: wiz_service_def newest_first_def proper_item_def item_id_def item_time_def wiz_alert_def string_field_def
      wiz_time_def)




text \<open>A service that lists oldest first, of which the adapter has seen the alert \<open>b\<close>.\<close>

definition wiz_oldest_service :: "wiz_query \<Rightarrow> dict http" where
  "wiz_oldest_service q =
     (case q of
        WizToken i s \<Rightarrow> Resp 200 None (Inr [(''access_token'', GString ''k'')])
      | WizQuery u q vs k \<Rightarrow> wiz_list_answer [wiz_alert ''b'' ''2'', wiz_alert ''c'' ''3''])"

theorem wiz_oldest_first_starves_witness:
  "wp (wiz_loop (steady_env 0 wiz_oldest_service) (\<lambda>d. None) (\<lambda>f. 0) wiz_demo 100 ''1'' ''b'' wiz_start)
    (\<lambda>_ w'. delivered_docs (hist w') = []) fresh_world"
  using wiz_oldest_first_starves [of wiz_demo "''b''" "wiz_alert ''b'' ''2''" "''1''" "steady_env 0 wiz_oldest_service"
      "\<lambda>d. None" "\<lambda>f. 0" 100 wiz_start fresh_world]
  by (simp add: item_id_def wiz_alert_def string_field_def wiz_oldest_service_def)

end
