(* ===== verification/Cato.thy ===== *)
theory Cato
  imports Frame Polling Json_Access
begin

text \<open>
  \<open>cato/client.go\<close>: once a minute the adapter asks for the events after a marker, ships them, and writes the new marker to
  a file. Assertions on the answer that do not hold panic, and too many failed requests end the process. Decoding JSON
  and encoding a map again are parameters. The counters that only appear in log lines are left out. The loops have a
  bound; a result \<open>None\<close> says that it was used up.
\<close>

section \<open>Configuration and state\<close>

definition cato_defaultWriteTimeout :: "64 word" where "cato_defaultWriteTimeout = 60 * 10"

record cato_config =
  cato_WriteTimeoutSec :: "64 word"
  cato_ApiKey :: string
  cato_AccountId :: int

definition cato_Validate :: "go_err option \<Rightarrow> cato_config \<Rightarrow> go_err option" where
  "cato_Validate client_err c =
     (case client_err of
        Some e \<Rightarrow> Some (GoWrap ''client_options: %v'' e)
      | None \<Rightarrow>
          if cato_AccountId c = 0 then Some (GoErr ''missing account id'')
          else if cato_ApiKey c = '''' then Some (GoErr ''missing api key'')
          else None)"

text \<open>
  The adapter has the timeout of its writes, a product in \<open>int64\<close>, and a wait group \<open>wg\<close>, to which nothing is ever added.
  The marker is a variable of the package; the file \<open>config.txt\<close> gives it a first value.
\<close>

record cato_adapter =
  cato_writeTimeout :: duration
  cato_wg :: int
  cato_isRunning :: "32 word"

definition NewCatoAdapter :: "go_err option \<Rightarrow> (go_err + string) option \<Rightarrow> string \<Rightarrow> cato_config \<Rightarrow> go_err + (cato_adapter \<times> string)" where
  "NewCatoAdapter client_err config_file marker conf =
     (let timeout = (if cato_WriteTimeoutSec conf = 0 then cato_defaultWriteTimeout else cato_WriteTimeoutSec conf);
          a = \<lparr>cato_writeTimeout = sint (timeout * 1000000000), cato_wg = 0, cato_isRunning = 1\<rparr> in
      case client_err of
        Some e \<Rightarrow> Inl e
      | None \<Rightarrow>
          Inr (a, if marker = '''' then (case config_file of Some (Inr content) \<Rightarrow> trim_space content | _ \<Rightarrow> marker) else marker))"

text \<open>\<open>WaitGroup.Done\<close> panics when the counter would become negative.\<close>

definition wg_done :: "int \<Rightarrow> int outcome" where
  "wg_done counter = (if counter \<le> 0 then Panics ''sync: negative WaitGroup counter'' else Returns (counter - 1))"

definition cato_Close :: "cato_adapter \<Rightarrow> go_err option \<Rightarrow> (go_err option \<times> cato_adapter) outcome" where
  "cato_Close a close_err =
     (let a1 = a\<lparr>cato_isRunning := 0\<rparr> in
      bind_outcome (wg_done (cato_wg a1)) (\<lambda>counter. Returns (close_err, a1\<lparr>cato_wg := counter\<rparr>)))"

section \<open>Requests\<close>

text \<open>A request has the account and the marker of its query, and the key; or it fails at a stage; or the text is unpacked.\<close>

datatype cato_query = CatoPost int string string | CatoWriteMarker string

datatype cato_stage = CatoMarshal | CatoNewRequest | CatoDo | CatoReadBody | CatoNewReader | CatoUnzip

datatype cato_answer =
    CatoFails cato_stage go_err
  | CatoData string
  | CatoWritten "go_err option"

type_synonym 'a cato_io = "(cato_query, cato_answer, 'a) io"
type_synonym cato_env = "(cato_query, cato_answer) env"

definition cato_sleep :: "cato_env \<Rightarrow> duration \<Rightarrow> unit cato_io" where
  "cato_sleep env d = do { woken \<leftarrow> waitFor env d; ret () }"

definition rate_limit_text :: string where
  "rate_limit_text = ''{'' @ [CHR 34] @ ''errors'' @ [CHR 34] @ '':[{'' @ [CHR 34] @ ''message'' @ [CHR 34] @ '':'' @ [CHR 34] @
     ''rate limit for operation:''"

datatype sent = SentFatal | Sent bool dict

text \<open>The attempts of \<open>send\<close>; a rate limit is waited for without counting.\<close>

fun cato_send ::
    "cato_env \<Rightarrow> (string \<Rightarrow> go_err + dict) \<Rightarrow> cato_config \<Rightarrow> string \<Rightarrow> nat \<Rightarrow> nat \<Rightarrow> sent option cato_io" where
  "cato_send env unmarshal c marker 0 retryCount = ret None"
| "cato_send env unmarshal c marker (Suc fuel) retryCount =
     (if retryCount > 10 then ret (Some SentFatal)
      else do {
        r \<leftarrow> call env (CatoPost (cato_AccountId c) marker (cato_ApiKey c));
        case r of
          CatoData resultData \<Rightarrow>
            if has_prefix resultData rate_limit_text then do {
              cato_sleep env (5 * second);
              cato_send env unmarshal c marker fuel retryCount
            } else (case unmarshal resultData of
                      Inl e \<Rightarrow> do { cato_sleep env (2 * second); cato_send env unmarshal c marker fuel (Suc retryCount) }
                    | Inr result \<Rightarrow> ret (Some (Sent (map_of result ''errors'' = None) result)))
        | _ \<Rightarrow> do { cato_sleep env (2 * second); cato_send env unmarshal c marker fuel (Suc retryCount) }
      })"

text \<open>Three attempts, of which the last answer is taken whether it succeeded or not.\<close>

fun cato_attempts ::
    "cato_env \<Rightarrow> (string \<Rightarrow> go_err + dict) \<Rightarrow> cato_config \<Rightarrow> string \<Rightarrow> nat \<Rightarrow> nat \<Rightarrow> dict \<Rightarrow> sent option cato_io" where
  "cato_attempts env unmarshal c marker fuel 0 resp = ret (Some (Sent False resp))"
| "cato_attempts env unmarshal c marker fuel (Suc attempts_left) resp = do {
     r \<leftarrow> cato_send env unmarshal c marker fuel 0;
     case r of
       None \<Rightarrow> ret None
     | Some SentFatal \<Rightarrow> ret (Some SentFatal)
     | Some (Sent success resp') \<Rightarrow>
         if success then ret (Some (Sent True resp'))
         else do { cato_sleep env (15 * second); cato_attempts env unmarshal c marker fuel attempts_left resp' }
   }"

section \<open>The answer\<close>

text \<open>Assertions that panic.\<close>

definition bad_assertion :: "'a outcome" where
  "bad_assertion = Panics ''interface conversion''"

definition need_map :: "gval option \<Rightarrow> dict outcome" where
  "need_map v = (case v of Some (GMap d) \<Rightarrow> Returns d | _ \<Rightarrow> bad_assertion)"

definition need_slice :: "gval option \<Rightarrow> gval list outcome" where
  "need_slice v = (case v of Some (GSlice l) \<Rightarrow> Returns l | _ \<Rightarrow> bad_assertion)"

definition need_string :: "gval option \<Rightarrow> string outcome" where
  "need_string v = (case v of Some (GString s) \<Rightarrow> Returns s | _ \<Rightarrow> bad_assertion)"

definition need_float :: "gval option \<Rightarrow> gfloat outcome" where
  "need_float v = (case v of Some (GFloat64 f) \<Rightarrow> Returns f | _ \<Rightarrow> bad_assertion)"

definition cato_feed :: "dict \<Rightarrow> dict outcome" where
  "cato_feed resp = bind_outcome (need_map (map_of resp ''data'')) (\<lambda>d. need_map (map_of d ''eventsFeed''))"

definition cato_first_account :: "gval list \<Rightarrow> gval outcome" where
  "cato_first_account accounts =
     (case accounts of [] \<Rightarrow> Panics ''index out of range'' | a # rest \<Rightarrow> Returns a)"

definition record_time :: "gval \<Rightarrow> string outcome" where
  "record_time v = bind_outcome (need_map (Some v)) (\<lambda>d. need_string (map_of d ''time''))"

text \<open>One record: its fields with the time of the event put in front.\<close>

definition cato_event :: "gval \<Rightarrow> dict outcome" where
  "cato_event event =
     bind_outcome (need_map (Some event)) (\<lambda>d.
     bind_outcome (need_map (map_of d ''fieldsMap'')) (\<lambda>fieldsMap.
     bind_outcome (need_string (map_of d ''time'')) (\<lambda>t.
       Returns ((''event_timestamp'', GString t) # filter (\<lambda>kv. fst kv \<noteq> ''event_timestamp'') fieldsMap))))"

fun cato_events :: "gval list \<Rightarrow> dict list outcome" where
  "cato_events [] = Returns []"
| "cato_events (event # events) =
     bind_outcome (cato_event event) (\<lambda>e. bind_outcome (cato_events events) (\<lambda>es. Returns (e # es)))"

text \<open>The marker and the events of an answer, with all the assertions in the order of the code.\<close>

definition cato_parse :: "dict \<Rightarrow> (string \<times> dict list) outcome" where
  "cato_parse resp =
     bind_outcome (cato_feed resp) (\<lambda>feed.
     bind_outcome (need_string (map_of feed ''marker'')) (\<lambda>marker.
     bind_outcome (need_float (map_of feed ''fetchedCount'')) (\<lambda>fetched.
     bind_outcome (need_slice (map_of feed ''accounts'')) (\<lambda>accounts.
     bind_outcome (cato_first_account accounts) (\<lambda>account.
     bind_outcome (need_map (Some account)) (\<lambda>a.
     bind_outcome (need_slice (map_of a ''records'')) (\<lambda>records.
     bind_outcome (if records = [] then Returns [] else
       bind_outcome (record_time (hd records)) (\<lambda>first. record_time (last records))) (\<lambda>line.
     bind_outcome (cato_events records) (\<lambda>events. Returns (marker, events))))))))))"

section \<open>The loop\<close>

text \<open>\<open>convertStructToMap\<close>: the map of an event after encoding and decoding, nil where one of them fails.\<close>

definition convertStructToMap :: "(dict \<Rightarrow> go_err + dict) \<Rightarrow> dict \<Rightarrow> dict" where
  "convertStructToMap recode obj = (case recode obj of Inl e \<Rightarrow> [] | Inr m \<Rightarrow> m)"

text \<open>An event that cannot be shipped is reported, and the next one is shipped.\<close>

fun cato_ship :: "cato_env \<Rightarrow> (dict \<Rightarrow> go_err + dict) \<Rightarrow> duration \<Rightarrow> dict list \<Rightarrow> unit cato_io" where
  "cato_ship env recode writeTimeout [] = ret ()"
| "cato_ship env recode writeTimeout (event # events) = do {
     t \<leftarrow> now env;
     err \<leftarrow> ship env (json_message (convertStructToMap recode event) t) writeTimeout;
     err2 \<leftarrow> (if err = Some BufferFull then do {
               onWarning ''stream falling behind'';
               ship env (json_message (convertStructToMap recode event) t) 0
             } else ret err);
     (case err2 of Some e \<Rightarrow> onError (GoWrap ''Ship(): %v'' e) | None \<Rightarrow> ret ());
     cato_ship env recode writeTimeout events
   }"

text \<open>How a number of turns ends: still going, with its marker, or not.\<close>

datatype cato_end = CatoRuns string | CatoPanic string | CatoFatal | CatoFuel

fun cato_loop ::
    "cato_env \<Rightarrow> (string \<Rightarrow> go_err + dict) \<Rightarrow> (dict \<Rightarrow> go_err + dict) \<Rightarrow> cato_config \<Rightarrow> cato_adapter \<Rightarrow> nat \<Rightarrow> nat \<Rightarrow> string \<Rightarrow>
     cato_end cato_io" where
  "cato_loop env unmarshal recode c a fuel 0 marker = ret (CatoRuns marker)"
| "cato_loop env unmarshal recode c a fuel (Suc n) marker = do {
     r \<leftarrow> cato_attempts env unmarshal c marker fuel 3 [];
     case r of
       None \<Rightarrow> ret CatoFuel
     | Some SentFatal \<Rightarrow> ret CatoFatal
     | Some (Sent success resp) \<Rightarrow>
         (case cato_parse resp of
            Returns (newMarker, events) \<Rightarrow> do {
              cato_ship env recode (cato_writeTimeout a) events;
              written \<leftarrow> call env (CatoWriteMarker newMarker);
              cato_sleep env (1 * minute);
              cato_loop env unmarshal recode c a fuel n newMarker
            }
          | Panics s \<Rightarrow> ret (CatoPanic s)
          | Fails e \<Rightarrow> ret (CatoPanic ''''))
   }"

definition cato_handleEvent ::
    "cato_env \<Rightarrow> (string \<Rightarrow> go_err + dict) \<Rightarrow> (dict \<Rightarrow> go_err + dict) \<Rightarrow> cato_config \<Rightarrow> cato_adapter \<Rightarrow> nat \<Rightarrow> nat \<Rightarrow> string \<Rightarrow>
     cato_end cato_io" where
  "cato_handleEvent env unmarshal recode c a fuel n marker = do {
     started \<leftarrow> now env;
     cato_loop env unmarshal recode c a fuel n marker
   }"

section \<open>Ends of the process\<close>

text \<open>Close panics on every adapter: it calls \<open>Done\<close> on a wait group to which nothing was added.\<close>

theorem cato_Close_panics:
  assumes "NewCatoAdapter client_err config_file marker conf = Inr (a, m)"
  shows "cato_Close a close_err = Panics ''sync: negative WaitGroup counter''"
  using assms by (auto simp: NewCatoAdapter_def cato_Close_def wg_done_def Let_def split: option.splits)

definition limited_answer :: "cato_answer \<Rightarrow> bool" where
  "limited_answer r = (case r of CatoData s \<Rightarrow> has_prefix s rate_limit_text | _ \<Rightarrow> False)"

text \<open>The answers, in order, from the first new one on.\<close>

definition cato_answers :: "(cato_query, cato_answer) history \<Rightarrow> cato_answer list" where
  "cato_answers h = rev (map snd (calls h))"

lemma cato_answers_simps [simp]: "cato_answers [] = []" "cato_answers (e # h) = cato_answers h @ rev (map snd (call_of e))"
  by (simp_all add: cato_answers_def)

text \<open>A failed request: no data, or data that cannot be decoded. A good answer is decoded.\<close>

definition failed_answer :: "(string \<Rightarrow> go_err + dict) \<Rightarrow> cato_answer \<Rightarrow> bool" where
  "failed_answer unmarshal r = (case r of CatoData s \<Rightarrow> \<not> has_prefix s rate_limit_text \<and> isl (unmarshal s) | _ \<Rightarrow> True)"

definition decoded_answer :: "(string \<Rightarrow> go_err + dict) \<Rightarrow> cato_answer \<Rightarrow> dict \<Rightarrow> bool" where
  "decoded_answer unmarshal r d = (case r of CatoData s \<Rightarrow> \<not> has_prefix s rate_limit_text \<and> unmarshal s = Inr d | _ \<Rightarrow> False)"

definition how_many :: "('a \<Rightarrow> bool) \<Rightarrow> 'a list \<Rightarrow> nat" where
  "how_many P xs = length (filter P xs)"

text \<open>
  What the answers come to when \<open>k\<close> more failures are allowed: the process ends with the last of them, a result is that of
  the last answer and all before it failed or were rate limits, and the fuel runs out only by rate limits.
\<close>

definition send_outcome :: "(string \<Rightarrow> go_err + dict) \<Rightarrow> nat \<Rightarrow> nat \<Rightarrow> cato_answer list \<Rightarrow> sent option \<Rightarrow> bool" where
  "send_outcome unmarshal fuel k rs r \<longleftrightarrow>
     (case r of
        None \<Rightarrow> list_all (\<lambda>a. failed_answer unmarshal a \<or> limited_answer a) rs \<and> how_many (failed_answer unmarshal) rs \<le> k \<and>
          fuel = length rs
      | Some SentFatal \<Rightarrow> list_all (\<lambda>a. failed_answer unmarshal a \<or> limited_answer a) rs \<and> how_many (failed_answer unmarshal) rs = k
      | Some (Sent success d) \<Rightarrow>
          rs \<noteq> [] \<and> list_all (\<lambda>a. failed_answer unmarshal a \<or> limited_answer a) (butlast rs) \<and>
          how_many (failed_answer unmarshal) rs < k \<and> decoded_answer unmarshal (last rs) d \<and> (success \<longleftrightarrow> map_of d ''errors'' = None))"

lemma limited_not_failed: "limited_answer a \<Longrightarrow> \<not> failed_answer unmarshal a"
  by (auto simp: limited_answer_def failed_answer_def split: cato_answer.splits)

lemma send_outcome_Cons:
  "limited_answer a \<Longrightarrow> send_outcome unmarshal fuel k rs r \<Longrightarrow> send_outcome unmarshal (Suc fuel) k (a # rs) r"
  "failed_answer unmarshal a \<Longrightarrow> send_outcome unmarshal fuel k rs r \<Longrightarrow> send_outcome unmarshal (Suc fuel) (Suc k) (a # rs) r"
  by (auto simp: send_outcome_def how_many_def limited_not_failed split: option.splits sent.splits)

lemma send_outcomes:
  assumes "retryCount \<le> 11"
  shows "wp (cato_send env unmarshal c marker fuel retryCount)
    (\<lambda>r w'. \<exists>rs. cato_answers (hist w') = cato_answers (hist w) @ rs \<and> send_outcome unmarshal fuel (11 - retryCount) rs r) w"
  using assms
proof (induction fuel arbitrary: retryCount w)
  case 0
  then show ?case by (auto simp: wp_ret send_outcome_def how_many_def)
next
  case (Suc fuel)
  define Q where "Q r w' \<longleftrightarrow> (\<exists>rs. cato_answers (hist w') = cato_answers (hist w) @ rs \<and>
     send_outcome unmarshal (Suc fuel) (11 - retryCount) rs r)" for r and w' :: "(cato_query, cato_answer) world"
  have limited: "wp (cato_send env unmarshal c marker fuel retryCount) Q w1"
    if "cato_answers (hist w1) = cato_answers (hist w) @ [a]" "limited_answer a" for w1 a
    by (rule wp_mono [OF Suc.IH [OF Suc.prems]]) (use that send_outcome_Cons(1) in \<open>fastforce simp: Q_def\<close>)
  have failed: "wp (cato_send env unmarshal c marker fuel (Suc retryCount)) Q w1"
    if "cato_answers (hist w1) = cato_answers (hist w) @ [a]" "failed_answer unmarshal a" "retryCount \<le> 10" for w1 a
  proof (rule wp_mono [OF Suc.IH], use that(3) in simp, elim exE conjE)
    fix r rs and w' :: "(cato_query, cato_answer) world"
    assume "cato_answers (hist w') = cato_answers (hist w1) @ rs" "send_outcome unmarshal fuel (11 - Suc retryCount) rs r"
    moreover have "Suc (11 - Suc retryCount) = 11 - retryCount" using that(3) by simp
    ultimately show "Q r w'"
      using that(1,2) send_outcome_Cons(2) [of unmarshal a fuel "11 - Suc retryCount" rs r]
      unfolding Q_def by (intro exI [of _ "a # rs"]) simp
  qed
  have "wp (cato_send env unmarshal c marker (Suc fuel) retryCount) Q w"
  proof (cases "retryCount > 10")
    case True
    with Suc.prems have "retryCount = 11" by simp
    then show ?thesis by (simp add: wp_ret Q_def send_outcome_def how_many_def)
  next
    case False
    show ?thesis
    proof (cases "e_call env (hist w) (CatoPost (cato_AccountId c) marker (cato_ApiKey c))")
      case (CatoData s)
      have sent: "Q (Some (Sent (map_of d ''errors'' = None) d)) w1"
        if "cato_answers (hist w1) = cato_answers (hist w) @ [CatoData s]" "\<not> has_prefix s rate_limit_text" "unmarshal s = Inr d" for w1 d
        using that False
        by (auto simp: Q_def send_outcome_def how_many_def failed_answer_def decoded_answer_def intro!: exI [of _ "[CatoData s]"])
      show ?thesis
        using False CatoData
        by (auto simp: wp_simps cato_sleep_def limited_answer_def failed_answer_def split: sum.split
            intro!: limited [of _ "CatoData s"] failed [of _ "CatoData s"] sent)
    qed (use False in \<open>auto simp: wp_simps cato_sleep_def failed_answer_def intro!: failed\<close>)
  qed
  then show ?case unfolding Q_def .
qed

text \<open>C31: the attempts of one call of \<open>send\<close>, for every answer to them. The call ends the process only when eleven attempts
  have failed (no data, or data that cannot be decoded), and otherwise returns its last answer, decoded, which counts as a success
  when it has no \<open>errors\<close>; never do more than eleven attempts fail. Only answers that report a rate limit are not counted: when the call ends, and also
  when it has not ended after \<open>fuel\<close> attempts, all but at most eleven of its attempts were rate limited. So a call in which
  no answer reports a rate limit ends after at most eleven attempts; rate limits without end keep it going for ever.
\<close>

theorem cato_send_ends:
  "wp (cato_send env unmarshal c marker fuel 0)
    (\<lambda>r w'. \<exists>rs. cato_answers (hist w') = cato_answers (hist w) @ rs \<and> how_many (failed_answer unmarshal) rs \<le> 11 \<and>
       (case r of
          None \<Rightarrow> length rs = fuel \<and> fuel \<le> how_many limited_answer rs + 11
        | Some SentFatal \<Rightarrow> how_many (failed_answer unmarshal) rs = 11 \<and> length rs = how_many limited_answer rs + 11
        | Some (Sent success d) \<Rightarrow> rs \<noteq> [] \<and> decoded_answer unmarshal (last rs) d \<and> (success \<longleftrightarrow> map_of d ''errors'' = None) \<and>
            length rs \<le> how_many limited_answer rs + 11)) w"
proof (rule wp_mono [OF send_outcomes], simp, elim exE conjE)
  fix r rs and w' :: "(cato_query, cato_answer) world"
  assume rs: "cato_answers (hist w') = cato_answers (hist w) @ rs" "send_outcome unmarshal fuel (11 - 0) rs r"
  have len: "length xs = how_many (failed_answer unmarshal) xs + how_many limited_answer xs"
    if "list_all (\<lambda>a. failed_answer unmarshal a \<or> limited_answer a) xs" for xs
    using that limited_not_failed by (induction xs) (auto simp: how_many_def)
  have snoc: "how_many P rs = how_many P (butlast rs) + (if P (last rs) then 1 else 0)" if "rs \<noteq> []" for P :: "cato_answer \<Rightarrow> bool"
    using that by (induction rs rule: rev_induct) (auto simp: how_many_def)
  have decoded: "\<not> failed_answer unmarshal a \<and> \<not> limited_answer a" if "decoded_answer unmarshal a d" for a d
    using that by (auto simp: decoded_answer_def failed_answer_def limited_answer_def split: cato_answer.splits)
  show "\<exists>rs. cato_answers (hist w') = cato_answers (hist w) @ rs \<and> how_many (failed_answer unmarshal) rs \<le> 11 \<and>
       (case r of
          None \<Rightarrow> length rs = fuel \<and> fuel \<le> how_many limited_answer rs + 11
        | Some SentFatal \<Rightarrow> how_many (failed_answer unmarshal) rs = 11 \<and> length rs = how_many limited_answer rs + 11
        | Some (Sent success d) \<Rightarrow> rs \<noteq> [] \<and> decoded_answer unmarshal (last rs) d \<and> (success \<longleftrightarrow> map_of d ''errors'' = None) \<and>
            length rs \<le> how_many limited_answer rs + 11)"
  proof (intro exI [of _ rs] conjI, rule rs(1))
    show "how_many (failed_answer unmarshal) rs \<le> 11" using rs(2) by (auto simp: send_outcome_def split: option.splits sent.splits)
    show "case r of
          None \<Rightarrow> length rs = fuel \<and> fuel \<le> how_many limited_answer rs + 11
        | Some SentFatal \<Rightarrow> how_many (failed_answer unmarshal) rs = 11 \<and> length rs = how_many limited_answer rs + 11
        | Some (Sent success d) \<Rightarrow> rs \<noteq> [] \<and> decoded_answer unmarshal (last rs) d \<and> (success \<longleftrightarrow> map_of d ''errors'' = None) \<and>
            length rs \<le> how_many limited_answer rs + 11"
      using rs(2) len [of rs] len [of "butlast rs"] snoc [of "failed_answer unmarshal"] snoc [of limited_answer] decoded [of "last rs"]
      by (auto simp: send_outcome_def split: option.splits sent.splits)
  qed
qed

text \<open>Answers that report an error and have no data, as for a key that is not accepted.\<close>

definition refusal :: "(string \<Rightarrow> go_err + dict) \<Rightarrow> cato_answer \<Rightarrow> bool" where
  "refusal unmarshal r =
     (case r of
        CatoData s \<Rightarrow> \<not> has_prefix s rate_limit_text \<and>
          (case unmarshal s of Inl e \<Rightarrow> False | Inr d \<Rightarrow> map_of d ''errors'' \<noteq> None \<and> map_of d ''data'' = None)
      | _ \<Rightarrow> False)"

lemma attempts_refused:
  assumes "\<And>h m. refusal unmarshal (e_call env h (CatoPost (cato_AccountId c) m (cato_ApiKey c)))"
    and "map_of resp ''data'' = None"
  shows "wp (cato_attempts env unmarshal c marker (Suc fuel) k resp)
    (\<lambda>r w'. (\<exists>d. r = Some (Sent False d) \<and> map_of d ''data'' = None) \<and> delivered (hist w') = delivered (hist w)) w"
  using assms(2)
proof (induction k arbitrary: resp w)
  case 0
  then show ?case by (simp add: wp_ret)
next
  case (Suc k)
  have "refusal unmarshal (e_call env (hist w) (CatoPost (cato_AccountId c) marker (cato_ApiKey c)))"
    by (rule assms(1))
  then obtain s d where r: "e_call env (hist w) (CatoPost (cato_AccountId c) marker (cato_ApiKey c)) = CatoData s"
    "\<not> has_prefix s rate_limit_text" "unmarshal s = Inr d" "map_of d ''errors'' \<noteq> None" "map_of d ''data'' = None"
    by (auto simp: refusal_def split: cato_answer.splits sum.splits)
  show ?case
    using r by (auto simp: wp_simps cato_sleep_def intro!: wp_mono [OF Suc.IH [OF r(5)]])
qed

text \<open>An API that keeps refusing ends the process: after three refusals the last answer is taken as if it had data, and the
  assertion on it panics.
\<close>

theorem cato_refusals_panic:
  assumes "\<And>h m. refusal unmarshal (e_call env h (CatoPost (cato_AccountId c) m (cato_ApiKey c)))"
  shows "wp (cato_handleEvent env unmarshal recode c a (Suc fuel) (Suc n) marker) (\<lambda>r w'. r = CatoPanic ''interface conversion'') w"
proof -
  have parse: "cato_parse d = Panics ''interface conversion''" if "map_of d ''data'' = None" for d
    using that by (simp add: cato_parse_def cato_feed_def need_map_def bad_assertion_def)
  have "wp (cato_loop env unmarshal recode c a (Suc fuel) (Suc n) marker) (\<lambda>r w'. r = CatoPanic ''interface conversion'') w1" for w1
    unfolding cato_loop.simps wp_bind
    by (rule wp_mono [OF attempts_refused [OF assms]]) (auto simp: wp_ret parse)
  then show ?thesis unfolding cato_handleEvent_def wp_bind wp_now .
qed

section \<open>Concrete runs\<close>

definition cato_demo :: cato_config where
  "cato_demo = \<lparr>cato_WriteTimeoutSec = 0, cato_ApiKey = ''k'', cato_AccountId = 7\<rparr>"

theorem cato_Close_panics_witness:
  "cato_Close \<lparr>cato_writeTimeout = 600 * second, cato_wg = 0, cato_isRunning = 1\<rparr> None = Panics ''sync: negative WaitGroup counter''"
  using cato_Close_panics [of None None "''m''" cato_demo "\<lparr>cato_writeTimeout = 600 * second, cato_wg = 0, cato_isRunning = 1\<rparr>" "''m''" None]
  by (simp add: NewCatoAdapter_def cato_demo_def cato_defaultWriteTimeout_def)

text \<open>A service that reports a rate limit, then refuses, and then answers.\<close>

definition cato_demo_answers :: "cato_answer list" where
  "cato_demo_answers = [CatoData (rate_limit_text @ ''q''), CatoFails CatoDo (GoErr ''refused''), CatoData ''e'']"

definition cato_demo_env :: cato_env where
  "cato_demo_env = (steady_env 0 (\<lambda>q. CatoData ''e''))\<lparr>e_call := \<lambda>h q. cato_demo_answers ! length (calls h)\<rparr>"

definition cato_demo_run :: "sent option \<times> (cato_query, cato_answer) world" where
  "cato_demo_run = run_state (cato_send cato_demo_env (\<lambda>s. Inr []) cato_demo ''m'' 3 0) fresh_world"

theorem cato_send_ends_witness:
  "fst cato_demo_run = Some (Sent True []) \<and> cato_answers (hist (snd cato_demo_run)) = cato_demo_answers"
proof -
  have prefix: "has_prefix (rate_limit_text @ ''q'') rate_limit_text" "\<not> has_prefix ''e'' rate_limit_text"
    by (simp_all add: has_prefix_def rate_limit_text_def)
  have answers: "cato_answers (hist (snd cato_demo_run)) = cato_demo_answers" "fst cato_demo_run \<noteq> None" "fst cato_demo_run \<noteq> Some SentFatal"
    by (simp_all add: cato_demo_run_def cato_demo_env_def cato_demo_answers_def eval_nat_numeral run_simps cato_sleep_def prefix)
  from cato_send_ends [of cato_demo_env "\<lambda>s. Inr []" cato_demo "''m''" 3 fresh_world, unfolded wp_def case_prod_beta, folded cato_demo_run_def]
  obtain rs where rs: "cato_answers (hist (snd cato_demo_run)) = cato_answers (hist fresh_world) @ rs"
    "case fst cato_demo_run of
       None \<Rightarrow> length rs = 3 \<and> 3 \<le> how_many limited_answer rs + 11
     | Some SentFatal \<Rightarrow> how_many (failed_answer (\<lambda>s. Inr [])) rs = 11 \<and> length rs = how_many limited_answer rs + 11
     | Some (Sent success d) \<Rightarrow> rs \<noteq> [] \<and> decoded_answer (\<lambda>s. Inr []) (last rs) d \<and> (success \<longleftrightarrow> map_of d ''errors'' = None) \<and>
         length rs \<le> how_many limited_answer rs + 11" by blast
  obtain success d where r: "fst cato_demo_run = Some (Sent success d)"
    using answers(2,3) by (metis option.exhaust sent.exhaust)
  with rs answers(1) show ?thesis by (auto simp: cato_demo_answers_def decoded_answer_def)
qed

theorem cato_refusals_panic_witness:
  "wp (cato_handleEvent (steady_env 0 (\<lambda>q. CatoData ''e'')) (\<lambda>s. Inr [(''errors'', GSlice [])]) (\<lambda>d. Inr d) cato_demo
      \<lparr>cato_writeTimeout = 600 * second, cato_wg = 0, cato_isRunning = 1\<rparr> 12 1 ''m'')
    (\<lambda>r w'. r = CatoPanic ''interface conversion'') fresh_world"
  using cato_refusals_panic [of "\<lambda>s. Inr [(''errors'', GSlice [])]" "steady_env 0 (\<lambda>q. CatoData ''e'')" cato_demo "\<lambda>d. Inr d"
      "\<lparr>cato_writeTimeout = 600 * second, cato_wg = 0, cato_isRunning = 1\<rparr>" 11 0 "''m''" fresh_world]
  by (simp add: refusal_def rate_limit_text_def has_prefix_def)

end
