(* ===== verification/Client_Libs.thy ===== *)
theory Client_Libs
  imports Frame Polling Json_Access
begin

text \<open>
  Three adapters that read through the client library of a service: \<open>duo/client.go\<close>, \<open>falconcloud/client.go\<close> and
  \<open>bigquery/client.go\<close>. The libraries are calls of the environment. Goroutines that read from a channel are run over what
  the channel gives them.
\<close>

section \<open>Duo\<close>


record duo_config =
  duo_IntegrationKey :: string
  duo_SecretKey :: string
  duo_APIHostname :: string

definition duo_Validate :: "go_err option \<Rightarrow> duo_config \<Rightarrow> go_err option" where
  "duo_Validate client_err c =
     (case client_err of
        Some e \<Rightarrow> Some (GoWrap ''client_options: %v'' e)
      | None \<Rightarrow>
          if duo_IntegrationKey c = '''' then Some (GoErr ''missing integration_key'')
          else if duo_SecretKey c = '''' then Some (GoErr ''missing secret_key'')
          else if duo_APIHostname c = '''' then Some (GoErr ''missing api_hostname'')
          else None)"

definition duo_Close :: "('q, 'r) env \<Rightarrow> ('q, 'r, go_err option) io" where
  "duo_Close env = close_adapter env"

text \<open>
  A request has the earliest time, the length of the window, which only authentication logs have, and the offset of the
  answer before it; an answer the logs and the next offset, if there is one. The offset of the administration logs is
  computed for a time the adapter reads off the clock.
\<close>

datatype duo_query =
    DuoAuth time duration "string option"
  | DuoAdmin time "string option"

type_synonym duo_answer = "go_err + (dict list \<times> string option)"

text \<open>The earliest time after a log: a millisecond or a second after it, as \<open>gap\<close> says. \<open>p\<close> is \<open>time.Parse\<close> with RFC 3339.\<close>

definition duo_min_time :: "(string \<Rightarrow> time option) \<Rightarrow> (gfloat \<Rightarrow> 64 word) \<Rightarrow> duration \<Rightarrow> dict \<Rightarrow> time \<Rightarrow> time" where
  "duo_min_time p oor gap al minTime =
     (case GetString al ''isotimestamp'' of
        (its, True) \<Rightarrow> (case p its of Some nt \<Rightarrow> nt + gap | None \<Rightarrow> minTime)
      | (its, False) \<Rightarrow>
          (case GetInt oor al ''timestamp'' of
             (ts, True) \<Rightarrow> sint ts * second + 1 * second
           | (ts, False) \<Rightarrow> minTime))"








definition NewDuoAdapter :: "go_err option \<Rightarrow> go_err + unit" where
  "NewDuoAdapter client_err = (case client_err of Some e \<Rightarrow> Inl e | None \<Rightarrow> Inr ())"

section \<open>Falcon\<close>

definition falcon_defaultWriteTimeout :: "64 word" where "falcon_defaultWriteTimeout = 60 * 10"

record falcon_config =
  fal_WriteTimeoutSec :: "64 word"
  fal_ClientId :: string
  fal_ClientSecret :: string
  fal_IsUsingOffset :: bool
  fal_Offset :: "64 word"
  fal_NotBefore :: "time option"

definition falcon_Validate :: "go_err option \<Rightarrow> falcon_config \<Rightarrow> go_err option" where
  "falcon_Validate client_err c =
     (case client_err of
        Some e \<Rightarrow> Some (GoWrap ''client_options: %v'' e)
      | None \<Rightarrow>
          if fal_ClientId c = '''' then Some (GoErr ''missing client id'')
          else if fal_ClientSecret c = '''' then Some (GoErr ''missing client secret'')
          else None)"

text \<open>The constructor gives the timeout of the writes, a product in \<open>int64\<close>.\<close>

definition NewFalconCloudAdapter :: "go_err option \<Rightarrow> falcon_config \<Rightarrow> go_err + duration" where
  "NewFalconCloudAdapter client_err conf =
     (let timeout = (if fal_WriteTimeoutSec conf = 0 then falcon_defaultWriteTimeout else fal_WriteTimeoutSec conf) in
      case client_err of Some e \<Rightarrow> Inl e | None \<Rightarrow> Inr (sint (timeout * 1000000000)))"

definition falcon_Close :: "('q, 'r) env \<Rightarrow> ('q, 'r, go_err option) io" where
  "falcon_Close env = do { setStop; closeClient env }"

text \<open>An event: the time it was created, in milliseconds, and what encoding and decoding it as JSON gives.\<close>

record falcon_event =
  EventCreationTime :: "64 word"
  fe_json :: "go_err + dict"

text \<open>What the \<open>select\<close> of a stream finds ready.\<close>

datatype falcon_ready = FalDone | FalError go_err | FalEvent falcon_event

datatype falcon_query =
    FalNewClient string string
  | FalListStreams string
  | FalNewStream string string "64 word"
  | FalNext string

text \<open>An error or none; the streams with the errors of the payload; the next of a stream.\<close>

datatype falcon_answer =
    FalErr "go_err option"
  | FalStreams "go_err + (go_err option \<times> string list)"
  | FalReady falcon_ready

type_synonym 'a falcon_io = "(falcon_query, falcon_answer, 'a) io"
type_synonym falcon_env = "(falcon_query, falcon_answer) env"

definition fal_err :: "falcon_answer \<Rightarrow> go_err option" where
  "fal_err r = (case r of FalErr e \<Rightarrow> e | _ \<Rightarrow> None)"

definition fal_streams :: "falcon_answer \<Rightarrow> go_err + (go_err option \<times> string list)" where
  "fal_streams r = (case r of FalStreams s \<Rightarrow> s | _ \<Rightarrow> Inr (None, []))"

definition fal_ready :: "falcon_answer \<Rightarrow> falcon_ready" where
  "fal_ready r = (case r of FalReady x \<Rightarrow> x | _ \<Rightarrow> FalDone)"

definition falcon_json :: "falcon_event \<Rightarrow> dict" where
  "falcon_json event = (case fe_json event of Inl e \<Rightarrow> [] | Inr m \<Rightarrow> m)"

text \<open>Whether an event is left out: it is older than the time to begin with, if there is one.\<close>

definition too_old :: "time \<Rightarrow> falcon_event \<Rightarrow> bool" where
  "too_old notBefore event \<longleftrightarrow> notBefore \<noteq> zero_time \<and> sint (EventCreationTime event) * millisecond < notBefore"

definition falcon_ship :: "falcon_env \<Rightarrow> duration \<Rightarrow> falcon_event \<Rightarrow> unit falcon_io" where
  "falcon_ship env writeTimeout event = do {
     t \<leftarrow> now env;
     err \<leftarrow> ship env (json_message (falcon_json event) t) writeTimeout;
     err2 \<leftarrow> (if err = Some BufferFull then do {
               onWarning ''stream falling behind'';
               ship env (json_message (falcon_json event) t) 0
             } else ret err);
     case err2 of Some e \<Rightarrow> onError (GoWrap ''Ship(): %v'' e) | None \<Rightarrow> ret ()
   }"

fun falcon_events :: "falcon_env \<Rightarrow> duration \<Rightarrow> string \<Rightarrow> time \<Rightarrow> nat \<Rightarrow> unit falcon_io" where
  "falcon_events env writeTimeout stream notBefore 0 = ret ()"
| "falcon_events env writeTimeout stream notBefore (Suc n) = do {
     r \<leftarrow> call env (FalNext stream);
     case fal_ready r of
       FalDone \<Rightarrow> ret ()
     | FalError e \<Rightarrow> onError (GoWrap ''stream error: %v'' e)
     | FalEvent event \<Rightarrow> do {
         (if too_old notBefore event then ret () else falcon_ship env writeTimeout event);
         falcon_events env writeTimeout stream notBefore n
       }
   }"

definition falcon_start :: "falcon_env \<Rightarrow> falcon_config \<Rightarrow> (time \<times> 64 word) falcon_io" where
  "falcon_start env c =
     (if fal_IsUsingOffset c then ret (zero_time, fal_Offset c)
      else (case fal_NotBefore c of
              Some t \<Rightarrow> if t \<noteq> zero_time then ret (t, 0) else do { t' \<leftarrow> now env; ret (t', 0) }
            | None \<Rightarrow> do { t' \<leftarrow> now env; ret (t', 0) }))"

definition falcon_handleStream :: "falcon_env \<Rightarrow> falcon_config \<Rightarrow> duration \<Rightarrow> string \<Rightarrow> nat \<Rightarrow> string \<Rightarrow> unit falcon_io" where
  "falcon_handleStream env c writeTimeout appName n stream = do {
     (notBefore, offset) \<leftarrow> falcon_start env c;
     r \<leftarrow> call env (FalNewStream appName stream offset);
     case fal_err r of
       Some e \<Rightarrow> onError (GoWrap ''falcon.NewStream(): %v'' e)
     | None \<Rightarrow> falcon_events env writeTimeout stream notBefore n
   }"

text \<open>The streams that are started, each with a goroutine of its own. The random part of the name is an argument.\<close>

definition falcon_handleEvent :: "falcon_env \<Rightarrow> falcon_config \<Rightarrow> string \<Rightarrow> string list falcon_io" where
  "falcon_handleEvent env c uuid = do {
     made \<leftarrow> call env (FalNewClient (fal_ClientId c) (fal_ClientSecret c));
     case fal_err made of
       Some e \<Rightarrow> do { onError (GoWrap ''falcon.NewClient(): %v'' e); ret [] }
     | None \<Rightarrow> do {
         r \<leftarrow> call env (FalListStreams (''lc-adapter-'' @ take 8 uuid));
         case fal_streams r of
           Inl e \<Rightarrow> do { onError (GoWrap ''falcon.EventStreams.ListAvailableStreamsOAuth2(): %v'' e); ret [] }
         | Inr (Some e, streams) \<Rightarrow> do { onError (GoWrap ''falcon.AssertNoError(): %v'' e); ret [] }
         | Inr (None, []) \<Rightarrow> do {
             onError (GoErr (''No available stream was found for AppID=%s. Ensure no other instance is running or check API permissions.'' @ [CHR 10]));
             ret []
           }
         | Inr (None, streams) \<Rightarrow> ret streams
       }
   }"

section \<open>BigQuery\<close>

record bq_config =
  bq_ProjectId :: string
  bq_BigQueryProject :: string
  bq_DatasetName :: string
  bq_TableName :: string
  bq_ServiceAccountCreds :: string
  bq_SqlQuery :: string
  bq_QueryInterval :: string
  bq_IsOneTimeLoad :: bool

definition bq_Validate :: "bq_config \<Rightarrow> go_err option" where
  "bq_Validate c =
     (if bq_ProjectId c = '''' then Some (GoErr ''missing project_id'')
      else if bq_BigQueryProject c = '''' then Some (GoErr ''missing bigquery project name'')
      else if bq_DatasetName c = '''' then Some (GoErr ''missing dataset_name'')
      else if bq_TableName c = '''' then Some (GoErr ''missing table_name'')
      else if bq_SqlQuery c = '''' then Some (GoErr ''missing sql query'')
      else None)"

text \<open>How the client authenticates, after the form of the credentials.\<close>

datatype bq_auth = BqDefault | BqNone | BqFile string | BqJson string

definition bq_auth_of :: "bq_config \<Rightarrow> bq_auth" where
  "bq_auth_of c =
     (let creds = bq_ServiceAccountCreds c in
      if creds = '''' then BqDefault
      else if creds = ''-'' then BqNone
      else if \<not> has_prefix creds ''{'' then BqFile creds
      else BqJson creds)"

text \<open>\<open>made\<close> is the error of creating the BigQuery client, \<open>client_err\<close> that of the other; \<open>parse\<close> is \<open>time.ParseDuration\<close>.\<close>

definition NewBigQueryAdapter ::
    "(bq_auth \<Rightarrow> go_err option) \<Rightarrow> go_err option \<Rightarrow> (string \<Rightarrow> go_err + duration) \<Rightarrow> bq_config \<Rightarrow> go_err + duration" where
  "NewBigQueryAdapter made client_err parse c =
     (case made (bq_auth_of c) of
        Some e \<Rightarrow> Inl e
      | None \<Rightarrow>
          (case client_err of
             Some e \<Rightarrow> Inl e
           | None \<Rightarrow>
               (case parse (bq_QueryInterval c) of
                  Inl e \<Rightarrow> Inl (GoWrap ''invalid query interval: %w'' e)
                | Inr queryInterval \<Rightarrow> Inr queryInterval)))"

text \<open>
  A query gives an error or rows and how they end; the metadata an error or the names of the columns of the table. The
  goroutine that ships the rows runs over all of them before its result and the end of the rows are looked at.
\<close>

datatype bq_query = BqRead string | BqMetadata string string string

datatype bq_answer =
    BqRows "go_err + (gval list list \<times> go_err option)"
  | BqSchema "go_err + string list"

type_synonym 'a bq_io = "(bq_query, bq_answer, 'a) io"
type_synonym bq_env = "(bq_query, bq_answer) env"

definition rows_of :: "bq_answer \<Rightarrow> go_err + (gval list list \<times> go_err option)" where
  "rows_of r = (case r of BqRows x \<Rightarrow> x | _ \<Rightarrow> Inr ([], None))"

definition schema_of :: "bq_answer \<Rightarrow> go_err + string list" where
  "schema_of r = (case r of BqSchema x \<Rightarrow> x | _ \<Rightarrow> Inr [])"

text \<open>The columns of a row under the names of the table, by position; a column without a name is out of range.\<close>

fun bq_row_map :: "string list \<Rightarrow> gval list \<Rightarrow> dict \<Rightarrow> dict outcome" where
  "bq_row_map schema [] rowMap = Returns rowMap"
| "bq_row_map [] (col # cols) rowMap = Panics ''index out of range''"
| "bq_row_map (name # schema) (col # cols) rowMap = bq_row_map schema cols (put name col rowMap)"

datatype bq_end = BqOk | BqErr go_err | BqPanic string | BqCancelled

fun bq_ship :: "bq_env \<Rightarrow> string list \<Rightarrow> gval list list \<Rightarrow> bq_end bq_io" where
  "bq_ship env schema [] = ret BqOk"
| "bq_ship env schema (row # rows) = do {
     cancelled \<leftarrow> waitFor env 0;
     if cancelled then ret BqCancelled
     else (case bq_row_map schema row [] of
             Panics s \<Rightarrow> ret (BqPanic s)
           | Fails e \<Rightarrow> ret (BqPanic '''')
           | Returns rowMap \<Rightarrow> do {
               t \<leftarrow> now env;
               err \<leftarrow> ship_retry env (json_message rowMap t);
               (case err of
                  Some e \<Rightarrow> do { onError (GoWrap ''ship(): %v'' e); ret (BqErr e) }
                | None \<Rightarrow> bq_ship env schema rows)
             })
   }"

definition lookupAndSend :: "bq_env \<Rightarrow> bq_config \<Rightarrow> bq_end bq_io" where
  "lookupAndSend env c = do {
     it \<leftarrow> call env (BqRead (bq_SqlQuery c));
     case rows_of it of
       Inl e \<Rightarrow> ret (BqErr e)
     | Inr (rows, it_end) \<Rightarrow> do {
         meta \<leftarrow> call env (BqMetadata (bq_BigQueryProject c) (bq_DatasetName c) (bq_TableName c));
         case schema_of meta of
           Inl e \<Rightarrow> ret (BqErr e)
         | Inr schema \<Rightarrow> do {
             r \<leftarrow> bq_ship env schema rows;
             ret (case r of BqOk \<Rightarrow> (case it_end of Some e \<Rightarrow> BqErr e | None \<Rightarrow> BqOk) | _ \<Rightarrow> r)
           }
       }
   }"

text \<open>The goroutine of the constructor. A cancelled context comes back as its error or as success; both end the loop.\<close>

fun bq_loop :: "bq_env \<Rightarrow> bq_config \<Rightarrow> duration \<Rightarrow> nat \<Rightarrow> bq_end bq_io" where
  "bq_loop env c queryInterval 0 = ret BqOk"
| "bq_loop env c queryInterval (Suc n) = do {
     r \<leftarrow> lookupAndSend env c;
     case r of
       BqErr e \<Rightarrow> do { onError (GoWrap ''bigquery error: %v'' e); ret r }
     | BqOk \<Rightarrow>
         if bq_IsOneTimeLoad c then ret r
         else do {
           cancelled \<leftarrow> waitFor env queryInterval;
           if cancelled then ret BqCancelled else bq_loop env c queryInterval n
         }
     | _ \<Rightarrow> ret r
   }"

definition bq_Close :: "('q, 'r) env \<Rightarrow> ('q, 'r, go_err option) io" where
  "bq_Close env = close_adapter env"

section \<open>Properties\<close>

subsection \<open>Duo\<close>


text \<open>The requests and answers in order, and the logs an answer lists.\<close>

definition duo_calls :: "(duo_query, duo_answer) history \<Rightarrow> (duo_query \<times> duo_answer) list" where
  "duo_calls h = rev (calls h)"

lemma duo_calls_simps [simp]: "duo_calls [] = []" "duo_calls (e # h) = duo_calls h @ rev (call_of e)"
  by (simp_all add: duo_calls_def)


text \<open>The time to ask for after a log, where one can be read from it; and after a list of logs: that of the last readable one.\<close>

definition log_next :: "(string \<Rightarrow> time option) \<Rightarrow> (gfloat \<Rightarrow> 64 word) \<Rightarrow> duration \<Rightarrow> dict \<Rightarrow> time option" where
  "log_next p oor gap al =
     (case GetString al ''isotimestamp'' of
        (its, True) \<Rightarrow> map_option (\<lambda>t. t + gap) (p its)
      | (its, False) \<Rightarrow> (case GetInt oor al ''timestamp'' of (ts, True) \<Rightarrow> Some (sint ts * second + 1 * second) | (ts, False) \<Rightarrow> None))"

definition after_logs :: "(string \<Rightarrow> time option) \<Rightarrow> (gfloat \<Rightarrow> 64 word) \<Rightarrow> duration \<Rightarrow> dict list \<Rightarrow> time \<Rightarrow> time" where
  "after_logs p oor gap logs m = last (m # List.map_filter (log_next p oor gap) logs)"

lemma min_time_next: "duo_min_time p oor gap al m = (case log_next p oor gap al of None \<Rightarrow> m | Some t \<Rightarrow> t)"
  by (auto simp: duo_min_time_def log_next_def split: prod.split bool.split option.split)

lemma after_logs_simps [simp]:
  "after_logs p oor gap [] m = m" "after_logs p oor gap (al # logs) m = after_logs p oor gap logs (duo_min_time p oor gap al m)"
  by (auto simp: after_logs_def min_time_next List.map_filter_simps split: option.split)








subsection \<open>Falcon\<close>

text \<open>The events a stream has given, in order.\<close>

fun event_of :: "falcon_query \<times> falcon_answer \<Rightarrow> falcon_event list" where
  "event_of (FalNext s, r) = (case fal_ready r of FalEvent e \<Rightarrow> [e] | _ \<Rightarrow> [])"
| "event_of _ = []"

definition falcon_received :: "(falcon_query, falcon_answer) history \<Rightarrow> falcon_event list" where
  "falcon_received h = concat (map event_of (rev (calls h)))"

lemma falcon_ship_accepts:
  assumes "\<And>h m d. e_ship env h m d = None"
    and "\<And>w'. calls (hist w') = calls (hist w) \<Longrightarrow> delivered_docs (hist w') = delivered_docs (hist w) @ [falcon_json event] \<Longrightarrow> Q () w'"
  shows "wp (falcon_ship env writeTimeout event) Q w"
  by (auto simp: falcon_ship_def wp_simps assms(1) delivered_docs_def intro!: assms(2))

text \<open>A client that accepts everything gets exactly the events of the stream that are not older than the time to begin with,
  in the order of the stream.
\<close>

theorem falcon_delivers_recent:
  assumes "\<And>h m d. e_ship env h m d = None"
  shows "wp (falcon_events env writeTimeout stream notBefore n)
    (\<lambda>_ w'. \<exists>es. falcon_received (hist w') = falcon_received (hist w) @ es \<and>
       delivered_docs (hist w') = delivered_docs (hist w) @ map falcon_json (filter (\<lambda>e. \<not> too_old notBefore e) es)) w"
proof (induction n arbitrary: w)
  case 0
  show ?case by (auto simp: wp_ret)
next
  case (Suc n)
  let ?post = "\<lambda>w w'. \<exists>es. falcon_received (hist w') = falcon_received (hist w) @ es \<and>
       delivered_docs (hist w') = delivered_docs (hist w) @ map falcon_json (filter (\<lambda>e. \<not> too_old notBefore e) es)"
  let ?r = "e_call env (hist w) (FalNext stream)"
  let ?w1 = "w\<lparr>hist := ECall (FalNext stream) ?r # hist w\<rparr>"
  have rest: "wp (falcon_events env writeTimeout stream notBefore n) (\<lambda>_. ?post w) w2"
    if "fal_ready ?r = FalEvent event" "calls (hist w2) = (FalNext stream, ?r) # calls (hist w)"
      "delivered_docs (hist w2) = delivered_docs (hist w) @ (if too_old notBefore event then [] else [falcon_json event])" for event w2
  proof (rule wp_mono [OF Suc.IH], elim exE conjE)
    fix x w' es
    assume "falcon_received (hist w') = falcon_received (hist w2) @ es"
      "delivered_docs (hist w') = delivered_docs (hist w2) @ map falcon_json (filter (\<lambda>e. \<not> too_old notBefore e) es)"
    with that show "?post w w'" by (intro exI [of _ "event # es"]) (simp add: falcon_received_def)
  qed
  show ?case
  proof (cases "fal_ready ?r")
    case (FalEvent event)
    then show ?thesis
      unfolding falcon_events.simps wp_bind [of "call _ _"] wp_call
      by (auto simp: wp_bind wp_ret delivered_docs_def [of "ECall _ _ # _"] delivered_docs_def [symmetric]
        intro!: falcon_ship_accepts [OF assms] rest)
  qed (auto simp: wp_simps falcon_received_def delivered_docs_def)
qed

subsection \<open>BigQuery\<close>

text \<open>
  A row becomes a document that has its first column under the first name of the table, and so on, whatever the query
  calls its columns; and a row with more columns than the table ends the process.
\<close>

theorem bq_row_by_position:
  assumes "distinct schema"
  shows "bq_row_map schema row [] = (if length row \<le> length schema then Returns (zip schema row) else Panics ''index out of range'')"
proof -
  have "bq_row_map schema row m = (if length row \<le> length schema then Returns (m @ zip schema row) else Panics ''index out of range'')"
    if "distinct schema" "fst ` set m \<inter> set schema = {}" for m schema
    using that
  proof (induction schema row m rule: bq_row_map.induct)
    case (3 name schema col cols m)
    have "put name col m = m @ [(name, col)]" if "name \<notin> fst ` set m" for m :: dict
      using that by (induction m) auto
    with 3 show ?case by auto
  qed auto
  from this [of schema "[]"] assms show ?thesis by simp
qed

section \<open>Concrete runs\<close>

theorem falcon_delivers_recent_witness:
  "wp (falcon_events (steady_env 0 (\<lambda>q. FalReady (FalEvent \<lparr>EventCreationTime = 1, fe_json = Inr []\<rparr>))) (600 * second) ''s'' 5 3)
    (\<lambda>_ w'. \<exists>es. falcon_received (hist w') = es \<and>
       delivered_docs (hist w') = map falcon_json (filter (\<lambda>e. \<not> too_old 5 e) es)) fresh_world"
  using falcon_delivers_recent [of "steady_env 0 (\<lambda>q. FalReady (FalEvent \<lparr>EventCreationTime = 1, fe_json = Inr []\<rparr>))"
      "600 * second" "''s''" 5 3 fresh_world]
  by (simp add: falcon_received_def)

theorem bq_row_by_position_witness:
  "bq_row_map [''a'', ''b''] [GString ''total''] [] = Returns [(''a'', GString ''total'')]"
  using bq_row_by_position [of "[''a'', ''b'']" "[GString ''total'']"] by simp

end
