(* ===== verification/Listeners.thy ===== *)
theory Listeners
  imports Line_Adapters Queue_Adapters Frame
begin

text \<open>
  The constructors that listen: the accept loop of \<open>syslog/client.go\<close>, the subscription of \<open>pubsub/client.go\<close>, and the receivers
  of \<open>azure_event_hub/client.go\<close>. The network and the client libraries are the environment. A goroutine that handles a
  connection or a message is the operation of \<open>Line_Adapters\<close> or \<open>Queue_Adapters\<close>; here it is only started.
\<close>

section \<open>Connections\<close>

datatype accept_query = QAccept | QCloseConn nat

type_synonym accept_answer = "go_err + nat"
type_synonym 'a accept_io = "(accept_query, accept_answer, 'a) io"
type_synonym accept_env = "(accept_query, accept_answer) env"

text \<open>
  The connections for which a handler is started. Whether the adapter runs is looked at before and, under a mutex, after
  a connection was accepted.
\<close>

fun handleTCPConnections :: "accept_env \<Rightarrow> nat \<Rightarrow> nat list accept_io" where
  "handleTCPConnections env 0 = ret []"
| "handleTCPConnections env (Suc n) = do {
     running \<leftarrow> is_running env;
     if \<not> running then ret []
     else do {
       r \<leftarrow> call env QAccept;
       case r of
         Inl e \<Rightarrow> ret []
       | Inr conn \<Rightarrow> do {
           running' \<leftarrow> is_running env;
           if \<not> running' then do { call env (QCloseConn conn); ret [] }
           else do { conns \<leftarrow> handleTCPConnections env n; ret (conn # conns) }
         }
     }
   }"

fun accepted_by :: "accept_query \<times> accept_answer \<Rightarrow> nat list" where
  "accepted_by (QAccept, Inr conn) = [conn]"
| "accepted_by _ = []"

fun conn_closed_by :: "accept_query \<times> accept_answer \<Rightarrow> nat list" where
  "conn_closed_by (QCloseConn conn, r) = [conn]"
| "conn_closed_by _ = []"

definition by_calls :: "('q \<times> 'r \<Rightarrow> 'a list) \<Rightarrow> ('q, 'r) history \<Rightarrow> 'a list" where
  "by_calls f h = concat (map f (rev (calls h)))"

lemma by_calls_simps [simp]: "by_calls f [] = []" "by_calls f (e # h) = by_calls f h @ concat (map f (rev (call_of e)))"
  by (simp_all add: by_calls_def)

text \<open>Every connection that is accepted gets a handler, or is the last one and closed at once.\<close>

theorem syslog_connections_handled:
  "wp (handleTCPConnections env n) (\<lambda>conns w'. \<exists>gone. length gone \<le> 1 \<and>
     by_calls accepted_by (hist w') = by_calls accepted_by (hist w) @ conns @ gone \<and>
     by_calls conn_closed_by (hist w') = by_calls conn_closed_by (hist w) @ gone) w"
proof (induction n arbitrary: w)
  case 0
  show ?case by (simp add: wp_ret)
next
  case (Suc n)
  show ?case
    by (auto simp: is_running_def wp_bind wp_ret wp_call wp_stop_ops intro!: wp_mono [OF Suc.IH] split: sum.split)
qed

section \<open>Pub/Sub\<close>

datatype pubsub_auth = PsDefault | PsNone | PsFile string | PsJson string

definition pubsub_auth_of :: "pubsub_config \<Rightarrow> pubsub_auth" where
  "pubsub_auth_of c =
     (let creds = ps_ServiceAccountCreds c in
      if creds = '''' then PsDefault
      else if creds = ''-'' then PsNone
      else if \<not> has_prefix creds ''{'' then PsFile creds
      else PsJson creds)"

text \<open>The resources of the two constructors.\<close>

datatype resource = RClient | RUsp | RListener string

datatype start_query =
    OpenClient pubsub_auth string
  | OpenHub string
  | PartitionIDs
  | OpenUsp
  | OpenListener string
  | ReceiveSub string int
  | CloseResource resource

text \<open>An error or none; the partitions.\<close>

datatype start_answer = StartErr "go_err option" | StartIds "go_err + string list"

type_synonym 'a start_io = "(start_query, start_answer, 'a) io"
type_synonym start_env = "(start_query, start_answer) env"

definition start_err :: "start_answer \<Rightarrow> go_err option" where
  "start_err r = (case r of StartErr e \<Rightarrow> e | _ \<Rightarrow> None)"

definition start_ids :: "start_answer \<Rightarrow> go_err + string list" where
  "start_ids r = (case r of StartIds x \<Rightarrow> x | _ \<Rightarrow> Inr [])"

text \<open>The subscription of the adapter: its name, and the variable \<open>buildSub\<close> that holds it, which is nil or not.\<close>

record pubsub_sub =
  sub_name :: string
  sub_MaxOutstandingBytes :: int
  buildSub :: bool

text \<open>
  The goroutine that receives: after every end of \<open>Receive\<close> it sleeps, which has no effect here, and looks whether the subscription is nil. The result says
  whether it has come to its end and closed the channel \<open>chStopped\<close>.
\<close>

fun pubsub_receive :: "start_env \<Rightarrow> pubsub_sub \<Rightarrow> nat \<Rightarrow> bool start_io" where
  "pubsub_receive env a 0 = ret False"
| "pubsub_receive env a (Suc n) = do {
     call env (ReceiveSub (sub_name a) (sub_MaxOutstandingBytes a));
     if \<not> buildSub a then ret True else pubsub_receive env a n
   }"

text \<open>The first call of \<open>Receive\<close> is made by the goroutine while the constructor sleeps; its error is looked at then.\<close>

definition NewPubSubAdapter :: "start_env \<Rightarrow> pubsub_config \<Rightarrow> (go_err + pubsub_sub) start_io" where
  "NewPubSubAdapter env conf = do {
     r \<leftarrow> call env (OpenClient (pubsub_auth_of conf) (ps_ProjectName conf));
     case start_err r of
       Some e \<Rightarrow> ret (Inl e)
     | None \<Rightarrow> do {
         r \<leftarrow> call env OpenUsp;
         case start_err r of
           Some e \<Rightarrow> do { call env (CloseResource RClient); ret (Inl e) }
         | None \<Rightarrow> do {
             r \<leftarrow> call env (ReceiveSub (ps_SubscriptionName conf) (ps_MaxPSBuffer conf));
             case start_err r of
               Some e \<Rightarrow> do { call env (CloseResource RClient); call env (CloseResource RUsp); ret (Inl e) }
             | None \<Rightarrow>
                 ret (Inr \<lparr>sub_name = ps_SubscriptionName conf, sub_MaxOutstandingBytes = ps_MaxPSBuffer conf, buildSub = True\<rparr>)
           }
       }
   }"

section \<open>Event Hub\<close>

fun close_resources :: "start_env \<Rightarrow> resource list \<Rightarrow> unit start_io" where
  "close_resources env [] = ret ()"
| "close_resources env (r # rs) = do { call env (CloseResource r); close_resources env rs }"

fun eventhub_listen :: "start_env \<Rightarrow> string list \<Rightarrow> string list \<Rightarrow> (go_err + string list) start_io" where
  "eventhub_listen env [] listeners = ret (Inr listeners)"
| "eventhub_listen env (partitionID # ids) listeners = do {
     r \<leftarrow> call env (OpenListener partitionID);
     case start_err r of
       Some e \<Rightarrow> do {
         close_resources env (map RListener listeners @ [RClient, RUsp]);
         onError e;
         ret (Inl e)
       }
     | None \<Rightarrow> eventhub_listen env ids (listeners @ [partitionID])
   }"

definition NewEventHubAdapter :: "start_env \<Rightarrow> string \<Rightarrow> (go_err + string list) start_io" where
  "NewEventHubAdapter env connectionString = do {
     r \<leftarrow> call env (OpenHub connectionString);
     case start_err r of
       Some e \<Rightarrow> ret (Inl e)
     | None \<Rightarrow> do {
         r \<leftarrow> call env PartitionIDs;
         case start_ids r of
           Inl e \<Rightarrow> do { call env (CloseResource RClient); ret (Inl e) }
         | Inr ids \<Rightarrow> do {
             r \<leftarrow> call env OpenUsp;
             case start_err r of
               Some e \<Rightarrow> do { call env (CloseResource RClient); ret (Inl e) }
             | None \<Rightarrow> eventhub_listen env ids []
           }
       }
   }"

text \<open>When a listener ends: its error is reported unless it is the cancellation, and a value is sent to \<open>chStopped\<close>.\<close>

definition eventhub_done :: "bool \<Rightarrow> go_err option \<Rightarrow> nat \<Rightarrow> ('q, 'r, nat) io" where
  "eventhub_done canceled err sent = do {
     (case err of Some e \<Rightarrow> if canceled then ret () else onError (GoWrap ''ListenerHandle.Err(): %v'' e) | None \<Rightarrow> ret ());
     ret (sent + 1)
   }"

section \<open>Properties\<close>

text \<open>What was opened, which partitions the hub listed, and what was closed.\<close>

fun opened_by :: "start_query \<times> start_answer \<Rightarrow> resource list" where
  "opened_by (OpenClient a p, r) = (if start_err r = None then [RClient] else [])"
| "opened_by (OpenHub s, r) = (if start_err r = None then [RClient] else [])"
| "opened_by (OpenUsp, r) = (if start_err r = None then [RUsp] else [])"
| "opened_by (OpenListener i, r) = (if start_err r = None then [RListener i] else [])"
| "opened_by _ = []"

fun listed_by :: "start_query \<times> start_answer \<Rightarrow> string list" where
  "listed_by (PartitionIDs, r) = (case start_ids r of Inl e \<Rightarrow> [] | Inr ids \<Rightarrow> ids)"
| "listed_by _ = []"

fun released_by :: "start_query \<times> start_answer \<Rightarrow> resource list" where
  "released_by (CloseResource x, r) = [x]"
| "released_by _ = []"

lemma close_resources_released:
  "wp (close_resources env rs) (\<lambda>_ w'. by_calls opened_by (hist w') = by_calls opened_by (hist w) \<and>
     by_calls released_by (hist w') = by_calls released_by (hist w) @ rs) w"
proof (induction rs arbitrary: w)
  case Nil
  show ?case by (simp add: wp_ret)
next
  case (Cons r rs)
  show ?case by (simp add: wp_bind wp_call) (rule wp_mono [OF Cons.IH], simp)
qed

lemma eventhub_listen_released:
  "wp (eventhub_listen env ids listeners) (\<lambda>r w'.
     by_calls opened_by (hist w) = RClient # RUsp # map RListener listeners \<longrightarrow> by_calls released_by (hist w) = [] \<longrightarrow>
     (case r of Inl e \<Rightarrow> mset (by_calls released_by (hist w')) = mset (by_calls opened_by (hist w'))
      | Inr ls \<Rightarrow> ls = listeners @ ids \<and> by_calls opened_by (hist w') = RClient # RUsp # map RListener ls \<and>
          by_calls released_by (hist w') = [] \<and> by_calls listed_by (hist w') = by_calls listed_by (hist w))) w"
proof (induction ids arbitrary: listeners w)
  case Nil
  show ?case by (simp add: wp_ret)
next
  case (Cons i ids)
  show ?case
  proof (cases "start_err (e_call env (hist w) (OpenListener i))")
    case None
    show ?thesis
      by (simp add: wp_bind wp_call None) (rule wp_mono [OF Cons.IH], auto simp: None split: sum.splits)
  next
    case (Some e)
    show ?thesis
      by (simp add: wp_bind wp_call Some) (rule wp_mono [OF close_resources_released], simp add: wp_simps Some)
  qed
qed

text \<open>C32: when the constructor for Event Hub fails, at whatever step, it has closed exactly what it had opened, each once; when
  it succeeds it has opened the client of the hub, the client of the output and then one receiver for each partition that
  the hub listed, in the order of the list, returns these partitions, and has closed nothing.
\<close>

theorem eventhub_failure_releases:
  "wp (NewEventHubAdapter env connectionString) (\<lambda>r w'.
     case r of Inl e \<Rightarrow> mset (by_calls released_by (hist w')) = mset (by_calls opened_by (hist w'))
     | Inr ls \<Rightarrow> ls = by_calls listed_by (hist w') \<and>
         by_calls opened_by (hist w') = RClient # RUsp # map RListener (by_calls listed_by (hist w')) \<and>
         by_calls released_by (hist w') = []) fresh_world"
  unfolding NewEventHubAdapter_def
  by (auto simp: wp_bind wp_call wp_ret split: option.split sum.splits intro!: wp_mono [OF eventhub_listen_released])

text \<open>The same of the constructor for Pub/Sub.\<close>

theorem pubsub_failure_releases:
  "wp (NewPubSubAdapter env conf) (\<lambda>r w'.
     case r of Inl e \<Rightarrow> mset (by_calls released_by (hist w')) = mset (by_calls opened_by (hist w'))
     | Inr a \<Rightarrow> by_calls released_by (hist w') = []) fresh_world"
  by (auto simp: NewPubSubAdapter_def wp_bind wp_call wp_ret split: option.split)

text \<open>
  The goroutine of the subscription never comes to its end, whatever the subscription does: nothing sets \<open>buildSub\<close> to nil,
  so \<open>chStopped\<close> is never closed, and whoever waits for it after \<open>Close\<close> waits for ever.
\<close>

theorem pubsub_never_stops:
  "wp (do {
      r \<leftarrow> NewPubSubAdapter env conf;
      case r of Inl e \<Rightarrow> ret False | Inr a \<Rightarrow> pubsub_receive env a n
    }) (\<lambda>ended w'. \<not> ended) w"
proof -
  have receive: "wp (pubsub_receive env a n) (\<lambda>ended w'. \<not> ended) w" if "buildSub a" for a n w
    using that by (induction n arbitrary: w) (simp_all add: wp_ret wp_bind wp_call)
  show ?thesis
    by (auto simp: NewPubSubAdapter_def wp_bind wp_call wp_ret split: option.split intro!: receive)
qed

end
