(* ===== verification/Platform_Logs.thy ===== *)
theory Platform_Logs
  imports Cato Line_Adapters Frame
begin

text \<open>
  The adapters of the logs of operating systems: \<open>mac_unified_logging\<close> (\<open>client.go\<close>, \<open>log.go\<close>), which reads the output of
  the command \<open>log stream\<close>, and \<open>wel\<close> (\<open>client.go\<close>, \<open>api.go\<close>), which is called back by the Windows event log. The command and
  the calls of \<open>wevtapi.dll\<close> are the environment. The lock and the wait group of \<open>wel\<close> are counters of its state.
\<close>

text \<open>Both ship a message again without a limit when the buffer is full, and report other errors.\<close>

definition ship_reported :: "('q, 'r) env \<Rightarrow> duration \<Rightarrow> data_message \<Rightarrow> ('q, 'r, unit) io" where
  "ship_reported env writeTimeout msg = do {
     err \<leftarrow> ship env msg writeTimeout;
     err' \<leftarrow> (if err = Some BufferFull then do { onWarning ''stream falling behind''; ship env msg 0 } else ret err);
     case err' of Some e \<Rightarrow> onError (GoWrap ''Ship(): %v'' e) | None \<Rightarrow> ret ()
   }"

section \<open>The unified log of macOS\<close>

record mac_config =
  mac_WriteTimeoutSec :: "64 word"
  mac_Predicate :: string

definition mac_Validate :: "go_err option \<Rightarrow> mac_config \<Rightarrow> go_err option" where
  "mac_Validate client_err c = map_option (GoWrap ''client_options: %v'') client_err"

definition NewMacUnifiedLoggingAdapter :: "go_err option \<Rightarrow> mac_config \<Rightarrow> go_err + duration" where
  "NewMacUnifiedLoggingAdapter client_err conf =
     (case client_err of Some e \<Rightarrow> Inl e | None \<Rightarrow> Inr (write_timeout (mac_WriteTimeoutSec conf)))"

definition mac_unsupported :: "go_err + duration" where
  "mac_unsupported = Inl (GoErr ''mac (MacOS unified logging) collection not supported outside of MacOS'')"

text \<open>The counter is that of \<open>wg\<close>; the goroutines of the constructor are counted by \<open>wgSenders\<close>.\<close>

definition mac_Close :: "int \<Rightarrow> go_err option \<Rightarrow> go_err option outcome" where
  "mac_Close counter close_err = bind_outcome (wg_done counter) (\<lambda>_. Returns close_err)"

text \<open>Starting the command gives an error or none; the channel \<open>exit\<close> is ready or not; the decoder gives an error or a log.\<close>

datatype mac_query = MacStart "string list" | MacExit | MacDecode

datatype mac_answer = MacErr "go_err option" | MacReady bool | MacLog "go_err + dict"

type_synonym 'a mac_io = "(mac_query, mac_answer, 'a) io"
type_synonym mac_env = "(mac_query, mac_answer) env"

definition mac_err :: "mac_answer \<Rightarrow> go_err option" where
  "mac_err r = (case r of MacErr e \<Rightarrow> e | _ \<Rightarrow> None)"

definition mac_ready :: "mac_answer \<Rightarrow> bool" where
  "mac_ready r = (case r of MacReady b \<Rightarrow> b | _ \<Rightarrow> False)"

definition mac_log :: "mac_answer \<Rightarrow> go_err + dict" where
  "mac_log r = (case r of MacLog x \<Rightarrow> x | _ \<Rightarrow> Inr [])"

definition log_command :: "string \<Rightarrow> string list" where
  "log_command predicate =
     (if predicate \<noteq> '''' then [''log'', ''stream'', ''--color=none'', ''--style=ndjson'', ''--predicate'', predicate]
      else [''log'', ''stream'', ''--color=none'', ''--style=ndjson''])"

text \<open>
  The goroutine that decodes, with the one that ships: the channel between them has no buffer. An error of the decoder
  is printed and the decoder asked again; the result says whether the goroutine has come to its end.
\<close>

fun mac_logs :: "mac_env \<Rightarrow> (dict \<Rightarrow> go_err + dict) \<Rightarrow> duration \<Rightarrow> nat \<Rightarrow> bool mac_io" where
  "mac_logs env recode writeTimeout 0 = ret False"
| "mac_logs env recode writeTimeout (Suc n) = do {
     r \<leftarrow> call env MacExit;
     if mac_ready r then ret True
     else do {
       r \<leftarrow> call env MacDecode;
       (case mac_log r of
          Inl e \<Rightarrow> ret ()
        | Inr log \<Rightarrow> do {
            t \<leftarrow> now env;
            ship_reported env writeTimeout (json_message (convertStructToMap recode log) t)
          });
       mac_logs env recode writeTimeout n
     }
   }"

definition mac_handleEvent :: "mac_env \<Rightarrow> (dict \<Rightarrow> go_err + dict) \<Rightarrow> duration \<Rightarrow> string \<Rightarrow> nat \<Rightarrow> bool outcome mac_io" where
  "mac_handleEvent env recode writeTimeout predicate n = do {
     r \<leftarrow> call env (MacStart (log_command predicate));
     case mac_err r of
       Some e \<Rightarrow> ret (Panics ''StartGathering'')
     | None \<Rightarrow> do { b \<leftarrow> mac_logs env recode writeTimeout n; ret (Returns b) }
   }"

section \<open>The Windows event log\<close>

record wel_config =
  wel_EvtSources :: string
  wel_WriteTimeoutSec :: "64 word"

definition wel_Validate :: "go_err option \<Rightarrow> wel_config \<Rightarrow> go_err option" where
  "wel_Validate client_err c = map_option (GoWrap ''client_options: %v'') client_err"

definition wel_unsupported :: "go_err + duration" where
  "wel_unsupported = Inl (GoErr ''wel (Windows Event Logs) collection not supported outside of Windows'')"

text \<open>A source is a channel and a filter, the filter \<open>*\<close> when there is none.\<close>

definition wel_source :: "string \<Rightarrow> string \<times> string" where
  "wel_source src =
     (let (srcName, flt) = (case split_first (CHR '':'') src of None \<Rightarrow> (src, '''') | Some x \<Rightarrow> x)
      in (srcName, if flt = '''' then ''*'' else flt))"

text \<open>Subscribing gives a handle, zero for none, and an error; rendering an error or the text.\<close>

datatype wel_query = WelSubscribe string string | WelRender nat | WelClose nat

datatype wel_answer = WelHandle nat "go_err option" | WelXml "go_err + string" | WelDone bool go_err

type_synonym 'a wel_io = "(wel_query, wel_answer, 'a) io"
type_synonym wel_env = "(wel_query, wel_answer) env"

definition wel_handle :: "wel_answer \<Rightarrow> nat \<times> go_err option" where
  "wel_handle r = (case r of WelHandle h e \<Rightarrow> (h, e) | _ \<Rightarrow> (0, None))"

definition wel_xml :: "wel_answer \<Rightarrow> go_err + string" where
  "wel_xml r = (case r of WelXml x \<Rightarrow> x | _ \<Rightarrow> Inr '''')"

text \<open>A text with a NUL cannot be passed to Windows.\<close>

definition utf16_err :: "string \<Rightarrow> go_err option" where
  "utf16_err s = (if CHR 0x00 \<in> set s then Some (GoErr ''invalid argument'') else None)"

definition EvtSubscribe :: "wel_env \<Rightarrow> string \<Rightarrow> string \<Rightarrow> (nat \<times> go_err option) wel_io" where
  "EvtSubscribe env channelPath query =
     (case utf16_err channelPath of
        Some e \<Rightarrow> ret (0, Some e)
      | None \<Rightarrow>
          (case utf16_err query of
             Some e \<Rightarrow> ret (0, Some e)
           | None \<Rightarrow> do {
               r \<leftarrow> call env (WelSubscribe channelPath query);
               ret (let (hSub, e) = wel_handle r in if hSub = 0 then (0, e) else (hSub, None))
             }))"

definition EvtRenderXML :: "wel_env \<Rightarrow> nat \<Rightarrow> (go_err + string) wel_io" where
  "EvtRenderXML env event = do { r \<leftarrow> call env (WelRender event); ret (wel_xml r) }"

definition EvtClose :: "wel_env \<Rightarrow> nat \<Rightarrow> go_err option wel_io" where
  "EvtClose env hSub = do {
     r \<leftarrow> call env (WelClose hSub);
     ret (case r of WelDone False e \<Rightarrow> Some e | _ \<Rightarrow> None)
   }"

text \<open>Whether it runs, the read locks that are held, the counter of the wait group, and the subscriptions.\<close>

record wel_state =
  wel_isRunning :: bool
  wel_readers :: nat
  wel_wg :: int
  wel_hSubs :: "nat list"

fun wel_subscribe :: "wel_env \<Rightarrow> (string \<times> string) list \<Rightarrow> nat list \<Rightarrow> (go_err + nat list) wel_io" where
  "wel_subscribe env [] hSubs = ret (Inr hSubs)"
| "wel_subscribe env ((srcName, flt) # srcs) hSubs = do {
     (hSub, err) \<leftarrow> EvtSubscribe env srcName flt;
     if hSub = 0 \<or> err \<noteq> None then do {
       onError (GoErr ''failed creating event subscription: %v'');
       ret (Inl (GoErr ''failed creating event subscription: %v''))
     }
     else wel_subscribe env srcs (hSubs @ [hSub])
   }"

definition NewWELAdapter :: "wel_env \<Rightarrow> go_err option \<Rightarrow> wel_config \<Rightarrow> (go_err + wel_state \<times> duration) wel_io" where
  "NewWELAdapter env client_err conf =
     (if wel_EvtSources conf = '''' then ret (Inl (GoErr ''missing evt_sources, a csv of SOURCE-NAME:FILTER''))
      else (case client_err of
              Some e \<Rightarrow> ret (Inl e)
            | None \<Rightarrow> do {
                r \<leftarrow> wel_subscribe env (map wel_source (split_char (CHR '','') (wel_EvtSources conf))) [];
                ret (case r of
                       Inl e \<Rightarrow> Inl e
                     | Inr hSubs \<Rightarrow>
                         Inr (\<lparr>wel_isRunning = True, wel_readers = 0, wel_wg = 1, wel_hSubs = hSubs\<rparr>,
                              write_timeout (wel_WriteTimeoutSec conf)))
              }))"

text \<open>The callback; \<open>deliver\<close> tells whether the action is the delivery of an event.\<close>

definition wel_handleEvent :: "wel_env \<Rightarrow> duration \<Rightarrow> bool \<Rightarrow> nat \<Rightarrow> wel_state \<Rightarrow> wel_state wel_io" where
  "wel_handleEvent env writeTimeout deliver event a =
     (let a1 = a\<lparr>wel_readers := wel_readers a + 1\<rparr> in
      if \<not> wel_isRunning a1 then ret a1
      else
        (let a2 = a1\<lparr>wel_wg := wel_wg a1 + 1\<rparr>;
             a3 = a2\<lparr>wel_readers := wel_readers a2 - 1\<rparr>;
             finished = a3\<lparr>wel_wg := wel_wg a3 - 1\<rparr>
         in if \<not> deliver then ret finished
            else do {
              renderedEvent \<leftarrow> EvtRenderXML env event;
              (case renderedEvent of
                 Inl e \<Rightarrow> onWarning ''failed to render event to xml: %v''
               | Inr xml \<Rightarrow> do { t \<leftarrow> now env; ship_reported env writeTimeout (text_message xml t) });
              ret finished
            }))"

text \<open>Closing can block: for the write lock while read locks are held, and for the wait group.\<close>

datatype wel_closed = WelBlocked | WelPanics string | WelClosed "go_err option"

fun wel_close_subs :: "wel_env \<Rightarrow> nat list \<Rightarrow> unit wel_io" where
  "wel_close_subs env [] = ret ()"
| "wel_close_subs env (hSub # hSubs) = do { EvtClose env hSub; wel_close_subs env hSubs }"

definition wel_Close :: "wel_env \<Rightarrow> wel_state \<Rightarrow> (wel_closed \<times> wel_state) wel_io" where
  "wel_Close env a = do {
     wel_close_subs env (wel_hSubs a);
     if wel_readers a \<noteq> 0 then ret (WelBlocked, a)
     else
       (let a1 = a\<lparr>wel_isRunning := False\<rparr> in
        case wg_done (wel_wg a1) of
          Panics m \<Rightarrow> ret (WelPanics m, a1)
        | Fails e \<Rightarrow> ret (WelPanics '''', a1)
        | Returns counter \<Rightarrow>
            (let a2 = a1\<lparr>wel_wg := counter\<rparr> in
             if counter \<noteq> 0 then ret (WelBlocked, a2)
             else do { e \<leftarrow> closeClient env; ret (WelClosed e, a2) }))
   }"

section \<open>Build variants\<close>

text \<open>
  The files \<open>noop.go\<close> of \<open>k8s_pods\<close>, \<open>file\<close> and \<open>bigquery\<close>, for platforms these adapters are not built for; the inode of a file,
  from what the system says of it, which is nothing on Windows.
\<close>

definition unsupported :: "string \<Rightarrow> go_err + duration" where
  "unsupported what = Inl (GoErr (what @ '' collection not supported on this platform''))"

definition k8s_unsupported :: "go_err + duration" where "k8s_unsupported = unsupported ''k8s_pods''"
definition file_unsupported :: "go_err + duration" where "file_unsupported = unsupported ''file''"
definition bq_unsupported :: "go_err + duration" where "bq_unsupported = unsupported ''bigquery''"

definition getInodeFromFileInfo :: "64 word option \<Rightarrow> 64 word" where
  "getInodeFromFileInfo stat = (case stat of Some ino \<Rightarrow> ino | None \<Rightarrow> 0)"

definition getInodeFromFileInfo_windows :: "64 word option \<Rightarrow> 64 word" where
  "getInodeFromFileInfo_windows stat = 0"

section \<open>Properties\<close>

lemma wp_ship_reported_accepts:
  assumes "\<And>h m d. e_ship env h m d = None"
  shows "wp (ship_reported env writeTimeout msg) Q w \<longleftrightarrow> Q () (w\<lparr>hist := EShip msg writeTimeout None # hist w\<rparr>)"
  by (simp add: ship_reported_def wp_simps assms)

subsection \<open>Windows\<close>

text \<open>The events that were asked to be rendered and what came of it, in order, and the texts among the answers.\<close>

fun render_by :: "wel_query \<times> wel_answer \<Rightarrow> (nat \<times> (go_err + string)) list" where
  "render_by (WelRender event, r) = [(event, wel_xml r)]"
| "render_by _ = []"

definition renders :: "(wel_query, wel_answer) history \<Rightarrow> (nat \<times> (go_err + string)) list" where
  "renders h = concat (map render_by (rev (calls h)))"

lemma renders_simps [simp]: "renders [] = []" "renders (e # h) = renders h @ concat (map render_by (rev (call_of e)))"
  by (simp_all add: renders_def)

definition texts :: "(nat \<times> (go_err + string)) list \<Rightarrow> string list" where
  "texts rs = concat (map (\<lambda>(event, r). case r of Inl e \<Rightarrow> [] | Inr xml \<Rightarrow> [xml]) rs)"

lemma texts_simps [simp]:
  "texts [] = []" "texts ((event, Inl e) # rs) = texts rs" "texts ((event, Inr xml) # rs) = xml # texts rs" "texts (rs @ ss) = texts rs @ texts ss"
  by (simp_all add: texts_def)

text \<open>The events whose action is the delivery.\<close>

definition to_deliver :: "(bool \<times> nat) list \<Rightarrow> nat list" where
  "to_deliver es = map snd (filter fst es)"

lemma to_deliver_simps [simp]: "to_deliver [] = []" "to_deliver ((deliver, event) # es) = (if deliver then event # to_deliver es else to_deliver es)"
  by (simp_all add: to_deliver_def)

text \<open>The callbacks of a series of events, each with its action.\<close>

fun wel_events :: "wel_env \<Rightarrow> duration \<Rightarrow> (bool \<times> nat) list \<Rightarrow> wel_state \<Rightarrow> wel_state wel_io" where
  "wel_events env writeTimeout [] a = ret a"
| "wel_events env writeTimeout ((deliver, event) # es) a = do {
     a' \<leftarrow> wel_handleEvent env writeTimeout deliver event a;
     wel_events env writeTimeout es a'
   }"

text \<open>While the adapter runs an event leaves the lock and the wait group as they were.\<close>

lemma wel_handleEvent_running:
  assumes "wel_isRunning a" "\<And>h m d. e_ship env h m d = None"
  shows "wp (wel_handleEvent env writeTimeout deliver event a) (\<lambda>a' w'. a' = a \<and>
    (\<exists>rs. map fst rs = (if deliver then [event] else []) \<and>
      renders (hist w') = renders (hist w) @ rs \<and> delivered (hist w') = delivered (hist w) @ map TextPayload (texts rs))) w"
  using assms(1)
  by (auto simp: wel_handleEvent_def EvtRenderXML_def Let_def wp_bind wp_call wp_ret wp_now wp_unit_ops
      wp_ship_reported_accepts [OF assms(2)] text_message_def split: sum.split)

lemma wel_events_running:
  assumes "wel_isRunning a" "\<And>h m d. e_ship env h m d = None"
  shows "wp (wel_events env writeTimeout es a) (\<lambda>a' w'. a' = a \<and>
    (\<exists>rs. map fst rs = to_deliver es \<and>
      renders (hist w') = renders (hist w) @ rs \<and> delivered (hist w') = delivered (hist w) @ map TextPayload (texts rs))) w"
proof (induction es arbitrary: w)
  case Nil
  show ?case by (simp add: wp_ret)
next
  case (Cons e es)
  obtain deliver event where e: "e = (deliver, event)" by fastforce
  show ?case
    unfolding e wel_events.simps wp_bind
  proof (rule wp_mono [OF wel_handleEvent_running [OF assms]], elim conjE exE, goal_cases)
    case (1 a' w1 rs)
    show ?case
      unfolding 1(1)
    proof (rule wp_mono [OF Cons.IH], elim conjE exE, goal_cases)
      case (1 a'' w2 ss)
      show ?case
        by (intro conjI exI [of _ "rs @ ss"]) (use 1 \<open>map fst rs = _\<close> \<open>renders (hist w1) = _\<close> \<open>delivered (hist w1) = _\<close> in auto)
    qed
  qed
qed

text \<open>
  An event that comes after the adapter was closed leaves a read lock behind: closing the adapter again, which takes the
  write lock, blocks for ever.
\<close>

theorem wel_late_event_blocks:
  assumes "\<not> wel_isRunning a"
  shows "wp (do { a' \<leftarrow> wel_handleEvent env writeTimeout deliver event a; wel_Close env a' }) (\<lambda>(r, a') w'. r = WelBlocked \<and> wel_readers a' = wel_readers a + 1) w"
proof -
  have subs: "wp (wel_close_subs env hSubs) (\<lambda>_ _. True) w" for hSubs w
    by (rule wp_any) simp
  show ?thesis
    using assms
    by (auto simp: wel_handleEvent_def wel_Close_def Let_def wp_bind wp_ret intro!: wp_mono [OF subs])
qed

text \<open>Subscribing and closing render and deliver nothing.\<close>

definition same_logs :: "(wel_query, wel_answer) world \<Rightarrow> (wel_query, wel_answer) world \<Rightarrow> bool" where
  "same_logs w w' \<longleftrightarrow> delivered (hist w') = delivered (hist w) \<and> renders (hist w') = renders (hist w)"

interpretation same_logs: frame same_logs
  by unfold_locales (auto simp: same_logs_def)

lemmas same_logs_rules [simp, intro!] = same_logs.rules

lemma same_logs_prims [simp, intro!]:
  "along same_logs (onError e)" "along same_logs (closeClient env)"
  "along same_logs (call env (WelSubscribe c q))" "along same_logs (call env (WelClose h))"
  by (auto intro!: alongI simp: wp_simps same_logs_def) (auto simp: closeClient_def wp_def Let_def)

lemma same_logs_EvtSubscribe [simp, intro!]: "along same_logs (EvtSubscribe env c q)"
  by (auto simp: EvtSubscribe_def split: option.split)

lemma same_logs_subscribe [simp, intro!]: "along same_logs (wel_subscribe env srcs hSubs)"
  by (induction env srcs hSubs rule: wel_subscribe.induct) (auto split: prod.split)

lemma same_logs_close_subs [simp, intro!]: "along same_logs (wel_close_subs env hSubs)"
  by (induction hSubs) (auto simp: EvtClose_def)

text \<open>An adapter that was made runs, and can be closed.\<close>

definition wel_open :: "wel_state \<Rightarrow> bool" where
  "wel_open a \<longleftrightarrow> wel_isRunning a \<and> wel_readers a = 0 \<and> wel_wg a = 1"

lemma NewWELAdapter_open:
  "wp (NewWELAdapter env client_err conf) (\<lambda>r w'. same_logs w w' \<and> (\<forall>a t. r = Inr (a, t) \<longrightarrow> wel_open a)) w"
proof (rule wp_conj)
  have "along same_logs (NewWELAdapter env client_err conf)"
    by (auto simp: NewWELAdapter_def split: option.split)
  then show "wp (NewWELAdapter env client_err conf) (\<lambda>r w'. same_logs w w') w" by (rule along_wp)
  show "wp (NewWELAdapter env client_err conf) (\<lambda>r _. \<forall>a t. r = Inr (a, t) \<longrightarrow> wel_open a) w"
    by (auto simp: NewWELAdapter_def wel_open_def wp_bind wp_ret split: option.split sum.splits intro: wp_any)
qed

lemma wel_Close_open:
  assumes "wel_open a"
  shows "wp (do { (r, a') \<leftarrow> wel_Close env a; ret (Inr r) }) (\<lambda>r w'. same_logs w w' \<and> (\<exists>e. r = Inr (WelClosed e))) w"
proof -
  let ?a = "a\<lparr>wel_isRunning := False, wel_wg := 0\<rparr>"
  have close: "wel_Close env a = do { wel_close_subs env (wel_hSubs a); e \<leftarrow> closeClient env; ret (WelClosed e, ?a) }"
    using assms by (simp add: wel_Close_def wel_open_def wg_done_def)
  have eq: "do { (r, a') \<leftarrow> wel_Close env a; ret (Inr r) } = do { wel_close_subs env (wel_hSubs a); e \<leftarrow> closeClient env; ret (Inr (WelClosed e)) }"
    unfolding close by simp
  have y: "yields (\<lambda>r. \<exists>e. r = Inr (WelClosed e)) (do { (r, a') \<leftarrow> wel_Close env a; ret (Inr r) })"
    unfolding eq by (intro yields_bind) simp
  have "along same_logs (do { (r, a') \<leftarrow> wel_Close env a; ret (Inr r) })"
    unfolding eq by auto
  then have "wp (do { (r, a') \<leftarrow> wel_Close env a; ret (Inr r) }) (\<lambda>r w'. same_logs w w') w" by (rule along_wp)
  then show ?thesis by (rule wp_conj) (rule yields_wp [OF y])
qed

text \<open>The life of an adapter: it is made, its callback gets the events, it is closed.\<close>

definition wel_life :: "wel_env \<Rightarrow> go_err option \<Rightarrow> wel_config \<Rightarrow> (bool \<times> nat) list \<Rightarrow> (go_err + wel_closed) wel_io" where
  "wel_life env client_err conf es = do {
     r \<leftarrow> NewWELAdapter env client_err conf;
     case r of
       Inl e \<Rightarrow> ret (Inl e)
     | Inr (a, writeTimeout) \<Rightarrow> do { a' \<leftarrow> wel_events env writeTimeout es a; (r, a'') \<leftarrow> wel_Close env a'; ret (Inr r) }
   }"

text \<open>C33: When the client accepts every message, an adapter that was made asks for the text of exactly the events it was to deliver,
  in their order, each once, delivers the texts it gets, in that order and no other message, and is then closed without blocking and
  without a panic. Nothing is rendered or delivered when the adapter could not be made.
\<close>

theorem wel_delivers_and_closes:
  assumes "\<And>h m d. e_ship env h m d = None"
  shows "wp (wel_life env client_err conf es) (\<lambda>r w'.
      delivered (hist w') = map TextPayload (texts (renders (hist w'))) \<and>
      (case r of
         Inl e \<Rightarrow> renders (hist w') = []
       | Inr c \<Rightarrow> (\<exists>e. c = WelClosed e) \<and> map fst (renders (hist w')) = to_deliver es)) fresh_world"
  unfolding wel_life_def wp_bind [of "NewWELAdapter _ _ _"]
proof (rule wp_mono [OF NewWELAdapter_open], goal_cases)
  case (1 r w1)
  then have w1: "delivered (hist w1) = []" "renders (hist w1) = []" by (simp_all add: same_logs_def)
  show ?case
  proof (cases r)
    case (Inr x)
    obtain a writeTimeout where x: "x = (a, writeTimeout)" by fastforce
    then have a: "wel_open a" using 1 Inr by simp
    then have "wel_isRunning a" by (simp add: wel_open_def)
    then show ?thesis
      unfolding Inr x sum.case prod.case wp_bind [of "wel_events _ _ _ _"]
    proof (rule wp_mono [OF wel_events_running [OF _ assms]], elim conjE exE, goal_cases)
      case (1 a' w2 rs)
      show ?case
        unfolding 1(2) by (rule wp_mono [OF wel_Close_open [OF a]]) (use 1 w1 in \<open>auto simp: same_logs_def\<close>)
    qed
  qed (use w1 in \<open>simp add: wp_ret\<close>)
qed

subsection \<open>macOS\<close>

text \<open>
  Closing the adapter panics: nothing is ever added to the wait group \<open>wg\<close>, whose counter starts at zero.
\<close>

theorem mac_Close_panics: "mac_Close 0 close_err = Panics ''sync: negative WaitGroup counter''"
  by (simp add: mac_Close_def wg_done_def)

text \<open>
  When the output of the command has ended the decoder gives an error for ever. Without a wait in between it is asked
  again and again, and the goroutine does not come to its end.
\<close>

theorem mac_decodes_for_ever:
  assumes "\<And>h. \<not> mac_ready (e_call env h MacExit)" "\<And>h. \<exists>e. mac_log (e_call env h MacDecode) = Inl e"
  shows "wp (mac_logs env recode writeTimeout n) (\<lambda>b w'. \<not> b \<and> length (hist w') = length (hist w) + 2 * n \<and> length (calls (hist w')) = length (calls (hist w)) + 2 * n) w"
proof (induction n arbitrary: w)
  case 0
  show ?case by (simp add: wp_ret)
next
  case (Suc n)
  let ?w1 = "w\<lparr>hist := ECall MacExit (e_call env (hist w) MacExit) # hist w\<rparr>"
  obtain e where e: "mac_log (e_call env (hist ?w1) MacDecode) = Inl e" using assms(2) by blast
  show ?case
    using e by (simp add: wp_bind wp_call wp_ret assms(1)) (rule wp_mono [OF Suc.IH], simp)
qed

subsection \<open>Concrete runs\<close>

fun demo_wel :: "wel_query \<Rightarrow> wel_answer" where
  "demo_wel (WelSubscribe c q) = WelHandle 5 None"
| "demo_wel (WelRender event) =
     (if event = 2 then WelXml (Inl (GoErr ''too large'')) else WelXml (Inr (if event = 1 then ''<Event 1/>'' else ''<Event 4/>'')))"
| "demo_wel (WelClose h) = WelDone True (GoErr '''')"

definition demo_wel_config :: wel_config where
  "demo_wel_config = \<lparr>wel_EvtSources = ''Security,System:*'', wel_WriteTimeoutSec = 0\<rparr>"

text \<open>Three events are to be delivered, one of them cannot be rendered; a fourth only reports an error.\<close>

lemma demo_wel_run:
  "(case run_state (wel_life (steady_env 0 demo_wel) None demo_wel_config [(True, 1), (True, 2), (False, 3), (True, 4)]) fresh_world of
      (r, w') \<Rightarrow> r = Inr (WelClosed None) \<and>
        renders (hist w') = [(1, Inr ''<Event 1/>''), (2, Inl (GoErr ''too large'')), (4, Inr ''<Event 4/>'')])"
  by code_simp

theorem wel_delivers_and_closes_witness:
  "(case run_state (wel_life (steady_env 0 demo_wel) None demo_wel_config [(True, 1), (True, 2), (False, 3), (True, 4)]) fresh_world of
      (r, w') \<Rightarrow> r = Inr (WelClosed None) \<and> delivered (hist w') = [TextPayload ''<Event 1/>'', TextPayload ''<Event 4/>''])"
  using wel_delivers_and_closes [of "steady_env 0 demo_wel" None demo_wel_config "[(True, 1), (True, 2), (False, 3), (True, 4)]"]
    demo_wel_run
  by (auto simp: wp_def split: prod.splits)

theorem wel_late_event_blocks_witness:
  "wp (do {
      a' \<leftarrow> wel_handleEvent (steady_env 0 demo_wel) 0 True 1 \<lparr>wel_isRunning = False, wel_readers = 0, wel_wg = 0, wel_hSubs = [5]\<rparr>;
      wel_Close (steady_env 0 demo_wel) a'
    }) (\<lambda>(r, a') w'. r = WelBlocked \<and> wel_readers a' = 1) fresh_world"
  using wel_late_event_blocks [of "\<lparr>wel_isRunning = False, wel_readers = 0, wel_wg = 0, wel_hSubs = [5]\<rparr>" "steady_env 0 demo_wel" 0 True 1 fresh_world]
  by simp

fun demo_mac :: "mac_query \<Rightarrow> mac_answer" where
  "demo_mac MacDecode = MacLog (Inl (GoErr ''EOF''))"
| "demo_mac MacExit = MacReady False"
| "demo_mac (MacStart args) = MacErr None"

theorem mac_decodes_for_ever_witness:
  "wp (mac_logs (steady_env 0 demo_mac) Inr 0 50) (\<lambda>b w'. \<not> b \<and> length (hist w') = 100 \<and> length (calls (hist w')) = 100) fresh_world"
  using mac_decodes_for_ever [of "steady_env 0 demo_mac" Inr 0 50 fresh_world]
  by (simp add: mac_ready_def mac_log_def)

end
