(* ===== verification/Tool.thy ===== *)
theory Tool
  imports Cli_Config Frame
begin

text \<open>
  The program itself: \<open>containers/general/tool.go\<close> with the configuration of \<open>containers/conf/all.go\<close> and the watcher of
  \<open>containers/general/conf_update_client/conf_update.go\<close>. It reads configurations (\<open>parseConfigs\<close>), starts an adapter for
  each (\<open>runAdapter\<close>), restarts an adapter when its configuration changes in the cloud, and closes the adapters at the end.
  Adapters, files and the cloud are calls to the environment; an adapter is known by a number. What happens while the
  program runs is a list of events, so that a theorem for all lists is one for all orders.
\<close>

section \<open>Configuration\<close>

text \<open>The fields of \<open>GeneralConfigs\<close>, one for each adapter, with their tags.\<close>

datatype adapter =
    AdSyslog | AdPubSub | AdS3 | AdStdin | AdOnePassword | AdBitwarden | AdITGlue | AdSophos | AdEntraID |
    AdDefender | AdCato | AdCylance | AdOkta | AdOffice365 | AdWel | AdMacUnifiedLogging | AdAzureEventHub |
    AdDuo | AdGcs | AdSlack | AdSqs | AdSqsFiles | AdSimulator | AdFile | AdEvtx | AdK8sPods | AdBigQuery |
    AdImap | AdHubSpot | AdFalconCloud | AdHarmony | AdMimecast | AdMsGraph | AdZendesk | AdPandaDoc |
    AdProofpointTap | AdBox | AdSublime | AdSentinelOne | AdTrendMicro | AdWiz

fun json_tag :: "adapter \<Rightarrow> string" where
  "json_tag AdSyslog = ''syslog''"
| "json_tag AdPubSub = ''pubsub''"
| "json_tag AdS3 = ''s3''"
| "json_tag AdStdin = ''stdin''"
| "json_tag AdOnePassword = ''1password''"
| "json_tag AdBitwarden = ''bitwarden''"
| "json_tag AdITGlue = ''itglue''"
| "json_tag AdSophos = ''sophos''"
| "json_tag AdEntraID = ''entraid''"
| "json_tag AdDefender = ''defender''"
| "json_tag AdCato = ''cato''"
| "json_tag AdCylance = ''cylance''"
| "json_tag AdOkta = ''okta''"
| "json_tag AdOffice365 = ''office365''"
| "json_tag AdWel = ''wel''"
| "json_tag AdMacUnifiedLogging = ''mac_unified_logging''"
| "json_tag AdAzureEventHub = ''azure_event_hub''"
| "json_tag AdDuo = ''duo''"
| "json_tag AdGcs = ''gcs''"
| "json_tag AdSlack = ''slack''"
| "json_tag AdSqs = ''sqs''"
| "json_tag AdSqsFiles = ''sqs-files''"
| "json_tag AdSimulator = ''simulator''"
| "json_tag AdFile = ''file''"
| "json_tag AdEvtx = ''evtx''"
| "json_tag AdK8sPods = ''k8s_pods''"
| "json_tag AdBigQuery = ''bigquery''"
| "json_tag AdImap = ''imap''"
| "json_tag AdHubSpot = ''hubspot''"
| "json_tag AdFalconCloud = ''falconcloud''"
| "json_tag AdHarmony = ''harmony''"
| "json_tag AdMimecast = ''mimecast''"
| "json_tag AdMsGraph = ''ms_graph''"
| "json_tag AdZendesk = ''zendesk''"
| "json_tag AdPandaDoc = ''pandadoc''"
| "json_tag AdProofpointTap = ''proofpoint_tap''"
| "json_tag AdBox = ''box''"
| "json_tag AdSublime = ''sublime''"
| "json_tag AdSentinelOne = ''sentinel_one''"
| "json_tag AdTrendMicro = ''trendmicro''"
| "json_tag AdWiz = ''wiz''"

text \<open>The callbacks that \<open>applyLogging\<close> installs write the times of the last acknowledgement and of the last back pressure.\<close>

record adapter_stats =
  lastAck :: time
  lastBackPressure :: time

definition OnAck :: "time \<Rightarrow> adapter_stats \<Rightarrow> adapter_stats" where
  "OnAck t stats = stats\<lparr>lastAck := t\<rparr>"

definition OnBackPressure :: "time \<Rightarrow> adapter_stats \<Rightarrow> adapter_stats" where
  "OnBackPressure t stats = stats\<lparr>lastBackPressure := t\<rparr>"

text \<open>Client options: the architecture, the statistics of the callbacks once they are installed, and everything else.\<close>

record client_options =
  co_Architecture :: string
  co_stats :: "adapter_stats option"
  co_rest :: dict

record config_section =
  sec_ClientOptions :: client_options
  sec_rest :: dict

record configuration =
  Healthcheck :: int
  section_of :: "adapter \<Rightarrow> config_section"
  SensorType :: string
  CloudOID :: string
  CloudConfGUID :: string
  CloudShowConfig :: bool

text \<open>The requests of the program, and their answers.\<close>

datatype tool_query =
    ServiceMode string string "string list"
  | ReadConfigs string
  | NewAdapter adapter config_section
  | CloseAdapter nat
  | NewConfClient string string
  | GetPublicByGUID string string string
  | StartHealthChecks int
  | LookupIP string
  | SaveError string

text \<open>
  An error or none; the text of a file; the number of an adapter; a record of the cloud with its tag, which is empty when it
  did not change.
\<close>

datatype tool_answer =
    ToolErr "go_err option"
  | ToolFile "go_err + string"
  | ToolClient "go_err + nat"
  | ToolRecord "go_err + (dict \<times> string)"

type_synonym 'a tool_io = "(tool_query, tool_answer, 'a) io"
type_synonym tool_env = "(tool_query, tool_answer) env"

definition tool_err :: "tool_answer \<Rightarrow> go_err option" where
  "tool_err r = (case r of ToolErr e \<Rightarrow> e | _ \<Rightarrow> None)"

definition tool_file :: "tool_answer \<Rightarrow> go_err + string" where
  "tool_file r = (case r of ToolFile x \<Rightarrow> x | _ \<Rightarrow> Inr '''')"

definition tool_client :: "tool_answer \<Rightarrow> go_err + nat" where
  "tool_client r = (case r of ToolClient x \<Rightarrow> x | _ \<Rightarrow> Inr 0)"

definition tool_record :: "tool_answer \<Rightarrow> go_err + (dict \<times> string)" where
  "tool_record r = (case r of ToolRecord x \<Rightarrow> x | _ \<Rightarrow> Inr ([], ''''))"

text \<open>
  What the program takes from elsewhere: the documents that the JSON and the YAML decoder find in a text with the error
  that ends them, none for the end of the text; storing a tree and a record of the cloud into a configuration; the type of the
  configuration; floating point numbers; the environment variables.
\<close>

record tool_lib =
  json_decoder :: "string \<Rightarrow> configuration list \<times> go_err option"
  yaml_decoder :: "string \<Rightarrow> configuration list \<times> go_err option"
  store_cli :: "configuration \<Rightarrow> dict \<Rightarrow> configuration outcome"
  store_cloud :: "configuration \<Rightarrow> dict \<Rightarrow> configuration \<times> go_err option"
  config_type :: rtype
  lib_ParseFloat :: "string \<Rightarrow> gfloat option"
  environ :: "string list"
  zero_config :: configuration

section \<open>Reading configurations\<close>

fun decode_all :: "configuration list \<times> go_err option \<Rightarrow> configuration list \<Rightarrow> configuration list \<times> go_err option" where
  "decode_all ([], e) configsToRun = (configsToRun, e)"
| "decode_all (configs # docs, e) configsToRun = decode_all (docs, e) (configsToRun @ [configs])"

text \<open>The text is read twice, once by each decoder; it is refused only when both end with an error.\<close>

definition parse_text :: "tool_lib \<Rightarrow> string \<Rightarrow> go_err + configuration list" where
  "parse_text lib b =
     (let (configsToRun, jsonErr) = decode_all (json_decoder lib b) [];
          (configsToRun', yamlErr) = decode_all (yaml_decoder lib b) configsToRun
      in if jsonErr \<noteq> None \<and> yamlErr \<noteq> None then Inl (GoErr ''decoding error: json=%v yaml=%v'') else Inr configsToRun')"

definition parseConfigsFromFile :: "tool_env \<Rightarrow> tool_lib \<Rightarrow> string \<Rightarrow> (go_err + configuration list) tool_io" where
  "parseConfigsFromFile env lib filePath = do {
     r \<leftarrow> call env (ReadConfigs filePath);
     ret (case tool_file r of Inl e \<Rightarrow> Inl e | Inr b \<Rightarrow> parse_text lib b)
   }"

definition parseConfigsFromParams :: "tool_lib \<Rightarrow> string \<Rightarrow> string list \<Rightarrow> configuration \<Rightarrow> configuration outcome" where
  "parseConfigsFromParams lib pre params configs =
     (case ParseCLI (lib_ParseFloat lib) (store_cli lib configs) (config_type lib) pre params of
        Fails e \<Rightarrow> Fails (GoWrap ''ParseCLI(): %v'' e)
      | r \<Rightarrow> r)"

definition parseConfigs :: "tool_env \<Rightarrow> tool_lib \<Rightarrow> string list \<Rightarrow> (string \<times> configuration list) outcome tool_io" where
  "parseConfigs env lib args =
     (case args of
        [] \<Rightarrow> ret (Fails (GoErr ''not enough arguments''))
      | [meth] \<Rightarrow> ret (Fails (GoErr ''not enough arguments''))
      | [meth, filePath] \<Rightarrow> do {
          r \<leftarrow> parseConfigsFromFile env lib filePath;
          ret (case r of Inl e \<Rightarrow> Fails e | Inr configsToRun \<Rightarrow> Returns (meth, configsToRun))
        }
      | meth # args' \<Rightarrow>
          ret (bind_outcome (parseConfigsFromParams lib meth args' (zero_config lib)) (\<lambda>configs.
               bind_outcome (parseConfigsFromParams lib meth (environ lib) configs) (\<lambda>configs'.
               Returns (meth, [configs'])))))"

section \<open>Starting an adapter\<close>

definition applyLogging :: "tool_env \<Rightarrow> client_options \<Rightarrow> client_options tool_io" where
  "applyLogging env opts = do {
     t1 \<leftarrow> now env;
     t2 \<leftarrow> now env;
     ret (opts\<lparr>co_stats := Some \<lparr>lastAck = t1, lastBackPressure = t2\<rparr>\<rparr>)
   }"

text \<open>The adapter of a method.\<close>

definition adapter_of :: "string \<Rightarrow> adapter option" where
  "adapter_of meth =
     (if meth = ''syslog'' then Some AdSyslog
      else if meth = ''pubsub'' then Some AdPubSub
      else if meth = ''gcs'' then Some AdGcs
      else if meth = ''s3'' then Some AdS3
      else if meth = ''stdin'' then Some AdStdin
      else if meth = ''1password'' then Some AdOnePassword
      else if meth = ''bitwarden'' then Some AdBitwarden
      else if meth = ''itglue'' then Some AdITGlue
      else if meth = ''sophos'' then Some AdSophos
      else if meth = ''okta'' then Some AdOkta
      else if meth = ''office365'' then Some AdOffice365
      else if meth = ''wiz'' then Some AdWiz
      else if meth = ''wel'' then Some AdWel
      else if meth = ''mac_unified_logging'' then Some AdMacUnifiedLogging
      else if meth = ''azure_event_hub'' then Some AdAzureEventHub
      else if meth = ''duo'' then Some AdDuo
      else if meth = ''cato'' then Some AdCato
      else if meth = ''cylance'' then Some AdCylance
      else if meth = ''entraid'' then Some AdEntraID
      else if meth = ''defender'' then Some AdDefender
      else if meth = ''slack'' then Some AdSlack
      else if meth = ''sqs'' then Some AdSqs
      else if meth = ''sqs-files'' then Some AdSqsFiles
      else if meth = ''simulator'' then Some AdSimulator
      else if meth = ''file'' then Some AdFile
      else if meth = ''evtx'' then Some AdEvtx
      else if meth = ''k8s_pods'' then Some AdK8sPods
      else if meth = ''bigquery'' then Some AdBigQuery
      else if meth = ''imap'' then Some AdImap
      else if meth = ''hubspot'' then Some AdHubSpot
      else if meth = ''falconcloud'' then Some AdFalconCloud
      else if meth = ''harmony'' then Some AdHarmony
      else if meth = ''mimecast'' then Some AdMimecast
      else if meth = ''ms_graph'' then Some AdMsGraph
      else if meth = ''zendesk'' then Some AdZendesk
      else if meth = ''pandadoc'' then Some AdPandaDoc
      else if meth = ''proofpoint_tap'' then Some AdProofpointTap
      else if meth = ''box'' then Some AdBox
      else if meth = ''sublime'' then Some AdSublime
      else if meth = ''sentinel_one'' then Some AdSentinelOne
      else if meth = ''trendmicro'' then Some AdTrendMicro
      else None)"

definition runAdapter :: "tool_env \<Rightarrow> string \<Rightarrow> configuration \<Rightarrow> (go_err + nat) tool_io" where
  "runAdapter env meth configs =
     (case adapter_of meth of
        None \<Rightarrow> ret (Inl (GoErr ''unknown adapter_type: %s''))
      | Some a \<Rightarrow> do {
          opts \<leftarrow> applyLogging env (sec_ClientOptions (section_of configs a));
          r \<leftarrow> call env (NewAdapter a ((section_of configs a)\<lparr>sec_ClientOptions := opts\<lparr>co_Architecture := ''usp_adapter''\<rparr>\<rparr>));
          ret (case tool_client r of Inl e \<Rightarrow> Inl (GoWrap ''error instantiating client: %v'' e) | Inr client \<Rightarrow> Inr client)
        })"

section \<open>The program\<close>

text \<open>
  What an iteration of the loop over the configurations leaves to the goroutines it starts: its variable \<open>client\<close>, nil
  after a failed restart, whether the configuration is watched, and the configuration the updates are stored into.
\<close>

record tool_cell =
  cell_client :: "nat option"
  cell_watched :: bool
  cell_newConfig :: configuration

text \<open>The list \<open>clients\<close>, the variable \<open>method\<close>, which all watchers share, and the cells.\<close>

record tool_state =
  ts_clients :: "nat list"
  ts_method :: string
  ts_cells :: "tool_cell list"
  ts_health :: int

datatype tool_end = Running tool_state | Exited nat | Panicked string

definition configure :: "tool_env \<Rightarrow> tool_lib \<Rightarrow> string \<Rightarrow> configuration \<Rightarrow> (string \<times> configuration \<times> bool) option tool_io" where
  "configure env lib meth config =
     (if CloudConfGUID config \<noteq> '''' \<and> CloudOID config \<noteq> '''' then do {
        r \<leftarrow> call env (NewConfClient (CloudOID config) (CloudConfGUID config));
        case tool_record r of
          Inl e \<Rightarrow> ret None
        | Inr (confData, etag) \<Rightarrow>
            (case store_cloud lib config confData of
               (config', Some e) \<Rightarrow> ret None
             | (config', None) \<Rightarrow> ret (Some (SensorType config', config', True)))
      } else ret (Some (meth, config, False)))"

text \<open>The loop over the configurations; nothing stands for \<open>os.Exit(1)\<close>.\<close>

fun start_all :: "tool_env \<Rightarrow> tool_lib \<Rightarrow> configuration list \<Rightarrow> tool_state \<Rightarrow> tool_state option tool_io" where
  "start_all env lib [] s = ret (Some s)"
| "start_all env lib (config # configs) s = do {
     c \<leftarrow> configure env lib (ts_method s) config;
     case c of
       None \<Rightarrow> ret None
     | Some (meth, config', watched) \<Rightarrow> do {
         r \<leftarrow> runAdapter env meth config';
         case r of
           Inl e \<Rightarrow> ret None
         | Inr client \<Rightarrow>
             start_all env lib configs
               (s\<lparr>ts_clients := ts_clients s @ [client],
                  ts_method := meth,
                  ts_cells := ts_cells s @ [\<lparr>cell_client = Some client, cell_watched = watched, cell_newConfig = zero_config lib\<rparr>],
                  ts_health := (if Healthcheck config' \<noteq> 0 then Healthcheck config' else ts_health s)\<rparr>)
       }
   }"

text \<open>The callback of a watcher. A configuration that cannot be stored is reported, and used as far as it was stored.\<close>

definition conf_update :: "tool_env \<Rightarrow> tool_lib \<Rightarrow> nat \<Rightarrow> dict \<Rightarrow> tool_state \<Rightarrow> tool_state outcome tool_io" where
  "conf_update env lib i data s =
     (let cell = ts_cells s ! i;
          (newConfig, unmarshal_err) = store_cloud lib (cell_newConfig cell) data
      in do {
        (case unmarshal_err of Some e \<Rightarrow> onError (GoWrap ''error unmarshalling conf update: %v'' e) | None \<Rightarrow> ret ());
        (case cell_client cell of
           None \<Rightarrow> ret (Panics ''invalid memory address or nil pointer dereference'')
         | Some client \<Rightarrow> do {
             r \<leftarrow> call env (CloseAdapter client);
             (case tool_err r of Some e \<Rightarrow> onError (GoWrap ''error closing client: %v'' e) | None \<Rightarrow> ret ());
             r' \<leftarrow> runAdapter env (ts_method s) newConfig;
             ret (Returns (s\<lparr>ts_clients := remove1 client (ts_clients s),
                 ts_cells := (ts_cells s)[i := cell\<lparr>cell_client := (case r' of Inl e \<Rightarrow> None | Inr c \<Rightarrow> Some c),
                   cell_newConfig := newConfig\<rparr>]\<rparr>))
           })
      })"

fun close_all :: "tool_env \<Rightarrow> nat list \<Rightarrow> nat tool_io" where
  "close_all env [] = ret 0"
| "close_all env (client # clients) = do {
     r \<leftarrow> call env (CloseAdapter client);
     case tool_err r of Some e \<Rightarrow> do { onError (GoWrap ''error closing client: %v'' e); ret 1 } | None \<Rightarrow> close_all env clients
   }"

text \<open>
  What can happen: a signal, the end of the adapter that iteration \<open>i\<close> started, a changed configuration of iteration \<open>i\<close>.
  The end of an adapter ends the program if the variable of the iteration is in the list.
\<close>

datatype tool_event = Signal | Stopped nat | Update nat dict

definition cell_found :: "tool_state \<Rightarrow> nat \<Rightarrow> bool" where
  "cell_found s i \<longleftrightarrow> i < length (ts_cells s) \<and>
     (case cell_client (ts_cells s ! i) of None \<Rightarrow> False | Some c \<Rightarrow> c \<in> set (ts_clients s))"

fun tool_events :: "tool_env \<Rightarrow> tool_lib \<Rightarrow> tool_event list \<Rightarrow> tool_state \<Rightarrow> tool_end tool_io" where
  "tool_events env lib [] s = ret (Running s)"
| "tool_events env lib (e # es) s =
     (case e of
        Signal \<Rightarrow> do { code \<leftarrow> close_all env (ts_clients s); ret (Exited code) }
      | Stopped i \<Rightarrow>
          if cell_found s i then do { code \<leftarrow> close_all env (ts_clients s); ret (Exited code) }
          else tool_events env lib es s
      | Update i data \<Rightarrow>
          if i < length (ts_cells s) \<and> cell_watched (ts_cells s ! i) then do {
            r \<leftarrow> conf_update env lib i data s;
            case r of Returns s' \<Rightarrow> tool_events env lib es s' | Panics m \<Rightarrow> ret (Panicked m) | Fails e \<Rightarrow> ret (Panicked '''')
          } else tool_events env lib es s)"

definition tool_run :: "tool_env \<Rightarrow> tool_lib \<Rightarrow> string \<Rightarrow> configuration list \<Rightarrow> tool_event list \<Rightarrow> tool_end tool_io" where
  "tool_run env lib meth configsToRun es =
     (if configsToRun = [] then ret (Exited 1)
      else do {
        r \<leftarrow> start_all env lib configsToRun \<lparr>ts_clients = [], ts_method = meth, ts_cells = [], ts_health = 0\<rparr>;
        case r of
          None \<Rightarrow> ret (Exited 1)
        | Some s \<Rightarrow>
            if ts_health s \<noteq> 0 then do {
              h \<leftarrow> call env (StartHealthChecks (ts_health s));
              case tool_err h of Some e \<Rightarrow> ret (Exited 1) | None \<Rightarrow> tool_events env lib es s
            } else tool_events env lib es s
      })"

text \<open>\<open>os.Args\<close> has the name of the program first.\<close>

definition tool_main :: "tool_env \<Rightarrow> tool_lib \<Rightarrow> string list \<Rightarrow> tool_event list \<Rightarrow> tool_end tool_io" where
  "tool_main env lib osArgs es =
     (if 1 < length osArgs \<and> has_prefix (osArgs ! 1) ''-'' then do {
        r \<leftarrow> call env (ServiceMode (osArgs ! 0) (osArgs ! 1) (drop 2 osArgs));
        ret (Exited (if tool_err r = None then 0 else 1))
      }
      else do {
        r \<leftarrow> parseConfigs env lib (drop 1 osArgs);
        case r of
          Panics m \<Rightarrow> ret (Panicked m)
        | Fails e \<Rightarrow> ret (Exited 1)
        | Returns (meth, configsToRun) \<Rightarrow> tool_run env lib meth configsToRun es
      })"

section \<open>The watcher\<close>

text \<open>
  \<open>WatchForChanges\<close>: the callback is a change of some state \<open>'s\<close>. The watcher is closed only after it has ended, by its own
  goroutine, so the test of \<open>isRunning\<close> after a sleep is the end of a wait.
\<close>

fun WatchForChanges ::
    "tool_env \<Rightarrow> string \<Rightarrow> string \<Rightarrow> duration \<Rightarrow> (dict \<Rightarrow> 's \<Rightarrow> 's outcome tool_io) \<Rightarrow> nat \<Rightarrow> string \<Rightarrow> 's \<Rightarrow> 's outcome tool_io"
where
  "WatchForChanges env oid guid period cb 0 lastEtag s = ret (Returns s)"
| "WatchForChanges env oid guid period cb (Suc n) lastEtag s = do {
     stopped \<leftarrow> waitFor env period;
     if stopped then ret (Returns s)
     else do {
       r \<leftarrow> call env (GetPublicByGUID oid guid lastEtag);
       case tool_record r of
         Inl e \<Rightarrow> WatchForChanges env oid guid period cb n lastEtag s
       | Inr (data, etag) \<Rightarrow>
           if data = [] then WatchForChanges env oid guid period cb n lastEtag s
           else do {
             r' \<leftarrow> cb data s;
             case r' of Returns s' \<Rightarrow> WatchForChanges env oid guid period cb n etag s' | bad \<Rightarrow> ret bad
           }
     }
   }"

section \<open>The Windows service\<close>

text \<open>
  \<open>win_service.go\<close>. The actions of the command line; the calls of the service manager are one request, \<open>ServiceMode\<close>, whose
  answer is their error. \<open>in_service\<close> is \<open>svc.IsWindowsService\<close>.
\<close>

definition serviceMode :: "tool_env \<Rightarrow> go_err + bool \<Rightarrow> string \<Rightarrow> string \<Rightarrow> string list \<Rightarrow> go_err option tool_io" where
  "serviceMode env in_service thisExe action args =
     (if action = ''-debug'' then do { r \<leftarrow> call env (ServiceMode ''debug'' ''test-service'' args); ret (tool_err r) }
      else (case split_first (CHR '':'') action of
              None \<Rightarrow> ret (Some (GoErr ''usage: [-install:svcName | -remove:svcName | -run:svcName | debug]''))
            | Some (action', svcName) \<Rightarrow>
                (case in_service of
                   Inl e \<Rightarrow> ret (Some e)
                 | Inr True \<Rightarrow> do { r \<leftarrow> call env (ServiceMode ''run'' svcName args); ret (tool_err r) }
                 | Inr False \<Rightarrow>
                     if action' = ''-install'' then do {
                       r \<leftarrow> call env (ServiceMode ''install'' svcName ([''-run:'' @ svcName] @ args));
                       ret (tool_err r)
                     }
                     else if action' = ''-remove'' then do {
                       r \<leftarrow> call env (ServiceMode ''remove'' svcName []);
                       ret (tool_err r)
                     }
                     else ret (Some (GoErr ''unknown action: %s'')))))"

text \<open>Until the network answers, at most five times; the sleeps in between have no effect.\<close>

fun lookup_retries :: "tool_env \<Rightarrow> nat \<Rightarrow> unit tool_io" where
  "lookup_retries env 0 = ret ()"
| "lookup_retries env (Suc n) = do {
     r \<leftarrow> call env (LookupIP ''api.limacharlie.io'');
     if tool_err r = None then ret () else lookup_retries env n
   }"

fun service_start :: "tool_env \<Rightarrow> string \<Rightarrow> configuration list \<Rightarrow> nat list \<Rightarrow> (go_err + nat list) tool_io" where
  "service_start env meth [] clients = ret (Inr clients)"
| "service_start env meth (config # configs) clients = do {
     r \<leftarrow> runAdapter env meth config;
     case r of
       Inl e \<Rightarrow> do { call env (SaveError ''runAdapter(): %v''); ret (Inl e) }
     | Inr client \<Rightarrow> service_start env meth configs (clients @ [client])
   }"

fun service_close :: "tool_env \<Rightarrow> nat list \<Rightarrow> unit tool_io" where
  "service_close env [] = ret ()"
| "service_close env (client # clients) = do { call env (CloseAdapter client); service_close env clients }"

text \<open>The requests of the service manager, and the end of an adapter, which ends the service.\<close>

datatype service_event = SvcStop | SvcOther | SvcAdapterEnds

fun service_events :: "tool_env \<Rightarrow> nat list \<Rightarrow> service_event list \<Rightarrow> nat option tool_io" where
  "service_events env clients [] = ret None"
| "service_events env clients (e # es) =
     (case e of
        SvcStop \<Rightarrow> do { service_close env clients; service_events env clients es }
      | SvcOther \<Rightarrow> service_events env clients es
      | SvcAdapterEnds \<Rightarrow> ret (Some 0))"

text \<open>\<open>Execute\<close>: the code the process ends with, two for a panic, or nothing while it runs.\<close>

definition service_Execute :: "tool_env \<Rightarrow> tool_lib \<Rightarrow> string list \<Rightarrow> service_event list \<Rightarrow> nat option tool_io" where
  "service_Execute env lib args es = do {
     r \<leftarrow> parseConfigs env lib args;
     case r of
       Panics m \<Rightarrow> ret (Some 2)
     | Fails e \<Rightarrow> do { call env (SaveError ''parseConfigs(): %v''); ret (Some 1) }
     | Returns (meth, configsToRun) \<Rightarrow> do {
         lookup_retries env 5;
         if configsToRun = [] then ret (Some 1)
         else do {
           r \<leftarrow> service_start env meth configsToRun [];
           case r of Inl e \<Rightarrow> ret (Some 1) | Inr clients \<Rightarrow> service_events env clients es
         }
       }
   }"

section \<open>Properties\<close>

text \<open>The method that is given on the command line is the tag under which \<open>ParseCLI\<close> stores the other arguments.\<close>

lemma adapter_of_json_tag [simp]: "adapter_of (json_tag a) = Some a"
  by (cases a) (simp_all add: adapter_of_def)

lemma adapter_of_D: "adapter_of meth = Some a \<Longrightarrow> meth = json_tag a"
  by (simp add: adapter_of_def split: if_splits)

lemma json_tag_no_option: "\<not> has_prefix (json_tag a) ''-''"
  by (cases a) (simp_all add: has_prefix_def)

text \<open>
  A method runs an adapter if and only if it is the tag of the section of that adapter: the arguments of the command
  line, which are stored under the method, reach the adapter that is run.
\<close>

theorem adapter_of_tag: "adapter_of meth = Some a \<longleftrightarrow> meth = json_tag a"
  using adapter_of_D by auto

subsection \<open>Adapters that were started and closed\<close>

fun started_by :: "tool_query \<times> tool_answer \<Rightarrow> nat list" where
  "started_by (NewAdapter a sec, r) = (case tool_client r of Inl e \<Rightarrow> [] | Inr c \<Rightarrow> [c])"
| "started_by _ = []"

fun closed_by :: "tool_query \<times> tool_answer \<Rightarrow> nat list" where
  "closed_by (CloseAdapter c, r) = [c]"
| "closed_by _ = []"

definition started :: "(tool_query, tool_answer) history \<Rightarrow> nat list" where
  "started h = concat (map started_by (rev (calls h)))"

definition closed :: "(tool_query, tool_answer) history \<Rightarrow> nat list" where
  "closed h = concat (map closed_by (rev (calls h)))"

lemma started_closed_simps [simp]:
  "started [] = []" "started (e # h) = started h @ concat (map started_by (rev (call_of e)))"
  "closed [] = []" "closed (e # h) = closed h @ concat (map closed_by (rev (call_of e)))"
  by (simp_all add: started_def closed_def)

text \<open>What an operation adds to the adapters that were started and closed.\<close>

abbreviation handles :: "nat list \<Rightarrow> nat list \<Rightarrow> (tool_query, tool_answer) world \<Rightarrow> (tool_query, tool_answer) world \<Rightarrow> bool" where
  "handles new gone w w' \<equiv> started (hist w') = started (hist w) @ new \<and> closed (hist w') = closed (hist w) @ gone"

lemma runAdapter_handles:
  "wp (runAdapter env meth configs) (\<lambda>r w'. handles (case r of Inl e \<Rightarrow> [] | Inr c \<Rightarrow> [c]) [] w w') w"
  by (auto simp: runAdapter_def applyLogging_def wp_simps split: option.split sum.split)

lemma runAdapter_new:
  assumes "\<And>h a sec c. tool_client (e_call env h (NewAdapter a sec)) = Inr c \<Longrightarrow> P c"
  shows "wp (runAdapter env meth configs)
    (\<lambda>r w'. handles (case r of Inl e \<Rightarrow> [] | Inr c \<Rightarrow> [c]) [] w w' \<and> (\<forall>c. r = Inr c \<longrightarrow> P c)) w"
  by (rule wp_conj [OF runAdapter_handles])
    (auto simp: runAdapter_def applyLogging_def wp_simps intro: assms split: option.split sum.splits)

lemma configure_handles: "wp (configure env lib meth config) (\<lambda>r w'. handles [] [] w w') w"
  by (auto simp: configure_def wp_simps split: option.split sum.split prod.split)

lemma parseConfigs_handles: "wp (parseConfigs env lib args) (\<lambda>r w'. handles [] [] w w') w"
  by (auto simp: parseConfigs_def parseConfigsFromFile_def wp_simps split: list.split)

lemma start_all_handles:
  "wp (start_all env lib configs s) (\<lambda>r w'. case r of None \<Rightarrow> closed (hist w') = closed (hist w)
     | Some s' \<Rightarrow> \<exists>new. handles new [] w w' \<and> ts_clients s' = ts_clients s @ new) w"
proof (induction configs arbitrary: s w)
  case Nil
  show ?case by (simp add: wp_ret)
next
  case (Cons config configs)
  show ?case
    unfolding start_all.simps wp_bind
  proof (rule wp_mono [OF configure_handles], goal_cases)
    case (1 c w1)
    show ?case
    proof (cases c)
      case None
      then show ?thesis using 1 by (simp add: wp_ret)
    next
      case (Some x)
      obtain meth config' watched where x: "x = (meth, config', watched)" by (rule prod_cases3)
      show ?thesis
        unfolding Some x option.case prod.case wp_bind
        by (rule wp_mono [OF runAdapter_handles])
          (use 1 in \<open>auto simp: wp_ret split: sum.splits option.splits intro!: wp_mono [OF Cons.IH]\<close>)
    qed
  qed
qed

lemma close_all_handles:
  "wp (close_all env clients) (\<lambda>code w'. \<exists>k. handles [] (take k clients) w w' \<and> (code = 0 \<longrightarrow> length clients \<le> k)) w"
proof (induction clients arbitrary: w)
  case Nil
  show ?case by (simp add: wp_ret)
next
  case (Cons c cs)
  show ?case
  proof (cases "tool_err (e_call env (hist w) (CloseAdapter c))")
    case None
    show ?thesis
      unfolding close_all.simps wp_bind wp_call None option.case
    proof (rule wp_mono [OF Cons.IH], goal_cases)
      case (1 code w')
      then obtain k where "handles [] (c # take k cs) w w'" "code = 0 \<longrightarrow> length cs \<le> k" by auto
      then show ?case by (intro exI [of _ "Suc k"]) auto
    qed
  next
    case (Some e)
    then show ?thesis by (auto simp: wp_simps intro: exI [of _ 1])
  qed
qed

fun is_update :: "tool_event \<Rightarrow> bool" where
  "is_update (Update i data) = True"
| "is_update _ = False"

lemma tool_events_handles:
  "list_all (\<lambda>e. \<not> is_update e) es \<Longrightarrow>
   wp (tool_events env lib es s) (\<lambda>r w'. \<exists>k. handles [] (take k (ts_clients s)) w w' \<and> (r = Exited 0 \<longrightarrow> length (ts_clients s) \<le> k)) w"
proof (induction es)
  case Nil
  show ?case by (auto simp: wp_ret intro: exI [of _ 0])
next
  case (Cons e es)
  have close: "wp (do { code \<leftarrow> close_all env (ts_clients s); ret (Exited code) })
      (\<lambda>r w'. \<exists>k. handles [] (take k (ts_clients s)) w w' \<and> (r = Exited 0 \<longrightarrow> length (ts_clients s) \<le> k)) w"
    unfolding wp_bind wp_ret by (rule wp_mono [OF close_all_handles]) auto
  show ?case using Cons close by (cases e) auto
qed

lemma tool_events_close:
  assumes "list_all (\<lambda>e. \<not> is_update e) es" "started (hist w) = closed (hist w) @ ts_clients s"
  shows "wp (tool_events env lib es s) (\<lambda>r w'. r = Exited 0 \<longrightarrow> closed (hist w') = started (hist w')) w"
  by (rule wp_mono [OF tool_events_handles [OF assms(1)]]) (use assms(2) in auto)

lemma tool_run_closes:
  assumes "list_all (\<lambda>e. \<not> is_update e) es" "started (hist w) = []" "closed (hist w) = []"
  shows "wp (tool_run env lib meth configs es) (\<lambda>r w'. r = Exited 0 \<longrightarrow> closed (hist w') = started (hist w')) w"
proof -
  let ?post = "\<lambda>r w'. r = Exited 0 \<longrightarrow> closed (hist w') = started (hist w')"
  have "wp (case r of None \<Rightarrow> ret (Exited 1) | Some s \<Rightarrow>
      if ts_health s \<noteq> 0 then do {
        h \<leftarrow> call env (StartHealthChecks (ts_health s));
        case tool_err h of Some e \<Rightarrow> ret (Exited 1) | None \<Rightarrow> tool_events env lib es s
      } else tool_events env lib es s) ?post w1"
    if "case r of None \<Rightarrow> closed (hist w1) = closed (hist w) | Some s' \<Rightarrow> \<exists>new. handles new [] w w1 \<and> ts_clients s' = new"
    for r w1
    using that assms by (auto simp: wp_simps split: option.splits intro!: tool_events_close)
  then have "wp (do { r \<leftarrow> start_all env lib configs \<lparr>ts_clients = [], ts_method = meth, ts_cells = [], ts_health = 0\<rparr>;
      case r of None \<Rightarrow> ret (Exited 1)
      | Some s \<Rightarrow>
          if ts_health s \<noteq> 0 then do {
            h \<leftarrow> call env (StartHealthChecks (ts_health s));
            case tool_err h of Some e \<Rightarrow> ret (Exited 1) | None \<Rightarrow> tool_events env lib es s
          } else tool_events env lib es s }) ?post w"
    unfolding wp_bind [of "start_all _ _ _ _"] by (rule wp_mono [OF start_all_handles]) (simp split: option.splits)
  then show ?thesis by (simp add: tool_run_def wp_ret)
qed

text \<open>C24: Without changes of the configuration, whatever the order of the events and whatever the services answer: when the
  program ends with success, it has closed exactly the adapters that it has started, in the order it started them.
\<close>

theorem tool_closes_what_it_started:
  assumes "list_all (\<lambda>e. \<not> is_update e) es"
  shows "wp (tool_main env lib osArgs es) (\<lambda>r w'. r = Exited 0 \<longrightarrow> closed (hist w') = started (hist w')) fresh_world"
  unfolding tool_main_def wp_if
  by (auto simp: wp_simps split: outcome.split intro!: wp_mono [OF parseConfigs_handles] tool_run_closes [OF assms])

lemma conf_update_handles:
  assumes "\<And>h a sec c. tool_client (e_call env h (NewAdapter a sec)) = Inr c \<Longrightarrow> P c"
  shows "wp (conf_update env lib i data s) (\<lambda>r w'. \<exists>new gone. handles new gone w w' \<and>
    (\<forall>c\<in>set new. P c) \<and> (\<forall>c\<in>set gone. cell_client (ts_cells s ! i) = Some c) \<and>
    (\<forall>s'. r = Returns s' \<longrightarrow> set (ts_clients s') \<subseteq> set (ts_clients s))) w"
proof -
  obtain newConfig unmarshal_err where st: "store_cloud lib (cell_newConfig (ts_cells s ! i)) data = (newConfig, unmarshal_err)"
    by fastforce
  show ?thesis
  proof (cases "cell_client (ts_cells s ! i)")
    case None
    then show ?thesis by (auto simp: conf_update_def st wp_simps split: option.split)
  next
    case (Some client)
    define Q where "Q r w' \<longleftrightarrow> (\<exists>new gone. handles new gone w w' \<and>
        (\<forall>c\<in>set new. P c) \<and> (\<forall>c\<in>set gone. cell_client (ts_cells s ! i) = Some c) \<and>
        (\<forall>s'. r = Returns s' \<longrightarrow> set (ts_clients s') \<subseteq> set (ts_clients s)))" for r :: "tool_state outcome" and w'
    have run: "wp (runAdapter env meth configs) (\<lambda>r. wp (ret (Returns (f r))) Q) w1"
      if w1: "handles [] [client] w w1" and f: "\<And>r. ts_clients (f r) = remove1 client (ts_clients s)" for meth configs f w1
    proof (rule wp_mono [OF runAdapter_new [of env P, OF assms]], assumption, goal_cases)
      case (1 r w2)
      have "handles (case r of Inl e \<Rightarrow> [] | Inr c \<Rightarrow> [c]) [client] w w2" using 1 w1 by simp
      then show ?case
        unfolding wp_ret Q_def
        by (intro exI conjI) (use 1 in \<open>auto simp: f Some dest: set_remove1_subset [THEN subsetD] split: sum.splits\<close>)
    qed
    have "wp (conf_update env lib i data s) Q w"
      by (auto simp: conf_update_def st Some wp_bind wp_call wp_ret wp_unit_ops split: option.split intro!: run)
    then show ?thesis unfolding Q_def .
  qed
qed

text \<open>C25: The adapter that is started after a change of the configuration is not in the list of clients: if it is a new one, it is
  not closed, however the program ends afterwards.
\<close>

theorem restarted_never_closed:
  assumes "list_all (\<lambda>e. \<not> is_update e) es"
    and "\<And>h a sec c. tool_client (e_call env h (NewAdapter a sec)) = Inr c \<Longrightarrow>
      c \<notin> set (ts_clients s) \<union> set (closed (hist w)) \<and> Some c \<notin> set (map cell_client (ts_cells s))"
  shows "wp (tool_events env lib (Update i data # es) s)
    (\<lambda>r w'. \<forall>c\<in>set (drop (length (started (hist w))) (started (hist w'))). c \<notin> set (closed (hist w'))) w"
proof -
  let ?P = "\<lambda>c. c \<notin> set (ts_clients s) \<union> set (closed (hist w)) \<and> Some c \<notin> set (map cell_client (ts_cells s))"
  have "wp (case r of Returns s' \<Rightarrow> tool_events env lib es s' | Panics m \<Rightarrow> ret (Panicked m) | Fails e \<Rightarrow> ret (Panicked ''''))
      (\<lambda>r w'. \<forall>c\<in>set (drop (length (started (hist w))) (started (hist w'))). c \<notin> set (closed (hist w'))) w1"
    if h: "handles new gone w w1" and new: "\<forall>c\<in>set new. ?P c"
      and gone: "\<forall>c\<in>set gone. cell_client (ts_cells s ! i) = Some c" "i < length (ts_cells s)"
      and sub: "\<forall>s'. r = Returns s' \<longrightarrow> set (ts_clients s') \<subseteq> set (ts_clients s)" for r w1 new gone
  proof -
    have away: "c \<notin> set gone" if "c \<in> set new" for c
    proof
      assume "c \<in> set gone"
      with gone have "Some c \<in> set (map cell_client (ts_cells s))" by (metis length_map nth_map nth_mem)
      with new that show False by blast
    qed
    show ?thesis
    proof (cases r)
      case (Returns s')
      show ?thesis
        unfolding Returns outcome.case
        by (rule wp_mono [OF tool_events_handles [OF assms(1)]])
          (use h new away sub Returns in \<open>auto dest!: in_set_takeD\<close>)
    qed (use h new away in \<open>auto simp: wp_ret\<close>)
  qed
  note after = this
  show ?thesis
  proof (cases "i < length (ts_cells s) \<and> cell_watched (ts_cells s ! i)")
    case True
    then have eq: "tool_events env lib (Update i data # es) s = do {
        r \<leftarrow> conf_update env lib i data s;
        case r of Returns s' \<Rightarrow> tool_events env lib es s' | Panics m \<Rightarrow> ret (Panicked m) | Fails e \<Rightarrow> ret (Panicked '''') }"
      by simp
    show ?thesis
      unfolding eq wp_bind
    proof (rule wp_mono [OF conf_update_handles [of env ?P, OF assms(2)]], assumption, elim exE conjE, goal_cases)
      case (1 r w1 new gone)
      show ?case by (rule after [where new = new and gone = gone]) (use 1 True in auto)
    qed
  next
    case False
    then have eq: "tool_events env lib (Update i data # es) s = tool_events env lib es s" by auto
    show ?thesis
      unfolding eq by (rule wp_mono [OF tool_events_handles [OF assms(1)]]) auto
  qed
qed

subsection \<open>The service and the cloud\<close>

fun asks_cloud :: "tool_query \<times> tool_answer \<Rightarrow> bool" where
  "asks_cloud (NewConfClient oid guid, r) = True"
| "asks_cloud (GetPublicByGUID oid guid etag, r) = True"
| "asks_cloud _ = False"

definition local_only :: "(tool_query, tool_answer) world \<Rightarrow> (tool_query, tool_answer) world \<Rightarrow> bool" where
  "local_only w w' \<longleftrightarrow> filter asks_cloud (calls (hist w')) = filter asks_cloud (calls (hist w))"

interpretation local_only: frame local_only
  by unfold_locales (auto simp: local_only_def)

lemmas local_only_rules [simp, intro!] = local_only.rules

lemma local_only_prims [simp, intro!]:
  "along local_only (now env)" "along local_only (call env (CloseAdapter c))" "along local_only (call env (NewAdapter a sec))"
  "along local_only (call env (LookupIP s))" "along local_only (call env (SaveError s))" "along local_only (call env (ReadConfigs f))"
  by (auto intro!: alongI simp: wp_now wp_call local_only_def)

lemma local_only_ops [simp, intro!]:
  "along local_only (runAdapter env meth config)" "along local_only (parseConfigs env lib args)"
  by (auto simp: runAdapter_def applyLogging_def parseConfigs_def parseConfigsFromFile_def split: option.split list.split)

lemma local_only_loops [simp, intro!]:
  "along local_only (lookup_retries env n)" "along local_only (service_start env meth configs clients)"
  "along local_only (service_close env clients)" "along local_only (service_events env clients es)"
proof -
  show "along local_only (lookup_retries env n)" by (induction n) auto
  show "along local_only (service_start env meth configs clients)"
    by (induction configs arbitrary: clients) (auto split: sum.split)
  show close: "along local_only (service_close env cs)" for cs by (induction cs) auto
  show "along local_only (service_events env clients es)"
    by (induction es) (auto simp: close split: service_event.split)
qed

text \<open>C22: As a Windows service the program never asks the cloud for a configuration: a configuration that names one by its
  organisation and identifier is run as it stands in the file.
\<close>

theorem service_ignores_cloud:
  "wp (service_Execute env lib args es) (\<lambda>r w'. filter asks_cloud (calls (hist w')) = []) fresh_world"
proof -
  have "along local_only (service_Execute env lib args es)"
    by (auto simp: service_Execute_def split: outcome.split sum.split)
  then show ?thesis by (rule along_wp) (simp add: local_only_def)
qed

subsection \<open>A file in JSON\<close>

lemma decode_all_append [simp]: "decode_all (docs, e) configs = (configs @ docs, e)"
  by (induction docs arbitrary: configs) auto

lemma start_all_starts:
  assumes "\<And>h a sec. \<exists>c. tool_client (e_call env h (NewAdapter a sec)) = Inr c"
  shows "list_all (\<lambda>c. CloudConfGUID c = '''') configs \<Longrightarrow> adapter_of (ts_method s) = Some a \<Longrightarrow>
    wp (start_all env lib configs s) (\<lambda>r w'. \<exists>s'. r = Some s' \<and> length (started (hist w')) = length (started (hist w)) + length configs) w"
proof (induction configs arbitrary: s w)
  case Nil
  then show ?case by (simp add: wp_ret)
next
  case (Cons config configs)
  have run: "wp (runAdapter env (ts_method s) config) (\<lambda>r w'. \<exists>c. r = Inr c \<and> handles [c] [] w w') w"
    by (auto simp: runAdapter_def applyLogging_def wp_simps Cons.prems(2) split: sum.split)
      (metis assms sum.distinct(1))
  have conf: "configure env lib (ts_method s) config = ret (Some (ts_method s, config, False))"
    using Cons.prems(1) by (simp add: configure_def)
  show ?case
    unfolding start_all.simps conf wp_bind wp_ret option.case prod.case
  proof (rule wp_mono [OF run], elim exE conjE, goal_cases)
    case (1 r w1 c)
    show ?case
      unfolding 1(1) sum.case by (rule wp_mono [OF Cons.IH]) (use Cons.prems 1 in auto)
  qed
qed

text \<open>C27: A file in JSON, which the YAML decoder reads as well, with the same result: every adapter that is configured in it is
  started twice, and ships everything twice.
\<close>

theorem json_file_runs_twice:
  assumes "json_decoder lib b = (cs, None)" "yaml_decoder lib b = (cs, None)" "list_all (\<lambda>c. CloudConfGUID c = '''') cs"
    and "adapter_of meth = Some a"
    and "\<And>h. tool_file (e_call env h (ReadConfigs filePath)) = Inr b"
    and "\<And>h a sec. \<exists>c. tool_client (e_call env h (NewAdapter a sec)) = Inr c"
  shows "wp (tool_main env lib [prog, meth, filePath] []) (\<lambda>r w'. length (started (hist w')) = 2 * length cs) fresh_world"
proof -
  let ?s0 = "\<lparr>ts_clients = [], ts_method = meth, ts_cells = [], ts_health = 0\<rparr>"
  have conf: "list_all (\<lambda>c. CloudConfGUID c = '''') (cs @ cs)" using assms(3) by simp
  have twice: "wp (tool_run env lib meth (cs @ cs) []) (\<lambda>r w'. length (started (hist w')) = 2 * length cs) w" if "started (hist w) = []" for w
  proof (cases "cs = []")
    case True
    then show ?thesis using that by (simp add: tool_run_def wp_ret)
  next
    case False
    then have eq: "tool_run env lib meth (cs @ cs) [] = do {
        r \<leftarrow> start_all env lib (cs @ cs) ?s0;
        case r of
          None \<Rightarrow> ret (Exited 1)
        | Some s \<Rightarrow>
            if ts_health s \<noteq> 0 then do {
              h \<leftarrow> call env (StartHealthChecks (ts_health s));
              case tool_err h of Some e \<Rightarrow> ret (Exited 1) | None \<Rightarrow> tool_events env lib [] s
            } else tool_events env lib [] s }"
      by (simp only: tool_run_def append_is_Nil_conv simp_thms if_False)
    show ?thesis
      unfolding eq wp_bind [of "start_all _ _ _ _"]
    proof (rule wp_mono [OF start_all_starts [OF assms(6) conf, of ?s0 a]], goal_cases)
      case (2 r w')
      then show ?case using that by (auto simp: wp_simps split: option.split)
    qed (simp add: assms(4))
  qed
  have no_option: "\<not> has_prefix meth ''-''"
    using adapter_of_D [OF assms(4)] json_tag_no_option by simp
  then have cond: "\<not> (1 < length [prog, meth, filePath] \<and> has_prefix ([prog, meth, filePath] ! 1) ''-'')" by simp
  have parse: "wp (parseConfigs env lib (drop 1 [prog, meth, filePath]))
      (\<lambda>r w'. r = Returns (meth, cs @ cs) \<and> started (hist w') = []) fresh_world"
    by (simp add: parseConfigs_def parseConfigsFromFile_def parse_text_def assms(1,2,5) wp_bind wp_call wp_ret)
  show ?thesis
    unfolding tool_main_def if_not_P [OF cond] wp_bind by (rule wp_mono [OF parse]) (auto intro: twice)
qed

subsection \<open>Concrete runs\<close>

definition demo_config :: configuration where
  "demo_config = \<lparr>Healthcheck = 0,
     section_of = \<lambda>_. \<lparr>sec_ClientOptions = \<lparr>co_Architecture = '''', co_stats = None, co_rest = []\<rparr>, sec_rest = []\<rparr>,
     SensorType = ''stdin'', CloudOID = '''', CloudConfGUID = '''', CloudShowConfig = False\<rparr>"

definition demo_lib :: tool_lib where
  "demo_lib = \<lparr>json_decoder = \<lambda>_. ([demo_config], None), yaml_decoder = \<lambda>_. ([demo_config], None),
     store_cli = \<lambda>c _. Returns c, store_cloud = \<lambda>c _. (c, None), config_type = RStruct [], lib_ParseFloat = \<lambda>_. None,
     environ = [], zero_config = demo_config\<rparr>"

fun demo_tool :: "tool_query \<Rightarrow> tool_answer" where
  "demo_tool (ReadConfigs f) = ToolFile (Inr ''{}'')"
| "demo_tool (NewAdapter a sec) = ToolClient (Inr 7)"
| "demo_tool _ = ToolErr None"

theorem json_file_runs_twice_witness:
  "wp (tool_main (steady_env 0 demo_tool) demo_lib [''adapter'', ''stdin'', ''config.json''] [])
    (\<lambda>r w'. length (started (hist w')) = 2) fresh_world"
  using json_file_runs_twice [of demo_lib "''{}''" "[demo_config]" "''stdin''" AdStdin "steady_env 0 demo_tool" "''config.json''" "''adapter''"]
  by (simp add: demo_lib_def demo_config_def adapter_of_def tool_file_def tool_client_def)

theorem tool_closes_what_it_started_witness:
  "wp (tool_main (steady_env 0 demo_tool) demo_lib [''adapter'', ''stdin'', ''config.json''] [Stopped 5, Signal])
    (\<lambda>r w'. r = Exited 0 \<longrightarrow> closed (hist w') = started (hist w')) fresh_world"
  by (rule tool_closes_what_it_started) simp

definition demo_tool_state :: tool_state where
  "demo_tool_state = \<lparr>ts_clients = [3], ts_method = ''stdin'',
     ts_cells = [\<lparr>cell_client = Some 3, cell_watched = True, cell_newConfig = demo_config\<rparr>], ts_health = 0\<rparr>"

theorem restarted_never_closed_witness:
  "wp (tool_events (steady_env 0 demo_tool) demo_lib [Update 0 [], Stopped 0, Signal] demo_tool_state)
    (\<lambda>r w'. \<forall>c\<in>set (drop 0 (started (hist w'))). c \<notin> set (closed (hist w'))) fresh_world"
  using restarted_never_closed [of "[Stopped 0, Signal]" "steady_env 0 demo_tool" demo_tool_state fresh_world demo_lib 0 "[]"]
  by (simp add: demo_tool_state_def tool_client_def)

end
