(* ===== verification/Spec2Isabelle.thy ===== *)
theory Spec2Isabelle
  imports Json_Clean Cli_Config Tokenizer Dedup Event_Sync Parquet_Bundle Pipeline_Order Pipeline_Close
    Poll_Pages Poll_Sublime Poll_Proofpoint Poll_Cursor Poll_Slack Object_Store Line_Adapters Queue_Adapters O365 Harmony File_Watch Cylance K8s_Pods Bitwarden SentinelOne Imap Microsoft Trend_Micro Wiz Cato Client_Libs
    Listeners Platform_Logs Tool
begin

text \<open>
  A verification development for the LimaCharlie USP adapters: a Go program that collects events from many sources
  and ships them to the LimaCharlie cloud through the client library \<open>uspclient\<close>. Every adapter is a package with
  the same shape: a configuration with \<open>Validate\<close>, a constructor \<open>New...Adapter\<close> that starts goroutines, a loop that
  obtains events (by polling an HTTP service, reading a stream, taking messages from a queue or objects from a
  store) and calls \<open>Ship\<close> for each, and \<open>Close\<close>. The package \<open>utils\<close> has what they share.

  \<^bold>\<open>The utilities.\<close>
  \<^item> \<open>Prelude\<close>, \<open>Go_Strings\<close>: errors, outcomes of code that can panic, durations, the functions of \<open>strings\<close> and
    \<open>strconv\<close> that the code uses.
  \<^item> \<open>Json_Value\<close>, \<open>Json_Access\<close>, \<open>Json_Path\<close>, \<open>Json_Query\<close>, \<open>Json_Clean\<close>: \<open>utils/json.go\<close>. \<open>gval\<close> is a Go
    \<open>interface{}\<close>, \<open>dict\<close> a \<open>Dict\<close> in iteration order. The path search \<open>findElem\<close> terminates by a well-founded order
    because decoding of embedded JSON text is a type of functions with a rank. Path search is specified by the values
    stored in the document, presence agrees with it, decoding leaves no number text and round-trips integers.
  \<^item> \<open>Cli_Config\<close>: \<open>utils/env_parse.go\<close>, from command line words to the configuration tree.
  \<^item> \<open>Tokenizer\<close>: \<open>utils/stream_tokenizer.go\<close>, refined from splitting the whole stream.
  \<^item> \<open>Dedup\<close>: \<open>utils/deduping.go\<close>. The locale \<open>deduper\<close> is the contract (a key lives a number of rotations),
    interpreted by the ring of buckets.
  \<^item> \<open>Event_Sync\<close>: \<open>utils/event.go\<close>, steps under the mutex and an inductive reachability relation.
  \<^item> \<open>Parquet_Bundle\<close>: \<open>utils/parquet.go\<close>, \<open>utils/parquet_supported.go\<close>.
  \<^item> \<open>Pipeline\<close>, \<open>Pipeline_Order\<close>, \<open>Pipeline_Close\<close>: \<open>utils/pipeliner.go\<close>, one step function per goroutine, all
    interleavings; order, absence of panics and deadlocks, termination, and that closing returns, for generators without
    errors and mappers that give an element, and the loss of an error with one.

  \<^bold>\<open>The adapters.\<close> \<open>World\<close> has the monad they run in: the state is the history of effects (clock readings, calls,
  shipping attempts, waits, reports) and the stop flag; everything outside the program is an oracle \<open>env\<close> that may
  depend on the whole history, so the theorems hold for every behaviour of services, clock and client unless a named
  hypothesis restricts it. \<open>wp\<close> is the weakest precondition calculus of that monad. \<open>Polling\<close> has the loop, the
  deduplication table and the loop invariant rule; its locale \<open>poller\<close> is the contract of a request function.
  \<^item> \<open>Poll_Okta\<close> (\<open>okta\<close>), \<open>Poll_Pages\<close> (\<open>hubspot\<close>, \<open>pandadoc\<close>, \<open>zendesk\<close>, \<open>mimecast\<close>), \<open>Poll_Sublime\<close> (\<open>sublime\<close>),
    \<open>Poll_Proofpoint\<close> (\<open>proofpoint_tap\<close>), \<open>Poll_Cursor\<close> (\<open>1password\<close>, \<open>itglue\<close>, \<open>sophos\<close>, \<open>box\<close>), \<open>Poll_Slack\<close>
    (\<open>slack\<close>), \<open>O365\<close> (\<open>o365\<close>): the pollers, \<open>client.go\<close> of each package. Under the hypotheses on clock, service and
    deduper that each theorem names they deliver nothing twice, their windows leave no gap, pages are followed, and what is lost when a page fails.
  \<^item> \<open>Object_Store\<close> (\<open>s3\<close>, \<open>gcs\<close>): the locale \<open>bucket_reader\<close> is the contract of one pass over a bucket;
    an object is deleted only after it was shipped.
  \<^item> \<open>Line_Adapters\<close> (\<open>stdin\<close>, \<open>syslog\<close>, \<open>simulator\<close>, \<open>evtx\<close>), \<open>Queue_Adapters\<close> (\<open>sqs\<close>, \<open>pubsub\<close>, \<open>azure_event_hub\<close>,
    \<open>sqs-files\<close>): lines in, messages out; messages are deleted or acknowledged after shipping.
  \<^item> \<open>Harmony\<close> (\<open>harmony\<close>): two sources over one request function with a token cache and bounded retries; the query
    windows leave no gap when records lie in their windows, no email state is delivered twice while the deduper forgets nothing, and the deduper outlives the lookback.
  \<^item> \<open>Frame\<close>: relations between the world before and after an operation compose; the rules are proved once in a locale and
    interpreted on the relations the adapters need.
  \<^item> \<open>File_Tail\<close>, \<open>File_Watch\<close> (\<open>file\<close>): the table of followed files with tails, rotation and inactivity; the tails that run
    are those of the table, a rotated or shrunk file is followed again. \<open>Json_Lines\<close> reads objects over several lines with a scanner
    that knows strings, and compares it with the count of braces in the code: they agree, and the objects come out one by one,
    as long as the braces in strings balance; one too many in a string ends all delivery.
  \<^item> \<open>Cylance\<close> (\<open>cylance\<close>): lists, details and retries with a token; what is delivered is delivered once, retries are
    bounded, and a page that fails is lost.
  \<^item> \<open>K8s_Pods\<close> (\<open>k8s_pods\<close>): nested watchers of pods, containers and log files; one tail at a time for a container, and what
    happens at rotation and removal.
  \<^item> \<open>Bitwarden\<close> (\<open>bitwarden\<close>), \<open>SentinelOne\<close> (\<open>sentinelone\<close>): windows that meet; the result of a page as a function
    of the answers to its attempts, and their delays.
  \<^item> \<open>Imap\<close> (\<open>imap\<close>): messages by increasing UID, none twice, and exactly those above all
    UIDs before them; what an unreadable message, the size limit and
    the first UID do.
  \<^item> \<open>Microsoft\<close> (\<open>ms_graph\<close>, \<open>defender\<close>, \<open>entraid\<close>): the locale \<open>alert_source\<close> is the contract of a list request; every alert
    listed with an identifier and a time is delivered while the adapter is not stopped, alerts of one time repeatedly. \<open>Trend_Micro\<close> (\<open>trendmicro\<close>): its windows leave gaps.
  \<^item> \<open>Wiz\<close> (\<open>wiz\<close>): pages of a list of alerts: what is delivered is exactly what comes before the last known alert, which
    is every alert once from a list with the newest first, and nothing any more from one with the oldest first.
  \<^item> \<open>Cato\<close> (\<open>cato\<close>): all requests of \<open>send\<close> but eleven were answered with a rate limit; the panics after three refusals and in \<open>Close\<close>.
  \<^item> \<open>Client_Libs\<close> (\<open>duo\<close>, \<open>falconcloud\<close>, \<open>bigquery\<close>): adapters over a client library, which is the environment. All logs
    of Duo but those of the first answer, in listed order, exactly the recent events of a stream, columns named by position.
  \<^item> \<open>Listeners\<close> (\<open>syslog\<close>, \<open>pubsub\<close>, \<open>azure_event_hub\<close>): accept loop, subscription and receivers; a constructor that fails
    closes what it opened, and one that succeeds has a receiver for each partition.
  \<^item> \<open>Platform_Logs\<close> (\<open>wel\<close>, \<open>mac_unified_logging\<close>): callbacks under a lock and a wait group, which stay balanced while the
    adapter runs; exactly the events to be delivered are rendered and delivered; what an event after \<open>Close\<close> does.

  \<^bold>\<open>The program.\<close> \<open>Tool\<close> (\<open>containers/general\<close>, \<open>containers/conf\<close>): configurations from a file, the command line (with
  \<open>Cli_Config\<close>) or the cloud, the adapter of a method, and what happens while adapters run: signals, ends, updates. Without
  updates what was started is closed; a JSON file starts everything twice, and an adapter restarted by an update is not closed.

  \<^bold>\<open>Bounds.\<close> A loop that runs until the adapter is stopped has a parameter \<open>n\<close>, the number of turns looked at, and the
  theorems are for every \<open>n\<close>. The page loops have a bound on the number of pages; a request that is still paging then
  has the result \<open>None\<close>, which the loop treats as the end of what is looked at. The retry loop of \<open>o365\<close> and the sleep
  loop of the simulator have fuel that is proved to be enough. Times and durations are integers in nanoseconds; where
  the code multiplies into an \<open>int64\<close> the product is wrapped. Integers of JSON documents keep their width.

  \<^bold>\<open>Not modelled.\<close> Debug logs. The text of formatted errors beyond its format string. The byte layout of URLs beyond
  their parts. The HTTP, cloud, Parquet, gzip and JSON libraries, which are parameters. Goroutine starts and wait groups
  of constructors: each goroutine is run on its own, except in the pipeliner and the deduper, whose goroutines share
  memory. The stop flag is read by \<open>IsSet\<close> as the last wait left it where the adapter is the only one to set it.
  Of the program: usage and configuration printing, the HTTP handler of the
  health check, the calls of the Windows service manager, and \<open>containers/connectivity\<close>, a diagnostic that only opens
  connections. Of \<open>mac_unified_logging\<close> the goroutines that end the process.
\<close>

end
